(* ===== verification/AES67_Prelude.thy ===== *)
theory AES67_Prelude
  imports Main "HOL-Library.Word"
begin

text \<open>
  Shared vocabulary of the development: the machine integer types the C++ code uses, the
  reads and writes of a block of memory (\<open>std::memcpy\<close> on an array), index arithmetic on a
  circular array, and the named collections the component theories add to.

  \<^item> \<open>mem_simps\<close>: reading a block of memory after it was written;
  \<^item> \<open>inv_defs\<close>: the definitions of the components' invariants.
\<close>

unbundle bit_operations_syntax

named_theorems mem_simps
named_theorems inv_defs

section \<open>Machine integers\<close>

type_synonym u8 = "8 word"
type_synonym u16 = "16 word"
type_synonym u32 = "32 word"
type_synonym u64 = "64 word"

type_synonym byte_list = "u8 list"

section \<open>Copying into an array\<close>

text \<open>
  \<open>memcpy dst off src n\<close> is the array \<open>dst\<close> after \<open>std::memcpy(&dst[off], src, n)\<close>. The copy is
  in bounds when \<open>off + n \<le> length dst\<close> and \<open>n \<le> length src\<close>; outside that C++ leaves the
  behaviour undefined, and the components prove that they never go there.
\<close>

definition memcpy :: "'a list \<Rightarrow> nat \<Rightarrow> 'a list \<Rightarrow> nat \<Rightarrow> 'a list" where
  "memcpy dst off src n = take off dst @ take n src @ drop (off + n) dst"

lemma length_memcpy [mem_simps, simp]:
  "off + n \<le> length dst \<Longrightarrow> n \<le> length src \<Longrightarrow> length (memcpy dst off src n) = length dst"
  by (simp add: memcpy_def)

lemma nth_memcpy [mem_simps]:
  assumes "off + n \<le> length dst" "n \<le> length src" "i < length dst"
  shows "memcpy dst off src n ! i =
    (if off \<le> i \<and> i < off + n then src ! (i - off) else dst ! i)"
  using assms by (auto simp: memcpy_def nth_append)

lemma memcpy_zero [simp]: "memcpy dst off src 0 = dst"
  by (simp add: memcpy_def)

section \<open>Circular index arithmetic\<close>

text \<open>Two absolute positions less than one lap apart share a cell only if they are equal.\<close>

lemma mod_window_inj:
  fixes i j c :: nat
  assumes "i mod c = j mod c" "i \<le> j" "j < i + c"
  shows "i = j"
proof -
  have "(j - i) mod c = 0"
    using assms(1,2) by (metis mod_eq_dvd_iff_nat mod_0_imp_dvd dvd_imp_mod_0)
  moreover have "j - i < c" using assms(2,3) by linarith
  ultimately show ?thesis using assms(2) by simp
qed

lemma mod_window_neq:
  fixes i j c :: nat
  assumes "i < j" "j < i + c"
  shows "i mod c \<noteq> j mod c"
  using mod_window_inj [of i c j] assms by auto

lemma mod_add_wrap:
  fixes i k c :: nat
  assumes "k < c"
  shows "(i + k) mod c = (if i mod c + k \<ge> c then i mod c + k - c else i mod c + k)"
proof -
  have b: "i mod c < c" using assms by simp
  have "(i + k) mod c = (i mod c + k) mod c" by (simp add: mod_add_left_eq)
  also have "\<dots> = (if i mod c + k \<ge> c then i mod c + k - c else i mod c + k)"
  proof (cases "i mod c + k \<ge> c")
    case True
    then have "(i mod c + k) mod c = (i mod c + k - c) mod c" by (simp add: le_mod_geq)
    then show ?thesis using True b assms by simp
  qed simp
  finally show ?thesis .
qed

section \<open>List facts the components share\<close>

lemma take_drop_append: "take n xs @ take m (drop n xs) = take (n + m) xs"
  by (simp add: take_add)

lemma replicate_update_same [simp]: "(replicate n x)[k := x] = replicate n x"
  by (cases "k < n") (simp_all add: list_update_same_conv list_update_beyond)

text \<open>Erasing and assigning what \<open>find_if\<close> found in a vector.\<close>

fun erase_first :: "('a \<Rightarrow> bool) \<Rightarrow> 'a list \<Rightarrow> 'a list" where
  "erase_first P [] = []"
| "erase_first P (x # xs) = (if P x then xs else x # erase_first P xs)"

fun assign_first :: "('a \<Rightarrow> bool) \<Rightarrow> 'a \<Rightarrow> 'a list \<Rightarrow> 'a list" where
  "assign_first P v [] = []"
| "assign_first P v (x # xs) = (if P x then v # xs else x # assign_first P v xs)"

lemma erase_first_length: "length (erase_first P xs) = (if list_ex P xs then length xs - 1 else length xs)"
proof (induction xs)
  case (Cons x xs)
  then show ?case by (cases xs) auto
qed simp

text \<open>Sums over an array of which one cell, or one thread, changes.\<close>

lemma sum_list_upd:
  fixes f :: "'a \<Rightarrow> 'b::comm_monoid_add"
  assumes "i < length xs"
  shows "sum_list (map f (xs[i := x])) + f (xs ! i) = sum_list (map f xs) + f x"
  using assms by (induction xs arbitrary: i) (auto split: nat.split simp: ac_simps)

lemma sum_fun_upd:
  fixes f :: "'a \<Rightarrow> 'b::comm_monoid_add" and T n :: nat
  assumes "T < n"
  shows "(\<Sum>U<n. f ((g(T := x)) U)) + f (g T) = (\<Sum>U<n. f (g U)) + f x"
proof -
  have "(\<Sum>U<n. f ((g(T := x)) U)) = f x + (\<Sum>U\<in>{..<n} - {T}. f (g U))"
    using assms by (subst sum.remove [of _ T]) auto
  moreover have "(\<Sum>U<n. f (g U)) = f (g T) + (\<Sum>U\<in>{..<n} - {T}. f (g U))"
    using assms by (subst sum.remove [of _ T]) auto
  ultimately show ?thesis by (simp add: ac_simps)
qed

lemma sum_list_replicate_zero [simp]: "sum_list (replicate n (0::'a::comm_monoid_add)) = 0"
  by (induction n) auto

section \<open>Powers of two\<close>

lemma pow2_lessD: "(2::nat) ^ m < 2 ^ n \<Longrightarrow> m < n"
  by (rule power_less_imp_less_exp [of 2]) auto

lemma unat_pow2: "n < LENGTH('a) \<Longrightarrow> unat (2 ^ n :: 'a::len word) = 2 ^ n"
proof -
  assume n: "n < LENGTH('a)"
  have "(2 ^ n :: 'a word) = of_nat (2 ^ n)" by simp
  then show ?thesis using n by (simp only: unsigned_of_nat) (simp add: take_bit_nat_eq_self)
qed

section \<open>Values of words\<close>

lemma unat_byte: "unat (b :: u8) < 256"
  using unsigned_less [of b, where 'a = nat] by simp

lemma unat_nibbles [simp]: "unat (b :: u8) div 16 < 16" "unat b mod 16 < 16"
  using unat_byte [of b] by auto

lemma unat_u16: "unat (w :: u16) < 65536"
  using unsigned_less [of w, where 'a = nat] by simp

lemma unat_of_nat_small: "n < 2 ^ LENGTH('a) \<Longrightarrow> unat (of_nat n :: 'a::len word) = n"
  by (simp add: unsigned_of_nat take_bit_nat_eq_self)

lemma ucast_byte_back: "ucast (ucast (b :: u8) :: u64) = b"
  by (rule bit_word_eqI) (auto simp: bit_unsigned_iff)

section \<open>Reading bytes\<close>

text \<open>
  A read of a received packet: \<open>None\<close> is a read outside the buffer, which C++ leaves undefined. A
  parser is memory safe when it never returns \<open>None\<close>.
\<close>

definition byte_at :: "byte_list \<Rightarrow> nat \<Rightarrow> u8 option" where
  "byte_at bs i = (if i < length bs then Some (bs ! i) else None)"

definition be16 :: "u8 \<Rightarrow> u8 \<Rightarrow> u16" where
  "be16 a b = push_bit 8 (ucast a) OR ucast b"

definition be32 :: "u8 \<Rightarrow> u8 \<Rightarrow> u8 \<Rightarrow> u8 \<Rightarrow> u32" where
  "be32 a b c d = push_bit 24 (ucast a) OR push_bit 16 (ucast b) OR push_bit 8 (ucast c) OR ucast d"

definition read16 :: "byte_list \<Rightarrow> nat \<Rightarrow> u16 option" where
  "read16 bs i = (case (byte_at bs i, byte_at bs (i + 1)) of
     (Some a, Some b) \<Rightarrow> Some (be16 a b) | _ \<Rightarrow> None)"

definition read32 :: "byte_list \<Rightarrow> nat \<Rightarrow> u32 option" where
  "read32 bs i = (case (byte_at bs i, byte_at bs (i + 1), byte_at bs (i + 2), byte_at bs (i + 3)) of
     (Some a, Some b, Some c, Some d) \<Rightarrow> Some (be32 a b c d) | _ \<Rightarrow> None)"

lemma byte_at_in [simp]: "i < length bs \<Longrightarrow> byte_at bs i = Some (bs ! i)"
  by (simp add: byte_at_def)

lemma read16_in [simp]: "i + 1 < length bs \<Longrightarrow> read16 bs i = Some (be16 (bs ! i) (bs ! (i + 1)))"
  by (simp add: read16_def)

lemma read32_in [simp]:
  "i + 3 < length bs \<Longrightarrow> read32 bs i = Some (be32 (bs ! i) (bs ! (i + 1)) (bs ! (i + 2)) (bs ! (i + 3)))"
  by (simp add: read32_def)

text \<open>The big-endian bytes of a word, put back together.\<close>

lemma be16_split: "be16 (ucast (drop_bit 8 v)) (ucast (v AND 0xFF)) = v"
proof -
  have m: "(0xFF :: u16) = mask 8" by (simp add: mask_eq_exp_minus_1)
  show ?thesis unfolding be16_def m
    by (rule bit_word_eqI)
       (auto simp: bit_or_iff bit_push_bit_iff bit_and_iff bit_unsigned_iff bit_drop_bit_eq bit_mask_iff)
qed

lemma be32_split:
  "be32 (ucast (drop_bit 24 v)) (ucast (drop_bit 16 v AND 0xFF)) (ucast (drop_bit 8 v AND 0xFF)) (ucast (v AND 0xFF)) = v"
proof -
  have m: "(0xFF :: u32) = mask 8" by (simp add: mask_eq_exp_minus_1)
  show ?thesis unfolding be32_def m
  proof (rule bit_word_eqI)
    fix n assume "n < LENGTH(32)"
    then consider "n < 8" | "8 \<le> n" "n < 16" | "16 \<le> n" "n < 24" | "24 \<le> n" "n < 32" by fastforce
    then show "bit (push_bit 24 (ucast (ucast (drop_bit 24 v) :: u8)) OR push_bit 16 (ucast (ucast (drop_bit 16 v AND mask 8) :: u8)) OR
        push_bit 8 (ucast (ucast (drop_bit 8 v AND mask 8) :: u8)) OR ucast (ucast (v AND mask 8) :: u8) :: u32) n = bit v n"
      by cases (auto simp: bit_or_iff bit_push_bit_iff bit_and_iff bit_unsigned_iff bit_drop_bit_eq bit_mask_iff)
  qed
qed

section \<open>Codecs\<close>

text \<open>
  The contract of a printer and its parser: every well-formed value survives the round trip.
  Clients use that no two values print alike.
\<close>

locale codec =
  fixes wf :: "'a \<Rightarrow> bool"
    and enc :: "'a \<Rightarrow> 'b"
    and dec :: "'b \<Rightarrow> 'r"
    and ok :: "'a \<Rightarrow> 'r"
  assumes dec_enc: "wf x \<Longrightarrow> dec (enc x) = ok x"
    and ok_inj: "ok x = ok y \<Longrightarrow> x = y"
begin

lemma enc_inj: "wf x \<Longrightarrow> wf y \<Longrightarrow> enc x = enc y \<Longrightarrow> x = y"
  using dec_enc ok_inj by metis

lemma enc_inj_on: "inj_on enc {x. wf x}"
  using enc_inj by (auto intro: inj_onI)

lemma enc_distinct: "list_all wf xs \<Longrightarrow> distinct xs \<Longrightarrow> distinct (map enc xs)"
  by (induction xs) (auto simp: list_all_iff dest: enc_inj)

end

end
