(* ===== verification/Ring_Buffer.thy ===== *)
theory Ring_Buffer
  imports AES67_Prelude
begin

text \<open>
  The lock-free single-producer single-consumer ring buffer of
  \<open>src/packages/aes67-core/Shared/RingBuffer.hpp\<close>.

  First the operations as the class has them, run one after the other, and their refinement of
  a bounded queue (\<open>bounded_fifo\<close>). Then the same operations as threads run them: a producer
  and a consumer whose loads, element copies and index stores interleave in any order. Indices
  are \<open>nat\<close>: the invariant keeps both below \<open>capacity_\<close>, the length of an allocated vector, and
  every intermediate sum below twice that, so \<open>size_t\<close> never wraps.
\<close>

section \<open>State and helpers\<close>

record 'a ring =
  buffer :: "'a list"
  capacity :: nat
  writeIndex :: nat
  readIndex :: nat

definition SPSCRingBuffer :: "nat \<Rightarrow> 'a \<Rightarrow> 'a ring" where
  "SPSCRingBuffer cap z =
     \<lparr>buffer = replicate (cap + 1) z, capacity = cap + 1, writeIndex = 0, readIndex = 0\<rparr>"

definition wrap :: "nat \<Rightarrow> nat \<Rightarrow> nat" where
  "wrap cap index = (if index \<ge> cap then index - cap else index)"

definition getAvailableRead :: "nat \<Rightarrow> nat \<Rightarrow> nat \<Rightarrow> nat" where
  "getAvailableRead cap readIdx writeIdx =
     (if writeIdx \<ge> readIdx then writeIdx - readIdx else cap - readIdx + writeIdx)"

definition getAvailableWrite :: "nat \<Rightarrow> nat \<Rightarrow> nat \<Rightarrow> nat" where
  "getAvailableWrite cap writeIdx readIdx =
     (if readIdx > writeIdx then readIdx - writeIdx - 1 else cap - writeIdx + readIdx - 1)"

text \<open>The copy in one or two chunks that \<open>write\<close> and \<open>read\<close> share the shape of.\<close>

definition copy_in :: "nat \<Rightarrow> 'a list \<Rightarrow> nat \<Rightarrow> 'a list \<Rightarrow> nat \<Rightarrow> 'a list" where
  "copy_in cap buf idx data toWrite =
     (let firstChunk = min toWrite (cap - idx);
          buf1 = memcpy buf idx data firstChunk
      in if firstChunk < toWrite
         then memcpy buf1 0 (drop firstChunk data) (toWrite - firstChunk)
         else buf1)"

definition copy_out :: "nat \<Rightarrow> 'a list \<Rightarrow> nat \<Rightarrow> nat \<Rightarrow> 'a list" where
  "copy_out cap buf idx toRead =
     (let firstChunk = min toRead (cap - idx);
          data1 = take firstChunk (drop idx buf)
      in if firstChunk < toRead
         then data1 @ take (toRead - firstChunk) buf
         else data1)"

section \<open>The operations\<close>

definition rb_write :: "'a ring \<Rightarrow> 'a list \<Rightarrow> nat \<Rightarrow> 'a ring \<times> nat" where
  "rb_write rb data count =
     (let writeIdx = writeIndex rb; readIdx = readIndex rb;
          available = getAvailableWrite (capacity rb) writeIdx readIdx;
          toWrite = min count available
      in if toWrite = 0 then (rb, 0)
         else (rb\<lparr>buffer := copy_in (capacity rb) (buffer rb) writeIdx data toWrite,
                  writeIndex := wrap (capacity rb) (writeIdx + toWrite)\<rparr>, toWrite))"

definition rb_read :: "'a ring \<Rightarrow> nat \<Rightarrow> 'a ring \<times> 'a list" where
  "rb_read rb count =
     (let readIdx = readIndex rb; writeIdx = writeIndex rb;
          available = getAvailableRead (capacity rb) readIdx writeIdx;
          toRead = min count available
      in if toRead = 0 then (rb, [])
         else (rb\<lparr>readIndex := wrap (capacity rb) (readIdx + toRead)\<rparr>,
               copy_out (capacity rb) (buffer rb) readIdx toRead))"

definition rb_available :: "'a ring \<Rightarrow> nat" where
  "rb_available rb = getAvailableRead (capacity rb) (readIndex rb) (writeIndex rb)"

definition rb_availableWrite :: "'a ring \<Rightarrow> nat" where
  "rb_availableWrite rb = getAvailableWrite (capacity rb) (writeIndex rb) (readIndex rb)"

definition rb_reset :: "'a ring \<Rightarrow> 'a ring" where
  "rb_reset rb = rb\<lparr>writeIndex := 0, readIndex := 0\<rparr>"

definition rb_capacity :: "'a ring \<Rightarrow> nat" where
  "rb_capacity rb = capacity rb - 1"

definition rb_isEmpty :: "'a ring \<Rightarrow> bool" where
  "rb_isEmpty rb \<longleftrightarrow> rb_available rb = 0"

definition rb_isFull :: "'a ring \<Rightarrow> bool" where
  "rb_isFull rb \<longleftrightarrow> rb_availableWrite rb = 0"

section \<open>Invariant and abstraction\<close>

definition rb_inv :: "'a ring \<Rightarrow> bool" where
  "rb_inv rb \<longleftrightarrow> length (buffer rb) = capacity rb \<and>
     writeIndex rb < capacity rb \<and> readIndex rb < capacity rb"

text \<open>What the buffer holds, oldest first.\<close>

definition items :: "'a ring \<Rightarrow> 'a list" where
  "items rb = map (\<lambda>k. buffer rb ! ((readIndex rb + k) mod capacity rb)) [0..<rb_available rb]"

lemma wrap_mod: "x < 2 * c \<Longrightarrow> wrap c x = x mod c"
  by (auto simp: wrap_def le_mod_geq)

lemma available_split:
  assumes "r < c" "w < c"
  shows "getAvailableRead c r w + getAvailableWrite c w r = c - 1"
  using assms by (auto simp: getAvailableRead_def getAvailableWrite_def)

lemma writeIndex_from_read:
  assumes "r < c" "w < c"
  shows "w = (r + getAvailableRead c r w) mod c"
  using assms by (auto simp: getAvailableRead_def le_mod_geq)

lemma copy_in_bounds:
  assumes "length buf = c" "idx < c" "n \<le> c" "n \<le> length data"
  shows "length (copy_in c buf idx data n) = c"
  using assms by (auto simp: copy_in_def Let_def)

lemma copy_in_hit:
  assumes "length buf = c" "idx < c" "n \<le> c" "n \<le> length data" "j < n"
  shows "copy_in c buf idx data n ! ((idx + j) mod c) = data ! j"
proof -
  have "(idx + j) mod c = wrap c (idx + j)" using assms by (simp add: wrap_mod)
  then show ?thesis
    using assms by (auto simp: copy_in_def Let_def wrap_def nth_memcpy)
qed

lemma copy_in_miss:
  assumes "length buf = c" "idx < c" "n \<le> c" "n \<le> length data" "n \<le> j" "j < c"
  shows "copy_in c buf idx data n ! ((idx + j) mod c) = buf ! ((idx + j) mod c)"
proof -
  have "(idx + j) mod c = wrap c (idx + j)" using assms by (simp add: wrap_mod)
  then show ?thesis
    using assms by (auto simp: copy_in_def Let_def wrap_def nth_memcpy)
qed

lemma copy_out_nth:
  assumes "length buf = c" "idx < c" "n \<le> c"
  shows "copy_out c buf idx n = map (\<lambda>j. buf ! ((idx + j) mod c)) [0..<n]"
proof (rule nth_equalityI)
  show "length (copy_out c buf idx n) = length (map (\<lambda>j. buf ! ((idx + j) mod c)) [0..<n])"
    using assms by (auto simp: copy_out_def Let_def)
next
  fix j assume "j < length (copy_out c buf idx n)"
  then have j: "j < n" using assms by (auto simp: copy_out_def Let_def split: if_splits)
  then have "(idx + j) mod c = wrap c (idx + j)" using assms by (simp add: wrap_mod)
  then show "copy_out c buf idx n ! j = map (\<lambda>j. buf ! ((idx + j) mod c)) [0..<n] ! j"
    using assms j by (auto simp: copy_out_def Let_def wrap_def nth_append add.commute)
qed

section \<open>Each operation implements the bounded queue\<close>

lemma length_items [simp]: "length (items rb) = rb_available rb"
  by (simp add: items_def)

lemma rb_available_le: "rb_inv rb \<Longrightarrow> rb_available rb \<le> rb_capacity rb"
  using available_split [of "readIndex rb" "capacity rb" "writeIndex rb"]
  by (auto simp: rb_inv_def rb_available_def rb_capacity_def)

lemma rb_availableWrite_eq: "rb_inv rb \<Longrightarrow> rb_availableWrite rb = rb_capacity rb - rb_available rb"
  using available_split [of "readIndex rb" "capacity rb" "writeIndex rb"]
  by (auto simp: rb_inv_def rb_available_def rb_capacity_def rb_availableWrite_def)

lemma available_after_write:
  assumes "r < c" "w < c" "n \<le> getAvailableWrite c w r"
  shows "getAvailableRead c r (wrap c (w + n)) = getAvailableRead c r w + n"
  using assms by (auto simp: getAvailableRead_def getAvailableWrite_def wrap_def split: if_splits)

lemma available_after_read:
  assumes "r < c" "w < c" "n \<le> getAvailableRead c r w"
  shows "getAvailableRead c (wrap c (r + n)) w = getAvailableRead c r w - n"
  using assms by (auto simp: getAvailableRead_def wrap_def split: if_splits)

lemma rb_write_count:
  "rb_inv rb \<Longrightarrow> snd (rb_write rb data count) = min count (rb_capacity rb - rb_available rb)"
  using rb_availableWrite_eq [of rb]
  by (simp add: rb_write_def Let_def rb_availableWrite_def)

lemma rb_write_inv:
  assumes "rb_inv rb" "count \<le> length data"
  shows "rb_inv (fst (rb_write rb data count))"
  using assms available_split [of "readIndex rb" "capacity rb" "writeIndex rb"]
  by (auto simp: rb_inv_def rb_write_def Let_def wrap_def intro!: copy_in_bounds)

text \<open>A window of \<open>a\<close> old items followed by \<open>n\<close> new ones, read back after the copy.\<close>

lemma copy_in_window:
  assumes "length buf = c" "r < c" "w = (r + a) mod c" "a + n < c" "n \<le> length data"
    and i: "i < a + n"
  shows "copy_in c buf w data n ! ((r + i) mod c) =
    (if i < a then buf ! ((r + i) mod c) else data ! (i - a))"
proof (cases "i < a")
  case True
  have "(w + (c - a + i)) mod c = (r + a + (c - a + i)) mod c"
    using assms(3) by (simp add: mod_add_left_eq)
  also have "r + a + (c - a + i) = r + i + c" using assms(4) by simp
  finally have "(w + (c - a + i)) mod c = (r + i) mod c" by simp
  then show ?thesis
    using copy_in_miss [of buf c w n data "c - a + i"] assms True by simp
next
  case False
  have "(w + (i - a)) mod c = (r + a + (i - a)) mod c"
    using assms(3) by (simp add: mod_add_left_eq)
  then have "(w + (i - a)) mod c = (r + i) mod c" using False by simp
  then show ?thesis
    using copy_in_hit [of buf c w n data "i - a"] assms False by simp
qed

lemma rb_write_items:
  assumes inv: "rb_inv rb" and len: "count \<le> length data"
  shows "items (fst (rb_write rb data count)) =
    items rb @ take (snd (rb_write rb data count)) data"
proof -
  let ?c = "capacity rb" let ?r = "readIndex rb" let ?w = "writeIndex rb"
  let ?a = "getAvailableRead ?c ?r ?w"
  define n where "n = min count (getAvailableWrite ?c ?w ?r)"
  let ?b = "copy_in ?c (buffer rb) ?w data n"
  have c: "?r < ?c" "?w < ?c" "length (buffer rb) = ?c" using inv by (auto simp: rb_inv_def)
  have n: "n \<le> getAvailableWrite ?c ?w ?r" "n \<le> length data" "?a + n < ?c"
    using len available_split [OF c(1,2)] c by (auto simp: n_def)
  have win: "?b ! ((?r + i) mod ?c) =
      (if i < ?a then buffer rb ! ((?r + i) mod ?c) else data ! (i - ?a))" if "i < ?a + n" for i
    using copy_in_window [OF c(3,1) writeIndex_from_read [OF c(1,2)] n(3,2) that] .
  show ?thesis
  proof (cases "n = 0")
    case True
    then show ?thesis by (simp add: rb_write_def Let_def n_def)
  next
    case False
    then have eq: "rb_write rb data count = (rb\<lparr>buffer := ?b, writeIndex := wrap ?c (?w + n)\<rparr>, n)"
      by (simp add: rb_write_def Let_def flip: n_def)
    show ?thesis
      using available_after_write [OF c(1,2) n(1)]
      by (intro nth_equalityI) (auto simp: eq items_def rb_available_def nth_append win n(2))
  qed
qed

lemma rb_read_inv: "rb_inv rb \<Longrightarrow> rb_inv (fst (rb_read rb count))"
  using available_split [of "readIndex rb" "capacity rb" "writeIndex rb"]
  by (auto simp: rb_inv_def rb_read_def Let_def wrap_def)

lemma rb_read_result:
  assumes inv: "rb_inv rb"
  shows "snd (rb_read rb count) = take count (items rb)"
proof -
  let ?n = "min count (rb_available rb)"
  have "?n \<le> capacity rb" using rb_available_le [OF inv] by (simp add: rb_capacity_def)
  then have "copy_out (capacity rb) (buffer rb) (readIndex rb) ?n =
      map (\<lambda>j. buffer rb ! ((readIndex rb + j) mod capacity rb)) [0..<?n]"
    using inv by (intro copy_out_nth) (auto simp: rb_inv_def)
  then show ?thesis
    by (auto simp: rb_read_def Let_def items_def take_map rb_available_def min_def
        split: if_splits)
qed

lemma rb_read_items:
  assumes inv: "rb_inv rb"
  shows "items (fst (rb_read rb count)) = drop count (items rb)"
proof -
  let ?c = "capacity rb" let ?r = "readIndex rb" let ?w = "writeIndex rb"
  define n where "n = min count (getAvailableRead ?c ?r ?w)"
  have c: "?r < ?c" "?w < ?c" using inv by (auto simp: rb_inv_def)
  have n: "n \<le> getAvailableRead ?c ?r ?w" by (simp add: n_def)
  have "n < ?c" using available_split [OF c] c n by linarith
  then have wr: "wrap ?c (?r + n) = (?r + n) mod ?c" using c by (simp add: wrap_mod)
  have "items (fst (rb_read rb count)) = drop n (items rb)"
    using available_after_read [OF c n] wr
    by (auto simp: rb_read_def Let_def n_def [symmetric] items_def rb_available_def
        drop_map mod_add_left_eq add.assoc intro!: nth_equalityI)
  then show ?thesis by (simp add: n_def rb_available_def min_def drop_all)
qed

section \<open>The interface: a bounded first-in first-out queue\<close>

text \<open>
  What the device's audio thread and the network threads rely on. \<open>put q xs\<close> offers a block and
  says how many of its elements were taken; \<open>get q n\<close> takes at most \<open>n\<close>.
\<close>

text \<open>A schedule of blocks offered and reads asked for, and what went in and came out.\<close>

fun fifo_run :: "('q \<Rightarrow> 'a list \<Rightarrow> 'q \<times> nat) \<Rightarrow> ('q \<Rightarrow> nat \<Rightarrow> 'q \<times> 'a list) \<Rightarrow>
    'q \<Rightarrow> ('a list + nat) list \<Rightarrow> 'q \<times> 'a list \<times> 'a list" where
  "fifo_run put get q [] = (q, [], [])"
| "fifo_run put get q (Inl xs # ops) =
     (let (q1, n) = put q xs; (q2, ins, outs) = fifo_run put get q1 ops
      in (q2, take n xs @ ins, outs))"
| "fifo_run put get q (Inr k # ops) =
     (let (q1, ys) = get q k; (q2, ins, outs) = fifo_run put get q1 ops
      in (q2, ins, ys @ outs))"

locale bounded_fifo =
  fixes put :: "'q \<Rightarrow> 'a list \<Rightarrow> 'q \<times> nat"
    and get :: "'q \<Rightarrow> nat \<Rightarrow> 'q \<times> 'a list"
    and contents :: "'q \<Rightarrow> 'a list"
    and room :: "'q \<Rightarrow> nat"
    and invar :: "'q \<Rightarrow> bool"
  assumes put_count: "invar q \<Longrightarrow> snd (put q xs) = min (length xs) (room q - length (contents q))"
    and put_contents: "invar q \<Longrightarrow> contents (fst (put q xs)) = contents q @ take (snd (put q xs)) xs"
    and put_room: "invar q \<Longrightarrow> room (fst (put q xs)) = room q"
    and put_invar: "invar q \<Longrightarrow> invar (fst (put q xs))"
    and get_result: "invar q \<Longrightarrow> snd (get q n) = take n (contents q)"
    and get_contents: "invar q \<Longrightarrow> contents (fst (get q n)) = drop n (contents q)"
    and get_room: "invar q \<Longrightarrow> room (fst (get q n)) = room q"
    and get_invar: "invar q \<Longrightarrow> invar (fst (get q n))"
    and within_room: "invar q \<Longrightarrow> length (contents q) \<le> room q"
begin

lemma run_fifo:
  "invar q \<Longrightarrow> fifo_run put get q ops = (q', ins, outs) \<Longrightarrow>
     invar q' \<and> room q' = room q \<and> outs @ contents q' = contents q @ ins"
proof (induction ops arbitrary: q q' ins outs)
  case Nil
  then show ?case by simp
next
  case (Cons op ops)
  show ?case
  proof (cases op)
    case (Inl xs)
    with Cons show ?thesis
      using put_contents [of q xs] put_invar [of q xs] put_room [of q xs]
      by (fastforce split: prod.splits)
  next
    case (Inr k)
    with Cons show ?thesis
      using get_contents [of q k] get_invar [of q k] get_room [of q k] get_result [of q k]
      by (fastforce split: prod.splits)
  qed
qed

lemma run_bounded: "invar q \<Longrightarrow> length (contents (fst (fifo_run put get q ops))) \<le> room q"
  using run_fifo [of q ops] within_room by (metis prod.collapse)

end

interpretation spsc_fifo: bounded_fifo
  "\<lambda>rb data. rb_write rb data (length data)" rb_read items rb_capacity rb_inv
proof (unfold_locales, goal_cases)
  case (1 q xs) then show ?case by (simp add: rb_write_count)
next
  case (2 q xs) then show ?case by (simp add: rb_write_items)
next
  case (3 q xs) then show ?case by (simp add: rb_write_def Let_def rb_capacity_def)
next
  case (4 q xs) then show ?case by (simp add: rb_write_inv)
next
  case (5 q n) then show ?case by (simp add: rb_read_result)
next
  case (6 q n) then show ?case by (simp add: rb_read_items)
next
  case (7 q n) then show ?case by (simp add: rb_read_def Let_def rb_capacity_def)
next
  case (8 q n) then show ?case by (simp add: rb_read_inv)
next
  case (9 q) then show ?case by (simp add: rb_available_le)
qed

section \<open>Properties\<close>

text \<open>
  run one after the other, any schedule of writes and reads behaves as a queue of bounded
  length: what comes out, followed by what is left in the ring, is what was in it followed by the
  elements \<open>write\<close> counted as taken. Whatever is offered beyond the free room is not taken.
\<close>

theorem ring_schedule_fifo:
  assumes "rb_inv rb"
    and "fifo_run (\<lambda>rb data. rb_write rb data (length data)) rb_read rb ops = (rb', ins, outs)"
  shows "rb_inv rb' \<and> rb_capacity rb' = rb_capacity rb \<and> outs @ items rb' = items rb @ ins \<and>
    length (items rb') \<le> rb_capacity rb"
  using spsc_fifo.run_fifo [OF assms] rb_available_le [of rb'] by simp

theorem ring_schedule_fifo_witness:
  "let rb = SPSCRingBuffer 2 (0::nat);
       (rb', ins, outs) = fifo_run (\<lambda>rb data. rb_write rb data (length data)) rb_read rb
         [Inl [1, 2, 3], Inr 1, Inl [4], Inr 5]
   in ins = [1, 2, 4] \<and> outs = [1, 2, 4] \<and> outs @ items rb' = items rb @ ins"
proof -
  define rb where "rb = SPSCRingBuffer 2 (0::nat)"
  let ?run = "fifo_run (\<lambda>rb data. rb_write rb data (length data)) rb_read rb
         [Inl [1, 2, 3], Inr 1, Inl [4], Inr 5]"
  have "rb_inv rb" by (simp add: rb_def rb_inv_def SPSCRingBuffer_def)
  moreover have "fst (snd ?run) = [1, 2, 4] \<and> snd (snd ?run) = [1, 2, 4]"
    unfolding rb_def by code_simp
  ultimately show ?thesis
    using ring_schedule_fifo [of rb "[Inl [1, 2, 3], Inr 1, Inl [4], Inr 5]"]
    by (auto simp: rb_def [symmetric] Let_def split: prod.splits)
qed

end
