(* ===== verification/Ring_Buffer_Threads.thy ===== *)
theory Ring_Buffer_Threads
  imports Ring_Buffer
begin

text \<open>
  The ring buffer of \<open>RingBuffer.hpp\<close> under its two threads. Each call of \<open>write\<close> and \<open>read\<close> is
  broken at every access to memory the other thread can see: the load of the index the other
  side owns, each element \<open>memcpy\<close> moves, and the store that publishes the caller's own index.
  The steps of the two threads interleave in any order. An acquire load paired with a release
  store makes the accesses of the two threads appear in one order, which is what a step relation
  over one shared state says; weaker orders are not modelled.

  Two ghost logs record what the producer's index stores have published and what the consumer's
  have taken; the code has no such fields and no step reads them.
\<close>

section \<open>Threads\<close>

datatype 'a producer =
    PIdle
  | PLoaded nat "'a list"       \<comment> \<open>writeIdx loaded, readIdx not yet\<close>
  | PCopy nat "'a list" nat     \<comment> \<open>writeIdx, the elements to write, how many are in place\<close>

datatype 'a consumer =
    CIdle
  | CLoaded nat nat             \<comment> \<open>readIdx loaded, the count asked for\<close>
  | CCopy nat nat "'a list"     \<comment> \<open>readIdx, toRead, what has been copied out\<close>

record 'a spsc =
  shared :: "'a ring"
  producer :: "'a producer"
  consumer :: "'a consumer"
  accepted :: "'a list"
  delivered :: "'a list"

definition spsc_init :: "nat \<Rightarrow> 'a \<Rightarrow> 'a spsc" where
  "spsc_init cap z = \<lparr>shared = SPSCRingBuffer cap z, producer = PIdle, consumer = CIdle,
     accepted = [], delivered = []\<rparr>"

inductive spsc_step :: "'a spsc \<Rightarrow> 'a spsc \<Rightarrow> bool" where
  write_call:
    "producer s = PIdle \<Longrightarrow>
     spsc_step s (s\<lparr>producer := PLoaded (writeIndex (shared s)) data\<rparr>)"
| write_load:
    "producer s = PLoaded w data \<Longrightarrow>
     toWrite = min (length data)
       (getAvailableWrite (capacity (shared s)) w (readIndex (shared s))) \<Longrightarrow>
     spsc_step s (s\<lparr>producer := (if toWrite = 0 then PIdle else PCopy w (take toWrite data) 0)\<rparr>)"
| write_cell:
    "producer s = PCopy w xs k \<Longrightarrow> k < length xs \<Longrightarrow>
     spsc_step s (s\<lparr>shared := (shared s)\<lparr>buffer :=
         (buffer (shared s))[wrap (capacity (shared s)) (w + k) := xs ! k]\<rparr>,
       producer := PCopy w xs (Suc k)\<rparr>)"
| write_store:
    "producer s = PCopy w xs (length xs) \<Longrightarrow>
     spsc_step s (s\<lparr>shared := (shared s)\<lparr>writeIndex :=
         wrap (capacity (shared s)) (w + length xs)\<rparr>,
       producer := PIdle, accepted := accepted s @ xs\<rparr>)"
| read_call:
    "consumer s = CIdle \<Longrightarrow>
     spsc_step s (s\<lparr>consumer := CLoaded (readIndex (shared s)) count\<rparr>)"
| read_load:
    "consumer s = CLoaded r count \<Longrightarrow>
     toRead = min count (getAvailableRead (capacity (shared s)) r (writeIndex (shared s))) \<Longrightarrow>
     spsc_step s (s\<lparr>consumer := (if toRead = 0 then CIdle else CCopy r toRead [])\<rparr>)"
| read_cell:
    "consumer s = CCopy r n ys \<Longrightarrow> length ys < n \<Longrightarrow>
     spsc_step s (s\<lparr>consumer := CCopy r n
       (ys @ [buffer (shared s) ! wrap (capacity (shared s)) (r + length ys)])\<rparr>)"
| read_store:
    "consumer s = CCopy r n ys \<Longrightarrow> length ys = n \<Longrightarrow>
     spsc_step s (s\<lparr>shared := (shared s)\<lparr>readIndex := wrap (capacity (shared s)) (r + n)\<rparr>,
       consumer := CIdle, delivered := delivered s @ ys\<rparr>)"

inductive spsc_reachable :: "nat \<Rightarrow> 'a \<Rightarrow> 'a spsc \<Rightarrow> bool" for cap z where
  start: "spsc_reachable cap z (spsc_init cap z)"
| step: "spsc_reachable cap z s \<Longrightarrow> spsc_step s t \<Longrightarrow> spsc_reachable cap z t"

section \<open>The invariant\<close>

text \<open>
  The two indices are the lengths of the logs modulo the capacity. Between the two positions
  every cell holds what was published; a copying producer is beyond the published end and at
  most one lap ahead of the consumer, and a copying consumer is before it.
\<close>

fun producer_ok :: "nat \<Rightarrow> 'a list \<Rightarrow> nat \<Rightarrow> nat \<Rightarrow> 'a producer \<Rightarrow> bool" where
  "producer_ok c buf W R PIdle = True"
| "producer_ok c buf W R (PLoaded w data) = (w = W mod c)"
| "producer_ok c buf W R (PCopy w xs k) =
     (w = W mod c \<and> k \<le> length xs \<and> W + length xs < R + c \<and>
      (\<forall>j<k. buf ! ((W + j) mod c) = xs ! j))"

fun consumer_ok :: "nat \<Rightarrow> 'a list \<Rightarrow> nat \<Rightarrow> 'a consumer \<Rightarrow> bool" where
  "consumer_ok c acc R CIdle = True"
| "consumer_ok c acc R (CLoaded r count) = (r = R mod c)"
| "consumer_ok c acc R (CCopy r n ys) =
     (r = R mod c \<and> R + n \<le> length acc \<and> length ys \<le> n \<and>
      ys = take (length ys) (drop R acc))"

definition spsc_inv :: "nat \<Rightarrow> 'a spsc \<Rightarrow> bool" where
  "spsc_inv cap s \<longleftrightarrow>
     (let c = Suc cap; W = length (accepted s); R = length (delivered s) in
      capacity (shared s) = c \<and> length (buffer (shared s)) = c \<and>
      writeIndex (shared s) = W mod c \<and> readIndex (shared s) = R mod c \<and>
      R \<le> W \<and> W < R + c \<and> delivered s = take R (accepted s) \<and>
      (\<forall>i. R \<le> i \<and> i < W \<longrightarrow> buffer (shared s) ! (i mod c) = accepted s ! i) \<and>
      producer_ok c (buffer (shared s)) W R (producer s) \<and>
      consumer_ok c (accepted s) R (consumer s))"

lemma avail_read_abs:
  assumes "R \<le> W" "W < R + c"
  shows "getAvailableRead c (R mod c) (W mod c) = W - R"
proof -
  have "W = R + (W - R)" "W - R < c" using assms by auto
  then have "W mod c = (if R mod c + (W - R) \<ge> c then R mod c + (W - R) - c else R mod c + (W - R))"
    by (metis mod_add_wrap)
  moreover have "R mod c < c" using assms by auto
  ultimately show ?thesis using assms by (auto simp: getAvailableRead_def)
qed

lemma avail_write_abs:
  assumes "R \<le> W" "W < R + c"
  shows "getAvailableWrite c (W mod c) (R mod c) = c - 1 - (W - R)"
  using available_split [of "R mod c" c "W mod c"] avail_read_abs [OF assms] assms by auto

lemma wrap_abs: "k < c \<Longrightarrow> wrap c (i mod c + k) = (i + k) mod c"
  using mod_add_wrap [of k c i] by (simp add: wrap_def)

lemma spsc_inv_init: "spsc_inv cap (spsc_init cap z)"
  by (simp add: spsc_inv_def spsc_init_def SPSCRingBuffer_def)

section \<open>Every step keeps it\<close>

lemma write_load_inv:
  assumes "spsc_inv cap s" "producer s = PLoaded w data"
    and "n = min (length data) (getAvailableWrite (capacity (shared s)) w (readIndex (shared s)))"
  shows "spsc_inv cap (s\<lparr>producer := (if n = 0 then PIdle else PCopy w (take n data) 0)\<rparr>)"
proof -
  let ?W = "length (accepted s)" let ?R = "length (delivered s)"
  have b: "?R \<le> ?W" "?W < ?R + Suc cap" "w = ?W mod Suc cap"
    using assms by (auto simp: spsc_inv_def Let_def)
  have "n \<le> Suc cap - 1 - (?W - ?R)"
    using assms b avail_write_abs [OF b(1,2)] by (auto simp: spsc_inv_def Let_def)
  then have "?W + n < ?R + Suc cap" using b by linarith
  then show ?thesis using assms(1,2) by (auto simp: spsc_inv_def Let_def min_def)
qed

lemma write_cell_inv:
  assumes inv: "spsc_inv cap s" and p: "producer s = PCopy w xs k" and k: "k < length xs"
  shows "spsc_inv cap (s\<lparr>shared := (shared s)\<lparr>buffer :=
         (buffer (shared s))[wrap (capacity (shared s)) (w + k) := xs ! k]\<rparr>,
       producer := PCopy w xs (Suc k)\<rparr>)"
proof -
  let ?c = "Suc cap" let ?W = "length (accepted s)" let ?R = "length (delivered s)"
  have b: "w = ?W mod ?c" "?W + length xs < ?R + ?c" "?R \<le> ?W"
    using inv p by (auto simp: spsc_inv_def Let_def)
  have at: "wrap (capacity (shared s)) (w + k) = (?W + k) mod ?c"
    using inv b k by (subst b(1)) (simp add: spsc_inv_def Let_def wrap_abs)
  have old: "i mod ?c \<noteq> (?W + k) mod ?c" if "?R \<le> i" "i < ?W + k" for i
    using mod_window_neq [of i "?W + k" ?c] that b k by simp
  have new: "(?W + j) mod ?c \<noteq> (?W + k) mod ?c" if "j < k" for j
    using old [of "?W + j"] that b(3) by simp
  have upd: "(buffer (shared s))[(?W + k) mod ?c := xs ! k] ! (i mod ?c) =
      (if i mod ?c = (?W + k) mod ?c then xs ! k else buffer (shared s) ! (i mod ?c))" for i
    using inv by (auto simp: spsc_inv_def Let_def nth_list_update)
  show ?thesis
    unfolding at using inv p k b old new
    by (auto simp: spsc_inv_def Let_def upd simp del: mod_Suc_eq elim!: less_SucE)
qed

lemma write_store_inv:
  assumes inv: "spsc_inv cap s" and p: "producer s = PCopy w xs (length xs)"
  shows "spsc_inv cap (s\<lparr>shared := (shared s)\<lparr>writeIndex :=
         wrap (capacity (shared s)) (w + length xs)\<rparr>,
       producer := PIdle, accepted := accepted s @ xs\<rparr>)"
proof -
  let ?c = "Suc cap" let ?W = "length (accepted s)" let ?R = "length (delivered s)"
  have b: "w = ?W mod ?c" "?W + length xs < ?R + ?c" "?R \<le> ?W"
    and cells: "\<forall>j<length xs. buffer (shared s) ! ((?W + j) mod ?c) = xs ! j"
    using inv p by (auto simp: spsc_inv_def Let_def)
  have at: "wrap (capacity (shared s)) (w + length xs) = (?W + length xs) mod ?c"
    using inv b by (subst b(1)) (simp add: spsc_inv_def Let_def wrap_abs)
  have "buffer (shared s) ! (i mod ?c) = xs ! (i - ?W)" if "?W \<le> i" "i < ?W + length xs" for i
    using cells that by (auto dest!: spec [of _ "i - ?W"])
  moreover have "consumer_ok ?c (accepted s @ xs) ?R (consumer s)"
    using inv by (cases "consumer s") (auto simp: spsc_inv_def Let_def)
  ultimately show ?thesis
    unfolding at using inv b by (auto simp: spsc_inv_def Let_def nth_append)
qed

lemma read_load_inv:
  assumes "spsc_inv cap s" "consumer s = CLoaded r count"
    and "n = min count (getAvailableRead (capacity (shared s)) r (writeIndex (shared s)))"
  shows "spsc_inv cap (s\<lparr>consumer := (if n = 0 then CIdle else CCopy r n [])\<rparr>)"
proof -
  have b: "length (delivered s) \<le> length (accepted s)"
      "length (accepted s) < length (delivered s) + Suc cap"
    using assms by (auto simp: spsc_inv_def Let_def)
  then show ?thesis
    using assms avail_read_abs [OF b] by (auto simp: spsc_inv_def Let_def)
qed

lemma read_cell_inv:
  assumes inv: "spsc_inv cap s" and p: "consumer s = CCopy r n ys" and k: "length ys < n"
  shows "spsc_inv cap (s\<lparr>consumer := CCopy r n
       (ys @ [buffer (shared s) ! wrap (capacity (shared s)) (r + length ys)])\<rparr>)"
proof -
  let ?c = "Suc cap" let ?W = "length (accepted s)" let ?R = "length (delivered s)"
  have b: "r = ?R mod ?c" "?R + n \<le> ?W" "?W < ?R + ?c"
    and ys: "ys = take (length ys) (drop ?R (accepted s))"
    using inv p by (auto simp: spsc_inv_def Let_def)
  have at: "wrap (capacity (shared s)) (r + length ys) = (?R + length ys) mod ?c"
    using inv b k by (subst b(1)) (simp add: spsc_inv_def Let_def wrap_abs)
  have "buffer (shared s) ! ((?R + length ys) mod ?c) = accepted s ! (?R + length ys)"
    using inv b k by (simp add: spsc_inv_def Let_def)
  then have "ys @ [buffer (shared s) ! ((?R + length ys) mod ?c)] =
      take (Suc (length ys)) (drop ?R (accepted s))"
    using ys b k by (simp add: take_Suc_conv_app_nth)
  then show ?thesis
    unfolding at using inv p k b by (auto simp: spsc_inv_def Let_def)
qed

lemma read_store_inv:
  assumes inv: "spsc_inv cap s" and p: "consumer s = CCopy r n ys" and k: "length ys = n"
  shows "spsc_inv cap (s\<lparr>shared := (shared s)\<lparr>readIndex :=
       wrap (capacity (shared s)) (r + n)\<rparr>, consumer := CIdle, delivered := delivered s @ ys\<rparr>)"
proof -
  let ?c = "Suc cap" let ?W = "length (accepted s)" let ?R = "length (delivered s)"
  have b: "r = ?R mod ?c" "?R + n \<le> ?W" "?W < ?R + ?c" "delivered s = take ?R (accepted s)"
    and ys: "ys = take n (drop ?R (accepted s))"
    using inv p k by (auto simp: spsc_inv_def Let_def)
  have at: "wrap (capacity (shared s)) (r + n) = (?R + n) mod ?c"
    using inv b by (subst b(1)) (simp add: spsc_inv_def Let_def wrap_abs)
  have "delivered s @ ys = take (?R + n) (accepted s)"
    using b(4) ys by (metis take_add)
  moreover have "producer_ok ?c (buffer (shared s)) ?W (?R + n) (producer s)"
    using inv by (cases "producer s") (auto simp: spsc_inv_def Let_def)
  ultimately show ?thesis
    unfolding at using inv b k by (auto simp: spsc_inv_def Let_def)
qed

lemmas spsc_step_inv_rules =
  write_load_inv write_cell_inv write_store_inv read_load_inv read_cell_inv read_store_inv

lemma spsc_step_inv: "spsc_step s t \<Longrightarrow> spsc_inv cap s \<Longrightarrow> spsc_inv cap t"
proof (induction rule: spsc_step.induct)
  case (write_call s data)
  then show ?case by (simp add: spsc_inv_def Let_def)
next
  case (read_call s count)
  then show ?case by (simp add: spsc_inv_def Let_def)
qed (blast intro: spsc_step_inv_rules)+

lemma spsc_reachable_inv: "spsc_reachable cap z s \<Longrightarrow> spsc_inv cap s"
  by (induction rule: spsc_reachable.induct) (auto intro: spsc_inv_init spsc_step_inv)

lemma spsc_inv_ring: "spsc_inv cap s \<Longrightarrow> rb_inv (shared s) \<and> rb_capacity (shared s) = cap"
  by (auto simp: spsc_inv_def rb_inv_def rb_capacity_def Let_def)

lemma spsc_inv_items:
  assumes "spsc_inv cap s"
  shows "items (shared s) = drop (length (delivered s)) (accepted s)"
proof -
  let ?W = "length (accepted s)" let ?R = "length (delivered s)"
  have b: "?R \<le> ?W" "?W < ?R + Suc cap" using assms by (auto simp: spsc_inv_def Let_def)
  have "rb_available (shared s) = ?W - ?R"
    using assms avail_read_abs [OF b] by (simp add: spsc_inv_def Let_def rb_available_def)
  then show ?thesis
    using assms b
    by (intro nth_equalityI) (auto simp: items_def spsc_inv_def Let_def mod_add_left_eq)
qed

section \<open>One call with nobody in between is the operation of the class\<close>

lemma copy_in_Suc:
  assumes "length buf = c" "idx < c" "k < length xs" "length xs \<le> c"
  shows "copy_in c buf idx xs (Suc k) = (copy_in c buf idx xs k)[(idx + k) mod c := xs ! k]"
proof (rule nth_equalityI)
  show "length (copy_in c buf idx xs (Suc k)) =
      length ((copy_in c buf idx xs k)[(idx + k) mod c := xs ! k])"
    using assms by (simp add: copy_in_bounds)
next
  fix a assume "a < length (copy_in c buf idx xs (Suc k))"
  then have a: "a < c" using assms by (simp add: copy_in_bounds)
  define j where "j = (if idx \<le> a then a - idx else c - idx + a)"
  have j: "j < c" "a = (idx + j) mod c" using a assms by (auto simp: j_def le_mod_geq)
  have len: "length (copy_in c buf idx xs k) = c" using assms by (simp add: copy_in_bounds)
  consider "j < k" | "j = k" | "k < j" by linarith
  then show "copy_in c buf idx xs (Suc k) ! a =
      (copy_in c buf idx xs k)[(idx + k) mod c := xs ! k] ! a"
  proof cases
    case 1
    then have "a \<noteq> (idx + k) mod c"
      using mod_window_neq [of "idx + j" "idx + k" c] assms j(2) by auto
    with 1 assms j(2) show ?thesis by (simp add: copy_in_hit)
  next
    case 2
    with assms j(2) len show ?thesis by (simp add: copy_in_hit)
  next
    case 3
    then have "a \<noteq> (idx + k) mod c"
      using mod_window_neq [of "idx + k" "idx + j" c] j by auto
    with 3 assms j show ?thesis by (simp add: copy_in_miss)
  qed
qed

lemma write_cells_run:
  assumes "length (buffer (shared s)) = capacity (shared s)" "w < capacity (shared s)"
    and "length xs \<le> capacity (shared s)" "producer s = PCopy w xs 0" "k \<le> length xs"
  shows "spsc_step\<^sup>*\<^sup>* s (s\<lparr>shared := (shared s)\<lparr>buffer :=
      copy_in (capacity (shared s)) (buffer (shared s)) w xs k\<rparr>, producer := PCopy w xs k\<rparr>)"
  using assms(5)
proof (induction k)
  case 0
  have "s\<lparr>shared := (shared s)\<lparr>buffer := copy_in (capacity (shared s)) (buffer (shared s)) w xs 0\<rparr>,
      producer := PCopy w xs 0\<rparr> = s"
    using assms(4) by (simp add: copy_in_def)
  then show ?case by simp
next
  case (Suc k)
  let ?s = "s\<lparr>shared := (shared s)\<lparr>buffer :=
      copy_in (capacity (shared s)) (buffer (shared s)) w xs k\<rparr>, producer := PCopy w xs k\<rparr>"
  have "wrap (capacity (shared s)) (w + k) = (w + k) mod capacity (shared s)"
    using Suc.prems assms by (intro wrap_mod) linarith
  then have "spsc_step ?s (s\<lparr>shared := (shared s)\<lparr>buffer :=
      copy_in (capacity (shared s)) (buffer (shared s)) w xs (Suc k)\<rparr>,
      producer := PCopy w xs (Suc k)\<rparr>)"
    using write_cell [of ?s w xs k] Suc.prems assms
      copy_in_Suc [of "buffer (shared s)" "capacity (shared s)" w k xs] by simp
  with Suc show ?case by simp
qed

lemma copy_in_take: "n \<le> length data \<Longrightarrow> copy_in c buf w (take n data) n = copy_in c buf w data n"
  by (simp add: copy_in_def memcpy_def Let_def min_def drop_take)

lemma producer_call:
  assumes "rb_inv (shared s)" "producer s = PIdle"
  shows "spsc_step\<^sup>*\<^sup>* s (s\<lparr>shared := fst (rb_write (shared s) data (length data)),
     producer := PIdle,
     accepted := accepted s @ take (snd (rb_write (shared s) data (length data))) data\<rparr>)"
proof -
  let ?rb = "shared s" let ?w = "writeIndex (shared s)"
  define n where "n = min (length data) (getAvailableWrite (capacity ?rb) ?w (readIndex ?rb))"
  let ?s1 = "s\<lparr>producer := PLoaded ?w data\<rparr>" let ?s2 = "s\<lparr>producer := PCopy ?w (take n data) 0\<rparr>"
  have b: "?w < capacity ?rb" "length (buffer ?rb) = capacity ?rb" "n \<le> capacity ?rb"
    using assms(1) available_split [of "readIndex ?rb" "capacity ?rb" ?w]
    by (auto simp: rb_inv_def n_def)
  have s1: "spsc_step s ?s1" using assms(2) by (rule write_call)
  have s2: "spsc_step ?s1 (s\<lparr>producer := (if n = 0 then PIdle else PCopy ?w (take n data) 0)\<rparr>)"
    using write_load [of ?s1 ?w data n] by (simp add: n_def)
  show ?thesis
  proof (cases "n = 0")
    case True
    then have "rb_write ?rb data (length data) = (?rb, 0)"
      by (simp add: rb_write_def Let_def flip: n_def)
    with s1 s2 True show ?thesis by (simp add: converse_rtranclp_into_rtranclp)
  next
    case False
    let ?s3 = "s\<lparr>shared := ?rb\<lparr>buffer := copy_in (capacity ?rb) (buffer ?rb) ?w data n\<rparr>,
        producer := PCopy ?w (take n data) n\<rparr>"
    have n: "length (take n data) = n" by (simp add: n_def)
    have "spsc_step\<^sup>*\<^sup>* ?s2 ?s3"
      using write_cells_run [of ?s2 ?w "take n data" n] b n
      by (simp add: copy_in_take n_def)
    moreover have "spsc_step ?s3 (s\<lparr>shared := fst (rb_write ?rb data (length data)),
        producer := PIdle,
        accepted := accepted s @ take (snd (rb_write ?rb data (length data))) data\<rparr>)"
      using write_store [of ?s3 ?w "take n data"] False n
      by (simp add: rb_write_def Let_def flip: n_def)
    ultimately show ?thesis
      using s1 s2 False by (simp add: converse_rtranclp_into_rtranclp rtranclp.rtrancl_into_rtrancl)
  qed
qed

lemma read_cells_run:
  assumes "length (buffer (shared s)) = capacity (shared s)" "r < capacity (shared s)"
    and "n \<le> capacity (shared s)" "consumer s = CCopy r n []" "k \<le> n"
  shows "spsc_step\<^sup>*\<^sup>* s (s\<lparr>consumer :=
      CCopy r n (copy_out (capacity (shared s)) (buffer (shared s)) r k)\<rparr>)"
  using assms(5)
proof (induction k)
  case 0
  have "s\<lparr>consumer := CCopy r n (copy_out (capacity (shared s)) (buffer (shared s)) r 0)\<rparr> = s"
    using assms(4) by (simp add: copy_out_def)
  then show ?case by simp
next
  case (Suc k)
  let ?s = "s\<lparr>consumer := CCopy r n (copy_out (capacity (shared s)) (buffer (shared s)) r k)\<rparr>"
  have "wrap (capacity (shared s)) (r + k) = (r + k) mod capacity (shared s)"
    using Suc.prems assms by (intro wrap_mod) linarith
  then have "spsc_step ?s (s\<lparr>consumer :=
      CCopy r n (copy_out (capacity (shared s)) (buffer (shared s)) r (Suc k))\<rparr>)"
    using read_cell [of ?s r n "copy_out (capacity (shared s)) (buffer (shared s)) r k"]
      Suc.prems assms by (simp add: copy_out_nth)
  with Suc show ?case by simp
qed

lemma consumer_call:
  assumes "rb_inv (shared s)" "consumer s = CIdle"
  shows "spsc_step\<^sup>*\<^sup>* s (s\<lparr>shared := fst (rb_read (shared s) count), consumer := CIdle,
     delivered := delivered s @ snd (rb_read (shared s) count)\<rparr>)"
proof -
  let ?rb = "shared s" let ?r = "readIndex (shared s)"
  define n where "n = min count (getAvailableRead (capacity ?rb) ?r (writeIndex ?rb))"
  let ?s1 = "s\<lparr>consumer := CLoaded ?r count\<rparr>" let ?s2 = "s\<lparr>consumer := CCopy ?r n []\<rparr>"
  have b: "?r < capacity ?rb" "length (buffer ?rb) = capacity ?rb" "n \<le> capacity ?rb"
    using assms(1) available_split [of ?r "capacity ?rb" "writeIndex ?rb"]
    by (auto simp: rb_inv_def n_def)
  have s1: "spsc_step s ?s1" using assms(2) by (rule read_call)
  have s2: "spsc_step ?s1 (s\<lparr>consumer := (if n = 0 then CIdle else CCopy ?r n [])\<rparr>)"
    using read_load [of ?s1 ?r count n] by (simp add: n_def)
  show ?thesis
  proof (cases "n = 0")
    case True
    then have "rb_read ?rb count = (?rb, [])"
      by (simp add: rb_read_def Let_def flip: n_def)
    with s1 s2 True show ?thesis by (simp add: converse_rtranclp_into_rtranclp)
  next
    case False
    let ?s3 = "s\<lparr>consumer := CCopy ?r n (copy_out (capacity ?rb) (buffer ?rb) ?r n)\<rparr>"
    have "spsc_step\<^sup>*\<^sup>* ?s2 ?s3" using read_cells_run [of ?s2 ?r n n] b by simp
    moreover have "spsc_step ?s3 (s\<lparr>shared := fst (rb_read ?rb count), consumer := CIdle,
        delivered := delivered s @ snd (rb_read ?rb count)\<rparr>)"
      using read_store [of ?s3 ?r n "copy_out (capacity ?rb) (buffer ?rb) ?r n"] False b
      by (simp add: rb_read_def Let_def copy_out_nth flip: n_def)
    ultimately show ?thesis
      using s1 s2 False by (simp add: converse_rtranclp_into_rtranclp rtranclp.rtrancl_into_rtrancl)
  qed
qed

lemma spsc_reachable_run:
  "spsc_step\<^sup>*\<^sup>* s t \<Longrightarrow> spsc_reachable cap z s \<Longrightarrow> spsc_reachable cap z t"
  by (induction rule: rtranclp_induct) (auto intro: spsc_reachable.step)

section \<open>Properties\<close>

text \<open>
  C1: whatever the interleaving of the producer's and the consumer's steps, the elements handed
  to the consumer followed by those still in the buffer are exactly the elements the producer
  published, in order: nothing is lost, repeated, reordered or made up, and the buffer never
  holds more than its capacity.
\<close>

theorem spsc_delivers_in_order:
  assumes "spsc_reachable cap z s"
  shows "delivered s @ items (shared s) = accepted s \<and> length (items (shared s)) \<le> cap"
proof -
  have inv: "spsc_inv cap s" using assms by (rule spsc_reachable_inv)
  then have "delivered s = take (length (delivered s)) (accepted s)"
    by (simp add: spsc_inv_def Let_def)
  then have "delivered s @ items (shared s) = accepted s"
    by (metis append_take_drop_id spsc_inv_items [OF inv])
  then show ?thesis
    using spsc_inv_ring [OF inv] rb_available_le [of "shared s"] by simp
qed

lemma spsc_reachable_example:
  "spsc_reachable 2 (0::nat) \<lparr>shared = \<lparr>buffer = [7, 8, 0], capacity = 3, writeIndex = 2,
     readIndex = 1\<rparr>, producer = PIdle, consumer = CIdle, accepted = [7, 8], delivered = [7]\<rparr>"
proof -
  let ?s0 = "spsc_init 2 (0::nat)"
  let ?s1 = "\<lparr>shared = \<lparr>buffer = [7, 8, 0::nat], capacity = 3, writeIndex = 2, readIndex = 0\<rparr>,
     producer = PIdle, consumer = CIdle, accepted = [7, 8], delivered = []\<rparr>"
  have "spsc_step\<^sup>*\<^sup>* ?s0 ?s1"
    using producer_call [of ?s0 "[7, 8, 9]"]
    by (simp add: spsc_init_def SPSCRingBuffer_def rb_inv_def rb_write_def Let_def copy_in_def
        memcpy_def getAvailableWrite_def wrap_def eval_nat_numeral)
  then have "spsc_reachable 2 0 ?s1"
    by (rule spsc_reachable_run) (rule spsc_reachable.start)
  moreover have "spsc_step\<^sup>*\<^sup>* ?s1 \<lparr>shared = \<lparr>buffer = [7, 8, 0], capacity = 3,
      writeIndex = 2, readIndex = 1\<rparr>, producer = PIdle, consumer = CIdle, accepted = [7, 8],
      delivered = [7]\<rparr>"
    using consumer_call [of ?s1 1]
    by (simp add: rb_inv_def rb_read_def Let_def copy_out_def getAvailableRead_def wrap_def)
  ultimately show ?thesis by (rule spsc_reachable_run [rotated])
qed

theorem spsc_delivers_in_order_witness:
  "[7] @ items \<lparr>buffer = [7, 8, 0::nat], capacity = 3, writeIndex = 2, readIndex = 1\<rparr> = [7, 8] \<and>
   length (items \<lparr>buffer = [7, 8, 0::nat], capacity = 3, writeIndex = 2, readIndex = 1\<rparr>) \<le> 2"
  using spsc_delivers_in_order [OF spsc_reachable_example] by simp

text \<open>
  C17: the two threads never touch one cell at the same time: when the producer is about to store
  an element and the consumer is about to load one, the cells differ, and both are inside the
  buffer.
\<close>

theorem spsc_no_race:
  assumes "spsc_reachable cap z s"
    and "producer s = PCopy w xs k" "k < length xs"
    and "consumer s = CCopy r n ys" "length ys < n"
  shows "wrap (capacity (shared s)) (w + k) \<noteq> wrap (capacity (shared s)) (r + length ys) \<and>
    wrap (capacity (shared s)) (w + k) < length (buffer (shared s)) \<and>
    wrap (capacity (shared s)) (r + length ys) < length (buffer (shared s))"
proof -
  let ?c = "Suc cap" let ?W = "length (accepted s)" let ?R = "length (delivered s)"
  have inv: "spsc_inv cap s" using assms(1) by (rule spsc_reachable_inv)
  then have b: "w = ?W mod ?c" "?W + length xs < ?R + ?c" "r = ?R mod ?c" "?R + n \<le> ?W"
      "capacity (shared s) = ?c" "length (buffer (shared s)) = ?c"
    using assms by (auto simp: spsc_inv_def Let_def)
  have "wrap ?c (w + k) = (?W + k) mod ?c" "wrap ?c (r + length ys) = (?R + length ys) mod ?c"
    using assms(3,5) b by (auto simp: wrap_abs)
  moreover have "(?R + length ys) mod ?c \<noteq> (?W + k) mod ?c"
    using assms(3,5) b by (intro mod_window_neq) auto
  ultimately show ?thesis using b by simp
qed

lemma spsc_race_example:
  "spsc_reachable 2 (0::nat) \<lparr>shared = \<lparr>buffer = [7, 8, 0], capacity = 3, writeIndex = 2,
     readIndex = 1\<rparr>, producer = PCopy 2 [9] 0, consumer = CCopy 1 1 [], accepted = [7, 8],
     delivered = [7]\<rparr>"
proof -
  let ?s = "\<lparr>shared = \<lparr>buffer = [7, 8, 0], capacity = 3, writeIndex = 2, readIndex = 1\<rparr>,
     producer = PIdle, consumer = CIdle, accepted = [7, 8], delivered = [7::nat]\<rparr>"
  let ?t = "?s\<lparr>producer := PCopy 2 [9] 0\<rparr>"
  have "spsc_step ?s (?s\<lparr>producer := PLoaded 2 [9]\<rparr>)" using write_call [of ?s "[9]"] by simp
  moreover have "spsc_step (?s\<lparr>producer := PLoaded 2 [9]\<rparr>) ?t"
    using write_load [of "?s\<lparr>producer := PLoaded 2 [9]\<rparr>" 2 "[9]" 1]
    by (simp add: getAvailableWrite_def)
  moreover have "spsc_step ?t (?t\<lparr>consumer := CLoaded 1 1\<rparr>)" using read_call [of ?t 1] by simp
  moreover have "spsc_step (?t\<lparr>consumer := CLoaded 1 1\<rparr>) (?t\<lparr>consumer := CCopy 1 1 []\<rparr>)"
    using read_load [of "?t\<lparr>consumer := CLoaded 1 1\<rparr>" 1 1 1] by (simp add: getAvailableRead_def)
  ultimately have "spsc_reachable 2 0 (?t\<lparr>consumer := CCopy 1 1 []\<rparr>)"
    using spsc_reachable_example by (meson spsc_reachable.step)
  then show ?thesis by simp
qed

theorem spsc_no_race_witness:
  "wrap 3 (2 + 0) \<noteq> wrap 3 (1 + length ([] :: nat list)) \<and> wrap 3 (2 + 0) < 3"
  using spsc_no_race [OF spsc_race_example, of 2 "[9]" 0 1 1 "[]"] by simp

text \<open>
  with no other thread in between, the producer's steps do what \<open>write\<close> does: the shared ring
  ends up as \<open>rb_write\<close> leaves it and exactly the elements it counts are published.
\<close>

theorem spsc_write_run:
  assumes "spsc_reachable cap z s" "producer s = PIdle"
  shows "spsc_step\<^sup>*\<^sup>* s (s\<lparr>shared := fst (rb_write (shared s) data (length data)),
     producer := PIdle,
     accepted := accepted s @ take (snd (rb_write (shared s) data (length data))) data\<rparr>)"
  using producer_call spsc_inv_ring [OF spsc_reachable_inv [OF assms(1)]] assms(2) by blast

theorem spsc_write_run_witness:
  "spsc_step\<^sup>*\<^sup>* (spsc_init 2 (0::nat)) ((spsc_init 2 0)\<lparr>
     shared := fst (rb_write (SPSCRingBuffer 2 0) [7] 1), producer := PIdle, accepted := [7]\<rparr>)"
  using spsc_write_run [OF spsc_reachable.start, of 2 0 "[7]"]
  by (simp add: spsc_init_def SPSCRingBuffer_def rb_write_def Let_def getAvailableWrite_def)

end
