(* ===== verification/Packet_Pool.thy ===== *)
theory Packet_Pool
  imports AES67_Prelude
begin

text \<open>
  The lock-free packet pool of \<open>src/packages/aes67-core/NetworkEngine/RTP/LockFreePacketPool.cpp\<close>:
  a fixed array of packets, a free list threaded through an array of nodes, and a head pointer
  paired with a 64-bit version tag that every successful compare-and-swap increments.

  A \<open>Node*\<close> is the index of the node in \<open>nodePool_\<close>, \<open>None\<close> being the null pointer, and a packet
  pointer is its distance from \<open>poolMemory_\<close>. The operations come first as one thread runs them;
  then as a step relation in which any number of threads interleave at every access to shared
  memory, and a compare-and-swap may also fail spuriously.
\<close>

section \<open>State\<close>

record pooled_packet =
  pp_data :: byte_list
  pp_length :: nat
  pp_sequenceNumber :: u32
  pp_presentationTime :: u64
  pp_arrivalTime :: u64

record node =
  index :: nat
  nxt :: "nat option"

datatype tagged_ptr = TaggedPtr (ptr: "nat option") (tag: u64)

record packet_pool =
  poolMemory :: "pooled_packet list"
  totalCount :: nat
  freeListHead :: tagged_ptr
  availableCount :: u64
  inUseFlags :: "bool list"
  nodePool :: "node list"

definition MAX_PACKET_SIZE :: nat where "MAX_PACKET_SIZE = 2048"

definition PooledRTPPacket :: pooled_packet where
  "PooledRTPPacket = \<lparr>pp_data = replicate MAX_PACKET_SIZE 0, pp_length = 0,
     pp_sequenceNumber = 0, pp_presentationTime = 0, pp_arrivalTime = 0\<rparr>"

section \<open>The operations, run by one thread\<close>

text \<open>One round of the constructor's loop; with no other thread the compare-and-swap succeeds.\<close>

definition push_free :: "nat \<Rightarrow> packet_pool \<Rightarrow> packet_pool" where
  "push_free i p = (let oldHead = freeListHead p in
     p\<lparr>inUseFlags := (inUseFlags p)[i := False],
       nodePool := (nodePool p)[i := \<lparr>index = i, nxt = ptr oldHead\<rparr>],
       freeListHead := TaggedPtr (Some i) (tag oldHead + 1)\<rparr>)"

definition LockFreePacketPool :: "nat \<Rightarrow> packet_pool" where
  "LockFreePacketPool n =
     (fold push_free [0..<n]
       \<lparr>poolMemory = replicate n PooledRTPPacket, totalCount = n,
        freeListHead = TaggedPtr None 0, availableCount = 0,
        inUseFlags = replicate n False, nodePool = replicate n \<lparr>index = 0, nxt = None\<rparr>\<rparr>)
     \<lparr>availableCount := of_nat n\<rparr>"

definition reset_packet :: "nat \<Rightarrow> packet_pool \<Rightarrow> packet_pool" where
  "reset_packet i p = p\<lparr>poolMemory := (poolMemory p)[i := (poolMemory p ! i)
     \<lparr>pp_length := 0, pp_sequenceNumber := 0, pp_presentationTime := 0, pp_arrivalTime := 0\<rparr>]\<rparr>"

definition link_node :: "nat \<Rightarrow> nat option \<Rightarrow> packet_pool \<Rightarrow> packet_pool" where
  "link_node i q p = p\<lparr>nodePool := (nodePool p)[i := (nodePool p ! i)\<lparr>nxt := q\<rparr>]\<rparr>"

definition acquire :: "packet_pool \<Rightarrow> packet_pool \<times> nat option" where
  "acquire p = (let oldHead = freeListHead p in
     case ptr oldHead of
       None \<Rightarrow> (p, None)
     | Some k \<Rightarrow> (let i = index (nodePool p ! k) in
         (p\<lparr>freeListHead := TaggedPtr (nxt (nodePool p ! k)) (tag oldHead + 1),
            inUseFlags := (inUseFlags p)[i := True],
            availableCount := availableCount p - 1\<rparr>, Some i)))"

definition release :: "nat option \<Rightarrow> packet_pool \<Rightarrow> packet_pool" where
  "release packet p = (case packet of
       None \<Rightarrow> p
     | Some i \<Rightarrow>
         if i \<ge> totalCount p then p
         else if \<not> inUseFlags p ! i then p
         else (let p1 = reset_packet i (p\<lparr>inUseFlags := (inUseFlags p)[i := False]\<rparr>);
                   oldHead = freeListHead p1;
                   p2 = link_node i (ptr oldHead) p1
               in p2\<lparr>freeListHead := TaggedPtr (Some i) (tag oldHead + 1),
                     availableCount := availableCount p2 + 1\<rparr>))"

definition getAvailableCount :: "packet_pool \<Rightarrow> u64" where
  "getAvailableCount p = availableCount p"

definition getTotalCount :: "packet_pool \<Rightarrow> nat" where
  "getTotalCount p = totalCount p"

section \<open>The operations, interleaved\<close>

text \<open>Where a thread stands inside \<open>acquire\<close> or \<open>release\<close>, with the locals it has there.\<close>

datatype pool_pc =
    Idle
  | AcqLoaded tagged_ptr
  | AcqNext tagged_ptr "nat option"
  | AcqPopped nat
  | AcqMarked nat
  | RelFlag nat
  | RelReset nat
  | RelLoaded nat tagged_ptr
  | RelLinked nat tagged_ptr
  | RelPushed nat

text \<open>
  Ghost fields, read by no step: the free list as a list, the packets \<open>acquire\<close> has returned and
  nobody has passed to \<open>release\<close> since, whether \<open>release\<close> was ever called on a packet not held, and
  the number of successful compare-and-swaps on the head.
\<close>

record pool_sys =
  pool :: packet_pool
  threads :: "nat \<Rightarrow> pool_pc"
  free :: "nat list"
  held :: "nat set"
  wild :: bool
  casCount :: nat

definition goto :: "nat \<Rightarrow> pool_pc \<Rightarrow> pool_sys \<Rightarrow> pool_sys" where
  "goto T l s = s\<lparr>threads := (threads s)(T := l)\<rparr>"

definition set_pool :: "(packet_pool \<Rightarrow> packet_pool) \<Rightarrow> pool_sys \<Rightarrow> pool_sys" where
  "set_pool f s = s\<lparr>pool := f (pool s)\<rparr>"

definition pool_start :: "nat \<Rightarrow> pool_sys" where
  "pool_start N = \<lparr>pool = LockFreePacketPool N, threads = (\<lambda>_. Idle), free = rev [0..<N],
     held = {}, wild = False, casCount = N\<rparr>"

text \<open>\<open>n\<close> is the number of threads.\<close>

inductive pool_step :: "nat \<Rightarrow> pool_sys \<Rightarrow> pool_sys \<Rightarrow> bool" for n where
  acquire_call:
    "T < n \<Longrightarrow> threads s T = Idle \<Longrightarrow>
     pool_step n s (goto T (AcqLoaded (freeListHead (pool s))) s)"
| acquire_empty:
    "T < n \<Longrightarrow> threads s T = AcqLoaded h \<Longrightarrow> ptr h = None \<Longrightarrow> pool_step n s (goto T Idle s)"
| acquire_next:
    "T < n \<Longrightarrow> threads s T = AcqLoaded h \<Longrightarrow> ptr h = Some k \<Longrightarrow>
     pool_step n s (goto T (AcqNext h (nxt (nodePool (pool s) ! k))) s)"
| acquire_cas:
    "T < n \<Longrightarrow> threads s T = AcqNext h q \<Longrightarrow> freeListHead (pool s) = h \<Longrightarrow> ptr h = Some k \<Longrightarrow>
     pool_step n s (goto T (AcqPopped (index (nodePool (pool s) ! k)))
       (set_pool (\<lambda>p. p\<lparr>freeListHead := TaggedPtr q (tag h + 1)\<rparr>)
         (s\<lparr>free := tl (free s), casCount := Suc (casCount s)\<rparr>)))"
| acquire_retry:
    "T < n \<Longrightarrow> threads s T = AcqNext h q \<Longrightarrow>
     pool_step n s (goto T (AcqLoaded (freeListHead (pool s))) s)"
| acquire_mark:
    "T < n \<Longrightarrow> threads s T = AcqPopped i \<Longrightarrow>
     pool_step n s (goto T (AcqMarked i)
       (set_pool (\<lambda>p. p\<lparr>inUseFlags := (inUseFlags p)[i := True]\<rparr>) s))"
| acquire_return:
    "T < n \<Longrightarrow> threads s T = AcqMarked i \<Longrightarrow>
     pool_step n s (goto T Idle
       (set_pool (\<lambda>p. p\<lparr>availableCount := availableCount p - 1\<rparr>)
         (s\<lparr>held := insert i (held s)\<rparr>)))"
| release_call:
    "T < n \<Longrightarrow> threads s T = Idle \<Longrightarrow>
     pool_step n s (goto T (if i \<ge> totalCount (pool s) then Idle else RelFlag i)
       (s\<lparr>held := held s - {i}, wild := (wild s \<or> i \<notin> held s)\<rparr>))"
| release_flag:
    "T < n \<Longrightarrow> threads s T = RelFlag i \<Longrightarrow> inUseFlags (pool s) ! i \<Longrightarrow>
     pool_step n s (goto T (RelReset i)
       (set_pool (\<lambda>p. p\<lparr>inUseFlags := (inUseFlags p)[i := False]\<rparr>) s))"
| release_double:
    "T < n \<Longrightarrow> threads s T = RelFlag i \<Longrightarrow> \<not> inUseFlags (pool s) ! i \<Longrightarrow>
     pool_step n s (goto T Idle s)"
| release_load:
    "T < n \<Longrightarrow> threads s T = RelReset i \<Longrightarrow>
     pool_step n s (goto T (RelLoaded i (freeListHead (pool s))) (set_pool (reset_packet i) s))"
| release_link:
    "T < n \<Longrightarrow> threads s T = RelLoaded i h \<Longrightarrow>
     pool_step n s (goto T (RelLinked i h) (set_pool (link_node i (ptr h)) s))"
| release_cas:
    "T < n \<Longrightarrow> threads s T = RelLinked i h \<Longrightarrow> freeListHead (pool s) = h \<Longrightarrow>
     pool_step n s (goto T (RelPushed i)
       (set_pool (\<lambda>p. p\<lparr>freeListHead := TaggedPtr (Some i) (tag h + 1)\<rparr>)
         (s\<lparr>free := i # free s, casCount := Suc (casCount s)\<rparr>)))"
| release_retry:
    "T < n \<Longrightarrow> threads s T = RelLinked i h \<Longrightarrow>
     pool_step n s (goto T (RelLoaded i (freeListHead (pool s))) s)"
| release_count:
    "T < n \<Longrightarrow> threads s T = RelPushed i \<Longrightarrow>
     pool_step n s (goto T Idle (set_pool (\<lambda>p. p\<lparr>availableCount := availableCount p + 1\<rparr>) s))"

inductive pool_reachable :: "nat \<Rightarrow> nat \<Rightarrow> pool_sys \<Rightarrow> bool" for n N where
  start: "pool_reachable n N (pool_start N)"
| step: "pool_reachable n N s \<Longrightarrow> pool_step n s t \<Longrightarrow> pool_reachable n N t"

section \<open>The invariant\<close>

fun chain :: "node list \<Rightarrow> nat option \<Rightarrow> nat list \<Rightarrow> bool" where
  "chain ns q [] \<longleftrightarrow> q = None"
| "chain ns q (i # is) \<longleftrightarrow> q = Some i \<and> i < length ns \<and> chain ns (nxt (ns ! i)) is"

text \<open>The node a thread has taken off the list, or not yet put back on it.\<close>

fun owns :: "pool_pc \<Rightarrow> nat set" where
  "owns (AcqPopped i) = {i}"
| "owns (RelReset i) = {i}"
| "owns (RelLoaded i h) = {i}"
| "owns (RelLinked i h) = {i}"
| "owns _ = {}"

text \<open>A head read earlier is the current head, or its tag is an older one.\<close>

definition snapshot :: "pool_sys \<Rightarrow> tagged_ptr \<Rightarrow> bool" where
  "snapshot s h \<longleftrightarrow> h = freeListHead (pool s) \<or> unat (tag h) < casCount s"

fun pc_ok :: "pool_sys \<Rightarrow> pool_pc \<Rightarrow> bool" where
  "pc_ok s (AcqLoaded h) \<longleftrightarrow> snapshot s h"
| "pc_ok s (AcqNext h q) \<longleftrightarrow> snapshot s h \<and>
     (h = freeListHead (pool s) \<longrightarrow> (\<exists>k. ptr h = Some k \<and> q = nxt (nodePool (pool s) ! k)))"
| "pc_ok s (RelFlag i) \<longleftrightarrow> i < totalCount (pool s)"
| "pc_ok s (RelLoaded i h) \<longleftrightarrow> snapshot s h"
| "pc_ok s (RelLinked i h) \<longleftrightarrow> snapshot s h \<and> nxt (nodePool (pool s) ! i) = ptr h"
| "pc_ok s _ \<longleftrightarrow> True"

definition pool_shape :: "packet_pool \<Rightarrow> bool" where
  "pool_shape p \<longleftrightarrow> length (nodePool p) = totalCount p \<and> length (inUseFlags p) = totalCount p \<and>
     length (poolMemory p) = totalCount p \<and> (\<forall>i<totalCount p. index (nodePool p ! i) = i)"

text \<open>
  Every packet is in exactly one place: on the free list, in the hands of one thread moving it,
  or marked in use.
\<close>

datatype place = OnList | With nat | InUse

definition located :: "packet_pool \<Rightarrow> (nat \<Rightarrow> pool_pc) \<Rightarrow> nat list \<Rightarrow> (nat \<Rightarrow> place) \<Rightarrow> bool" where
  "located p th fr pl \<longleftrightarrow> distinct fr \<and>
     (\<forall>i. i \<in> set fr \<longleftrightarrow> i < totalCount p \<and> pl i = OnList) \<and>
     (\<forall>i<totalCount p. inUseFlags p ! i \<longleftrightarrow> pl i = InUse) \<and>
     (\<forall>T i. i \<in> owns (th T) \<longleftrightarrow> i < totalCount p \<and> pl i = With T)"

definition places_ok :: "packet_pool \<Rightarrow> (nat \<Rightarrow> pool_pc) \<Rightarrow> nat list \<Rightarrow> bool" where
  "places_ok p th fr \<longleftrightarrow> (\<exists>pl. located p th fr pl)"

definition pool_inv :: "pool_sys \<Rightarrow> bool" where
  "pool_inv s \<longleftrightarrow> pool_shape (pool s) \<and>
     tag (freeListHead (pool s)) = of_nat (casCount s) \<and>
     chain (nodePool (pool s)) (ptr (freeListHead (pool s))) (free s) \<and>
     places_ok (pool s) (threads s) (free s) \<and>
     (\<forall>T. pc_ok s (threads s T))"

lemmas step_defs = goto_def set_pool_def

lemma chain_update [simp]: "i \<notin> set is \<Longrightarrow> chain (ns[i := x]) q is = chain ns q is"
  by (induction ns q "is" rule: chain.induct) (auto simp: nth_list_update)

lemma chain_hd: "chain ns (Some k) is \<Longrightarrow> \<exists>js. is = k # js \<and> chain ns (nxt (ns ! k)) js"
  by (cases "is") auto

lemma unat_tag: "c < 2 ^ 64 \<Longrightarrow> unat (of_nat c :: u64) = c"
  by (simp add: unsigned_of_nat take_bit_nat_eq_self)

text \<open>After one more compare-and-swap every head read before it is an old one.\<close>

lemma snapshot_older:
  assumes "pool_inv s" "snapshot s h" "casCount s < 2 ^ 64"
  shows "unat (tag h) < Suc (casCount s)"
  using assms by (auto simp: snapshot_def pool_inv_def unat_tag)


text \<open>Steps of a thread that leave the head and the nodes alone keep the other threads' locals good.\<close>

lemma pc_ok_cong:
  assumes "freeListHead (pool t) = freeListHead (pool s)" "nodePool (pool t) = nodePool (pool s)"
    "totalCount (pool t) = totalCount (pool s)" "casCount t = casCount s"
  shows "pc_ok t l = pc_ok s l"
  using assms by (cases l) (simp_all add: snapshot_def)

lemma located_owns: "located p th fr pl \<Longrightarrow> i \<in> owns (th T) \<longleftrightarrow> i < totalCount p \<and> pl i = With T"
  unfolding located_def by blast

lemma located_free: "located p th fr pl \<Longrightarrow> i \<in> set fr \<longleftrightarrow> i < totalCount p \<and> pl i = OnList"
  unfolding located_def by blast

lemma located_flag: "located p th fr pl \<Longrightarrow> i < totalCount p \<Longrightarrow> inUseFlags p ! i \<longleftrightarrow> pl i = InUse"
  unfolding located_def by blast

lemmas located_facts = located_owns located_free located_flag

lemma places_goto:
  assumes "places_ok p th fr" "owns l = owns (th T)"
  shows "places_ok p (th(T := l)) fr"
proof -
  have "owns ((th(T := l)) U) = owns (th U)" for U using assms(2) by simp
  then show ?thesis using assms(1) unfolding places_ok_def located_def by simp
qed

lemma inv_goto:
  assumes "pool_inv s" "owns l = owns (threads s T)" "pc_ok s l"
  shows "pool_inv (goto T l s)"
proof -
  have "pc_ok (goto T l s) (threads (goto T l s) U)" for U
    using assms(1,3) by (subst pc_ok_cong [of _ s]) (auto simp: goto_def pool_inv_def)
  then show ?thesis
    using assms(1) places_goto [of "pool s" "threads s" "free s" l T] assms(2)
    by (auto simp: goto_def pool_inv_def)
qed

text \<open>Moving packet \<open>i\<close> between the free list, the thread and the in-use flags.\<close>

lemma places_pop:
  assumes "places_ok p th (i # fr)" "owns (th T) = {}"
  shows "places_ok p (th(T := AcqPopped i)) fr"
proof -
  obtain pl where pl: "located p th (i # fr) pl" using assms(1) by (auto simp: places_ok_def)
  then have "\<not> (j < totalCount p \<and> pl j = With T)" for j using assms(2) by (auto simp flip: located_owns)
  moreover have "i < totalCount p \<and> pl i = OnList" using located_free [OF pl, of i] by simp
  ultimately have "located p (th(T := AcqPopped i)) fr (pl(i := With T))"
    using pl unfolding located_def by auto
  then show ?thesis by (auto simp: places_ok_def)
qed

lemma places_push:
  assumes "places_ok p th fr" "owns (th T) = {i}" "owns l = {}"
  shows "places_ok p (th(T := l)) (i # fr)"
proof -
  obtain pl where pl: "located p th fr pl" using assms(1) by (auto simp: places_ok_def)
  then have own: "(j < totalCount p \<and> pl j = With T) = (j = i)" for j
    using assms(2) by (auto simp flip: located_owns)
  then have "i < totalCount p" "pl i = With T" by blast+
  with own have "located p (th(T := l)) (i # fr) (pl(i := OnList))"
    using pl assms(3) unfolding located_def by auto
  then show ?thesis by (auto simp: places_ok_def)
qed

lemma places_mark:
  assumes "places_ok p th fr" "owns (th T) = {i}" "owns l = {}" "length (inUseFlags p) = totalCount p"
  shows "places_ok (p\<lparr>inUseFlags := (inUseFlags p)[i := True]\<rparr>) (th(T := l)) fr"
proof -
  obtain pl where pl: "located p th fr pl" using assms(1) by (auto simp: places_ok_def)
  then have own: "(j < totalCount p \<and> pl j = With T) = (j = i)" for j
    using assms(2) by (auto simp flip: located_owns)
  then have "i < totalCount p" "pl i = With T" by blast+
  with own have "located (p\<lparr>inUseFlags := (inUseFlags p)[i := True]\<rparr>) (th(T := l)) fr (pl(i := InUse))"
    using pl assms(3,4) unfolding located_def by (auto simp: nth_list_update)
  then show ?thesis by (auto simp: places_ok_def)
qed

lemma places_unmark:
  assumes "places_ok p th fr" "owns (th T) = {}" "owns l = {i}" "length (inUseFlags p) = totalCount p"
    and "i < totalCount p" "inUseFlags p ! i"
  shows "places_ok (p\<lparr>inUseFlags := (inUseFlags p)[i := False]\<rparr>) (th(T := l)) fr"
proof -
  obtain pl where pl: "located p th fr pl" using assms(1) by (auto simp: places_ok_def)
  then have "\<not> (j < totalCount p \<and> pl j = With T)" for j using assms(2) by (auto simp flip: located_owns)
  then have "located (p\<lparr>inUseFlags := (inUseFlags p)[i := False]\<rparr>) (th(T := l)) fr (pl(i := With T))"
    using pl assms(3-) unfolding located_def by (auto simp: nth_list_update)
  then show ?thesis by (auto simp: places_ok_def)
qed

section \<open>Every step keeps the invariant\<close>

lemma inv_tag: "pool_inv s \<Longrightarrow> tag (freeListHead (pool s)) = of_nat (casCount s)"
  by (simp add: pool_inv_def)

lemma inv_pc: "pool_inv s \<Longrightarrow> pc_ok s (threads s T)"
  by (simp add: pool_inv_def)

lemma pool_invI:
  assumes "\<And>U. pc_ok s (threads s U)" "places_ok (pool s) (threads s) (free s)"
    and "pool_shape (pool s)" "tag (freeListHead (pool s)) = of_nat (casCount s)"
    and "chain (nodePool (pool s)) (ptr (freeListHead (pool s))) (free s)"
  shows "pool_inv s"
  using assms by (simp add: pool_inv_def)

lemma pc_ok_after_cas:
  assumes "pool_inv s" "casCount s < 2 ^ 64" "pc_ok s l" "nodePool (pool t) = nodePool (pool s)"
    "totalCount (pool t) = totalCount (pool s)" "casCount t = Suc (casCount s)"
    "tag (freeListHead (pool t)) = of_nat (Suc (casCount s))" "Suc (casCount s) < 2 ^ 64"
  shows "pc_ok t l"
proof -
  have old: "snapshot t h \<and> h \<noteq> freeListHead (pool t)" if "snapshot s h" for h
    using snapshot_older [OF assms(1) that assms(2)] assms(6,7) unat_tag [OF assms(8)]
    by (auto simp: snapshot_def)
  then show ?thesis using assms(3,4,5) by (cases l) auto
qed

lemma acquire_cas_inv:
  assumes inv: "pool_inv s" and c: "Suc (casCount s) < 2 ^ 64"
    and th: "threads s T = AcqNext (freeListHead (pool s)) q" and k: "ptr (freeListHead (pool s)) = Some k"
  shows "pool_inv (goto T (AcqPopped (index (nodePool (pool s) ! k)))
       (set_pool (\<lambda>p. p\<lparr>freeListHead := TaggedPtr q (tag (freeListHead (pool s)) + 1)\<rparr>)
         (s\<lparr>free := tl (free s), casCount := Suc (casCount s)\<rparr>)))" (is "pool_inv ?t")
proof -
  obtain fr where fr: "free s = k # fr" "chain (nodePool (pool s)) (nxt (nodePool (pool s) ! k)) fr"
    using inv k chain_hd [of "nodePool (pool s)" k "free s"] by (auto simp: pool_inv_def)
  have q: "q = nxt (nodePool (pool s) ! k)"
    using inv th k by (auto simp: pool_inv_def dest!: spec [of _ T])
  have pl: "places_ok (pool s) (threads s) (k # fr)" using inv fr by (simp add: pool_inv_def)
  then have kk: "k < totalCount (pool s)" by (auto simp: places_ok_def located_def)
  then have ix: "index (nodePool (pool s) ! k) = k" using inv by (auto simp: pool_inv_def pool_shape_def)
  have "pc_ok ?t (threads s U)" for U
    by (rule pc_ok_after_cas [OF inv]) (use c inv_tag [OF inv] inv_pc [OF inv] in \<open>simp_all add: step_defs\<close>)
  then have "pc_ok ?t (threads ?t U)" for U by (auto simp: step_defs)
  moreover have "places_ok (pool ?t) (threads ?t) (free ?t)"
    using places_pop [OF pl, of T] th fr ix by (simp add: step_defs places_ok_def located_def)
  ultimately show ?thesis
    by (rule pool_invI) (use inv fr q in \<open>auto simp: pool_inv_def step_defs pool_shape_def\<close>)
qed

lemma release_cas_inv:
  assumes inv: "pool_inv s" and c: "Suc (casCount s) < 2 ^ 64"
    and th: "threads s T = RelLinked i (freeListHead (pool s))"
  shows "pool_inv (goto T (RelPushed i)
       (set_pool (\<lambda>p. p\<lparr>freeListHead := TaggedPtr (Some i) (tag (freeListHead (pool s)) + 1)\<rparr>)
         (s\<lparr>free := i # free s, casCount := Suc (casCount s)\<rparr>)))" (is "pool_inv ?t")
proof -
  have q: "nxt (nodePool (pool s) ! i) = ptr (freeListHead (pool s))"
    using inv th by (auto simp: pool_inv_def dest!: spec [of _ T])
  have pl: "places_ok (pool s) (threads s) (free s)" using inv by (simp add: pool_inv_def)
  then have "i < totalCount (pool s)" using th located_owns [of "pool s" "threads s" "free s" _ i T]
    by (auto simp: places_ok_def)
  then have i: "i < length (nodePool (pool s))" using inv by (auto simp: pool_inv_def pool_shape_def)
  have "pc_ok ?t (threads s U)" for U
    by (rule pc_ok_after_cas [OF inv]) (use c inv_tag [OF inv] inv_pc [OF inv] in \<open>simp_all add: step_defs\<close>)
  then have "pc_ok ?t (threads ?t U)" for U by (auto simp: step_defs)
  moreover have "places_ok (pool ?t) (threads ?t) (free ?t)"
    using places_push [OF pl, of T i "RelPushed i"] th by (simp add: step_defs places_ok_def located_def)
  ultimately show ?thesis
    by (rule pool_invI) (use inv q i in \<open>auto simp: pool_inv_def step_defs pool_shape_def\<close>)
qed

lemma acquire_mark_inv:
  assumes inv: "pool_inv s" and th: "threads s T = AcqPopped i"
  shows "pool_inv (goto T (AcqMarked i)
       (set_pool (\<lambda>p. p\<lparr>inUseFlags := (inUseFlags p)[i := True]\<rparr>) s))" (is "pool_inv ?t")
proof -
  have "pc_ok ?t (threads s U)" for U
    using inv by (subst pc_ok_cong [of _ s]) (auto simp: step_defs pool_inv_def)
  then have "pc_ok ?t (threads ?t U)" for U by (auto simp: step_defs)
  moreover have "places_ok (pool ?t) (threads ?t) (free ?t)"
    using places_mark [of "pool s" "threads s" "free s" T i "AcqMarked i"] th inv
    by (simp add: step_defs pool_inv_def pool_shape_def)
  ultimately show ?thesis
    by (rule pool_invI) (use inv in \<open>auto simp: pool_inv_def step_defs pool_shape_def\<close>)
qed

lemma release_flag_inv:
  assumes inv: "pool_inv s" and th: "threads s T = RelFlag i" and fl: "inUseFlags (pool s) ! i"
  shows "pool_inv (goto T (RelReset i)
       (set_pool (\<lambda>p. p\<lparr>inUseFlags := (inUseFlags p)[i := False]\<rparr>) s))" (is "pool_inv ?t")
proof -
  have i: "i < totalCount (pool s)" using inv th by (auto simp: pool_inv_def dest!: spec [of _ T])
  have "pc_ok ?t (threads s U)" for U
    using inv by (subst pc_ok_cong [of _ s]) (auto simp: step_defs pool_inv_def)
  then have "pc_ok ?t (threads ?t U)" for U by (auto simp: step_defs)
  moreover have "places_ok (pool ?t) (threads ?t) (free ?t)"
    using places_unmark [of "pool s" "threads s" "free s" T "RelReset i" i] th inv i fl
    by (simp add: step_defs pool_inv_def pool_shape_def)
  ultimately show ?thesis
    by (rule pool_invI) (use inv in \<open>auto simp: pool_inv_def step_defs pool_shape_def\<close>)
qed

lemma inv_cong:
  assumes "pool_inv s" "nodePool (pool t) = nodePool (pool s)" "inUseFlags (pool t) = inUseFlags (pool s)"
    "totalCount (pool t) = totalCount (pool s)" "length (poolMemory (pool t)) = length (poolMemory (pool s))"
    "freeListHead (pool t) = freeListHead (pool s)" "threads t = threads s" "free t = free s"
    "casCount t = casCount s"
  shows "pool_inv t"
proof -
  have "pc_ok t (threads t U)" for U
    using assms inv_pc [OF assms(1), of U] pc_ok_cong [of t s] by simp
  then show ?thesis
    by (rule pool_invI)
      (use assms in \<open>auto simp: pool_inv_def pool_shape_def places_ok_def located_def\<close>)
qed

lemma release_link_inv:
  assumes inv: "pool_inv s" and th: "threads s T = RelLoaded i h"
  shows "pool_inv (goto T (RelLinked i h) (set_pool (link_node i (ptr h)) s))" (is "pool_inv ?t")
proof -
  obtain pl where pl: "located (pool s) (threads s) (free s) pl"
    using inv by (auto simp: pool_inv_def places_ok_def)
  have i: "i < totalCount (pool s)" "pl i = With T" using located_owns [OF pl, of i T] th by auto
  then have nfree: "i \<notin> set (free s)" using located_free [OF pl, of i] by simp
  have shape: "pool_shape (pool s)" using inv by (simp add: pool_inv_def)
  have hd: "nxt (nodePool (pool ?t) ! k) = nxt (nodePool (pool s) ! k)"
    if "ptr (freeListHead (pool s)) = Some k" for k
  proof -
    have "k \<in> set (free s)"
      using inv that chain_hd [of "nodePool (pool s)" k "free s"] by (auto simp: pool_inv_def)
    then have "i \<noteq> k" using nfree by auto
    then show ?thesis by (simp add: step_defs link_node_def)
  qed
  have other: "j \<noteq> i" if "threads s U = RelLinked j g" "U \<noteq> T" for U j g
    using located_owns [OF pl, of j U] that i by auto
  have "pc_ok ?t (threads ?t U)" for U
    using inv_pc [OF inv, of U] inv_pc [OF inv, of T] hd other th i shape
    by (cases "threads s U")
      (auto simp: step_defs link_node_def snapshot_def pool_shape_def nth_list_update)
  moreover have "places_ok (pool ?t) (threads ?t) (free ?t)"
    using places_goto [of "pool s" "threads s" "free s" "RelLinked i h" T] th inv
    by (simp add: step_defs link_node_def pool_inv_def places_ok_def located_def)
  ultimately show ?thesis
    by (rule pool_invI) (use inv nfree i(1) in
      \<open>auto simp: pool_inv_def step_defs link_node_def pool_shape_def nth_list_update\<close>)
qed

lemma snapshot_now [simp]: "snapshot s (freeListHead (pool s))"
  by (simp add: snapshot_def)

lemma pool_step_inv:
  assumes "pool_step n s t" "pool_inv s" "casCount t < 2 ^ 64"
  shows "pool_inv t"
  using assms
proof cases
  case (acquire_call T)
  then show ?thesis using assms inv_goto by simp
next
  case (acquire_empty T h)
  then show ?thesis using assms inv_goto by simp
next
  case (acquire_next T h k)
  then show ?thesis using assms inv_pc [of s T] by (auto intro!: inv_goto)
next
  case (acquire_cas T h q k)
  then show ?thesis using assms acquire_cas_inv [of s T q k] by (simp add: step_defs)
next
  case (acquire_retry T h q)
  then show ?thesis using assms inv_goto by simp
next
  case (acquire_mark T i)
  then show ?thesis using assms acquire_mark_inv by simp
next
  case (acquire_return T i)
  then have "pool_inv (goto T Idle s)" using assms inv_goto by simp
  then show ?thesis by (rule inv_cong) (simp_all add: acquire_return step_defs)
next
  case (release_call T i)
  then have "pool_inv (goto T (if i \<ge> totalCount (pool s) then Idle else RelFlag i) s)"
    using assms by (intro inv_goto) simp_all
  then show ?thesis by (rule inv_cong) (simp_all add: release_call step_defs)
next
  case (release_flag T i)
  then show ?thesis using assms release_flag_inv by simp
next
  case (release_double T i)
  then show ?thesis using assms inv_goto by simp
next
  case (release_load T i)
  then have "pool_inv (goto T (RelLoaded i (freeListHead (pool s))) s)" using assms inv_goto by simp
  then show ?thesis by (rule inv_cong) (simp_all add: release_load step_defs reset_packet_def)
next
  case (release_link T i h)
  then show ?thesis using assms release_link_inv by simp
next
  case (release_cas T i h)
  then show ?thesis using assms release_cas_inv [of s T i] by (simp add: step_defs)
next
  case (release_retry T i h)
  then show ?thesis using assms inv_goto by simp
next
  case (release_count T i)
  then have "pool_inv (goto T Idle s)" using assms inv_goto by simp
  then show ?thesis by (rule inv_cong) (simp_all add: release_count step_defs)
qed

lemma casCount_mono: "pool_step n s t \<Longrightarrow> casCount s \<le> casCount t"
  by (induction rule: pool_step.induct) (simp_all add: step_defs)

section \<open>The initial state\<close>

lemma push_free_loop:
  assumes "k \<le> N" "length ns = N" "length fl = N"
  shows "\<exists>ns'. fold push_free [0..<k] \<lparr>poolMemory = m, totalCount = N, freeListHead = TaggedPtr None 0,
       availableCount = 0, inUseFlags = replicate N False, nodePool = ns\<rparr> =
     \<lparr>poolMemory = m, totalCount = N,
      freeListHead = TaggedPtr (if k = 0 then None else Some (k - 1)) (of_nat k),
      availableCount = 0, inUseFlags = replicate N False, nodePool = ns'\<rparr> \<and>
     length ns' = N \<and> (\<forall>i<k. index (ns' ! i) = i) \<and>
     chain ns' (if k = 0 then None else Some (k - 1)) (rev [0..<k])"
  using assms(1)
proof (induction k)
  case 0
  then show ?case using assms by simp
next
  case (Suc k)
  then obtain ns' where ns': "fold push_free [0..<k] \<lparr>poolMemory = m, totalCount = N,
       freeListHead = TaggedPtr None 0,
       availableCount = 0, inUseFlags = replicate N False, nodePool = ns\<rparr> =
     \<lparr>poolMemory = m, totalCount = N,
      freeListHead = TaggedPtr (if k = 0 then None else Some (k - 1)) (of_nat k),
      availableCount = 0, inUseFlags = replicate N False, nodePool = ns'\<rparr>"
     "length ns' = N" "\<forall>i<k. index (ns' ! i) = i"
     "chain ns' (if k = 0 then None else Some (k - 1)) (rev [0..<k])" by auto
  let ?q = "if k = 0 then None else Some (k - 1)"
  have "push_free k \<lparr>poolMemory = m, totalCount = N, freeListHead = TaggedPtr ?q (of_nat k),
      availableCount = 0, inUseFlags = replicate N False, nodePool = ns'\<rparr> =
    \<lparr>poolMemory = m, totalCount = N, freeListHead = TaggedPtr (Some k) (of_nat (Suc k)),
      availableCount = 0, inUseFlags = replicate N False,
      nodePool = ns'[k := \<lparr>index = k, nxt = ?q\<rparr>]\<rparr>"
    by (simp add: push_free_def add.commute)
  then show ?case
    using ns' Suc.prems
    by (intro exI [of _ "ns'[k := \<lparr>index = k, nxt = ?q\<rparr>]"]) (auto simp: nth_list_update less_Suc_eq)
qed

lemma pool_inv_start: "pool_inv (pool_start N)"
proof -
  obtain ns' where ns': "LockFreePacketPool N =
     \<lparr>poolMemory = replicate N PooledRTPPacket, totalCount = N,
      freeListHead = TaggedPtr (if N = 0 then None else Some (N - 1)) (of_nat N),
      availableCount = of_nat N, inUseFlags = replicate N False, nodePool = ns'\<rparr>"
    "length ns' = N" "\<forall>i<N. index (ns' ! i) = i"
    "chain ns' (if N = 0 then None else Some (N - 1)) (rev [0..<N])"
    using push_free_loop [of N N "replicate N \<lparr>index = 0, nxt = None\<rparr>" "replicate N False"
        "replicate N PooledRTPPacket"]
    by (auto simp: LockFreePacketPool_def)
  then have "located (LockFreePacketPool N) (\<lambda>_. Idle) (rev [0..<N]) (\<lambda>_. OnList)"
    by (simp add: located_def)
  then show ?thesis using ns'
    by (auto simp: pool_inv_def pool_start_def pool_shape_def places_ok_def)
qed

lemma pool_reachable_inv:
  assumes "pool_reachable n N s" "casCount s < 2 ^ 64"
  shows "pool_inv s"
  using assms
proof (induction rule: pool_reachable.induct)
  case start
  show ?case by (rule pool_inv_start)
next
  case (step s t)
  then show ?case using pool_step_inv casCount_mono by (meson le_less_trans)
qed

lemma pool_totalCount: "pool_reachable n N s \<Longrightarrow> totalCount (pool s) = N"
proof (induction rule: pool_reachable.induct)
  case start
  have "totalCount (fold push_free is p) = totalCount p" for "is" p
    by (induction "is" arbitrary: p) (simp_all add: push_free_def Let_def)
  then show ?case by (simp add: pool_start_def LockFreePacketPool_def)
next
  case (step s t)
  have "totalCount (pool t) = totalCount (pool s)"
    using step.hyps(2) by cases (simp_all add: step_defs reset_packet_def link_node_def)
  then show ?case using step.IH by simp
qed

lemma pool_other_idle: "pool_reachable n N s \<Longrightarrow> T \<ge> n \<Longrightarrow> threads s T = Idle"
proof (induction rule: pool_reachable.induct)
  case start
  show ?case by (simp add: pool_start_def)
next
  case (step s t)
  then show ?case by (auto elim!: pool_step.cases simp: step_defs)
qed

section \<open>No packet is handed out twice\<close>

text \<open>The packet a call is about to return, or has been given and not yet marked free.\<close>

fun claims :: "pool_pc \<Rightarrow> nat set" where
  "claims (AcqMarked i) = {i}"
| "claims (RelFlag i) = {i}"
| "claims _ = {}"

definition client_ok :: "packet_pool \<Rightarrow> (nat \<Rightarrow> pool_pc) \<Rightarrow> nat set \<Rightarrow> bool" where
  "client_ok p th hs \<longleftrightarrow>
     (\<forall>i\<in>hs. i < totalCount p \<and> inUseFlags p ! i) \<and>
     (\<forall>T. \<forall>i\<in>claims (th T). i < totalCount p \<and> inUseFlags p ! i \<and> i \<notin> hs) \<and>
     (\<forall>T U i. i \<in> claims (th T) \<longrightarrow> i \<in> claims (th U) \<longrightarrow> T = U)"

lemma client_goto:
  assumes "client_ok p th hs" "claims l = claims (th T)"
  shows "client_ok p (th(T := l)) hs"
proof -
  have "claims ((th(T := l)) U) = claims (th U)" for U using assms(2) by simp
  then show ?thesis using assms(1) unfolding client_ok_def by simp
qed

lemma client_drop:
  assumes "client_ok p th hs" "claims l = {}"
  shows "client_ok p (th(T := l)) hs"
  using assms unfolding client_ok_def by auto

lemma client_mark:
  assumes "client_ok p th hs" "\<not> inUseFlags p ! i" "i < totalCount p"
    "length (inUseFlags p) = totalCount p"
  shows "client_ok (p\<lparr>inUseFlags := (inUseFlags p)[i := True]\<rparr>) (th(T := AcqMarked i)) hs"
  using assms unfolding client_ok_def by (auto simp: nth_list_update)

lemma client_return:
  assumes "client_ok p th hs" "th T = AcqMarked i"
  shows "client_ok p (th(T := Idle)) (insert i hs)"
proof -
  have "i \<notin> claims (th U)" if "U \<noteq> T" for U
    using assms that unfolding client_ok_def by (metis claims.simps(1) singletonI)
  moreover have "i < totalCount p \<and> inUseFlags p ! i"
    using assms unfolding client_ok_def by (metis claims.simps(1) singletonI)
  ultimately show ?thesis using assms(1) unfolding client_ok_def by auto
qed

lemma client_call:
  assumes "client_ok p th hs" "i \<in> hs" "claims (th T) = {}"
  shows "client_ok p (th(T := RelFlag i)) (hs - {i})"
  using assms unfolding client_ok_def by auto

lemma client_unmark:
  assumes "client_ok p th hs" "th T = RelFlag i" "claims l = {}" "length (inUseFlags p) = totalCount p"
  shows "client_ok (p\<lparr>inUseFlags := (inUseFlags p)[i := False]\<rparr>) (th(T := l)) hs"
proof -
  have "i \<notin> claims (th U)" if "U \<noteq> T" for U
    using assms that unfolding client_ok_def by (metis claims.simps(2) singletonI)
  moreover have "i < totalCount p \<and> i \<notin> hs"
    using assms unfolding client_ok_def by (metis claims.simps(2) singletonI)
  ultimately show ?thesis
    using assms unfolding client_ok_def by (auto simp: nth_list_update)
qed

lemma client_ok_cong:
  assumes "client_ok p th hs" "totalCount q = totalCount p" "inUseFlags q = inUseFlags p"
  shows "client_ok q th hs"
  using assms(1) unfolding client_ok_def assms(2,3) .

lemma client_other:
  assumes "client_ok p th hs" "totalCount q = totalCount p" "inUseFlags q = inUseFlags p" "claims l = {}"
  shows "client_ok q (th(T := l)) hs"
  by (rule client_ok_cong [OF client_drop [OF assms(1,4)] assms(2,3)])

lemma client_step:
  assumes "pool_step n s t" "pool_inv s" "client_ok (pool s) (threads s) (held s)" "\<not> wild t"
  shows "client_ok (pool t) (threads t) (held t)"
  using assms
proof cases
  case (acquire_mark T i)
  obtain pl where pl: "located (pool s) (threads s) (free s) pl"
    using assms(2) by (auto simp: pool_inv_def places_ok_def)
  have "i < totalCount (pool s)" "\<not> inUseFlags (pool s) ! i"
    using acquire_mark located_owns [OF pl, of i T] located_flag [OF pl, of i] by auto
  then show ?thesis
    using client_mark [OF assms(3), of i T] assms(2) acquire_mark
    by (simp add: step_defs pool_inv_def pool_shape_def)
next
  case (acquire_return T i)
  then show ?thesis
    using client_ok_cong [OF client_return [OF assms(3), of T i]] by (simp add: step_defs)
next
  case (release_call T i)
  then have "i \<in> held s" using assms(4) by (simp add: step_defs)
  moreover have "i < totalCount (pool s)" using calculation assms(3) by (auto simp: client_ok_def)
  ultimately show ?thesis using client_call [OF assms(3), of i T] release_call
    by (simp add: step_defs)
next
  case (release_flag T i)
  then show ?thesis using client_unmark [OF assms(3), of T i "RelReset i"] assms(2)
    by (simp add: step_defs pool_inv_def pool_shape_def)
qed (use assms(3) in \<open>auto simp: step_defs reset_packet_def link_node_def
      simp del: fun_upd_apply intro!: client_other [of "pool s"]\<close>)

lemma wild_mono: "pool_step n s t \<Longrightarrow> wild s \<Longrightarrow> wild t"
  by (induction rule: pool_step.induct) (simp_all add: step_defs)

lemma client_reachable:
  assumes "pool_reachable n N s" "casCount s < 2 ^ 64" "\<not> wild s"
  shows "client_ok (pool s) (threads s) (held s)"
  using assms
proof (induction rule: pool_reachable.induct)
  case start
  show ?case by (simp add: client_ok_def pool_start_def)
next
  case (step s t)
  then have "casCount s < 2 ^ 64" "\<not> wild s" using casCount_mono wild_mono by (meson le_less_trans)+
  then show ?case using step client_step pool_reachable_inv by blast
qed

section \<open>The count of available packets\<close>

text \<open>What the calls in flight still owe the counter.\<close>

fun owed :: "pool_pc \<Rightarrow> u64" where
  "owed (AcqPopped i) = 1"
| "owed (AcqMarked i) = 1"
| "owed (RelPushed i) = - 1"
| "owed (RelReset i) = 0"
| "owed (RelLoaded i h) = 0"
| "owed (RelLinked i h) = 0"
| "owed _ = 0"

lemma sum_owed_upd:
  fixes T n :: nat
  assumes "T < n"
  shows "(\<Sum>U<n. owed ((th(T := l)) U)) = (\<Sum>U<n. owed (th U)) - owed (th T) + owed l"
  using sum_fun_upd [OF assms, of owed th l] by (simp add: algebra_simps)

definition count_ok :: "nat \<Rightarrow> pool_sys \<Rightarrow> bool" where
  "count_ok n s \<longleftrightarrow>
     availableCount (pool s) = of_nat (length (free s)) + (\<Sum>T<n. owed (threads s T))"

lemma count_step:
  assumes "pool_step n s t" "pool_inv s" "count_ok n s"
  shows "count_ok n t"
  using assms
proof cases
  case (acquire_cas T h q k)
  then have "free s \<noteq> []" using assms(2) by (auto simp: pool_inv_def)
  then obtain fr where "free s = k # fr"
    using assms(2) acquire_cas chain_hd by (fastforce simp: pool_inv_def)
  then show ?thesis
    using acquire_cas assms(3) by (simp add: count_ok_def step_defs sum_owed_upd del: fun_upd_apply)
qed (use assms(3) in \<open>auto simp: count_ok_def step_defs sum_owed_upd reset_packet_def link_node_def
      simp del: fun_upd_apply\<close>)

lemma count_reachable:
  assumes "pool_reachable n N s" "casCount s < 2 ^ 64"
  shows "count_ok n s"
  using assms
proof (induction rule: pool_reachable.induct)
  case start
  have "availableCount (LockFreePacketPool N) = of_nat N" by (simp add: LockFreePacketPool_def)
  then show ?case by (simp add: count_ok_def pool_start_def)
next
  case (step s t)
  then have "casCount s < 2 ^ 64" using casCount_mono by (meson le_less_trans)
  then show ?case using step count_step pool_reachable_inv by blast
qed

section \<open>Running a schedule\<close>

text \<open>
  One step of one thread, chosen by a schedule: a compare-and-swap succeeds when the head is still
  the one the thread read and is retried otherwise.
\<close>

datatype pool_cmd = CallAcquire | CallRelease nat | Advance

fun pool_exec :: "nat \<Rightarrow> pool_cmd \<Rightarrow> pool_sys \<Rightarrow> pool_sys" where
  "pool_exec T CallAcquire s = (case threads s T of
       Idle \<Rightarrow> goto T (AcqLoaded (freeListHead (pool s))) s | _ \<Rightarrow> s)"
| "pool_exec T (CallRelease i) s = (case threads s T of
       Idle \<Rightarrow> goto T (if i \<ge> totalCount (pool s) then Idle else RelFlag i)
         (s\<lparr>held := held s - {i}, wild := (wild s \<or> i \<notin> held s)\<rparr>) | _ \<Rightarrow> s)"
| "pool_exec T Advance s = (case threads s T of
       Idle \<Rightarrow> s
     | AcqLoaded h \<Rightarrow> (case ptr h of None \<Rightarrow> goto T Idle s
         | Some k \<Rightarrow> goto T (AcqNext h (nxt (nodePool (pool s) ! k))) s)
     | AcqNext h q \<Rightarrow> (case ptr h of
           Some k \<Rightarrow> if freeListHead (pool s) = h
             then goto T (AcqPopped (index (nodePool (pool s) ! k)))
               (set_pool (\<lambda>p. p\<lparr>freeListHead := TaggedPtr q (tag h + 1)\<rparr>)
                 (s\<lparr>free := tl (free s), casCount := Suc (casCount s)\<rparr>))
             else goto T (AcqLoaded (freeListHead (pool s))) s
         | None \<Rightarrow> goto T (AcqLoaded (freeListHead (pool s))) s)
     | AcqPopped i \<Rightarrow> goto T (AcqMarked i)
         (set_pool (\<lambda>p. p\<lparr>inUseFlags := (inUseFlags p)[i := True]\<rparr>) s)
     | AcqMarked i \<Rightarrow> goto T Idle
         (set_pool (\<lambda>p. p\<lparr>availableCount := availableCount p - 1\<rparr>)
           (s\<lparr>held := insert i (held s)\<rparr>))
     | RelFlag i \<Rightarrow> if inUseFlags (pool s) ! i
         then goto T (RelReset i) (set_pool (\<lambda>p. p\<lparr>inUseFlags := (inUseFlags p)[i := False]\<rparr>) s)
         else goto T Idle s
     | RelReset i \<Rightarrow> goto T (RelLoaded i (freeListHead (pool s))) (set_pool (reset_packet i) s)
     | RelLoaded i h \<Rightarrow> goto T (RelLinked i h) (set_pool (link_node i (ptr h)) s)
     | RelLinked i h \<Rightarrow> if freeListHead (pool s) = h
         then goto T (RelPushed i)
           (set_pool (\<lambda>p. p\<lparr>freeListHead := TaggedPtr (Some i) (tag h + 1)\<rparr>)
             (s\<lparr>free := i # free s, casCount := Suc (casCount s)\<rparr>))
         else goto T (RelLoaded i (freeListHead (pool s))) s
     | RelPushed i \<Rightarrow> goto T Idle
         (set_pool (\<lambda>p. p\<lparr>availableCount := availableCount p + 1\<rparr>) s))"

lemma pool_exec_step:
  assumes "T < n"
  shows "pool_exec T c s = s \<or> pool_step n s (pool_exec T c s)"
proof (cases c)
  case CallAcquire
  then show ?thesis using assms by (auto split: pool_pc.split intro: pool_step.intros)
next
  case (CallRelease i)
  then show ?thesis using release_call [of T n s i] assms by (cases "threads s T") auto
next
  case Advance
  then show ?thesis using assms
    by (cases "threads s T") (auto split: option.split intro: pool_step.intros)
qed

fun pool_sched :: "(nat \<times> pool_cmd) list \<Rightarrow> pool_sys \<Rightarrow> pool_sys" where
  "pool_sched [] s = s"
| "pool_sched ((T, c) # cs) s = pool_sched cs (pool_exec T c s)"

lemma pool_sched_reachable:
  "pool_reachable n N s \<Longrightarrow> \<forall>(T, c)\<in>set cs. T < n \<Longrightarrow> pool_reachable n N (pool_sched cs s)"
proof (induction cs arbitrary: s)
  case (Cons a cs)
  obtain T c where a: "a = (T, c)" by force
  have "pool_reachable n N (pool_exec T c s)"
    using Cons.prems pool_exec_step [of T n c s] pool_reachable.step a by auto
  then show ?case using Cons a by simp
qed simp

text \<open>One thread alone runs its call as the sequential operation says.\<close>

lemma acquire_alone:
  assumes "threads s T = Idle"
  shows "\<exists>k. let t = pool_sched (replicate k (T, Advance)) (pool_exec T CallAcquire s) in
    pool t = fst (acquire (pool s)) \<and> threads t = threads s \<and>
    held t = held s \<union> set_option (snd (acquire (pool s)))"
proof (cases "ptr (freeListHead (pool s))")
  case None
  then show ?thesis using assms
    by (intro exI [of _ 1]) (auto simp: acquire_def step_defs Let_def)
next
  case (Some k)
  then show ?thesis using assms
    by (intro exI [of _ 4]) (auto simp: acquire_def step_defs Let_def eval_nat_numeral)
qed

lemma release_alone:
  assumes "threads s T = Idle"
  shows "\<exists>k. let t = pool_sched (replicate k (T, Advance)) (pool_exec T (CallRelease i) s) in
    pool t = release (Some i) (pool s) \<and> threads t = threads s"
proof (cases "i \<ge> totalCount (pool s)")
  case True
  then show ?thesis using assms
    by (intro exI [of _ 0]) (auto simp: release_def step_defs Let_def)
next
  case False
  show ?thesis
  proof (cases "inUseFlags (pool s) ! i")
    case True
    then show ?thesis using assms False
      by (intro exI [of _ 5])
        (auto simp: release_def step_defs Let_def eval_nat_numeral reset_packet_def link_node_def)
  next
    case f: False
    then show ?thesis using assms False
      by (intro exI [of _ 1]) (auto simp: release_def step_defs Let_def)
  qed
qed

lemmas pool_eval = pool_start_def LockFreePacketPool_def push_free_def step_defs Let_def
  reset_packet_def link_node_def PooledRTPPacket_def

section \<open>Theorems\<close>

text \<open>
  C3: whatever the interleaving of any number of threads, and as long as callers release only
  packets they hold, a packet that \<open>acquire\<close> is about to return is not held by anyone and no other
  \<open>acquire\<close> is about to return it. The bound is on the number of compare-and-swaps ever made on the
  head, the point at which the 64-bit tag would repeat.
\<close>

theorem pool_no_double_allocation:
  assumes "pool_reachable n N s" "casCount s < 2 ^ 64" "\<not> wild s" "threads s T = AcqMarked i"
  shows "i < N \<and> i \<notin> held s \<and> (\<forall>U. U \<noteq> T \<longrightarrow> threads s U \<noteq> AcqMarked i)"
proof -
  have c: "client_ok (pool s) (threads s) (held s)" using client_reachable assms by blast
  have "totalCount (pool s) = N" using assms(1) by (rule pool_totalCount)
  moreover have "threads s U \<noteq> AcqMarked i" if "U \<noteq> T" for U
  proof
    assume "threads s U = AcqMarked i"
    then have "i \<in> claims (threads s U)" "i \<in> claims (threads s T)" using assms(4) by auto
    then show False using c that unfolding client_ok_def by blast
  qed
  moreover have "i \<in> claims (threads s T)" using assms(4) by simp
  ultimately show ?thesis using c unfolding client_ok_def by blast
qed

theorem pool_no_double_allocation_witness:
  "let s = pool_sched [(0, CallAcquire), (0, Advance), (0, Advance), (0, Advance)] (pool_start 2) in
   threads s 0 = AcqMarked 1 \<and> 1 \<notin> held s"
proof -
  let ?s = "pool_sched [(0, CallAcquire), (0, Advance), (0, Advance), (0, Advance)] (pool_start 2)"
  have r: "pool_reachable 2 2 ?s" by (intro pool_sched_reachable pool_reachable.start) simp
  have e: "threads ?s 0 = AcqMarked 1" "casCount ?s = Suc 2" "\<not> wild ?s"
    by (simp_all add: pool_eval eval_nat_numeral)
  have "casCount ?s < 2 ^ 64" unfolding e(2) by simp
  note e = e(1) this e(3)
  show ?thesis using pool_no_double_allocation [OF r e(2,3,1)] e(1) by (simp add: Let_def)
qed



text \<open>
  the counter \<open>availableCount_\<close> is not a safe reading while calls are in flight: with one packet
  and two threads, a thread can pop the packet another has just pushed and subtract before the
  other adds, and \<open>getAvailableCount\<close> then reports the largest 64-bit value.
\<close>

theorem pool_available_wraps:
  "\<exists>s. pool_reachable 2 1 s \<and> getAvailableCount (pool s) = - 1 \<and> free s = []"
proof -
  let ?a = "[(0, CallAcquire), (0, Advance), (0, Advance), (0, Advance), (0, Advance)]"
  let ?r = "[(0, CallRelease 0), (0, Advance), (0, Advance), (0, Advance), (0, Advance)]"
  let ?b = "[(1, CallAcquire), (1, Advance), (1, Advance), (1, Advance), (1, Advance)]"
  let ?s = "pool_sched (?a @ ?r @ ?b) (pool_start 1)"
  have "pool_reachable 2 1 ?s" by (intro pool_sched_reachable pool_reachable.start) simp
  moreover have "getAvailableCount (pool ?s) = - 1 \<and> free ?s = []"
    by (simp add: pool_eval eval_nat_numeral getAvailableCount_def)
  ultimately show ?thesis by blast
qed

text \<open>
  the field \<open>next\<close> of a node is read by \<open>acquire\<close> without holding the node: one thread can be
  about to read it while another, which popped and is releasing the same packet, is about to
  write it. The field is not atomic.
\<close>

theorem pool_next_race:
  "\<exists>s h g. pool_reachable 2 1 s \<and> threads s 0 = AcqLoaded h \<and> ptr h = Some 0 \<and>
     threads s 1 = RelLoaded 0 g"
proof -
  let ?b = "[(0, CallAcquire), (1, CallAcquire), (1, Advance), (1, Advance), (1, Advance), (1, Advance)]"
  let ?r = "[(1, CallRelease 0), (1, Advance), (1, Advance)]"
  let ?s = "pool_sched (?b @ ?r) (pool_start 1)"
  have "pool_reachable 2 1 ?s" by (intro pool_sched_reachable pool_reachable.start) simp
  moreover have "threads ?s 0 = AcqLoaded (TaggedPtr (Some 0) 1)"
    "threads ?s 1 = RelLoaded 0 (TaggedPtr None 2)"
    by (simp_all add: pool_eval eval_nat_numeral)
  ultimately show ?thesis by (metis tagged_ptr.sel(1))
qed

end
