(* ===== verification/Jitter_Buffer.thy ===== *)
theory Jitter_Buffer
  imports Packet_Pool "HOL-Library.Multiset"
begin

text \<open>
  The lock-free jitter buffer of
  \<open>src/packages/aes67-core/NetworkEngine/RTP/LockFreeCircularJitterBuffer.cpp\<close>: packets indexed by
  sequence number modulo a power of two, each slot guarded by an atomic four-state machine. First
  the size computation and the operations as one thread runs them; then the operations of any
  number of threads interleaved at every access to shared memory.

  Sizes are \<open>nat\<close> where the code bounds them (a slot index, a packet length), and 64-bit words
  where the code could wrap (the depth before it is rounded, the counters).
\<close>

section \<open>State\<close>

datatype slot_state = EMPTY | WRITING | READY | READING

record slot =
  sl_data :: byte_list
  sl_length :: nat
  sl_sequenceNumber :: u32
  sl_presentationTime :: u64
  sl_arrivalTime :: u64
  sl_state :: slot_state

definition SLOT_BYTES :: nat where "SLOT_BYTES = 1500"

definition LockFreeBufferPacket :: slot where
  "LockFreeBufferPacket = \<lparr>sl_data = replicate SLOT_BYTES 0, sl_length = 0, sl_sequenceNumber = 0,
     sl_presentationTime = 0, sl_arrivalTime = 0, sl_state = EMPTY\<rparr>"

record jitter_buffer =
  bufferSize :: u64
  sequenceMask :: u32
  slots :: "slot list"
  totalPackets :: u64
  droppedPackets :: u64
  validPackets :: u64
  packetPool :: packet_pool

definition MIN_BUFFER_SIZE :: u64 where "MIN_BUFFER_SIZE = 32"
definition MAX_BUFFER_SIZE :: u64 where "MAX_BUFFER_SIZE = 4096"

definition smear :: "nat \<Rightarrow> u64 \<Rightarrow> u64" where
  "smear k v = v OR drop_bit k v"

definition nextPowerOf2 :: "u64 \<Rightarrow> u64" where
  "nextPowerOf2 v =
     (if v = 0 then 1
      else if v AND (v - 1) = 0 then v
      else smear 32 (smear 16 (smear 8 (smear 4 (smear 2 (smear 1 (v - 1)))))) + 1)"

definition clamp_depth :: "u64 \<Rightarrow> u64" where
  "clamp_depth depth = (if depth < MIN_BUFFER_SIZE then MIN_BUFFER_SIZE
     else if MAX_BUFFER_SIZE < depth then MAX_BUFFER_SIZE else depth)"

definition LockFreeCircularJitterBuffer :: "u64 \<Rightarrow> jitter_buffer" where
  "LockFreeCircularJitterBuffer depth = (let sz = nextPowerOf2 (clamp_depth depth) in
     \<lparr>bufferSize = sz, sequenceMask = ucast (sz - 1),
      slots = replicate (unat sz) LockFreeBufferPacket,
      totalPackets = 0, droppedPackets = 0, validPackets = 0,
      packetPool = LockFreePacketPool (unat sz)\<rparr>)"

definition getIndex :: "jitter_buffer \<Rightarrow> u32 \<Rightarrow> nat" where
  "getIndex jb sequenceNumber = unat (sequenceNumber AND sequenceMask jb)"

section \<open>The operations, run by one thread\<close>

definition upd_slot :: "nat \<Rightarrow> (slot \<Rightarrow> slot) \<Rightarrow> jitter_buffer \<Rightarrow> jitter_buffer" where
  "upd_slot i f jb = jb\<lparr>slots := (slots jb)[i := f (slots jb ! i)]\<rparr>"

definition copy_packet :: "byte_list \<Rightarrow> slot \<Rightarrow> slot" where
  "copy_packet packetData sl = sl\<lparr>sl_data :=
     memcpy (sl_data sl) 0 packetData (min (length packetData) SLOT_BYTES)\<rparr>"

definition store_meta :: "byte_list \<Rightarrow> u32 \<Rightarrow> u64 \<Rightarrow> u64 \<Rightarrow> slot \<Rightarrow> slot" where
  "store_meta packetData sequenceNumber presentationTime now sl =
     sl\<lparr>sl_length := min (length packetData) SLOT_BYTES, sl_sequenceNumber := sequenceNumber,
        sl_presentationTime := presentationTime, sl_arrivalTime := now\<rparr>"

definition set_state :: "slot_state \<Rightarrow> slot \<Rightarrow> slot" where
  "set_state st sl = sl\<lparr>sl_state := st\<rparr>"

definition addPacket :: "u64 \<Rightarrow> byte_list \<Rightarrow> u32 \<Rightarrow> u64 \<Rightarrow> jitter_buffer \<Rightarrow> jitter_buffer \<times> bool" where
  "addPacket now packetData sequenceNumber presentationTime jb =
     (let index = getIndex jb sequenceNumber in
      if sl_state (slots jb ! index) \<noteq> EMPTY
      then (jb\<lparr>droppedPackets := droppedPackets jb + 1\<rparr>, False)
      else (let jb1 = upd_slot index (set_state READY \<circ>
                  store_meta packetData sequenceNumber presentationTime now \<circ>
                  copy_packet packetData) jb
            in (jb1\<lparr>totalPackets := totalPackets jb + 1, validPackets := validPackets jb + 1\<rparr>, True)))"

definition getNextPacket :: "nat \<Rightarrow> u32 \<Rightarrow> jitter_buffer \<Rightarrow> jitter_buffer \<times> (byte_list \<times> u64) option" where
  "getNextPacket bufSize sequenceNumber jb =
     (let index = getIndex jb sequenceNumber; sl = slots jb ! index in
      if sl_state sl \<noteq> READY then (jb, None)
      else (let jb1 = (upd_slot index (set_state EMPTY) jb)\<lparr>validPackets := validPackets jb - 1\<rparr> in
        if sl_sequenceNumber sl \<noteq> sequenceNumber then (jb1, None)
        else if sl_length sl > bufSize then (jb1, None)
        else (jb1, Some (take (sl_length sl) (sl_data sl), sl_presentationTime sl))))"

definition getBufferedPacketCount :: "jitter_buffer \<Rightarrow> u64" where
  "getBufferedPacketCount jb = validPackets jb"

definition getMaxBufferSize :: "jitter_buffer \<Rightarrow> u64" where
  "getMaxBufferSize jb = bufferSize jb"

definition jb_reset :: "jitter_buffer \<Rightarrow> jitter_buffer" where
  "jb_reset jb = jb\<lparr>slots := map (set_state EMPTY) (slots jb),
     totalPackets := 0, droppedPackets := 0, validPackets := 0\<rparr>"

section \<open>The size is a power of two\<close>

lemma bit_smear: "bit (smear k v) i \<longleftrightarrow> bit v i \<or> bit v (k + i)"
  by (simp add: smear_def bit_or_iff bit_drop_bit_eq add.commute)

text \<open>After the cascade, a bit is set when any of the 64 bits at or above it was.\<close>

lemma smear_window:
  assumes "\<And>i. bit w i \<longleftrightarrow> (\<exists>j<k. bit v (i + j))"
  shows "bit (smear k w) i \<longleftrightarrow> (\<exists>j<2 * k. bit v (i + j))"
proof
  assume "bit (smear k w) i"
  then obtain j where "j < k" "bit v (i + j) \<or> bit v (i + (k + j))"
    unfolding bit_smear assms by (metis add.assoc add.commute)
  then show "\<exists>j<2 * k. bit v (i + j)"
    by (metis add_less_cancel_left less_add_same_cancel1 mult_2 order_less_trans trans_less_add1)
next
  assume "\<exists>j<2 * k. bit v (i + j)"
  then obtain j where j: "j < 2 * k" "bit v (i + j)" by auto
  show "bit (smear k w) i"
  proof (cases "j < k")
    case True
    then show ?thesis using j unfolding bit_smear assms by auto
  next
    case False
    then have "j - k < k" "bit v (k + i + (j - k))" using j by (auto simp: add.commute)
    then show ?thesis unfolding bit_smear assms by blast
  qed
qed

lemma smear_cascade:
  "bit (smear 32 (smear 16 (smear 8 (smear 4 (smear 2 (smear 1 v)))))) i \<longleftrightarrow> (\<exists>j<64. bit v (i + j))"
proof -
  have s1: "bit (smear 1 v) i \<longleftrightarrow> (\<exists>j<2. bit v (i + j))" for i
    using smear_window [of v 1 v i] by simp
  have s2: "bit (smear 2 (smear 1 v)) i \<longleftrightarrow> (\<exists>j<4. bit v (i + j))" for i
    using smear_window [OF s1, of i] by simp
  have s3: "bit (smear 4 (smear 2 (smear 1 v))) i \<longleftrightarrow> (\<exists>j<8. bit v (i + j))" for i
    using smear_window [OF s2, of i] by simp
  have s4: "bit (smear 8 (smear 4 (smear 2 (smear 1 v)))) i \<longleftrightarrow> (\<exists>j<16. bit v (i + j))" for i
    using smear_window [OF s3, of i] by simp
  have s5: "bit (smear 16 (smear 8 (smear 4 (smear 2 (smear 1 v))))) i \<longleftrightarrow> (\<exists>j<32. bit v (i + j))" for i
    using smear_window [OF s4, of i] by simp
  show ?thesis using smear_window [OF s5, of i] by simp
qed

lemma bit_between:
  fixes v :: u64
  assumes "2 ^ m \<le> unat v" "unat v < 2 ^ Suc m"
  shows "bit v m" "\<And>i. i > m \<Longrightarrow> \<not> bit v i"
proof -
  have "unat v div 2 ^ m = 1" using assms by (intro div_nat_eqI) auto
  then have "bit (unat v) m" by (simp add: bit_iff_odd)
  then show "bit v m" by (simp add: bit_unsigned_iff)
  fix i assume "i > m"
  then have "unat v < 2 ^ i" using assms(2) by (meson Suc_leI less_le_trans one_le_numeral power_increasing)
  then have "\<not> bit (unat v) i" by (simp add: bit_iff_odd)
  then show "\<not> bit v i" by (auto simp: bit_unsigned_iff intro: impossible_bit)
qed

lemma log_bracket: "0 < x \<Longrightarrow> \<exists>m. 2 ^ m \<le> x \<and> x < 2 ^ Suc m" for x :: nat
  using ex_power_ivl1 [of 2 x] by auto

lemma and_pred_pow2:
  fixes v :: u64
  assumes "v \<noteq> 0" "v AND (v - 1) = 0"
  shows "\<exists>m<64. unat v = 2 ^ m"
proof -
  obtain m where m: "2 ^ m \<le> unat v" "unat v < 2 ^ Suc m"
    using log_bracket [of "unat v"] assms(1) by (auto simp: unat_gt_0)
  have "unat v = 2 ^ m"
  proof (rule ccontr)
    assume "unat v \<noteq> 2 ^ m"
    then have "2 ^ m \<le> unat (v - 1)" "unat (v - 1) < 2 ^ Suc m"
      using m unat_minus_one [OF assms(1)] by auto
    then have "bit (v AND (v - 1)) m" using m by (simp add: bit_and_iff bit_between)
    then show False using assms(2) by simp
  qed
  moreover have "m < 64" using bit_between(1) [OF m] bit_imp_le_length by force
  ultimately show ?thesis by blast
qed

lemma smear_mask:
  fixes v :: u64
  assumes "2 ^ m \<le> unat v" "unat v < 2 ^ Suc m"
  shows "smear 32 (smear 16 (smear 8 (smear 4 (smear 2 (smear 1 v))))) = mask (Suc m)"
proof (rule bit_word_eqI)
  fix i assume i: "i < LENGTH(64)"
  have "m < 64" using bit_between(1) [OF assms] bit_imp_le_length by force
  have "(\<exists>j<64. bit v (i + j)) \<longleftrightarrow> i \<le> m"
  proof
    assume "\<exists>j<64. bit v (i + j)"
    then show "i \<le> m" using bit_between(2) [OF assms] by (meson not_le trans_less_add1)
  next
    assume "i \<le> m"
    then show "\<exists>j<64. bit v (i + j)"
      using bit_between(1) [OF assms] \<open>m < 64\<close> by (intro exI [of _ "m - i"]) simp
  qed
  then show "bit (smear 32 (smear 16 (smear 8 (smear 4 (smear 2 (smear 1 v)))))) i \<longleftrightarrow>
      bit (mask (Suc m) :: u64) i"
    using i unfolding smear_cascade by (auto simp: bit_mask_iff)
qed

lemma nextPowerOf2_spec:
  fixes v :: u64
  assumes "0 < unat v" "unat v \<le> 2 ^ 63"
  shows "\<exists>m<64. unat (nextPowerOf2 v) = 2 ^ m \<and> unat v \<le> 2 ^ m \<and> 2 ^ m < 2 * unat v"
proof (cases "v AND (v - 1) = 0")
  case True
  have "v \<noteq> 0" using assms(1) by auto
  then obtain m where "m < 64" "unat v = 2 ^ m" using and_pred_pow2 [of v] True by auto
  then show ?thesis using True assms by (auto simp: nextPowerOf2_def)
next
  case False
  then have nz: "v \<noteq> 0" "v \<noteq> 1" by auto
  have p: "unat (v - 1) = unat v - 1" using unat_minus_one nz by blast
  have "unat v \<noteq> 1" using nz by (metis unsigned_1 word_unat_eq_iff)
  then obtain m where m: "2 ^ m \<le> unat (v - 1)" "unat (v - 1) < 2 ^ Suc m"
    using log_bracket [of "unat (v - 1)"] p assms by auto
  have "(2::nat) ^ m < 2 ^ 63" using m(1) p assms by linarith
  then have m63: "m < 63" by (rule pow2_lessD)
  have "nextPowerOf2 v = 2 ^ Suc m"
    using False nz smear_mask [OF m] by (simp add: nextPowerOf2_def mask_eq_decr_exp)
  moreover have "unat (2 ^ Suc m :: u64) = 2 ^ Suc m" using m63 by (intro unat_pow2) simp
  ultimately show ?thesis using m p m63 by (intro exI [of _ "Suc m"]) auto
qed

lemma clamp_bounds: "32 \<le> unat (clamp_depth d) \<and> unat (clamp_depth d) \<le> 4096"
  by (auto simp: clamp_depth_def MIN_BUFFER_SIZE_def MAX_BUFFER_SIZE_def word_less_nat_alt)

text \<open>
  The buffer size is a power of two between 32 and 4096 and the index is the sequence number
  modulo it.
\<close>

lemma jitter_size:
  "\<exists>m. 5 \<le> m \<and> m \<le> 12 \<and> unat (nextPowerOf2 (clamp_depth d)) = 2 ^ m"
proof -
  let ?c = "unat (clamp_depth d)"
  obtain m where m: "unat (nextPowerOf2 (clamp_depth d)) = 2 ^ m" "?c \<le> 2 ^ m" "2 ^ m < 2 * ?c"
    using nextPowerOf2_spec [of "clamp_depth d"] clamp_bounds [of d] by auto
  have "4 < m" by (rule pow2_lessD) (use m clamp_bounds [of d] in auto)
  moreover have "m < 13" by (rule pow2_lessD) (use m clamp_bounds [of d] in auto)
  ultimately show ?thesis using m(1) by (intro exI [of _ m]) auto
qed

lemma index_mod:
  fixes seq :: u32
  assumes "unat (sz :: u64) = 2 ^ m" "m \<le> 12"
  shows "unat (seq AND ucast (sz - 1)) = unat seq mod 2 ^ m"
proof -
  have "sz = 2 ^ m" using assms unat_pow2 [of m, where 'a = 64] by (simp add: word_unat_eq_iff)
  then have "ucast (sz - 1) = (mask m :: u32)"
    using assms(2) by (intro bit_word_eqI) (auto simp: bit_mask_iff bit_unsigned_iff simp flip: mask_eq_decr_exp)
  then have "seq AND ucast (sz - 1) = take_bit m seq" by (simp add: take_bit_eq_mask)
  then show ?thesis by (simp add: unsigned_take_bit_eq flip: take_bit_eq_mod)
qed

text \<open>What every operation keeps: one slot per index, each with its 1500 bytes.\<close>

definition jb_shape :: "jitter_buffer \<Rightarrow> bool" where
  "jb_shape jb \<longleftrightarrow> (\<forall>seq. getIndex jb seq < length (slots jb)) \<and>
     (\<forall>sl\<in>set (slots jb). length (sl_data sl) = SLOT_BYTES)"

lemma jb_shape_init: "jb_shape (LockFreeCircularJitterBuffer d)"
proof -
  obtain m where "m \<le> 12" "unat (nextPowerOf2 (clamp_depth d)) = 2 ^ m" using jitter_size by blast
  then show ?thesis
    by (auto simp: jb_shape_def LockFreeCircularJitterBuffer_def Let_def getIndex_def index_mod
        LockFreeBufferPacket_def)
qed

section \<open>The operations, interleaved\<close>

text \<open>
  A packet as the caller of \<open>addPacket\<close> gives it: sequence number, bytes, presentation time; what
  the buffer keeps of it is cut at 1500 bytes.
\<close>

type_synonym packet = "u32 \<times> byte_list \<times> u64"

fun stored :: "packet \<Rightarrow> packet" where
  "stored (seq, bs, pt) = (seq, take (min (length bs) SLOT_BYTES) bs, pt)"

definition slot_packet :: "slot \<Rightarrow> packet" where
  "slot_packet sl = (sl_sequenceNumber sl, take (sl_length sl) (sl_data sl), sl_presentationTime sl)"

datatype jb_pc =
    JIdle
  | AddClaimed nat packet
  | AddCopied nat packet
  | AddFilled nat packet
  | AddTotalled nat packet
  | AddCounted nat packet
  | GetClaimed nat u32 nat
  | GetMatched nat u32 nat
  | GetRejected nat
  | GetCopied nat packet
  | GetReleased

text \<open>
  A \<open>getNextPacket\<close> that finds its slot not READY changes nothing and is not a step.

  Ghost fields: the packets \<open>addPacket\<close> has published, those \<open>getNextPacket\<close> has copied out and
  those it has thrown away.
\<close>

record jb_sys =
  jb :: jitter_buffer
  jthreads :: "nat \<Rightarrow> jb_pc"
  published :: "packet multiset"
  handed :: "packet multiset"
  discarded :: "packet multiset"

definition jgoto :: "nat \<Rightarrow> jb_pc \<Rightarrow> jb_sys \<Rightarrow> jb_sys" where
  "jgoto T l s = s\<lparr>jthreads := (jthreads s)(T := l)\<rparr>"

definition set_jb :: "(jitter_buffer \<Rightarrow> jitter_buffer) \<Rightarrow> jb_sys \<Rightarrow> jb_sys" where
  "set_jb f s = s\<lparr>jb := f (jb s)\<rparr>"

definition slot_at :: "jb_sys \<Rightarrow> nat \<Rightarrow> slot" where
  "slot_at s i = slots (jb s) ! i"

definition jb_start :: "u64 \<Rightarrow> jb_sys" where
  "jb_start d = \<lparr>jb = LockFreeCircularJitterBuffer d, jthreads = (\<lambda>_. JIdle),
     published = {#}, handed = {#}, discarded = {#}\<rparr>"

inductive jb_step :: "nat \<Rightarrow> jb_sys \<Rightarrow> jb_sys \<Rightarrow> bool" for n where
  add_busy:
    "T < n \<Longrightarrow> jthreads s T = JIdle \<Longrightarrow> sl_state (slot_at s (getIndex (jb s) seq)) \<noteq> EMPTY \<Longrightarrow>
     jb_step n s (set_jb (\<lambda>b. b\<lparr>droppedPackets := droppedPackets b + 1\<rparr>) s)"
| add_claim:
    "T < n \<Longrightarrow> jthreads s T = JIdle \<Longrightarrow> i = getIndex (jb s) seq \<Longrightarrow> sl_state (slot_at s i) = EMPTY \<Longrightarrow>
     jb_step n s (jgoto T (AddClaimed i (seq, bs, pt)) (set_jb (upd_slot i (set_state WRITING)) s))"
| add_copy:
    "T < n \<Longrightarrow> jthreads s T = AddClaimed i (seq, bs, pt) \<Longrightarrow>
     jb_step n s (jgoto T (AddCopied i (seq, bs, pt)) (set_jb (upd_slot i (copy_packet bs)) s))"
| add_meta:
    "T < n \<Longrightarrow> jthreads s T = AddCopied i (seq, bs, pt) \<Longrightarrow>
     jb_step n s (jgoto T (AddFilled i (seq, bs, pt)) (set_jb (upd_slot i (store_meta bs seq pt now)) s))"
| add_total:
    "T < n \<Longrightarrow> jthreads s T = AddFilled i p \<Longrightarrow>
     jb_step n s (jgoto T (AddTotalled i p)
       (set_jb (\<lambda>b. b\<lparr>totalPackets := totalPackets b + 1\<rparr>) s))"
| add_count:
    "T < n \<Longrightarrow> jthreads s T = AddTotalled i p \<Longrightarrow>
     jb_step n s (jgoto T (AddCounted i p)
       (set_jb (\<lambda>b. b\<lparr>validPackets := validPackets b + 1\<rparr>) s))"
| add_publish:
    "T < n \<Longrightarrow> jthreads s T = AddCounted i p \<Longrightarrow>
     jb_step n s (jgoto T JIdle (set_jb (upd_slot i (set_state READY))
       (s\<lparr>published := add_mset (stored p) (published s)\<rparr>)))"
| get_claim:
    "T < n \<Longrightarrow> jthreads s T = JIdle \<Longrightarrow> i = getIndex (jb s) seq \<Longrightarrow> sl_state (slot_at s i) = READY \<Longrightarrow>
     jb_step n s (jgoto T (GetClaimed i seq bufSize) (set_jb (upd_slot i (set_state READING)) s))"
| get_stale:
    "T < n \<Longrightarrow> jthreads s T = GetClaimed i seq bufSize \<Longrightarrow> sl_sequenceNumber (slot_at s i) \<noteq> seq \<Longrightarrow>
     jb_step n s (jgoto T (GetRejected i) s)"
| get_match:
    "T < n \<Longrightarrow> jthreads s T = GetClaimed i seq bufSize \<Longrightarrow> sl_sequenceNumber (slot_at s i) = seq \<Longrightarrow>
     jb_step n s (jgoto T (GetMatched i seq bufSize) s)"
| get_too_long:
    "T < n \<Longrightarrow> jthreads s T = GetMatched i seq bufSize \<Longrightarrow> sl_length (slot_at s i) > bufSize \<Longrightarrow>
     jb_step n s (jgoto T (GetRejected i) s)"
| get_copy:
    "T < n \<Longrightarrow> jthreads s T = GetMatched i seq bufSize \<Longrightarrow> sl_length (slot_at s i) \<le> bufSize \<Longrightarrow>
     jb_step n s (jgoto T (GetCopied i (seq, take (sl_length (slot_at s i)) (sl_data (slot_at s i)),
       sl_presentationTime (slot_at s i))) s)"
| get_reject:
    "T < n \<Longrightarrow> jthreads s T = GetRejected i \<Longrightarrow>
     jb_step n s (jgoto T GetReleased (set_jb (upd_slot i (set_state EMPTY))
       (s\<lparr>discarded := add_mset (slot_packet (slot_at s i)) (discarded s)\<rparr>)))"
| get_release:
    "T < n \<Longrightarrow> jthreads s T = GetCopied i p \<Longrightarrow>
     jb_step n s (jgoto T GetReleased (set_jb (upd_slot i (set_state EMPTY))
       (s\<lparr>handed := add_mset p (handed s)\<rparr>)))"
| get_count:
    "T < n \<Longrightarrow> jthreads s T = GetReleased \<Longrightarrow>
     jb_step n s (jgoto T JIdle (set_jb (\<lambda>b. b\<lparr>validPackets := validPackets b - 1\<rparr>) s))"

inductive jb_reachable :: "nat \<Rightarrow> u64 \<Rightarrow> jb_sys \<Rightarrow> bool" for n d where
  jstart: "jb_reachable n d (jb_start d)"
| jstep: "jb_reachable n d s \<Longrightarrow> jb_step n s t \<Longrightarrow> jb_reachable n d t"

section \<open>The invariant\<close>

fun slot_of :: "jb_pc \<Rightarrow> nat option" where
  "slot_of (AddClaimed i p) = Some i"
| "slot_of (AddCopied i p) = Some i"
| "slot_of (AddFilled i p) = Some i"
| "slot_of (AddTotalled i p) = Some i"
| "slot_of (AddCounted i p) = Some i"
| "slot_of (GetClaimed i seq b) = Some i"
| "slot_of (GetMatched i seq b) = Some i"
| "slot_of (GetRejected i) = Some i"
| "slot_of (GetCopied i p) = Some i"
| "slot_of _ = None"

text \<open>What a thread that has claimed a slot knows of it.\<close>

fun pc_fits :: "slot \<Rightarrow> jb_pc \<Rightarrow> bool" where
  "pc_fits sl (AddClaimed i p) \<longleftrightarrow> sl_state sl = WRITING"
| "pc_fits sl (AddCopied i (seq, bs, pt)) \<longleftrightarrow> sl_state sl = WRITING \<and>
     take (min (length bs) SLOT_BYTES) (sl_data sl) = take (min (length bs) SLOT_BYTES) bs"
| "pc_fits sl (AddFilled i p) \<longleftrightarrow> sl_state sl = WRITING \<and> slot_packet sl = stored p"
| "pc_fits sl (AddTotalled i p) \<longleftrightarrow> sl_state sl = WRITING \<and> slot_packet sl = stored p"
| "pc_fits sl (AddCounted i p) \<longleftrightarrow> sl_state sl = WRITING \<and> slot_packet sl = stored p"
| "pc_fits sl (GetClaimed i seq b) \<longleftrightarrow> sl_state sl = READING"
| "pc_fits sl (GetMatched i seq b) \<longleftrightarrow> sl_state sl = READING \<and> sl_sequenceNumber sl = seq"
| "pc_fits sl (GetRejected i) \<longleftrightarrow> sl_state sl = READING"
| "pc_fits sl (GetCopied i p) \<longleftrightarrow> sl_state sl = READING \<and> p = slot_packet sl"
| "pc_fits sl _ \<longleftrightarrow> True"

definition claims_ok :: "slot list \<Rightarrow> (nat \<Rightarrow> jb_pc) \<Rightarrow> bool" where
  "claims_ok ss th \<longleftrightarrow>
     (\<forall>T i. slot_of (th T) = Some i \<longrightarrow> i < length ss \<and> pc_fits (ss ! i) (th T)) \<and>
     (\<forall>T U i. slot_of (th T) = Some i \<longrightarrow> slot_of (th U) = Some i \<longrightarrow> T = U)"

definition full_slot :: "slot \<Rightarrow> bool" where
  "full_slot sl \<longleftrightarrow> sl_state sl = READY \<or> sl_state sl = READING"

definition slot_content :: "slot \<Rightarrow> packet multiset" where
  "slot_content sl = (if full_slot sl then {#slot_packet sl#} else {#})"

definition slot_count :: "slot \<Rightarrow> nat" where
  "slot_count sl = (if full_slot sl then 1 else 0)"

fun pc_count :: "jb_pc \<Rightarrow> nat" where
  "pc_count (AddCounted i p) = 1"
| "pc_count GetReleased = 1"
| "pc_count _ = 0"

definition jb_inv :: "nat \<Rightarrow> jb_sys \<Rightarrow> bool" where
  "jb_inv n s \<longleftrightarrow> jb_shape (jb s) \<and> claims_ok (slots (jb s)) (jthreads s) \<and>
     published s = handed s + discarded s + sum_list (map slot_content (slots (jb s))) \<and>
     validPackets (jb s) = of_nat (sum_list (map slot_count (slots (jb s))) +
       (\<Sum>T<n. pc_count (jthreads s T)))"

lemmas jstep_defs = jgoto_def set_jb_def upd_slot_def slot_at_def
lemmas slot_ops = set_state_def copy_packet_def store_meta_def

text \<open>A slot nobody has claimed is EMPTY or READY, and the other way round.\<close>

lemma unclaimed:
  assumes "claims_ok ss th" "sl_state (ss ! i) = EMPTY \<or> sl_state (ss ! i) = READY"
  shows "slot_of (th T) \<noteq> Some i"
proof
  assume o: "slot_of (th T) = Some i"
  then have "pc_fits (ss ! i) (th T)" using assms(1) unfolding claims_ok_def by blast
  then show False using o assms(2) by (cases "th T") auto
qed

text \<open>One thread changes the slot it has claimed, or claims a free one, and moves on.\<close>

lemma claims_upd:
  assumes ok: "claims_ok ss th" and i: "i < length ss"
    and alone: "\<And>U. U \<noteq> T \<Longrightarrow> slot_of (th U) \<noteq> Some i"
    and l: "slot_of l = None \<or> slot_of l = Some i \<and> pc_fits sl l"
  shows "claims_ok (ss[i := sl]) (th(T := l))"
proof -
  have "j < length (ss[i := sl]) \<and> pc_fits (ss[i := sl] ! j) ((th(T := l)) U)"
    if "slot_of ((th(T := l)) U) = Some j" for U j
    using that ok [unfolded claims_ok_def, THEN conjunct1] i alone [of U] l
    by (cases "U = T") (auto simp: nth_list_update)
  moreover have "U = V" if "slot_of ((th(T := l)) U) = Some j" "slot_of ((th(T := l)) V) = Some j" for U V j
    using that alone l ok [unfolded claims_ok_def, THEN conjunct2]
    by (metis fun_upd_apply option.inject option.distinct(1))
  ultimately show ?thesis unfolding claims_ok_def by blast
qed

lemma claims_unique:
  assumes "claims_ok ss th" "slot_of (th T) = Some i" "U \<noteq> T"
  shows "slot_of (th U) \<noteq> Some i"
  using assms unfolding claims_ok_def by metis

lemma claims_in: "claims_ok ss th \<Longrightarrow> slot_of (th T) = Some i \<Longrightarrow> i < length ss \<and> pc_fits (ss ! i) (th T)"
  unfolding claims_ok_def by blast

lemma claims_move:
  assumes "claims_ok ss th" "slot_of (th T) = Some i" "slot_of l = Some i" "pc_fits (ss ! i) l"
  shows "claims_ok ss (th(T := l))"
  using claims_upd [of ss th i T l "ss ! i"] assms claims_in [OF assms(1,2)] claims_unique [OF assms(1,2)]
  by simp

lemma claims_leave:
  assumes "claims_ok ss th" "slot_of l = None"
  shows "claims_ok ss (th(T := l))"
  using assms unfolding claims_ok_def by (auto split: if_splits)

lemma shape_upd:
  assumes "jb_shape b" "length (sl_data (f (slots b ! i))) = length (sl_data (slots b ! i))"
  shows "jb_shape (upd_slot i f b)"
proof (cases "i < length (slots b)")
  case True
  then show ?thesis
    using assms by (auto simp: jb_shape_def upd_slot_def getIndex_def all_set_conv_all_nth nth_list_update)
next
  case False
  then show ?thesis using assms by (simp add: upd_slot_def list_update_beyond)
qed

section \<open>Every step keeps it\<close>

lemma content_upd:
  assumes "i < length ss"
  shows "sum_list (map slot_content (ss[i := sl])) + slot_content (ss ! i) =
    sum_list (map slot_content ss) + slot_content sl"
  by (rule sum_list_upd [OF assms])

lemma count_upd:
  assumes "i < length ss"
  shows "sum_list (map slot_count (ss[i := sl])) + slot_count (ss ! i) =
    sum_list (map slot_count ss) + slot_count sl"
  by (rule sum_list_upd [OF assms])

lemma pc_count_upd:
  fixes T n :: nat
  assumes "T < n"
  shows "(\<Sum>U<n. pc_count ((th(T := l)) U)) + pc_count (th T) = (\<Sum>U<n. pc_count (th U)) + pc_count l"
  by (rule sum_fun_upd [OF assms])

text \<open>The general step: one thread, one slot, and the ghost fields.\<close>

lemma jb_inv_slot:
  assumes inv: "jb_inv n s" and T: "T < n" and i: "i < length (slots (jb s))"
    and alone: "\<And>U. U \<noteq> T \<Longrightarrow> slot_of (jthreads s U) \<noteq> Some i"
    and l: "slot_of l = None \<or> slot_of l = Some i \<and> pc_fits (f (slot_at s i)) l"
    and len: "length (sl_data (f (slot_at s i))) = length (sl_data (slot_at s i))"
    and cnt: "slot_count (f (slot_at s i)) + pc_count l = slot_count (slot_at s i) + pc_count (jthreads s T)"
    and cont: "p + slot_content (slot_at s i) = h + d + slot_content (f (slot_at s i))"
  shows "jb_inv n (jgoto T l (set_jb (upd_slot i f)
     (s\<lparr>published := published s + p, handed := handed s + h, discarded := discarded s + d\<rparr>)))"
proof -
  let ?ss = "slots (jb s)" and ?sl = "f (slot_at s i)"
  have "claims_ok (?ss[i := ?sl]) ((jthreads s)(T := l))"
    using inv claims_upd [of ?ss "jthreads s" i T l ?sl] i alone l by (simp add: jb_inv_def)
  moreover have "sum_list (map slot_count (?ss[i := ?sl])) + (\<Sum>U<n. pc_count (((jthreads s)(T := l)) U)) =
      sum_list (map slot_count ?ss) + (\<Sum>U<n. pc_count (jthreads s U))"
    using count_upd [OF i, of ?sl] pc_count_upd [OF T, of "jthreads s" l] cnt
    by (simp add: slot_at_def)
  moreover have "published s + p = handed s + h + (discarded s + d) + sum_list (map slot_content (?ss[i := ?sl]))"
  proof -
    let ?c' = "sum_list (map slot_content (?ss[i := ?sl]))"
    have "handed s + discarded s + (sum_list (map slot_content ?ss) + slot_content ?sl) + (h + d) =
       published s + (h + d + slot_content ?sl)"
      using inv by (simp add: jb_inv_def ac_simps)
    also have "\<dots> = published s + p + slot_content (slot_at s i)" using cont by (simp add: ac_simps)
    finally have "handed s + discarded s + (?c' + slot_content (slot_at s i)) + (h + d) =
       published s + p + slot_content (slot_at s i)"
      using content_upd [OF i, of ?sl] by (simp add: slot_at_def)
    then have "published s + p + slot_content (slot_at s i) =
       handed s + h + (discarded s + d) + ?c' + slot_content (slot_at s i)"
      by (simp add: ac_simps)
    then show ?thesis by (simp only: add_right_cancel)
  qed
  ultimately show ?thesis
    using inv shape_upd [of "jb s" f i] len by (simp add: jb_inv_def jstep_defs del: fun_upd_apply)
qed

lemma jb_inv_claimed:
  assumes inv: "jb_inv n s" and T: "T < n" and own: "slot_of (jthreads s T) = Some i"
    and l: "slot_of l = None \<or> slot_of l = Some i \<and> pc_fits (f (slot_at s i)) l"
    and len: "length (sl_data (f (slot_at s i))) = length (sl_data (slot_at s i))"
    and cnt: "slot_count (f (slot_at s i)) + pc_count l = slot_count (slot_at s i) + pc_count (jthreads s T)"
    and cont: "p + slot_content (slot_at s i) = h + d + slot_content (f (slot_at s i))"
  shows "jb_inv n (jgoto T l (set_jb (upd_slot i f)
     (s\<lparr>published := published s + p, handed := handed s + h, discarded := discarded s + d\<rparr>)))"
proof -
  have c: "claims_ok (slots (jb s)) (jthreads s)" using inv by (simp add: jb_inv_def)
  show ?thesis
    using claims_in [OF c own] claims_unique [OF c own]
    by (intro jb_inv_slot [where f = f and i = i and p = p and h = h and d = d, OF inv T]) (use assms in auto)
qed

lemma jb_inv_claim:
  assumes inv: "jb_inv n s" and T: "T < n" and idle: "jthreads s T = JIdle"
    and i: "i = getIndex (jb s) seq"
    and st: "sl_state (slot_at s i) = EMPTY \<and> st' = WRITING \<or> sl_state (slot_at s i) = READY \<and> st' = READING"
    and l: "slot_of l = Some i \<and> pc_fits (set_state st' (slot_at s i)) l" "pc_count l = 0"
  shows "jb_inv n (jgoto T l (set_jb (upd_slot i (set_state st')) s))"
proof -
  have "i < length (slots (jb s))" using inv i by (simp add: jb_inv_def jb_shape_def)
  moreover have "slot_of (jthreads s U) \<noteq> Some i" for U
    using inv st unclaimed [of "slots (jb s)" "jthreads s" i U] by (auto simp: jb_inv_def slot_at_def)
  ultimately show ?thesis
    using jb_inv_slot [OF inv T, of i l "set_state st'" "{#}" "{#}" "{#}"] l st idle
    by (auto simp: slot_count_def slot_content_def full_slot_def slot_packet_def set_state_def)
qed

text \<open>Steps that only move the thread or touch the statistics.\<close>

lemma jb_inv_move:
  assumes inv: "jb_inv n s" and T: "T < n" and own: "slot_of (jthreads s T) = Some i"
    and l: "slot_of l = Some i" "pc_fits (slot_at s i) l"
    and "slots b = slots (jb s)" "sequenceMask b = sequenceMask (jb s)"
    and "validPackets b + of_nat (pc_count (jthreads s T)) = validPackets (jb s) + of_nat (pc_count l)"
  shows "jb_inv n (jgoto T l (s\<lparr>jb := b\<rparr>))"
proof -
  have "claims_ok (slots (jb s)) ((jthreads s)(T := l))"
    using inv claims_move [of "slots (jb s)" "jthreads s" T i l] own l by (simp add: jb_inv_def slot_at_def)
  moreover have "validPackets b + of_nat (pc_count (jthreads s T)) =
      of_nat (sum_list (map slot_count (slots (jb s))) + ((\<Sum>U<n. pc_count (jthreads s U)) + pc_count l))"
    using inv assms(8) by (simp add: jb_inv_def)
  then have "validPackets b + of_nat (pc_count (jthreads s T)) =
      of_nat (sum_list (map slot_count (slots (jb s))) +
        (\<Sum>U<n. pc_count (((jthreads s)(T := l)) U))) + of_nat (pc_count (jthreads s T))"
    unfolding pc_count_upd [OF T, of "jthreads s" l, symmetric] by (simp add: ac_simps del: fun_upd_apply)
  then have "validPackets b = of_nat (sum_list (map slot_count (slots (jb s))) +
        (\<Sum>U<n. pc_count (((jthreads s)(T := l)) U)))" by (simp only: add_right_cancel)
  moreover have "jb_shape b" using inv assms(6,7) by (simp add: jb_inv_def jb_shape_def getIndex_def)
  ultimately show ?thesis
    using inv assms(6) by (simp add: jb_inv_def jgoto_def del: fun_upd_apply)
qed

lemma jb_inv_done:
  assumes inv: "jb_inv n s" and T: "T < n" and th: "jthreads s T = GetReleased"
  shows "jb_inv n (jgoto T JIdle (set_jb (\<lambda>b. b\<lparr>validPackets := validPackets b - 1\<rparr>) s))"
proof -
  have "claims_ok (slots (jb s)) ((jthreads s)(T := JIdle))"
    using inv by (intro claims_leave) (simp_all add: jb_inv_def)
  moreover have "(\<Sum>U<n. pc_count (((jthreads s)(T := JIdle)) U)) + 1 = (\<Sum>U<n. pc_count (jthreads s U))"
    using pc_count_upd [OF T, of "jthreads s" JIdle] th by simp
  then have "(\<Sum>U<n. pc_count (jthreads s U)) = (\<Sum>U<n. pc_count (((jthreads s)(T := JIdle)) U)) + 1"
    by (rule sym)
  then have "validPackets (jb s) - 1 =
      of_nat (sum_list (map slot_count (slots (jb s))) + (\<Sum>U<n. pc_count (((jthreads s)(T := JIdle)) U)))"
    using inv by (simp add: jb_inv_def del: fun_upd_apply)
  ultimately show ?thesis
    using inv by (simp add: jb_inv_def jgoto_def set_jb_def jb_shape_def getIndex_def del: fun_upd_apply)
qed

lemma jb_step_inv:
  assumes step: "jb_step n s t" and inv: "jb_inv n s"
  shows "jb_inv n t"
proof -
  have c: "claims_ok (slots (jb s)) (jthreads s)" and sh: "jb_shape (jb s)" using inv by (simp_all add: jb_inv_def)
  have fits: "i < length (slots (jb s)) \<and> pc_fits (slot_at s i) (jthreads s T)"
    if "slot_of (jthreads s T) = Some i" for T i
    using claims_in [OF c that] by (simp add: slot_at_def)
  have data: "length (sl_data (slot_at s i)) = SLOT_BYTES" if "i < length (slots (jb s))" for i
    using sh that by (simp add: jb_shape_def slot_at_def)
  show ?thesis using step
  proof cases
    case (add_busy T seq)
    then show ?thesis using inv by (simp add: jb_inv_def set_jb_def jb_shape_def getIndex_def)
  next
    case (add_claim T i seq bs pt)
    then show ?thesis using jb_inv_claim [OF inv, of T i seq WRITING] by (simp add: set_state_def)
  next
    case (add_copy T i seq bs pt)
    then show ?thesis
      using jb_inv_claimed [OF inv, of T i "AddCopied i (seq, bs, pt)" "copy_packet bs" "{#}" "{#}" "{#}"]
        fits [of T i] data [of i]
      by (simp add: copy_packet_def slot_count_def slot_content_def full_slot_def memcpy_def)
  next
    case (add_meta T i seq bs pt now)
    then show ?thesis
      using jb_inv_claimed [OF inv, of T i "AddFilled i (seq, bs, pt)" "store_meta bs seq pt now" "{#}" "{#}" "{#}"]
        fits [of T i]
      by (simp add: store_meta_def slot_count_def slot_content_def full_slot_def slot_packet_def)
  next
    case (add_total T i p)
    then show ?thesis using jb_inv_move [OF inv, of T i] fits [of T i] by (simp add: set_jb_def)
  next
    case (add_count T i p)
    then show ?thesis using jb_inv_move [OF inv, of T i] fits [of T i] by (simp add: set_jb_def)
  next
    case (add_publish T i p)
    then show ?thesis
      using jb_inv_claimed [OF inv, of T i JIdle "set_state READY" "{#stored p#}" "{#}" "{#}"] fits [of T i]
      by (simp add: set_state_def slot_count_def slot_content_def full_slot_def slot_packet_def)
  next
    case (get_claim T i seq b)
    then show ?thesis using jb_inv_claim [OF inv, of T i seq READING] by (simp add: set_state_def)
  next
    case (get_stale T i seq b)
    then show ?thesis using jb_inv_move [OF inv, of T i _ "jb s"] fits [of T i] by simp
  next
    case (get_match T i seq b)
    then show ?thesis using jb_inv_move [OF inv, of T i _ "jb s"] fits [of T i] by simp
  next
    case (get_too_long T i seq b)
    then show ?thesis using jb_inv_move [OF inv, of T i _ "jb s"] fits [of T i] by simp
  next
    case (get_copy T i seq b)
    then show ?thesis using jb_inv_move [OF inv, of T i _ "jb s"] fits [of T i]
      by (simp add: slot_packet_def)
  next
    case (get_reject T i)
    then show ?thesis
      using jb_inv_claimed [OF inv, of T i GetReleased "set_state EMPTY" "{#}" "{#}" "{#slot_packet (slot_at s i)#}"]
        fits [of T i]
      by (simp add: set_state_def slot_count_def slot_content_def full_slot_def)
  next
    case (get_release T i p)
    then show ?thesis
      using jb_inv_claimed [OF inv, of T i GetReleased "set_state EMPTY" "{#}" "{#p#}" "{#}"] fits [of T i]
      by (simp add: set_state_def slot_count_def slot_content_def full_slot_def)
  next
    case (get_count T)
    then show ?thesis using jb_inv_done [OF inv, of T] by simp
  qed
qed

lemma jb_inv_start: "jb_inv n (jb_start d)"
  using jb_shape_init [of d] sum_list_replicate_zero [where 'a = "packet multiset"]
  by (simp add: jb_inv_def jb_start_def claims_ok_def LockFreeCircularJitterBuffer_def Let_def
      LockFreeBufferPacket_def slot_content_def slot_count_def full_slot_def)

lemma jb_reachable_inv: "jb_reachable n d s \<Longrightarrow> jb_inv n s"
  by (induction rule: jb_reachable.induct) (auto intro: jb_inv_start jb_step_inv)

section \<open>One thread alone\<close>

lemmas jb_eval = jgoto_def set_jb_def upd_slot_def slot_at_def set_state_def

text \<open>With no other thread in between, the steps of a call do what the sequential operation does.\<close>

lemma add_alone:
  assumes "jb_reachable n d s" "T < n" "jthreads s T = JIdle"
    and st: "sl_state (slot_at s (getIndex (jb s) seq)) = EMPTY"
  shows "\<exists>t. jb_reachable n d t \<and> jb t = fst (addPacket now bs seq pt (jb s)) \<and>
    jthreads t = jthreads s \<and> published t = add_mset (stored (seq, bs, pt)) (published s)"
proof -
  let ?i = "getIndex (jb s) seq" and ?p = "(seq, bs, pt)"
  have i: "?i < length (slots (jb s))" using jb_reachable_inv [OF assms(1)] by (simp add: jb_inv_def jb_shape_def)
  let ?s1 = "jgoto T (AddClaimed ?i ?p) (set_jb (upd_slot ?i (set_state WRITING)) s)"
  let ?s2 = "jgoto T (AddCopied ?i ?p) (set_jb (upd_slot ?i (copy_packet bs)) ?s1)"
  let ?s3 = "jgoto T (AddFilled ?i ?p) (set_jb (upd_slot ?i (store_meta bs seq pt now)) ?s2)"
  let ?s4 = "jgoto T (AddTotalled ?i ?p) (set_jb (\<lambda>b. b\<lparr>totalPackets := totalPackets b + 1\<rparr>) ?s3)"
  let ?s5 = "jgoto T (AddCounted ?i ?p) (set_jb (\<lambda>b. b\<lparr>validPackets := validPackets b + 1\<rparr>) ?s4)"
  let ?s6 = "jgoto T JIdle (set_jb (upd_slot ?i (set_state READY))
      (?s5\<lparr>published := add_mset (stored ?p) (published ?s5)\<rparr>))"
  have "jb_reachable n d ?s1" using jstep [OF assms(1) add_claim [OF assms(2,3) refl st]] .
  then have "jb_reachable n d ?s2" by (rule jstep) (rule add_copy, rule assms(2), simp add: jgoto_def)
  then have "jb_reachable n d ?s3" by (rule jstep) (rule add_meta, rule assms(2), simp add: jgoto_def)
  then have "jb_reachable n d ?s4" by (rule jstep) (rule add_total, rule assms(2), simp add: jgoto_def)
  then have "jb_reachable n d ?s5" by (rule jstep) (rule add_count, rule assms(2), simp add: jgoto_def)
  then have "jb_reachable n d ?s6" by (rule jstep) (rule add_publish, rule assms(2), simp add: jgoto_def)
  moreover have "jb ?s6 = fst (addPacket now bs seq pt (jb s))"
    using st i
    by (simp add: addPacket_def Let_def jgoto_def set_jb_def upd_slot_def slot_at_def slot_ops getIndex_def)
  moreover have "jthreads ?s6 = jthreads s" using assms(3) by (auto simp: jgoto_def set_jb_def)
  ultimately show ?thesis by (intro exI [of _ ?s6]) (simp add: jgoto_def set_jb_def)
qed

lemma get_alone:
  assumes "jb_reachable n d s" "T < n" "jthreads s T = JIdle"
    and st: "sl_state (slot_at s (getIndex (jb s) seq)) = READY"
    and seq: "sl_sequenceNumber (slot_at s (getIndex (jb s) seq)) = seq"
    and len: "sl_length (slot_at s (getIndex (jb s) seq)) \<le> b"
  shows "\<exists>t. jb_reachable n d t \<and>
    jthreads t T = GetCopied (getIndex (jb s) seq) (slot_packet (slot_at s (getIndex (jb s) seq)))"
proof -
  let ?i = "getIndex (jb s) seq" and ?sl = "slot_at s (getIndex (jb s) seq)"
  have i: "?i < length (slots (jb s))" using jb_reachable_inv [OF assms(1)] by (simp add: jb_inv_def jb_shape_def)
  let ?s1 = "jgoto T (GetClaimed ?i seq b) (set_jb (upd_slot ?i (set_state READING)) s)"
  have sl: "slot_at ?s1 ?i = set_state READING ?sl" using i by (simp add: jgoto_def set_jb_def upd_slot_def slot_at_def)
  let ?s2 = "jgoto T (GetMatched ?i seq b) ?s1"
  let ?s3 = "jgoto T (GetCopied ?i (seq, take (sl_length (slot_at ?s2 ?i)) (sl_data (slot_at ?s2 ?i)),
       sl_presentationTime (slot_at ?s2 ?i))) ?s2"
  have sl2: "slot_at ?s2 ?i = set_state READING ?sl" using sl by (simp add: jgoto_def slot_at_def)
  have "jb_reachable n d ?s1" using jstep [OF assms(1) get_claim [OF assms(2,3) refl st]] .
  then have "jb_reachable n d ?s2"
    by (rule jstep) (rule get_match, rule assms(2), simp add: jgoto_def, simp add: sl seq set_state_def)
  then have "jb_reachable n d ?s3"
    by (rule jstep) (rule get_copy, rule assms(2), simp add: jgoto_def, simp add: sl2 len set_state_def)
  moreover have "jthreads ?s3 T = GetCopied ?i (slot_packet ?sl)"
    unfolding sl2 by (simp add: jgoto_def slot_packet_def set_state_def seq)
  ultimately show ?thesis by blast
qed

lemma jb_slots_length: "jb_reachable n d s \<Longrightarrow> length (slots (jb s)) = unat (nextPowerOf2 (clamp_depth d))"
proof (induction rule: jb_reachable.induct)
  case jstart
  show ?case by (simp add: jb_start_def LockFreeCircularJitterBuffer_def Let_def)
next
  case (jstep s t)
  then show ?case by (auto elim!: jb_step.cases simp: jstep_defs)
qed

lemma jb_slots_bound: "jb_reachable n d s \<Longrightarrow> length (slots (jb s)) \<le> 4096"
proof -
  assume r: "jb_reachable n d s"
  obtain m where "m \<le> 12" "unat (nextPowerOf2 (clamp_depth d)) = 2 ^ m" using jitter_size by blast
  then have "unat (nextPowerOf2 (clamp_depth d)) \<le> 2 ^ 12" using power_increasing [of m 12 "2::nat"] by simp
  then show ?thesis using jb_slots_length [OF r] by simp
qed

lemma sum_slot_count_le: "sum_list (map slot_count ss) \<le> length ss"
  by (induction ss) (auto simp: slot_count_def)

lemma sum_pc_count_le: "(\<Sum>T<n. pc_count (th T)) \<le> n" for n :: nat
proof -
  have "pc_count l \<le> 1" for l by (cases l) auto
  then have "(\<Sum>T<n. pc_count (th T)) \<le> (\<Sum>T<n. 1)" by (intro sum_mono)
  then show ?thesis by simp
qed

lemma slot_content_sub: "i < length ss \<Longrightarrow> slot_content (ss ! i) \<subseteq># sum_list (map slot_content ss)"
proof (induction ss arbitrary: i)
  case (Cons sl ss)
  then show ?case by (cases i) (auto intro: subset_mset.add_increasing)
qed simp

lemma first_add:
  "\<exists>t. jb_reachable n d t \<and> jb t = fst (addPacket now bs seq pt (LockFreeCircularJitterBuffer d)) \<and>
    (\<forall>T. jthreads t T = JIdle) \<and> sl_state (slots (LockFreeCircularJitterBuffer d) !
      getIndex (LockFreeCircularJitterBuffer d) seq) = EMPTY" if "0 < n"
proof -
  let ?b = "LockFreeCircularJitterBuffer d"
  have "getIndex ?b seq < length (slots ?b)" using jb_shape_init by (simp add: jb_shape_def)
  then have st: "sl_state (slots ?b ! getIndex ?b seq) = EMPTY"
    by (simp add: LockFreeCircularJitterBuffer_def Let_def LockFreeBufferPacket_def getIndex_def)
  then show ?thesis
    using add_alone [OF jstart [of n d] that, of seq now bs pt] by (auto simp: jb_start_def slot_at_def)
qed

lemma trace_copied:
  "\<exists>s i. jb_reachable 1 0 s \<and> jthreads s 0 = GetCopied i (7, [1, 2, 3], 5)"
proof -
  let ?b = "LockFreeCircularJitterBuffer 0" and ?i = "getIndex (LockFreeCircularJitterBuffer 0) 7"
  obtain s where s: "jb_reachable 1 0 s" "jb s = fst (addPacket 0 [1, 2, 3] 7 5 ?b)" "\<forall>T. jthreads s T = JIdle"
    and st: "sl_state (slots ?b ! ?i) = EMPTY"
    using first_add [of 1 0 0 "[1, 2, 3]" 7 5] by auto
  have b: "?i < length (slots ?b)" "length (sl_data (slots ?b ! ?i)) = SLOT_BYTES"
    using jb_shape_init [of 0] by (simp_all add: jb_shape_def)
  have i: "getIndex (jb s) 7 = ?i" using s(2) st by (simp add: addPacket_def Let_def upd_slot_def getIndex_def)
  have sl: "slot_at s ?i = set_state READY (store_meta [1, 2, 3] 7 5 0 (copy_packet [1, 2, 3] (slots ?b ! ?i)))"
    using s(2) st b by (simp add: slot_at_def addPacket_def Let_def upd_slot_def)
  have p: "slot_packet (slot_at s ?i) = (7, [1, 2, 3], 5)" "sl_state (slot_at s ?i) = READY"
    "sl_sequenceNumber (slot_at s ?i) = 7" "sl_length (slot_at s ?i) \<le> 3"
    unfolding sl by (simp_all add: slot_packet_def slot_ops memcpy_def SLOT_BYTES_def)
  show ?thesis using get_alone [OF s(1), of 0 7 3] s(3) p(4) unfolding i p by auto
qed

lemma trace_released: "\<exists>s. jb_reachable 1 0 s \<and> jthreads s 0 = GetReleased"
proof -
  obtain t i p where t: "jb_reachable 1 0 t" "jthreads t 0 = GetCopied i p" using trace_copied by blast
  show ?thesis
    by (intro exI conjI, rule jstep [OF t(1) get_release [OF _ t(2)]]) (simp_all add: jgoto_def)
qed

section \<open>Theorems\<close>

text \<open>
  C8: whatever the interleaving of any number of threads, the packet a \<open>getNextPacket\<close> is about to
  hand to its caller is one that some \<open>addPacket\<close> published whole, and it has been neither handed out
  nor thrown away before: no torn packet and no packet twice.
\<close>

theorem jitter_no_duplicate:
  assumes "jb_reachable n d s" "jthreads s T = GetCopied i p"
  shows "add_mset p (handed s + discarded s) \<subseteq># published s"
proof -
  have inv: "jb_inv n s" using jb_reachable_inv assms(1) .
  then have "i < length (slots (jb s)) \<and> pc_fits (slots (jb s) ! i) (jthreads s T)"
    using claims_in [of "slots (jb s)" "jthreads s" T i] assms(2) by (simp add: jb_inv_def)
  then have "{#p#} \<subseteq># sum_list (map slot_content (slots (jb s)))"
    using slot_content_sub [of i "slots (jb s)"] assms(2) by (simp add: slot_content_def full_slot_def)
  then show ?thesis using inv by (simp add: jb_inv_def)
qed

theorem jitter_no_duplicate_witness:
  "\<exists>s T i. jb_reachable 1 0 s \<and> jthreads s T = GetCopied i (7, [1, 2, 3], 5) \<and>
     (7, [1, 2, 3], 5) \<in># published s"
proof -
  obtain t i where t: "jb_reachable 1 0 t" "jthreads t 0 = GetCopied i (7, [1, 2, 3], 5)"
    using trace_copied by blast
  have "(7, [1, 2, 3], 5) \<in># published t"
    using jitter_no_duplicate [OF t] by (meson mset_subset_eqD union_single_eq_member)
  then show ?thesis using t by blast
qed



text \<open>
  the buffer has a power of two of slots, at least 32, at most 4096 and at least the depth asked
  for within that range, and the mask turns a sequence number into its remainder by it.
\<close>

theorem jitter_index_mod:
  "\<exists>m. 5 \<le> m \<and> m \<le> 12 \<and> unat (getMaxBufferSize (LockFreeCircularJitterBuffer d)) = 2 ^ m \<and>
     length (slots (LockFreeCircularJitterBuffer d)) = 2 ^ m \<and>
     min (unat d) 4096 \<le> 2 ^ m \<and>
     (\<forall>seq. getIndex (LockFreeCircularJitterBuffer d) seq = unat seq mod 2 ^ m)"
proof -
  obtain m where m: "5 \<le> m" "m \<le> 12" "unat (nextPowerOf2 (clamp_depth d)) = 2 ^ m" using jitter_size by blast
  have "min (unat d) 4096 \<le> unat (clamp_depth d)"
    by (auto simp: clamp_depth_def MIN_BUFFER_SIZE_def MAX_BUFFER_SIZE_def word_less_nat_alt)
  moreover have "unat (clamp_depth d) \<le> unat (nextPowerOf2 (clamp_depth d))"
    using nextPowerOf2_spec [of "clamp_depth d"] clamp_bounds [of d] by auto
  ultimately show ?thesis using m
    by (intro exI [of _ m])
      (simp add: getMaxBufferSize_def LockFreeCircularJitterBuffer_def Let_def getIndex_def index_mod)
qed

text \<open>
  a packet added to an empty slot comes back once, cut at 1500 bytes, with its presentation
  time, to a caller that asks for its sequence number with room for it, and the slot is empty
  again afterwards; a caller that asks for another sequence number of the same slot gets nothing
  and the packet is gone.
\<close>

theorem jitter_add_get:
  assumes "jb_shape b" "sl_state (slots b ! getIndex b seq) = EMPTY"
  shows "let b1 = fst (addPacket now bs seq pt b) in
    snd (addPacket now bs seq pt b) \<and>
    (min (length bs) SLOT_BYTES \<le> bufSize \<longrightarrow>
       snd (getNextPacket bufSize seq b1) = Some (take SLOT_BYTES bs, pt)) \<and>
    (getIndex b seq' = getIndex b seq \<longrightarrow>
       (seq' \<noteq> seq \<longrightarrow> snd (getNextPacket bufSize seq' b1) = None) \<and>
       sl_state (slots (fst (getNextPacket bufSize seq' b1)) ! getIndex b seq) = EMPTY \<and>
       getBufferedPacketCount (fst (getNextPacket bufSize seq' b1)) = getBufferedPacketCount b)"
proof -
  let ?i = "getIndex b seq"
  define b1 where "b1 = fst (addPacket now bs seq pt b)"
  have i: "?i < length (slots b)" "length (sl_data (slots b ! ?i)) = SLOT_BYTES"
    using assms(1) by (simp_all add: jb_shape_def)
  have idx: "getIndex b1 = getIndex b"
    using assms(2) by (auto simp: b1_def addPacket_def Let_def upd_slot_def getIndex_def)
  have sl: "slots b1 ! ?i = set_state READY (store_meta bs seq pt now (copy_packet bs (slots b ! ?i)))"
    "length (slots b1) = length (slots b)" "validPackets b1 = validPackets b + 1"
    using assms(2) i by (simp_all add: b1_def addPacket_def Let_def upd_slot_def)
  have "snd (addPacket now bs seq pt b)" using assms(2) by (simp add: addPacket_def Let_def)
  moreover have "snd (getNextPacket bufSize seq b1) = Some (take SLOT_BYTES bs, pt)"
    if "min (length bs) SLOT_BYTES \<le> bufSize"
    using that i by (simp add: getNextPacket_def Let_def idx sl slot_ops memcpy_def) (auto simp: min_def split: if_splits)
  moreover have "sl_state (slots (fst (getNextPacket bufSize seq' b1)) ! ?i) = EMPTY \<and>
       getBufferedPacketCount (fst (getNextPacket bufSize seq' b1)) = getBufferedPacketCount b \<and>
       (seq' \<noteq> seq \<longrightarrow> snd (getNextPacket bufSize seq' b1) = None)"
    if "getIndex b seq' = ?i"
  proof -
    have "fst (getNextPacket bufSize seq' b1) =
        (upd_slot ?i (set_state EMPTY) b1)\<lparr>validPackets := validPackets b1 - 1\<rparr>"
      unfolding getNextPacket_def Let_def idx that sl(1) by (simp add: slot_ops)
    moreover have "seq' \<noteq> seq \<longrightarrow> snd (getNextPacket bufSize seq' b1) = None"
      unfolding getNextPacket_def Let_def idx that sl(1) by (simp add: slot_ops)
    ultimately show ?thesis
      using i(1) sl(2,3) by (simp add: upd_slot_def set_state_def getBufferedPacketCount_def)
  qed
  ultimately show ?thesis unfolding Let_def b1_def by blast
qed

theorem jitter_add_get_witness:
  "snd (getNextPacket 3 7 (fst (addPacket 0 [1, 2, 3] 7 5 (LockFreeCircularJitterBuffer 64)))) = Some ([1, 2, 3], 5)"
proof -
  let ?b = "LockFreeCircularJitterBuffer 64"
  have "getIndex ?b 7 < length (slots ?b)" using jb_shape_init [of 64] by (simp add: jb_shape_def)
  then have "sl_state (slots ?b ! getIndex ?b 7) = EMPTY"
    by (simp add: LockFreeCircularJitterBuffer_def Let_def LockFreeBufferPacket_def getIndex_def)
  then show ?thesis
    using jitter_add_get [OF jb_shape_init [of 64], of 7 0 "[1, 2, 3]" 5 3 7] by (simp add: Let_def SLOT_BYTES_def)
qed

end
