(* ===== verification/Std_Strings.thy ===== *)
theory Std_Strings
  imports AES67_Prelude "HOL-Library.Char_ord" "HOL-Library.List_Lexorder"
begin

text \<open>
  What the code uses of \<open>std::string\<close> and of the numeric conversions of the C++ standard library.
  A \<open>std::string\<close> is a list of characters (bytes). The \<open>std::sto*\<close> family is \<open>strtol\<close> and \<open>strtoul\<close>
  with exceptions: leading white space, an optional sign, in base 16 an optional \<open>0x\<close>, the longest
  run of digits, and whatever follows is ignored.
\<close>

section \<open>Characters\<close>

definition chr :: "nat \<Rightarrow> char" where "chr n = char_of n"

definition code :: "char \<Rightarrow> nat" where "code c = of_char c"

lemma code_chr [simp]: "n < 256 \<Longrightarrow> code (chr n) = n"
  by (simp add: code_def chr_def)

lemma chr_code [simp]: "chr (code c) = c"
  by (simp add: code_def chr_def)

lemma code_less [simp]: "code c < 256"
  using nat_of_char_less_256 [of c] by (simp add: code_def)

lemma code_inject: "code c = code d \<longleftrightarrow> c = d"
  by (metis chr_code)

definition is_digit :: "char \<Rightarrow> bool" where
  "is_digit c \<longleftrightarrow> 48 \<le> code c \<and> code c \<le> 57"

definition is_space :: "char \<Rightarrow> bool" where
  "is_space c \<longleftrightarrow> code c = 32 \<or> 9 \<le> code c \<and> code c \<le> 13"

definition digit_char :: "nat \<Rightarrow> char" where
  "digit_char d = chr (if d < 10 then 48 + d else 87 + d)"

definition digit_val :: "nat \<Rightarrow> char \<Rightarrow> nat option" where
  "digit_val base c =
     (let n = code c;
          d = (if 48 \<le> n \<and> n \<le> 57 then n - 48
               else if 97 \<le> n \<and> n \<le> 122 then n - 87
               else if 65 \<le> n \<and> n \<le> 90 then n - 55 else 36)
      in if d < base then Some d else None)"

lemma digit_val_char [simp]: "d < base \<Longrightarrow> base \<le> 36 \<Longrightarrow> digit_val base (digit_char d) = Some d"
  by (auto simp: digit_val_def digit_char_def Let_def)

lemma is_digit_val: "digit_val 10 c = (if is_digit c then Some (code c - 48) else None)"
  by (auto simp: digit_val_def is_digit_def Let_def)

lemma is_digit_char [simp]: "d < 10 \<Longrightarrow> is_digit (digit_char d)"
  by (simp add: is_digit_def digit_char_def)

section \<open>Strings and bytes\<close>

definition bytes_string :: "byte_list \<Rightarrow> string" where
  "bytes_string bs = map (\<lambda>b. chr (unat b)) bs"

definition string_bytes :: "string \<Rightarrow> byte_list" where
  "string_bytes s = map (\<lambda>c. of_nat (code c)) s"

lemma string_bytes_append [simp]: "string_bytes (a @ b) = string_bytes a @ string_bytes b"
  by (simp add: string_bytes_def)

lemma string_bytes_length [simp]: "length (string_bytes s) = length s"
  by (simp add: string_bytes_def)

lemma bytes_string_length [simp]: "length (bytes_string s) = length s"
  by (simp add: bytes_string_def)

lemma bytes_string_back [simp]: "bytes_string (string_bytes s) = s"
proof -
  have "chr (unat (of_nat (code c) :: u8)) = c" for c
    by (simp add: unat_of_nat_small)
  then show ?thesis by (simp add: bytes_string_def string_bytes_def comp_def)
qed

text \<open>\<open>std::tolower\<close> in the C locale, on a character and on a string.\<close>

definition lower :: "char \<Rightarrow> char" where
  "lower c = (if 65 \<le> code c \<and> code c \<le> 90 then chr (code c + 32) else c)"

definition to_lower :: "string \<Rightarrow> string" where
  "to_lower s = map lower s"

lemma to_lower_append [simp]: "to_lower (a @ b) = to_lower a @ to_lower b"
  by (simp add: to_lower_def)

lemma to_lower_Nil [simp]: "to_lower s = [] \<longleftrightarrow> s = []" "to_lower [] = []"
  by (simp_all add: to_lower_def)

lemma lower_lower [simp]: "lower (lower c) = lower c"
  by (simp add: lower_def)

lemma to_lower_idem [simp]: "to_lower (to_lower s) = to_lower s"
  by (simp add: to_lower_def comp_def)

section \<open>Printing numbers\<close>

text \<open>\<open>std::to_string\<close> of an unsigned and of a signed integer.\<close>

fun decimal :: "nat \<Rightarrow> string" where
  "decimal n = (if n < 10 then [digit_char n] else decimal (n div 10) @ [digit_char (n mod 10)])"

declare decimal.simps [simp del]

definition decimal_int :: "int \<Rightarrow> string" where
  "decimal_int i = (if i < 0 then ''-'' @ decimal (nat (- i)) else decimal (nat i))"

text \<open>Two lower-case hexadecimal digits, as \<open>std::hex\<close>, \<open>setfill('0')\<close>, \<open>setw(2)\<close> print a byte.\<close>

definition hex2 :: "u8 \<Rightarrow> string" where
  "hex2 b = [digit_char (unat b div 16), digit_char (unat b mod 16)]"

lemma decimal_nonempty [simp]: "decimal n \<noteq> []"
  by (subst decimal.simps) auto

lemma decimal_digits: "c \<in> set (decimal n) \<Longrightarrow> is_digit c"
proof (induction n rule: decimal.induct)
  case (1 n)
  then show ?case by (subst (asm) (2) decimal.simps) (auto split: if_splits)
qed

lemma decimal_length: "n < 10 ^ k \<Longrightarrow> 0 < k \<Longrightarrow> length (decimal n) \<le> k"
proof (induction n arbitrary: k rule: decimal.induct)
  case (1 n)
  show ?case
  proof (cases "n < 10")
    case True
    then show ?thesis using 1 by (subst decimal.simps) simp
  next
    case False
    then obtain j where j: "k = Suc j" "0 < j" using "1.prems"
      by (cases k; cases "k = 1") auto
    then have "n div 10 < 10 ^ j" using "1.prems" by (simp add: less_mult_imp_div_less mult.commute)
    then show ?thesis using 1 False j by (subst decimal.simps) simp
  qed
qed

section \<open>Reading numbers\<close>

fun read_digits :: "nat \<Rightarrow> nat \<Rightarrow> string \<Rightarrow> nat \<times> string" where
  "read_digits base acc [] = (acc, [])"
| "read_digits base acc (c # cs) = (case digit_val base c of
       None \<Rightarrow> (acc, c # cs)
     | Some d \<Rightarrow> read_digits base (acc * base + d) cs)"

definition starts_with_digit :: "nat \<Rightarrow> string \<Rightarrow> bool" where
  "starts_with_digit base s = (case s of [] \<Rightarrow> False | c # cs \<Rightarrow> digit_val base c \<noteq> None)"

definition skip_sign :: "string \<Rightarrow> bool \<times> string" where
  "skip_sign s = (case s of [] \<Rightarrow> (False, [])
     | c # cs \<Rightarrow> if c = CHR ''-'' then (True, cs) else if c = CHR ''+'' then (False, cs) else (False, s))"

definition skip_prefix :: "nat \<Rightarrow> string \<Rightarrow> string" where
  "skip_prefix base s = (case s of
       a # b # cs \<Rightarrow> if base = 16 \<and> a = CHR ''0'' \<and> (b = CHR ''x'' \<or> b = CHR ''X'') \<and> starts_with_digit 16 cs
                    then cs else s
     | _ \<Rightarrow> s)"

lemma skip_prefix_10 [simp]: "base \<noteq> 16 \<Longrightarrow> skip_prefix base s = s"
  by (simp add: skip_prefix_def split: list.split)

text \<open>Sign, magnitude and rest of the number a string starts with, or nothing.\<close>

definition scan_number :: "nat \<Rightarrow> string \<Rightarrow> (bool \<times> nat \<times> string) option" where
  "scan_number base s =
     (let (neg, s1) = skip_sign (dropWhile is_space s); s2 = skip_prefix base s1 in
      if starts_with_digit base s2
      then (let (m, rest) = read_digits base 0 s2 in Some (neg, m, rest)) else None)"

datatype std_exception = InvalidArgument | OutOfRange

definition stoi :: "string \<Rightarrow> std_exception + int" where
  "stoi s = (case scan_number 10 s of
       None \<Rightarrow> Inl InvalidArgument
     | Some (neg, m, rest) \<Rightarrow> (let v = (if neg then - int m else int m) in
         if v < - (2 ^ 31) \<or> 2 ^ 31 \<le> v then Inl OutOfRange else Inr v))"

definition stoul :: "nat \<Rightarrow> string \<Rightarrow> std_exception + u64" where
  "stoul base s = (case scan_number base s of
       None \<Rightarrow> Inl InvalidArgument
     | Some (neg, m, rest) \<Rightarrow>
         if 2 ^ 64 \<le> m then Inl OutOfRange else Inr (if neg then - of_nat m else of_nat m))"

lemma read_digits_decimal:
  "read_digits 10 acc (decimal n @ rest) = read_digits 10 (acc * 10 ^ length (decimal n) + n) rest"
proof (induction n arbitrary: acc rest rule: decimal.induct)
  case (1 n)
  show ?case
  proof (cases "n < 10")
    case True
    then show ?thesis by (simp add: decimal.simps)
  next
    case False
    have d: "decimal n = decimal (n div 10) @ [digit_char (n mod 10)]" using False by (simp add: decimal.simps)
    show ?thesis
      using 1 [OF False, of acc "digit_char (n mod 10) # rest"] unfolding d
      by (simp add: algebra_simps)
  qed
qed

lemma read_digits_stop: "\<not> starts_with_digit base rest \<Longrightarrow> read_digits base acc rest = (acc, rest)"
  by (cases rest) (auto simp: starts_with_digit_def)

lemma decimal_hd: "\<exists>c cs. decimal n = c # cs \<and> is_digit c"
  using decimal_nonempty [of n] decimal_digits [of _ n] by (cases "decimal n") auto

lemma digit_facts:
  assumes "is_digit c"
  shows "\<not> is_space c" "c \<noteq> CHR ''-''" "c \<noteq> CHR ''+''" "c \<noteq> CHR ''.''" "c \<noteq> CHR '' ''" "c \<noteq> CHR ''/''"
    "digit_val 10 c \<noteq> None"
  using assms by (auto simp: is_digit_def is_space_def is_digit_val code_def)

lemma scan_decimal:
  assumes "\<not> starts_with_digit 10 rest"
  shows "scan_number 10 (decimal n @ rest) = Some (False, n, rest)"
proof -
  obtain c cs where c: "decimal n = c # cs" "is_digit c" using decimal_hd by blast
  have "dropWhile is_space (decimal n @ rest) = decimal n @ rest" "skip_sign (decimal n @ rest) = (False, decimal n @ rest)"
    "skip_prefix 10 (decimal n @ rest) = decimal n @ rest" "starts_with_digit 10 (decimal n @ rest)"
    using c digit_facts [OF c(2)] by (auto simp: skip_sign_def skip_prefix_def starts_with_digit_def split: list.split)
  then show ?thesis
    using read_digits_decimal [of 0 n rest] read_digits_stop [OF assms] by (simp add: scan_number_def)
qed

lemma stoi_decimal:
  assumes "n < 2 ^ 31" "\<not> starts_with_digit 10 rest"
  shows "stoi (decimal n @ rest) = Inr (int n)"
  using assms by (simp add: stoi_def scan_decimal)

lemma starts_with_digit_Nil [simp]: "\<not> starts_with_digit base []"
  by (simp add: starts_with_digit_def)

lemma stoul_hex2: "stoul 16 (hex2 b) = Inr (ucast b)"
proof -
  let ?h = "unat b div 16" and ?l = "unat b mod 16"
  have b: "unat b < 256" by (rule unat_byte)
  have h: "?h < 16" "?l < 16" by simp_all
  have "\<not> is_space (digit_char d) \<and> digit_char d \<noteq> CHR ''-'' \<and> digit_char d \<noteq> CHR ''+''" if "d < 16" for d
    using that by (auto simp: is_space_def digit_char_def code_inject [symmetric]) (auto simp: code_def)
  then have "scan_number 16 (hex2 b) = Some (False, ?h * 16 + ?l, [])"
    using h by (auto simp: scan_number_def hex2_def skip_sign_def skip_prefix_def starts_with_digit_def)
  moreover have "?h * 16 + ?l = unat b" by simp
  ultimately show ?thesis by (simp add: stoul_def not_le less_trans [OF unat_byte])
qed

section \<open>Splitting\<close>

fun split_on :: "char \<Rightarrow> string \<Rightarrow> string list" where
  "split_on d [] = [[]]"
| "split_on d (c # cs) = (if c = d then [] # split_on d cs
     else (case split_on d cs of [] \<Rightarrow> [[c]] | w # ws \<Rightarrow> (c # w) # ws))"

lemma split_on_nonempty [simp]: "split_on d s \<noteq> []"
  by (induction s) (auto split: list.split)

lemma split_on_plain: "d \<notin> set w \<Longrightarrow> split_on d w = [w]"
  by (induction w) auto

lemma split_on_append: "d \<notin> set w \<Longrightarrow> split_on d (w @ d # s) = w # split_on d s"
  by (induction w) auto

lemma takeWhile_until: "d \<notin> set w \<Longrightarrow> takeWhile (\<lambda>c. c \<noteq> d) (w @ d # s) = w"
  by (induction w) auto

lemma decimal_no_char: "\<not> is_digit c \<Longrightarrow> c \<notin> set (decimal n)"
  using decimal_digits by blast

text \<open>A short run of digits is a number of at most that many digits.\<close>

lemma read_digits_all:
  "\<forall>c\<in>set s. is_digit c \<Longrightarrow> \<exists>n. read_digits 10 acc s = (acc * 10 ^ length s + n, []) \<and> n < 10 ^ length s"
proof (induction s arbitrary: acc)
  case (Cons c cs)
  let ?d = "code c - 48"
  have c: "digit_val 10 c = Some ?d" "?d < 10" using Cons.prems by (auto simp: is_digit_val is_digit_def)
  obtain n where n: "read_digits 10 (acc * 10 + ?d) cs = ((acc * 10 + ?d) * 10 ^ length cs + n, [])" "n < 10 ^ length cs"
    using Cons.IH [of "acc * 10 + ?d"] Cons.prems by auto
  have "?d * 10 ^ length cs \<le> 9 * 10 ^ length cs" using c(2) by simp
  then have "?d * 10 ^ length cs + n < 10 * 10 ^ length cs" using n(2) by linarith
  then show ?case using c n
    by (intro exI [of _ "?d * 10 ^ length cs + n"]) (simp add: algebra_simps)
qed simp

lemma stoi_digits:
  assumes "\<forall>c\<in>set s. is_digit c" "s \<noteq> []" "length s \<le> 9"
  shows "\<exists>n. stoi s = Inr (int n) \<and> n < 10 ^ length s"
proof -
  obtain n where n: "read_digits 10 0 s = (n, [])" "n < 10 ^ length s" using read_digits_all [OF assms(1), of 0] by auto
  obtain c cs where s: "s = c # cs" using assms(2) by (cases s) auto
  then have c: "is_digit c" using assms(1) by simp
  have sc: "scan_number 10 s = Some (False, n, [])"
    using n digit_facts [OF c] by (auto simp: scan_number_def s skip_sign_def starts_with_digit_def)
  have "n < 2 ^ 31" using n(2) power_increasing [OF assms(3), of "10::nat"] by simp
  then show ?thesis using n(2) by (intro exI [of _ n]) (simp add: stoi_def sc)
qed

section \<open>Searching and trimming\<close>

text \<open>\<open>find\<close> of a substring: the first position at which it stands.\<close>

fun str_find :: "string \<Rightarrow> string \<Rightarrow> nat option" where
  "str_find p [] = (if p = [] then Some 0 else None)"
| "str_find p (c # cs) = (if take (length p) (c # cs) = p then Some 0 else map_option Suc (str_find p cs))"

text \<open>\<open>find\<close> and \<open>rfind\<close> of a character, as the text before it and the text after it.\<close>

definition cut_first :: "char \<Rightarrow> string \<Rightarrow> (string \<times> string) option" where
  "cut_first d s = (if d \<in> set s then Some (takeWhile (\<lambda>c. c \<noteq> d) s, tl (dropWhile (\<lambda>c. c \<noteq> d) s)) else None)"

definition cut_last :: "char \<Rightarrow> string \<Rightarrow> (string \<times> string) option" where
  "cut_last d s = map_option (\<lambda>(a, b). (rev b, rev a)) (cut_first d (rev s))"

definition drop_end :: "(char \<Rightarrow> bool) \<Rightarrow> string \<Rightarrow> string" where
  "drop_end P s = rev (dropWhile P (rev s))"

definition trim :: "string \<Rightarrow> string" where
  "trim s = drop_end is_space (dropWhile is_space s)"

text \<open>The parts \<open>std::getline\<close> reads: a delimiter at the end closes the last part, it opens none.\<close>

definition getline_parts :: "char \<Rightarrow> string \<Rightarrow> string list" where
  "getline_parts d s = (let ps = split_on d s in if last ps = [] then butlast ps else ps)"

lemma str_find_absent: "c \<in> set p \<Longrightarrow> c \<notin> set s \<Longrightarrow> str_find p s = None"
proof (induction s)
  case (Cons x xs)
  have "take (length p) (x # xs) \<noteq> p" using Cons.prems by (metis in_set_takeD)
  then show ?case using Cons by simp
qed auto

lemma str_find_prefix [simp]: "str_find p (p @ s) = Some 0"
proof (cases p)
  case Nil
  then show ?thesis by (cases s) simp_all
qed simp

lemma str_find_iff_None: "str_find p s = None \<longleftrightarrow> \<not> (\<exists>a b. s = a @ p @ b)"
proof (induction s)
  case (Cons c cs)
  have "(\<exists>a b. c # cs = a @ p @ b) \<longleftrightarrow> take (length p) (c # cs) = p \<or> (\<exists>a b. cs = a @ p @ b)"
    by (metis Cons_eq_append_conv append_take_drop_id append_eq_conv_conj append_Nil append_Cons)
  then show ?case using Cons.IH by simp
qed auto

lemma cut_first_append [simp]: "d \<notin> set a \<Longrightarrow> cut_first d (a @ d # b) = Some (a, b)"
  by (induction a) (auto simp: cut_first_def)

lemma cut_first_absent [simp]: "d \<notin> set a \<Longrightarrow> cut_first d a = None"
  by (simp add: cut_first_def)

lemma cut_last_append [simp]: "d \<notin> set b \<Longrightarrow> cut_last d (a @ d # b) = Some (a, b)"
  using cut_first_append [of d "rev b" "rev a"] by (simp add: cut_last_def)

lemma drop_end_id: "s = [] \<or> \<not> P (last s) \<Longrightarrow> drop_end P s = s"
  by (cases s rule: rev_cases) (auto simp: drop_end_def)

lemma trim_solid: "s = [] \<or> \<not> is_space (hd s) \<and> \<not> is_space (last s) \<Longrightarrow> trim s = s"
proof -
  assume s: "s = [] \<or> \<not> is_space (hd s) \<and> \<not> is_space (last s)"
  then have "dropWhile is_space s = s" by (cases s) auto
  then show ?thesis using drop_end_id [of s is_space] s by (auto simp: trim_def)
qed

text \<open>Words without white space, as the fields of a line are.\<close>

definition token :: "string \<Rightarrow> bool" where
  "token s \<longleftrightarrow> list_all (\<lambda>c. \<not> is_space c) s"

lemma token_trim [simp]: "token s \<Longrightarrow> trim s = s"
  by (rule trim_solid, cases "s = []") (auto simp: token_def list_all_iff)

lemma token_blank [simp]: "token s \<Longrightarrow> CHR '' '' \<notin> set s"
  by (auto simp: token_def list_all_iff is_space_def code_def)

lemma token_newline [simp]: "token s \<Longrightarrow> CHR 0x0A \<notin> set s"
  by (auto simp: token_def list_all_iff is_space_def code_def)

lemma token_append [simp]: "token (a @ b) \<longleftrightarrow> token a \<and> token b"
  by (simp add: token_def)

lemma token_decimal [simp]: "token (decimal n)"
  using decimal_digits [of _ n] digit_facts(1) by (auto simp: token_def list_all_iff)

lemma getline_parts_snoc: "d \<notin> set w \<Longrightarrow> getline_parts d w = (if w = [] then [] else [w])"
  by (simp add: getline_parts_def split_on_plain)

lemma getline_parts_append [simp]: "d \<notin> set w \<Longrightarrow> getline_parts d (w @ d # s) = w # getline_parts d s"
  by (simp add: getline_parts_def split_on_append Let_def)

lemma getline_parts_one [simp]: "d \<notin> set w \<Longrightarrow> w \<noteq> [] \<Longrightarrow> getline_parts d w = [w]"
  by (simp add: getline_parts_snoc)

lemma stoul_decimal [simp]: "n < 2 ^ 64 \<Longrightarrow> stoul 10 (decimal n) = Inr (of_nat n)"
  using scan_decimal [of "[]" n] by (simp add: stoul_def)

end
