(* ===== verification/Stream_Types.thy ===== *)
theory Stream_Types
  imports Std_Strings
begin

text \<open>
  The common types of \<open>src/packages/aes67-core/Shared/Types.h\<close> and \<open>Types.cpp\<close>: stream identifiers,
  statistics, addresses, stream descriptions, error codes and the small utilities on them. Times
  read from a clock are parameters. The two functions that compute in floating point only to
  print (\<open>getPacketLossPercent\<close>, \<open>formatBytes\<close>) are not modelled.
\<close>

section \<open>Stream identifiers\<close>

text \<open>The 16 bytes of a UUID; \<open>valid_id\<close> is the length \<open>std::array\<close> fixes.\<close>

datatype stream_id = StreamID (uuid: byte_list)

definition valid_id :: "stream_id \<Rightarrow> bool" where
  "valid_id i \<longleftrightarrow> length (uuid i) = 16"

definition StreamID_null :: stream_id where
  "StreamID_null = StreamID (replicate 16 0)"

fun parse_pairs :: "string \<Rightarrow> std_exception + byte_list" where
  "parse_pairs (a # b # cs) = (case stoul 16 [a, b] of
       Inl e \<Rightarrow> Inl e
     | Inr v \<Rightarrow> (case parse_pairs cs of Inl e \<Rightarrow> Inl e | Inr bs \<Rightarrow> Inr (ucast v # bs)))"
| "parse_pairs _ = Inr []"

definition StreamID_parse :: "string \<Rightarrow> std_exception + stream_id" where
  "StreamID_parse uuidString =
     (let cleaned = filter (\<lambda>c. c \<noteq> CHR ''-'') uuidString in
      if length cleaned \<noteq> 32 then Inr StreamID_null
      else (case parse_pairs cleaned of Inl e \<Rightarrow> Inl e | Inr bs \<Rightarrow> Inr (StreamID bs)))"

definition id_toString :: "stream_id \<Rightarrow> string" where
  "id_toString i = concat (map (\<lambda>k. (if k = 4 \<or> k = 6 \<or> k = 8 \<or> k = 10 then ''-'' else []) @ hex2 (uuid i ! k)) [0..<16])"

definition id_isNull :: "stream_id \<Rightarrow> bool" where
  "id_isNull i \<longleftrightarrow> list_all (\<lambda>b. b = 0) (uuid i)"

text \<open>The random bytes are the parameter.\<close>

definition id_generate :: "byte_list \<Rightarrow> stream_id" where
  "id_generate rnd = StreamID (rnd[6 := (rnd ! 6 AND 0x0F) OR 0x40, 8 := (rnd ! 8 AND 0x3F) OR 0x80])"

text \<open>\<open>operator<\<close> is the lexicographic order of the bytes, and identifiers are the keys of ordered maps.\<close>

definition id_less :: "stream_id \<Rightarrow> stream_id \<Rightarrow> bool" where
  "id_less a b \<longleftrightarrow> uuid a < uuid b"

instantiation stream_id :: linorder
begin

definition less_eq_stream_id :: "stream_id \<Rightarrow> stream_id \<Rightarrow> bool" where
  "less_eq_stream_id a b \<longleftrightarrow> uuid a \<le> uuid b"

definition less_stream_id :: "stream_id \<Rightarrow> stream_id \<Rightarrow> bool" where
  "less_stream_id a b \<longleftrightarrow> id_less a b"

instance
  by standard (auto simp: less_eq_stream_id_def less_stream_id_def id_less_def stream_id.expand)

end

section \<open>Audio formats\<close>

datatype audio_encoding = L16 | L24 | DoP | Unknown

datatype sample_rate = SR_44100 | SR_48000 | SR_88200 | SR_96000 | SR_176400 | SR_192000 | SR_352800 | SR_384000

fun sampleRateToHz :: "sample_rate \<Rightarrow> u32" where
  "sampleRateToHz SR_44100 = 44100"
| "sampleRateToHz SR_48000 = 48000"
| "sampleRateToHz SR_88200 = 88200"
| "sampleRateToHz SR_96000 = 96000"
| "sampleRateToHz SR_176400 = 176400"
| "sampleRateToHz SR_192000 = 192000"
| "sampleRateToHz SR_352800 = 352800"
| "sampleRateToHz SR_384000 = 384000"

definition hzToSampleRate :: "u32 \<Rightarrow> sample_rate" where
  "hzToSampleRate hz =
     (if hz = 44100 then SR_44100 else if hz = 48000 then SR_48000
      else if hz = 88200 then SR_88200 else if hz = 96000 then SR_96000
      else if hz = 176400 then SR_176400 else if hz = 192000 then SR_192000
      else if hz = 352800 then SR_352800 else if hz = 384000 then SR_384000
      else SR_48000)"

section \<open>Statistics\<close>

record statistics =
  packetsReceived :: u64
  packetsLost :: u64
  malformedPackets :: u64
  outOfOrderPackets :: u64
  underruns :: u64
  overruns :: u64
  lastPacketTimeNs :: int
  jitterNs :: int
  latencyNs :: int
  bytesReceived :: u64
  bytesSent :: u64

definition Statistics_reset :: "statistics \<Rightarrow> statistics" where
  "Statistics_reset s = \<lparr>packetsReceived = 0, packetsLost = 0, malformedPackets = 0, outOfOrderPackets = 0,
     underruns = 0, overruns = 0, lastPacketTimeNs = 0, jitterNs = 0, latencyNs = 0,
     bytesReceived = 0, bytesSent = 0\<rparr>"

text \<open>The walk over \<open>counters()\<close>, every field read once, shared by copying and \<open>snapshot\<close>.\<close>

definition copyCountersFrom :: "statistics \<Rightarrow> statistics" where
  "copyCountersFrom other = \<lparr>packetsReceived = packetsReceived other, packetsLost = packetsLost other,
     malformedPackets = malformedPackets other, outOfOrderPackets = outOfOrderPackets other,
     underruns = underruns other, overruns = overruns other, lastPacketTimeNs = lastPacketTimeNs other,
     jitterNs = jitterNs other, latencyNs = latencyNs other,
     bytesReceived = bytesReceived other, bytesSent = bytesSent other\<rparr>"

definition Statistics_snapshot :: "statistics \<Rightarrow> statistics" where
  "Statistics_snapshot s = (copyCountersFrom s)\<lparr>lastPacketTimeNs := lastPacketTimeNs s\<rparr>"

text \<open>Division of signed integers truncates towards zero.\<close>

definition tdiv :: "int \<Rightarrow> int \<Rightarrow> int" where
  "tdiv a b = sgn a * sgn b * (\<bar>a\<bar> div \<bar>b\<bar>)"

definition timeSinceLastPacketMs :: "int \<Rightarrow> statistics \<Rightarrow> int" where
  "timeSinceLastPacketMs nowNs s =
     (if lastPacketTimeNs s = 0 then - 1 else tdiv (nowNs - lastPacketTimeNs s) 1000000)"

section \<open>Addresses\<close>

definition ipv4_parts :: "string \<Rightarrow> string list option" where
  "ipv4_parts ip = (let ps = split_on (CHR ''.'') ip in
     if length ps = 4 \<and> list_all (\<lambda>p. 1 \<le> length p \<and> length p \<le> 3 \<and> list_all is_digit p) ps
     then Some ps else None)"

definition octet_ok :: "string \<Rightarrow> bool" where
  "octet_ok p \<longleftrightarrow> (case stoi p of Inl e \<Rightarrow> False | Inr octet \<Rightarrow> \<not> (octet < 0 \<or> 255 < octet))"

definition isValidIPv4 :: "string \<Rightarrow> bool" where
  "isValidIPv4 ip \<longleftrightarrow> (case ipv4_parts ip of None \<Rightarrow> False | Some ps \<Rightarrow> list_all octet_ok ps)"

definition first_octet :: "string \<Rightarrow> std_exception + int" where
  "first_octet ip = stoi (takeWhile (\<lambda>c. c \<noteq> CHR ''.'') ip)"

definition isMulticastIP :: "string \<Rightarrow> bool" where
  "isMulticastIP ip \<longleftrightarrow> isValidIPv4 ip \<and> CHR ''.'' \<in> set ip \<and>
     (case first_octet ip of Inl e \<Rightarrow> False | Inr n \<Rightarrow> 224 \<le> n \<and> n \<le> 239)"

definition isAES67MulticastIP :: "string \<Rightarrow> bool" where
  "isAES67MulticastIP ip \<longleftrightarrow> isValidIPv4 ip \<and> CHR ''.'' \<in> set ip \<and>
     (case first_octet ip of Inl e \<Rightarrow> False | Inr n \<Rightarrow> n = 239)"

record network_address =
  na_ip :: string
  na_port :: u16
  na_ttl :: u8

definition na_isValid :: "network_address \<Rightarrow> bool" where
  "na_isValid a \<longleftrightarrow> na_ip a \<noteq> [] \<and> na_port a > 0"

definition na_isMulticast :: "network_address \<Rightarrow> bool" where
  "na_isMulticast a \<longleftrightarrow> isMulticastIP (na_ip a)"

definition na_isAES67Multicast :: "network_address \<Rightarrow> bool" where
  "na_isAES67Multicast a \<longleftrightarrow> isAES67MulticastIP (na_ip a)"

definition na_toString :: "network_address \<Rightarrow> string" where
  "na_toString a = na_ip a @ '':'' @ decimal (unat (na_port a))"

record ptp_config =
  ptp_domain :: int
  ptp_masterMAC :: string
  ptp_enabled :: bool

definition ptp_isValid :: "ptp_config \<Rightarrow> bool" where
  "ptp_isValid p \<longleftrightarrow> 0 \<le> ptp_domain p \<and> ptp_domain p \<le> 127"

section \<open>Streams and the device\<close>

record stream_info =
  si_id :: stream_id
  si_name :: string
  si_description :: string
  si_source :: network_address
  si_multicast :: network_address
  si_encoding :: audio_encoding
  si_sampleRate :: u32
  si_numChannels :: u16
  si_payloadType :: u8
  si_ptime :: u32
  si_framecount :: u32
  si_jitterBufferDepth :: u64
  si_ptp :: ptp_config
  si_stats :: statistics
  si_isActive :: bool
  si_isConnected :: bool

definition si_isValid :: "stream_info \<Rightarrow> bool" where
  "si_isValid s \<longleftrightarrow> \<not> id_isNull (si_id s) \<and> si_name s \<noteq> [] \<and> na_isValid (si_multicast s) \<and>
     si_encoding s \<noteq> Unknown \<and> si_sampleRate s > 0 \<and> si_numChannels s > 0"

definition kMaxChannels :: nat where "kMaxChannels = 128"
definition kMaxStreams :: nat where "kMaxStreams = 64"

section \<open>Errors\<close>

datatype error_code =
    Success
  | NetworkSocketError | NetworkBindError | NetworkMulticastJoinError | NetworkSendError | NetworkReceiveError
  | SDPParseError | SDPInvalidFormat | SDPMissingField | SDPInvalidValue
  | MappingOverlap | MappingOutOfRange | MappingNoChannelsAvailable | MappingInvalidStream
  | StreamNotFound | StreamAlreadyExists | StreamSampleRateMismatch | StreamInvalidConfiguration
  | PTPNotAvailable | PTPNotLocked | PTPDomainInvalid
  | AudioDeviceNotFound | AudioFormatNotSupported | AudioBufferOverrun | AudioBufferUnderrun
  | InvalidParameter | OutOfMemory | FileNotFound | FileReadError | FileWriteError | NotImplemented | InternalError

text \<open>\<open>static_cast<int>(code)\<close>: the position in the enumeration.\<close>

fun position :: "'a \<Rightarrow> 'a list \<Rightarrow> nat" where
  "position x [] = 0"
| "position x (y # ys) = (if x = y then 0 else Suc (position x ys))"

definition error_number :: "error_code \<Rightarrow> nat" where
  "error_number c = position c
     [Success, NetworkSocketError, NetworkBindError, NetworkMulticastJoinError, NetworkSendError,
      NetworkReceiveError, SDPParseError, SDPInvalidFormat, SDPMissingField, SDPInvalidValue,
      MappingOverlap, MappingOutOfRange, MappingNoChannelsAvailable, MappingInvalidStream,
      StreamNotFound, StreamAlreadyExists, StreamSampleRateMismatch, StreamInvalidConfiguration,
      PTPNotAvailable, PTPNotLocked, PTPDomainInvalid, AudioDeviceNotFound, AudioFormatNotSupported,
      AudioBufferOverrun, AudioBufferUnderrun, InvalidParameter, OutOfMemory, FileNotFound,
      FileReadError, FileWriteError, NotImplemented, InternalError]"

record error =
  err_code :: error_code
  err_message :: string
  err_context :: string

definition Error :: "error_code \<Rightarrow> string \<Rightarrow> string \<Rightarrow> error" where
  "Error c msg ctx = \<lparr>err_code = c, err_message = msg, err_context = ctx\<rparr>"

definition err_isSuccess :: "error \<Rightarrow> bool" where
  "err_isSuccess e \<longleftrightarrow> err_code e = Success"

definition err_toString :: "error \<Rightarrow> string" where
  "err_toString e = ''Error '' @ decimal (error_number (err_code e)) @ '': '' @ err_message e @
     (if err_context e \<noteq> [] then '' ('' @ err_context e @ '')'' else [])"

section \<open>Durations\<close>

definition formatDuration :: "int \<Rightarrow> string" where
  "formatDuration ms =
     (let hours = tdiv ms 3600000; ms1 = ms - hours * 3600000;
          minutes = tdiv ms1 60000; ms2 = ms1 - minutes * 60000;
          seconds = tdiv ms2 1000
      in (if hours > 0 then decimal_int hours @ ''h '' else []) @
         (if minutes > 0 \<or> hours > 0 then decimal_int minutes @ ''m '' else []) @
         decimal_int seconds @ ''s'')"

section \<open>Identifiers survive being printed\<close>

lemma hex2_no_dash: "filter (\<lambda>c. c \<noteq> CHR ''-'') (hex2 b) = hex2 b"
proof -
  have "digit_char d \<noteq> CHR ''-''" if "d < 16" for d
    using that by (auto simp: digit_char_def code_inject [symmetric]) (auto simp: code_def)
  then show ?thesis by (simp add: hex2_def)
qed

lemma id_toString_cleaned:
  assumes "valid_id i"
  shows "filter (\<lambda>c. c \<noteq> CHR ''-'') (id_toString i) = concat (map hex2 (uuid i))"
proof -
  have "filter (\<lambda>c. c \<noteq> CHR ''-'') (id_toString i) = concat (map (\<lambda>k. hex2 (uuid i ! k)) [0..<length (uuid i)])"
    using assms by (auto simp: id_toString_def valid_id_def filter_concat hex2_no_dash intro!: arg_cong [of _ _ concat])
  also have "\<dots> = concat (map hex2 (map ((!) (uuid i)) [0..<length (uuid i)]))"
    by (simp only: map_map comp_def)
  finally show ?thesis by (simp only: map_nth)
qed

lemma parse_pairs_hex2: "parse_pairs (concat (map hex2 bs)) = Inr bs"
proof (induction bs)
  case (Cons b bs)
  have "concat (map hex2 (b # bs)) = hex2 b @ concat (map hex2 bs)" by simp
  moreover have "hex2 b = [hex2 b ! 0, hex2 b ! 1]" by (simp add: hex2_def)
  moreover have "parse_pairs (hex2 b @ s) = (case parse_pairs s of Inl e \<Rightarrow> Inl e | Inr bs \<Rightarrow> Inr (b # bs))" for s
    using stoul_hex2 [of b] by (simp add: hex2_def ucast_byte_back split: sum.split)
  ultimately show ?case using Cons by simp
qed simp

lemma length_hex2 [simp]: "length (hex2 b) = 2"
  by (simp add: hex2_def)

lemma length_concat_hex2: "length (concat (map hex2 bs)) = 2 * length bs"
  by (induction bs) auto

lemma StreamID_parse_print: "valid_id i \<Longrightarrow> StreamID_parse (id_toString i) = Inr i"
  by (simp add: StreamID_parse_def id_toString_cleaned parse_pairs_hex2 length_concat_hex2)
    (simp add: valid_id_def)

interpretation id_text: codec valid_id id_toString StreamID_parse Inr
  by unfold_locales (simp_all add: StreamID_parse_print)

text \<open>A parsed identifier always has its 16 bytes, whatever the string.\<close>

lemma parse_pairs_length: "parse_pairs s = Inr bs \<Longrightarrow> length bs = length s div 2"
  by (induction s arbitrary: bs rule: parse_pairs.induct) (auto split: sum.splits)

lemma StreamID_parse_valid: "StreamID_parse s = Inr i \<Longrightarrow> valid_id i"
  by (auto simp: StreamID_parse_def StreamID_null_def valid_id_def Let_def
      split: if_splits sum.splits dest: parse_pairs_length)

lemma id_isNull_iff: "valid_id i \<Longrightarrow> id_isNull i \<longleftrightarrow> i = StreamID_null"
  by (cases i) (auto simp: id_isNull_def StreamID_null_def valid_id_def list_all_iff intro: replicate_eqI)

lemma id_generate_v4:
  assumes "length rnd = 16"
  shows "valid_id (id_generate rnd) \<and> \<not> id_isNull (id_generate rnd) \<and>
    uuid (id_generate rnd) ! 6 AND 0xF0 = 0x40 \<and> uuid (id_generate rnd) ! 8 AND 0xC0 = 0x80"
proof -
  let ?u = "uuid (id_generate rnd)"
  have u: "length ?u = 16" "?u ! 6 = (rnd ! 6 AND 0x0F) OR 0x40" "?u ! 8 = (rnd ! 8 AND 0x3F) OR 0x80"
    using assms by (simp_all add: id_generate_def)
  have "((b AND 0x0F) OR 0x40) AND 0xF0 = (0x40 :: u8)" "((b AND 0x3F) OR 0x80) AND 0xC0 = (0x80 :: u8)" for b
    by (simp_all add: bit.conj_disj_distrib2 bit.conj_disj_distrib and.assoc and.left_commute)
  then have v: "?u ! 6 AND 0xF0 = 0x40" "?u ! 8 AND 0xC0 = 0x80" unfolding u by simp_all
  then have "?u ! 6 \<noteq> 0" by auto
  then have "\<not> id_isNull (id_generate rnd)" using u(1) by (auto simp: id_isNull_def list_all_length intro!: exI [of _ 6])
  then show ?thesis using u(1) v by (simp add: valid_id_def)
qed

section \<open>Multicast addresses\<close>

definition dotted :: "nat \<Rightarrow> nat \<Rightarrow> nat \<Rightarrow> nat \<Rightarrow> string" where
  "dotted a b c d = decimal a @ ''.'' @ decimal b @ ''.'' @ decimal c @ ''.'' @ decimal d"

lemma dot_not_digit [simp]: "CHR ''.'' \<notin> set (decimal n)"
  by (rule decimal_no_char) (simp add: is_digit_def code_def)

lemma stoi_decimal_plain: "n < 2 ^ 31 \<Longrightarrow> stoi (decimal n) = Inr (int n)"
  using stoi_decimal [of n "[]"] by simp

lemma decimal_octet:
  assumes "n < 256"
  shows "1 \<le> length (decimal n) \<and> length (decimal n) \<le> 3 \<and> list_all is_digit (decimal n)" "octet_ok (decimal n)"
proof -
  have "n < 10 ^ 3" using assms by simp
  then show "1 \<le> length (decimal n) \<and> length (decimal n) \<le> 3 \<and> list_all is_digit (decimal n)"
    using decimal_length [of n 3] decimal_nonempty [of n] decimal_digits
    by (auto simp: list_all_iff Suc_le_eq simp del: decimal_nonempty)
  show "octet_ok (decimal n)" using assms by (simp add: octet_ok_def stoi_decimal_plain)
qed

lemma split_dotted: "split_on (CHR ''.'') (dotted a b c d) = [decimal a, decimal b, decimal c, decimal d]"
  by (simp add: dotted_def split_on_append split_on_plain)

lemma isValidIPv4_dotted:
  assumes "a < 256" "b < 256" "c < 256" "d < 256"
  shows "isValidIPv4 (dotted a b c d)"
  using assms decimal_octet by (simp add: isValidIPv4_def ipv4_parts_def split_dotted)

lemma first_octet_dotted: "a < 256 \<Longrightarrow> first_octet (dotted a b c d) = Inr (int a)"
  by (simp add: first_octet_def dotted_def takeWhile_until stoi_decimal_plain)

text \<open>\<open>std::stoi\<close> never throws on what the expression matched.\<close>

lemma octet_no_throw: "ipv4_parts ip = Some ps \<Longrightarrow> p \<in> set ps \<Longrightarrow> \<exists>n. stoi p = Inr (int n)"
  using stoi_digits by (fastforce simp: ipv4_parts_def Let_def list_all_iff split: if_splits)

section \<open>Theorems\<close>

text \<open>
  a stream identifier printed by \<open>toString\<close> and read back by the string constructor is the
  same identifier, and two identifiers never print alike, so the text can be the key of the
  stored configuration.
\<close>

theorem stream_id_roundtrip:
  assumes "valid_id i" "valid_id j"
  shows "StreamID_parse (id_toString i) = Inr i \<and> (id_toString i = id_toString j \<longrightarrow> i = j)"
  using assms id_text.dec_enc id_text.enc_inj by blast

theorem stream_id_roundtrip_witness:
  "valid_id (id_generate (replicate 16 255)) \<and>
   StreamID_parse (id_toString (id_generate (replicate 16 255))) = Inr (id_generate (replicate 16 255))"
proof -
  have "valid_id (id_generate (replicate 16 255))" using id_generate_v4 [of "replicate 16 255"] by simp
  then show ?thesis using stream_id_roundtrip by blast
qed

text \<open>
  for every dotted-quad address the classification is the one of the standard: multicast when
  the first octet is between 224 and 239, AES67 multicast when it is 239.
\<close>

theorem multicast_classification:
  assumes "a < 256" "b < 256" "c < 256" "d < 256"
  shows "(isMulticastIP (dotted a b c d) \<longleftrightarrow> 224 \<le> a \<and> a \<le> 239) \<and>
    (isAES67MulticastIP (dotted a b c d) \<longleftrightarrow> a = 239)"
  using isValidIPv4_dotted [OF assms] first_octet_dotted [OF assms(1)]
  by (auto simp: isMulticastIP_def isAES67MulticastIP_def dotted_def)

theorem multicast_classification_witness:
  "isMulticastIP (dotted 239 69 1 255) \<and> \<not> isMulticastIP (dotted 192 168 1 1)"
  using multicast_classification [of 239 69 1 255] multicast_classification [of 192 168 1 1] by simp

end
