(* ===== verification/Json_Text.thy ===== *)
theory Json_Text
  imports Std_Strings
begin

text \<open>
  Strings inside the JSON documents the code writes and the one-field reader of the settings files:
  \<open>src/packages/aes67-core/NetworkEngine/JsonEscape.h\<close> and \<open>JsonFields.cpp\<close>.

  The regular expressions of \<open>matchField\<close> are deterministic (no two alternatives can start with the
  same character), so each is modelled as the function that walks it, and \<open>std::regex_search\<close> as
  the first position where it succeeds. \<open>extractDoubleField\<close> returns a floating-point value and is
  not modelled.
\<close>

section \<open>Escaping\<close>

definition json_hex :: "nat \<Rightarrow> char" where
  "json_hex d = digit_char d"

definition esc_char :: "char \<Rightarrow> string" where
  "esc_char c =
     (if c = CHR 0x22 then [CHR 0x5C, CHR 0x22]
      else if c = CHR 0x5C then [CHR 0x5C, CHR 0x5C]
      else if c = CHR 0x08 then [CHR 0x5C, CHR ''b'']
      else if c = CHR 0x0C then [CHR 0x5C, CHR ''f'']
      else if c = CHR 0x0A then [CHR 0x5C, CHR ''n'']
      else if c = CHR 0x0D then [CHR 0x5C, CHR ''r'']
      else if c = CHR 0x09 then [CHR 0x5C, CHR ''t'']
      else if code c < 0x20
      then [CHR 0x5C, CHR ''u'', CHR ''0'', CHR ''0'', json_hex (code c div 16), json_hex (code c mod 16)]
      else [c])"

definition jsonEscape :: "string \<Rightarrow> string" where
  "jsonEscape s = concat (map esc_char s)"

definition hex_value :: "string \<Rightarrow> nat option" where
  "hex_value ds = (if list_all (\<lambda>c. digit_val 16 c \<noteq> None) ds then Some (fst (read_digits 16 0 ds)) else None)"

definition unescape_u :: "string \<Rightarrow> (char \<times> string) option" where
  "unescape_u cs = (if length cs < 4 then None else
     (case hex_value (take 4 cs) of
        None \<Rightarrow> None
      | Some v \<Rightarrow> if v \<le> 0x7F then Some (chr v, drop 4 cs) else None))"

definition simple_unescape :: "char \<Rightarrow> char option" where
  "simple_unescape n =
     (if n = CHR 0x22 then Some (CHR 0x22) else if n = CHR 0x5C then Some (CHR 0x5C)
      else if n = CHR ''/'' then Some (CHR ''/'') else if n = CHR ''b'' then Some (CHR 0x08)
      else if n = CHR ''f'' then Some (CHR 0x0C) else if n = CHR ''n'' then Some (CHR 0x0A)
      else if n = CHR ''r'' then Some (CHR 0x0D) else if n = CHR ''t'' then Some (CHR 0x09) else None)"

lemma unescape_u_shorter: "unescape_u cs = Some (c, rest) \<Longrightarrow> length rest < length cs"
  by (auto simp: unescape_u_def split: if_splits option.splits)

function jsonUnescape :: "string \<Rightarrow> string" where
  "jsonUnescape [] = []"
| "jsonUnescape [c] = [c]"
| "jsonUnescape (c # next # cs) =
     (if c \<noteq> CHR 0x5C then c # jsonUnescape (next # cs)
      else (case simple_unescape next of
          Some r \<Rightarrow> r # jsonUnescape cs
        | None \<Rightarrow>
            if next = CHR ''u''
            then (case unescape_u cs of
                Some (r, rest) \<Rightarrow> r # jsonUnescape rest
              | None \<Rightarrow> CHR 0x5C # CHR ''u'' # jsonUnescape cs)
            else CHR 0x5C # next # jsonUnescape cs))"
  by pat_completeness auto

termination
  by (relation "measure length") (auto dest: unescape_u_shorter)

lemma jsonUnescape_plain: "c \<noteq> CHR 0x5C \<Longrightarrow> jsonUnescape (c # s) = c # jsonUnescape s"
  by (cases s) auto

lemma jsonUnescape_pair: "simple_unescape n = Some r \<Longrightarrow> jsonUnescape (CHR 0x5C # n # s) = r # jsonUnescape s"
  by simp

lemma hex_control:
  assumes "n < 32"
  shows "hex_value [CHR ''0'', CHR ''0'', json_hex (n div 16), json_hex (n mod 16)] = Some n"
proof -
  have z: "digit_val 16 (CHR ''0'') = Some 0" by (simp add: digit_val_def code_def)
  have h: "n div 16 < 16" "n mod 16 < 16" using assms by auto
  then have "digit_val 16 (json_hex (n div 16)) = Some (n div 16)" "digit_val 16 (json_hex (n mod 16)) = Some (n mod 16)"
    by (simp_all add: json_hex_def)
  then show ?thesis by (simp add: hex_value_def z)
qed

lemma jsonUnescape_esc: "jsonUnescape (esc_char c @ s) = c # jsonUnescape s"
proof (cases "code c < 32 \<and> length (esc_char c) = 6")
  case True
  then have e: "esc_char c = [CHR 0x5C, CHR ''u'', CHR ''0'', CHR ''0'', json_hex (code c div 16), json_hex (code c mod 16)]"
    by (auto simp: esc_char_def split: if_splits)
  have "unescape_u ([CHR ''0'', CHR ''0'', json_hex (code c div 16), json_hex (code c mod 16)] @ s) = Some (c, s)"
    using True hex_control [of "code c"] by (simp add: unescape_u_def)
  then show ?thesis by (simp add: e simple_unescape_def)
next
  case False
  then show ?thesis
    by (auto simp: esc_char_def jsonUnescape_pair simple_unescape_def jsonUnescape_plain)
qed

lemma jsonUnescape_jsonEscape: "jsonUnescape (jsonEscape s) = s"
  by (induction s) (simp_all add: jsonEscape_def jsonUnescape_esc)

interpretation json_text: codec "\<lambda>_. True" jsonEscape jsonUnescape id
  by unfold_locales (simp_all add: jsonUnescape_jsonEscape)

section \<open>Reading one field\<close>

definition plain_letter :: "char \<Rightarrow> bool" where
  "plain_letter c \<longleftrightarrow> (97 \<le> code c \<and> code c \<le> 122) \<or> (65 \<le> code c \<and> code c \<le> 90) \<or>
     (48 \<le> code c \<and> code c \<le> 57) \<or> c = CHR ''_'' \<or> c = CHR ''-''"

fun strip_prefix :: "string \<Rightarrow> string \<Rightarrow> string option" where
  "strip_prefix [] s = Some s"
| "strip_prefix (p # ps) [] = None"
| "strip_prefix (p # ps) (c # cs) = (if p = c then strip_prefix ps cs else None)"

text \<open>The value patterns: each gives the text its group captures.\<close>

fun match_string_body :: "string \<Rightarrow> string option" where
  "match_string_body [] = None"
| "match_string_body (c # cs) =
     (if c = CHR 0x22 then Some []
      else if c = CHR 0x5C
      then (case cs of [] \<Rightarrow> None
              | d # ds \<Rightarrow> if d = CHR 0x0A \<or> d = CHR 0x0D then None
                         else map_option (\<lambda>r. c # d # r) (match_string_body ds))
      else map_option ((#) c) (match_string_body cs))"

definition match_string :: "string \<Rightarrow> string option" where
  "match_string s = (case strip_prefix [CHR 0x22] s of None \<Rightarrow> None | Some b \<Rightarrow> match_string_body b)"

definition match_digits :: "string \<Rightarrow> string option" where
  "match_digits s = (let ds = takeWhile is_digit s in if ds = [] then None else Some ds)"

definition match_signed :: "string \<Rightarrow> string option" where
  "match_signed s = (case strip_prefix ''-'' s of
       Some t \<Rightarrow> map_option ((#) (CHR ''-'')) (match_digits t)
     | None \<Rightarrow> match_digits s)"

definition match_bool :: "string \<Rightarrow> string option" where
  "match_bool s = (if strip_prefix ''true'' s \<noteq> None then Some ''true''
     else if strip_prefix ''false'' s \<noteq> None then Some ''false'' else None)"

definition quoted :: "string \<Rightarrow> string" where
  "quoted s = CHR 0x22 # s @ [CHR 0x22]"

definition match_at :: "string \<Rightarrow> (string \<Rightarrow> string option) \<Rightarrow> string \<Rightarrow> string option" where
  "match_at field vp s = (case strip_prefix (quoted field) s of
       None \<Rightarrow> None
     | Some s1 \<Rightarrow> (case strip_prefix '':'' (dropWhile is_space s1) of
         None \<Rightarrow> None
       | Some s2 \<Rightarrow> vp (dropWhile is_space s2)))"

fun regex_search :: "(string \<Rightarrow> string option) \<Rightarrow> string \<Rightarrow> string option" where
  "regex_search m [] = m []"
| "regex_search m (c # cs) = (case m (c # cs) of Some r \<Rightarrow> Some r | None \<Rightarrow> regex_search m cs)"

definition matchField :: "string \<Rightarrow> string \<Rightarrow> (string \<Rightarrow> string option) \<Rightarrow> string option" where
  "matchField json field vp =
     (if \<not> list_all plain_letter field then None else regex_search (match_at field vp) json)"

definition extractStringField :: "string \<Rightarrow> string \<Rightarrow> string option" where
  "extractStringField json field = map_option jsonUnescape (matchField json field match_string)"

definition extractUInt64Field :: "string \<Rightarrow> string \<Rightarrow> u64 option" where
  "extractUInt64Field json field = (case matchField json field match_digits of
       None \<Rightarrow> None
     | Some text \<Rightarrow> (case stoul 10 text of Inl e \<Rightarrow> None | Inr v \<Rightarrow> Some v))"

definition narrowField :: "nat \<Rightarrow> string \<Rightarrow> string \<Rightarrow> u64 option" where
  "narrowField width json field = (case extractUInt64Field json field of
       None \<Rightarrow> None
     | Some v \<Rightarrow> if unat v > 2 ^ width - 1 then None else Some v)"

definition extractUInt32Field :: "string \<Rightarrow> string \<Rightarrow> u32 option" where
  "extractUInt32Field json field = map_option ucast (narrowField 32 json field)"

definition extractUInt16Field :: "string \<Rightarrow> string \<Rightarrow> u16 option" where
  "extractUInt16Field json field = map_option ucast (narrowField 16 json field)"

definition extractUInt8Field :: "string \<Rightarrow> string \<Rightarrow> u8 option" where
  "extractUInt8Field json field = map_option ucast (narrowField 8 json field)"

definition extractBoolField :: "string \<Rightarrow> string \<Rightarrow> bool option" where
  "extractBoolField json field = map_option (\<lambda>t. t = ''true'') (matchField json field match_bool)"

definition extractIntField :: "string \<Rightarrow> string \<Rightarrow> int option" where
  "extractIntField json field = (case matchField json field match_signed of
       None \<Rightarrow> None
     | Some text \<Rightarrow> (case stoi text of Inl e \<Rightarrow> None | Inr v \<Rightarrow> Some v))"

section \<open>What the readers find\<close>

lemma strip_prefix_append [simp]: "strip_prefix p (p @ s) = Some s"
  by (induction p) auto

lemma strip_prefix_iff: "strip_prefix p s = Some r \<longleftrightarrow> s = p @ r"
  by (induction p s rule: strip_prefix.induct) auto

lemma regex_search_skip:
  assumes "\<And>i. i < length pre \<Longrightarrow> m (drop i (pre @ doc)) = None"
  shows "regex_search m (pre @ doc) = regex_search m doc"
  using assms
proof (induction pre)
  case (Cons c pre)
  have "m (c # pre @ doc) = None" using Cons.prems [of 0] by simp
  moreover have "regex_search m (pre @ doc) = regex_search m doc"
  proof (rule Cons.IH)
    fix i assume "i < length pre"
    then show "m (drop i (pre @ doc)) = None" using Cons.prems [of "Suc i"] by simp
  qed
  ultimately show ?case by simp
qed simp

text \<open>A stretch of a document in which the key is not found, whatever the value pattern.\<close>

definition quiet :: "string \<Rightarrow> string \<Rightarrow> string \<Rightarrow> bool" where
  "quiet field a doc \<longleftrightarrow> (\<forall>i<length a. \<forall>vp. match_at field vp (drop i (a @ doc)) = None)"

lemma quiet_Nil [simp]: "quiet field [] doc"
  by (simp add: quiet_def)

lemma quiet_append: "quiet field a (b @ doc) \<Longrightarrow> quiet field b doc \<Longrightarrow> quiet field (a @ b) doc"
proof -
  assume q: "quiet field a (b @ doc)" "quiet field b doc"
  show ?thesis unfolding quiet_def
  proof (intro allI impI)
    fix i vp assume i: "i < length (a @ b)"
    show "match_at field vp (drop i ((a @ b) @ doc)) = None"
    proof (cases "i < length a")
      case True
      then show ?thesis using q(1) by (simp add: quiet_def)
    next
      case False
      then have "drop i ((a @ b) @ doc) = drop (i - length a) (b @ doc)" "i - length a < length b" using i by auto
      then show ?thesis using q(2) by (metis quiet_def)
    qed
  qed
qed

lemma match_at_no_quote: "c \<noteq> CHR 0x22 \<Longrightarrow> match_at field vp (c # s) = None"
  by (simp add: match_at_def quoted_def)

lemma quiet_plain: "CHR 0x22 \<notin> set a \<Longrightarrow> quiet field a doc"
  unfolding quiet_def
proof (intro allI impI)
  fix i vp assume a: "CHR 0x22 \<notin> set a" "i < length a"
  then have "drop i (a @ doc) = a ! i # drop (Suc i) (a @ doc)" by (simp add: Cons_nth_drop_Suc [symmetric] nth_append)
  moreover have "a ! i \<noteq> CHR 0x22" using a by (metis nth_mem)
  ultimately show "match_at field vp (drop i (a @ doc)) = None" by (simp add: match_at_no_quote)
qed

lemma strip_quoted:
  assumes "CHR 0x22 \<notin> set v" "CHR 0x22 \<notin> set field" "strip_prefix (quoted field) (quoted v @ s) = Some r"
  shows "v = field \<and> r = s"
proof -
  have "v @ CHR 0x22 # s = field @ CHR 0x22 # r" using assms(3) by (auto simp: strip_prefix_iff quoted_def)
  moreover have "takeWhile (\<lambda>c. c \<noteq> CHR 0x22) (v @ CHR 0x22 # s) = v"
    "takeWhile (\<lambda>c. c \<noteq> CHR 0x22) (field @ CHR 0x22 # r) = field"
    using assms(1,2) by (simp_all add: takeWhile_until)
  ultimately show ?thesis by (metis append_same_eq list.inject same_append_eq)
qed

definition key_word :: "string \<Rightarrow> bool" where
  "key_word k \<longleftrightarrow> k \<noteq> [] \<and> list_all plain_letter k"

lemma key_word_quote: "key_word k \<Longrightarrow> CHR 0x22 \<notin> set k"
  by (auto simp: key_word_def list_all_iff plain_letter_def code_def)

lemma quiet_quoted:
  assumes v: "CHR 0x22 \<notin> set v" and k: "key_word field" and c: "\<not> plain_letter c" "\<not> is_space c"
    and neq: "v \<noteq> field \<or> c \<noteq> CHR '':''"
  shows "quiet field (quoted v) (c # doc)"
proof -
  have "match_at field vp (quoted v @ c # doc) = None" for vp
    using strip_quoted [OF v key_word_quote [OF k], of "c # doc"] neq c(2)
    by (auto simp: match_at_def split: option.split)
  moreover have "match_at field vp (CHR 0x22 # c # doc) = None" for vp
    using k c(1) by (cases field) (auto simp: match_at_def quoted_def key_word_def)
  moreover have "quiet field v (CHR 0x22 # c # doc)" using v by (rule quiet_plain)
  moreover have "quiet field [CHR 0x22] (c # doc)" "quiet field [CHR 0x22] (v @ [CHR 0x22] @ c # doc)"
    using calculation(1,2) by (auto simp: quiet_def quoted_def)
  ultimately show ?thesis
    using quiet_append [of field v "[CHR 0x22]" "c # doc"]
      quiet_append [of field "[CHR 0x22]" "v @ [CHR 0x22]" "c # doc"] by (simp add: quoted_def)
qed

lemma matchField_quiet:
  assumes "key_word field" "quiet field pre (quoted field @ '': '' @ v)" "vp (dropWhile is_space v) = Some t"
  shows "matchField (pre @ quoted field @ '': '' @ v) field vp = Some t"
proof -
  have "regex_search (match_at field vp) (pre @ quoted field @ '': '' @ v) =
      regex_search (match_at field vp) (quoted field @ '': '' @ v)"
    using assms(2) by (intro regex_search_skip) (simp add: quiet_def)
  moreover have "match_at field vp (quoted field @ '': '' @ v) = Some t"
    using assms(3) by (simp add: match_at_def is_space_def code_def)
  ultimately show ?thesis
    using assms(1) by (cases "quoted field @ '': '' @ v") (simp_all add: matchField_def key_word_def)
qed

lemma match_plain:
  "c \<noteq> CHR 0x22 \<Longrightarrow> c \<noteq> CHR 0x5C \<Longrightarrow> match_string_body (c # s) = map_option ((#) c) (match_string_body s)"
  by simp

lemma match_pair:
  "d \<noteq> CHR 0x0A \<Longrightarrow> d \<noteq> CHR 0x0D \<Longrightarrow>
   match_string_body (CHR 0x5C # d # s) = map_option (\<lambda>r. CHR 0x5C # d # r) (match_string_body s)"
  by simp

lemma match_quote: "match_string_body (CHR 0x22 # s) = Some []"
  by simp

declare match_string_body.simps(2) [simp del]

lemma json_hex_plain: "d < 16 \<Longrightarrow> json_hex d \<noteq> CHR 0x22 \<and> json_hex d \<noteq> CHR 0x5C"
  by (auto simp: json_hex_def digit_char_def code_inject [symmetric]) (auto simp: code_def)

lemma match_body_esc: "match_string_body (esc_char c @ s) = map_option ((@) (esc_char c)) (match_string_body s)"
proof (cases "length (esc_char c) = 6")
  case True
  then have c: "code c < 32" and e: "esc_char c = [CHR 0x5C, CHR ''u'', CHR ''0'', CHR ''0'', json_hex (code c div 16), json_hex (code c mod 16)]"
    by (auto simp: esc_char_def split: if_splits)
  have "code c div 16 < 16" using c by simp
  then show ?thesis
    unfolding e using json_hex_plain by (cases "match_string_body s") (simp_all add: match_pair match_plain)
next
  case False
  then show ?thesis
    by (cases "match_string_body s") (auto simp: esc_char_def match_pair match_plain)
qed

lemma match_body_escape: "match_string_body (jsonEscape v @ CHR 0x22 # rest) = Some (jsonEscape v)"
  by (induction v) (simp_all add: jsonEscape_def match_body_esc match_quote)

lemma extractString_written:
  assumes "key_word field" "quiet field pre (quoted field @ '': '' @ quoted (jsonEscape v) @ rest)"
  shows "extractStringField (pre @ quoted field @ '': '' @ quoted (jsonEscape v) @ rest) field = Some v"
proof -
  have "match_string (dropWhile is_space (quoted (jsonEscape v) @ rest)) = Some (jsonEscape v)"
    by (simp add: quoted_def is_space_def code_def match_string_def match_body_escape)
  then show ?thesis
    using matchField_quiet [OF assms] by (simp add: extractStringField_def jsonUnescape_jsonEscape)
qed

lemma takeWhile_decimal:
  "\<not> starts_with_digit 10 rest \<Longrightarrow> takeWhile is_digit (decimal n @ rest) = decimal n"
  using decimal_digits [of _ n]
  by (cases rest) (auto simp: takeWhile_append2 starts_with_digit_def is_digit_val split: if_splits)

lemma extractUInt64_written:
  assumes "key_word field" "quiet field pre (quoted field @ '': '' @ decimal n @ rest)"
    and "\<not> starts_with_digit 10 rest" "n < 2 ^ 64"
  shows "extractUInt64Field (pre @ quoted field @ '': '' @ decimal n @ rest) field = Some (of_nat n)"
proof -
  obtain c cs where c: "decimal n = c # cs" "is_digit c" using decimal_hd by blast
  then have "dropWhile is_space (decimal n @ rest) = decimal n @ rest" using digit_facts [OF c(2)] by simp
  then have "match_digits (dropWhile is_space (decimal n @ rest)) = Some (decimal n)"
    using takeWhile_decimal [OF assms(3)] by (simp add: match_digits_def Let_def)
  moreover have "stoul 10 (decimal n) = Inr (of_nat n)"
    using scan_decimal [of "[]" n] assms(4) by (simp add: stoul_def)
  ultimately show ?thesis
    using matchField_quiet [OF assms(1,2)] by (simp add: extractUInt64Field_def)
qed

section \<open>Theorems\<close>

text \<open>
  what \<open>jsonEscape\<close> writes, \<open>jsonUnescape\<close> reads back, for every string of bytes, control
  characters, quotes and backslashes included; so two strings are never written alike.
\<close>

theorem json_escape_roundtrip: "jsonUnescape (jsonEscape s) = s \<and> inj jsonEscape"
  using json_text.dec_enc [of s] json_text.enc_inj_on by simp

text \<open>
  a string field written with \<open>jsonEscape\<close> is read back whole by \<open>extractStringField\<close>, wherever
  the field stands in the document, as long as the key is not found earlier with a colon after it;
  whatever follows the closing quote has no influence.
\<close>

theorem json_string_field_roundtrip:
  assumes "key_word field" "quiet field pre (quoted field @ '': '' @ quoted (jsonEscape v) @ rest)"
  shows "extractStringField (pre @ quoted field @ '': '' @ quoted (jsonEscape v) @ rest) field = Some v"
  using assms by (rule extractString_written)

theorem json_string_field_roundtrip_witness:
  "extractStringField (''{ '' @ quoted ''name'' @ '': '' @ quoted (jsonEscape [CHR 0x22, CHR 0x5C]) @ ''}'') ''name'' =
     Some [CHR 0x22, CHR 0x5C]"
  by (rule json_string_field_roundtrip)
    (simp_all add: key_word_def plain_letter_def code_def quiet_plain)

text \<open>
  a numeric field is read back exactly by the reader of its width, and a value that does not
  fit the narrower type is reported as absent, never reduced modulo the width.
\<close>

theorem json_narrow_field:
  assumes "key_word field" "quiet field pre (quoted field @ '': '' @ decimal n @ rest)"
    and "\<not> starts_with_digit 10 rest" "n < 2 ^ 64"
  shows "extractUInt16Field (pre @ quoted field @ '': '' @ decimal n @ rest) field =
     (if n < 2 ^ 16 then Some (of_nat n) else None)"
proof -
  have "unat (of_nat n :: u64) = n" using assms(4) by (intro unat_of_nat_small) simp
  moreover have "(ucast (of_nat n :: u64) :: u16) = of_nat n"
    using calculation by (metis of_nat_unat)
  ultimately show ?thesis
    using extractUInt64_written [OF assms] by (auto simp: extractUInt16Field_def narrowField_def)
qed

theorem json_narrow_field_witness:
  "extractUInt16Field (''{ '' @ quoted ''port'' @ '': '' @ decimal 70000 @ ''}'') ''port'' = None"
  using json_narrow_field [of "''port''" "''{ ''" 70000 "''}''"]
  by (simp add: key_word_def plain_letter_def code_def quiet_plain starts_with_digit_def digit_val_def)

end
