(* ===== verification/Std_Map.thy ===== *)
theory Std_Map
  imports AES67_Prelude
begin

text \<open>
  \<open>std::map\<close> as the code uses it: an association list kept strictly sorted by key, because the
  code iterates over maps and prints what it finds in that order. \<open>std_map\<close> is the contract its
  clients rely on.
\<close>

type_synonym ('k, 'v) stdmap = "('k \<times> 'v) list"

fun map_find :: "('k, 'v) stdmap \<Rightarrow> 'k \<Rightarrow> 'v option" where
  "map_find [] k = None"
| "map_find ((k', v) # m) k = (if k = k' then Some v else map_find m k)"

text \<open>\<open>m[k] = v\<close> and \<open>insert_or_assign\<close>.\<close>

fun map_put :: "'k::linorder \<Rightarrow> 'v \<Rightarrow> ('k, 'v) stdmap \<Rightarrow> ('k, 'v) stdmap" where
  "map_put k v [] = [(k, v)]"
| "map_put k v ((k', v') # m) =
     (if k < k' then (k, v) # (k', v') # m
      else if k = k' then (k, v) # m
      else (k', v') # map_put k v m)"

definition map_erase :: "'k \<Rightarrow> ('k, 'v) stdmap \<Rightarrow> ('k, 'v) stdmap" where
  "map_erase k m = filter (\<lambda>(k', v). k' \<noteq> k) m"

definition sorted_map :: "('k::linorder, 'v) stdmap \<Rightarrow> bool" where
  "sorted_map m \<longleftrightarrow> sorted_wrt (<) (map fst m)"

lemma sorted_map_Nil [simp]: "sorted_map []"
  by (simp add: sorted_map_def)

lemma sorted_map_Cons [simp]:
  "sorted_map ((k, v) # m) \<longleftrightarrow> (\<forall>k'\<in>fst ` set m. k < k') \<and> sorted_map m"
  by (auto simp: sorted_map_def)

lemma map_find_put [simp]: "map_find (map_put k v m) k' = (if k' = k then Some v else map_find m k')"
  by (induction m) auto

lemma set_map_put: "fst ` set (map_put k v m) = insert k (fst ` set m)"
  by (induction k v m rule: map_put.induct) (simp_all add: insert_commute)

lemma sorted_map_put: "sorted_map m \<Longrightarrow> sorted_map (map_put k v m)"
proof (induction m)
  case (Cons p m)
  obtain k' v' where p: "p = (k', v')" by force
  show ?case using Cons unfolding p by (auto simp: set_map_put)
qed simp

lemma map_find_erase [simp]: "map_find (map_erase k m) k' = (if k' = k then None else map_find m k')"
  by (induction m) (auto simp: map_erase_def)

lemma sorted_map_erase: "sorted_map m \<Longrightarrow> sorted_map (map_erase k m)"
  by (induction m) (auto simp: map_erase_def)

lemma map_find_in: "map_find m k = Some v \<Longrightarrow> (k, v) \<in> set m"
  by (induction m) (auto split: if_splits)

lemma map_find_iff: "sorted_map m \<Longrightarrow> (k, v) \<in> set m \<longleftrightarrow> map_find m k = Some v"
  by (induction m) (force split: if_splits)+

lemma map_find_None: "map_find m k = None \<longleftrightarrow> k \<notin> fst ` set m"
  by (induction m k rule: map_find.induct) simp_all

lemma map_erase_absent: "k \<notin> fst ` set m \<Longrightarrow> map_erase k m = m"
  by (induction m) (auto simp: map_erase_def)

lemma map_put_least: "\<forall>k'\<in>fst ` set m. k < k' \<Longrightarrow> map_put k v m = (k, v) # m"
  by (cases m) auto

lemma map_put_erase: "sorted_map m \<Longrightarrow> map_put k v (map_erase k m) = map_put k v m"
proof (induction m)
  case (Cons p m)
  obtain k' v' where p: "p = (k', v')" by force
  have s: "\<forall>k''\<in>fst ` set m. k' < k''" using Cons.prems by (simp add: p)
  show ?case
  proof (cases "k' = k")
    case True
    then have "map_erase k m = m" using s by (intro map_erase_absent) auto
    then show ?thesis using True s by (simp add: p map_erase_def map_put_least)
  next
    case False
    have "map_erase k m = m" if "k < k'" using s that by (intro map_erase_absent) force
    then show ?thesis using Cons False by (auto simp: p map_erase_def)
  qed
qed (simp add: map_erase_def)

lemma map_put_last: "\<forall>k'\<in>fst ` set m. k' < k \<Longrightarrow> map_put k v m = m @ [(k, v)]"
  by (induction m) auto

lemma sorted_map_append:
  "sorted_map (m @ m') \<longleftrightarrow> sorted_map m \<and> sorted_map m' \<and> (\<forall>a\<in>fst ` set m. \<forall>b\<in>fst ` set m'. a < b)"
  by (auto simp: sorted_map_def sorted_wrt_append)

text \<open>A sorted map is determined by what is found in it.\<close>

lemma sorted_map_ext:
  assumes "sorted_map m" "sorted_map m'" "\<And>k. map_find m k = map_find m' k"
  shows "m = m'"
proof -
  have s: "sorted (map fst a) \<and> distinct (map fst a)" if "sorted_map a" for a :: "('a, 'b) stdmap"
    using that by (simp add: sorted_map_def strict_sorted_iff)
  have "(k, v) \<in> set m \<longleftrightarrow> (k, v) \<in> set m'" for k v using assms by (simp add: map_find_iff)
  then have "set m = set m'" by auto
  then show ?thesis using s [OF assms(1)] s [OF assms(2)]
    by (intro map_sorted_distinct_set_unique [where f = fst]) (auto simp: distinct_map)
qed

lemma map_find_put_all:
  "sorted_map m \<Longrightarrow> map_find (fold (\<lambda>(k, v). map_put k v) m m0) k =
     (case map_find m k of Some v \<Rightarrow> Some v | None \<Rightarrow> map_find m0 k)"
proof (induction m arbitrary: m0)
  case (Cons p m)
  obtain k1 v1 where p: "p = (k1, v1)" by force
  have "map_find m k1 = None" using Cons.prems by (auto simp: p map_find_None)
  then show ?case using Cons by (auto simp: p split: option.split)
qed simp

lemma sorted_map_put_all: "sorted_map m0 \<Longrightarrow> sorted_map (fold (\<lambda>(k, v). map_put k v) m m0)"
  by (induction m arbitrary: m0) (auto simp: sorted_map_put)

lemma map_find_map: "map_find (map (\<lambda>(k, v). (k, f v)) m) k = map_option f (map_find m k)"
  by (induction m) auto

lemma sorted_map_map: "sorted_map (map (\<lambda>(k, v). (k, f v)) m) = sorted_map m"
  by (simp add: sorted_map_def comp_def split_def)

section \<open>The contract\<close>

locale std_map =
  fixes empty :: 'm
    and find :: "'m \<Rightarrow> 'k \<Rightarrow> 'v option"
    and put :: "'k \<Rightarrow> 'v \<Rightarrow> 'm \<Rightarrow> 'm"
    and erase :: "'k \<Rightarrow> 'm \<Rightarrow> 'm"
    and inv :: "'m \<Rightarrow> bool"
  assumes find_empty: "find empty k = None"
    and find_put: "inv m \<Longrightarrow> find (put k v m) k' = (if k' = k then Some v else find m k')"
    and find_erase: "inv m \<Longrightarrow> find (erase k m) k' = (if k' = k then None else find m k')"
    and inv_empty: "inv empty"
    and inv_put: "inv m \<Longrightarrow> inv (put k v m)"
    and inv_erase: "inv m \<Longrightarrow> inv (erase k m)"
begin

text \<open>Loading a list of entries one after the other: the last one for a key stays.\<close>

lemma find_put_all:
  "inv m \<Longrightarrow> find (fold (\<lambda>(k, v). put k v) kvs m) k' =
     (case map_of (rev kvs) k' of Some v \<Rightarrow> Some v | None \<Rightarrow> find m k')"
  by (induction kvs arbitrary: m) (auto simp: find_put inv_put map_add_def split: option.split)

lemma put_erase_same: "inv m \<Longrightarrow> find (erase k (put k v m)) k' = find (erase k m) k'"
  by (simp add: find_put find_erase inv_put)

end

interpretation alist_map: std_map "[]" map_find map_put map_erase sorted_map
  by unfold_locales (simp_all add: sorted_map_put sorted_map_erase)

end
