(* ===== verification/Channel_Mapper.thy ===== *)
theory Channel_Mapper
  imports Stream_Types Json_Text Std_Map
begin

text \<open>
  The channel mapper of \<open>src/packages/aes67-core/NetworkEngine/StreamChannelMapper.cpp\<close>: which stream
  owns which of the 128 device channels. Every public operation takes one mutex for its whole
  body, so an execution is a sequence of operations. The owner table is an array of stream
  identifiers, the null identifier meaning free.

  Channel numbers are 16-bit in the structures; the code adds them as \<open>int\<close>, so sums are \<open>nat\<close>.
  Reading and writing the files of \<open>save\<close> and \<open>load\<close> is not modelled; the text they carry is.
\<close>

section \<open>Mappings\<close>

record channel_route =
  streamChannel :: u16
  deviceChannel :: u16

record channel_mapping =
  streamID :: stream_id
  streamName :: string
  streamChannelCount :: u16
  streamChannelOffset :: u16
  deviceChannelStart :: u16
  deviceChannelCount :: u16
  routes :: "channel_route list"

definition kMaxDeviceChannels :: nat where "kMaxDeviceChannels = 128"

definition kMaxChannelsPerFlow :: nat where "kMaxChannelsPerFlow = 64"

definition getDeviceChannelEnd :: "channel_mapping \<Rightarrow> u32" where
  "getDeviceChannelEnd m = ucast (deviceChannelStart m) + ucast (deviceChannelCount m)"

text \<open>The loop over the routes, with the channels taken so far.\<close>

fun route_error :: "u16 \<Rightarrow> nat set \<Rightarrow> channel_route list \<Rightarrow> string" where
  "route_error n taken [] = ''''"
| "route_error n taken (route # rs) =
     (if streamChannel route \<ge> n
      then ''A route names stream channel '' @ decimal (unat (streamChannel route)) @
           '', and the stream has '' @ decimal (unat n)
      else if unat (deviceChannel route) \<ge> kMaxDeviceChannels
      then ''A route names device channel '' @ decimal (unat (deviceChannel route)) @
           '', and the device has '' @ decimal kMaxDeviceChannels
      else if unat (deviceChannel route) \<in> taken
      then ''Two routes land on device channel '' @ decimal (unat (deviceChannel route))
      else route_error n (insert (unat (deviceChannel route)) taken) rs)"

definition getValidationError :: "channel_mapping \<Rightarrow> string" where
  "getValidationError m =
     (if id_isNull (streamID m) then ''Stream ID is null''
      else if streamChannelCount m = 0 then ''Stream channel count must be non-zero''
      else if deviceChannelCount m = 0 then ''Device channel count must be non-zero''
      else if unat (deviceChannelStart m) \<ge> kMaxDeviceChannels then ''Device channel start out of range (0-127)''
      else if unat (deviceChannelStart m) + unat (deviceChannelCount m) > kMaxDeviceChannels
      then ''Device channel range exceeds maximum (128 channels)''
      else route_error (streamChannelCount m) {} (routes m))"

definition cm_isValid :: "channel_mapping \<Rightarrow> bool" where
  "cm_isValid m \<longleftrightarrow> getValidationError m = []"

definition mappingFitsDevice :: "channel_mapping \<Rightarrow> u16 \<Rightarrow> bool" where
  "mappingFitsDevice m n \<longleftrightarrow>
     (if routes m = [] then unat (deviceChannelStart m) + unat n \<le> kMaxDeviceChannels
      else list_all (\<lambda>r. \<not> unat (deviceChannel r) \<ge> kMaxDeviceChannels \<and> \<not> streamChannel r \<ge> n) (routes m))"

definition deviceChannels :: "channel_mapping \<Rightarrow> nat list" where
  "deviceChannels m = (if routes m = []
     then map (\<lambda>i. unat (deviceChannelStart m) + i) [0..<unat (deviceChannelCount m)]
     else map (\<lambda>r. unat (deviceChannel r)) (routes m))"

definition containsDeviceChannel :: "channel_mapping \<Rightarrow> int \<Rightarrow> bool" where
  "containsDeviceChannel m deviceCh = (if routes m = []
     then int (unat (deviceChannelStart m)) \<le> deviceCh \<and>
          deviceCh < int (unat (deviceChannelStart m) + unat (deviceChannelCount m))
     else list_ex (\<lambda>r. int (unat (deviceChannel r)) = deviceCh) (routes m))"

section \<open>The mapper\<close>

record mapper =
  mappings :: "(stream_id, channel_mapping) stdmap"
  owners :: "stream_id list"
  usableChannelCount :: nat

definition StreamChannelMapper :: mapper where
  "StreamChannelMapper = \<lparr>mappings = [], owners = replicate kMaxDeviceChannels StreamID_null,
     usableChannelCount = kMaxDeviceChannels\<rparr>"

definition updateDeviceChannelOwners :: "channel_mapping \<Rightarrow> mapper \<Rightarrow> mapper" where
  "updateDeviceChannelOwners m mp = mp\<lparr>owners :=
     fold (\<lambda>ch os. if ch < kMaxDeviceChannels then os[ch := streamID m] else os)
       (deviceChannels m) (owners mp)\<rparr>"

definition clearDeviceChannelOwners :: "stream_id \<Rightarrow> mapper \<Rightarrow> mapper" where
  "clearDeviceChannelOwners i mp =
     mp\<lparr>owners := map (\<lambda>x. if x = i then StreamID_null else x) (owners mp)\<rparr>"

definition isOverlapWithStream :: "channel_mapping \<Rightarrow> stream_id \<Rightarrow> mapper \<Rightarrow> bool" where
  "isOverlapWithStream m excl mp \<longleftrightarrow>
     list_ex (\<lambda>ch. ch < kMaxDeviceChannels \<and> \<not> id_isNull (owners mp ! ch) \<and> owners mp ! ch \<noteq> excl)
       (deviceChannels m)"

definition validateMapping :: "channel_mapping \<Rightarrow> bool" where
  "validateMapping m \<longleftrightarrow> getValidationError m = []"

definition put_mapping :: "channel_mapping \<Rightarrow> mapper \<Rightarrow> mapper" where
  "put_mapping m mp = updateDeviceChannelOwners m (mp\<lparr>mappings := map_put (streamID m) m (mappings mp)\<rparr>)"

definition addMapping :: "channel_mapping \<Rightarrow> mapper \<Rightarrow> mapper \<times> bool" where
  "addMapping m mp =
     (if \<not> validateMapping m then (mp, False)
      else if isOverlapWithStream m StreamID_null mp then (mp, False)
      else (put_mapping m mp, True))"

definition removeMapping :: "stream_id \<Rightarrow> mapper \<Rightarrow> mapper \<times> bool" where
  "removeMapping i mp = (case map_find (mappings mp) i of
       None \<Rightarrow> (mp, False)
     | Some m \<Rightarrow> ((clearDeviceChannelOwners i mp)\<lparr>mappings := map_erase i (mappings mp)\<rparr>, True))"

definition updateMapping :: "channel_mapping \<Rightarrow> mapper \<Rightarrow> mapper \<times> bool" where
  "updateMapping m mp =
     (if \<not> validateMapping m then (mp, False)
      else if isOverlapWithStream m (streamID m) mp then (mp, False)
      else (put_mapping m (clearDeviceChannelOwners (streamID m) mp), True))"

definition getMapping :: "stream_id \<Rightarrow> mapper \<Rightarrow> channel_mapping option" where
  "getMapping i mp = map_find (mappings mp) i"

definition getAllMappings :: "mapper \<Rightarrow> channel_mapping list" where
  "getAllMappings mp = map snd (mappings mp)"

definition clearAll :: "mapper \<Rightarrow> mapper" where
  "clearAll mp = mp\<lparr>mappings := [], owners := replicate kMaxDeviceChannels StreamID_null\<rparr>"

definition setUsableChannelCount :: "nat \<Rightarrow> mapper \<Rightarrow> mapper" where
  "setUsableChannelCount count mp = mp\<lparr>usableChannelCount := min count kMaxDeviceChannels\<rparr>"

definition getUsableChannelCount :: "mapper \<Rightarrow> nat" where
  "getUsableChannelCount mp = usableChannelCount mp"

definition hasOverlap :: "channel_mapping \<Rightarrow> mapper \<Rightarrow> bool" where
  "hasOverlap m mp \<longleftrightarrow> isOverlapWithStream m (streamID m) mp"

text \<open>\<open>None\<close> is the index past the array that the code does not check for.\<close>

fun overlap_scan :: "stream_id list \<Rightarrow> stream_id \<Rightarrow> nat list \<Rightarrow> stream_id list \<Rightarrow> stream_id list option" where
  "overlap_scan os self [] acc = Some acc"
| "overlap_scan os self (ch # chs) acc =
     (if ch \<ge> length os then None
      else (let ow = os ! ch in
        overlap_scan os self chs
          (if \<not> id_isNull ow \<and> ow \<noteq> self \<and> ow \<notin> set acc then acc @ [ow] else acc)))"

definition getOverlappingStreams :: "channel_mapping \<Rightarrow> mapper \<Rightarrow> stream_id list option" where
  "getOverlappingStreams m mp = overlap_scan (owners mp) (streamID m)
     (map (\<lambda>i. unat (deviceChannelStart m) + i) [0..<unat (deviceChannelCount m)]) []"

definition getStreamForDeviceChannel :: "int \<Rightarrow> mapper \<Rightarrow> stream_id option" where
  "getStreamForDeviceChannel ch mp =
     (if ch < 0 \<or> ch \<ge> int kMaxDeviceChannels then None
      else if id_isNull (owners mp ! nat ch) then None else Some (owners mp ! nat ch))"

definition getUnassignedDeviceChannels :: "mapper \<Rightarrow> nat list" where
  "getUnassignedDeviceChannels mp = filter (\<lambda>i. id_isNull (owners mp ! i)) [0..<kMaxDeviceChannels]"

definition getAvailableChannelCount :: "mapper \<Rightarrow> nat" where
  "getAvailableChannelCount mp = length (getUnassignedDeviceChannels mp)"

definition getUsedChannelCount :: "mapper \<Rightarrow> nat" where
  "getUsedChannelCount mp = kMaxDeviceChannels - getAvailableChannelCount mp"

definition isChannelAssigned :: "int \<Rightarrow> mapper \<Rightarrow> bool" where
  "isChannelAssigned ch mp \<longleftrightarrow>
     \<not> (ch < 0 \<or> ch \<ge> int kMaxDeviceChannels) \<and> \<not> id_isNull (owners mp ! nat ch)"

text \<open>The loop of \<open>findContiguousBlock\<close>: the channels still to look at, the count and the start so far.\<close>

fun find_block :: "nat \<Rightarrow> stream_id list \<Rightarrow> nat list \<Rightarrow> nat \<Rightarrow> nat option \<Rightarrow> nat option" where
  "find_block n os [] count start = None"
| "find_block n os (i # is) count start =
     (if id_isNull (os ! i)
      then (let start' = (case start of None \<Rightarrow> i | Some s \<Rightarrow> s) in
            if count + 1 \<ge> n then Some start' else find_block n os is (count + 1) (Some start'))
      else find_block n os is 0 None)"

definition findContiguousBlock :: "nat \<Rightarrow> mapper \<Rightarrow> nat option" where
  "findContiguousBlock n mp = find_block n (owners mp) [0..<usableChannelCount mp] 0 None"

definition createDefaultMapping :: "stream_id \<Rightarrow> string \<Rightarrow> u16 \<Rightarrow> mapper \<Rightarrow> channel_mapping option" where
  "createDefaultMapping i name numChannels mp = (case findContiguousBlock (unat numChannels) mp of
       None \<Rightarrow> None
     | Some start \<Rightarrow> Some \<lparr>streamID = i, streamName = name, streamChannelCount = numChannels,
         streamChannelOffset = 0, deviceChannelStart = of_nat start, deviceChannelCount = numChannels,
         routes = []\<rparr>)"

section \<open>What a valid mapping is\<close>

lemma route_error_ok:
  assumes "route_error n taken rs = []"
  shows "(\<forall>r\<in>set rs. streamChannel r < n \<and> unat (deviceChannel r) < kMaxDeviceChannels \<and>
      unat (deviceChannel r) \<notin> taken) \<and> distinct (map (\<lambda>r. unat (deviceChannel r)) rs)"
  using assms by (induction rs arbitrary: taken) (fastforce split: if_splits)+

lemma valid_mapping:
  assumes "validateMapping m"
  shows "\<not> id_isNull (streamID m)" "\<And>ch. ch \<in> set (deviceChannels m) \<Longrightarrow> ch < kMaxDeviceChannels"
    "distinct (deviceChannels m)" "deviceChannels m \<noteq> []"
proof -
  have v: "\<not> id_isNull (streamID m)" "deviceChannelCount m \<noteq> 0"
    "unat (deviceChannelStart m) + unat (deviceChannelCount m) \<le> kMaxDeviceChannels"
    "route_error (streamChannelCount m) {} (routes m) = []"
    using assms by (auto simp: validateMapping_def getValidationError_def split: if_splits)
  show "\<not> id_isNull (streamID m)" by (rule v(1))
  show "ch < kMaxDeviceChannels" if "ch \<in> set (deviceChannels m)" for ch
    using that v(3) route_error_ok [OF v(4)] by (auto simp: deviceChannels_def split: if_splits)
  show "distinct (deviceChannels m)"
    using route_error_ok [OF v(4)] by (auto simp: deviceChannels_def distinct_map inj_on_def)
  show "deviceChannels m \<noteq> []" using v(2) by (auto simp: deviceChannels_def unat_eq_zero)
qed

lemma containsDeviceChannel_iff:
  "containsDeviceChannel m (int ch) \<longleftrightarrow> ch \<in> set (deviceChannels m)"
proof (cases "routes m = []")
  case True
  show ?thesis
  proof
    assume "containsDeviceChannel m (int ch)"
    then have "ch - unat (deviceChannelStart m) < unat (deviceChannelCount m)"
      "ch = unat (deviceChannelStart m) + (ch - unat (deviceChannelStart m))"
      using True by (auto simp: containsDeviceChannel_def simp del: of_nat_unat)
    then show "ch \<in> set (deviceChannels m)" using True by (auto simp: deviceChannels_def)
  qed (use True in \<open>auto simp: deviceChannels_def containsDeviceChannel_def simp del: of_nat_unat\<close>)
next
  case False
  then show ?thesis
    by (auto simp: deviceChannels_def containsDeviceChannel_def list_ex_iff simp del: of_nat_unat)
qed

section \<open>The invariant\<close>

text \<open>
  Every mapped channel is owned by the stream that maps it. \<open>mapper_exact\<close> adds the converse: every
  owned channel is one its owner's mapping uses.
\<close>

definition mapper_inv :: "mapper \<Rightarrow> bool" where
  "mapper_inv mp \<longleftrightarrow> length (owners mp) = kMaxDeviceChannels \<and> usableChannelCount mp \<le> kMaxDeviceChannels \<and>
     sorted_map (mappings mp) \<and> (\<forall>i\<in>set (owners mp). valid_id i) \<and>
     (\<forall>i m. map_find (mappings mp) i = Some m \<longrightarrow> streamID m = i \<and> validateMapping m \<and>
        (\<forall>ch\<in>set (deviceChannels m). owners mp ! ch = i))"

definition mapper_exact :: "mapper \<Rightarrow> bool" where
  "mapper_exact mp \<longleftrightarrow> mapper_inv mp \<and>
     (\<forall>ch<kMaxDeviceChannels. \<not> id_isNull (owners mp ! ch) \<longrightarrow>
        (\<exists>m. map_find (mappings mp) (owners mp ! ch) = Some m \<and> ch \<in> set (deviceChannels m)))"

declare mapper_inv_def [inv_defs] mapper_exact_def [inv_defs]

lemma valid_null [simp]: "valid_id StreamID_null" "id_isNull StreamID_null"
  by (simp_all add: valid_id_def StreamID_null_def id_isNull_def list_all_iff)

lemma length_owner_fold [simp]:
  "length (fold (\<lambda>ch os. if ch < kMaxDeviceChannels then os[ch := i] else os) chs os) = length os"
  by (induction chs arbitrary: os) auto

lemma owner_fold:
  assumes "length os = kMaxDeviceChannels" "c < kMaxDeviceChannels"
  shows "fold (\<lambda>ch os. if ch < kMaxDeviceChannels then os[ch := i] else os) chs os ! c =
    (if c \<in> set chs then i else os ! c)"
  using assms(1)
proof (induction chs arbitrary: os)
  case (Cons ch chs)
  have "length (if ch < kMaxDeviceChannels then os[ch := i] else os) = kMaxDeviceChannels" using Cons.prems by simp
  from Cons.IH [OF this] show ?case using Cons.prems assms(2) by (auto simp: nth_list_update)
qed simp

lemma owners_put:
  assumes "length (owners mp) = kMaxDeviceChannels" "ch < kMaxDeviceChannels"
  shows "owners (put_mapping m mp) ! ch = (if ch \<in> set (deviceChannels m) then streamID m else owners mp ! ch)"
  using owner_fold [OF assms] by (simp add: put_mapping_def updateDeviceChannelOwners_def)

lemma put_fields [simp]:
  "length (owners (put_mapping m mp)) = length (owners mp)"
  "mappings (put_mapping m mp) = map_put (streamID m) m (mappings mp)"
  "usableChannelCount (put_mapping m mp) = usableChannelCount mp"
  by (simp_all add: put_mapping_def updateDeviceChannelOwners_def)

lemma clear_fields [simp]:
  "length (owners (clearDeviceChannelOwners i mp)) = length (owners mp)"
  "mappings (clearDeviceChannelOwners i mp) = mappings mp"
  "usableChannelCount (clearDeviceChannelOwners i mp) = usableChannelCount mp"
  by (simp_all add: clearDeviceChannelOwners_def)

lemma owners_clear:
  "ch < length (owners mp) \<Longrightarrow>
   owners (clearDeviceChannelOwners i mp) ! ch = (if owners mp ! ch = i then StreamID_null else owners mp ! ch)"
  by (simp add: clearDeviceChannelOwners_def)

lemma mapper_invD:
  assumes "mapper_inv mp"
  shows "length (owners mp) = kMaxDeviceChannels" "sorted_map (mappings mp)"
    "\<And>ch. ch < kMaxDeviceChannels \<Longrightarrow> valid_id (owners mp ! ch)"
    "\<And>i m. map_find (mappings mp) i = Some m \<Longrightarrow> streamID m = i \<and> validateMapping m"
    "\<And>i m ch. map_find (mappings mp) i = Some m \<Longrightarrow> ch \<in> set (deviceChannels m) \<Longrightarrow>
       owners mp ! ch = i \<and> ch < kMaxDeviceChannels"
proof -
  show "length (owners mp) = kMaxDeviceChannels" "sorted_map (mappings mp)"
    "\<And>ch. ch < kMaxDeviceChannels \<Longrightarrow> valid_id (owners mp ! ch)"
    and v: "\<And>i m. map_find (mappings mp) i = Some m \<Longrightarrow> streamID m = i \<and> validateMapping m"
    using assms by (auto simp: mapper_inv_def)
  show "owners mp ! ch = i \<and> ch < kMaxDeviceChannels"
    if "map_find (mappings mp) i = Some m" "ch \<in> set (deviceChannels m)" for i m ch
    using assms that v [OF that(1)] valid_mapping(2) [of m ch] by (auto simp: mapper_inv_def)
qed

text \<open>
  Installing a valid mapping whose channels no other stream uses keeps the invariant. Both \<open>addMapping\<close>
  and \<open>updateMapping\<close> end this way.
\<close>

lemma put_mapping_inv:
  assumes inv: "mapper_inv mp" and v: "validateMapping m" "valid_id (streamID m)"
    and free: "\<And>ch. ch \<in> set (deviceChannels m) \<Longrightarrow> id_isNull (owners mp ! ch) \<or> owners mp ! ch = streamID m"
  shows "mapper_inv (put_mapping m mp)"
proof -
  note D = mapper_invD [OF inv]
  have ow: "owners (put_mapping m mp) ! ch = j"
    if "map_find (map_put (streamID m) m (mappings mp)) j = Some m'" "ch \<in> set (deviceChannels m')" for j m' ch
  proof (cases "j = streamID m")
    case True
    then show ?thesis using that owners_put [OF D(1)] valid_mapping(2) [OF v(1)] by auto
  next
    case False
    then have j: "map_find (mappings mp) j = Some m'" using that(1) by simp
    then have "owners mp ! ch = j" "ch < kMaxDeviceChannels" using D(5) that(2) by auto
    moreover have "\<not> id_isNull j" using D(4) [OF j] valid_mapping(1) by auto
    ultimately show ?thesis using owners_put [OF D(1)] free False by auto
  qed
  have "valid_id i" if "i \<in> set (owners (put_mapping m mp))" for i
    using that D(1,3) v(2) owners_put [OF D(1)] by (auto simp: in_set_conv_nth)
  then show ?thesis
    using inv ow v D(4) by (auto simp: mapper_inv_def sorted_map_put split: if_splits)
qed

lemma put_mapping_exact:
  assumes inv: "mapper_exact mp" and v: "validateMapping m" "valid_id (streamID m)"
    and free: "\<And>ch. ch \<in> set (deviceChannels m) \<Longrightarrow> id_isNull (owners mp ! ch)"
    and none: "\<And>ch. ch < kMaxDeviceChannels \<Longrightarrow> owners mp ! ch \<noteq> streamID m"
  shows "mapper_exact (put_mapping m mp)"
proof -
  have i: "mapper_inv mp" using inv by (simp add: mapper_exact_def)
  note D = mapper_invD [OF i]
  show ?thesis
    using inv put_mapping_inv [OF i v] free none owners_put [OF D(1), of _ m]
    by (auto simp: mapper_exact_def)
qed

abbreviation drop_stream :: "stream_id \<Rightarrow> mapper \<Rightarrow> mapper" where
  "drop_stream i mp \<equiv> (clearDeviceChannelOwners i mp)\<lparr>mappings := map_erase i (mappings mp)\<rparr>"

lemma drop_stream_inv:
  assumes inv: "mapper_inv mp"
  shows "mapper_inv (drop_stream i mp)"
proof -
  note D = mapper_invD [OF inv]
  have "j \<noteq> i \<longrightarrow> map_find (mappings mp) j = Some m \<longrightarrow> (\<forall>ch\<in>set (deviceChannels m).
      owners (clearDeviceChannelOwners i mp) ! ch = j)" for j m
    using D(1,5) by (auto simp: owners_clear)
  moreover have "valid_id k" if "k \<in> set (owners (clearDeviceChannelOwners i mp))" for k
    using that D(1,3) by (auto simp: in_set_conv_nth owners_clear)
  ultimately show ?thesis
    using inv by (auto simp: mapper_inv_def sorted_map_erase split: if_splits)
qed

lemma drop_stream_exact:
  assumes "mapper_exact mp"
  shows "mapper_exact (drop_stream i mp)"
proof -
  have inv: "mapper_inv mp" using assms by (simp add: mapper_exact_def)
  show ?thesis
    using assms drop_stream_inv [OF inv] mapper_invD(1) [OF inv]
    by (auto simp: mapper_exact_def owners_clear split: if_splits)
qed

text \<open>\<open>updateMapping\<close> is dropping the stream and installing the new mapping.\<close>

lemma put_after_clear:
  assumes "sorted_map (mappings mp)"
  shows "put_mapping m (clearDeviceChannelOwners (streamID m) mp) = put_mapping m (drop_stream (streamID m) mp)"
  using assms by (simp add: put_mapping_def updateDeviceChannelOwners_def map_put_erase)

lemma no_overlap:
  assumes "\<not> isOverlapWithStream m excl mp" "validateMapping m" "ch \<in> set (deviceChannels m)"
  shows "id_isNull (owners mp ! ch) \<or> owners mp ! ch = excl"
  using assms valid_mapping(2) by (auto simp: isOverlapWithStream_def list_ex_iff)

section \<open>Sequences of operations\<close>

datatype mapper_op =
    AddMapping channel_mapping
  | RemoveMapping stream_id
  | UpdateMapping channel_mapping
  | ClearAll
  | SetUsable nat

fun mapper_apply :: "mapper_op \<Rightarrow> mapper \<Rightarrow> mapper" where
  "mapper_apply (AddMapping m) mp = fst (addMapping m mp)"
| "mapper_apply (RemoveMapping i) mp = fst (removeMapping i mp)"
| "mapper_apply (UpdateMapping m) mp = fst (updateMapping m mp)"
| "mapper_apply ClearAll mp = clearAll mp"
| "mapper_apply (SetUsable n) mp = setUsableChannelCount n mp"

text \<open>What the type of the argument promises: an identifier has its 16 bytes.\<close>

fun op_typed :: "mapper_op \<Rightarrow> bool" where
  "op_typed (AddMapping m) = valid_id (streamID m)"
| "op_typed (UpdateMapping m) = valid_id (streamID m)"
| "op_typed _ = True"

lemma addMapping_inv:
  assumes "mapper_inv mp" "valid_id (streamID m)"
  shows "mapper_inv (fst (addMapping m mp))"
proof -
  have "mapper_inv (put_mapping m mp)" if "validateMapping m" "\<not> isOverlapWithStream m StreamID_null mp"
    using put_mapping_inv [OF assms(1) that(1) assms(2)] no_overlap [OF that(2,1)] by force
  then show ?thesis using assms(1) by (simp add: addMapping_def)
qed

lemma updateMapping_inv:
  assumes "mapper_inv mp" "valid_id (streamID m)"
  shows "mapper_inv (fst (updateMapping m mp))"
proof -
  have "mapper_inv (put_mapping m (drop_stream (streamID m) mp))"
    if "validateMapping m" "\<not> isOverlapWithStream m (streamID m) mp"
  proof (rule put_mapping_inv [OF drop_stream_inv [OF assms(1)] that(1) assms(2)])
    fix ch assume ch: "ch \<in> set (deviceChannels m)"
    then have "ch < length (owners mp)" using valid_mapping(2) [OF that(1)] mapper_invD(1) [OF assms(1)] by simp
    then show "id_isNull (owners (drop_stream (streamID m) mp) ! ch) \<or> owners (drop_stream (streamID m) mp) ! ch = streamID m"
      using no_overlap [OF that(2,1) ch] by (auto simp: owners_clear)
  qed
  then show ?thesis
    using assms(1) put_after_clear [OF mapper_invD(2) [OF assms(1)]] by (simp add: updateMapping_def)
qed

lemma removeMapping_inv: "mapper_inv mp \<Longrightarrow> mapper_inv (fst (removeMapping i mp))"
  using drop_stream_inv by (simp add: removeMapping_def split: option.split)

lemma clearAll_inv: "mapper_inv mp \<Longrightarrow> mapper_inv (clearAll mp)"
  by (simp add: mapper_inv_def clearAll_def)

lemma setUsable_inv: "mapper_inv mp \<Longrightarrow> mapper_inv (setUsableChannelCount n mp)"
  by (simp add: mapper_inv_def setUsableChannelCount_def)

lemma mapper_apply_inv: "op_typed op \<Longrightarrow> mapper_inv mp \<Longrightarrow> mapper_inv (mapper_apply op mp)"
  by (cases op) (simp_all add: addMapping_inv updateMapping_inv removeMapping_inv clearAll_inv setUsable_inv)

lemma mapper_inv_init: "mapper_inv StreamChannelMapper"
  by (simp add: mapper_inv_def StreamChannelMapper_def)

text \<open>The device channels a stream has.\<close>

definition channels_of :: "mapper \<Rightarrow> stream_id \<Rightarrow> nat set" where
  "channels_of mp i = (case getMapping i mp of None \<Rightarrow> {} | Some m \<Rightarrow> set (deviceChannels m))"

lemma channels_disjoint:
  assumes "mapper_inv mp" "i \<noteq> j"
  shows "channels_of mp i \<inter> channels_of mp j = {}"
proof -
  have "owners mp ! ch = k" if "ch \<in> channels_of mp k" for ch k
    using that mapper_invD(5) [OF assms(1)] by (auto simp: channels_of_def getMapping_def split: option.splits)
  then show ?thesis using assms(2) by blast
qed

text \<open>
  The contract of a table that hands out channels: whatever is asked of it, no channel belongs to
  two holders.
\<close>

locale exclusive_table =
  fixes init :: 's
    and step :: "'op \<Rightarrow> 's \<Rightarrow> 's"
    and typed :: "'op \<Rightarrow> bool"
    and inv :: "'s \<Rightarrow> bool"
    and holds :: "'s \<Rightarrow> 'k \<Rightarrow> nat set"
  assumes init_inv: "inv init"
    and step_inv: "typed op \<Longrightarrow> inv s \<Longrightarrow> inv (step op s)"
    and inv_disjoint: "inv s \<Longrightarrow> k \<noteq> k' \<Longrightarrow> holds s k \<inter> holds s k' = {}"
begin

lemma run_inv: "list_all typed ops \<Longrightarrow> inv s \<Longrightarrow> inv (fold step ops s)"
  by (induction ops arbitrary: s) (auto simp: step_inv)

lemma run_exclusive: "list_all typed ops \<Longrightarrow> k \<noteq> k' \<Longrightarrow> c \<in> holds (fold step ops init) k \<Longrightarrow> c \<notin> holds (fold step ops init) k'"
  using inv_disjoint [OF run_inv [OF _ init_inv]] by blast

end

interpretation mapper_table: exclusive_table StreamChannelMapper mapper_apply op_typed mapper_inv channels_of
  by unfold_locales (simp_all add: mapper_inv_init mapper_apply_inv channels_disjoint)

section \<open>Finding a block\<close>

definition free_block :: "stream_id list \<Rightarrow> nat \<Rightarrow> nat \<Rightarrow> bool" where
  "free_block os n s \<longleftrightarrow> (\<forall>k. s \<le> k \<and> k < s + n \<longrightarrow> id_isNull (os ! k))"

text \<open>
  Where the loop stands at channel \<open>i\<close>: the last \<open>count\<close> channels are free, the one before them is
  not, fewer than \<open>n\<close> are free so far and no block ended earlier.
\<close>

definition scanning :: "nat \<Rightarrow> stream_id list \<Rightarrow> nat \<Rightarrow> nat \<Rightarrow> nat option \<Rightarrow> bool" where
  "scanning n os i count start \<longleftrightarrow> count < n \<and> count \<le> i \<and> free_block os count (i - count) \<and>
     start = (if count = 0 then None else Some (i - count)) \<and>
     (i - count = 0 \<or> \<not> id_isNull (os ! (i - count - 1))) \<and> (\<forall>s. s + n \<le> i \<longrightarrow> \<not> free_block os n s)"

lemma scanning_no_block:
  assumes "scanning n os i count start" "s < i - count"
  shows "\<not> (s + n > i - count - 1 \<and> free_block os n s)"
  using assms by (auto simp: scanning_def free_block_def)

lemma find_block_spec:
  assumes "scanning n os i count start" "i \<le> u"
  shows "case find_block n os [i..<u] count start of
      None \<Rightarrow> (\<forall>s. s + n \<le> u \<longrightarrow> \<not> free_block os n s)
    | Some s \<Rightarrow> s + n \<le> u \<and> free_block os n s \<and> (\<forall>r. r < s \<longrightarrow> \<not> free_block os n r)"
  using assms
proof (induction "u - i" arbitrary: i count start)
  case 0
  then show ?case by (simp add: scanning_def)
next
  case (Suc d)
  then have iu: "i < u" "d = u - Suc i" by auto
  note S = Suc.prems(1) [unfolded scanning_def]
  have up: "[i..<u] = i # [Suc i..<u]" using iu(1) by (rule upt_conv_Cons)
  have early: "\<not> free_block os n s" if "s < i - count" for s
    using S scanning_no_block [OF Suc.prems(1) that] that by (cases "s + n \<le> i") auto
  show ?case
  proof (cases "id_isNull (os ! i)")
    case free: True
    have fb: "free_block os (Suc count) (i - count)"
      using S free by (auto simp: free_block_def less_Suc_eq)
    have st: "(case start of None \<Rightarrow> i | Some s \<Rightarrow> s) = i - count" using S by simp
    show ?thesis
    proof (cases "count + 1 \<ge> n")
      case True
      then have n: "n = Suc count" using S by simp
      then have "find_block n os [i..<u] count start = Some (i - count)" using free st by (simp add: up)
      moreover have "i - count + n \<le> u" using n iu(1) S by simp
      ultimately show ?thesis using fb early n by simp
    next
      case False
      have none: "\<not> free_block os n s" if "s + n \<le> Suc i" for s
        using early [of s] that False by (cases "s < i - count") auto
      have "scanning n os (Suc i) (Suc count) (Some (i - count))"
        using S False fb none by (auto simp: scanning_def)
      then show ?thesis
        using Suc.hyps(1) [OF iu(2)] iu(1) False free st by (simp add: up)
    qed
  next
    case False
    have none: "\<not> free_block os n s" if "s + n \<le> Suc i" for s
    proof (cases "s + n \<le> i")
      case True
      then show ?thesis using S by blast
    next
      case f: False
      then have "s \<le> i" "i < s + n" using that S by auto
      then show ?thesis using False by (auto simp: free_block_def)
    qed
    have "scanning n os (Suc i) 0 None"
      using S False none by (auto simp: scanning_def free_block_def)
    then show ?thesis using Suc.hyps(1) [OF iu(2)] iu(1) False by (simp add: up)
  qed
qed

lemma findContiguousBlock_spec:
  assumes "0 < n"
  shows "case findContiguousBlock n mp of
      None \<Rightarrow> (\<forall>s. s + n \<le> usableChannelCount mp \<longrightarrow> \<not> free_block (owners mp) n s)
    | Some s \<Rightarrow> s + n \<le> usableChannelCount mp \<and> free_block (owners mp) n s \<and>
        (\<forall>r. r < s \<longrightarrow> \<not> free_block (owners mp) n r)"
  unfolding findContiguousBlock_def
  by (rule find_block_spec) (use assms in \<open>auto simp: scanning_def free_block_def\<close>)

lemma addMapping_exact:
  assumes "mapper_exact mp" "valid_id (streamID m)" "getMapping (streamID m) mp = None"
  shows "mapper_exact (fst (addMapping m mp))"
proof -
  have "mapper_exact (put_mapping m mp)" if v: "validateMapping m" "\<not> isOverlapWithStream m StreamID_null mp"
  proof (rule put_mapping_exact [OF assms(1) v(1) assms(2)])
    show "id_isNull (owners mp ! ch)" if "ch \<in> set (deviceChannels m)" for ch
      using no_overlap [OF v(2,1) that] by auto
    show "owners mp ! ch \<noteq> streamID m" if "ch < kMaxDeviceChannels" for ch
      using assms(1,3) valid_mapping(1) [OF v(1)] that by (auto simp: mapper_exact_def getMapping_def)
  qed
  then show ?thesis using assms(1) by (simp add: addMapping_def)
qed

lemma removeMapping_exact: "mapper_exact mp \<Longrightarrow> mapper_exact (fst (removeMapping i mp))"
  using drop_stream_exact by (simp add: removeMapping_def split: option.split)

lemma mapper_exact_init: "mapper_exact StreamChannelMapper"
  using mapper_inv_init by (simp add: mapper_exact_def StreamChannelMapper_def)

lemma assigned_iff:
  assumes "mapper_exact mp" "ch < kMaxDeviceChannels"
  shows "isChannelAssigned (int ch) mp \<longleftrightarrow> (\<exists>j. ch \<in> channels_of mp j)"
proof -
  have "mapper_inv mp" using assms(1) by (simp add: mapper_exact_def)
  note D = mapper_invD [OF this]
  have "\<not> id_isNull (owners mp ! ch)" if "map_find (mappings mp) j = Some m'" "ch \<in> set (deviceChannels m')" for j m'
    using D(4,5) [OF that(1)] that(2) valid_mapping(1) [of m'] by auto
  then have "\<not> id_isNull (owners mp ! ch)" if "ch \<in> channels_of mp j" for j
    using that by (auto simp: channels_of_def getMapping_def split: option.splits)
  moreover have "ch \<in> channels_of mp (owners mp ! ch)" if "\<not> id_isNull (owners mp ! ch)"
    using assms that by (auto simp: mapper_exact_def channels_of_def getMapping_def)
  ultimately show ?thesis using assms(2) by (auto simp: isChannelAssigned_def)
qed

lemma default_mapping_fits:
  assumes "mapper_inv mp" "\<not> id_isNull i" "0 < numChannels" "createDefaultMapping i name numChannels mp = Some m"
  shows "validateMapping m" "\<not> isOverlapWithStream m StreamID_null mp"
    "\<forall>ch\<in>set (deviceChannels m). ch < usableChannelCount mp" "length (deviceChannels m) = unat numChannels"
proof -
  have n: "0 < unat numChannels" using assms(3) by (simp add: word_less_nat_alt)
  obtain s where s: "findContiguousBlock (unat numChannels) mp = Some s"
    and m: "m = \<lparr>streamID = i, streamName = name, streamChannelCount = numChannels, streamChannelOffset = 0,
      deviceChannelStart = of_nat s, deviceChannelCount = numChannels, routes = []\<rparr>"
    using assms(4) by (auto simp: createDefaultMapping_def split: option.splits)
  have b: "s + unat numChannels \<le> usableChannelCount mp" "free_block (owners mp) (unat numChannels) s"
    using findContiguousBlock_spec [OF n, of mp] s by auto
  have u: "usableChannelCount mp \<le> 128" using assms(1) by (simp add: mapper_inv_def kMaxDeviceChannels_def)
  then have st: "unat (of_nat s :: u16) = s" using b(1) by (intro unat_of_nat_small) simp
  have dc: "deviceChannels m = map (\<lambda>k. s + k) [0..<unat numChannels]" by (simp add: m deviceChannels_def st)
  show "validateMapping m"
    using assms(2) n b(1) u by (auto simp: validateMapping_def getValidationError_def m st kMaxDeviceChannels_def)
  show "\<not> isOverlapWithStream m StreamID_null mp"
    using b(2) by (auto simp: isOverlapWithStream_def dc list_ex_iff free_block_def)
  show "\<forall>ch\<in>set (deviceChannels m). ch < usableChannelCount mp" "length (deviceChannels m) = unat numChannels"
    using b(1) dc by auto
qed

section \<open>Putting mappings back\<close>

text \<open>\<open>add_all\<close> adds mappings one after the other, as loading a file and restoring a grid do.\<close>

definition add_all :: "channel_mapping list \<Rightarrow> mapper \<Rightarrow> mapper" where
  "add_all ms mp = fold (\<lambda>m mp. fst (addMapping m mp)) ms mp"

lemma mapping_id_valid:
  assumes "mapper_inv mp" "map_find (mappings mp) i = Some m"
  shows "valid_id i"
proof -
  note D = mapper_invD [OF assms(1)]
  obtain ch where ch: "ch \<in> set (deviceChannels m)" using D(4) [OF assms(2)] valid_mapping(4) by (metis last_in_set)
  show ?thesis using D(3,5) assms(2) ch by metis
qed

lemma add_next:
  assumes mp: "mapper_inv mp" "mappings mp = es @ (k, m) # es'" and acc: "mapper_exact acc" "mappings acc = es"
  shows "mapper_exact (fst (addMapping m acc)) \<and> mappings (fst (addMapping m acc)) = es @ [(k, m)]"
proof -
  note D = mapper_invD [OF mp(1)]
  have s: "sorted_map (es @ (k, m) # es')" using D(2) mp(2) by simp
  then have lt: "\<forall>k'\<in>fst ` set es. k' < k" by (simp add: sorted_map_append)
  have fk: "map_find (mappings mp) k = Some m" using map_find_iff [OF s, of k m] mp(2) by simp
  then have sid: "streamID m = k" and v: "validateMapping m" using D(4) by auto
  have w: "valid_id (streamID m)" using mapping_id_valid [OF mp(1) fk] sid by simp
  have none: "map_find es k = None" using lt by (auto simp: map_find_None)
  have "\<not> isOverlapWithStream m StreamID_null acc"
  proof
    assume "isOverlapWithStream m StreamID_null acc"
    then obtain ch where ch: "ch \<in> set (deviceChannels m)" "ch < kMaxDeviceChannels" "\<not> id_isNull (owners acc ! ch)"
      by (auto simp: isOverlapWithStream_def list_ex_iff)
    then obtain m' where m': "map_find es (owners acc ! ch) = Some m'" "ch \<in> set (deviceChannels m')"
      using acc by (auto simp: mapper_exact_def)
    then have "map_find (mappings mp) (owners acc ! ch) = Some m'"
      using map_find_in [OF m'(1)] map_find_iff [OF s, of "owners acc ! ch" m'] mp(2) by simp
    then have "owners mp ! ch = owners acc ! ch" "owners mp ! ch = k" using D(5) m'(2) ch(1) fk by blast+
    then show False using none m'(1) by simp
  qed
  then have put: "fst (addMapping m acc) = put_mapping m acc" using v by (simp add: addMapping_def)
  have "mapper_exact (put_mapping m acc)"
  proof (rule put_mapping_exact [OF acc(1) v w])
    show "id_isNull (owners acc ! ch)" if "ch \<in> set (deviceChannels m)" for ch
      using no_overlap [OF \<open>\<not> isOverlapWithStream m StreamID_null acc\<close> v that] by auto
    show "owners acc ! ch \<noteq> streamID m" if "ch < kMaxDeviceChannels" for ch
      using none acc valid_mapping(1) [OF v] that sid by (auto simp: mapper_exact_def)
  qed
  then show ?thesis using put acc(2) lt sid by (simp add: map_put_last)
qed

lemma add_all_mappings:
  assumes "mapper_inv mp" "mappings mp = es @ es'" "mapper_exact acc" "mappings acc = es"
  shows "mapper_exact (add_all (map snd es') acc) \<and> mappings (add_all (map snd es') acc) = mappings mp"
  using assms(2-)
proof (induction es' arbitrary: es acc)
  case (Cons e es')
  obtain k m where e: "e = (k, m)" by force
  have n: "mapper_exact (fst (addMapping m acc)) \<and> mappings (fst (addMapping m acc)) = es @ [(k, m)]"
    using Cons.prems e by (intro add_next [OF assms(1)]) auto
  then show ?case
    using Cons.IH [of "es @ [(k, m)]" "fst (addMapping m acc)"] Cons.prems e by (simp add: add_all_def)
qed (simp add: add_all_def)

lemma clearAll_exact: "mapper_inv mp \<Longrightarrow> mapper_exact (clearAll mp)"
  using clearAll_inv [of mp] by (simp add: mapper_exact_def clearAll_def)

text \<open>The mappings and the usable count determine an exact mapper.\<close>

lemma mapper_ext:
  assumes "mapper_exact mp" "mapper_exact mp'" "mappings mp = mappings mp'" "usableChannelCount mp = usableChannelCount mp'"
  shows "mp = mp'"
proof -
  have inv: "mapper_inv mp" "mapper_inv mp'" using assms by (auto simp: mapper_exact_def)
  note D = mapper_invD [OF inv(1)] and D' = mapper_invD [OF inv(2)]
  have half: "owners b ! ch = owners a ! ch" if "mapper_exact a" "mapper_inv b" "mappings a = mappings b" "ch < kMaxDeviceChannels"
      "\<not> id_isNull (owners a ! ch)" for a b ch
    using that mapper_invD(5) [OF that(2)] by (auto simp: mapper_exact_def)
  have "owners mp ! ch = owners mp' ! ch" if ch: "ch < kMaxDeviceChannels" for ch
  proof (cases "id_isNull (owners mp ! ch) \<and> id_isNull (owners mp' ! ch)")
    case True
    then show ?thesis using id_isNull_iff D(3) D'(3) ch by metis
  next
    case False
    then consider "\<not> id_isNull (owners mp ! ch)" | "\<not> id_isNull (owners mp' ! ch)" by blast
    then show ?thesis
    proof cases
      case 1
      then show ?thesis by (rule half [OF assms(1) inv(2) assms(3) ch, symmetric])
    next
      case 2
      then show ?thesis by (rule half [OF assms(2) inv(1) assms(3) [symmetric] ch])
    qed
  qed
  then have "owners mp = owners mp'" using D(1) D'(1) by (simp add: list_eq_iff_nth_eq)
  then show ?thesis using assms(3,4) by simp
qed

lemma add_all_usable [simp]: "usableChannelCount (add_all ms mp) = usableChannelCount mp"
  by (induction ms arbitrary: mp) (simp_all add: add_all_def addMapping_def)

lemma restore_mappings:
  assumes "mapper_exact mp" "mapper_inv mp'" "usableChannelCount mp' = usableChannelCount mp"
  shows "add_all (getAllMappings mp) (clearAll mp') = mp"
proof -
  have "mapper_inv mp" using assms(1) by (simp add: mapper_exact_def)
  then have "mapper_exact (add_all (getAllMappings mp) (clearAll mp')) \<and> mappings (add_all (getAllMappings mp) (clearAll mp')) = mappings mp"
    using add_all_mappings [of mp "[]" "mappings mp" "clearAll mp'"] clearAll_exact [OF assms(2)]
    by (simp add: clearAll_def getAllMappings_def)
  then show ?thesis using assms by (intro mapper_ext) (simp_all add: clearAll_def)
qed

section \<open>Theorems\<close>

text \<open>
  C14: whatever sequence of additions, removals, updates and resets is applied to a new mapper, with
  whatever mappings, no device channel ever belongs to two streams.
\<close>

theorem mapper_channels_exclusive:
  assumes "list_all op_typed ops" "i \<noteq> j" "ch \<in> channels_of (fold mapper_apply ops StreamChannelMapper) i"
  shows "ch \<notin> channels_of (fold mapper_apply ops StreamChannelMapper) j"
  using assms by (rule mapper_table.run_exclusive)

text \<open>Two streams of two channels each, for the examples.\<close>

definition demo_id :: "nat \<Rightarrow> stream_id" where
  "demo_id k = StreamID (of_nat k # replicate 15 0)"

definition demo_mapping :: "nat \<Rightarrow> u16 \<Rightarrow> channel_mapping" where
  "demo_mapping k start = \<lparr>streamID = demo_id k, streamName = ''demo'', streamChannelCount = 2,
     streamChannelOffset = 0, deviceChannelStart = start, deviceChannelCount = 2, routes = []\<rparr>"

lemmas mapper_eval = addMapping_def validateMapping_def getValidationError_def isOverlapWithStream_def
  put_mapping_def updateDeviceChannelOwners_def deviceChannels_def StreamChannelMapper_def
  kMaxDeviceChannels_def demo_mapping_def demo_id_def StreamID_null_def id_isNull_def
  getMapping_def channels_of_def getStreamForDeviceChannel_def

theorem mapper_channels_exclusive_witness:
  "let mp = fold mapper_apply [AddMapping (demo_mapping 1 0), AddMapping (demo_mapping 2 4)] StreamChannelMapper in
   5 \<in> channels_of mp (demo_id 2) \<and> 5 \<notin> channels_of mp (demo_id 1)"
proof -
  let ?ops = "[AddMapping (demo_mapping 1 0), AddMapping (demo_mapping 2 4)]"
  have t: "list_all op_typed ?ops" by (simp add: demo_mapping_def demo_id_def valid_id_def)
  have n: "demo_id 2 \<noteq> demo_id 1" by (simp add: demo_id_def)
  have m: "5 \<in> channels_of (fold mapper_apply ?ops StreamChannelMapper) (demo_id 2)"
    by code_simp
  show ?thesis using m mapper_channels_exclusive [OF t n m] by (simp add: Let_def)
qed

text \<open>
  C35: as long as a stream is added only while it has no mapping, the owner table and the mappings
  say the same: after every addition, update and removal a channel is reported as assigned
  exactly when the mapping of its owner uses it.
\<close>

theorem mapper_owner_exact:
  assumes "mapper_exact mp" "valid_id (streamID m)"
  shows "(getMapping (streamID m) mp = None \<longrightarrow> mapper_exact (fst (addMapping m mp))) \<and>
    mapper_exact (fst (updateMapping m mp)) \<and> mapper_exact (fst (removeMapping i mp)) \<and>
    (\<forall>ch<kMaxDeviceChannels. isChannelAssigned (int ch) mp \<longleftrightarrow> (\<exists>j. ch \<in> channels_of mp j))"
proof (intro conjI impI)
  have inv: "mapper_inv mp" using assms(1) by (simp add: mapper_exact_def)
  note D = mapper_invD [OF inv]
  show "mapper_exact (fst (addMapping m mp))" if "getMapping (streamID m) mp = None"
    using assms that by (rule addMapping_exact)
  show "mapper_exact (fst (updateMapping m mp))"
  proof -
    have "mapper_exact (put_mapping m (drop_stream (streamID m) mp))"
      if v: "validateMapping m" "\<not> isOverlapWithStream m (streamID m) mp"
    proof (rule put_mapping_exact [OF drop_stream_exact [OF assms(1)] v(1) assms(2)])
      show "id_isNull (owners (drop_stream (streamID m) mp) ! ch)" if "ch \<in> set (deviceChannels m)" for ch
        using no_overlap [OF v(2,1) that] valid_mapping(2) [OF v(1) that] D(1) by (auto simp: owners_clear)
      show "owners (drop_stream (streamID m) mp) ! ch \<noteq> streamID m" if "ch < kMaxDeviceChannels" for ch
        using that D(1) valid_mapping(1) [OF v(1)] by (auto simp: owners_clear)
    qed
    then show ?thesis
      using assms(1) put_after_clear [OF D(2)] by (simp add: updateMapping_def)
  qed
  show "mapper_exact (fst (removeMapping i mp))" using assms(1) by (rule removeMapping_exact)
  show "\<forall>ch<kMaxDeviceChannels. isChannelAssigned (int ch) mp \<longleftrightarrow> (\<exists>j. ch \<in> channels_of mp j)"
    using assigned_iff [OF assms(1)] by blast
qed

theorem mapper_owner_exact_witness:
  "mapper_exact (fst (addMapping (demo_mapping 1 0) StreamChannelMapper)) \<and>
   mapper_exact (fst (updateMapping (demo_mapping 1 0) StreamChannelMapper))"
proof -
  have "valid_id (streamID (demo_mapping 1 0))" by (simp add: demo_mapping_def demo_id_def valid_id_def)
  moreover have "getMapping (streamID (demo_mapping 1 0)) StreamChannelMapper = None"
    by (simp add: getMapping_def StreamChannelMapper_def)
  ultimately show ?thesis using mapper_owner_exact [OF mapper_exact_init] by blast
qed

text \<open>
  adding a stream a second time, at other channels, is accepted and leaves the channels of its
  first mapping owned by it although no mapping uses them: they are reported as assigned, are
  refused to every other stream, and their owner's mapping does not contain them.
\<close>

theorem mapper_second_add_leaks:
  "let mp1 = fst (addMapping (demo_mapping 1 0) StreamChannelMapper);
       (mp2, ok) = addMapping (demo_mapping 1 4) mp1
   in ok \<and> getStreamForDeviceChannel 0 mp2 = Some (demo_id 1) \<and> 0 \<notin> channels_of mp2 (demo_id 1) \<and>
      \<not> snd (addMapping (demo_mapping 2 0) mp2)"
  by code_simp

text \<open>
  \<open>findContiguousBlock\<close> is exact: it returns the first start from which the asked number of
  channels is free within the usable range, and nothing only when there is no such start.
\<close>

theorem find_contiguous_block_exact:
  assumes "0 < n"
  shows "case findContiguousBlock n mp of
      None \<Rightarrow> (\<forall>s. s + n \<le> usableChannelCount mp \<longrightarrow> \<not> free_block (owners mp) n s)
    | Some s \<Rightarrow> s + n \<le> usableChannelCount mp \<and> free_block (owners mp) n s \<and>
        (\<forall>r. r < s \<longrightarrow> \<not> free_block (owners mp) n r)"
  using assms by (rule findContiguousBlock_spec)

theorem find_contiguous_block_exact_witness:
  "findContiguousBlock 2 (fst (addMapping (demo_mapping 1 0) StreamChannelMapper)) = Some 2 \<and>
   free_block (owners (fst (addMapping (demo_mapping 1 0) StreamChannelMapper))) 2 2"
proof -
  have "findContiguousBlock 2 (fst (addMapping (demo_mapping 1 0) StreamChannelMapper)) = Some 2" by code_simp
  then show ?thesis
    using find_contiguous_block_exact [of 2 "fst (addMapping (demo_mapping 1 0) StreamChannelMapper)"] by simp
qed

text \<open>
  the mapping \<open>createDefaultMapping\<close> proposes is accepted by \<open>addMapping\<close>: its block lies in the
  usable range and no stream owns any of it.
\<close>

theorem default_mapping_accepted:
  assumes "mapper_inv mp" "\<not> id_isNull i" "0 < numChannels" "createDefaultMapping i name numChannels mp = Some m"
  shows "snd (addMapping m mp) \<and> streamID m = i \<and>
    (\<forall>ch\<in>set (deviceChannels m). ch < usableChannelCount mp) \<and> length (deviceChannels m) = unat numChannels"
  using default_mapping_fits [OF assms] assms(4)
  by (auto simp: addMapping_def createDefaultMapping_def split: option.splits)

theorem default_mapping_accepted_witness:
  "\<exists>m. createDefaultMapping (demo_id 1) ''a'' 8 StreamChannelMapper = Some m \<and> snd (addMapping m StreamChannelMapper)"
proof -
  have "createDefaultMapping (demo_id 1) ''a'' 8 StreamChannelMapper \<noteq> None" by code_simp
  then obtain m where m: "createDefaultMapping (demo_id 1) ''a'' 8 StreamChannelMapper = Some m" by blast
  have "\<not> id_isNull (demo_id 1)" by (simp add: demo_id_def id_isNull_def)
  then show ?thesis using default_mapping_accepted [OF mapper_inv_init _ _ m] m by auto
qed

end
