(* ===== verification/Json_Fields.thy ===== *)
theory Json_Fields
  imports Json_Text
begin

text \<open>
  Objects as the settings files hold them: one key and its value to a line, separated by commas. A reader finds a key by
  searching the text for it, so a field is read back when no earlier line can be mistaken for it. \<open>inert\<close> values are
  those no key is found in; \<open>fields_lookup\<close> carries the proofs for every file.
\<close>

section \<open>Lines\<close>

definition nl :: string where "nl = [CHR 0x0A]"

fun join_with :: "string \<Rightarrow> string list \<Rightarrow> string" where
  "join_with sep [] = []"
| "join_with sep [x] = x"
| "join_with sep (x # y # zs) = x @ sep @ join_with sep (y # zs)"

definition value_or :: "'a option \<Rightarrow> 'a \<Rightarrow> 'a" where
  "value_or x d = (case x of Some v \<Rightarrow> v | None \<Rightarrow> d)"

lemma value_or_simps [simp]: "value_or (Some v) d = v" "value_or None d = d"
  by (simp_all add: value_or_def)

lemma join_with_Cons: "join_with sep (x # xs) = x @ concat (map ((@) sep) xs)"
proof (induction xs arbitrary: x)
  case (Cons y ys)
  then show ?case by simp
qed simp

definition field_line :: "string \<Rightarrow> string \<Rightarrow> string \<Rightarrow> string" where
  "field_line ind k v = ind @ quoted k @ '': '' @ v"

fun fields_text :: "string \<Rightarrow> (string \<times> string) list \<Rightarrow> string" where
  "fields_text ind [] = []"
| "fields_text ind [(k, v)] = field_line ind k v"
| "fields_text ind ((k, v) # kv # kvs) = field_line ind k v @ '','' @ nl @ fields_text ind (kv # kvs)"

text \<open>What may follow a value: a comma or the end of the line.\<close>

definition ends_value :: "string \<Rightarrow> bool" where
  "ends_value s \<longleftrightarrow> (\<exists>r. s = '','' @ r \<or> s = nl @ r)"

lemma quiet_field:
  assumes "key_word k" "key_word k'" "k' \<noteq> k" "CHR 0x22 \<notin> set ind" "quiet k v ('','' @ r)"
  shows "quiet k (field_line ind k' v) ('','' @ r)"
proof -
  have "quiet k (quoted k') ('': '' @ v @ '','' @ r)"
    using quiet_quoted [OF key_word_quote [OF assms(2)] assms(1), of "CHR '':''"] assms(3)
    by (auto simp: plain_letter_def is_space_def code_def)
  moreover have "quiet k '': '' (v @ '','' @ r)" by (rule quiet_plain) simp
  moreover have "quiet k ind (quoted k' @ '': '' @ v @ '','' @ r)" using assms(4) by (rule quiet_plain)
  ultimately show ?thesis
    using assms(5) quiet_append [of k] unfolding field_line_def by (metis append_assoc)
qed

text \<open>The field is read where it stands, whatever comes after it.\<close>

lemma field_found:
  assumes "key_word k" "CHR 0x22 \<notin> set ind"
    and "\<forall>(k', v')\<in>set before. key_word k' \<and> k' \<noteq> k \<and> (\<forall>r. quiet k v' ('','' @ r))" "\<And>doc. quiet k pre doc"
  shows "\<exists>rest. ends_value rest \<and> (\<forall>vp t. vp (dropWhile is_space (v @ rest)) = Some t \<longrightarrow>
     matchField (pre @ fields_text ind (before @ (k, v) # after) @ nl @ post) k vp = Some t)"
  using assms(3,4)
proof (induction before arbitrary: pre)
  case Nil
  define rest where "rest = (if after = [] then nl @ post else '','' @ nl @ fields_text ind after @ nl @ post)"
  have "fields_text ind ((k, v) # after) @ nl @ post = ind @ quoted k @ '': '' @ v @ rest"
    by (cases after) (simp_all add: field_line_def rest_def)
  moreover have "quiet k (pre @ ind) (quoted k @ '': '' @ v @ rest)"
    by (rule quiet_append [OF Nil(2) quiet_plain]) (rule assms(2))
  moreover have "ends_value rest" by (auto simp: ends_value_def rest_def)
  ultimately show ?case using matchField_quiet [OF assms(1), of "pre @ ind" "v @ rest"] by (intro exI [of _ rest]) auto
next
  case (Cons kv before)
  obtain k' v' where kv: "kv = (k', v')" by force
  have "quiet k (pre @ field_line ind k' v' @ '','' @ nl) doc" for doc
    using Cons.prems kv quiet_field [OF assms(1) _ _ assms(2), of k' v' "nl @ doc"]
    by (intro quiet_append) (auto simp: nl_def intro: quiet_plain)
  moreover have "fields_text ind ((kv # before) @ (k, v) # after) =
      (field_line ind k' v' @ '','' @ nl) @ fields_text ind (before @ (k, v) # after)"
    by (cases before) (simp_all add: kv)
  ultimately show ?case using Cons.IH [of "pre @ field_line ind k' v' @ '','' @ nl"] Cons.prems by simp
qed

section \<open>Values no key is found in\<close>

definition inert :: "string \<Rightarrow> bool" where
  "inert v \<longleftrightarrow> (\<forall>k r. key_word k \<longrightarrow> quiet k v ('','' @ r))"

lemma inert_plain: "CHR 0x22 \<notin> set v \<Longrightarrow> inert v"
  unfolding inert_def by (intro allI impI quiet_plain)

lemma inert_decimal: "inert (decimal n)"
  by (intro inert_plain decimal_no_char) (simp add: is_digit_def code_def)

lemma inert_decimal_int: "inert (decimal_int n)"
  using decimal_no_char [of "CHR 0x22"] by (intro inert_plain) (simp add: decimal_int_def is_digit_def code_def)

lemma inert_quoted: "CHR 0x22 \<notin> set s \<Longrightarrow> inert (quoted s)"
  using quiet_quoted [of s _ "CHR '',''"] by (auto simp: inert_def plain_letter_def is_space_def code_def)

lemma quiet_line:
  assumes "key_word k" "key_word k'" "k' \<noteq> k" "inert v" "CHR 0x22 \<notin> set ind"
  shows "quiet k (field_line ind k' v) ('','' @ r)"
  using assms by (intro quiet_field) (simp_all add: inert_def)

lemma fields_lookup:
  assumes "distinct (map fst kvs)" "\<forall>(k, v)\<in>set kvs. key_word k \<and> inert v" "(k, v) \<in> set kvs" "CHR 0x22 \<notin> set ind"
    and "\<And>doc. quiet k pre doc"
  shows "\<exists>rest. ends_value rest \<and> (\<forall>vp t. vp (dropWhile is_space (v @ rest)) = Some t \<longrightarrow>
     matchField (pre @ fields_text ind kvs @ nl @ post) k vp = Some t)"
proof -
  obtain before after where kvs: "kvs = before @ (k, v) # after" using assms(3) by (meson split_list)
  have k: "key_word k" using assms(2) by (simp add: kvs)
  have "key_word k' \<and> k' \<noteq> k \<and> (\<forall>r. quiet k v' ('','' @ r))" if "(k', v') \<in> set before" for k' v'
  proof -
    have "k \<notin> fst ` set before" using assms(1) by (simp add: kvs)
    moreover have "key_word k' \<and> inert v'" using assms(2) that by (auto simp: kvs)
    ultimately show ?thesis using that k unfolding inert_def by (metis fst_conv image_eqI)
  qed
  then have "\<forall>(k', v')\<in>set before. key_word k' \<and> k' \<noteq> k \<and> (\<forall>r. quiet k v' ('','' @ r))" by blast
  moreover note k
  ultimately show ?thesis using field_found [OF _ assms(4)] assms(5) unfolding kvs by blast
qed

text \<open>An escaped string: a quote in it has a backslash before it, so no key ends there.\<close>

lemma esc_plain: "plain_letter c \<Longrightarrow> esc_char c = [c]"
proof -
  assume "plain_letter c"
  then have "32 \<le> code c" "c \<noteq> CHR 0x22" "c \<noteq> CHR 0x5C" by (auto simp: plain_letter_def code_def)
  then show ?thesis by (auto simp: esc_char_def code_def)
qed

lemma esc_char_cases: "(plain_letter c \<and> esc_char c = [c]) \<or> (\<exists>x y. esc_char c = x # y \<and> \<not> plain_letter x \<and> x \<noteq> CHR 0x22)"
proof (cases "plain_letter c")
  case False
  moreover have "\<not> plain_letter (CHR 0x5C)" by (simp add: plain_letter_def code_def)
  ultimately show ?thesis by (auto simp: esc_char_def)
qed (simp add: esc_plain)

lemma plain_escape: "list_all plain_letter s \<Longrightarrow> jsonEscape s = s"
  by (induction s) (simp_all add: jsonEscape_def esc_plain)

lemma escaped_split:
  "(list_all plain_letter (jsonEscape s)) \<or>
   (\<exists>p x y. jsonEscape s = p @ x # y \<and> list_all plain_letter p \<and> \<not> plain_letter x \<and> x \<noteq> CHR 0x22)"
proof (induction s)
  case (Cons c s)
  have e: "jsonEscape (c # s) = esc_char c @ jsonEscape s" by (simp add: jsonEscape_def)
  show ?case
  proof (cases "plain_letter c \<and> esc_char c = [c]")
    case True
    from Cons consider "list_all plain_letter (jsonEscape s)"
      | p x y where "jsonEscape s = p @ x # y" "list_all plain_letter p" "\<not> plain_letter x" "x \<noteq> CHR 0x22" by blast
    then show ?thesis
    proof cases
      case 2
      then have "jsonEscape (c # s) = (c # p) @ x # y" using True e by simp
      then show ?thesis using 2 True by (metis list.pred_inject(2))
    qed (use True e in simp)
  next
    case False
    then obtain x y where "esc_char c = x # y" "\<not> plain_letter x" "x \<noteq> CHR 0x22" using esc_char_cases [of c] by blast
    then show ?thesis using e by (intro disjI2 exI [of _ "[]"]) auto
  qed
qed (simp add: jsonEscape_def)

lemma plain_run:
  assumes "list_all plain_letter a" "list_all plain_letter b" "\<not> plain_letter x" "\<not> plain_letter y" "a @ x # r = b @ y # s"
  shows "a = b \<and> x = y \<and> r = s"
proof -
  have "takeWhile plain_letter (a @ x # r) = a" "takeWhile plain_letter (b @ y # s) = b"
    using assms(1-4) by (simp_all add: list_all_iff)
  then have "a = b" using assms(5) by metis
  then show ?thesis using assms(5) by simp
qed

text \<open>What may follow a string without making a key of it: not a letter, and no colon after blanks.\<close>

definition calm :: "string \<Rightarrow> bool" where
  "calm d \<longleftrightarrow> d \<noteq> [] \<and> \<not> plain_letter (hd d) \<and> strip_prefix '':'' (dropWhile is_space d) = None"

lemma calm_comma [simp]: "calm (CHR '','' # r)"
  by (simp add: calm_def is_space_def plain_letter_def code_def)

lemma no_key_inside:
  assumes "key_word k" "calm d"
  shows "match_at k vp (CHR 0x22 # jsonEscape s @ CHR 0x22 # d) = None"
proof (rule ccontr)
  assume "\<not> ?thesis"
  then obtain s1 s2 where s1: "strip_prefix (quoted k) (CHR 0x22 # jsonEscape s @ CHR 0x22 # d) = Some s1"
      "strip_prefix '':'' (dropWhile is_space s1) = Some s2"
    by (auto simp: match_at_def split: option.splits)
  then have eq: "k @ CHR 0x22 # s1 = jsonEscape s @ CHR 0x22 # d" by (auto simp: strip_prefix_iff quoted_def)
  have k: "list_all plain_letter k" and q: "\<not> plain_letter (CHR 0x22)"
    using assms(1) by (simp_all add: key_word_def plain_letter_def code_def)
  consider "list_all plain_letter (jsonEscape s)"
    | p x y where "jsonEscape s = p @ x # y" "list_all plain_letter p" "\<not> plain_letter x" "x \<noteq> CHR 0x22"
    using escaped_split by blast
  then show False
  proof cases
    case 1
    then have "s1 = d" using plain_run [OF k 1 q q eq] by simp
    then show False using s1(2) assms(2) by (simp add: calm_def)
  next
    case 2
    then have "k @ CHR 0x22 # s1 = p @ x # (y @ CHR 0x22 # d)" using eq by simp
    then show False using plain_run [OF k 2(2) q 2(3)] 2(4) by blast
  qed
qed

lemma div_less_32: "n < 32 \<Longrightarrow> n div 16 < (16 :: nat)"
  by simp

lemma quiet_escape:
  assumes "key_word k" "calm d"
  shows "quiet k (jsonEscape s) (CHR 0x22 # d)"
proof (induction s)
  case (Cons c s)
  let ?d = "jsonEscape s @ CHR 0x22 # d"
  have "quiet k (esc_char c) ?d"
  proof (cases "c = CHR 0x22")
    case True
    have "match_at k vp (CHR 0x22 # ?d) = None" "match_at k vp (CHR 0x5C # CHR 0x22 # ?d) = None" for vp
      using no_key_inside [OF assms] by (simp_all add: match_at_no_quote)
    then show ?thesis using True by (auto simp: quiet_def esc_char_def less_Suc_eq nth_Cons')
  next
    case False
    then have "CHR 0x22 \<notin> set (esc_char c)"
      using json_hex_plain [OF div_less_32] json_hex_plain [of "code c mod 16"]
      by (cases "code c < 32") (auto simp: esc_char_def dest: sym [of "CHR 0x22"])
    then show ?thesis by (rule quiet_plain)
  qed
  then show ?case using Cons quiet_append by (simp add: jsonEscape_def)
qed (simp add: jsonEscape_def)

lemma quiet_escaped:
  assumes k: "key_word k" and d: "calm d"
  shows "quiet k (quoted (jsonEscape s)) d"
proof -
  have "match_at k vp (CHR 0x22 # d) = None" for vp
    using k d by (cases k; cases d) (auto simp: match_at_def quoted_def key_word_def calm_def)
  then have "quiet k [CHR 0x22] d" by (simp add: quiet_def)
  then have "quiet k (jsonEscape s @ [CHR 0x22]) d" using quiet_escape [OF k d, of s] by (intro quiet_append) simp_all
  moreover have "quiet k [CHR 0x22] (jsonEscape s @ [CHR 0x22] @ d)"
    using no_key_inside [OF k d, of _ s] by (simp add: quiet_def)
  ultimately show ?thesis
    using quiet_append [of k "[CHR 0x22]" "jsonEscape s @ [CHR 0x22]" d] by (simp add: quoted_def)
qed

lemma inert_escaped: "inert (quoted (jsonEscape s))"
  unfolding inert_def using quiet_escaped by simp

text \<open>A whole object without the key, the last value of which is a string.\<close>

lemma quiet_fields:
  assumes k: "key_word k" and ind: "CHR 0x22 \<notin> set ind" "CHR 0x22 \<notin> set d"
    and kvs: "\<forall>(k', v)\<in>set kvs. key_word k' \<and> k' \<noteq> k \<and> inert v"
    and kl: "key_word kl" "kl \<noteq> k" and d: "\<And>doc. calm (nl @ d @ doc)"
  shows "quiet k (fields_text ind (kvs @ [(kl, quoted (jsonEscape s))]) @ nl @ d) doc"
  using kvs
proof (induction kvs)
  case Nil
  let ?v = "quoted (jsonEscape s)"
  have q: "quiet k (nl @ d) doc" "quiet k '': '' (?v @ nl @ d @ doc)" using ind by (auto intro: quiet_plain simp: nl_def)
  have "quiet k ind (quoted kl @ '': '' @ ?v @ nl @ d @ doc)" using ind(1) by (rule quiet_plain)
  moreover have "quiet k (quoted kl) ('': '' @ ?v @ nl @ d @ doc)"
    using quiet_quoted [OF key_word_quote [OF kl(1)] k, of "CHR '':''"] kl(2) by (auto simp: plain_letter_def is_space_def code_def)
  moreover have "quiet k ?v (nl @ d @ doc)" using quiet_escaped [OF k d] .
  ultimately show ?case using q quiet_append [of k] unfolding field_line_def fields_text.simps append_Nil by (metis append_assoc)
next
  case (Cons kv kvs)
  obtain k' v where kv: "kv = (k', v)" by force
  let ?t = "fields_text ind (kvs @ [(kl, quoted (jsonEscape s))]) @ nl @ d"
  have "quiet k (field_line ind k' v) ('','' @ nl @ ?t @ doc)"
    using Cons.prems kv by (intro quiet_line k ind(1)) auto
  moreover have "quiet k ('','' @ nl) (?t @ doc)" by (rule quiet_plain) (simp add: nl_def)
  moreover have "quiet k ?t doc" using Cons by simp
  ultimately have "quiet k ((field_line ind k' v) @ ('','' @ nl) @ ?t) doc" using quiet_append [of k] by (metis append_assoc)
  moreover have "fields_text ind ((kv # kvs) @ [(kl, quoted (jsonEscape s))]) =
      field_line ind k' v @ ('','' @ nl) @ fields_text ind (kvs @ [(kl, quoted (jsonEscape s))])"
    by (cases kvs) (simp_all add: kv)
  ultimately show ?case by simp
qed

text \<open>Escaping brings in no character but a backslash, a quote, letters and digits.\<close>

lemma escaped_chars: "x \<in> set (jsonEscape s) \<Longrightarrow> x \<in> set s \<or> plain_letter x \<or> x = CHR 0x22 \<or> x = CHR 0x5C"
proof -
  have hex: "plain_letter (json_hex d)" if "d < 16" for d
    using that by (auto simp: plain_letter_def json_hex_def digit_char_def)
  have letters: "plain_letter (CHR ''b'')" "plain_letter (CHR ''f'')" "plain_letter (CHR ''n'')" "plain_letter (CHR ''r'')"
      "plain_letter (CHR ''t'')" "plain_letter (CHR ''u'')" "plain_letter (CHR ''0'')"
    by (simp_all add: plain_letter_def code_def)
  have "x = c \<or> plain_letter x \<or> x = CHR 0x22 \<or> x = CHR 0x5C" if x: "x \<in> set (esc_char c)" for c
  proof (cases "code c < 32")
    case True
    then show ?thesis using x hex [OF div_less_32 [OF True]] hex [of "code c mod 16"] letters
      unfolding esc_char_def by (simp split: if_split_asm) blast+
  next
    case False
    then show ?thesis using x letters unfolding esc_char_def by (simp split: if_split_asm) blast+
  qed
  moreover assume "x \<in> set (jsonEscape s)"
  ultimately show ?thesis by (auto simp: jsonEscape_def)
qed

section \<open>Values read back\<close>

text \<open>\<open>found block k v\<close>: whatever reader looks for the key, it is given the text of the value.\<close>

definition found :: "string \<Rightarrow> string \<Rightarrow> string \<Rightarrow> bool" where
  "found block k v \<longleftrightarrow> (\<exists>rest. ends_value rest \<and>
     (\<forall>vp t. vp (dropWhile is_space (v @ rest)) = Some t \<longrightarrow> matchField block k vp = Some t))"

lemma field_at:
  assumes "key_word k" "CHR 0x22 \<notin> set ind" "\<And>doc. quiet k pre doc"
    and "\<And>k' v' r. (k', v') \<in> set before \<Longrightarrow> key_word k' \<and> k' \<noteq> k \<and> quiet k v' ('','' @ r)"
  shows "found (pre @ fields_text ind (before @ (k, v) # after) @ nl @ post) k v"
  using field_found [OF assms(1,2) _ assms(3), of before v after post] assms(4) unfolding found_def by blast

lemma foundI: "ends_value rest \<Longrightarrow>
    (\<And>vp t. vp (dropWhile is_space (v @ rest)) = Some t \<Longrightarrow> matchField block k vp = Some t) \<Longrightarrow> found block k v"
  by (auto simp: found_def)

lemma ends_value_no_digit: "ends_value r \<Longrightarrow> \<not> starts_with_digit 10 r"
  by (auto simp: ends_value_def nl_def starts_with_digit_def digit_val_def code_def)

lemma match_decimal: "ends_value r \<Longrightarrow> match_digits (dropWhile is_space (decimal n @ r)) = Some (decimal n)"
  using decimal_hd [of n] digit_facts takeWhile_decimal [OF ends_value_no_digit, of r n]
  by (auto simp: match_digits_def Let_def)

lemma read_string: "found block k (quoted (jsonEscape s)) \<Longrightarrow> extractStringField block k = Some s"
proof -
  assume "found block k (quoted (jsonEscape s))"
  moreover have "match_string (dropWhile is_space (quoted (jsonEscape s) @ r)) = Some (jsonEscape s)" for r
    by (simp add: quoted_def is_space_def code_def match_string_def match_body_escape)
  ultimately have "matchField block k match_string = Some (jsonEscape s)" unfolding found_def by blast
  then show ?thesis by (simp add: extractStringField_def jsonUnescape_jsonEscape)
qed

lemma read_uint64:
  assumes "found block k (decimal n)" "n < 2 ^ 64"
  shows "extractUInt64Field block k = Some (of_nat n)"
proof -
  have "matchField block k match_digits = Some (decimal n)" using assms(1) match_decimal unfolding found_def by blast
  then show ?thesis using assms(2) scan_decimal [of "[]" n] by (simp add: extractUInt64Field_def stoul_def)
qed

lemma read_narrow:
  assumes "found block k (decimal n)" "n < 2 ^ w" "w \<le> 64"
  shows "narrowField w block k = Some (of_nat n)"
proof -
  have "(2::nat) ^ w \<le> 2 ^ 64" using assms(3) by (rule power_increasing) simp
  then have n: "n < 2 ^ 64" using assms(2) by linarith
  then have "unat (of_nat n :: u64) = n" by (intro unat_of_nat_small) simp
  then show ?thesis using read_uint64 [OF assms(1) n] assms(2) by (simp add: narrowField_def)
qed

lemma up_down32: "(ucast (ucast (x :: u32) :: u64) :: u32) = x"
  and up_down16: "(ucast (ucast (y :: u16) :: u64) :: u16) = y"
  and up_down8: "(ucast (ucast (z :: u8) :: u64) :: u8) = z"
  by (rule ucast_up_ucast_id, simp add: is_up_def source_size_def target_size_def word_size)+

lemma read_word64: "found block k (decimal (unat (x :: u64))) \<Longrightarrow> extractUInt64Field block k = Some x"
  using read_uint64 [of block k "unat x"] unsigned_less [where 'a = nat, of x] by simp

lemma read_word32: "found block k (decimal (unat (x :: u32))) \<Longrightarrow> extractUInt32Field block k = Some x"
  using read_narrow [of block k "unat x" 32] unsigned_less [where 'a = nat, of x] up_down32 [of x] by (simp add: extractUInt32Field_def)

lemma read_word16: "found block k (decimal (unat (x :: u16))) \<Longrightarrow> extractUInt16Field block k = Some x"
  using read_narrow [of block k "unat x" 16] unsigned_less [where 'a = nat, of x] up_down16 [of x] by (simp add: extractUInt16Field_def)

lemma read_word8: "found block k (decimal (unat (x :: u8))) \<Longrightarrow> extractUInt8Field block k = Some x"
  using read_narrow [of block k "unat x" 8] unsigned_less [where 'a = nat, of x] up_down8 [of x] by (simp add: extractUInt8Field_def)

lemma read_bool: "found block k (if b then ''true'' else ''false'') \<Longrightarrow> extractBoolField block k = Some b"
proof -
  assume f: "found block k (if b then ''true'' else ''false'')"
  have "match_bool (dropWhile is_space ((if b then ''true'' else ''false'') @ r)) = Some (if b then ''true'' else ''false'')" for r
    by (simp add: match_bool_def is_space_def code_def)
  then have "matchField block k match_bool = Some (if b then ''true'' else ''false'')" using f unfolding found_def by blast
  then show ?thesis by (simp add: extractBoolField_def)
qed

lemma scan_negative: "scan_number 10 (''-'' @ decimal n) = Some (True, n, [])"
proof -
  obtain c cs where c: "decimal n = c # cs" "is_digit c" using decimal_hd by blast
  have "skip_prefix 10 (decimal n) = decimal n" "starts_with_digit 10 (decimal n)"
    using c digit_facts [OF c(2)] by (auto simp: skip_prefix_def starts_with_digit_def split: list.split)
  moreover have "skip_sign (dropWhile is_space (''-'' @ decimal n)) = (True, decimal n)"
    by (simp add: skip_sign_def is_space_def code_def)
  ultimately show ?thesis using read_digits_decimal [of 0 n "[]"] by (simp add: scan_number_def)
qed

lemma stoi_of_decimal: "- (2 ^ 31) \<le> i \<Longrightarrow> i < 2 ^ 31 \<Longrightarrow> stoi (decimal_int i) = Inr i"
  using scan_negative [of "nat (- i)"] scan_decimal [of "[]" "nat i"] by (auto simp: stoi_def decimal_int_def)

lemma read_int:
  assumes "found block k (decimal_int i)" "- (2 ^ 31) \<le> i" "i < 2 ^ 31"
  shows "extractIntField block k = Some i"
proof -
  have m: "match_signed (dropWhile is_space (decimal_int i @ r)) = Some (decimal_int i)" if "ends_value r" for r
  proof (cases "i < 0")
    case True
    have "match_digits (decimal n @ r) = Some (decimal n)" for n
      using takeWhile_decimal [OF ends_value_no_digit [OF that]] decimal_nonempty by (simp add: match_digits_def Let_def)
    then show ?thesis using True by (simp add: decimal_int_def match_signed_def is_space_def code_def)
  next
    case False
    obtain c cs where c: "decimal (nat i) = c # cs" "is_digit c" using decimal_hd by blast
    then have "strip_prefix ''-'' (dropWhile is_space (decimal (nat i) @ r)) = None"
      using digit_facts [OF c(2)] by (auto simp: is_digit_def code_def)
    then show ?thesis using False match_decimal [OF that, of "nat i"] by (simp add: decimal_int_def match_signed_def)
  qed
  then have "matchField block k match_signed = Some (decimal_int i)" using assms(1) unfolding found_def by blast
  moreover have "stoi (decimal_int i) = Inr i" using assms(2,3) by (rule stoi_of_decimal)
  ultimately show ?thesis by (simp add: extractIntField_def)
qed

end
