(* ===== verification/Mapper_Json.thy ===== *)
theory Mapper_Json
  imports Channel_Mapper Json_Fields
begin

text \<open>
  The text form of the mappings: \<open>toJSON\<close> and \<open>fromJSON\<close> of
  \<open>src/packages/aes67-core/NetworkEngine/StreamChannelMapper.cpp\<close>. The reader walks the blocks between a
  brace and the next closing brace; constructing the identifier may throw, which ends the load
  with what was read so far.
\<close>

section \<open>Writing\<close>

definition json_entry :: "channel_mapping \<Rightarrow> string" where
  "json_entry m =
     ''    {'' @ nl @
     ''      '' @ quoted ''streamID'' @ '': '' @ quoted (id_toString (streamID m)) @ '','' @ nl @
     ''      '' @ quoted ''streamName'' @ '': '' @ quoted (streamName m) @ '','' @ nl @
     ''      '' @ quoted ''streamChannelCount'' @ '': '' @ decimal (unat (streamChannelCount m)) @ '','' @ nl @
     ''      '' @ quoted ''streamChannelOffset'' @ '': '' @ decimal (unat (streamChannelOffset m)) @ '','' @ nl @
     ''      '' @ quoted ''deviceChannelStart'' @ '': '' @ decimal (unat (deviceChannelStart m)) @ '','' @ nl @
     ''      '' @ quoted ''deviceChannelCount'' @ '': '' @ decimal (unat (deviceChannelCount m)) @ nl @
     ''    }''"

definition mapper_toJSON :: "mapper \<Rightarrow> string" where
  "mapper_toJSON mp = ''{'' @ nl @ ''  '' @ quoted ''mappings'' @ '': ['' @ nl @
     join_with ('','' @ nl) (map (json_entry \<circ> snd) (mappings mp)) @ nl @ ''  ]'' @ nl @ ''}''"

section \<open>Reading\<close>

fun contains :: "string \<Rightarrow> string \<Rightarrow> bool" where
  "contains pat [] \<longleftrightarrow> pat = []"
| "contains pat (c # cs) \<longleftrightarrow> strip_prefix pat (c # cs) \<noteq> None \<or> contains pat cs"

text \<open>The next block and what follows it, or nothing.\<close>

definition next_block :: "string \<Rightarrow> (string \<times> string) option" where
  "next_block s = (case dropWhile (\<lambda>c. c \<noteq> CHR ''{'') s of
       [] \<Rightarrow> None
     | b # bs \<Rightarrow> (case dropWhile (\<lambda>c. c \<noteq> CHR ''}'') (b # bs) of
         [] \<Rightarrow> None
       | e # rest \<Rightarrow> Some (takeWhile (\<lambda>c. c \<noteq> CHR ''}'') (b # bs) @ [e], rest)))"

definition read_entry :: "string \<Rightarrow> std_exception + channel_mapping" where
  "read_entry block = (case StreamID_parse (value_or (extractStringField block ''streamID'') []) of
       Inl e \<Rightarrow> Inl e
     | Inr i \<Rightarrow> Inr \<lparr>streamID = i,
         streamName = value_or (extractStringField block ''streamName'') [],
         streamChannelCount = value_or (extractUInt16Field block ''streamChannelCount'') 0,
         streamChannelOffset = value_or (extractUInt16Field block ''streamChannelOffset'') 0,
         deviceChannelStart = value_or (extractUInt16Field block ''deviceChannelStart'') 0,
         deviceChannelCount = value_or (extractUInt16Field block ''deviceChannelCount'') 0,
         routes = []\<rparr>)"

lemma next_block_shorter: "next_block s = Some (b, rest) \<Longrightarrow> length rest < length s"
proof -
  assume "next_block s = Some (b, rest)"
  then obtain c cs e where "dropWhile (\<lambda>c. c \<noteq> CHR ''{'') s = c # cs"
    "dropWhile (\<lambda>c. c \<noteq> CHR ''}'') (c # cs) = e # rest"
    by (auto simp: next_block_def split: list.splits)
  then have "length (e # rest) \<le> length (c # cs)" "length (c # cs) \<le> length s"
    by (metis length_dropWhile_le)+
  then show ?thesis by simp
qed

function load_blocks :: "string \<Rightarrow> mapper \<Rightarrow> mapper \<times> std_exception option" where
  "load_blocks s mp = (case next_block s of
       None \<Rightarrow> (mp, None)
     | Some (block, rest) \<Rightarrow>
         if \<not> contains (quoted ''streamID'') block then load_blocks rest mp
         else (case read_entry block of
             Inl e \<Rightarrow> (mp, Some e)
           | Inr m \<Rightarrow> load_blocks rest (fst (addMapping m mp))))"
  by pat_completeness auto

termination
  by (relation "measure (length \<circ> fst)") (auto dest: next_block_shorter)

declare load_blocks.simps [simp del]

definition mapper_fromJSON :: "string \<Rightarrow> mapper \<Rightarrow> mapper \<times> std_exception option" where
  "mapper_fromJSON json mp = load_blocks json (clearAll mp)"

section \<open>Loading keeps the invariant\<close>

lemma read_entry_typed: "read_entry block = Inr m \<Longrightarrow> valid_id (streamID m)"
  by (auto simp: read_entry_def dest: StreamID_parse_valid split: sum.splits)

lemma load_blocks_inv: "mapper_inv mp \<Longrightarrow> mapper_inv (fst (load_blocks s mp))"
proof (induction s mp rule: load_blocks.induct)
  case (1 s mp)
  show ?case
  proof (cases "next_block s")
    case None
    then show ?thesis using 1 by (subst load_blocks.simps) simp
  next
    case (Some br)
    obtain block rest where br: "next_block s = Some (block, rest)" using Some by (cases br) auto
    show ?thesis
    proof (cases "contains (quoted ''streamID'') block")
      case False
      then show ?thesis using 1 br by (subst load_blocks.simps) simp
    next
      case True
      then show ?thesis
        using "1.IH"(2) [OF br refl] br "1.prems" read_entry_typed addMapping_inv
        by (subst load_blocks.simps) (auto split: sum.split)
    qed
  qed
qed

section \<open>One entry read back\<close>

abbreviation entry_line :: "string \<Rightarrow> string \<Rightarrow> string" where
  "entry_line \<equiv> field_line ''      ''"

abbreviation entry_text :: "(string \<times> string) list \<Rightarrow> string" where
  "entry_text \<equiv> fields_text ''      ''"

definition entry_fields :: "channel_mapping \<Rightarrow> (string \<times> string) list" where
  "entry_fields m =
     [(''streamID'', quoted (id_toString (streamID m))), (''streamName'', quoted (streamName m)),
      (''streamChannelCount'', decimal (unat (streamChannelCount m))),
      (''streamChannelOffset'', decimal (unat (streamChannelOffset m))),
      (''deviceChannelStart'', decimal (unat (deviceChannelStart m))),
      (''deviceChannelCount'', decimal (unat (deviceChannelCount m)))]"

lemma json_entry_fields: "json_entry m = ''    {'' @ nl @ entry_text (entry_fields m) @ nl @ ''    }''"
  by (simp add: json_entry_def entry_fields_def field_line_def)

text \<open>
  The names the writer can carry: it does not escape them, and the reader looks for braces and
  unescapes.
\<close>

definition clean_name :: "string \<Rightarrow> bool" where
  "clean_name s \<longleftrightarrow> CHR 0x22 \<notin> set s \<and> CHR 0x5C \<notin> set s \<and> CHR ''{'' \<notin> set s \<and> CHR ''}'' \<notin> set s"

lemma jsonUnescape_clean: "CHR 0x5C \<notin> set s \<Longrightarrow> jsonUnescape s = s"
  by (induction s) (auto simp: jsonUnescape_plain)

lemma match_body_clean:
  "CHR 0x22 \<notin> set s \<Longrightarrow> CHR 0x5C \<notin> set s \<Longrightarrow> match_string_body (s @ CHR 0x22 # r) = Some s"
  by (induction s) (auto simp: match_plain match_quote)

lemma match_quoted: "CHR 0x22 \<notin> set s \<Longrightarrow> CHR 0x5C \<notin> set s \<Longrightarrow>
  match_string (dropWhile is_space (quoted s @ r)) = Some s"
  by (simp add: quoted_def is_space_def code_def match_string_def match_body_clean)

lemma id_text_chars: "valid_id i \<Longrightarrow> c \<in> set (id_toString i) \<Longrightarrow> plain_letter c"
proof -
  assume "valid_id i" "c \<in> set (id_toString i)"
  then obtain b where "c = CHR ''-'' \<or> c \<in> set (hex2 b)" by (auto simp: id_toString_def split: if_splits)
  moreover have "plain_letter (digit_char d)" if "d < 16" for d
    using that by (auto simp: plain_letter_def digit_char_def)
  then have "plain_letter d" if "d \<in> set (hex2 b)" for d using that by (auto simp: hex2_def)
  ultimately show "plain_letter c" by (auto simp: plain_letter_def)
qed

lemma plain_letter_facts: "plain_letter c \<Longrightarrow> c \<noteq> CHR 0x22 \<and> c \<noteq> CHR 0x5C \<and> c \<noteq> CHR ''{'' \<and> c \<noteq> CHR ''}''"
  by (auto simp: plain_letter_def code_def)

lemma clean_id: "valid_id i \<Longrightarrow> clean_name (id_toString i)"
  using id_text_chars plain_letter_facts unfolding clean_name_def by blast

lemma entry_fields_ok:
  assumes "clean_name (streamName m)" "valid_id (streamID m)"
  shows "distinct (map fst (entry_fields m))" "\<forall>(k, v)\<in>set (entry_fields m). key_word k \<and> inert v"
  using assms clean_id [OF assms(2)]
  by (simp_all add: entry_fields_def key_word_def plain_letter_def code_def inert_decimal inert_quoted clean_name_def)

definition entry_keys :: "string list" where
  "entry_keys = [''streamID'', ''streamName'', ''streamChannelCount'', ''streamChannelOffset'',
     ''deviceChannelStart'', ''deviceChannelCount'']"

definition writable :: "channel_mapping \<Rightarrow> bool" where
  "writable m \<longleftrightarrow> clean_name (streamName m) \<and> valid_id (streamID m) \<and> routes m = []"

lemma string_read:
  assumes "clean_name s" "\<And>vp t. vp (dropWhile is_space (quoted s @ r)) = Some t \<Longrightarrow> matchField block k vp = Some t"
  shows "extractStringField block k = Some s"
proof -
  have "matchField block k match_string = Some s"
    using assms(2) [of match_string s] match_quoted [of s r] assms(1) by (simp add: clean_name_def)
  then show ?thesis using assms(1) by (simp add: extractStringField_def jsonUnescape_clean clean_name_def)
qed

lemma read_entry_written:
  assumes w: "writable m" and pre: "\<And>k doc. k \<in> set entry_keys \<Longrightarrow> quiet k pre doc"
  shows "read_entry (pre @ entry_text (entry_fields m) @ nl @ post) = Inr m"
proof -
  let ?b = "pre @ entry_text (entry_fields m) @ nl @ post"
  have look: "\<exists>r. ends_value r \<and> (\<forall>vp t. vp (dropWhile is_space (v @ r)) = Some t \<longrightarrow> matchField ?b k vp = Some t)"
    if "(k, v) \<in> set (entry_fields m)" for k v
    using fields_lookup [OF entry_fields_ok that, of "''      ''" pre post] w that pre
    by (auto simp: writable_def entry_fields_def entry_keys_def)
  have num: "extractUInt16Field ?b k = Some x" if "(k, decimal (unat x)) \<in> set (entry_fields m)" for k and x :: u16
    by (rule read_word16) (use look [OF that] in \<open>simp add: found_def\<close>)
  have str: "extractStringField ?b k = Some s" if "(k, quoted s) \<in> set (entry_fields m)" "clean_name s" for k s
    using look [OF that(1)] string_read [OF that(2), of _ ?b k] by blast
  have "extractStringField ?b ''streamID'' = Some (id_toString (streamID m))"
    "extractStringField ?b ''streamName'' = Some (streamName m)"
    by (rule str, simp add: entry_fields_def, use w clean_id in \<open>simp add: writable_def\<close>)+
  moreover have "extractUInt16Field ?b ''streamChannelCount'' = Some (streamChannelCount m)"
    "extractUInt16Field ?b ''streamChannelOffset'' = Some (streamChannelOffset m)"
    "extractUInt16Field ?b ''deviceChannelStart'' = Some (deviceChannelStart m)"
    "extractUInt16Field ?b ''deviceChannelCount'' = Some (deviceChannelCount m)"
    by (rule num, simp add: entry_fields_def)+
  ultimately show ?thesis
    using w StreamID_parse_print by (simp add: read_entry_def value_or_def writable_def)
qed

section \<open>The whole document read back\<close>

lemma next_block_at:
  assumes "CHR ''{'' \<notin> set a" "CHR ''}'' \<notin> set b"
  shows "next_block (a @ CHR ''{'' # b @ CHR ''}'' # r) = Some (CHR ''{'' # b @ [CHR ''}''], r)"
proof -
  have d: "dropWhile (\<lambda>c. c \<noteq> x) (y @ x # z) = x # z" if "x \<notin> set y" for x y and z :: string
    using that by (induction y) auto
  have "dropWhile (\<lambda>c. c \<noteq> CHR ''}'') (CHR ''{'' # b @ CHR ''}'' # r) = CHR ''}'' # r"
    "takeWhile (\<lambda>c. c \<noteq> CHR ''}'') (CHR ''{'' # b @ CHR ''}'' # r) = CHR ''{'' # b"
    using d [of "CHR ''}''" "CHR ''{'' # b" r] takeWhile_until [of "CHR ''}''" "CHR ''{'' # b" r] assms(2) by auto
  then show ?thesis using d [OF assms(1)] by (simp add: next_block_def)
qed

lemma next_block_none: "CHR ''{'' \<notin> set s \<Longrightarrow> next_block s = None"
proof -
  assume "CHR ''{'' \<notin> set s"
  then have "dropWhile (\<lambda>c. c \<noteq> CHR ''{'') s = []" by (induction s) auto
  then show ?thesis unfolding next_block_def by (simp only: list.case)
qed

lemma contains_append: "contains pat (a @ pat @ b)"
proof (induction a)
  case Nil
  have "strip_prefix pat (pat @ b) = Some b" by simp
  then show ?case by (cases "pat @ b") (auto simp del: strip_prefix_append)
qed simp

lemma decimal_no_brace: "CHR ''}'' \<notin> set (decimal n)"
  by (rule decimal_no_char) (simp add: is_digit_def code_def)

lemma fields_no_brace: "writable m \<Longrightarrow> CHR ''}'' \<notin> set (entry_text (entry_fields m))"
  using clean_id [of "streamID m"] decimal_no_brace
  by (simp add: entry_fields_def field_line_def quoted_def nl_def writable_def clean_name_def)

lemma load_one:
  assumes "CHR ''{'' \<notin> set a" "CHR ''}'' \<notin> set p" "writable m"
    and "\<And>k doc. k \<in> set entry_keys \<Longrightarrow> quiet k (CHR ''{'' # p) doc"
  shows "load_blocks (a @ CHR ''{'' # p @ entry_text (entry_fields m) @ nl @ ''    '' @ CHR ''}'' # rest) mp =
    load_blocks rest (fst (addMapping m mp))"
proof -
  let ?b = "(CHR ''{'' # p) @ entry_text (entry_fields m) @ nl @ ''    }''"
  have nb: "next_block (a @ CHR ''{'' # p @ entry_text (entry_fields m) @ nl @ ''    '' @ CHR ''}'' # rest) = Some (?b, rest)"
    using next_block_at [OF assms(1), of "p @ entry_text (entry_fields m) @ nl @ ''    ''" rest]
      assms(2) fields_no_brace [OF assms(3)] by (simp add: nl_def)
  have "\<exists>x y. ?b = x @ quoted ''streamID'' @ y"
    by (intro exI [of _ "CHR ''{'' # p @ ''      ''"] exI) (simp add: entry_fields_def field_line_def)
  then have "contains (quoted ''streamID'') ?b" using contains_append by metis
  then show ?thesis
    using nb read_entry_written [OF assms(3,4), of "''    }''"] by (subst load_blocks.simps) simp
qed

definition json_tail :: string where
  "json_tail = nl @ ''  ]'' @ nl @ ''}''"

definition json_head :: string where
  "json_head = nl @ ''  '' @ quoted ''mappings'' @ '': ['' @ nl"

lemma json_entry_split:
  "json_entry m = ''    '' @ CHR ''{'' # nl @ entry_text (entry_fields m) @ nl @ ''    '' @ [CHR ''}'']"
  by (simp add: json_entry_fields)

lemma load_rest:
  assumes "list_all writable ms"
  shows "load_blocks (concat (map (\<lambda>m. ('','' @ nl) @ json_entry m) ms) @ json_tail) mp = (add_all ms mp, None)"
  using assms
proof (induction ms arbitrary: mp)
  case Nil
  have "next_block json_tail = None" by (rule next_block_none) (simp add: json_tail_def nl_def)
  then show ?case by (subst load_blocks.simps) (simp add: add_all_def)
next
  case (Cons m ms)
  let ?r = "concat (map (\<lambda>m. ('','' @ nl) @ json_entry m) ms) @ json_tail"
  have "quiet k (CHR ''{'' # nl) doc" for k doc by (rule quiet_plain) (simp add: nl_def)
  then have "load_blocks (('','' @ nl @ ''    '') @ CHR ''{'' # nl @ entry_text (entry_fields m) @ nl @ ''    '' @ CHR ''}'' # ?r) mp =
      load_blocks ?r (fst (addMapping m mp))"
    using Cons.prems by (intro load_one) (simp_all add: nl_def)
  then show ?case using Cons by (simp add: json_entry_split add_all_def)
qed

lemma quiet_head:
  assumes "k \<in> set entry_keys"
  shows "quiet k (CHR ''{'' # json_head @ ''    {'' @ nl) doc"
proof -
  have k: "key_word k" "''mappings'' \<noteq> k"
    using assms by (auto simp: entry_keys_def key_word_def plain_letter_def code_def)
  have "quiet k (quoted ''mappings'') ('': ['' @ nl @ ''    {'' @ nl @ doc)"
    using quiet_quoted [of "''mappings''" k "CHR '':''"] k by (simp add: plain_letter_def is_space_def code_def)
  moreover have "quiet k ('': ['' @ nl @ ''    {'' @ nl) doc"
    "quiet k (''{'' @ nl @ ''  '') (quoted ''mappings'' @ '': ['' @ nl @ ''    {'' @ nl @ doc)"
    by (rule quiet_plain, simp add: nl_def)+
  ultimately have "quiet k ((''{'' @ nl @ ''  '') @ quoted ''mappings'' @ '': ['' @ nl @ ''    {'' @ nl) doc"
    using quiet_append [of k "quoted ''mappings''" "'': ['' @ nl @ ''    {'' @ nl" doc]
      quiet_append [of k "''{'' @ nl @ ''  ''" "quoted ''mappings'' @ '': ['' @ nl @ ''    {'' @ nl" doc] by simp
  then show ?thesis by (simp add: json_head_def)
qed

lemma load_document:
  assumes "list_all writable (map snd es)"
  shows "load_blocks (mapper_toJSON (mp'\<lparr>mappings := es\<rparr>)) mp = (add_all (map snd es) mp, None)"
proof (cases es)
  case Nil
  let ?b = "nl @ ''  '' @ quoted ''mappings'' @ '': ['' @ nl @ nl @ ''  ]'' @ nl"
  have "next_block ([] @ CHR ''{'' # ?b @ CHR ''}'' # []) = Some (CHR ''{'' # ?b @ [CHR ''}''], [])"
    by (rule next_block_at) (simp_all add: nl_def quoted_def)
  moreover have "\<not> contains (quoted ''streamID'') (CHR ''{'' # ?b @ [CHR ''}''])" by (simp add: nl_def quoted_def)
  moreover have "load_blocks [] mp = (mp, None)" by (subst load_blocks.simps) (simp add: next_block_def)
  ultimately show ?thesis
    by (subst load_blocks.simps) (simp add: mapper_toJSON_def Nil add_all_def)
next
  case (Cons e es')
  let ?m = "snd e" and ?r = "concat (map (\<lambda>m. ('','' @ nl) @ json_entry m) (map snd es')) @ json_tail"
  have "load_blocks ([] @ CHR ''{'' # (json_head @ ''    {'' @ nl) @ entry_text (entry_fields ?m) @ nl @ ''    '' @ CHR ''}'' # ?r) mp =
      load_blocks ?r (fst (addMapping ?m mp))"
    using assms Cons quiet_head by (intro load_one) (simp_all add: json_head_def nl_def quoted_def)
  moreover have "mapper_toJSON (mp'\<lparr>mappings := es\<rparr>) =
      CHR ''{'' # (json_head @ ''    {'' @ nl) @ entry_text (entry_fields ?m) @ nl @ ''    '' @ CHR ''}'' # ?r"
    by (simp add: mapper_toJSON_def Cons join_with_Cons json_head_def json_tail_def json_entry_split comp_def)
  ultimately show ?thesis using load_rest [of "map snd es'"] assms Cons by (simp add: add_all_def)
qed

section \<open>Theorems\<close>

text \<open>
  the document \<open>toJSON\<close> writes for a mapper whose mappings carry no routes and whose stream names
  have no quote, backslash or brace is read back by \<open>fromJSON\<close>, into any mapper, as the same
  mappings, with an owner table that agrees with them; no exception is thrown.
\<close>

theorem mapper_json_roundtrip:
  assumes "mapper_inv mp" "list_all writable (getAllMappings mp)" "mapper_inv mp0"
  shows "\<exists>mp'. mapper_fromJSON (mapper_toJSON mp) mp0 = (mp', None) \<and> mappings mp' = mappings mp \<and> mapper_exact mp'"
proof -
  have "mp = mp\<lparr>mappings := mappings mp\<rparr>" by simp
  then have "mapper_fromJSON (mapper_toJSON mp) mp0 = (add_all (map snd (mappings mp)) (clearAll mp0), None)"
    using load_document [of "mappings mp" mp "clearAll mp0"] assms(2)
    by (simp add: mapper_fromJSON_def getAllMappings_def)
  moreover have "mapper_exact (add_all (map snd (mappings mp)) (clearAll mp0)) \<and>
      mappings (add_all (map snd (mappings mp)) (clearAll mp0)) = mappings mp"
    using add_all_mappings [OF assms(1), of "[]" "mappings mp" "clearAll mp0"] clearAll_exact [OF assms(3)]
    by (simp add: clearAll_def)
  ultimately show ?thesis by blast
qed

theorem mapper_json_roundtrip_witness:
  "\<exists>mp'. mapper_fromJSON (mapper_toJSON (fst (addMapping (demo_mapping 1 0) StreamChannelMapper))) StreamChannelMapper = (mp', None) \<and>
     mappings mp' = [(demo_id 1, demo_mapping 1 0)]"
proof -
  let ?mp = "fst (addMapping (demo_mapping 1 0) StreamChannelMapper)"
  have v: "valid_id (streamID (demo_mapping 1 0))" by (simp add: demo_mapping_def demo_id_def valid_id_def)
  have m: "mappings ?mp = [(demo_id 1, demo_mapping 1 0)]" by code_simp
  then have "list_all writable (getAllMappings ?mp)"
    using v by (simp add: getAllMappings_def writable_def clean_name_def) (simp add: demo_mapping_def)
  then show ?thesis
    using mapper_json_roundtrip [OF addMapping_inv [OF mapper_inv_init v] _ mapper_inv_init] m by auto
qed

text \<open>
  a stream name with a quote in it does not survive: \<open>toJSON\<close> writes it unescaped, and the
  reader of the entry ends the name at the quote.
\<close>

theorem mapper_json_quote_lost:
  assumes "valid_id (streamID m)" "clean_name a" "streamName m = a @ CHR 0x22 # b"
  shows "extractStringField (json_entry m) ''streamName'' = Some a"
proof -
  let ?k = "''streamName''"
  let ?v = "quoted (id_toString (streamID m))"
  define rest where "rest = drop (length (entry_line ''streamID'' ?v @ '','' @ nl @ entry_line ?k (quoted (streamName m))))
    (entry_text (entry_fields m)) @ nl @ ''    }''"
  have k: "key_word ?k" "key_word ''streamID''" by (simp_all add: key_word_def plain_letter_def code_def)
  have "inert ?v" using clean_id [OF assms(1)] by (intro inert_quoted) (simp add: clean_name_def)
  then have q: "quiet ?k (entry_line ''streamID'' ?v) ('','' @ r)" for r using quiet_line [OF k] by simp
  have "quiet ?k (''    {'' @ nl) doc" "quiet ?k ('','' @ nl @ ''      '') doc" for doc by (rule quiet_plain, simp add: nl_def)+
  then have "quiet ?k ((''    {'' @ nl) @ entry_line ''streamID'' ?v @ '','' @ nl @ ''      '') doc" for doc
    using q [of "nl @ ''      '' @ doc"] quiet_append [of ?k "entry_line ''streamID'' ?v" "'','' @ nl @ ''      ''" doc]
      quiet_append [of ?k "''    {'' @ nl" "entry_line ''streamID'' ?v @ '','' @ nl @ ''      ''" doc] by simp
  then have "matchField (((''    {'' @ nl) @ entry_line ''streamID'' ?v @ '','' @ nl @ ''      '') @
      quoted ?k @ '': '' @ quoted (streamName m) @ rest) ?k match_string = Some a"
    using assms(2,3) by (intro matchField_quiet [OF k(1)])
      (simp_all add: quoted_def is_space_def code_def match_string_def match_body_clean clean_name_def)
  moreover have "json_entry m = ((''    {'' @ nl) @ entry_line ''streamID'' ?v @ '','' @ nl @ ''      '') @
      quoted ?k @ '': '' @ quoted (streamName m) @ rest"
    by (simp add: json_entry_fields rest_def entry_fields_def) (simp add: field_line_def)
  ultimately show ?thesis using assms(2) by (simp add: extractStringField_def jsonUnescape_clean clean_name_def)
qed

theorem mapper_json_quote_lost_witness:
  "extractStringField (json_entry ((demo_mapping 1 0)\<lparr>streamName := [CHR ''a'', CHR 0x22, CHR ''b'']\<rparr>)) ''streamName'' = Some ''a''"
  by (rule mapper_json_quote_lost [of _ _ "''b''"])
    (simp_all add: demo_mapping_def demo_id_def valid_id_def clean_name_def)

end
