(* ===== verification/RTP_Format.thy ===== *)
theory RTP_Format
  imports AES67_Prelude
begin

text \<open>
  The RTP header, the reading of sequence numbers and the packet budget:
  \<open>src/packages/aes67-core/NetworkEngine/RTP/RTPHeader.h\<close> and \<open>PacketBudget.h\<close>.
  The byte swaps are those of a little-endian host. In the budget, \<open>size_t\<close> values are \<open>nat\<close>: the
  largest product, of a 16-bit channel count, a sample width of at most 4 and a 32-bit frame
  count, stays below \<open>2 ^ 64\<close> (\<open>packet_bytes_no_wrap\<close>).
\<close>

section \<open>Header\<close>

definition swap16 :: "u16 \<Rightarrow> u16" where
  "swap16 v = drop_bit 8 v OR push_bit 8 v"

definition swap32 :: "u32 \<Rightarrow> u32" where
  "swap32 v = (drop_bit 24 v AND 0x000000FF) OR (drop_bit 8 v AND 0x0000FF00) OR
     (push_bit 8 v AND 0x00FF0000) OR (push_bit 24 v AND 0xFF000000)"

record rtp_header =
  cc :: "4 word"
  extension :: bool
  padding :: bool
  version :: "2 word"
  payloadType :: "7 word"
  marker :: bool
  sequenceNumber :: u16
  timestamp :: u32
  ssrc :: u32

definition toNetworkOrder :: "rtp_header \<Rightarrow> rtp_header" where
  "toNetworkOrder h = h\<lparr>sequenceNumber := swap16 (sequenceNumber h), timestamp := swap32 (timestamp h),
     ssrc := swap32 (ssrc h)\<rparr>"

definition toHostOrder :: "rtp_header \<Rightarrow> rtp_header" where
  "toHostOrder h = h\<lparr>sequenceNumber := swap16 (sequenceNumber h), timestamp := swap32 (timestamp h),
     ssrc := swap32 (ssrc h)\<rparr>"

definition payloadTypeFor :: "string \<Rightarrow> u8" where
  "payloadTypeFor encoding = (if encoding = ''L16'' then 96 else if encoding = ''L24'' then 97 else 96)"

section \<open>Sequence numbers\<close>

record sequence_gap =
  lost :: u16
  outOfOrder :: bool

definition sequenceGap :: "u16 \<Rightarrow> u16 \<Rightarrow> sequence_gap" where
  "sequenceGap expected received =
     (if received = expected then \<lparr>lost = 0, outOfOrder = False\<rparr>
      else (let difference = sint (received - expected) in
        if difference > 0 then \<lparr>lost = of_int difference, outOfOrder = False\<rparr>
        else \<lparr>lost = 0, outOfOrder = True\<rparr>))"

section \<open>Packet budget\<close>

definition kRtpHeaderBytes :: nat where "kRtpHeaderBytes = 12"
definition kIpv4UdpOverheadBytes :: nat where "kIpv4UdpOverheadBytes = 20 + 8"
definition kEthernetMtuBytes :: nat where "kEthernetMtuBytes = 1500"
definition kMaxRtpPacketBytes :: nat where "kMaxRtpPacketBytes = kEthernetMtuBytes - kIpv4UdpOverheadBytes"
definition kMaxAudioBytesPerPacket :: nat where "kMaxAudioBytesPerPacket = kMaxRtpPacketBytes - kRtpHeaderBytes"

definition bytesPerSample :: "string \<Rightarrow> nat" where
  "bytesPerSample encoding = (if encoding = ''L16'' then 2 else if encoding = ''L24'' then 3
     else if encoding = ''AM824'' then 4 else 0)"

text \<open>The product is taken in 64 bits; the quotient is cut to 32.\<close>

definition framesPerPacket :: "u32 \<Rightarrow> u32 \<Rightarrow> u32 \<Rightarrow> u32" where
  "framesPerPacket sampleRate ptimeUs framecount =
     (if framecount > 0 then framecount
      else ucast ((ucast sampleRate * ucast ptimeUs :: u64) div 1000000))"

record packet_interval =
  wholeNs :: u64
  remainder :: u32

definition packetInterval :: "u32 \<Rightarrow> u32 \<Rightarrow> packet_interval" where
  "packetInterval frames sampleRate =
     (if sampleRate = 0 then \<lparr>wholeNs = 0, remainder = 0\<rparr>
      else (let numerator = (ucast frames * 1000000000 :: u64) in
        \<lparr>wholeNs = numerator div ucast sampleRate, remainder = ucast (numerator mod ucast sampleRate)\<rparr>))"

definition rtpPacketBytes :: "nat \<Rightarrow> nat \<Rightarrow> nat \<Rightarrow> nat" where
  "rtpPacketBytes channels bps frames = kRtpHeaderBytes + channels * bps * frames"

definition fits :: "nat \<Rightarrow> nat \<Rightarrow> nat \<Rightarrow> bool" where
  "fits channels bps frames \<longleftrightarrow> rtpPacketBytes channels bps frames \<le> kMaxRtpPacketBytes"

definition maxChannelsPerPacket :: "nat \<Rightarrow> nat \<Rightarrow> nat" where
  "maxChannelsPerPacket bps frames =
     (if bps = 0 \<or> frames = 0 then 0
      else (let perChannel = bps * frames; channels = kMaxAudioBytesPerPacket div perChannel in
        if channels > 0xFFFF then 0xFFFF else channels))"

definition maxFramesPerPacket :: "nat \<Rightarrow> nat \<Rightarrow> nat" where
  "maxFramesPerPacket channels bps =
     (if channels = 0 \<or> bps = 0 then 0 else kMaxAudioBytesPerPacket div (channels * bps))"

lemmas budget_consts = kMaxAudioBytesPerPacket_def kMaxRtpPacketBytes_def kEthernetMtuBytes_def
  kIpv4UdpOverheadBytes_def kRtpHeaderBytes_def

section \<open>What the format promises\<close>

lemma swap16_bits: "i < 16 \<Longrightarrow> bit (swap16 v) i \<longleftrightarrow> (if i < 8 then bit v (i + 8) else bit v (i - 8))"
  unfolding swap16_def bit_or_iff bit_drop_bit_eq bit_push_bit_iff
  by (auto simp: add.commute intro: impossible_bit dest: bit_imp_le_length)

lemma swap16_swap16: "swap16 (swap16 v) = v"
  by (rule bit_word_eqI) (auto simp: swap16_bits)

lemma byte_masks:
  "(0xFF :: u32) = mask 8" "(0xFF00 :: u32) = push_bit 8 (mask 8)"
  "(0xFF0000 :: u32) = push_bit 16 (mask 8)" "(0xFF000000 :: u32) = push_bit 24 (mask 8)"
  by (simp_all add: mask_eq_exp_minus_1)

lemma swap32_bits:
  "i < 32 \<Longrightarrow> bit (swap32 v) i \<longleftrightarrow>
     (if i < 8 then bit v (i + 24) else if i < 16 then bit v (i + 8) else if i < 24 then bit v (i - 8) else bit v (i - 24))"
  unfolding swap32_def byte_masks bit_or_iff bit_and_iff bit_drop_bit_eq bit_push_bit_iff bit_mask_iff
  by (auto simp: add.commute)

lemma swap32_swap32: "swap32 (swap32 v) = v"
  by (rule bit_word_eqI) (auto simp: swap32_bits)

interpretation rtp_order: codec "\<lambda>_. True" toNetworkOrder toHostOrder id
  by unfold_locales (simp_all add: toNetworkOrder_def toHostOrder_def swap16_swap16 swap32_swap32)

lemma sint_ahead: "k < 2 ^ 15 \<Longrightarrow> sint (of_nat k :: u16) = int k"
  by (simp add: signed_of_nat signed_take_bit_int_eq_self)

lemma sint_behind: "k \<le> 2 ^ 15 \<Longrightarrow> sint (- of_nat k :: u16) = - int k"
proof -
  assume k: "k \<le> 2 ^ 15"
  have "(- of_nat k :: u16) = of_int (- int k)" by simp
  then have "sint (- of_nat k :: u16) = signed_take_bit 15 (- int k)" by (simp only: signed_of_int) simp
  then show ?thesis using k by (simp add: signed_take_bit_int_eq_self)
qed

lemma packet_bytes_no_wrap:
  assumes "channels < 2 ^ 16" "bps \<le> 4" "frames < 2 ^ 32"
  shows "rtpPacketBytes channels bps frames < 2 ^ 64"
proof -
  have "channels * bps \<le> (2 ^ 16 - 1) * 4" using assms(1,2) by (intro mult_mono) auto
  then have "channels * bps * frames \<le> (2 ^ 16 - 1) * 4 * 2 ^ 32" using assms(3) by (metis less_imp_le_nat mult_le_mono)
  then show ?thesis by (simp add: rtpPacketBytes_def kRtpHeaderBytes_def)
qed

lemma fits_iff: "0 < bps \<Longrightarrow> 0 < frames \<Longrightarrow> fits channels bps frames \<longleftrightarrow> channels \<le> kMaxAudioBytesPerPacket div (bps * frames)"
  by (simp add: fits_def rtpPacketBytes_def less_eq_div_iff_mult_less_eq mult.assoc budget_consts)

section \<open>Theorems\<close>

text \<open>
  the sixteen-bit reading of a sequence number is right across the wrap: a packet up to 32767
  ahead of the expected one is reported as that many lost and in order, one up to 32768 behind as
  out of order with nothing lost, and the expected one as neither.
\<close>

theorem sequence_gap_wraps:
  fixes expected :: u16
  shows "(0 < k \<and> k < 2 ^ 15 \<longrightarrow> sequenceGap expected (expected + of_nat k) = \<lparr>lost = of_nat k, outOfOrder = False\<rparr>) \<and>
    (0 < k \<and> k \<le> 2 ^ 15 \<longrightarrow> sequenceGap expected (expected - of_nat k) = \<lparr>lost = 0, outOfOrder = True\<rparr>) \<and>
    sequenceGap expected expected = \<lparr>lost = 0, outOfOrder = False\<rparr>"
proof (intro conjI impI)
  assume k: "0 < k \<and> k < 2 ^ 15"
  then have "sint (of_nat k :: u16) = int k" by (intro sint_ahead) simp
  moreover from this have "(of_nat k :: u16) \<noteq> 0" using k by auto
  ultimately show "sequenceGap expected (expected + of_nat k) = \<lparr>lost = of_nat k, outOfOrder = False\<rparr>"
    using k by (simp add: sequenceGap_def Let_def)
next
  assume k: "0 < k \<and> k \<le> 2 ^ 15"
  then have s: "sint (- of_nat k :: u16) = - int k" by (intro sint_behind) simp
  then have "(of_nat k :: u16) \<noteq> 0" using k by (metis minus_zero neg_0_equal_iff_equal of_nat_eq_0_iff not_gr_zero signed_0)
  moreover have "expected - of_nat k - expected = - of_nat k" by simp
  ultimately show "sequenceGap expected (expected - of_nat k) = \<lparr>lost = 0, outOfOrder = True\<rparr>"
    using k s by (simp add: sequenceGap_def Let_def)
qed (simp add: sequenceGap_def)

theorem sequence_gap_wraps_witness:
  "(65535 :: u16) + 1 = 0 \<and> sequenceGap 65535 (65535 + 1) = \<lparr>lost = 1, outOfOrder = False\<rparr>"
proof
  show "(65535 :: u16) + 1 = 0" by simp
  show "sequenceGap 65535 (65535 + 1) = \<lparr>lost = 1, outOfOrder = False\<rparr>"
    using sequence_gap_wraps [of 1 65535] by (simp only: of_nat_1) simp
qed

text \<open>
  the packet budget is exact: \<open>maxChannelsPerPacket\<close> is the largest number of channels that fits in
  one frame, \<open>maxFramesPerPacket\<close> the largest number of samples per channel, and no packet that fits
  is larger than the frame after the IP and UDP headers.
\<close>

theorem packet_budget_exact:
  assumes "0 < bps" "0 < frames" "0 < channels"
  shows "(fits channels bps frames \<longleftrightarrow> channels \<le> maxChannelsPerPacket bps frames) \<and>
    (fits channels bps frames \<longleftrightarrow> frames \<le> maxFramesPerPacket channels bps) \<and>
    (fits channels bps frames \<longleftrightarrow> kRtpHeaderBytes + channels * bps * frames + kIpv4UdpOverheadBytes \<le> kEthernetMtuBytes)"
proof -
  have "kMaxAudioBytesPerPacket div (bps * frames) \<le> kMaxAudioBytesPerPacket" by (rule div_le_dividend)
  moreover have "kMaxAudioBytesPerPacket \<le> 65535" by (simp add: budget_consts)
  ultimately have "\<not> 65535 < kMaxAudioBytesPerPacket div (bps * frames)" by linarith
  then have "maxChannelsPerPacket bps frames = kMaxAudioBytesPerPacket div (bps * frames)"
    using assms by (simp add: maxChannelsPerPacket_def Let_def)
  moreover have "fits channels bps frames \<longleftrightarrow> frames \<le> kMaxAudioBytesPerPacket div (channels * bps)"
    using assms by (simp add: fits_def rtpPacketBytes_def less_eq_div_iff_mult_less_eq ac_simps budget_consts)
  ultimately show ?thesis using assms fits_iff [OF assms(1,2), of channels]
    by (simp add: maxFramesPerPacket_def) (simp add: fits_def rtpPacketBytes_def budget_consts)
qed

theorem packet_budget_exact_witness: "fits 10 3 48 \<and> \<not> fits 11 3 48"
  using packet_budget_exact [of 3 48 10] packet_budget_exact [of 3 48 11]
  by (simp add: maxChannelsPerPacket_def budget_consts)

end
