(* ===== verification/Peer_Tables.thy ===== *)
theory Peer_Tables
  imports Std_Strings Std_Map "HOL-Library.Monad_Syntax"
begin

text \<open>
  The two tables of devices seen on the network:
  \<open>src/packages/aes67-core/NetworkEngine/PTP/PTPPeerTable.h\<close> (PTP clocks by identity) and
  \<open>src/packages/aes67-core/NetworkEngine/Discovery/RTCPReceiverTable.h\<close> (RTCP reporters by SSRC, with the
  parser that feeds it). Both are maps with a ceiling, from which the row unheard for longest is
  dropped to make room; \<open>aged_table\<close> is the contract they share. Time is an integer count of
  nanoseconds given by the caller.
\<close>

section \<open>Eviction\<close>

text \<open>\<open>std::min_element\<close>: the first of the smallest.\<close>

fun min_from :: "('v \<Rightarrow> int) \<Rightarrow> 'k \<times> 'v \<Rightarrow> ('k, 'v) stdmap \<Rightarrow> 'k \<times> 'v" where
  "min_from seen best [] = best"
| "min_from seen best (x # xs) = min_from seen (if seen (snd x) < seen (snd best) then x else best) xs"

definition evictLeastRecentlySeen :: "('v \<Rightarrow> int) \<Rightarrow> ('k, 'v) stdmap \<Rightarrow> ('k, 'v) stdmap" where
  "evictLeastRecentlySeen seen m = (case m of [] \<Rightarrow> [] | x # xs \<Rightarrow> map_erase (fst (min_from seen x xs)) m)"

definition make_room :: "nat \<Rightarrow> ('v \<Rightarrow> int) \<Rightarrow> 'k \<Rightarrow> ('k, 'v) stdmap \<Rightarrow> ('k, 'v) stdmap" where
  "make_room cap seen k m =
     (if map_find m k = None \<and> length m \<ge> cap then evictLeastRecentlySeen seen m else m)"

definition drop_unheard :: "int \<Rightarrow> ('v \<Rightarrow> int) \<Rightarrow> int \<Rightarrow> ('k, 'v) stdmap \<Rightarrow> ('k, 'v) stdmap" where
  "drop_unheard timeout seen now m = filter (\<lambda>(k, v). \<not> now - seen v > timeout) m"

section \<open>PTP peers\<close>

datatype ptp_peer_role = UnknownPeer | MasterPeer | SlavePeer | MixedPeer

record ptp_peer =
  clockId :: byte_list
  peer_sourceIp :: string
  peer_domain :: int
  messageTypeMask :: u32
  peer_firstSeen :: int
  peer_lastSeen :: int
  messageCount :: u64

definition peer_default :: ptp_peer where
  "peer_default = \<lparr>clockId = replicate 8 0, peer_sourceIp = [], peer_domain = 0, messageTypeMask = 0,
     peer_firstSeen = 0, peer_lastSeen = 0, messageCount = 0\<rparr>"

definition type_bit :: "u8 \<Rightarrow> u32" where
  "type_bit msgType = push_bit (unat (msgType AND 0x1F)) 1"

definition oui :: "ptp_peer \<Rightarrow> byte_list" where
  "oui p = [clockId p ! 0, clockId p ! 1, clockId p ! 2]"

definition roleFromMask :: "u32 \<Rightarrow> ptp_peer_role" where
  "roleFromMask m =
     (let masterBits = type_bit 0x00 OR type_bit 0x08 OR type_bit 0x0B;
          slaveBits = type_bit 0x01 OR type_bit 0x02;
          master = m AND masterBits \<noteq> 0; slave = m AND slaveBits \<noteq> 0
      in if master \<and> slave then MixedPeer else if master then MasterPeer
         else if slave then SlavePeer else UnknownPeer)"

definition peer_role :: "ptp_peer \<Rightarrow> ptp_peer_role" where
  "peer_role p = roleFromMask (messageTypeMask p)"

definition OuiToString :: "byte_list \<Rightarrow> string" where
  "OuiToString bs = hex2 (bs ! 0) @ '':'' @ hex2 (bs ! 1) @ '':'' @ hex2 (bs ! 2)"

definition ClockIdToString :: "byte_list \<Rightarrow> string" where
  "ClockIdToString bs = concat (map (\<lambda>i. (if i \<noteq> 0 then '':'' else []) @ hex2 (bs ! i)) [0..<8])"

definition kPeerTimeout :: int where "kPeerTimeout = 10 * 1000000000"
definition kMaxPeers :: nat where "kMaxPeers = 64"

type_synonym peer_table = "(byte_list, ptp_peer) stdmap"

definition peer_update :: "byte_list \<Rightarrow> u8 \<Rightarrow> string \<Rightarrow> int \<Rightarrow> int \<Rightarrow> ptp_peer \<Rightarrow> ptp_peer" where
  "peer_update cid msgType ip domain now row =
     (let row1 = (if messageCount row = 0 then row\<lparr>clockId := cid, peer_firstSeen := now\<rparr> else row);
          row2 = row1\<lparr>messageTypeMask := messageTypeMask row1 OR type_bit msgType\<rparr>;
          row3 = (if ip \<noteq> [] then row2\<lparr>peer_sourceIp := ip\<rparr> else row2)
      in row3\<lparr>peer_domain := domain, peer_lastSeen := now, messageCount := messageCount row3 + 1\<rparr>)"

definition peer_record :: "byte_list \<Rightarrow> u8 \<times> string \<times> int \<Rightarrow> int \<Rightarrow> peer_table \<Rightarrow> peer_table" where
  "peer_record cid msg now rows = (case msg of (msgType, ip, domain) \<Rightarrow>
     (let rows1 = make_room kMaxPeers peer_lastSeen cid rows;
          row = (case map_find rows1 cid of None \<Rightarrow> peer_default | Some r \<Rightarrow> r)
      in map_put cid (peer_update cid msgType ip domain now row) rows1))"

definition peer_sweep :: "int \<Rightarrow> peer_table \<Rightarrow> peer_table" where
  "peer_sweep now rows = drop_unheard kPeerTimeout peer_lastSeen now rows"

definition peers :: "peer_table \<Rightarrow> ptp_peer list" where
  "peers rows = map snd rows"

definition countByRole :: "ptp_peer_role \<Rightarrow> peer_table \<Rightarrow> nat" where
  "countByRole r rows = length (filter (\<lambda>(k, p). peer_role p = r) rows)"

section \<open>RTCP reporters\<close>

record rtcp_reporter =
  rep_ssrc :: u32
  rep_sourceIp :: string
  rep_cname :: string
  rep_firstSeen :: int
  rep_lastSeen :: int
  packetCount :: u64

definition reporter_default :: rtcp_reporter where
  "reporter_default = \<lparr>rep_ssrc = 0, rep_sourceIp = [], rep_cname = [], rep_firstSeen = 0,
     rep_lastSeen = 0, packetCount = 0\<rparr>"

definition kReporterTimeout :: int where "kReporterTimeout = 60 * 1000000000"
definition kMaxReporters :: nat where "kMaxReporters = 256"

type_synonym reporter_table = "(u32, rtcp_reporter) stdmap"

definition reporter_update :: "u32 \<Rightarrow> string \<Rightarrow> string \<Rightarrow> int \<Rightarrow> rtcp_reporter \<Rightarrow> rtcp_reporter" where
  "reporter_update s ip cname now r =
     (let r1 = (if packetCount r = 0 then r\<lparr>rep_ssrc := s, rep_firstSeen := now\<rparr> else r);
          r2 = (if ip \<noteq> [] then r1\<lparr>rep_sourceIp := ip\<rparr> else r1);
          r3 = (if cname \<noteq> [] then r2\<lparr>rep_cname := cname\<rparr> else r2)
      in r3\<lparr>rep_lastSeen := now, packetCount := packetCount r3 + 1\<rparr>)"

definition reporter_record :: "u32 \<Rightarrow> string \<times> string \<Rightarrow> int \<Rightarrow> reporter_table \<Rightarrow> reporter_table" where
  "reporter_record s msg now rows = (case msg of (ip, cname) \<Rightarrow>
     (let rows1 = make_room kMaxReporters rep_lastSeen s rows;
          row = (case map_find rows1 s of None \<Rightarrow> reporter_default | Some r \<Rightarrow> r)
      in map_put s (reporter_update s ip cname now row) rows1))"

definition reporter_sweep :: "int \<Rightarrow> reporter_table \<Rightarrow> reporter_table" where
  "reporter_sweep now rows = drop_unheard kReporterTimeout rep_lastSeen now rows"

definition reporters :: "reporter_table \<Rightarrow> rtcp_reporter list" where
  "reporters rows = map snd rows"

section \<open>Eviction takes one oldest row\<close>

lemma min_from_in: "min_from seen best xs \<in> insert best (set xs)"
proof (induction seen best xs rule: min_from.induct)
  case (2 seen best x xs)
  then show ?case by (auto split: if_splits)
qed simp

lemma min_from_le: "y \<in> insert best (set xs) \<Longrightarrow> seen (snd (min_from seen best xs)) \<le> seen (snd y)"
proof (induction seen best xs arbitrary: y rule: min_from.induct)
  case (2 seen best x xs)
  let ?b = "if seen (snd x) < seen (snd best) then x else best"
  have b: "seen (snd (min_from seen ?b xs)) \<le> seen (snd ?b)" by (rule "2.IH") simp
  have ys: "seen (snd (min_from seen ?b xs)) \<le> seen (snd y)" if "y \<in> set xs" by (rule "2.IH") (simp add: that)
  have "seen (snd ?b) \<le> seen (snd x)" "seen (snd ?b) \<le> seen (snd best)" by auto
  then have "seen (snd (min_from seen ?b xs)) \<le> seen (snd y)" if "y = x \<or> y = best"
    using that b by (meson order_trans)
  then show ?case using "2.prems" ys by auto
qed simp

lemma length_map_put: "length (map_put k v m) = (if map_find m k = None then Suc (length m) else length m)"
  if "sorted_map m" for m :: "('k::linorder, 'v) stdmap"
  using that
proof (induction m)
  case (Cons p m)
  obtain k' v' where p: "p = (k', v')" by force
  have "map_find m k = None" if "k < k'" using Cons.prems that by (auto simp: p map_find_None)
  then show ?case using Cons by (auto simp: p)
qed simp

lemma length_map_erase:
  "sorted_map m \<Longrightarrow> map_find m k = Some v \<Longrightarrow> length (map_erase k m) = length m - 1"
proof (induction m)
  case (Cons p m)
  obtain k' v' where p: "p = (k', v')" by force
  show ?case
  proof (cases "k' = k")
    case True
    then have "map_erase k m = m" using Cons.prems by (intro map_erase_absent) (auto simp: p)
    then show ?thesis using True by (simp add: p map_erase_def)
  next
    case False
    then have f: "map_find m k = Some v" using Cons.prems by (simp add: p)
    then have "m \<noteq> []" by auto
    then show ?thesis using Cons f False by (simp add: p map_erase_def)
  qed
qed simp

lemma evict_spec:
  assumes "sorted_map m" "m \<noteq> []"
  shows "\<exists>k v. evictLeastRecentlySeen seen m = map_erase k m \<and> map_find m k = Some v \<and>
    (\<forall>j w. map_find m j = Some w \<longrightarrow> seen v \<le> seen w)"
proof -
  obtain x xs where m: "m = x # xs" using assms(2) by (cases m) auto
  let ?b = "min_from seen x xs"
  have "(fst ?b, snd ?b) \<in> set m" using min_from_in [of seen x xs] by (auto simp: m)
  then have "map_find m (fst ?b) = Some (snd ?b)" using map_find_iff [OF assms(1)] by blast
  moreover have "seen (snd ?b) \<le> seen w" if "map_find m j = Some w" for j w
    using min_from_le [of "(j, w)" x xs seen] map_find_in [OF that] by (auto simp: m)
  ultimately show ?thesis by (intro exI [of _ "fst ?b"] exI [of _ "snd ?b"]) (simp add: evictLeastRecentlySeen_def m)
qed

lemma make_room_spec:
  assumes "sorted_map m" "0 < cap" "length m \<le> cap"
  shows "sorted_map (make_room cap seen k m)"
    "map_find (make_room cap seen k m) k = map_find m k"
    "map_find m k = None \<Longrightarrow> length (make_room cap seen k m) < cap"
    "length (make_room cap seen k m) \<le> cap"
    "map_find (make_room cap seen k m) k' = map_find m k' \<or>
       (map_find m k = None \<and> length m \<ge> cap \<and>
        (\<exists>v. map_find m k' = Some v \<and> (\<forall>j w. map_find m j = Some w \<longrightarrow> seen v \<le> seen w)))"
proof -
  consider (room) "make_room cap seen k m = m" "map_find m k \<noteq> None \<or> length m < cap"
    | (evict) j v where "make_room cap seen k m = map_erase j m" "map_find m k = None" "length m = cap"
        "map_find m j = Some v" "\<forall>j w. map_find m j = Some w \<longrightarrow> seen v \<le> seen w"
        "length (map_erase j m) < cap"
  proof (cases "map_find m k = None \<and> length m \<ge> cap")
    case True
    then have "m \<noteq> []" using assms(2) by auto
    from evict_spec [OF assms(1) this, of seen] obtain j v where
      jv: "evictLeastRecentlySeen seen m = map_erase j m" "map_find m j = Some v"
        "\<forall>j w. map_find m j = Some w \<longrightarrow> seen v \<le> seen w" by blast
    show ?thesis
      by (rule evict [of j v])
        (use True assms(2,3) jv length_map_erase [OF assms(1) jv(2)] in \<open>simp_all add: make_room_def\<close>)
  qed (use room in \<open>auto simp: make_room_def\<close>)
  note cases = this
  show "sorted_map (make_room cap seen k m)" by (cases rule: cases) (simp_all add: assms(1) sorted_map_erase)
  show "map_find (make_room cap seen k m) k = map_find m k" by (cases rule: cases) auto
  show "map_find m k = None \<Longrightarrow> length (make_room cap seen k m) < cap"
    by (cases rule: cases) (use assms in auto)
  show "length (make_room cap seen k m) \<le> cap"
    by (cases rule: cases) (use assms in auto)
  show "map_find (make_room cap seen k m) k' = map_find m k' \<or>
       (map_find m k = None \<and> length m \<ge> cap \<and>
        (\<exists>v. map_find m k' = Some v \<and> (\<forall>j w. map_find m j = Some w \<longrightarrow> seen v \<le> seen w)))"
    by (cases rule: cases) auto
qed

section \<open>The contract of both tables\<close>

locale aged_table =
  fixes empty :: 't
    and hear :: "'k \<Rightarrow> 'a \<Rightarrow> int \<Rightarrow> 't \<Rightarrow> 't"
    and sweep :: "int \<Rightarrow> 't \<Rightarrow> 't"
    and find :: "'t \<Rightarrow> 'k \<Rightarrow> 'v option"
    and size :: "'t \<Rightarrow> nat"
    and seen :: "'v \<Rightarrow> int"
    and cap :: nat
    and timeout :: int
    and inv :: "'t \<Rightarrow> bool"
  assumes inv_empty: "inv empty"
    and inv_record: "inv t \<Longrightarrow> inv (hear k a now t)"
    and inv_sweep: "inv t \<Longrightarrow> inv (sweep now t)"
    and inv_size: "inv t \<Longrightarrow> size t \<le> cap"
    and record_same: "inv t \<Longrightarrow> \<exists>v. find (hear k a now t) k = Some v \<and> seen v = now"
    and record_other: "inv t \<Longrightarrow> k' \<noteq> k \<Longrightarrow> find (hear k a now t) k' \<noteq> find t k' \<Longrightarrow>
       find t k = None \<and> size t = cap \<and>
       (\<exists>v. find t k' = Some v \<and> (\<forall>j w. find t j = Some w \<longrightarrow> seen v \<le> seen w))"
    and sweep_find: "inv t \<Longrightarrow> find (sweep now t) k = (case find t k of
       None \<Rightarrow> None | Some v \<Rightarrow> if now - seen v > timeout then None else Some v)"
begin

lemma run_inv: "inv t \<Longrightarrow> inv (fold (\<lambda>(k, a, now). hear k a now) msgs t)"
  by (induction msgs arbitrary: t) (auto simp: inv_record)

lemma run_bounded: "size (fold (\<lambda>(k, a, now). hear k a now) msgs empty) \<le> cap"
  using run_inv [OF inv_empty] inv_size by blast

lemma run_last: "\<exists>v. find (fold (\<lambda>(k, a, now). hear k a now) (msgs @ [(k, a, now)]) empty) k = Some v \<and> seen v = now"
  using record_same [OF run_inv [OF inv_empty, of msgs]] by simp

text \<open>A row heard more recently than some other row survives the next message.\<close>

lemma recent_survives:
  "inv t \<Longrightarrow> find t k' = Some v \<Longrightarrow> find t j = Some w \<Longrightarrow> seen w < seen v \<Longrightarrow> k' \<noteq> k \<Longrightarrow>
   find (hear k a now t) k' = Some v"
  using record_other [of t k' k a now] by (metis not_le option.inject)

end

definition peer_inv :: "peer_table \<Rightarrow> bool" where
  "peer_inv rows \<longleftrightarrow> sorted_map rows \<and> length rows \<le> kMaxPeers"

definition reporter_inv :: "reporter_table \<Rightarrow> bool" where
  "reporter_inv rows \<longleftrightarrow> sorted_map rows \<and> length rows \<le> kMaxReporters"

declare peer_inv_def [inv_defs] reporter_inv_def [inv_defs]

lemma drop_unheard_sorted: "sorted_map m \<Longrightarrow> sorted_map (drop_unheard timeout seen now m)"
  by (induction m) (auto simp: drop_unheard_def)

lemma drop_unheard_find:
  "sorted_map m \<Longrightarrow> map_find (drop_unheard timeout seen now m) k = (case map_find m k of
     None \<Rightarrow> None | Some v \<Rightarrow> if now - seen v > timeout then None else Some v)"
proof (induction m)
  case (Cons p m)
  obtain k' v' where p: "p = (k', v')" by force
  have "map_find m k' = None" using Cons.prems by (auto simp: p map_find_None)
  then show ?case using Cons by (auto simp: p drop_unheard_def)
qed (simp add: drop_unheard_def)

lemma drop_unheard_length: "length (drop_unheard timeout seen now m) \<le> length m"
  by (simp add: drop_unheard_def)

text \<open>The common body of the two \<open>record\<close> functions.\<close>

lemma put_in_room:
  assumes "sorted_map m" "0 < cap" "length m \<le> cap"
  shows "sorted_map (map_put k r (make_room cap seen k m))" "length (map_put k r (make_room cap seen k m)) \<le> cap"
    "k' \<noteq> k \<Longrightarrow> map_find (map_put k r (make_room cap seen k m)) k' \<noteq> map_find m k' \<Longrightarrow>
       map_find m k = None \<and> length m = cap \<and>
       (\<exists>v. map_find m k' = Some v \<and> (\<forall>j w. map_find m j = Some w \<longrightarrow> seen v \<le> seen w))"
proof -
  note M = make_room_spec [OF assms, where seen = seen and k = k]
  show "sorted_map (map_put k r (make_room cap seen k m))" using M(1) by (rule sorted_map_put)
  show "length (map_put k r (make_room cap seen k m)) \<le> cap"
    using length_map_put [OF M(1), of k r] M(2,3,4) by (cases "map_find m k") auto
  show "map_find m k = None \<and> length m = cap \<and>
       (\<exists>v. map_find m k' = Some v \<and> (\<forall>j w. map_find m j = Some w \<longrightarrow> seen v \<le> seen w))"
    if "k' \<noteq> k" "map_find (map_put k r (make_room cap seen k m)) k' \<noteq> map_find m k'"
    using M(5) [of k'] that assms(3) by auto
qed

lemma peer_update_seen [simp]: "peer_lastSeen (peer_update cid ty ip d now row) = now"
  by (simp add: peer_update_def Let_def)

lemma reporter_update_seen [simp]: "rep_lastSeen (reporter_update s ip cname now r) = now"
  by (simp add: reporter_update_def Let_def)

interpretation ptp_peers: aged_table "[]" peer_record peer_sweep map_find length peer_lastSeen kMaxPeers kPeerTimeout peer_inv
proof unfold_locales
  fix t :: peer_table and k k' and a :: "u8 \<times> string \<times> int" and now
  assume "peer_inv t"
  then have t: "sorted_map t" "0 < kMaxPeers" "length t \<le> kMaxPeers" by (simp_all add: peer_inv_def kMaxPeers_def)
  obtain ty ip d where a: "a = (ty, ip, d)" by (cases a) auto
  show "peer_inv (peer_record k a now t)"
    using put_in_room(1,2) [OF t] by (simp add: peer_inv_def peer_record_def a Let_def)
  show "peer_inv (peer_sweep now t)"
    using t drop_unheard_length [of kPeerTimeout peer_lastSeen now t]
    by (simp add: peer_inv_def peer_sweep_def drop_unheard_sorted)
  show "\<exists>v. map_find (peer_record k a now t) k = Some v \<and> peer_lastSeen v = now"
    by (simp add: peer_record_def a Let_def)
  show "map_find t k = None \<and> length t = kMaxPeers \<and>
       (\<exists>v. map_find t k' = Some v \<and> (\<forall>j w. map_find t j = Some w \<longrightarrow> peer_lastSeen v \<le> peer_lastSeen w))"
    if "k' \<noteq> k" "map_find (peer_record k a now t) k' \<noteq> map_find t k'"
    using that put_in_room(3) [OF t that(1)] by (simp add: peer_record_def a Let_def)
  show "map_find (peer_sweep now t) k = (case map_find t k of None \<Rightarrow> None
     | Some v \<Rightarrow> if kPeerTimeout < now - peer_lastSeen v then None else Some v)"
    using t by (simp add: peer_sweep_def drop_unheard_find)
qed (simp_all add: peer_inv_def)

interpretation rtcp_reporters: aged_table "[]" reporter_record reporter_sweep map_find length rep_lastSeen kMaxReporters kReporterTimeout reporter_inv
proof unfold_locales
  fix t :: reporter_table and k k' and a :: "string \<times> string" and now
  assume "reporter_inv t"
  then have t: "sorted_map t" "0 < kMaxReporters" "length t \<le> kMaxReporters" by (simp_all add: reporter_inv_def kMaxReporters_def)
  obtain ip cname where a: "a = (ip, cname)" by (cases a) auto
  show "reporter_inv (reporter_record k a now t)"
    using put_in_room(1,2) [OF t] by (simp add: reporter_inv_def reporter_record_def a Let_def)
  show "reporter_inv (reporter_sweep now t)"
    using t drop_unheard_length [of kReporterTimeout rep_lastSeen now t]
    by (simp add: reporter_inv_def reporter_sweep_def drop_unheard_sorted)
  show "\<exists>v. map_find (reporter_record k a now t) k = Some v \<and> rep_lastSeen v = now"
    by (simp add: reporter_record_def a Let_def)
  show "map_find t k = None \<and> length t = kMaxReporters \<and>
       (\<exists>v. map_find t k' = Some v \<and> (\<forall>j w. map_find t j = Some w \<longrightarrow> rep_lastSeen v \<le> rep_lastSeen w))"
    if "k' \<noteq> k" "map_find (reporter_record k a now t) k' \<noteq> map_find t k'"
    using that put_in_room(3) [OF t that(1)] by (simp add: reporter_record_def a Let_def)
  show "map_find (reporter_sweep now t) k = (case map_find t k of None \<Rightarrow> None
     | Some v \<Rightarrow> if kReporterTimeout < now - rep_lastSeen v then None else Some v)"
    using t by (simp add: reporter_sweep_def drop_unheard_find)
qed (simp_all add: reporter_inv_def)

end
