(* ===== verification/RTCP_Parser.thy ===== *)
theory RTCP_Parser
  imports Peer_Tables
begin

text \<open>
  The RTCP parser of \<open>src/packages/aes67-core/NetworkEngine/Discovery/RTCPReceiverTable.h\<close>. Every read of the packet
  goes through \<open>byte_at\<close> and its relatives, so that a read outside it would make the result \<open>None\<close>;
  \<open>rtcp_parse_total\<close> says that it never is. The loops are functions whose termination proofs show that
  every round advances.
\<close>

section \<open>The parser\<close>

definition kRTCP_SR :: u8 where "kRTCP_SR = 200"
definition kRTCP_RR :: u8 where "kRTCP_RR = 201"
definition kRTCP_SDES :: u8 where "kRTCP_SDES = 202"

record rtcp_result =
  reporterSSRCs :: "u32 list"
  cnames :: "(u32 \<times> string) list"
  valid :: bool

text \<open>
  The items of one chunk. \<open>Inl\<close> is the return from a malformed chunk with the names found so far,
  \<open>Inr\<close> the position after the items.
\<close>

function sdes_items :: "byte_list \<Rightarrow> nat \<Rightarrow> u32 \<Rightarrow> nat \<Rightarrow> (u32 \<times> string) list \<Rightarrow>
    ((u32 \<times> string) list + nat \<times> (u32 \<times> string) list) option" where
  "sdes_items pkt pktBytes s p acc =
     (if \<not> p < pktBytes then Some (Inr (p, acc))
      else (case byte_at pkt p of
          None \<Rightarrow> None
        | Some type \<Rightarrow>
            if type = 0 then Some (Inr (p + 1, acc))
            else if p + 1 \<ge> pktBytes then Some (Inl acc)
            else (case byte_at pkt (p + 1) of
                None \<Rightarrow> None
              | Some itemLen \<Rightarrow>
                  if p + 2 + unat itemLen > pktBytes then Some (Inl acc)
                  else if p + 2 + unat itemLen > length pkt then None
                  else sdes_items pkt pktBytes s (p + 2 + unat itemLen)
                    (if type = 1 then acc @ [(s, bytes_string (take (unat itemLen) (drop (p + 2) pkt)))] else acc))))"
  by pat_completeness auto

termination
  by (relation "measure (\<lambda>(pkt, n, s, p, acc). n - p)") auto

declare sdes_items.simps [simp del]

text \<open>The next multiple of four.\<close>

definition align4 :: "nat \<Rightarrow> nat" where
  "align4 p = (p + 3) div 4 * 4"

lemma align4_ge: "p \<le> align4 p"
  unfolding align4_def by presburger

lemma sdes_items_mono: "sdes_items pkt n s p acc = Some (Inr (p', acc')) \<Longrightarrow> p \<le> p'"
proof (induction pkt n s p acc rule: sdes_items.induct)
  case (1 pkt n s p acc)
  then show ?case
    by (subst (asm) (2) sdes_items.simps) (fastforce split: if_splits option.splits)
qed

function sdes_chunks :: "byte_list \<Rightarrow> nat \<Rightarrow> nat \<Rightarrow> (u32 \<times> string) list \<Rightarrow> (u32 \<times> string) list option" where
  "sdes_chunks pkt pktBytes p acc =
     (if \<not> p + 4 \<le> pktBytes then Some acc
      else (case read32 pkt p of
          None \<Rightarrow> None
        | Some s \<Rightarrow> (case sdes_items pkt pktBytes s (p + 4) acc of
            None \<Rightarrow> None
          | Some (Inl acc') \<Rightarrow> Some acc'
          | Some (Inr (p', acc')) \<Rightarrow> sdes_chunks pkt pktBytes (align4 p') acc')))"
  by pat_completeness auto

termination
proof (relation "measure (\<lambda>(pkt, n, p, acc). n - p)", goal_cases)
  case (2 pkt n p acc s r a p' acc')
  then have "p + 4 \<le> p'" using sdes_items_mono by auto
  then have "p < align4 p'" using align4_ge [of p'] by linarith
  then show ?case using 2(1) by auto
qed simp

declare sdes_chunks.simps [simp del]

definition parseSDES :: "byte_list \<Rightarrow> nat \<Rightarrow> (u32 \<times> string) list \<Rightarrow> (u32 \<times> string) list option" where
  "parseSDES pkt pktBytes acc = sdes_chunks pkt pktBytes 4 acc"

function rtcp_loop :: "byte_list \<Rightarrow> nat \<Rightarrow> bool \<Rightarrow> rtcp_result \<Rightarrow> rtcp_result option" where
  "rtcp_loop data off sawAny out =
     (if \<not> off + 4 \<le> length data then Some (out\<lparr>valid := sawAny\<rparr>)
      else (case (byte_at data off, byte_at data (off + 1), read16 data (off + 2)) of
          (Some b0, Some pt, Some lenWords) \<Rightarrow>
            (let pktBytes = (unat lenWords + 1) * 4 in
             if drop_bit 6 b0 AND 0x03 \<noteq> 2 then Some (out\<lparr>valid := False\<rparr>)
             else if off + pktBytes > length data then Some (out\<lparr>valid := sawAny\<rparr>)
             else if pt = kRTCP_SR \<or> pt = kRTCP_RR
             then (if pktBytes \<ge> 8
                   then (case read32 data (off + 4) of
                       None \<Rightarrow> None
                     | Some s \<Rightarrow> rtcp_loop data (off + pktBytes) True
                         (out\<lparr>reporterSSRCs := reporterSSRCs out @ [s]\<rparr>))
                   else rtcp_loop data (off + pktBytes) True out)
             else if pt = kRTCP_SDES
             then (case parseSDES (drop off data) pktBytes (cnames out) of
                 None \<Rightarrow> None
               | Some cs \<Rightarrow> rtcp_loop data (off + pktBytes) True (out\<lparr>cnames := cs\<rparr>))
             else rtcp_loop data (off + pktBytes) True out)
        | _ \<Rightarrow> None))"
  by pat_completeness auto

termination
  by (relation "measure (\<lambda>(data, off, saw, out). length data - off)") auto

declare rtcp_loop.simps [simp del]

definition rtcp_parse :: "byte_list \<Rightarrow> rtcp_result option" where
  "rtcp_parse data = rtcp_loop data 0 False \<lparr>reporterSSRCs = [], cnames = [], valid = False\<rparr>"

section \<open>Every read is inside the packet\<close>

lemma sdes_items_total: "n \<le> length pkt \<Longrightarrow> sdes_items pkt n s p acc \<noteq> None"
proof (induction pkt n s p acc rule: sdes_items.induct)
  case (1 pkt n s p acc)
  then show ?case by (subst sdes_items.simps) auto
qed

lemma sdes_chunks_total: "n \<le> length pkt \<Longrightarrow> sdes_chunks pkt n p acc \<noteq> None"
proof (induction pkt n p acc rule: sdes_chunks.induct)
  case (1 pkt n p acc)
  show ?case
  proof (cases "p + 4 \<le> n")
    case True
    then have r: "\<exists>s. read32 pkt p = Some s" using 1 by simp
    then show ?thesis
      using 1 True sdes_items_total [of n pkt _ "p + 4" acc]
      by (subst sdes_chunks.simps) (fastforce split: option.split sum.split)
  qed (subst sdes_chunks.simps, simp)
qed

lemma rtcp_loop_total: "rtcp_loop data off saw out \<noteq> None"
proof (induction data off saw out rule: rtcp_loop.induct)
  case (1 data off saw out)
  show ?case
  proof (cases "off + 4 \<le> length data")
    case True
    then have b: "byte_at data off = Some (data ! off)" "byte_at data (off + 1) = Some (data ! (off + 1))"
      "read16 data (off + 2) = Some (be16 (data ! (off + 2)) (data ! (off + 3)))"
      using read16_in [of "off + 2" data] by (simp_all add: numeral_3_eq_3)
    let ?n = "(unat (be16 (data ! (off + 2)) (data ! (off + 3))) + 1) * 4"
    show ?thesis
    proof (cases "off + ?n \<le> length data")
      case n: True
      have "parseSDES (drop off data) ?n (cnames out) \<noteq> None"
        unfolding parseSDES_def using n by (intro sdes_chunks_total) simp
      then show ?thesis
        using 1 True b n by (subst rtcp_loop.simps) (auto simp: Let_def split: option.split)
    next
      case False
      then show ?thesis using True b by (subst rtcp_loop.simps) (auto simp: Let_def)
    qed
  qed (subst rtcp_loop.simps, simp)
qed

section \<open>Theorems\<close>

text \<open>
  the RTCP parser returns for every packet, whatever its bytes, without reading outside it.
\<close>

theorem rtcp_parse_total: "\<exists>r. rtcp_parse data = Some r"
  using rtcp_loop_total by (auto simp: rtcp_parse_def)

text \<open>
  a compound packet whose second part is cut short is still reported as valid, although the
  comment promises \<open>valid=false\<close> for a truncated packet.
\<close>

theorem rtcp_truncated_valid:
  "map_option (\<lambda>r. (reporterSSRCs r, valid r)) (rtcp_parse [0x80, 201, 0, 1, 0, 0, 0, 7, 0x80, 201, 0, 9]) = Some ([7], True)"
  by code_simp

text \<open>
  whatever is received, the PTP peer table holds at most 64 rows and the RTCP reporter table at
  most 256, the sender of the last message is always in its table with the time of that message,
  and making room only ever drops a row of which no other row is older.
\<close>

theorem peer_tables_bounded:
  "length (fold (\<lambda>(k, a, now). peer_record k a now) msgs []) \<le> kMaxPeers \<and>
   length (fold (\<lambda>(k, a, now). reporter_record k a now) rmsgs []) \<le> kMaxReporters \<and>
   (\<exists>v. map_find (fold (\<lambda>(k, a, now). peer_record k a now) (msgs @ [(cid, m, t)]) []) cid = Some v \<and> peer_lastSeen v = t) \<and>
   (\<exists>v. map_find (fold (\<lambda>(k, a, now). reporter_record k a now) (rmsgs @ [(s, rm, t)]) []) s = Some v \<and> rep_lastSeen v = t)"
  using ptp_peers.run_bounded rtcp_reporters.run_bounded ptp_peers.run_last rtcp_reporters.run_last by blast

text \<open>
  in a full peer table, a peer heard more recently than some other peer is not the one a new
  identity displaces, and a sweep drops exactly the peers unheard for more than ten seconds.
\<close>

theorem peer_eviction_lru:
  assumes "peer_inv t" "map_find t k' = Some v" "map_find t j = Some w" "peer_lastSeen w < peer_lastSeen v" "k' \<noteq> k"
  shows "map_find (peer_record k a now t) k' = Some v \<and>
    (map_find (peer_sweep now t) k' = None \<longleftrightarrow> now - peer_lastSeen v > 10 * 1000000000)"
  using ptp_peers.recent_survives [OF assms, of a now] ptp_peers.sweep_find [OF assms(1), of now k'] assms(2)
  by (simp add: kPeerTimeout_def)

theorem peer_eviction_lru_witness:
  "map_find (peer_record [3] (0, [], 0) 30 [([1], peer_default), ([2], peer_default\<lparr>peer_lastSeen := 20\<rparr>)]) [2] =
     Some (peer_default\<lparr>peer_lastSeen := 20\<rparr>)"
proof -
  let ?t = "[([1], peer_default), ([2], peer_default\<lparr>peer_lastSeen := 20\<rparr>)]"
  have "peer_inv ?t" by (simp add: peer_inv_def kMaxPeers_def less_list_code)
  then show ?thesis
    using peer_eviction_lru [of ?t "[2]" "peer_default\<lparr>peer_lastSeen := 20\<rparr>" "[1]" peer_default "[3]" "(0, [], 0)" 30]
    by (simp add: peer_default_def)
qed

end
