(* ===== verification/PTP_Types.thy ===== *)
theory PTP_Types
  imports Std_Strings
begin

text \<open>
  The PTP vocabulary: message types, timestamps, identities and headers of
  \<open>src/packages/aes67-core/NetworkEngine/PTP/PTPProtocolTypes.h\<close> and \<open>.cpp\<close>, the log2 intervals of
  \<open>src/packages/aes67-profiles/Profiles/PtpIntervals.h\<close>, the profile table of \<open>PtpProfiles.h\<close> and the edge
  arithmetic of \<open>src/packages/aes67-linux-ptpd/src/ReferenceMath.h\<close>. An \<open>int8_t\<close> is an 8-bit word read
  with \<open>sint\<close>; an identity is the list of its eight bytes.
\<close>

type_synonym i8 = "8 word"

section \<open>Message types\<close>

text \<open>The enumeration has a fixed underlying type, so a cast may hold a value it does not name.\<close>

datatype ptp_message_type = Sync | Delay_Req | Pdelay_Req | Pdelay_Resp | Follow_Up | Delay_Resp
  | Pdelay_Resp_FU | Announce | Signaling | Management | Unnamed u8

fun message_code :: "ptp_message_type \<Rightarrow> u8" where
  "message_code Sync = 0x00"
| "message_code Delay_Req = 0x01"
| "message_code Pdelay_Req = 0x02"
| "message_code Pdelay_Resp = 0x03"
| "message_code Follow_Up = 0x08"
| "message_code Delay_Resp = 0x09"
| "message_code Pdelay_Resp_FU = 0x0A"
| "message_code Announce = 0x0B"
| "message_code Signaling = 0x0C"
| "message_code Management = 0x0D"
| "message_code (Unnamed c) = c"

definition named_types :: "ptp_message_type list" where
  "named_types = [Sync, Delay_Req, Pdelay_Req, Pdelay_Resp, Follow_Up, Delay_Resp, Pdelay_Resp_FU, Announce,
     Signaling, Management]"

definition message_type_of :: "u8 \<Rightarrow> ptp_message_type" where
  "message_type_of c = (case find (\<lambda>t. message_code t = c) named_types of Some t \<Rightarrow> t | None \<Rightarrow> Unnamed c)"

section \<open>Timestamps\<close>

record ptp_timestamp =
  secondsHi :: u16
  secondsLo :: u32
  nanoseconds :: u32

definition PTPTimestamp :: "u64 \<Rightarrow> ptp_timestamp" where
  "PTPTimestamp totalNs = (let totalSec = totalNs div 1000000000 in
     \<lparr>secondsHi = ucast (drop_bit 32 totalSec AND 0xFFFF),
      secondsLo = ucast (totalSec AND 0xFFFFFFFF),
      nanoseconds = ucast (totalNs mod 1000000000)\<rparr>)"

definition toNanoseconds :: "ptp_timestamp \<Rightarrow> u64" where
  "toNanoseconds t = (let totalSec = push_bit 32 (ucast (secondsHi t)) OR ucast (secondsLo t) in
     totalSec * 1000000000 + ucast (nanoseconds t))"

definition ts_isZero :: "ptp_timestamp \<Rightarrow> bool" where
  "ts_isZero t \<longleftrightarrow> secondsHi t = 0 \<and> secondsLo t = 0 \<and> nanoseconds t = 0"

section \<open>Identities and the common header\<close>

type_synonym clock_identity = byte_list

definition cid_zero :: clock_identity where
  "cid_zero = replicate 8 0"

definition cid_toString :: "clock_identity \<Rightarrow> string" where
  "cid_toString cid = concat (map (\<lambda>i. (if i > 0 then '':'' else []) @ hex2 (cid ! i)) [0..<8])"

definition fromMAC :: "byte_list \<Rightarrow> clock_identity" where
  "fromMAC mac = [mac ! 0, mac ! 1, mac ! 2, 0xFF, 0xFE, mac ! 3, mac ! 4, mac ! 5]"

record port_identity =
  pi_clockIdentity :: clock_identity
  pi_portNumber :: u16

record ptp_header =
  transportAndType :: u8
  versionPTP :: u8
  messageLength :: u16
  h_domainNumber :: u8
  reserved1 :: u8
  flagField :: u16
  correctionField :: u64
  reserved2 :: u32
  sourcePortIdentity :: port_identity
  h_sequenceId :: u16
  controlField :: u8
  logMessageInterval :: i8

definition header_zero :: ptp_header where
  "header_zero = \<lparr>transportAndType = 0, versionPTP = 0, messageLength = 0, h_domainNumber = 0, reserved1 = 0,
     flagField = 0, correctionField = 0, reserved2 = 0,
     sourcePortIdentity = \<lparr>pi_clockIdentity = cid_zero, pi_portNumber = 0\<rparr>,
     h_sequenceId = 0, controlField = 0, logMessageInterval = 0\<rparr>"

definition getMessageType :: "ptp_header \<Rightarrow> ptp_message_type" where
  "getMessageType h = message_type_of (transportAndType h AND 0x0F)"

definition getMajorSdoId :: "ptp_header \<Rightarrow> u8" where
  "getMajorSdoId h = drop_bit 4 (transportAndType h) AND 0x0F"

section \<open>Intervals\<close>

definition ptpLogIntervalToMilliseconds :: "i8 \<Rightarrow> u32" where
  "ptpLogIntervalToMilliseconds l = (let n = sint l in
     if n \<ge> 0 then (if n > 21 then 0 else push_bit (nat n) 1000)
     else if n < -9 then 0
     else (let divisor = push_bit (nat (- n)) 1 in (1000 + divisor div 2) div divisor))"

definition ptpLogIntervalToNanoseconds :: "i8 \<Rightarrow> u64" where
  "ptpLogIntervalToNanoseconds l = (let n = sint l in
     if n \<ge> 0 then (if n > 21 then 0 else push_bit (nat n) 1000000000)
     else if n < -9 then 0
     else drop_bit (nat (- n)) 1000000000)"

section \<open>Profiles\<close>

record profile_settings =
  domainNumber :: u8
  majorSdoId :: u8
  logSyncInterval :: i8
  logAnnounceInterval :: i8
  logMinDelayReqInterval :: i8

record ptp_profile =
  prof_name :: string
  prof_settings :: profile_settings

definition settings_of :: "u8 \<Rightarrow> u8 \<Rightarrow> i8 \<Rightarrow> i8 \<Rightarrow> i8 \<Rightarrow> profile_settings" where
  "settings_of d m s a r = \<lparr>domainNumber = d, majorSdoId = m, logSyncInterval = s, logAnnounceInterval = a,
     logMinDelayReqInterval = r\<rparr>"

definition kPtpDefaultProfile :: ptp_profile where
  "kPtpDefaultProfile = \<lparr>prof_name = ''default1588'', prof_settings = settings_of 0 0 0 1 0\<rparr>"

definition kPtpAes67MediaProfile :: ptp_profile where
  "kPtpAes67MediaProfile = \<lparr>prof_name = ''aes67'', prof_settings = settings_of 0 0 (-3) 0 (-3)\<rparr>"

definition kPtpAes67TightProfile :: ptp_profile where
  "kPtpAes67TightProfile = \<lparr>prof_name = ''aes67-tight'', prof_settings = settings_of 0 0 (-4) 0 (-4)\<rparr>"

definition kPtpGptpProfile :: ptp_profile where
  "kPtpGptpProfile = \<lparr>prof_name = ''gptp'', prof_settings = settings_of 0 1 (-3) 0 0\<rparr>"

definition kPtpProfiles :: "ptp_profile list" where
  "kPtpProfiles = [kPtpDefaultProfile, kPtpAes67MediaProfile, kPtpAes67TightProfile, kPtpGptpProfile]"

text \<open>A C string is the list of its characters before the terminator; the end of the list is the terminator.\<close>

fun ptpProfileNameEquals :: "string \<Rightarrow> string \<Rightarrow> bool" where
  "ptpProfileNameEquals (a # as) (b # bs) = (if a = b then ptpProfileNameEquals as bs else False)"
| "ptpProfileNameEquals [] [] = True"
| "ptpProfileNameEquals _ _ = False"

definition ptpProfileByName :: "string \<Rightarrow> ptp_profile option" where
  "ptpProfileByName name = find (\<lambda>p. ptpProfileNameEquals (prof_name p) name) kPtpProfiles"

section \<open>Where an edge falls in its second\<close>

definition kNanosecondsPerSecond :: int where "kNanosecondsPerSecond = 1000000000"

definition offsetFromSecondBoundary :: "u64 \<Rightarrow> int" where
  "offsetFromSecondBoundary edgeTimeNs =
     (let withinSecond = int (unat (edgeTimeNs mod 1000000000)) in
      if withinSecond \<ge> kNanosecondsPerSecond div 2 then withinSecond - kNanosecondsPerSecond else withinSecond)"

section \<open>Facts\<close>

lemma message_type_code [simp]: "message_type_of (message_code t) = t \<or> (\<exists>c. t = Unnamed c)"
  by (cases t) (simp_all add: message_type_of_def named_types_def)

lemma ptpProfileNameEquals_iff [simp]: "ptpProfileNameEquals a b \<longleftrightarrow> a = b"
  by (induction a b rule: ptpProfileNameEquals.induct) auto

lemma ptpProfileByName_name: "ptpProfileByName name = Some p \<Longrightarrow> prof_name p = name \<and> p \<in> set kPtpProfiles"
  by (auto simp: ptpProfileByName_def find_Some_iff)

lemma fromMAC_length [simp]: "length (fromMAC mac) = 8"
  by (simp add: fromMAC_def)

lemma list6:
  assumes "length xs = 6"
  shows "xs = [xs ! 0, xs ! 1, xs ! 2, xs ! 3, xs ! 4, xs ! 5]"
  using assms by (auto simp: length_Suc_conv eval_nat_numeral)

lemma fromMAC_inj:
  assumes "length a = 6" "length b = 6" "fromMAC a = fromMAC b"
  shows "a = b"
  using list6 [OF assms(1)] list6 [OF assms(2)] assms(3) by (simp add: fromMAC_def)

text \<open>Seconds and nanoseconds of a 64-bit count: the seconds fit in 35 bits, the rest in 30.\<close>

lemma u64_max: "unat (w :: u64) < 18446744073709551616"
  using unsigned_less [of w, where 'a = nat] by simp

lemma unat_mod_billion: "unat ((w :: u64) mod 1000000000) = unat w mod 1000000000"
  by (simp add: unat_mod_distrib)

lemma unat_div_billion: "unat ((w :: u64) div 1000000000) = unat w div 1000000000"
  by (simp add: unat_div_distrib)

lemma mask_words: "(0xFFFF :: u64) = mask 16" "(0xFFFFFFFF :: u64) = mask 32"
  by (simp_all add: mask_eq_exp_minus_1)

lemma seconds_split:
  "push_bit 32 (ucast (ucast (drop_bit 32 s AND 0xFFFF) :: u16) :: u64) OR ucast (ucast (s AND 0xFFFFFFFF) :: u32)
   = take_bit 48 (s :: u64)"
  unfolding mask_words
  by (rule bit_word_eqI)
     (auto simp: bit_or_iff bit_push_bit_iff bit_and_iff bit_unsigned_iff bit_drop_bit_eq bit_mask_iff bit_take_bit_iff)

lemma seconds_small: "take_bit 48 ((w :: u64) div 1000000000) = w div 1000000000"
proof -
  have "unat w div 1000000000 < 2 ^ 48" using u64_max [of w] by (simp add: less_mult_imp_div_less)
  then have "unat (take_bit 48 (w div 1000000000)) = unat (w div 1000000000)"
    by (simp add: unsigned_take_bit_eq unat_div_billion take_bit_nat_eq_self)
  then show ?thesis by (rule word_unat_eq_iff [THEN iffD2])
qed

lemma nanos_kept: "ucast (ucast ((w :: u64) mod 1000000000) :: u32) = w mod 1000000000"
proof -
  have "unat w mod 1000000000 < 4294967296" by (rule less_trans [of _ 1000000000]) simp_all
  then have "unat (ucast (ucast (w mod 1000000000) :: u32) :: u64) = unat (w mod 1000000000)"
    by (simp add: unsigned_ucast_eq unsigned_take_bit_eq unat_mod_billion take_bit_nat_eq_self)
  then show ?thesis by (rule word_unat_eq_iff [THEN iffD2])
qed

lemma timestamp_back: "toNanoseconds (PTPTimestamp ns) = ns"
  by (simp add: toNanoseconds_def PTPTimestamp_def Let_def seconds_split seconds_small nanos_kept
      word_mod_div_equality)

interpretation ptp_time: codec "\<lambda>_. True" PTPTimestamp toNanoseconds id
  by unfold_locales (simp_all add: timestamp_back)

text \<open>The conversions of intervals, as arithmetic on numbers.\<close>

lemma push_bit_value:
  "v * 2 ^ k < 2 ^ LENGTH('a) \<Longrightarrow> unat (push_bit k (of_nat v) :: 'a::len word) = v * 2 ^ k"
  using unat_of_nat_small [of "v * 2 ^ k", where 'a = 'a] by (simp add: push_bit_eq_mult)

lemma small_shift:
  assumes "n \<le> 21" "c * 2097152 < b"
  shows "c * 2 ^ n < (b :: nat)"
proof -
  have "(2 :: nat) ^ n \<le> 2 ^ 21" using assms(1) by (intro power_increasing) auto
  then have "c * 2 ^ n \<le> c * 2097152" by simp
  then show ?thesis using assms(2) by (rule le_less_trans)
qed

lemma one_to_nine:
  assumes "0 < k" "k \<le> (9 :: nat)"
  obtains "k = 1" | "k = 2" | "k = 3" | "k = 4" | "k = 5" | "k = 6" | "k = 7" | "k = 8" | "k = 9"
  using assms by linarith

lemma nanoseconds_up: "0 \<le> sint l \<Longrightarrow> sint l \<le> 21 \<Longrightarrow> unat (ptpLogIntervalToNanoseconds l) = 1000000000 * 2 ^ nat (sint l)"
  using push_bit_value [of 1000000000 "nat (sint l)", where 'a = 64] small_shift [of "nat (sint l)" 1000000000 "2 ^ 64"]
  by (simp add: ptpLogIntervalToNanoseconds_def)

lemma milliseconds_up: "0 \<le> sint l \<Longrightarrow> sint l \<le> 21 \<Longrightarrow> unat (ptpLogIntervalToMilliseconds l) = 1000 * 2 ^ nat (sint l)"
  using push_bit_value [of 1000 "nat (sint l)", where 'a = 32] small_shift [of "nat (sint l)" 1000 "2 ^ 32"]
  by (simp add: ptpLogIntervalToMilliseconds_def)

lemma nanoseconds_down:
  assumes "sint l < 0" "-9 \<le> sint l"
  shows "unat (ptpLogIntervalToNanoseconds l) * 2 ^ nat (- sint l) = 1000000000"
proof -
  have "0 < nat (- sint l)" "nat (- sint l) \<le> 9" using assms by auto
  then show ?thesis using assms
    by (cases rule: one_to_nine) (simp_all add: ptpLogIntervalToNanoseconds_def Let_def)
qed

lemma milliseconds_down:
  assumes "sint l < 0" "-9 \<le> sint l"
  shows "\<bar>int (unat (ptpLogIntervalToMilliseconds l)) * 2 ^ nat (- sint l) - 1000\<bar> * 2 \<le> 2 ^ nat (- sint l)"
proof -
  have "0 < nat (- sint l)" "nat (- sint l) \<le> 9" using assms by auto
  then show ?thesis using assms
    by (cases rule: one_to_nine) (simp_all add: ptpLogIntervalToMilliseconds_def Let_def)
qed

lemma interval_refused:
  "sint l < -9 \<or> 21 < sint l \<Longrightarrow> ptpLogIntervalToNanoseconds l = 0 \<and> ptpLogIntervalToMilliseconds l = 0"
  by (auto simp: ptpLogIntervalToNanoseconds_def ptpLogIntervalToMilliseconds_def Let_def)

lemma nanoseconds_zero_iff: "ptpLogIntervalToNanoseconds l = 0 \<longleftrightarrow> sint l < -9 \<or> 21 < sint l"
proof
  assume z: "ptpLogIntervalToNanoseconds l = 0"
  show "sint l < -9 \<or> 21 < sint l"
  proof (rule ccontr)
    assume "\<not> (sint l < -9 \<or> 21 < sint l)"
    then show False using z nanoseconds_up [of l] nanoseconds_down [of l] by (cases "sint l < 0") auto
  qed
qed (use interval_refused in blast)

text \<open>
  The interval conversions are exact on the range PTP uses and refuse everything else. For an exponent from
  0 to 21 both are the second count times 2 to the exponent; from -9 to -1 the nanoseconds times the
  divisor are exactly one second and the milliseconds are within half a millisecond step of it; for every
  other byte, including those a peer can put on the wire, both are zero. No shift is out of range and nothing
  wraps.
\<close>
theorem ptp_interval_exact:
  "(0 \<le> sint l \<and> sint l \<le> 21 \<longrightarrow> unat (ptpLogIntervalToNanoseconds l) = 1000000000 * 2 ^ nat (sint l) \<and>
      unat (ptpLogIntervalToMilliseconds l) = 1000 * 2 ^ nat (sint l)) \<and>
   (-9 \<le> sint l \<and> sint l < 0 \<longrightarrow> unat (ptpLogIntervalToNanoseconds l) * 2 ^ nat (- sint l) = 1000000000 \<and>
      \<bar>int (unat (ptpLogIntervalToMilliseconds l)) * 2 ^ nat (- sint l) - 1000\<bar> * 2 \<le> 2 ^ nat (- sint l)) \<and>
   (sint l < -9 \<or> 21 < sint l \<longrightarrow> ptpLogIntervalToNanoseconds l = 0 \<and> ptpLogIntervalToMilliseconds l = 0)"
  using nanoseconds_up milliseconds_up nanoseconds_down milliseconds_down interval_refused by blast

theorem ptp_interval_exact_witness:
  "unat (ptpLogIntervalToNanoseconds (-4)) * 2 ^ 4 = 1000000000 \<and> ptpLogIntervalToNanoseconds 200 = 0"
proof -
  have s: "sint (-4 :: i8) = -4" "sint (200 :: i8) = -56" by simp_all
  show ?thesis using ptp_interval_exact [of "-4"] ptp_interval_exact [of 200] unfolding s by simp
qed

end
