(* ===== verification/PTP_Wire.thy ===== *)
theory PTP_Wire
  imports PTP_Types "HOL-Library.Monad_Syntax"
begin

text \<open>
  The bytes of the four messages the Linux grandmaster sends, and the header it reads back:
  \<open>src/packages/aes67-linux-ptpd/src/PtpWire.h\<close> and \<open>PtpWire.cpp\<close>. A pointer argument is \<open>None\<close> when it is
  null and otherwise the array it points to. A write or read outside the array makes the whole call
  \<open>None\<close>, so that the theorems that give a call a result also say that it stays inside the buffer.
\<close>

section \<open>Writing bytes\<close>

definition put8 :: "byte_list \<Rightarrow> nat \<Rightarrow> u8 \<Rightarrow> byte_list option" where
  "put8 out p v = (if p < length out then Some (out[p := v]) else None)"

definition put16 :: "byte_list \<Rightarrow> nat \<Rightarrow> u16 \<Rightarrow> byte_list option" where
  "put16 out p v = do {
     out \<leftarrow> put8 out p (ucast (drop_bit 8 v));
     put8 out (p + 1) (ucast (v AND 0xFF)) }"

definition put32 :: "byte_list \<Rightarrow> nat \<Rightarrow> u32 \<Rightarrow> byte_list option" where
  "put32 out p v = do {
     out \<leftarrow> put8 out p (ucast (drop_bit 24 v));
     out \<leftarrow> put8 out (p + 1) (ucast (drop_bit 16 v AND 0xFF));
     out \<leftarrow> put8 out (p + 2) (ucast (drop_bit 8 v AND 0xFF));
     put8 out (p + 3) (ucast (v AND 0xFF)) }"

definition put_block :: "byte_list \<Rightarrow> nat \<Rightarrow> byte_list \<Rightarrow> nat \<Rightarrow> byte_list option" where
  "put_block out p src n = (if p + n \<le> length out \<and> n \<le> length src then Some (memcpy out p src n) else None)"

definition get16 :: "byte_list \<Rightarrow> nat \<Rightarrow> u16 option" where
  "get16 = read16"

definition get_block :: "byte_list \<Rightarrow> nat \<Rightarrow> nat \<Rightarrow> byte_list option" where
  "get_block bs p n = (if p + n \<le> length bs then Some (take n (drop p bs)) else None)"

definition putTimestamp :: "byte_list \<Rightarrow> nat \<Rightarrow> u64 \<Rightarrow> byte_list option" where
  "putTimestamp out p timeNs = (let seconds = timeNs div 1000000000; nanos = ucast (timeNs mod 1000000000) in do {
     out \<leftarrow> put16 out p (ucast (drop_bit 32 seconds AND 0xFFFF));
     out \<leftarrow> put32 out (p + 2) (ucast (seconds AND 0xFFFFFFFF));
     put32 out (p + 6) nanos })"

section \<open>The messages\<close>

definition kHeaderSize :: nat where "kHeaderSize = 34"
definition kSyncSize :: nat where "kSyncSize = 44"
definition kFollowUpSize :: nat where "kFollowUpSize = 44"
definition kDelayRespSize :: nat where "kDelayRespSize = 54"
definition kAnnounceSize :: nat where "kAnnounceSize = 64"
definition kMaxMessageSize :: nat where "kMaxMessageSize = 1500"

definition kFlagTwoStep :: u16 where "kFlagTwoStep = 0x0200"
definition kFlagPtpTimescale :: u16 where "kFlagPtpTimescale = 0x0008"
definition kFlagCurrentUtcOffsetValid :: u16 where "kFlagCurrentUtcOffsetValid = 0x0004"

definition kControlSync :: u8 where "kControlSync = 0x00"
definition kControlFollowUp :: u8 where "kControlFollowUp = 0x02"
definition kControlDelayResp :: u8 where "kControlDelayResp = 0x03"
definition kControlOther :: u8 where "kControlOther = 0x05"

lemmas wire_sizes = kHeaderSize_def kSyncSize_def kFollowUpSize_def kDelayRespSize_def kAnnounceSize_def

record announce_dataset =
  ad_clockIdentity :: clock_identity
  ad_priority1 :: u8
  ad_priority2 :: u8
  ad_clockClass :: u8
  ad_clockAccuracy :: u8
  offsetScaledLogVariance :: u16
  stepsRemoved :: u16
  ad_timeSource :: u8
  ad_currentUtcOffset :: u16
  ad_currentUtcOffsetValid :: bool

definition dataset_default :: announce_dataset where
  "dataset_default = \<lparr>ad_clockIdentity = cid_zero, ad_priority1 = 128, ad_priority2 = 128, ad_clockClass = 248,
     ad_clockAccuracy = 0xFE, offsetScaledLogVariance = 0xFFFF, stepsRemoved = 0, ad_timeSource = 0xA0,
     ad_currentUtcOffset = 37, ad_currentUtcOffsetValid = False\<rparr>"

record port_context =
  pc_clockIdentity :: clock_identity
  pc_portNumber :: u16
  pc_domainNumber :: u8
  pc_majorSdoId :: u8

definition port_default :: port_context where
  "port_default = \<lparr>pc_clockIdentity = cid_zero, pc_portNumber = 1, pc_domainNumber = 0, pc_majorSdoId = 0\<rparr>"

definition putHeader :: "byte_list \<Rightarrow> port_context \<Rightarrow> ptp_message_type \<Rightarrow> u16 \<Rightarrow> u16 \<Rightarrow> u16 \<Rightarrow> u8 \<Rightarrow> i8 \<Rightarrow>
    byte_list option" where
  "putHeader out port type msgLen flags sequenceId control logInterval = do {
     out \<leftarrow> put_block out 0 (replicate kHeaderSize 0) kHeaderSize;
     out \<leftarrow> put8 out 0 (push_bit 4 (pc_majorSdoId port) OR (message_code type AND 0x0F));
     out \<leftarrow> put8 out 1 0x02;
     out \<leftarrow> put16 out 2 msgLen;
     out \<leftarrow> put8 out 4 (pc_domainNumber port);
     out \<leftarrow> put16 out 6 flags;
     out \<leftarrow> put_block out 20 (pc_clockIdentity port) 8;
     out \<leftarrow> put16 out 28 (pc_portNumber port);
     out \<leftarrow> put16 out 30 sequenceId;
     out \<leftarrow> put8 out 32 control;
     put8 out 33 logInterval }"

text \<open>\<open>parseHeader\<close>: \<open>Some None\<close> is the return value false, with the result left alone.\<close>

definition parseHeader :: "byte_list option \<Rightarrow> nat \<Rightarrow> ptp_header option option" where
  "parseHeader data len = (case data of
       None \<Rightarrow> Some None
     | Some bs \<Rightarrow> if len < kHeaderSize then Some None else do {
         tt \<leftarrow> byte_at bs 0;
         v \<leftarrow> byte_at bs 1;
         ml \<leftarrow> get16 bs 2;
         d \<leftarrow> byte_at bs 4;
         f \<leftarrow> get16 bs 6;
         cid \<leftarrow> get_block bs 20 8;
         pn \<leftarrow> get16 bs 28;
         sq \<leftarrow> get16 bs 30;
         c \<leftarrow> byte_at bs 32;
         l \<leftarrow> byte_at bs 33;
         Some (Some (header_zero\<lparr>transportAndType := tt, versionPTP := v, messageLength := ml, h_domainNumber := d,
           flagField := f, sourcePortIdentity := \<lparr>pi_clockIdentity = cid, pi_portNumber = pn\<rparr>,
           h_sequenceId := sq, controlField := c, logMessageInterval := l\<rparr>)) })"

text \<open>A builder returns the number of bytes written and the array afterwards.\<close>

type_synonym built = "(nat \<times> byte_list option) option"

definition buildAnnounce :: "byte_list option \<Rightarrow> nat \<Rightarrow> port_context \<Rightarrow> announce_dataset \<Rightarrow> u16 \<Rightarrow> i8 \<Rightarrow> u64 \<Rightarrow> built" where
  "buildAnnounce out capacity port ds sequenceId logInterval originTimeNs = (case out of
       None \<Rightarrow> Some (0, None)
     | Some buf \<Rightarrow> if capacity < kAnnounceSize then Some (0, Some buf) else do {
         let flags = (if ad_currentUtcOffsetValid ds then kFlagPtpTimescale OR kFlagCurrentUtcOffsetValid
                      else kFlagPtpTimescale);
         buf \<leftarrow> putHeader buf port Announce (of_nat kAnnounceSize) flags sequenceId kControlOther logInterval;
         buf \<leftarrow> putTimestamp buf 34 originTimeNs;
         buf \<leftarrow> put16 buf 44 (ad_currentUtcOffset ds);
         buf \<leftarrow> put8 buf 46 0;
         buf \<leftarrow> put8 buf 47 (ad_priority1 ds);
         buf \<leftarrow> put8 buf 48 (ad_clockClass ds);
         buf \<leftarrow> put8 buf 49 (ad_clockAccuracy ds);
         buf \<leftarrow> put16 buf 50 (offsetScaledLogVariance ds);
         buf \<leftarrow> put8 buf 52 (ad_priority2 ds);
         buf \<leftarrow> put_block buf 53 (ad_clockIdentity ds) 8;
         buf \<leftarrow> put16 buf 61 (stepsRemoved ds);
         buf \<leftarrow> put8 buf 63 (ad_timeSource ds);
         Some (kAnnounceSize, Some buf) })"

definition buildSync :: "byte_list option \<Rightarrow> nat \<Rightarrow> port_context \<Rightarrow> u16 \<Rightarrow> i8 \<Rightarrow> built" where
  "buildSync out capacity port sequenceId logInterval = (case out of
       None \<Rightarrow> Some (0, None)
     | Some buf \<Rightarrow> if capacity < kSyncSize then Some (0, Some buf) else do {
         buf \<leftarrow> putHeader buf port Sync (of_nat kSyncSize) (kFlagTwoStep OR kFlagPtpTimescale) sequenceId
                  kControlSync logInterval;
         buf \<leftarrow> put_block buf 34 (replicate 10 0) 10;
         Some (kSyncSize, Some buf) })"

definition buildFollowUp :: "byte_list option \<Rightarrow> nat \<Rightarrow> port_context \<Rightarrow> u16 \<Rightarrow> i8 \<Rightarrow> u64 \<Rightarrow> built" where
  "buildFollowUp out capacity port sequenceId logInterval preciseOriginTimeNs = (case out of
       None \<Rightarrow> Some (0, None)
     | Some buf \<Rightarrow> if capacity < kFollowUpSize then Some (0, Some buf) else do {
         buf \<leftarrow> putHeader buf port Follow_Up (of_nat kFollowUpSize) kFlagPtpTimescale sequenceId
                  kControlFollowUp logInterval;
         buf \<leftarrow> putTimestamp buf 34 preciseOriginTimeNs;
         Some (kFollowUpSize, Some buf) })"

definition buildDelayResp :: "byte_list option \<Rightarrow> nat \<Rightarrow> port_context \<Rightarrow> port_identity \<Rightarrow> u16 \<Rightarrow> i8 \<Rightarrow> u64 \<Rightarrow> built" where
  "buildDelayResp out capacity port requester sequenceId logInterval receiveTimeNs = (case out of
       None \<Rightarrow> Some (0, None)
     | Some buf \<Rightarrow> if capacity < kDelayRespSize then Some (0, Some buf) else do {
         buf \<leftarrow> putHeader buf port Delay_Resp (of_nat kDelayRespSize) kFlagPtpTimescale sequenceId
                  kControlDelayResp logInterval;
         buf \<leftarrow> putTimestamp buf 34 receiveTimeNs;
         buf \<leftarrow> put_block buf 44 (pi_clockIdentity requester) 8;
         buf \<leftarrow> put16 buf 52 (pi_portNumber requester);
         Some (kDelayRespSize, Some buf) })"

section \<open>What a receiver reads\<close>

text \<open>The header a receiver has to see, and its reading of a timestamp field (IEEE 1588 section 5.3.3).\<close>

definition wire_header :: "port_context \<Rightarrow> ptp_message_type \<Rightarrow> u16 \<Rightarrow> u16 \<Rightarrow> u16 \<Rightarrow> u8 \<Rightarrow> i8 \<Rightarrow> ptp_header" where
  "wire_header port type len flags seq control l = header_zero\<lparr>
     transportAndType := push_bit 4 (pc_majorSdoId port) OR (message_code type AND 0x0F), versionPTP := 2,
     messageLength := len, h_domainNumber := pc_domainNumber port, flagField := flags,
     sourcePortIdentity := \<lparr>pi_clockIdentity = pc_clockIdentity port, pi_portNumber = pc_portNumber port\<rparr>,
     h_sequenceId := seq, controlField := control, logMessageInterval := l\<rparr>"

definition timestamp_at :: "byte_list \<Rightarrow> nat \<Rightarrow> ptp_timestamp option" where
  "timestamp_at bs p = do {
     hi \<leftarrow> read16 bs p;
     lo \<leftarrow> read32 bs (p + 2);
     ns \<leftarrow> read32 bs (p + 6);
     Some \<lparr>secondsHi = hi, secondsLo = lo, nanoseconds = ns\<rparr> }"

definition port_at :: "byte_list \<Rightarrow> nat \<Rightarrow> port_identity option" where
  "port_at bs p = do {
     cid \<leftarrow> get_block bs p 8;
     pn \<leftarrow> get16 bs (p + 8);
     Some \<lparr>pi_clockIdentity = cid, pi_portNumber = pn\<rparr> }"

section \<open>Reading back what was written\<close>

text \<open>
  A write keeps the length, a read elsewhere is unchanged. The facts below describe each primitive
  by what \<open>agrees_outside\<close> says and by what it leaves at its own offset; they compose without the
  proofs seeing individual bytes.
\<close>

definition agrees_outside :: "nat \<Rightarrow> nat \<Rightarrow> byte_list \<Rightarrow> byte_list \<Rightarrow> bool" where
  "agrees_outside p n a b \<longleftrightarrow> length a = length b \<and> (\<forall>i<length a. i < p \<or> p + n \<le> i \<longrightarrow> a ! i = b ! i)"

lemma put8_ok:
  "p < length out \<Longrightarrow> \<exists>out'. put8 out p v = Some out' \<and> agrees_outside p 1 out out' \<and> byte_at out' p = Some v"
  by (auto simp: put8_def agrees_outside_def)

lemma put16_ok:
  "p + 2 \<le> length out \<Longrightarrow> \<exists>out'. put16 out p v = Some out' \<and> agrees_outside p 2 out out' \<and> read16 out' p = Some v"
  by (auto simp: put16_def put8_def agrees_outside_def nth_list_update be16_split)

lemma put32_ok:
  "p + 4 \<le> length out \<Longrightarrow> \<exists>out'. put32 out p v = Some out' \<and> agrees_outside p 4 out out' \<and> read32 out' p = Some v"
  by (auto simp: put32_def put8_def agrees_outside_def nth_list_update be32_split)

lemma put_block_ok:
  "p + n \<le> length out \<Longrightarrow> length src = n \<Longrightarrow>
   \<exists>out'. put_block out p src n = Some out' \<and> agrees_outside p n out out' \<and> get_block out' p n = Some src"
  by (auto simp: put_block_def get_block_def agrees_outside_def memcpy_def nth_append)

lemma agrees_length: "agrees_outside p n a b \<Longrightarrow> length b = length a"
  by (simp add: agrees_outside_def)

lemma agrees_byte: "agrees_outside p n a b \<Longrightarrow> i < p \<or> p + n \<le> i \<Longrightarrow> byte_at b i = byte_at a i"
  by (auto simp: agrees_outside_def byte_at_def)

lemma agrees_read16: "agrees_outside p n a b \<Longrightarrow> i + 2 \<le> p \<or> p + n \<le> i \<Longrightarrow> read16 b i = read16 a i"
  by (elim disjE) (simp_all add: read16_def agrees_byte [of p n a b])

lemma agrees_read32: "agrees_outside p n a b \<Longrightarrow> i + 4 \<le> p \<or> p + n \<le> i \<Longrightarrow> read32 b i = read32 a i"
  by (elim disjE) (simp_all add: read32_def agrees_byte [of p n a b])

lemma agrees_block:
  assumes "agrees_outside p n a b" "i + m \<le> p \<or> p + n \<le> i"
  shows "get_block b i m = get_block a i m"
proof -
  have "take m (drop i b) = take m (drop i a)" if "i + m \<le> length a"
    using assms that by (intro nth_equalityI) (auto simp: agrees_outside_def)
  then show ?thesis using assms(1) by (auto simp: get_block_def agrees_outside_def)
qed

lemmas agrees_simps = agrees_byte agrees_read16 agrees_read32 agrees_block

text \<open>One rule per primitive, for a write followed by the rest of a builder.\<close>

lemma write_then:
  assumes "\<exists>out'. m = Some out' \<and> agrees_outside p n out out' \<and> R out'"
    and "\<And>out'. length out' = length out \<Longrightarrow> agrees_outside p n out out' \<Longrightarrow> R out' \<Longrightarrow> \<exists>r. k out' = Some r \<and> Q r"
  shows "\<exists>r. Option.bind m k = Some r \<and> Q r"
  using assms by (elim exE conjE) (simp add: agrees_length)

lemmas puts = write_then [OF put8_ok] write_then [OF put16_ok] write_then [OF put32_ok] write_then [OF put_block_ok]

lemma put_last:
  "\<exists>r. Option.bind m Some = Some r \<and> Q r \<Longrightarrow> \<exists>r. m = Some r \<and> Q r"
  by (cases m) auto

definition header_fields :: "byte_list \<Rightarrow> ptp_header \<Rightarrow> bool" where
  "header_fields bs h \<longleftrightarrow> byte_at bs 0 = Some (transportAndType h) \<and> byte_at bs 1 = Some (versionPTP h) \<and>
     read16 bs 2 = Some (messageLength h) \<and> byte_at bs 4 = Some (h_domainNumber h) \<and> read16 bs 6 = Some (flagField h) \<and>
     get_block bs 20 8 = Some (pi_clockIdentity (sourcePortIdentity h)) \<and>
     read16 bs 28 = Some (pi_portNumber (sourcePortIdentity h)) \<and> read16 bs 30 = Some (h_sequenceId h) \<and>
     byte_at bs 32 = Some (controlField h) \<and> byte_at bs 33 = Some (logMessageInterval h)"

lemma header_fields_outside: "agrees_outside p n a b \<Longrightarrow> 34 \<le> p \<Longrightarrow> header_fields b h \<longleftrightarrow> header_fields a h"
  by (simp add: header_fields_def agrees_simps)

lemma putHeader_ok:
  assumes "34 \<le> length out" "length (pc_clockIdentity port) = 8"
  shows "\<exists>out'. putHeader out port type l f s c i = Some out' \<and> length out' = length out \<and>
     header_fields out' (wire_header port type l f s c i)"
  unfolding putHeader_def kHeaderSize_def
  apply (insert assms)
  apply (rule puts; (linarith | (simp; fail))?)+
  apply (rule put_last, rule puts, linarith)
  apply (simp add: header_fields_def wire_header_def agrees_simps del: byte_at_in read16_in)
  done

lemma putTimestamp_ok:
  assumes "p + 10 \<le> length out"
  shows "\<exists>out'. putTimestamp out p ns = Some out' \<and> agrees_outside p 10 out out' \<and>
     timestamp_at out' p = Some (PTPTimestamp ns)"
  unfolding putTimestamp_def Let_def
  apply (insert assms)
  apply (rule puts, linarith)+
  apply (rule put_last, rule puts, linarith)
  apply (simp add: timestamp_at_def PTPTimestamp_def agrees_simps del: byte_at_in read16_in read32_in)
  apply (simp add: agrees_outside_def Let_def)
  done

lemma parse_fields:
  assumes "header_fields bs h" "34 \<le> len" "header_zero\<lparr>transportAndType := transportAndType h, versionPTP := versionPTP h,
      messageLength := messageLength h, h_domainNumber := h_domainNumber h, flagField := flagField h,
      sourcePortIdentity := sourcePortIdentity h, h_sequenceId := h_sequenceId h, controlField := controlField h,
      logMessageInterval := logMessageInterval h\<rparr> = h"
  shows "parseHeader (Some bs) len = Some (Some h)"
  using assms(1,2) by (simp add: parseHeader_def header_fields_def get16_def kHeaderSize_def)
    (subst (2) assms(3) [symmetric], simp)

lemma parse_wire_header:
  "header_fields bs (wire_header port type l f s c i) \<Longrightarrow> 34 \<le> len \<Longrightarrow>
   parseHeader (Some bs) len = Some (Some (wire_header port type l f s c i))"
  by (rule parse_fields) (simp_all add: wire_header_def)

text \<open>What a receiver makes of a header this daemon wrote.\<close>

lemma nibbles_apart:
  fixes a b :: u8
  shows "(push_bit 4 a OR (b AND 0x0F)) AND 0x0F = b AND 0x0F"
    and "drop_bit 4 (push_bit 4 a OR (b AND 0x0F)) AND 0x0F = a AND 0x0F"
proof -
  have m: "(0x0F :: u8) = mask 4" by (simp add: mask_eq_exp_minus_1)
  show "(push_bit 4 a OR (b AND 0x0F)) AND 0x0F = b AND 0x0F"
    unfolding m by (rule bit_word_eqI) (auto simp: bit_or_iff bit_and_iff bit_push_bit_iff bit_mask_iff)
  show "drop_bit 4 (push_bit 4 a OR (b AND 0x0F)) AND 0x0F = a AND 0x0F"
    unfolding m by (rule bit_word_eqI) (auto simp: bit_or_iff bit_and_iff bit_push_bit_iff bit_mask_iff bit_drop_bit_eq)
qed

lemma wire_header_octet:
  "transportAndType (wire_header port type l f s c i) = push_bit 4 (pc_majorSdoId port) OR (message_code type AND 0x0F)"
  by (simp add: wire_header_def)

lemma wire_header_type:
  assumes "\<forall>c. type \<noteq> Unnamed c"
  shows "getMessageType (wire_header port type l f s c i) = type"
proof -
  have "getMessageType (wire_header port type l f s c i) = message_type_of (message_code type AND 0x0F)"
    by (simp only: getMessageType_def wire_header_octet nibbles_apart)
  moreover have "message_code type AND 0x0F = message_code type" using assms by (cases type) simp_all
  ultimately show ?thesis using message_type_code [of type] assms by auto
qed

lemma wire_header_sdo:
  "getMajorSdoId (wire_header port type l f s c i) = pc_majorSdoId port AND 0x0F"
  by (simp only: getMajorSdoId_def wire_header_octet nibbles_apart)

lemma then_header:
  assumes "34 \<le> length out" "length (pc_clockIdentity port) = 8"
    and "\<And>out'. length out' = length out \<Longrightarrow> header_fields out' (wire_header port type l f s c i) \<Longrightarrow> \<exists>r. k out' = Some r \<and> Q r"
  shows "\<exists>r. Option.bind (putHeader out port type l f s c i) k = Some r \<and> Q r"
  using putHeader_ok [OF assms(1,2), of type l f s c i] assms(3) by (elim exE conjE) simp

lemmas then_timestamp = write_then [OF putTimestamp_ok]

lemma agrees_timestamp:
  "agrees_outside p n a b \<Longrightarrow> i + 10 \<le> p \<or> p + n \<le> i \<Longrightarrow> timestamp_at b i = timestamp_at a i"
  by (elim disjE) (simp_all add: timestamp_at_def agrees_read16 [of p n a b] agrees_read32 [of p n a b])

section \<open>The four messages\<close>

lemma sync_built:
  assumes "kSyncSize \<le> length buf" "length (pc_clockIdentity port) = 8"
  shows "\<exists>r. buildSync (Some buf) (length buf) port s i = Some r \<and>
    (\<exists>bs. r = (kSyncSize, Some bs) \<and> length bs = length buf \<and>
      header_fields bs (wire_header port Sync 44 (kFlagTwoStep OR kFlagPtpTimescale) s kControlSync i))"
  unfolding buildSync_def option.case using assms
  apply (simp only: not_less [symmetric] if_False wire_sizes)
  apply (rule then_header, linarith, assumption)
  apply (rule puts, linarith, simp)
  apply (auto simp: header_fields_outside)
  done

lemma follow_up_built:
  assumes "kFollowUpSize \<le> length buf" "length (pc_clockIdentity port) = 8"
  shows "\<exists>r. buildFollowUp (Some buf) (length buf) port s i ns = Some r \<and>
    (\<exists>bs. r = (kFollowUpSize, Some bs) \<and> length bs = length buf \<and>
      header_fields bs (wire_header port Follow_Up 44 kFlagPtpTimescale s kControlFollowUp i) \<and>
      timestamp_at bs 34 = Some (PTPTimestamp ns))"
  unfolding buildFollowUp_def option.case using assms
  apply (simp only: not_less [symmetric] if_False wire_sizes)
  apply (rule then_header, linarith, assumption)
  apply (rule then_timestamp, linarith)
  apply (auto simp: header_fields_outside)
  done

lemma delay_resp_built:
  assumes "kDelayRespSize \<le> length buf" "length (pc_clockIdentity port) = 8" "length (pi_clockIdentity requester) = 8"
  shows "\<exists>r. buildDelayResp (Some buf) (length buf) port requester s i ns = Some r \<and>
    (\<exists>bs. r = (kDelayRespSize, Some bs) \<and> length bs = length buf \<and>
      header_fields bs (wire_header port Delay_Resp 54 kFlagPtpTimescale s kControlDelayResp i) \<and>
      timestamp_at bs 34 = Some (PTPTimestamp ns) \<and> port_at bs 44 = Some requester)"
  unfolding buildDelayResp_def option.case using assms
  apply (simp only: not_less [symmetric] if_False wire_sizes)
  apply (rule then_header, linarith, assumption)
  apply (rule then_timestamp, linarith)
  apply (rule puts, linarith, assumption)
  apply (rule puts, linarith)
  apply (simp add: header_fields_outside agrees_timestamp port_at_def get16_def agrees_simps del: byte_at_in read16_in read32_in)
  done

lemma announce_built:
  assumes "kAnnounceSize \<le> length buf" "length (pc_clockIdentity port) = 8" "length (ad_clockIdentity ds) = 8"
  shows "\<exists>r. buildAnnounce (Some buf) (length buf) port ds s i ns = Some r \<and>
    (\<exists>bs. r = (kAnnounceSize, Some bs) \<and> length bs = length buf \<and>
      header_fields bs (wire_header port Announce 64
        (if ad_currentUtcOffsetValid ds then kFlagPtpTimescale OR kFlagCurrentUtcOffsetValid else kFlagPtpTimescale)
        s kControlOther i) \<and>
      timestamp_at bs 34 = Some (PTPTimestamp ns) \<and> read16 bs 44 = Some (ad_currentUtcOffset ds) \<and>
      byte_at bs 47 = Some (ad_priority1 ds) \<and> byte_at bs 48 = Some (ad_clockClass ds) \<and>
      byte_at bs 49 = Some (ad_clockAccuracy ds) \<and> read16 bs 50 = Some (offsetScaledLogVariance ds) \<and>
      byte_at bs 52 = Some (ad_priority2 ds) \<and> get_block bs 53 8 = Some (ad_clockIdentity ds) \<and>
      read16 bs 61 = Some (stepsRemoved ds) \<and> byte_at bs 63 = Some (ad_timeSource ds))"
  unfolding buildAnnounce_def option.case using assms
  apply (simp only: not_less [symmetric] if_False wire_sizes Let_def)
  apply (rule then_header, linarith, assumption)
  apply (rule then_timestamp, linarith)
  apply (rule puts; (linarith | assumption)?)+
  apply (simp add: header_fields_outside agrees_timestamp agrees_simps del: byte_at_in read16_in read32_in)
  done

text \<open>
  What a receiver relies on when it gets a header from this port: its type, length, version, domain,
  profile, sender, sequence number and interval.
\<close>

definition header_agrees :: "port_context \<Rightarrow> ptp_message_type \<Rightarrow> nat \<Rightarrow> u16 \<Rightarrow> i8 \<Rightarrow> ptp_header \<Rightarrow> bool" where
  "header_agrees port type n s i h \<longleftrightarrow> getMessageType h = type \<and> versionPTP h = 2 \<and> unat (messageLength h) = n \<and>
     h_domainNumber h = pc_domainNumber port \<and> getMajorSdoId h = pc_majorSdoId port AND 0x0F \<and>
     sourcePortIdentity h = \<lparr>pi_clockIdentity = pc_clockIdentity port, pi_portNumber = pc_portNumber port\<rparr> \<and>
     h_sequenceId h = s \<and> logMessageInterval h = i"

lemma wire_header_agrees:
  "\<forall>c. type \<noteq> Unnamed c \<Longrightarrow> unat l = n \<Longrightarrow> header_agrees port type n s i (wire_header port type l f s c i)"
  by (simp add: header_agrees_def wire_header_type wire_header_sdo) (simp add: wire_header_def)

lemma built_agrees:
  assumes "header_fields bs (wire_header port type l f s c i)" "\<forall>c. type \<noteq> Unnamed c" "unat l = n" "34 \<le> n"
  shows "\<exists>h. parseHeader (Some bs) n = Some (Some h) \<and> header_agrees port type n s i h"
  using parse_wire_header [OF assms(1,4)] wire_header_agrees [OF assms(2,3)] by blast

text \<open>
  Every message the grandmaster builds is in bounds and is read back. Given a buffer of at least the
  message's size and an eight-byte clock identity, each of the four builders returns the message's size,
  writes nothing outside the buffer, and \<open>parseHeader\<close> on the result yields a header with that message
  type, length, version 2, domain, majorSdoId, sender port, sequence number and log interval.
\<close>
theorem ptp_header_parse_back:
  assumes "length (pc_clockIdentity port) = 8" "length (ad_clockIdentity ds) = 8"
    "length (pi_clockIdentity requester) = 8" "kAnnounceSize \<le> length buf"
  shows "(\<exists>bs h. buildAnnounce (Some buf) (length buf) port ds s i ns = Some (kAnnounceSize, Some bs) \<and>
       parseHeader (Some bs) kAnnounceSize = Some (Some h) \<and> header_agrees port Announce kAnnounceSize s i h) \<and>
     (\<exists>bs h. buildSync (Some buf) (length buf) port s i = Some (kSyncSize, Some bs) \<and>
       parseHeader (Some bs) kSyncSize = Some (Some h) \<and> header_agrees port Sync kSyncSize s i h) \<and>
     (\<exists>bs h. buildFollowUp (Some buf) (length buf) port s i ns = Some (kFollowUpSize, Some bs) \<and>
       parseHeader (Some bs) kFollowUpSize = Some (Some h) \<and> header_agrees port Follow_Up kFollowUpSize s i h) \<and>
     (\<exists>bs h. buildDelayResp (Some buf) (length buf) port requester s i ns = Some (kDelayRespSize, Some bs) \<and>
       parseHeader (Some bs) kDelayRespSize = Some (Some h) \<and> header_agrees port Delay_Resp kDelayRespSize s i h)"
proof (intro conjI)
  have len: "kSyncSize \<le> length buf" "kFollowUpSize \<le> length buf" "kDelayRespSize \<le> length buf"
    using assms(4) by (simp_all add: wire_sizes)
  show "\<exists>bs h. buildAnnounce (Some buf) (length buf) port ds s i ns = Some (kAnnounceSize, Some bs) \<and>
       parseHeader (Some bs) kAnnounceSize = Some (Some h) \<and> header_agrees port Announce kAnnounceSize s i h"
    using announce_built [OF assms(4,1,2), of s i ns] built_agrees [where n = kAnnounceSize and type = Announce]
    by (elim exE conjE) (simp add: wire_sizes)
  show "\<exists>bs h. buildSync (Some buf) (length buf) port s i = Some (kSyncSize, Some bs) \<and>
       parseHeader (Some bs) kSyncSize = Some (Some h) \<and> header_agrees port Sync kSyncSize s i h"
    using sync_built [OF len(1) assms(1), of s i] built_agrees [where n = kSyncSize and type = Sync]
    by (elim exE conjE) (simp add: wire_sizes)
  show "\<exists>bs h. buildFollowUp (Some buf) (length buf) port s i ns = Some (kFollowUpSize, Some bs) \<and>
       parseHeader (Some bs) kFollowUpSize = Some (Some h) \<and> header_agrees port Follow_Up kFollowUpSize s i h"
    using follow_up_built [OF len(2) assms(1), of s i ns] built_agrees [where n = kFollowUpSize and type = Follow_Up]
    by (elim exE conjE) (simp add: wire_sizes)
  show "\<exists>bs h. buildDelayResp (Some buf) (length buf) port requester s i ns = Some (kDelayRespSize, Some bs) \<and>
       parseHeader (Some bs) kDelayRespSize = Some (Some h) \<and> header_agrees port Delay_Resp kDelayRespSize s i h"
    using delay_resp_built [OF len(3) assms(1,3), of s i ns] built_agrees [where n = kDelayRespSize and type = Delay_Resp]
    by (elim exE conjE) (simp add: wire_sizes)
qed

theorem ptp_header_parse_back_witness:
  "\<exists>bs h. buildSync (Some (replicate 64 0)) 64 (port_default\<lparr>pc_domainNumber := 3\<rparr>) 500 (-3) = Some (kSyncSize, Some bs) \<and>
     parseHeader (Some bs) kSyncSize = Some (Some h) \<and> h_sequenceId h = 500 \<and> h_domainNumber h = 3"
  using ptp_header_parse_back [of "port_default\<lparr>pc_domainNumber := 3\<rparr>" dataset_default
      "\<lparr>pi_clockIdentity = cid_zero, pi_portNumber = 1\<rparr>" "replicate 64 0" 500 "-3" 0]
  by (auto simp: port_default_def dataset_default_def cid_zero_def kAnnounceSize_def header_agrees_def)

text \<open>
  The times and identities in the bodies are read back unchanged. The timestamp of a Follow_Up and of a
  Delay_Resp, read as IEEE 1588 lays it out, is the 64-bit nanosecond count given to the builder, for every
  such count; a Delay_Resp names the requesting port; an Announce carries the grandmaster identity,
  both priorities, class, accuracy, variance and steps removed.
\<close>
theorem ptp_payload_parse_back:
  assumes "length (pc_clockIdentity port) = 8" "length (ad_clockIdentity ds) = 8"
    "length (pi_clockIdentity requester) = 8" "kAnnounceSize \<le> length buf"
  shows "(\<exists>bs t. buildFollowUp (Some buf) (length buf) port s i ns = Some (kFollowUpSize, Some bs) \<and>
       timestamp_at bs 34 = Some t \<and> toNanoseconds t = ns) \<and>
     (\<exists>bs t. buildDelayResp (Some buf) (length buf) port requester s i ns = Some (kDelayRespSize, Some bs) \<and>
       timestamp_at bs 34 = Some t \<and> toNanoseconds t = ns \<and> port_at bs 44 = Some requester) \<and>
     (\<exists>bs. buildAnnounce (Some buf) (length buf) port ds s i ns = Some (kAnnounceSize, Some bs) \<and>
       byte_at bs 47 = Some (ad_priority1 ds) \<and> byte_at bs 48 = Some (ad_clockClass ds) \<and>
       byte_at bs 49 = Some (ad_clockAccuracy ds) \<and> read16 bs 50 = Some (offsetScaledLogVariance ds) \<and>
       byte_at bs 52 = Some (ad_priority2 ds) \<and> get_block bs 53 8 = Some (ad_clockIdentity ds) \<and>
       read16 bs 61 = Some (stepsRemoved ds))"
proof -
  have len: "kFollowUpSize \<le> length buf" "kDelayRespSize \<le> length buf"
    using assms(4) by (simp_all add: wire_sizes)
  show ?thesis
    using follow_up_built [OF len(1) assms(1), of s i ns] delay_resp_built [OF len(2) assms(1,3), of s i ns]
      announce_built [OF assms(4,1,2), of s i ns] timestamp_back [of ns]
    by (elim exE conjE) (simp del: byte_at_in read16_in read32_in)
qed

theorem ptp_payload_parse_back_witness:
  "\<exists>bs t. buildFollowUp (Some (replicate 64 0)) 64 port_default 7 0 18446744073709551615 = Some (kFollowUpSize, Some bs) \<and>
     timestamp_at bs 34 = Some t \<and> toNanoseconds t = 18446744073709551615"
  using ptp_payload_parse_back [of port_default dataset_default
      "\<lparr>pi_clockIdentity = cid_zero, pi_portNumber = 1\<rparr>" "replicate 64 0" 7 0 18446744073709551615]
  by (simp add: port_default_def dataset_default_def cid_zero_def kAnnounceSize_def)

end
