(* ===== verification/External_Reference.thy ===== *)
theory External_Reference
  imports PTP_Types "HOL-Library.Signed_Division"
begin

text \<open>
  The one-pulse-per-second reference of the Linux grandmaster:
  \<open>src/packages/aes67-linux-ptpd/src/ExternalReference.h\<close> and \<open>ExternalReference.cpp\<close>. The edges the kernel has
  queued are the list \<open>service\<close> is given; times of the steady clock are in nanoseconds. The servo belongs
  to another library (\<open>t41-ptp\<close>, whose sources are not in the repository): its state and its outcome are type
  variables, its update and the fields of the outcome are the functions of a \<open>servo_api\<close> argument. The
  adjustments of the hardware clock are the values \<open>apply_outcome\<close> returns. The two statistics held as floating
  point, the drift and the frequency field of an adjustment, are left out; \<open>secondsSinceEdge\<close> is kept
  in nanoseconds.
\<close>

section \<open>State\<close>

datatype clock_source_state = Internal | Waiting | External

record ref_status =
  available :: bool
  locked :: bool
  st_offsetNs :: int
  edges :: nat
  rejected :: nat
  idleNs :: int

definition status_default :: ref_status where
  "status_default = \<lparr>available = False, locked = False, st_offsetNs = 0, edges = 0, rejected = 0, idleNs = 0\<rparr>"

definition status_state :: "ref_status \<Rightarrow> clock_source_state" where
  "status_state s = (if \<not> available s then Internal else if locked s then External else Waiting)"

definition nameOf :: "clock_source_state \<Rightarrow> string" where
  "nameOf s = (case s of Internal \<Rightarrow> ''internal'' | Waiting \<Rightarrow> ''waiting '' | External \<Rightarrow> ''external'')"

record 'sv ext_ref =
  channel :: u32
  enabled :: bool
  servo :: 'sv
  lastEdgeNs :: u64
  haveLastEdge :: bool
  lastEdgeAt :: int
  haveEdgeTime :: bool
  consecutiveInWindow :: nat
  ref_status :: ref_status

definition ext_ref_init :: "'sv \<Rightarrow> 'sv ext_ref" where
  "ext_ref_init sv = \<lparr>channel = 0, enabled = False, servo = sv, lastEdgeNs = 0, haveLastEdge = False, lastEdgeAt = 0,
     haveEdgeTime = False, consecutiveInWindow = 0, ref_status = status_default\<rparr>"

record ('sv, 'oc) servo_api =
  servoUpdate :: "'sv \<Rightarrow> int \<Rightarrow> u64 \<Rightarrow> int \<Rightarrow> 'sv \<times> 'oc"
  stepClock :: "'oc \<Rightarrow> bool"
  offsetCorrectionNs :: "'oc \<Rightarrow> int"
  adjustFrequency :: "'oc \<Rightarrow> bool"

definition kCredibleOffsetNs :: int where "kCredibleOffsetNs = 500000"
definition lockThresholdNs :: int where "lockThresholdNs = 100"
definition kHoldoverNs :: int where "kHoldoverNs = 3 * 1000000000"

section \<open>Asking for the edges\<close>

datatype enable_error = NoHardwareClock | CapsFailed | NoExternalChannel | ChannelOutOfRange nat | RequestFailed

text \<open>\<open>caps\<close> is the channel count \<open>PTP_CLOCK_GETCAPS\<close> reports, \<open>granted\<close> the outcome of the request.\<close>

definition enable :: "bool \<Rightarrow> nat option \<Rightarrow> bool \<Rightarrow> u32 \<Rightarrow> 'sv ext_ref \<Rightarrow> enable_error + 'sv ext_ref" where
  "enable isHardware caps granted ch s =
     (if \<not> isHardware then Inl NoHardwareClock
      else (case caps of
          None \<Rightarrow> Inl CapsFailed
        | Some n_ext_ts \<Rightarrow>
            if n_ext_ts = 0 then Inl NoExternalChannel
            else if unat ch \<ge> n_ext_ts then Inl (ChannelOutOfRange n_ext_ts)
            else if \<not> granted then Inl RequestFailed
            else Inr (s\<lparr>channel := ch, enabled := True, ref_status := (ref_status s)\<lparr>available := True\<rparr>\<rparr>)))"

section \<open>Steering the clock\<close>

datatype 'oc adjustment = StepPHC int int | SteerPHC 'oc

text \<open>A step as seconds and nanoseconds; the division truncates and the nanoseconds are made positive.\<close>

definition step_fields :: "int \<Rightarrow> int \<times> int" where
  "step_fields correction =
     (let sec = correction sdiv kNanosecondsPerSecond; nsec = correction smod kNanosecondsPerSecond in
      if nsec < 0 then (sec - 1, nsec + kNanosecondsPerSecond) else (sec, nsec))"

definition apply_outcome :: "('sv, 'oc) servo_api \<Rightarrow> 'oc \<Rightarrow> 'oc adjustment list" where
  "apply_outcome api oc =
     (if stepClock api oc then (let (sec, nsec) = step_fields (- offsetCorrectionNs api oc) in [StepPHC sec nsec])
      else if adjustFrequency api oc then [SteerPHC oc] else [])"

section \<open>Servicing the edges\<close>

record extts_event =
  ev_index :: u32
  ev_sec :: u64
  ev_nsec :: u32

definition edge_time :: "extts_event \<Rightarrow> u64" where
  "edge_time ev = ev_sec ev * 1000000000 + ucast (ev_nsec ev)"

definition on_edge :: "('sv, 'oc) servo_api \<Rightarrow> extts_event \<Rightarrow> int \<Rightarrow> 'sv ext_ref \<Rightarrow> 'sv ext_ref \<times> 'oc adjustment list" where
  "on_edge api ev now s =
     (if ev_index ev \<noteq> channel s then (s, [])
      else
        (let edgeNs = edge_time ev; offsetNs = offsetFromSecondBoundary edgeNs;
             s1 = s\<lparr>lastEdgeAt := now, haveEdgeTime := True,
                    ref_status := (ref_status s)\<lparr>edges := edges (ref_status s) + 1, st_offsetNs := offsetNs, idleNs := 0\<rparr>\<rparr>
         in if offsetNs > kCredibleOffsetNs \<or> offsetNs < - kCredibleOffsetNs then
              (s1\<lparr>consecutiveInWindow := 0, haveLastEdge := False,
                  ref_status := (ref_status s1)\<lparr>rejected := rejected (ref_status s1) + 1\<rparr>\<rparr>, [])
            else if \<not> haveLastEdge s1 then (s1\<lparr>lastEdgeNs := edgeNs, haveLastEdge := True\<rparr>, [])
            else
              (let localDiff = edgeNs - lastEdgeNs s1;
                   (sv, oc) = servoUpdate api (servo s1) kNanosecondsPerSecond localDiff offsetNs;
                   n = (if offsetNs \<le> lockThresholdNs \<and> offsetNs \<ge> - lockThresholdNs
                        then consecutiveInWindow s1 + 1 else 0)
               in (s1\<lparr>lastEdgeNs := edgeNs, servo := sv, consecutiveInWindow := n,
                      ref_status := (ref_status s1)\<lparr>locked := n \<ge> 10\<rparr>\<rparr>, apply_outcome api oc))))"

text \<open>
  Each element of the list is one round of the polling loop: the event read, or \<open>None\<close> for a short read,
  which ends the loop, and the steady time at that point.
\<close>

fun edge_loop :: "('sv, 'oc) servo_api \<Rightarrow> (extts_event option \<times> int) list \<Rightarrow> 'sv ext_ref \<Rightarrow> 'sv ext_ref \<times> 'oc adjustment list" where
  "edge_loop api [] s = (s, [])"
| "edge_loop api ((None, now) # es) s = (s, [])"
| "edge_loop api ((Some ev, now) # es) s =
     (let (s1, a) = on_edge api ev now s; (s2, b) = edge_loop api es s1 in (s2, a @ b))"

definition holdover :: "int \<Rightarrow> 'sv ext_ref \<Rightarrow> 'sv ext_ref" where
  "holdover now s =
     (if haveEdgeTime s then
        (let idle = now - lastEdgeAt s; s1 = s\<lparr>ref_status := (ref_status s)\<lparr>idleNs := idle\<rparr>\<rparr> in
         if idle > kHoldoverNs \<and> locked (ref_status s1)
         then s1\<lparr>consecutiveInWindow := 0, haveLastEdge := False, ref_status := (ref_status s1)\<lparr>locked := False\<rparr>\<rparr>
         else s1)
      else s)"

definition service :: "('sv, 'oc) servo_api \<Rightarrow> int \<Rightarrow> (extts_event option \<times> int) list \<Rightarrow> 'sv ext_ref \<Rightarrow>
    'sv ext_ref \<times> 'oc adjustment list" where
  "service api now es s = (if \<not> enabled s then (s, []) else edge_loop api es (holdover now s))"

text \<open>A run of the daemon's calls, adjustments aside.\<close>

fun ref_run :: "('sv, 'oc) servo_api \<Rightarrow> (int \<times> (extts_event option \<times> int) list) list \<Rightarrow> 'sv ext_ref \<Rightarrow> 'sv ext_ref" where
  "ref_run api [] s = s"
| "ref_run api ((now, es) # calls) s = ref_run api calls (fst (service api now es s))"

section \<open>Facts\<close>

lemma offset_range:
  "- 500000000 \<le> offsetFromSecondBoundary ns" "offsetFromSecondBoundary ns < 500000000"
  "(int (unat ns) - offsetFromSecondBoundary ns) mod 1000000000 = 0"
proof -
  have m: "unat (ns mod 1000000000) = unat ns mod 1000000000" by (rule unat_mod_billion)
  show "- 500000000 \<le> offsetFromSecondBoundary ns"
    unfolding offsetFromSecondBoundary_def kNanosecondsPerSecond_def Let_def m by (auto simp: of_nat_mod)
  show "offsetFromSecondBoundary ns < 500000000"
    unfolding offsetFromSecondBoundary_def kNanosecondsPerSecond_def Let_def m by (auto simp: of_nat_mod)
  show "(int (unat ns) - offsetFromSecondBoundary ns) mod 1000000000 = 0"
    unfolding offsetFromSecondBoundary_def kNanosecondsPerSecond_def Let_def m of_nat_mod
    by (simp add: mod_diff_right_eq) presburger
qed

lemma step_fields_exact:
  assumes "step_fields c = (sec, nsec)"
  shows "sec * 1000000000 + nsec = c" "0 \<le> nsec" "nsec < 1000000000"
proof -
  have e: "c sdiv 1000000000 * 1000000000 + c smod 1000000000 = c" by (simp add: mult_sdiv_smod_eq mult.commute)
  have b: "- 1000000000 < c smod 1000000000" "c smod 1000000000 < 1000000000"
    using smod_int_compares [of c 1000000000] by linarith+
  show "sec * 1000000000 + nsec = c" "0 \<le> nsec" "nsec < 1000000000"
    using assms e b by (auto simp: step_fields_def kNanosecondsPerSecond_def Let_def algebra_simps split: if_splits)
qed

section \<open>When the reference counts as locked\<close>

definition in_window :: "u32 \<Rightarrow> extts_event option \<times> int \<Rightarrow> bool" where
  "in_window ch e = (case fst e of None \<Rightarrow> False
     | Some ev \<Rightarrow> ev_index ev = ch \<and> \<bar>offsetFromSecondBoundary (edge_time ev)\<bar> \<le> lockThresholdNs)"

definition window_edges :: "u32 \<Rightarrow> (int \<times> (extts_event option \<times> int) list) list \<Rightarrow> nat" where
  "window_edges ch calls = length (filter (in_window ch) (concat (map snd calls)))"

text \<open>What \<open>k\<close> edges inside the window can have done.\<close>

definition lock_inv :: "u32 \<Rightarrow> nat \<Rightarrow> 'sv ext_ref \<Rightarrow> bool" where
  "lock_inv ch k s \<longleftrightarrow> channel s = ch \<and> consecutiveInWindow s \<le> k \<and> (locked (ref_status s) \<longrightarrow> 10 \<le> k)"

lemma on_edge_inv:
  "lock_inv ch k s \<Longrightarrow> lock_inv ch (if in_window ch (Some ev, now) then Suc k else k) (fst (on_edge api ev now s))"
  by (auto simp: lock_inv_def on_edge_def in_window_def lockThresholdNs_def Let_def split: prod.splits)

lemma edge_loop_inv:
  "lock_inv ch k s \<Longrightarrow> lock_inv ch (k + length (filter (in_window ch) es)) (fst (edge_loop api es s))"
proof (induction api es s arbitrary: k rule: edge_loop.induct)
  case (2 api now es s)
  then show ?case by (auto simp: lock_inv_def)
next
  case (3 api ev now es s)
  let ?k = "if in_window ch (Some ev, now) then Suc k else k"
  obtain s1 a where s1: "on_edge api ev now s = (s1, a)" by (cases "on_edge api ev now s") auto
  have "lock_inv ch ?k s1" using on_edge_inv [OF "3.prems", of ev now api] by (simp add: s1)
  then have "lock_inv ch (?k + length (filter (in_window ch) es)) (fst (edge_loop api es s1))"
    using "3.IH" s1 by simp
  then show ?case by (cases "edge_loop api es s1") (auto simp: s1 split: if_splits)
qed simp

lemma holdover_inv: "lock_inv ch k s \<Longrightarrow> lock_inv ch k (holdover now s)"
  by (auto simp: lock_inv_def holdover_def Let_def)

lemma service_inv:
  "lock_inv ch k s \<Longrightarrow> lock_inv ch (k + length (filter (in_window ch) es)) (fst (service api now es s))"
  using edge_loop_inv [OF holdover_inv, of ch k s es api now] by (auto simp: service_def lock_inv_def)

lemma ref_run_inv: "lock_inv ch k s \<Longrightarrow> lock_inv ch (k + window_edges ch calls) (ref_run api calls s)"
proof (induction calls arbitrary: k s)
  case (Cons c calls)
  obtain now es where c: "c = (now, es)" by (cases c) auto
  show ?case using Cons.IH [OF service_inv [OF Cons.prems, of es api now]] by (simp add: c window_edges_def ac_simps)
qed (simp add: window_edges_def)

text \<open>An edge more than half a millisecond from the second.\<close>

definition glitch :: "u32 \<Rightarrow> extts_event \<Rightarrow> bool" where
  "glitch ch ev \<longleftrightarrow> ev_index ev = ch \<and> \<bar>offsetFromSecondBoundary (edge_time ev)\<bar> > kCredibleOffsetNs"

lemma glitch_service:
  assumes "enabled s" "haveEdgeTime s" "locked (ref_status s)" "glitch (channel s) ev" "now - lastEdgeAt s \<le> kHoldoverNs"
  shows "\<exists>s'. service api now [(Some ev, now)] s = (s', []) \<and> enabled s' \<and> haveEdgeTime s' \<and> locked (ref_status s') \<and>
    channel s' = channel s \<and> lastEdgeAt s' = now \<and> servo s' = servo s"
  using assms by (auto simp: service_def holdover_def on_edge_def glitch_def kCredibleOffsetNs_def Let_def)

lemma glitch_run:
  assumes "enabled s" "haveEdgeTime s" "locked (ref_status s)" "\<forall>i<n. glitch (channel s) (ev i)" "lastEdgeAt s = t"
  shows "locked (ref_status (ref_run api (map (\<lambda>i. let now = t + (int i + 1) * 1000000000 in (now, [(Some (ev i), now)])) [0..<n]) s))"
  using assms
proof (induction n arbitrary: s t ev)
  case (Suc n)
  let ?now = "t + 1000000000"
  have g: "glitch (channel s) (ev 0)" "?now - lastEdgeAt s \<le> kHoldoverNs"
    using Suc.prems by (auto simp: kHoldoverNs_def)
  obtain s' where s': "service api ?now [(Some (ev 0), ?now)] s = (s', [])" "enabled s'" "haveEdgeTime s'"
    "locked (ref_status s')" "channel s' = channel s" "lastEdgeAt s' = ?now"
    using glitch_service [OF Suc.prems(1-3) g] by blast
  have "\<forall>i<n. glitch (channel s') (ev (Suc i))" using Suc.prems(4) s'(5) by auto
  from Suc.IH [OF s'(2-4) this s'(6)]
  show ?case using s'(1) by (simp add: map_upt_Suc Let_def algebra_simps del: upt_Suc)
qed simp

text \<open>
  A lock is announced only on evidence and withdrawn when it goes. Starting from an enabled reference that
  is not locked and has no edge counted, whatever edges and short reads arrive in whatever calls, it can
  only be locked if at least ten edges of its channel within the 100 ns window arrived; and a call that finds
  the last edge more than three seconds old and no new one leaves it unlocked.
\<close>
theorem reference_lock_sound:
  assumes "\<not> locked (ref_status s)" "consecutiveInWindow s = 0" "enabled s"
  shows "(locked (ref_status (ref_run api calls s)) \<longrightarrow> 10 \<le> window_edges (channel s) calls) \<and>
    (let s' = ref_run api calls s in enabled s' \<and> haveEdgeTime s' \<and> now - lastEdgeAt s' > kHoldoverNs \<longrightarrow>
       \<not> locked (ref_status (fst (service api now [] s'))))"
proof
  have "lock_inv (channel s) 0 s" using assms by (simp add: lock_inv_def)
  from ref_run_inv [OF this, of calls api]
  show "locked (ref_status (ref_run api calls s)) \<longrightarrow> 10 \<le> window_edges (channel s) calls" by (simp add: lock_inv_def)
  show "let s' = ref_run api calls s in enabled s' \<and> haveEdgeTime s' \<and> now - lastEdgeAt s' > kHoldoverNs \<longrightarrow>
      \<not> locked (ref_status (fst (service api now [] s')))"
    by (auto simp: service_def holdover_def Let_def)
qed

text \<open>A servo that keeps its state and never adjusts, for concrete runs.\<close>

definition idle_servo :: "(unit, unit) servo_api" where
  "idle_servo = \<lparr>servoUpdate = (\<lambda>s _ _ _. (s, ())), stepClock = (\<lambda>_. False), offsetCorrectionNs = (\<lambda>_. 0),
     adjustFrequency = (\<lambda>_. False)\<rparr>"

definition on_second :: "nat \<Rightarrow> int \<times> (extts_event option \<times> int) list" where
  "on_second k = (int k * 1000000000, [(Some \<lparr>ev_index = 0, ev_sec = of_nat k, ev_nsec = 40\<rparr>, int k * 1000000000)])"

theorem reference_lock_sound_witness:
  "locked (ref_status (ref_run idle_servo (map on_second [1..<12]) ((ext_ref_init ())\<lparr>enabled := True\<rparr>))) \<and>
   10 \<le> window_edges 0 (map on_second [1..<12])"
proof -
  have l: "locked (ref_status (ref_run idle_servo (map on_second [1..<12]) ((ext_ref_init ())\<lparr>enabled := True\<rparr>)))"
    by code_simp
  then show ?thesis
    using reference_lock_sound [of "(ext_ref_init ())\<lparr>enabled := True\<rparr>" idle_servo "map on_second [1..<12]" 0]
    by (simp add: ext_ref_init_def status_default_def)
qed

text \<open>
  Edges that are not reference edges keep a lock alive. A locked reference that from then on receives
  one edge per second, every one of them more than half a millisecond from the second, stays locked after
  any number of them: each is rejected before the lock is reconsidered, and each postpones the holdover.
\<close>
theorem reference_glitches_hold_lock:
  assumes "enabled s" "haveEdgeTime s" "locked (ref_status s)" "\<forall>i<n. glitch (channel s) (ev i)" "lastEdgeAt s = t"
  shows "locked (ref_status (ref_run api
    (map (\<lambda>i. let now = t + (int i + 1) * 1000000000 in (now, [(Some (ev i), now)])) [0..<n]) s))"
  using assms by (rule glitch_run)

theorem reference_glitches_hold_lock_witness:
  "locked (ref_status (ref_run idle_servo
    (map (\<lambda>i. let now = 0 + (int i + 1) * 1000000000 in
        (now, [(Some \<lparr>ev_index = 0, ev_sec = of_nat i, ev_nsec = 250000000\<rparr>, now)])) [0..<86400])
    ((ext_ref_init ())\<lparr>enabled := True, haveEdgeTime := True, ref_status := status_default\<lparr>locked := True\<rparr>\<rparr>)))"
proof (rule reference_glitches_hold_lock)
  show "\<forall>i<86400. glitch (channel ((ext_ref_init ())\<lparr>enabled := True, haveEdgeTime := True,
      ref_status := status_default\<lparr>locked := True\<rparr>\<rparr>)) \<lparr>ev_index = 0, ev_sec = of_nat i, ev_nsec = 250000000\<rparr>"
  proof (intro allI impI)
    fix i :: nat assume i: "i < 86400"
    have "(of_nat i * 1000000000 + 250000000 :: u64) = of_nat (i * 1000000000 + 250000000)" by simp
    moreover have "unat (of_nat (i * 1000000000 + 250000000) :: u64) = i * 1000000000 + 250000000"
      using i by (intro unat_of_nat_small) simp
    ultimately have "unat ((of_nat i * 1000000000 + 250000000 :: u64) mod 1000000000) = 250000000"
      by (simp add: unat_mod_billion)
    then show "glitch (channel ((ext_ref_init ())\<lparr>enabled := True, haveEdgeTime := True,
        ref_status := status_default\<lparr>locked := True\<rparr>\<rparr>)) \<lparr>ev_index = 0, ev_sec = of_nat i, ev_nsec = 250000000\<rparr>"
      by (simp add: glitch_def edge_time_def ext_ref_init_def offsetFromSecondBoundary_def kNanosecondsPerSecond_def
          kCredibleOffsetNs_def Let_def del: of_nat_unat)
  qed
qed (simp_all add: ext_ref_init_def status_default_def)

end
