(* ===== verification/Tool_Options.thy ===== *)
theory Tool_Options
  imports Std_Strings
begin

text \<open>
  Command lines: the checked option values of \<open>src/packages/aes67-core/Shared/ToolOptions.h\<close> and the
  grandmaster's options of \<open>src/packages/aes67-linux-ptpd/src/Options.h\<close>, \<open>Options.cpp\<close> and
  \<open>GrandmasterConfig.h\<close>. The words after the one being read are a list; a value is taken from its front.
  The printed reasons of a refusal are values of \<open>option_error\<close>.
\<close>

section \<open>Option values\<close>

datatype option_error = NeedsValue string | NotWhole string string | NotUnsigned string string
  | NotBetween string int int int | AboveMax string nat nat

definition option_value :: "string \<Rightarrow> string list \<Rightarrow> option_error + string \<times> string list" where
  "option_value flag rest = (case rest of [] \<Rightarrow> Inl (NeedsValue flag) | v # rest' \<Rightarrow> Inr (v, rest'))"

text \<open>
  \<open>std::strtoll\<close> in base 10: \<open>None\<close> when no number was read (\<open>end == text\<close>) or it does not fit
  (\<open>ERANGE\<close>), otherwise the number and what follows it.
\<close>

definition strtoll :: "string \<Rightarrow> (int \<times> string) option" where
  "strtoll s = (case scan_number 10 s of
       None \<Rightarrow> None
     | Some (neg, m, rest) \<Rightarrow> (let v = (if neg then - int m else int m) in
         if v < - (2 ^ 63) \<or> 2 ^ 63 \<le> v then None else Some (v, rest)))"

definition integerOption :: "string \<Rightarrow> string list \<Rightarrow> int \<Rightarrow> int \<Rightarrow> option_error + int \<times> string list" where
  "integerOption flag rest lo hi = (case option_value flag rest of
       Inl e \<Rightarrow> Inl e
     | Inr (txt, rest') \<Rightarrow> (case strtoll txt of
           None \<Rightarrow> Inl (NotWhole flag txt)
         | Some (parsed, after) \<Rightarrow>
             if after \<noteq> [] then Inl (NotWhole flag txt)
             else if parsed < lo \<or> parsed > hi then Inl (NotBetween flag lo hi parsed)
             else Inr (parsed, rest')))"

text \<open>\<open>std::strtoull\<close> in base 0: the prefix of the number says which base it is in.\<close>

definition number_base :: "string \<Rightarrow> nat \<times> string" where
  "number_base s = (case s of
       a # b # cs \<Rightarrow> if a = CHR ''0'' \<and> (b = CHR ''x'' \<or> b = CHR ''X'') \<and> starts_with_digit 16 cs then (16, cs)
                    else if a = CHR ''0'' then (8, s) else (10, s)
     | [a] \<Rightarrow> if a = CHR ''0'' then (8, s) else (10, s)
     | [] \<Rightarrow> (10, s))"

definition strtoull :: "string \<Rightarrow> (nat \<times> string) option" where
  "strtoull s = (let (neg, s1) = skip_sign (dropWhile is_space s); (base, s2) = number_base s1 in
     if starts_with_digit base s2 then
       (let (m, rest) = read_digits base 0 s2 in
        if 2 ^ 64 \<le> m then None else Some (if neg then (2 ^ 64 - m) mod 2 ^ 64 else m, rest))
     else None)"

definition unsignedOption :: "string \<Rightarrow> string list \<Rightarrow> nat \<Rightarrow> option_error + nat \<times> string list" where
  "unsignedOption flag rest hi = (case option_value flag rest of
       Inl e \<Rightarrow> Inl e
     | Inr (txt, rest') \<Rightarrow>
         (case dropWhile is_space txt of
            c # cs \<Rightarrow> if c = CHR ''-'' then Inl (NotUnsigned flag txt)
              else (case strtoull txt of
                  None \<Rightarrow> Inl (NotUnsigned flag txt)
                | Some (parsed, after) \<Rightarrow>
                    if after \<noteq> [] then Inl (NotUnsigned flag txt)
                    else if parsed > hi then Inl (AboveMax flag hi parsed) else Inr (parsed, rest'))
          | [] \<Rightarrow> Inl (NotUnsigned flag txt)))"

section \<open>The grandmaster's command line\<close>

record grandmaster_config =
  gc_interfaceName :: string
  gc_profileName :: string
  gc_priority1 :: u8
  gc_priority2 :: u8
  gc_currentUtcOffset :: u16
  gc_verbose :: bool

definition config_default :: grandmaster_config where
  "config_default = \<lparr>gc_interfaceName = ''eth0'', gc_profileName = ''aes67'', gc_priority1 = 128, gc_priority2 = 128,
     gc_currentUtcOffset = 37, gc_verbose = False\<rparr>"

record command_line =
  cl_config :: grandmaster_config
  phcDevice :: string
  allowSoftwareTimestamps :: bool
  useReference :: bool
  referenceChannel :: u32

definition command_line_default :: command_line where
  "command_line_default = \<lparr>cl_config = config_default, phcDevice = [], allowSoftwareTimestamps = False,
     useReference = False, referenceChannel = 0\<rparr>"

datatype command_line_result = Ok | UsagePrinted | Bad

lemma option_value_length: "option_value flag rest = Inr (v, rest') \<Longrightarrow> length rest' < length rest"
  by (auto simp: option_value_def split: list.splits)

lemma integerOption_length: "integerOption flag rest lo hi = Inr (n, rest') \<Longrightarrow> length rest' < length rest"
  by (auto simp: integerOption_def option_value_def split: list.splits option.splits if_splits)

function parse_from :: "string list \<Rightarrow> command_line \<Rightarrow> command_line_result \<times> command_line" where
  "parse_from [] out = (Ok, out)"
| "parse_from (opt # rest) out =
     (if opt = ''--help'' \<or> opt = ''-h'' then (UsagePrinted, out)
      else if opt = ''--allow-software-timestamps'' then parse_from rest (out\<lparr>allowSoftwareTimestamps := True\<rparr>)
      else if opt = ''--verbose'' \<or> opt = ''-v'' then
        parse_from rest (out\<lparr>cl_config := cl_config out\<lparr>gc_verbose := True\<rparr>\<rparr>)
      else if opt = ''--reference'' then parse_from rest (out\<lparr>useReference := True\<rparr>)
      else if opt = ''--reference-channel'' then
        (case integerOption opt rest 0 4294967295 of
           Inl e \<Rightarrow> (Bad, out)
         | Inr (n, rest') \<Rightarrow> parse_from rest' (out\<lparr>useReference := True, referenceChannel := word_of_int n\<rparr>))
      else if opt = ''--interface'' then
        (case option_value opt rest of
           Inl e \<Rightarrow> (Bad, out)
         | Inr (v, rest') \<Rightarrow> parse_from rest' (out\<lparr>cl_config := cl_config out\<lparr>gc_interfaceName := v\<rparr>\<rparr>))
      else if opt = ''--profile'' then
        (case option_value opt rest of
           Inl e \<Rightarrow> (Bad, out)
         | Inr (v, rest') \<Rightarrow> parse_from rest' (out\<lparr>cl_config := cl_config out\<lparr>gc_profileName := v\<rparr>\<rparr>))
      else if opt = ''--priority1'' then
        (case integerOption opt rest 0 255 of
           Inl e \<Rightarrow> (Bad, out)
         | Inr (n, rest') \<Rightarrow> parse_from rest' (out\<lparr>cl_config := cl_config out\<lparr>gc_priority1 := word_of_int n\<rparr>\<rparr>))
      else if opt = ''--priority2'' then
        (case integerOption opt rest 0 255 of
           Inl e \<Rightarrow> (Bad, out)
         | Inr (n, rest') \<Rightarrow> parse_from rest' (out\<lparr>cl_config := cl_config out\<lparr>gc_priority2 := word_of_int n\<rparr>\<rparr>))
      else if opt = ''--utc-offset'' then
        (case integerOption opt rest (-32768) 32767 of
           Inl e \<Rightarrow> (Bad, out)
         | Inr (n, rest') \<Rightarrow> parse_from rest' (out\<lparr>cl_config := cl_config out\<lparr>gc_currentUtcOffset := word_of_int n\<rparr>\<rparr>))
      else if opt = ''--phc'' then
        (case option_value opt rest of
           Inl e \<Rightarrow> (Bad, out)
         | Inr (v, rest') \<Rightarrow> parse_from rest' (out\<lparr>phcDevice := v\<rparr>))
      else (Bad, out))"
  by pat_completeness auto

termination
  by (relation "measure (\<lambda>(args, out). length args)")
     (auto dest: option_value_length integerOption_length)

declare parse_from.simps(2) [simp del]

text \<open>\<open>parseCommandLine\<close> on the whole argument vector, whose first word is the program's name.\<close>

definition parseCommandLine :: "string list \<Rightarrow> command_line \<Rightarrow> command_line_result \<times> command_line" where
  "parseCommandLine argv out = parse_from (drop 1 argv) out"

section \<open>What an integer option accepts\<close>

text \<open>
  A whole number as a person writes it: optional white space, an optional sign, and decimal digits to the
  end of the word.
\<close>

definition digits_value :: "string \<Rightarrow> nat" where
  "digits_value ds = foldl (\<lambda>a c. a * 10 + (code c - 48)) 0 ds"

definition whole_number :: "string \<Rightarrow> int \<Rightarrow> bool" where
  "whole_number s n \<longleftrightarrow> (\<exists>sp sg ds. s = sp @ sg @ ds \<and> list_all is_space sp \<and> sg \<in> {[], ''+'', ''-''} \<and>
     ds \<noteq> [] \<and> list_all is_digit ds \<and> n = (if sg = ''-'' then - int (digits_value ds) else int (digits_value ds)))"

lemma read_digits_10:
  "read_digits 10 acc s = (foldl (\<lambda>a c. a * 10 + (code c - 48)) acc (takeWhile is_digit s), dropWhile is_digit s)"
  by (induction s arbitrary: acc) (auto simp: is_digit_val)

lemma starts_with_digit_10: "starts_with_digit 10 s \<longleftrightarrow> takeWhile is_digit s \<noteq> []"
  by (cases s) (auto simp: starts_with_digit_def is_digit_val)

lemma scan_number_10:
  "scan_number 10 s = Some (neg, m, []) \<longleftrightarrow>
   (\<exists>ds. skip_sign (dropWhile is_space s) = (neg, ds) \<and> ds \<noteq> [] \<and> list_all is_digit ds \<and> m = digits_value ds)"
proof (cases "skip_sign (dropWhile is_space s)")
  case (Pair g ds)
  show ?thesis
  proof (cases "list_all is_digit ds")
    case True
    then have e: "takeWhile is_digit ds = ds" "dropWhile is_digit ds = []" by (auto simp: list_all_iff)
    have "read_digits 10 0 ds = (digits_value ds, [])" "starts_with_digit 10 ds \<longleftrightarrow> ds \<noteq> []"
      unfolding read_digits_10 starts_with_digit_10 e digits_value_def by simp_all
    then show ?thesis using True by (auto simp: scan_number_def Pair)
  next
    case False
    then have "dropWhile is_digit ds \<noteq> []" by (simp add: list_all_iff)
    then show ?thesis using False by (auto simp: scan_number_def Pair read_digits_10)
  qed
qed

lemma skip_sign_split:
  "skip_sign t = (neg, ds) \<longleftrightarrow> (if neg then t = ''-'' @ ds
     else t = ''+'' @ ds \<or> t = ds \<and> take 1 t \<noteq> ''-'' \<and> take 1 t \<noteq> ''+'')"
  by (auto simp: skip_sign_def split: list.splits if_splits)

lemma space_split:
  "list_all is_space sp \<Longrightarrow> take 1 t = [] \<or> \<not> is_space (hd t) \<Longrightarrow> dropWhile is_space (sp @ t) = t"
  by (induction sp) (cases t; auto)+

lemma whole_number_scan:
  "whole_number s n \<longleftrightarrow> (\<exists>neg m. scan_number 10 s = Some (neg, m, []) \<and> n = (if neg then - int m else int m))"
proof
  assume "whole_number s n"
  then obtain sp sg ds where s: "s = sp @ sg @ ds" "list_all is_space sp" "sg \<in> {[], ''+'', ''-''}" "ds \<noteq> []"
    "list_all is_digit ds" "n = (if sg = ''-'' then - int (digits_value ds) else int (digits_value ds))"
    unfolding whole_number_def by blast
  obtain d ds' where d: "ds = d # ds'" "is_digit d" using s(4,5) by (cases ds) auto
  have "dropWhile is_space s = sg @ ds"
    unfolding s(1) using s(2,3) digit_facts(1) [OF d(2)] by (intro space_split) (auto simp: d(1) is_space_def code_def)
  then have "skip_sign (dropWhile is_space s) = (sg = ''-'', ds)"
    using s(3) digit_facts [OF d(2)] by (auto simp: skip_sign_split d(1))
  then have "scan_number 10 s = Some (sg = ''-'', digits_value ds, [])" using s(4,5) by (auto simp: scan_number_10)
  then show "\<exists>neg m. scan_number 10 s = Some (neg, m, []) \<and> n = (if neg then - int m else int m)"
    using s(6) by auto
next
  assume "\<exists>neg m. scan_number 10 s = Some (neg, m, []) \<and> n = (if neg then - int m else int m)"
  then obtain neg ds where r: "skip_sign (dropWhile is_space s) = (neg, ds)" "ds \<noteq> []" "list_all is_digit ds"
    "n = (if neg then - int (digits_value ds) else int (digits_value ds))"
    by (auto simp: scan_number_10)
  have s: "s = takeWhile is_space s @ dropWhile is_space s" by simp
  obtain sg where sg: "dropWhile is_space s = sg @ ds" "sg \<in> {[], ''+'', ''-''}" "sg = ''-'' \<longleftrightarrow> neg"
    using r(1) by (auto simp: skip_sign_split split: if_splits)
  have "list_all is_space (takeWhile is_space s)" by (auto simp: list_all_iff dest: set_takeWhileD)
  then show "whole_number s n"
    unfolding whole_number_def using s sg r(2,3,4) by (intro exI [of _ "takeWhile is_space s"] exI [of _ sg] exI [of _ ds]) simp
qed

lemma whole_number_unique: "whole_number s n \<Longrightarrow> whole_number s m \<Longrightarrow> n = m"
  by (auto simp: whole_number_scan)

lemma strtoll_whole: "strtoll s = Some (n, []) \<longleftrightarrow> whole_number s n \<and> - (2 ^ 63) \<le> n \<and> n < 2 ^ 63"
  by (auto simp: whole_number_scan strtoll_def Let_def split: option.splits if_splits)

lemma integerOption_iff:
  assumes "- (2 ^ 63) \<le> lo" "hi < 2 ^ 63"
  shows "integerOption flag (txt # rest) lo hi = Inr (n, rest') \<longleftrightarrow>
    whole_number txt n \<and> lo \<le> n \<and> n \<le> hi \<and> rest' = rest"
proof -
  have "integerOption flag (txt # rest) lo hi = Inr (n, rest') \<longleftrightarrow>
      strtoll txt = Some (n, []) \<and> lo \<le> n \<and> n \<le> hi \<and> rest' = rest"
    by (auto simp: integerOption_def option_value_def split: option.splits)
  then show ?thesis using assms by (auto simp: strtoll_whole)
qed

text \<open>The decimal text of a number is accepted as that number.\<close>

lemma whole_number_decimal: "whole_number (decimal_int n) n"
proof (cases "n < 0")
  case True
  obtain c cs where c: "decimal (nat (- n)) = c # cs" "is_digit c" using decimal_hd by blast
  have "scan_number 10 (decimal_int n) = Some (True, nat (- n), [])"
    using scan_decimal [of "[]" "nat (- n)"] True c digit_facts [OF c(2)]
    by (auto simp: decimal_int_def scan_number_def skip_sign_def is_space_def code_def split: if_splits)
  then show ?thesis using True by (auto simp: whole_number_scan)
next
  case False
  then show ?thesis using scan_decimal [of "[]" "nat n"] by (auto simp: whole_number_scan decimal_int_def)
qed

lemma integerOption_decimal:
  "- (2 ^ 63) \<le> lo \<Longrightarrow> hi < 2 ^ 63 \<Longrightarrow> lo \<le> n \<Longrightarrow> n \<le> hi \<Longrightarrow> integerOption flag (decimal_int n # rest) lo hi = Inr (n, rest)"
  by (simp add: integerOption_iff whole_number_decimal)

section \<open>Writing a command line\<close>

text \<open>The arguments that ask for a configuration, every option written out.\<close>

definition command_args :: "command_line \<Rightarrow> string list" where
  "command_args c =
     [''--interface'', gc_interfaceName (cl_config c), ''--profile'', gc_profileName (cl_config c),
      ''--priority1'', decimal_int (uint (gc_priority1 (cl_config c))),
      ''--priority2'', decimal_int (uint (gc_priority2 (cl_config c))),
      ''--utc-offset'', decimal_int (sint (gc_currentUtcOffset (cl_config c))),
      ''--phc'', phcDevice c] @
     (if gc_verbose (cl_config c) then [''--verbose''] else []) @
     (if allowSoftwareTimestamps c then [''--allow-software-timestamps''] else []) @
     (if useReference c then [''--reference-channel'', decimal_int (uint (referenceChannel c))] else [])"

lemma word_ranges:
  "uint (b :: u8) \<le> 255" "sint (h :: u16) \<ge> -32768" "sint h \<le> 32767" "uint (w :: u32) \<le> 4294967295"
  using uint_lt2p [of b] sint_range_size [of h] uint_lt2p [of w] by (simp_all add: word_size)

lemma parse_value:
  "parse_from (''--interface'' # v # rest) out = parse_from rest (out\<lparr>cl_config := cl_config out\<lparr>gc_interfaceName := v\<rparr>\<rparr>)"
  "parse_from (''--profile'' # v # rest) out = parse_from rest (out\<lparr>cl_config := cl_config out\<lparr>gc_profileName := v\<rparr>\<rparr>)"
  "parse_from (''--phc'' # v # rest) out = parse_from rest (out\<lparr>phcDevice := v\<rparr>)"
  "parse_from (''--verbose'' # rest) out = parse_from rest (out\<lparr>cl_config := cl_config out\<lparr>gc_verbose := True\<rparr>\<rparr>)"
  "parse_from (''--allow-software-timestamps'' # rest) out = parse_from rest (out\<lparr>allowSoftwareTimestamps := True\<rparr>)"
  by (simp_all add: parse_from.simps(2) option_value_def)

lemma parse_number:
  "parse_from (''--priority1'' # decimal_int (uint b) # rest) out =
     parse_from rest (out\<lparr>cl_config := cl_config out\<lparr>gc_priority1 := b\<rparr>\<rparr>)"
  "parse_from (''--priority2'' # decimal_int (uint b) # rest) out =
     parse_from rest (out\<lparr>cl_config := cl_config out\<lparr>gc_priority2 := b\<rparr>\<rparr>)"
  "parse_from (''--utc-offset'' # decimal_int (sint h) # rest) out =
     parse_from rest (out\<lparr>cl_config := cl_config out\<lparr>gc_currentUtcOffset := h\<rparr>\<rparr>)"
  "parse_from (''--reference-channel'' # decimal_int (uint w) # rest) out =
     parse_from rest (out\<lparr>useReference := True, referenceChannel := w\<rparr>)"
  by (simp_all add: parse_from.simps(2) integerOption_decimal word_ranges)

text \<open>
  What the grandmaster's command line asks for is what it gets: for every configuration whose reference
  channel is zero when no reference is used, the arguments that spell it out, in front of whatever program name, parse to \<open>Ok\<close> and exactly
  that value; the eight-bit priorities, the signed 16-bit offset and the 32-bit channel arrive unchanged.
\<close>
theorem command_line_roundtrip:
  assumes "\<not> useReference c \<Longrightarrow> referenceChannel c = 0"
  shows "parseCommandLine (program # command_args c) command_line_default = (Ok, c)"
  using assms by (cases c) (auto simp: parseCommandLine_def command_args_def command_line_default_def config_default_def
      parse_value parse_number intro: grandmaster_config.equality)

theorem command_line_roundtrip_witness:
  "parseCommandLine (''aes67-ptpd'' # command_args (command_line_default\<lparr>useReference := True, referenceChannel := 2\<rparr>))
     command_line_default = (Ok, command_line_default\<lparr>useReference := True, referenceChannel := 2\<rparr>)"
  by (rule command_line_roundtrip) simp

text \<open>
  A priority is never silently something else. Whatever options came before, \<open>--priority1\<close> followed by
  a word is accepted exactly when that word is a whole decimal number from 0 to 255, and then the stored byte has
  that value; every other word, and a missing one, makes the command line \<open>Bad\<close>.
\<close>
theorem priority_option_exact:
  fixes out :: command_line
  shows "(whole_number word n \<and> 0 \<le> n \<and> n \<le> 255 \<longrightarrow>
      (\<exists>b. uint b = n \<and> parse_from (''--priority1'' # word # rest) out =
        parse_from rest (out\<lparr>cl_config := cl_config out\<lparr>gc_priority1 := b\<rparr>\<rparr>))) \<and>
    ((\<forall>n. whole_number word n \<longrightarrow> n < 0 \<or> 255 < n) \<longrightarrow> parse_from (''--priority1'' # word # rest) out = (Bad, out)) \<and>
    parse_from [''--priority1''] out = (Bad, out)"
proof (intro conjI impI)
  assume n: "whole_number word n \<and> 0 \<le> n \<and> n \<le> 255"
  then have "integerOption ''--priority1'' (word # rest) 0 255 = Inr (n, rest)" by (simp add: integerOption_iff)
  moreover have "uint (word_of_int n :: u8) = n" using n by (simp add: uint_word_of_int_eq take_bit_int_eq_self)
  ultimately show "\<exists>b. uint b = n \<and> parse_from (''--priority1'' # word # rest) out =
      parse_from rest (out\<lparr>cl_config := cl_config out\<lparr>gc_priority1 := b\<rparr>\<rparr>)"
    by (intro exI [of _ "word_of_int n"]) (simp add: parse_from.simps(2))
next
  assume none: "\<forall>n. whole_number word n \<longrightarrow> n < 0 \<or> 255 < n"
  show "parse_from (''--priority1'' # word # rest) out = (Bad, out)"
  proof (cases "integerOption ''--priority1'' (word # rest) 0 255")
    case (Inr r)
    then show ?thesis using none by (cases r) (force simp: integerOption_iff)
  qed (simp add: parse_from.simps(2))
qed (simp add: parse_from.simps(2) integerOption_def option_value_def)

theorem priority_option_exact_witness:
  "(\<exists>b. uint b = 12 \<and> parse_from [''--priority1'', ''12''] command_line_default =
      (Ok, command_line_default\<lparr>cl_config := config_default\<lparr>gc_priority1 := b\<rparr>\<rparr>)) \<and>
   parse_from [''--priority1'', ''300''] command_line_default = (Bad, command_line_default)"
proof -
  have "decimal_int 12 = ''12''" "decimal_int 300 = ''300''" by code_simp+
  then have w: "whole_number ''12'' 12" "whole_number ''300'' 300" by (metis whole_number_decimal)+
  have none: "\<forall>n. whole_number ''300'' n \<longrightarrow> n < 0 \<or> 255 < n" by (intro allI impI disjI2) (drule whole_number_unique [OF _ w(2)], simp)
  show ?thesis
    using priority_option_exact [of "''12''" 12 "[]" command_line_default] w(1)
      priority_option_exact [of "''300''" 0 "[]" command_line_default] none by (simp add: command_line_default_def)
qed

end
