(* ===== verification/Grandmaster.thy ===== *)
theory Grandmaster
  imports PTP_Wire External_Reference Tool_Options
begin

text \<open>
  The grandmaster of the Linux daemon: \<open>src/packages/aes67-linux-ptpd/src/Grandmaster.h\<close> and
  \<open>Grandmaster.cpp\<close>, with the transmit path of \<open>PtpSockets.cpp\<close>. What the operating system answers is an
  argument of each operation: whether a send succeeded, the transmit time stamp, the time of the hardware
  clock, the datagrams waiting on a socket. The frames handed to the network are collected in \<open>sent\<close>. An
  operation is \<open>None\<close> when it would follow a null profile or leave a buffer; the log lines are not
  modelled.
\<close>

section \<open>State\<close>

datatype frame = EventFrame byte_list | GeneralFrame byte_list

record gm =
  gm_config :: grandmaster_config
  announcedLocked :: bool
  gm_profile :: "ptp_profile option"
  gm_port :: port_context
  gm_dataset :: announce_dataset
  announceSequence :: u16
  syncSequence :: u16
  droppedFollowUps :: u64
  announcesSent :: u64
  syncsSent :: u64
  delayResponsesSent :: u64
  sent :: "frame list"

definition gm_init :: "grandmaster_config \<Rightarrow> gm" where
  "gm_init c = \<lparr>gm_config = c, announcedLocked = False, gm_profile = None, gm_port = port_default,
     gm_dataset = dataset_default, announceSequence = 0, syncSequence = 0, droppedFollowUps = 0, announcesSent = 0,
     syncsSent = 0, delayResponsesSent = 0, sent = []\<rparr>"

definition kClockClassLocked :: u8 where "kClockClassLocked = 13"
definition kClockClassFree :: u8 where "kClockClassFree = 248"
definition kTimeSourceLocked :: u8 where "kTimeSourceLocked = 0x90"
definition kTimeSourceFree :: u8 where "kTimeSourceFree = 0xA0"

lemmas announced_consts = kClockClassLocked_def kClockClassFree_def kTimeSourceLocked_def kTimeSourceFree_def

definition intervalFrom :: "i8 \<Rightarrow> int" where
  "intervalFrom l = int (unat (ptpLogIntervalToNanoseconds l))"

section \<open>Starting\<close>

datatype start_error = NoProfile string | BadInterval string

definition gm_start :: "byte_list \<Rightarrow> u8 \<Rightarrow> gm \<Rightarrow> start_error + gm" where
  "gm_start mac accuracy st = (case ptpProfileByName (gc_profileName (gm_config st)) of
       None \<Rightarrow> Inl (NoProfile (gc_profileName (gm_config st)))
     | Some p \<Rightarrow>
         if ptpLogIntervalToNanoseconds (logSyncInterval (prof_settings p)) = 0 \<or>
            ptpLogIntervalToNanoseconds (logAnnounceInterval (prof_settings p)) = 0
         then Inl (BadInterval (prof_name p))
         else (let port = \<lparr>pc_clockIdentity = fromMAC mac, pc_portNumber = 1,
                           pc_domainNumber = domainNumber (prof_settings p), pc_majorSdoId = majorSdoId (prof_settings p)\<rparr> in
           Inr (st\<lparr>gm_profile := Some p, gm_port := port,
             gm_dataset := (gm_dataset st)\<lparr>ad_clockIdentity := pc_clockIdentity port,
               ad_priority1 := gc_priority1 (gm_config st), ad_priority2 := gc_priority2 (gm_config st),
               ad_clockClass := kClockClassFree, ad_timeSource := kTimeSourceFree, ad_clockAccuracy := accuracy,
               ad_currentUtcOffset := gc_currentUtcOffset (gm_config st), ad_currentUtcOffsetValid := False\<rparr>\<rparr>)))"

section \<open>Sending\<close>

definition sendAnnounce :: "u64 \<Rightarrow> bool \<Rightarrow> gm \<Rightarrow> gm option" where
  "sendAnnounce timeNs ok st = do {
     p \<leftarrow> gm_profile st;
     (n, buf) \<leftarrow> buildAnnounce (Some (replicate kAnnounceSize 0)) kAnnounceSize (gm_port st) (gm_dataset st)
        (announceSequence st) (logAnnounceInterval (prof_settings p)) timeNs;
     msg \<leftarrow> buf;
     let st1 = st\<lparr>announceSequence := announceSequence st + 1\<rparr>;
     Some (if ok then st1\<lparr>announcesSent := announcesSent st1 + 1, sent := sent st1 @ [GeneralFrame (take n msg)]\<rparr>
           else st1) }"

text \<open>
  \<open>PtpSockets::sendEvent\<close>. The kernel puts transmit stamps on the socket's error queue: \<open>queue\<close> are the
  stamps there when the call is made, \<open>arriving\<close> those that come within the time the call waits. One
  stamp is taken from the front, whatever frame it belongs to.
\<close>

definition sendEvent :: "bool \<Rightarrow> u64 list \<Rightarrow> u64 list \<Rightarrow> bool \<times> u64 \<times> u64 list" where
  "sendEvent sendtoOk arriving queue =
     (if \<not> sendtoOk then (False, 0, queue)
      else (case queue @ arriving of [] \<Rightarrow> (True, 0, []) | t # rest \<Rightarrow> (True, t, rest)))"

definition sendSyncPair :: "bool \<Rightarrow> u64 \<Rightarrow> bool \<Rightarrow> gm \<Rightarrow> gm option" where
  "sendSyncPair eventOk transmitTimeNs generalOk st = do {
     p \<leftarrow> gm_profile st;
     let sq = syncSequence st;
     let st1 = st\<lparr>syncSequence := sq + 1\<rparr>;
     (n, buf) \<leftarrow> buildSync (Some (replicate kSyncSize 0)) kSyncSize (gm_port st1) sq (logSyncInterval (prof_settings p));
     msg \<leftarrow> buf;
     if \<not> eventOk then Some st1 else do {
       let st2 = st1\<lparr>sent := sent st1 @ [EventFrame (take n msg)]\<rparr>;
       if transmitTimeNs = 0 then Some (st2\<lparr>droppedFollowUps := droppedFollowUps st2 + 1\<rparr>) else do {
         (m, fbuf) \<leftarrow> buildFollowUp (Some (replicate kFollowUpSize 0)) kFollowUpSize (gm_port st2) sq
            (logSyncInterval (prof_settings p)) transmitTimeNs;
         fmsg \<leftarrow> fbuf;
         Some (if generalOk then st2\<lparr>syncsSent := syncsSent st2 + 1, sent := sent st2 @ [GeneralFrame (take m fmsg)]\<rparr>
               else st2) } } }"

definition handleDelayReq :: "ptp_header \<Rightarrow> u64 \<Rightarrow> bool \<Rightarrow> gm \<Rightarrow> gm option" where
  "handleDelayReq h receiveTimeNs ok st = do {
     p \<leftarrow> gm_profile st;
     (n, buf) \<leftarrow> buildDelayResp (Some (replicate kDelayRespSize 0)) kDelayRespSize (gm_port st) (sourcePortIdentity h)
        (h_sequenceId h) (logMinDelayReqInterval (prof_settings p)) receiveTimeNs;
     msg \<leftarrow> buf;
     Some (if ok then st\<lparr>delayResponsesSent := delayResponsesSent st + 1, sent := sent st @ [GeneralFrame (take n msg)]\<rparr>
           else st) }"

section \<open>Receiving\<close>

text \<open>A datagram, its receive stamp, the hardware clock at that moment, and whether an answer can be sent.\<close>

record datagram =
  dg_bytes :: byte_list
  dg_time :: u64
  dg_clock :: u64
  dg_sendOk :: bool

definition on_datagram :: "datagram \<Rightarrow> gm \<Rightarrow> gm option" where
  "on_datagram d st = (case parseHeader (Some (dg_bytes d)) (length (dg_bytes d)) of
       None \<Rightarrow> None
     | Some None \<Rightarrow> Some st
     | Some (Some h) \<Rightarrow>
         if h_domainNumber h \<noteq> pc_domainNumber (gm_port st) then Some st
         else if pi_clockIdentity (sourcePortIdentity h) = pc_clockIdentity (gm_port st) then Some st
         else (case getMessageType h of
             Delay_Req \<Rightarrow> handleDelayReq h (if dg_time d = 0 then dg_clock d else dg_time d) (dg_sendOk d) st
           | _ \<Rightarrow> Some st))"

fun servicePort :: "datagram list \<Rightarrow> gm \<Rightarrow> gm option" where
  "servicePort [] st = Some st"
| "servicePort (d # ds) st = do { st1 \<leftarrow> on_datagram d st; servicePort ds st1 }"

section \<open>Following the reference\<close>

definition followTheReference :: "('sv, 'oc) servo_api \<Rightarrow> int \<Rightarrow> (extts_event option \<times> int) list \<Rightarrow>
    'sv ext_ref option \<Rightarrow> gm \<Rightarrow> 'sv ext_ref option \<times> gm" where
  "followTheReference api now es ref st = (case ref of
       None \<Rightarrow> (None, st)
     | Some r \<Rightarrow> (let r1 = fst (service api now es r); lck = locked (ref_status r1) in
         if lck = announcedLocked st then (Some r1, st)
         else (Some r1, st\<lparr>announcedLocked := lck,
           gm_dataset := (gm_dataset st)\<lparr>ad_clockClass := (if lck then kClockClassLocked else kClockClassFree),
             ad_timeSource := (if lck then kTimeSourceLocked else kTimeSourceFree)\<rparr>\<rparr>)))"

section \<open>The loop\<close>

record 'sv gm_loop =
  lp_gm :: gm
  lp_ref :: "'sv ext_ref option"
  nextAnnounce :: int
  nextSync :: int
  nextStatus :: int

text \<open>What one turn of the loop meets: the times and answers of the operating system.\<close>

record tick =
  tk_now :: int
  tk_clock :: u64
  tk_announceOk :: bool
  tk_eventOk :: bool
  tk_txTime :: u64
  tk_followOk :: bool
  tk_edges :: "(extts_event option \<times> int) list"
  tk_event :: "datagram list"
  tk_general :: "datagram list"

text \<open>The next deadline of a message whose deadline has come; a stall is not caught up.\<close>

definition advance :: "int \<Rightarrow> int \<Rightarrow> int \<Rightarrow> int" where
  "advance now period due = (if due + period < now then now + period else due + period)"

definition gm_turn :: "('sv, 'oc) servo_api \<Rightarrow> tick \<Rightarrow> 'sv gm_loop \<Rightarrow> 'sv gm_loop option" where
  "gm_turn api t lp = do {
     p \<leftarrow> gm_profile (lp_gm lp);
     let announcePeriod = intervalFrom (logAnnounceInterval (prof_settings p));
     let syncPeriod = intervalFrom (logSyncInterval (prof_settings p));
     let now = tk_now t;
     (g1, na) \<leftarrow> (if now \<ge> nextAnnounce lp
        then do { g \<leftarrow> sendAnnounce (tk_clock t) (tk_announceOk t) (lp_gm lp); Some (g, advance now announcePeriod (nextAnnounce lp)) }
        else Some (lp_gm lp, nextAnnounce lp));
     (g2, ns) \<leftarrow> (if now \<ge> nextSync lp
        then do { g \<leftarrow> sendSyncPair (tk_eventOk t) (tk_txTime t) (tk_followOk t) g1; Some (g, advance now syncPeriod (nextSync lp)) }
        else Some (g1, nextSync lp));
     let (ref, g3) = followTheReference api now (tk_edges t) (lp_ref lp) g2;
     g4 \<leftarrow> servicePort (tk_event t) g3;
     g5 \<leftarrow> servicePort (tk_general t) g4;
     Some \<lparr>lp_gm = g5, lp_ref = ref, nextAnnounce = na, nextSync = ns,
       nextStatus = (if now \<ge> nextStatus lp then advance now 1000000000 (nextStatus lp) else nextStatus lp)\<rparr> }"

fun gm_run :: "('sv, 'oc) servo_api \<Rightarrow> tick list \<Rightarrow> 'sv gm_loop \<Rightarrow> 'sv gm_loop option" where
  "gm_run api [] lp = Some lp"
| "gm_run api (t # ts) lp = do { lp1 \<leftarrow> gm_turn api t lp; gm_run api ts lp1 }"

definition loop_init :: "int \<Rightarrow> 'sv ext_ref option \<Rightarrow> gm \<Rightarrow> 'sv gm_loop" where
  "loop_init now ref st = \<lparr>lp_gm = st, lp_ref = ref, nextAnnounce = now, nextSync = now, nextStatus = now + 1000000000\<rparr>"

section \<open>Each operation sends what it should\<close>

text \<open>A running grandmaster: a profile whose intervals can be paced, and identities of eight bytes.\<close>

definition gm_ok :: "gm \<Rightarrow> bool" where
  "gm_ok st \<longleftrightarrow> gm_profile st \<noteq> None \<and> length (pc_clockIdentity (gm_port st)) = 8 \<and>
     length (ad_clockIdentity (gm_dataset st)) = 8"

lemma gm_start_ok: "gm_start mac acc st = Inr st' \<Longrightarrow> gm_ok st'"
  by (auto simp: gm_start_def gm_ok_def Let_def split: option.splits if_splits)

text \<open>What the frame of a message has to look like to a receiver.\<close>

definition is_message :: "port_context \<Rightarrow> ptp_message_type \<Rightarrow> u16 \<Rightarrow> byte_list \<Rightarrow> bool" where
  "is_message port type sq bs \<longleftrightarrow>
     (\<exists>h i. parseHeader (Some bs) (length bs) = Some (Some h) \<and> header_agrees port type (length bs) sq i h)"

definition carries_time :: "u64 \<Rightarrow> byte_list \<Rightarrow> bool" where
  "carries_time ns bs \<longleftrightarrow> (\<exists>t. timestamp_at bs 34 = Some t \<and> toNanoseconds t = ns)"

lemma built_message:
  assumes "header_fields bs (wire_header port type l f s c i)" "\<forall>c. type \<noteq> Unnamed c" "unat l = length bs" "34 \<le> length bs"
  shows "is_message port type s bs"
  using built_agrees [OF assms(1,2,3,4)] unfolding is_message_def by blast

lemma sendAnnounce_sends:
  assumes "gm_ok st"
  shows "\<exists>msg. sendAnnounce timeNs ok st = Some (st\<lparr>announceSequence := announceSequence st + 1,
       announcesSent := announcesSent st + (if ok then 1 else 0), sent := sent st @ (if ok then [GeneralFrame msg] else [])\<rparr>) \<and>
     is_message (gm_port st) Announce (announceSequence st) msg \<and>
     byte_at msg 48 = Some (ad_clockClass (gm_dataset st)) \<and> byte_at msg 63 = Some (ad_timeSource (gm_dataset st))"
proof -
  obtain p where p: "gm_profile st = Some p" using assms by (auto simp: gm_ok_def)
  obtain bs where bs: "buildAnnounce (Some (replicate kAnnounceSize 0)) kAnnounceSize (gm_port st) (gm_dataset st)
      (announceSequence st) (logAnnounceInterval (prof_settings p)) timeNs = Some (kAnnounceSize, Some bs)"
    "length bs = kAnnounceSize" "header_fields bs (wire_header (gm_port st) Announce 64
        (if ad_currentUtcOffsetValid (gm_dataset st) then kFlagPtpTimescale OR kFlagCurrentUtcOffsetValid else kFlagPtpTimescale)
        (announceSequence st) kControlOther (logAnnounceInterval (prof_settings p)))"
    "byte_at bs 48 = Some (ad_clockClass (gm_dataset st))" "byte_at bs 63 = Some (ad_timeSource (gm_dataset st))"
    using announce_built [of "replicate kAnnounceSize 0" "gm_port st" "gm_dataset st" "announceSequence st"
        "logAnnounceInterval (prof_settings p)" timeNs] assms by (auto simp: gm_ok_def simp del: byte_at_in read16_in)
  have "is_message (gm_port st) Announce (announceSequence st) bs"
    using built_message [OF bs(3)] bs(2) by (simp add: kAnnounceSize_def)
  then show ?thesis using bs p
    by (intro exI [of _ bs]) (simp add: sendAnnounce_def del: byte_at_in)
qed

lemma sendSyncPair_sends:
  assumes "gm_ok st"
  shows "\<exists>sync fu. sendSyncPair e tx g st = Some (st\<lparr>syncSequence := syncSequence st + 1,
       droppedFollowUps := droppedFollowUps st + (if e \<and> tx = 0 then 1 else 0),
       syncsSent := syncsSent st + (if e \<and> tx \<noteq> 0 \<and> g then 1 else 0),
       sent := sent st @ (if e then [EventFrame sync] else []) @ (if e \<and> tx \<noteq> 0 \<and> g then [GeneralFrame fu] else [])\<rparr>) \<and>
     is_message (gm_port st) Sync (syncSequence st) sync \<and>
     is_message (gm_port st) Follow_Up (syncSequence st) fu \<and> carries_time tx fu"
proof -
  obtain p where p: "gm_profile st = Some p" using assms by (auto simp: gm_ok_def)
  let ?l = "logSyncInterval (prof_settings p)"
  obtain bs where bs: "buildSync (Some (replicate kSyncSize 0)) kSyncSize (gm_port st) (syncSequence st) ?l = Some (kSyncSize, Some bs)"
    "length bs = kSyncSize"
    "header_fields bs (wire_header (gm_port st) Sync 44 (kFlagTwoStep OR kFlagPtpTimescale) (syncSequence st) kControlSync ?l)"
    using sync_built [of "replicate kSyncSize 0" "gm_port st" "syncSequence st" ?l] assms by (auto simp: gm_ok_def)
  obtain fu where fu: "buildFollowUp (Some (replicate kFollowUpSize 0)) kFollowUpSize (gm_port st) (syncSequence st) ?l tx =
      Some (kFollowUpSize, Some fu)" "length fu = kFollowUpSize"
    "header_fields fu (wire_header (gm_port st) Follow_Up 44 kFlagPtpTimescale (syncSequence st) kControlFollowUp ?l)"
    "timestamp_at fu 34 = Some (PTPTimestamp tx)"
    using follow_up_built [of "replicate kFollowUpSize 0" "gm_port st" "syncSequence st" ?l tx] assms by (auto simp: gm_ok_def)
  have "is_message (gm_port st) Sync (syncSequence st) bs" "is_message (gm_port st) Follow_Up (syncSequence st) fu"
    using built_message [OF bs(3)] built_message [OF fu(3)] bs(2) fu(2) by (simp_all add: wire_sizes)
  moreover have "carries_time tx fu" using fu(4) timestamp_back by (auto simp: carries_time_def)
  moreover have "sendSyncPair e tx g st = Some (st\<lparr>syncSequence := syncSequence st + 1,
       droppedFollowUps := droppedFollowUps st + (if e \<and> tx = 0 then 1 else 0),
       syncsSent := syncsSent st + (if e \<and> tx \<noteq> 0 \<and> g then 1 else 0),
       sent := sent st @ (if e then [EventFrame bs] else []) @ (if e \<and> tx \<noteq> 0 \<and> g then [GeneralFrame fu] else [])\<rparr>)"
    using bs(1,2) fu(1,2) p by (cases e; cases "tx = 0"; cases g) (simp_all add: sendSyncPair_def)
  ultimately show ?thesis by blast
qed

lemma handleDelayReq_sends:
  assumes "gm_ok st" "length (pi_clockIdentity (sourcePortIdentity h)) = 8"
  shows "\<exists>msg. handleDelayReq h ns ok st = Some (st\<lparr>delayResponsesSent := delayResponsesSent st + (if ok then 1 else 0),
       sent := sent st @ (if ok then [GeneralFrame msg] else [])\<rparr>) \<and>
     is_message (gm_port st) Delay_Resp (h_sequenceId h) msg \<and> carries_time ns msg \<and> port_at msg 44 = Some (sourcePortIdentity h)"
proof -
  obtain p where p: "gm_profile st = Some p" using assms by (auto simp: gm_ok_def)
  let ?l = "logMinDelayReqInterval (prof_settings p)"
  obtain bs where bs: "buildDelayResp (Some (replicate kDelayRespSize 0)) kDelayRespSize (gm_port st) (sourcePortIdentity h)
      (h_sequenceId h) ?l ns = Some (kDelayRespSize, Some bs)" "length bs = kDelayRespSize"
    "header_fields bs (wire_header (gm_port st) Delay_Resp 54 kFlagPtpTimescale (h_sequenceId h) kControlDelayResp ?l)"
    "timestamp_at bs 34 = Some (PTPTimestamp ns)" "port_at bs 44 = Some (sourcePortIdentity h)"
    using delay_resp_built [of "replicate kDelayRespSize 0" "gm_port st" "sourcePortIdentity h" "h_sequenceId h" ?l ns] assms
    by (auto simp: gm_ok_def)
  have "is_message (gm_port st) Delay_Resp (h_sequenceId h) bs"
    using built_message [OF bs(3)] bs(2) by (simp add: kDelayRespSize_def)
  moreover have "carries_time ns bs" using bs(4) timestamp_back by (auto simp: carries_time_def)
  ultimately show ?thesis using bs p by (intro exI [of _ bs]) (simp add: handleDelayReq_def)
qed

lemma parsed_identity: "parseHeader (Some bs) n = Some (Some h) \<Longrightarrow> length (pi_clockIdentity (sourcePortIdentity h)) = 8"
  by (auto simp: parseHeader_def get_block_def Option.bind_eq_Some_conv split: if_splits)

lemma parseHeader_total: "\<exists>r. parseHeader (Some bs) (length bs) = Some r"
proof (cases "length bs < 34")
  case False
  then have "byte_at bs 0 = Some (bs ! 0)" by (intro byte_at_in) linarith
  then show ?thesis using False by (simp add: parseHeader_def kHeaderSize_def get16_def get_block_def)
qed (simp add: parseHeader_def kHeaderSize_def)

text \<open>A datagram this port answers: long enough, of its domain, from another clock, a Delay_Req.\<close>

definition answers :: "gm \<Rightarrow> byte_list \<Rightarrow> ptp_header option" where
  "answers st bs = (case parseHeader (Some bs) (length bs) of
       Some (Some h) \<Rightarrow> if h_domainNumber h = pc_domainNumber (gm_port st) \<and>
           pi_clockIdentity (sourcePortIdentity h) \<noteq> pc_clockIdentity (gm_port st) \<and> getMessageType h = Delay_Req
         then Some h else None
     | _ \<Rightarrow> None)"

lemma on_datagram_ignores: "answers st (dg_bytes d) = None \<Longrightarrow> on_datagram d st = Some st"
  using parseHeader_total [of "dg_bytes d"]
  by (auto simp: on_datagram_def answers_def split: option.splits ptp_message_type.splits if_splits)

lemma on_datagram_answers:
  assumes "gm_ok st" "answers st (dg_bytes d) = Some h"
  shows "\<exists>msg. on_datagram d st = Some (st\<lparr>delayResponsesSent := delayResponsesSent st + (if dg_sendOk d then 1 else 0),
       sent := sent st @ (if dg_sendOk d then [GeneralFrame msg] else [])\<rparr>) \<and>
     is_message (gm_port st) Delay_Resp (h_sequenceId h) msg \<and>
     carries_time (if dg_time d = 0 then dg_clock d else dg_time d) msg \<and> port_at msg 44 = Some (sourcePortIdentity h)"
proof -
  have h: "parseHeader (Some (dg_bytes d)) (length (dg_bytes d)) = Some (Some h)"
    "h_domainNumber h = pc_domainNumber (gm_port st)" "pi_clockIdentity (sourcePortIdentity h) \<noteq> pc_clockIdentity (gm_port st)"
    "getMessageType h = Delay_Req"
    using assms(2) by (auto simp: answers_def split: option.splits if_splits)
  show ?thesis
    using handleDelayReq_sends [OF assms(1) parsed_identity [OF h(1)], of "if dg_time d = 0 then dg_clock d else dg_time d" "dg_sendOk d"]
    by (simp add: on_datagram_def h)
qed

section \<open>The loop keeps its state in order\<close>

definition keeps :: "gm \<Rightarrow> gm \<Rightarrow> bool" where
  "keeps st st' \<longleftrightarrow> gm_profile st' = gm_profile st \<and> gm_port st' = gm_port st \<and> gm_dataset st' = gm_dataset st \<and>
     announcedLocked st' = announcedLocked st"

lemma keeps_trans: "keeps a b \<Longrightarrow> keeps b c \<Longrightarrow> keeps a c"
  by (simp add: keeps_def)

lemma keeps_ok: "keeps st st' \<Longrightarrow> gm_ok st' = gm_ok st"
  by (simp add: keeps_def gm_ok_def)

lemma sendAnnounce_keeps: "gm_ok st \<Longrightarrow> \<exists>st'. sendAnnounce ns ok st = Some st' \<and> keeps st st'"
  using sendAnnounce_sends [of st ns ok] by (auto simp: keeps_def)

lemma sendSyncPair_keeps: "gm_ok st \<Longrightarrow> \<exists>st'. sendSyncPair e tx g st = Some st' \<and> keeps st st'"
  using sendSyncPair_sends [of st e tx g] by (auto simp: keeps_def)

lemma on_datagram_keeps:
  assumes "gm_ok st"
  shows "\<exists>st'. on_datagram d st = Some st' \<and> keeps st st'"
proof (cases "answers st (dg_bytes d)")
  case None
  then show ?thesis by (simp add: on_datagram_ignores keeps_def)
next
  case (Some h)
  then show ?thesis using on_datagram_answers [OF assms Some] by (auto simp: keeps_def)
qed

lemma servicePort_keeps: "gm_ok st \<Longrightarrow> \<exists>st'. servicePort ds st = Some st' \<and> keeps st st'"
proof (induction ds arbitrary: st)
  case (Cons d ds)
  obtain s1 where s1: "on_datagram d st = Some s1" "keeps st s1" using on_datagram_keeps [OF Cons.prems] by blast
  then obtain s2 where "servicePort ds s1 = Some s2" "keeps s1 s2" using Cons.IH [of s1] Cons.prems keeps_ok by blast
  then show ?case using s1 keeps_trans by auto
qed (simp add: keeps_def)

text \<open>The announced quality says what the reference is.\<close>

definition truthful :: "bool \<Rightarrow> gm \<Rightarrow> bool" where
  "truthful lck st \<longleftrightarrow> announcedLocked st = lck \<and>
     ad_clockClass (gm_dataset st) = (if lck then kClockClassLocked else kClockClassFree) \<and>
     ad_timeSource (gm_dataset st) = (if lck then kTimeSourceLocked else kTimeSourceFree)"

definition ref_locked :: "'sv ext_ref option \<Rightarrow> bool" where
  "ref_locked r = (case r of None \<Rightarrow> False | Some s \<Rightarrow> locked (ref_status s))"

definition lp_inv :: "ptp_profile \<Rightarrow> 'sv gm_loop \<Rightarrow> bool" where
  "lp_inv p lp \<longleftrightarrow> gm_ok (lp_gm lp) \<and> gm_profile (lp_gm lp) = Some p \<and> truthful (ref_locked (lp_ref lp)) (lp_gm lp)"

lemma follow_truthful:
  assumes "truthful (ref_locked r) st" "followTheReference api now es r st = (r', st')"
  shows "truthful (ref_locked r') st'" "gm_profile st' = gm_profile st" "gm_ok st' = gm_ok st"
  using assms by (auto simp: followTheReference_def truthful_def ref_locked_def gm_ok_def Let_def split: option.splits if_splits)

lemma keeps_truthful: "keeps st st' \<Longrightarrow> truthful l st' = truthful l st"
  by (simp add: keeps_def truthful_def)

lemma gm_turn_inv:
  assumes "lp_inv p lp"
  shows "\<exists>lp1. gm_turn api t lp = Some lp1 \<and> lp_inv p lp1 \<and>
     nextAnnounce lp1 = (if tk_now t \<ge> nextAnnounce lp
       then advance (tk_now t) (intervalFrom (logAnnounceInterval (prof_settings p))) (nextAnnounce lp) else nextAnnounce lp) \<and>
     nextSync lp1 = (if tk_now t \<ge> nextSync lp
       then advance (tk_now t) (intervalFrom (logSyncInterval (prof_settings p))) (nextSync lp) else nextSync lp)"
proof -
  have ok: "gm_ok (lp_gm lp)" "gm_profile (lp_gm lp) = Some p" "truthful (ref_locked (lp_ref lp)) (lp_gm lp)"
    using assms by (auto simp: lp_inv_def)
  obtain ga where ga: "sendAnnounce (tk_clock t) (tk_announceOk t) (lp_gm lp) = Some ga" "keeps (lp_gm lp) ga"
    using sendAnnounce_keeps [OF ok(1)] by blast
  define g1 where "g1 = (if tk_now t \<ge> nextAnnounce lp then ga else lp_gm lp)"
  have k1: "keeps (lp_gm lp) g1" using ga(2) by (simp add: g1_def keeps_def)
  obtain gs where gs: "sendSyncPair (tk_eventOk t) (tk_txTime t) (tk_followOk t) g1 = Some gs" "keeps g1 gs"
    using sendSyncPair_keeps [of g1] ok(1) keeps_ok [OF k1] by blast
  define g2 where "g2 = (if tk_now t \<ge> nextSync lp then gs else g1)"
  have k2: "keeps (lp_gm lp) g2" using gs(2) k1 by (simp add: g2_def keeps_def)
  obtain r g3 where f: "followTheReference api (tk_now t) (tk_edges t) (lp_ref lp) g2 = (r, g3)"
    by (cases "followTheReference api (tk_now t) (tk_edges t) (lp_ref lp) g2") auto
  have tr: "truthful (ref_locked (lp_ref lp)) g2" using ok(3) keeps_truthful [OF k2] by blast
  have ok3: "gm_ok g3" "gm_profile g3 = Some p" "truthful (ref_locked r) g3"
    using follow_truthful [OF tr f] ok(1,2) keeps_ok [OF k2] k2 by (simp_all add: keeps_def)
  obtain g4 where g4: "servicePort (tk_event t) g3 = Some g4" "keeps g3 g4" using servicePort_keeps [OF ok3(1)] by blast
  then obtain g5 where g5: "servicePort (tk_general t) g4 = Some g5" "keeps g4 g5"
    using servicePort_keeps [of g4] ok3(1) keeps_ok by blast
  have k5: "keeps g3 g5" using g4(2) g5(2) by (rule keeps_trans)
  have inv: "gm_ok g5" "gm_profile g5 = Some p" "truthful (ref_locked r) g5"
    using ok3 keeps_ok [OF k5] keeps_truthful [OF k5] k5 by (simp_all add: keeps_def)
  show ?thesis
    using ok(2) ga(1) gs(1) f g4(1) g5(1) inv
    by (simp add: gm_turn_def lp_inv_def g1_def g2_def Let_def split: if_splits)
qed

lemma gm_run_inv: "lp_inv p lp \<Longrightarrow> \<exists>lp1. gm_run api ts lp = Some lp1 \<and> lp_inv p lp1"
proof (induction ts arbitrary: lp)
  case (Cons t ts)
  obtain lp1 where "gm_turn api t lp = Some lp1" "lp_inv p lp1" using gm_turn_inv [OF Cons.prems] by blast
  then show ?case using Cons.IH [of lp1] by simp
qed simp

lemma start_inv:
  assumes "gm_start mac acc (gm_init c) = Inr st" "\<not> ref_locked ref"
  shows "\<exists>p. gm_profile st = Some p \<and> lp_inv p (loop_init now ref st) \<and>
    0 < intervalFrom (logAnnounceInterval (prof_settings p)) \<and> 0 < intervalFrom (logSyncInterval (prof_settings p))"
proof -
  obtain p where "gm_profile st = Some p" "ptpLogIntervalToNanoseconds (logAnnounceInterval (prof_settings p)) \<noteq> 0"
      "ptpLogIntervalToNanoseconds (logSyncInterval (prof_settings p)) \<noteq> 0" "truthful False st"
    using assms(1)
    by (auto simp: gm_start_def gm_init_def truthful_def announced_consts Let_def split: option.splits if_splits)
  then show ?thesis
    using gm_start_ok [OF assms(1)] assms(2) by (auto simp: lp_inv_def loop_init_def intervalFrom_def unat_gt_0 simp del: of_nat_unat)
qed

text \<open>The turns of a loop at which a message is due, as the times of those turns.\<close>

fun due_turns :: "('t \<Rightarrow> 's \<Rightarrow> 's option) \<Rightarrow> ('t \<Rightarrow> int) \<Rightarrow> ('s \<Rightarrow> int) \<Rightarrow> 't list \<Rightarrow> 's \<Rightarrow> int list" where
  "due_turns turn now due [] s = []"
| "due_turns turn now due (t # ts) s = (if now t \<ge> due s then [now t] else []) @
     (case turn t s of None \<Rightarrow> [] | Some s1 \<Rightarrow> due_turns turn now due ts s1)"

lemma advance_ge: "due \<le> now \<Longrightarrow> due + period \<le> advance now period due"
  by (simp add: advance_def)

text \<open>
  The contract of a loop that sends a periodic message: a turn at or after the deadline moves it on by
  \<open>advance\<close>, any other turn leaves it. Such a loop keeps its pace.
\<close>

locale paced_loop =
  fixes inv :: "'s \<Rightarrow> bool" and turn :: "'t \<Rightarrow> 's \<Rightarrow> 's option" and now :: "'t \<Rightarrow> int" and due :: "'s \<Rightarrow> int"
    and period :: int
  assumes period_nonneg: "0 \<le> period"
    and turn_due: "inv s \<Longrightarrow> \<exists>s1. turn t s = Some s1 \<and> inv s1 \<and>
      due s1 = (if now t \<ge> due s then advance (now t) period (due s) else due s)"
begin

lemma paced:
  assumes "inv s" "i < length (due_turns turn now due ts s)"
  shows "due s + int i * period \<le> due_turns turn now due ts s ! i"
  using assms
proof (induction ts arbitrary: s i)
  case (Cons t ts)
  obtain s1 where s1: "turn t s = Some s1" "inv s1"
    and d: "due s1 = (if now t \<ge> due s then advance (now t) period (due s) else due s)"
    using turn_due [OF Cons.prems(1)] by blast
  show ?case
  proof (cases "now t \<ge> due s")
    case True
    show ?thesis
    proof (cases i)
      case (Suc j)
      have "due s1 + int j * period \<le> due_turns turn now due ts s1 ! j"
        using Cons.IH [OF s1(2)] Cons.prems(2) True s1(1) Suc by simp
      moreover have "due s + period \<le> due s1" using d True advance_ge by simp
      ultimately show ?thesis using True s1(1) Suc by (simp add: algebra_simps)
    qed (use True s1 in simp)
  next
    case False
    then show ?thesis using Cons.IH [OF s1(2), of i] Cons.prems(2) d s1(1) by simp
  qed
qed simp

end

interpretation announce_pace: paced_loop "lp_inv p" "gm_turn api" tk_now nextAnnounce
    "intervalFrom (logAnnounceInterval (prof_settings p))" for p api
  by unfold_locales (use gm_turn_inv in \<open>fastforce simp: intervalFrom_def\<close>)+

interpretation sync_pace: paced_loop "lp_inv p" "gm_turn api" tk_now nextSync
    "intervalFrom (logSyncInterval (prof_settings p))" for p api
  by unfold_locales (use gm_turn_inv in \<open>fastforce simp: intervalFrom_def\<close>)+

text \<open>Calls of \<open>sendEvent\<close>: the stamps that arrive while each call waits, and those that arrive after it.\<close>

fun event_calls :: "u64 list \<Rightarrow> (u64 list \<times> u64 list) list \<Rightarrow> u64 list" where
  "event_calls queue [] = []"
| "event_calls queue ((arriving, late) # calls) =
     (let (ok, t, queue') = sendEvent True arriving queue in t # event_calls (queue' @ late) calls)"

lemma stamps_slip: "event_calls [s] (map (\<lambda>s. ([s], [])) ss) = butlast (s # ss)"
  by (induction ss arbitrary: s) (auto simp: sendEvent_def)

section \<open>What the grandmaster does\<close>

text \<open>
  C15: The grandmaster never announces a lock it does not have, and never fails to run. For every started
  grandmaster and every sequence of turns, whatever sends fail and whatever arrives, the loop completes without
  leaving a buffer or following a null profile, and the next Announce it builds is a well-formed message
  carrying clockClass 13 and time source 0x90 when the reference is locked and 248 and 0xA0 when it is not.
\<close>
theorem grandmaster_announces_truth:
  assumes "gm_start mac acc (gm_init c) = Inr st" "\<not> ref_locked ref"
  shows "\<exists>lp msg st'. gm_run api ts (loop_init now ref st) = Some lp \<and>
    sendAnnounce timeNs True (lp_gm lp) = Some st' \<and> sent st' = sent (lp_gm lp) @ [GeneralFrame msg] \<and>
    is_message (gm_port (lp_gm lp)) Announce (announceSequence (lp_gm lp)) msg \<and>
    byte_at msg 48 = Some (if ref_locked (lp_ref lp) then 13 else 248) \<and>
    byte_at msg 63 = Some (if ref_locked (lp_ref lp) then 0x90 else 0xA0)"
proof -
  obtain p where "lp_inv p (loop_init now ref st)" using start_inv [OF assms] by blast
  from gm_run_inv [OF this, of api ts] obtain lp where lp: "gm_run api ts (loop_init now ref st) = Some lp" "lp_inv p lp"
    by blast
  then have ok: "gm_ok (lp_gm lp)" "truthful (ref_locked (lp_ref lp)) (lp_gm lp)" by (simp_all add: lp_inv_def)
  obtain msg where "sendAnnounce timeNs True (lp_gm lp) = Some ((lp_gm lp)\<lparr>announceSequence := announceSequence (lp_gm lp) + 1,
       announcesSent := announcesSent (lp_gm lp) + 1, sent := sent (lp_gm lp) @ [GeneralFrame msg]\<rparr>)"
     "is_message (gm_port (lp_gm lp)) Announce (announceSequence (lp_gm lp)) msg"
     "byte_at msg 48 = Some (ad_clockClass (gm_dataset (lp_gm lp)))"
     "byte_at msg 63 = Some (ad_timeSource (gm_dataset (lp_gm lp)))"
    using sendAnnounce_sends [OF ok(1), of timeNs True] by (auto simp del: byte_at_in)
  then show ?thesis using lp(1) ok(2)
    by (intro exI [of _ lp] exI [of _ msg] exI) (auto simp: truthful_def announced_consts simp del: byte_at_in)
qed

lemma default_starts: "\<exists>st. gm_start [1, 2, 3, 4, 5, 6] 0xFE (gm_init config_default) = Inr st"
  by (simp add: gm_start_def gm_init_def config_default_def ptpProfileByName_def kPtpProfiles_def kPtpDefaultProfile_def
      kPtpAes67MediaProfile_def settings_of_def ptpLogIntervalToNanoseconds_def Let_def)

theorem grandmaster_announces_truth_witness:
  "\<exists>st lp msg st'. gm_start [1, 2, 3, 4, 5, 6] 0xFE (gm_init config_default) = Inr st \<and>
     gm_run idle_servo [] (loop_init 0 (None :: unit ext_ref option) st) = Some lp \<and>
     sendAnnounce 5 True (lp_gm lp) = Some st' \<and> sent st' = sent (lp_gm lp) @ [GeneralFrame msg] \<and>
     byte_at msg 48 = Some 248"
proof -
  obtain st where st: "gm_start [1, 2, 3, 4, 5, 6] 0xFE (gm_init config_default) = Inr st" using default_starts by blast
  show ?thesis
    using grandmaster_announces_truth [OF st, of "None :: unit ext_ref option" idle_servo "[]" 0 5] st
    by (auto simp: ref_locked_def loop_init_def simp del: byte_at_in)
qed



text \<open>
  A Delay_Req is answered and nothing else is. A datagram that is too short, of another domain, from this
  clock's own identity or of another type changes nothing; any other Delay_Req is answered with exactly one
  Delay_Resp carrying the request's sequence number, the requesting port and the receive time.
\<close>
theorem delay_req_answered:
  assumes "gm_ok st"
  shows "(answers st (dg_bytes d) = None \<longrightarrow> on_datagram d st = Some st) \<and>
    (\<forall>h. answers st (dg_bytes d) = Some h \<and> dg_sendOk d \<and> dg_time d \<noteq> 0 \<longrightarrow>
      (\<exists>msg st'. on_datagram d st = Some st' \<and> sent st' = sent st @ [GeneralFrame msg] \<and>
         is_message (gm_port st) Delay_Resp (h_sequenceId h) msg \<and> carries_time (dg_time d) msg \<and>
         port_at msg 44 = Some (sourcePortIdentity h)))"
  using on_datagram_ignores on_datagram_answers [OF assms, of d] by fastforce

definition example_gm :: gm where
  "example_gm = (gm_init config_default)\<lparr>gm_profile := Some kPtpAes67MediaProfile\<rparr>"

definition example_request :: datagram where
  "example_request = \<lparr>dg_bytes = [1, 2, 0, 34] @ replicate 16 0 @ replicate 8 9 @ [0, 1, 0, 77, 1, 0], dg_time = 123456789,
     dg_clock = 0, dg_sendOk = True\<rparr>"

theorem delay_req_answered_witness:
  "\<exists>msg st'. on_datagram example_request example_gm = Some st' \<and> sent st' = [GeneralFrame msg] \<and>
     is_message (gm_port example_gm) Delay_Resp 77 msg \<and> carries_time 123456789 msg"
proof -
  have ok: "gm_ok example_gm" by (simp add: gm_ok_def example_gm_def gm_init_def port_default_def dataset_default_def cid_zero_def)
  obtain h where h: "answers example_gm (dg_bytes example_request) = Some h" "h_sequenceId h = 77"
  proof -
    have "map_option h_sequenceId (answers example_gm (dg_bytes example_request)) = Some 77" by code_simp
    then show thesis using that by blast
  qed
  have "dg_sendOk example_request" "dg_time example_request \<noteq> 0" "dg_time example_request = 123456789" "sent example_gm = []"
    by (simp_all add: example_request_def example_gm_def gm_init_def)
  then show ?thesis using delay_req_answered [OF ok, of example_request] h by auto
qed

text \<open>
  The grandmaster never sends faster than it announces. Whatever the turns of the loop, the \<open>i\<close>-th Announce
  of a run (counting from zero) is sent no earlier than the start plus \<open>i\<close> announce periods, and the \<open>i\<close>-th
  Sync no earlier than the start plus \<open>i\<close> sync periods; both periods are positive. A stall is not
  followed by a burst.
\<close>
theorem grandmaster_pacing:
  assumes "gm_start mac acc (gm_init c) = Inr st" "\<not> ref_locked ref" "gm_profile st = Some p"
    "announcePeriod = intervalFrom (logAnnounceInterval (prof_settings p))"
    "syncPeriod = intervalFrom (logSyncInterval (prof_settings p))" "lp = loop_init now ref st"
  shows "0 < announcePeriod \<and> 0 < syncPeriod \<and>
    (\<forall>i < length (due_turns (gm_turn api) tk_now nextAnnounce ts lp). now + int i * announcePeriod \<le> due_turns (gm_turn api) tk_now nextAnnounce ts lp ! i) \<and>
    (\<forall>i < length (due_turns (gm_turn api) tk_now nextSync ts lp). now + int i * syncPeriod \<le> due_turns (gm_turn api) tk_now nextSync ts lp ! i)"
proof -
  have inv: "lp_inv p lp" and pos: "0 < announcePeriod" "0 < syncPeriod"
    using start_inv [OF assms(1,2), of now] assms(3,4,5,6) by auto
  show ?thesis
    using pos announce_pace.paced [OF inv] sync_pace.paced [OF inv] assms(4,5,6) by (auto simp: loop_init_def)
qed

theorem grandmaster_pacing_witness:
  "\<exists>st p. gm_start [1, 2, 3, 4, 5, 6] 0xFE (gm_init config_default) = Inr st \<and> gm_profile st = Some p \<and>
     0 < intervalFrom (logAnnounceInterval (prof_settings p))"
proof -
  obtain st where st: "gm_start [1, 2, 3, 4, 5, 6] 0xFE (gm_init config_default) = Inr st" using default_starts by blast
  have r: "\<not> ref_locked (None :: unit ext_ref option)" by (simp add: ref_locked_def)
  obtain p where p: "gm_profile st = Some p" using start_inv [OF st r] by blast
  show ?thesis using grandmaster_pacing [OF st r p refl refl refl] st p by blast
qed

text \<open>
  One late transmit stamp shifts every later one. If the stamp of a Sync reaches the error queue only after
  \<open>sendEvent\<close> has stopped waiting, and the stamps of all later Syncs come in time, then every later call takes
  the stamp of the Sync before it, for as long as the daemon runs.
\<close>
theorem late_stamp_shifts:
  "event_calls [] (([], [first]) # map (\<lambda>s. ([s], [])) later) = 0 # butlast (first # later)"
  by (simp add: sendEvent_def stamps_slip)

end
