(* ===== verification/Std_Float.thy ===== *)
theory Std_Float
  imports Complex_Main "HOL-Library.Log_Nat" Std_Strings
begin

text \<open>
  What the code uses of \<open>double\<close>: \<open>std::stod\<close>, multiplication and division rounded to the nearest
  IEEE 754 binary64 number, \<open>std::lround\<close>, and \<open>printf("%.3f")\<close>. A finite \<open>double\<close> is the rational
  number it stands for; \<open>to_double\<close> rounds a rational to 53 significant bits, ties to even, and to
  multiples of \<open>2 ^ -1074\<close> below the normal range. The lemma the clients need is the relative error.
\<close>

section \<open>Rounding\<close>

definition round_even :: "rat \<Rightarrow> int" where
  "round_even x =
     (let f = \<lfloor>x\<rfloor>; d = x - of_int f in
      if d < 1 / 2 then f else if d > 1 / 2 then f + 1 else if even f then f else f + 1)"

lemma round_even_error: "\<bar>of_int (round_even x) - x\<bar> \<le> 1 / 2"
proof -
  have "of_int \<lfloor>x\<rfloor> \<le> x" "x < of_int \<lfloor>x\<rfloor> + 1" by (rule of_int_floor_le, rule floor_correct [THEN conjunct2, of x, simplified])
  then show ?thesis by (simp add: round_even_def Let_def)
qed

lemma round_even_near:
  assumes "\<bar>x - of_int n\<bar> < 1 / 2"
  shows "round_even x = n"
proof -
  have "\<bar>of_int (round_even x - n) :: rat\<bar> < 1" using round_even_error [of x] assms unfolding of_int_diff by linarith
  then have "\<bar>round_even x - n\<bar> < 1" by (metis of_int_abs of_int_less_1_iff)
  then show ?thesis by simp
qed

text \<open>\<open>std::lround\<close>: to the nearest integer, halfway cases away from zero.\<close>

definition lround :: "rat \<Rightarrow> int" where
  "lround x = (if x < 0 then - \<lfloor>- x + 1 / 2\<rfloor> else \<lfloor>x + 1 / 2\<rfloor>)"

lemma lround_near:
  assumes "\<bar>x - of_int n\<bar> < 1 / 2" "0 \<le> x"
  shows "lround x = n"
proof -
  have "of_int n < x + 1 / 2" "x + 1 / 2 < of_int n + 1" using assms(1) by (auto simp: abs_if split: if_splits)
  then have "\<lfloor>x + 1 / 2\<rfloor> = n" by (intro floor_unique) auto
  then show ?thesis using assms(2) by (simp add: lround_def)
qed

section \<open>binary64\<close>

text \<open>The exponent of the binade a positive rational lies in.\<close>

definition binade :: "rat \<Rightarrow> int" where
  "binade x = (let (p, q) = quotient_of x; e = bitlen p - bitlen q in if 2 powi e \<le> x then e else e - 1)"

lemma bitlen_pos: "0 < p \<Longrightarrow> 0 < bitlen p"
  by (metis bitlen_eq_zero_iff bitlen_nonneg not_less order.not_eq_order_implies_strict)

lemma powi_bitlen:
  assumes "0 < p"
  shows "(2::rat) powi (bitlen p - 1) \<le> of_int p" "of_int p < (2::rat) powi (bitlen p)"
proof -
  have b: "2 ^ nat (bitlen p - 1) \<le> p" "p < 2 ^ nat (bitlen p)" using bitlen_bounds [OF assms] by auto
  have e: "0 \<le> bitlen p - 1" "0 \<le> bitlen p" using bitlen_pos [OF assms] by auto
  have "of_int (2 ^ nat (bitlen p - 1)) \<le> (of_int p :: rat)" "of_int p < (of_int (2 ^ nat (bitlen p)) :: rat)"
    using b by (metis of_int_le_iff, metis of_int_less_iff)
  then show "(2::rat) powi (bitlen p - 1) \<le> of_int p" "of_int p < (2::rat) powi (bitlen p)"
    using e by (simp_all add: power_int_def)
qed

lemma binade_le: "0 < x \<Longrightarrow> 2 powi (binade x) \<le> x"
proof -
  assume x: "0 < x"
  obtain p q where pq: "quotient_of x = (p, q)" by force
  have q: "0 < q" and xe: "x = of_int p / of_int q" using quotient_of_denom_pos [OF pq] quotient_of_div [OF pq] by auto
  have p: "0 < p" using x q by (simp add: xe zero_less_divide_iff)
  have "2 powi (bitlen p - bitlen q - 1) = (2::rat) powi (bitlen p - 1) / 2 powi (bitlen q)"
    by (simp add: power_int_diff flip: diff_diff_eq)
  also have "\<dots> \<le> of_int p / of_int q"
    using powi_bitlen [OF p] powi_bitlen [OF q] p q by (intro frac_le) (auto simp: less_imp_le)
  finally have "2 powi (bitlen p - bitlen q - 1) \<le> x" by (simp only: xe)
  then show ?thesis by (simp add: binade_def pq Let_def)
qed

text \<open>Rounding to nearest, ties to even, in the range of finite numbers.\<close>

definition to_double :: "rat \<Rightarrow> rat" where
  "to_double x =
     (if x = 0 then 0
      else (let u = 2 powi (max (binade \<bar>x\<bar>) (- 1022) - 52) in of_int (round_even (x / u)) * u))"

lemma to_double_error:
  assumes "2 powi (- 1022) \<le> \<bar>x\<bar>"
  shows "\<bar>to_double x - x\<bar> \<le> \<bar>x\<bar> / 2 ^ 53"
proof -
  define e where "e = max (binade \<bar>x\<bar>) (- 1022)"
  define u where "u = (2::rat) powi (e - 52)"
  have u: "0 < u" by (simp add: u_def)
  have pos: "(0::rat) < 2 powi (- 1022)" by simp
  then have x: "x \<noteq> 0" using assms by auto
  have "2 powi e \<le> \<bar>x\<bar>" using binade_le [of "\<bar>x\<bar>"] x assms by (simp add: e_def max_def)
  then have ux: "u \<le> \<bar>x\<bar> / 2 ^ 52" by (simp add: u_def power_int_diff)
  have "\<bar>to_double x - x\<bar> = \<bar>of_int (round_even (x / u)) - x / u\<bar> * u"
    using u x by (simp add: to_double_def Let_def flip: e_def u_def) (simp add: abs_mult_pos' algebra_simps abs_if field_simps)
  also have "\<dots> \<le> 1 / 2 * u" using u round_even_error [of "x / u"] by (intro mult_right_mono) auto
  also have "\<dots> \<le> \<bar>x\<bar> / 2 ^ 53" using ux by simp
  finally show ?thesis .
qed

section \<open>Reading\<close>

text \<open>
  \<open>std::stod\<close> is \<open>strtod\<close> with exceptions: white space, a sign, then \<open>inf\<close>, \<open>nan\<close>, a hexadecimal
  number after \<open>0x\<close>, or a decimal one; a fraction and an exponent are optional and what follows is
  ignored. Overflow, and underflow that loses digits, set \<open>ERANGE\<close>.
\<close>

datatype double_val = Finite rat | Infinite bool | NotANumber

definition read_fraction :: "nat \<Rightarrow> nat \<Rightarrow> string \<Rightarrow> rat \<times> nat \<times> string" where
  "read_fraction base m s = (case s of
       [] \<Rightarrow> (of_nat m, 0, s)
     | c # cs \<Rightarrow> if c = CHR ''.''
         then (let (k, rest) = read_digits base m cs; n = length cs - length rest
               in (of_nat k / of_nat base ^ n, n, rest))
         else (of_nat m, 0, s))"

definition read_exponent :: "char \<Rightarrow> string \<Rightarrow> int" where
  "read_exponent e s = (case s of
       [] \<Rightarrow> 0
     | c # cs \<Rightarrow> if lower c = e then
         (let (neg, ds) = skip_sign cs; (k, rest) = read_digits 10 0 ds
          in if starts_with_digit 10 ds then (if neg then - int k else int k) else 0)
       else 0)"

definition read_magnitude :: "nat \<Rightarrow> string \<Rightarrow> rat option" where
  "read_magnitude base s =
     (let (m, rest) = read_digits base 0 s; (x, n, rest') = read_fraction base m rest in
      if length s = length rest \<and> n = 0 then None
      else Some (x * (if base = 16 then 2 powi read_exponent (CHR ''p'') rest'
                      else 10 powi read_exponent (CHR ''e'') rest')))"

definition stod :: "string \<Rightarrow> std_exception + double_val" where
  "stod str =
     (let (neg, s) = skip_sign (dropWhile is_space str); word = to_lower (take 3 s) in
      if word = ''inf'' then Inr (Infinite neg)
      else if word = ''nan'' then Inr NotANumber
      else (case (if to_lower (take 2 s) = ''0x'' then
                    (case read_magnitude 16 (drop 2 s) of None \<Rightarrow> Some 0 | Some x \<Rightarrow> Some x)
                  else read_magnitude 10 s) of
          None \<Rightarrow> Inl InvalidArgument
        | Some x \<Rightarrow> (let d = to_double x in
            if 2 ^ 1024 \<le> d \<or> (x < 2 powi (- 1022) \<and> d \<noteq> x) then Inl OutOfRange
            else Inr (Finite (if neg then - d else d)))))"

section \<open>Printing\<close>

text \<open>Three digits of a number below a thousand, and \<open>"%.3f"\<close> of a number that is not negative.\<close>

definition digits3 :: "nat \<Rightarrow> string" where
  "digits3 n = [digit_char (n div 100 mod 10), digit_char (n div 10 mod 10), digit_char (n mod 10)]"

definition fixed3 :: "rat \<Rightarrow> string" where
  "fixed3 x = (let n = nat (round_even (x * 1000)) in decimal (n div 1000) @ ''.'' @ digits3 (n mod 1000))"

text \<open>A count of thousandths survives the division by 1000.0.\<close>

lemma to_double_milli:
  fixes n :: nat
  assumes "0 < n"
  shows "\<bar>to_double (of_nat n / 1000) - of_nat n / 1000\<bar> \<le> of_nat n / 1000 / 2 ^ 53"
proof -
  have "(2::rat) powi (- 1022) \<le> 1 / 1000"
    by (simp add: power_int_minus field_simps)
  also have "\<dots> \<le> of_nat n / 1000" using assms by (intro divide_right_mono) auto
  finally show ?thesis using to_double_error [of "of_nat n / 1000"] assms by simp
qed

lemma fixed3_milli:
  fixes n :: nat
  assumes "n < 2 ^ 32"
  shows "fixed3 (to_double (of_nat n / 1000)) = decimal (n div 1000) @ ''.'' @ digits3 (n mod 1000)"
proof -
  have "round_even (to_double (of_nat n / 1000) * 1000) = int n"
  proof (cases "n = 0")
    case False
    have "(of_nat n :: rat) < of_nat (2 ^ 32)" using assms by (simp only: of_nat_less_iff)
    then have b: "(of_nat n :: rat) < 2 ^ 32" by simp
    let ?d = "to_double (of_nat n / 1000)"
    have "\<bar>?d * 1000 - of_nat n\<bar> = \<bar>?d - of_nat n / 1000\<bar> * 1000" by (simp add: abs_if field_simps)
    also have "\<dots> \<le> of_nat n / 2 ^ 53" using to_double_milli [of n] False by simp
    also have "\<dots> < 1 / 2" using b by simp
    finally show ?thesis by (intro round_even_near) simp
  qed (simp add: to_double_def round_even_def)
  then show ?thesis by (simp add: fixed3_def)
qed

end
