(* ===== verification/SDP.thy ===== *)
theory SDP
  imports Std_Float Std_Map Stream_Types RTP_Format "HOL-Library.Monad_Syntax"
begin

text \<open>
  \<open>SDPParser\<close>: session descriptions (RFC 4566 with the AES67 attributes), read line by line and
  written back. A parsing function of the source that returns \<open>bool\<close> and changes the session it
  was given returns \<open>None\<close> for \<open>false\<close>; after a \<open>false\<close> the caller drops the session, so what was
  already assigned is lost with it. \<open>std::time(nullptr)\<close> is the parameter \<open>now\<close>.
\<close>

section \<open>The session\<close>

record sdp_session =
  sd_sessionName :: string
  sd_sessionInfo :: string
  sd_sessionID :: u64
  sd_sessionVersion :: u64
  sd_originUsername :: string
  sd_originAddress :: string
  sd_originNetworkType :: string
  sd_originAddressType :: string
  sd_connectionAddress :: string
  sd_connectionType :: string
  sd_connectionNetwork :: string
  sd_ttl :: u8
  sd_timeStart :: u64
  sd_timeStop :: u64
  sd_mediaType :: string
  sd_port :: u16
  sd_transport :: string
  sd_payloadType :: u8
  sd_encoding :: string
  sd_sampleRate :: u32
  sd_numChannels :: u16
  sd_ptimeUs :: u32
  sd_framecount :: u32
  sd_sourceAddress :: string
  sd_ptpDomain :: int
  sd_ptpMasterMAC :: string
  sd_ptpTraceable :: bool
  sd_mediaClockType :: string
  sd_dscp :: int
  sd_direction :: string
  sd_customAttributes :: "(string, string) stdmap"

definition sdp_default :: sdp_session where
  "sdp_default = \<lparr>sd_sessionName = [], sd_sessionInfo = [], sd_sessionID = 0, sd_sessionVersion = 0,
     sd_originUsername = ''-'', sd_originAddress = [], sd_originNetworkType = ''IN'', sd_originAddressType = ''IP4'',
     sd_connectionAddress = [], sd_connectionType = ''IN'', sd_connectionNetwork = ''IP4'', sd_ttl = 32,
     sd_timeStart = 0, sd_timeStop = 0, sd_mediaType = ''audio'', sd_port = 5004, sd_transport = ''RTP/AVP'',
     sd_payloadType = 97, sd_encoding = ''L24'', sd_sampleRate = 48000, sd_numChannels = 2,
     sd_ptimeUs = 1000, sd_framecount = 0, sd_sourceAddress = [], sd_ptpDomain = 0, sd_ptpMasterMAC = [],
     sd_ptpTraceable = False, sd_mediaClockType = ''direct=0'', sd_dscp = - 1, sd_direction = ''recvonly'',
     sd_customAttributes = []\<rparr>"

definition getValidationErrors :: "sdp_session \<Rightarrow> string list" where
  "getValidationErrors s =
     (if sd_sessionName s = [] then [''Session name (s=) is required''] else []) @
     (if sd_connectionAddress s = [] then [''Connection address (c=) is required''] else []) @
     (if sd_port s = 0 then [''Port must be non-zero''] else []) @
     (if sd_encoding s \<noteq> ''L16'' \<and> sd_encoding s \<noteq> ''L24'' \<and> sd_encoding s \<noteq> ''AM824''
      then [''Invalid encoding: '' @ sd_encoding s] else []) @
     (if sd_sampleRate s = 0 then [''Sample rate must be non-zero''] else []) @
     (if sd_numChannels s = 0 then [''Channel count must be non-zero''] else [])"

definition sdp_isValid :: "sdp_session \<Rightarrow> bool" where
  "sdp_isValid s \<longleftrightarrow> getValidationErrors s = []"

definition sdp_validate :: "sdp_session \<Rightarrow> bool \<times> string list" where
  "sdp_validate s = (getValidationErrors s = [], getValidationErrors s)"

section \<open>Utilities\<close>

definition splitLines :: "string \<Rightarrow> string list" where
  "splitLines text = map (\<lambda>line. if line \<noteq> [] \<and> last line = CHR 0x0D then butlast line else line)
     (getline_parts (CHR 0x0A) text)"

definition splitString :: "string \<Rightarrow> char \<Rightarrow> string list" where
  "splitString str delimiter = map trim (getline_parts delimiter str)"

text \<open>A thrown exception that the caller turns into \<open>false\<close>.\<close>

fun caught :: "std_exception + 'a \<Rightarrow> 'a option" where
  "caught (Inl e) = None"
| "caught (Inr v) = Some v"

section \<open>Parsing\<close>

definition parseDomainOr :: "string \<Rightarrow> int \<Rightarrow> int" where
  "parseDomainOr text fallback = (case stoi text of Inl e \<Rightarrow> fallback | Inr n \<Rightarrow> n)"

definition parseOriginLine :: "string \<Rightarrow> sdp_session \<Rightarrow> sdp_session option" where
  "parseOriginLine line s =
     (let parts = splitString line (CHR '' '') in
      if length parts < 6 then None
      else do {
        sid \<leftarrow> caught (stoul 10 (parts ! 1));
        version \<leftarrow> caught (stoul 10 (parts ! 2));
        Some (s\<lparr>sd_originUsername := parts ! 0, sd_sessionID := sid, sd_sessionVersion := version,
                sd_originNetworkType := parts ! 3, sd_originAddressType := parts ! 4,
                sd_originAddress := parts ! 5\<rparr>)
      })"

definition parseConnectionLine :: "string \<Rightarrow> sdp_session \<Rightarrow> sdp_session option" where
  "parseConnectionLine line s =
     (let parts = splitString line (CHR '' '') in
      if length parts < 3 then None
      else (let s1 = s\<lparr>sd_connectionType := parts ! 0, sd_connectionNetwork := parts ! 1\<rparr> in
        case cut_first (CHR ''/'') (parts ! 2) of
          Some (address, t) \<Rightarrow>
            Some (s1\<lparr>sd_connectionAddress := address,
                     sd_ttl := (case stoi t of Inl e \<Rightarrow> 32 | Inr n \<Rightarrow> of_int n)\<rparr>)
        | None \<Rightarrow> Some (s1\<lparr>sd_connectionAddress := parts ! 2\<rparr>)))"

definition parseTimingLine :: "string \<Rightarrow> sdp_session \<Rightarrow> sdp_session option" where
  "parseTimingLine line s =
     (let parts = splitString line (CHR '' '') in
      if length parts < 2 then None
      else do {
        start \<leftarrow> caught (stoul 10 (parts ! 0));
        stop \<leftarrow> caught (stoul 10 (parts ! 1));
        Some (s\<lparr>sd_timeStart := start, sd_timeStop := stop\<rparr>)
      })"

definition parseMediaLine :: "string \<Rightarrow> sdp_session \<Rightarrow> sdp_session option" where
  "parseMediaLine line s =
     (let parts = splitString line (CHR '' '') in
      if length parts < 4 then None
      else do {
        port \<leftarrow> caught (stoi (parts ! 1));
        if port < 0 \<or> 65535 < port then None else do {
          pt \<leftarrow> caught (stoi (parts ! 3));
          if pt < 0 \<or> 127 < pt then None
          else Some (s\<lparr>sd_mediaType := parts ! 0, sd_port := of_int port, sd_transport := parts ! 2,
                       sd_payloadType := of_int pt\<rparr>)
        }
      })"

text \<open>\<open>std::stol\<close>, with the 64 bits \<open>long\<close> has on the platforms the code is built for.\<close>

definition stol :: "string \<Rightarrow> std_exception + int" where
  "stol s = (case scan_number 10 s of
       None \<Rightarrow> Inl InvalidArgument
     | Some (neg, m, rest) \<Rightarrow> (let v = (if neg then - int m else int m) in
         if v < - (2 ^ 63) \<or> 2 ^ 63 \<le> v then Inl OutOfRange else Inr v))"

definition rtpmap_channels :: "string list \<Rightarrow> u16 \<Rightarrow> u16 option" where
  "rtpmap_channels formatParts current =
     (if 3 \<le> length formatParts then do {
        channels \<leftarrow> caught (stol (formatParts ! 2));
        if channels < 1 \<or> 65535 < channels then None else Some (of_int channels)
      } else Some current)"

definition parseRTPMapAttribute :: "string \<Rightarrow> sdp_session \<Rightarrow> sdp_session option" where
  "parseRTPMapAttribute value s =
     (let parts = splitString value (CHR '' '') in
      if length parts < 2 then None
      else (let formatParts = splitString (parts ! 1) (CHR ''/'') in
        if length formatParts < 2 then None
        else do {
          linePayloadType \<leftarrow> caught (stoi (parts ! 0));
          rate \<leftarrow> caught (stoul 10 (formatParts ! 1));
          channels \<leftarrow> rtpmap_channels formatParts (sd_numChannels s);
          if linePayloadType \<noteq> int (unat (sd_payloadType s)) then Some s
          else Some (s\<lparr>sd_encoding := formatParts ! 0, sd_sampleRate := ucast rate,
                       sd_numChannels := channels\<rparr>)
        }))"

definition parsePTimeAttribute :: "string \<Rightarrow> sdp_session \<Rightarrow> sdp_session option" where
  "parsePTimeAttribute value s = (case stod value of
       Inr (Finite ms) \<Rightarrow>
         if \<not> 0 < ms \<or> 1000 < ms then None
         else Some (s\<lparr>sd_ptimeUs := of_int (lround (to_double (ms * 1000)))\<rparr>)
     | _ \<Rightarrow> None)"

definition parseFrameCountAttribute :: "string \<Rightarrow> sdp_session \<Rightarrow> sdp_session option" where
  "parseFrameCountAttribute value s = do {
     n \<leftarrow> caught (stoul 10 value);
     Some (s\<lparr>sd_framecount := ucast n\<rparr>)
   }"

definition parseSourceFilterAttribute :: "string \<Rightarrow> sdp_session \<Rightarrow> sdp_session option" where
  "parseSourceFilterAttribute value s =
     (let parts = splitString (trim value) (CHR '' '') in
      if 5 \<le> length parts then Some (s\<lparr>sd_sourceAddress := parts ! 4\<rparr>) else None)"

definition refclk_blank :: "char \<Rightarrow> bool" where
  "refclk_blank c \<longleftrightarrow> c = CHR '' '' \<or> c = CHR 0x0D \<or> c = CHR 0x0A \<or> c = CHR 0x09"

definition parse_gmid :: "string \<Rightarrow> sdp_session \<Rightarrow> sdp_session" where
  "parse_gmid rest s = (case str_find '':domain-nmbr='' rest of
       Some nmbr \<Rightarrow> s\<lparr>sd_ptpMasterMAC := take nmbr rest,
                      sd_ptpDomain := parseDomainOr (drop (nmbr + 13) rest) (sd_ptpDomain s)\<rparr>
     | None \<Rightarrow> (case cut_last (CHR '':'') rest of
           Some (gmid, tail) \<Rightarrow>
             if tail \<noteq> [] \<and> list_all is_digit tail
             then s\<lparr>sd_ptpMasterMAC := gmid, sd_ptpDomain := parseDomainOr tail (sd_ptpDomain s)\<rparr>
             else s\<lparr>sd_ptpMasterMAC := rest\<rparr>
         | None \<Rightarrow> s\<lparr>sd_ptpMasterMAC := rest\<rparr>))"

definition parsePTPRefClockAttribute :: "string \<Rightarrow> sdp_session \<Rightarrow> sdp_session option" where
  "parsePTPRefClockAttribute value s =
     (if str_find ''traceable'' value \<noteq> None
      then Some (s\<lparr>sd_ptpTraceable := True, sd_ptpMasterMAC := []\<rparr>)
      else (case str_find ''ptp=IEEE1588-2008:'' value of
          Some start \<Rightarrow> Some (parse_gmid (drop_end refclk_blank (drop (start + 18) value)) s)
        | None \<Rightarrow> Some s))"

definition parseMediaClockAttribute :: "string \<Rightarrow> sdp_session \<Rightarrow> sdp_session option" where
  "parseMediaClockAttribute value s = Some (s\<lparr>sd_mediaClockType := value\<rparr>)"

definition is_direction :: "string \<Rightarrow> bool" where
  "is_direction a \<longleftrightarrow> a = ''recvonly'' \<or> a = ''sendonly'' \<or> a = ''sendrecv'' \<or> a = ''inactive''"

definition parseAttributeLine :: "string \<Rightarrow> sdp_session \<Rightarrow> sdp_session option" where
  "parseAttributeLine line s =
     (let (attribute, value) = (case cut_first (CHR '':'') line of Some av \<Rightarrow> av | None \<Rightarrow> (line, [])) in
      if attribute = ''rtpmap'' then parseRTPMapAttribute value s
      else if attribute = ''ptime'' then parsePTimeAttribute value s
      else if attribute = ''framecount'' then parseFrameCountAttribute value s
      else if attribute = ''source-filter'' then parseSourceFilterAttribute value s
      else if attribute = ''ts-refclk'' then parsePTPRefClockAttribute value s
      else if attribute = ''mediaclk'' then parseMediaClockAttribute value s
      else if is_direction attribute then Some (s\<lparr>sd_direction := attribute\<rparr>)
      else Some (s\<lparr>sd_customAttributes := map_put attribute value (sd_customAttributes s)\<rparr>))"

definition parse_line :: "string \<Rightarrow> sdp_session \<Rightarrow> sdp_session option" where
  "parse_line line s =
     (if line = [] \<or> hd line = CHR ''#'' then Some s
      else if length line < 2 \<or> line ! 1 \<noteq> CHR ''='' then Some s
      else (let type = line ! 0; value = drop 2 line in
        if type = CHR ''v'' then (if trim value \<noteq> ''0'' then None else Some s)
        else if type = CHR ''o'' then parseOriginLine value s
        else if type = CHR ''s'' then Some (s\<lparr>sd_sessionName := trim value\<rparr>)
        else if type = CHR ''i'' then Some (s\<lparr>sd_sessionInfo := trim value\<rparr>)
        else if type = CHR ''c'' then parseConnectionLine value s
        else if type = CHR ''t'' then parseTimingLine value s
        else if type = CHR ''m'' then parseMediaLine value s
        else if type = CHR ''a'' then parseAttributeLine value s
        else Some s))"

fun parse_lines :: "string list \<Rightarrow> sdp_session \<Rightarrow> sdp_session option" where
  "parse_lines [] s = Some s"
| "parse_lines (line # lines) s = do { s' \<leftarrow> parse_line line s; parse_lines lines s' }"

definition parseString :: "string \<Rightarrow> sdp_session option" where
  "parseString sdp = do {
     session \<leftarrow> parse_lines (splitLines sdp) sdp_default;
     if sdp_isValid session then Some session else None
   }"

section \<open>Generation\<close>

definition formatPTimeMs :: "u32 \<Rightarrow> string" where
  "formatPTimeMs us =
     (let out = fixed3 (to_double (of_nat (unat us) / 1000)) in
      if CHR ''.'' \<in> set out
      then (let short = drop_end (\<lambda>c. c = CHR ''0'') out in
            if short \<noteq> [] \<and> last short = CHR ''.'' then butlast short else short)
      else out)"

definition nameOwnSource :: "sdp_session \<Rightarrow> std_exception + sdp_session" where
  "nameOwnSource s =
     (if sd_sourceAddress s \<noteq> [] \<or> sd_originAddress s = [] then Inr s
      else (case cut_first (CHR ''.'') (sd_connectionAddress s) of
          None \<Rightarrow> Inr s
        | Some (first, rest) \<Rightarrow>
            if first = [] \<or> \<not> list_all is_digit first then Inr s
            else (case stoi first of
                Inl e \<Rightarrow> Inl e
              | Inr octet \<Rightarrow>
                  if octet < 224 \<or> 239 < octet then Inr s
                  else Inr (s\<lparr>sd_sourceAddress := sd_originAddress s\<rparr>))))"

definition generateOriginLine :: "u64 \<Rightarrow> sdp_session \<Rightarrow> string" where
  "generateOriginLine now s =
     ''o='' @ sd_originUsername s @ '' '' @ decimal (unat (if sd_sessionID s = 0 then now else sd_sessionID s)) @
     '' '' @ decimal (unat (sd_sessionVersion s)) @ '' '' @ sd_originNetworkType s @ '' '' @
     sd_originAddressType s @ '' '' @ sd_originAddress s"

definition generateConnectionLine :: "sdp_session \<Rightarrow> string" where
  "generateConnectionLine s =
     ''c='' @ sd_connectionType s @ '' '' @ sd_connectionNetwork s @ '' '' @ sd_connectionAddress s @
     (if sd_ttl s \<noteq> 0 then ''/'' @ decimal (unat (sd_ttl s)) else [])"

definition generateMediaLine :: "sdp_session \<Rightarrow> string" where
  "generateMediaLine s =
     ''m='' @ sd_mediaType s @ '' '' @ decimal (unat (sd_port s)) @ '' '' @ sd_transport s @ '' '' @
     decimal (unat (sd_payloadType s))"

definition refclk_lines :: "sdp_session \<Rightarrow> string list" where
  "refclk_lines s =
     (if sd_ptpTraceable s then [''a=ts-refclk:ptp=IEEE1588-2008:traceable'']
      else if 0 \<le> sd_ptpDomain s \<and> sd_ptpMasterMAC s \<noteq> []
      then [''a=ts-refclk:ptp=IEEE1588-2008:'' @ sd_ptpMasterMAC s @ '':'' @ decimal_int (sd_ptpDomain s)]
      else [])"

definition custom_line :: "string \<times> string \<Rightarrow> string" where
  "custom_line kv = (if snd kv = [] then ''a='' @ fst kv else ''a='' @ fst kv @ '':'' @ snd kv)"

definition format_lines :: "sdp_session \<Rightarrow> string list" where
  "format_lines s =
     [''a=rtpmap:'' @ decimal (unat (sd_payloadType s)) @ '' '' @ sd_encoding s @ ''/'' @
        decimal (unat (sd_sampleRate s)) @ ''/'' @ decimal (unat (sd_numChannels s)),
      ''a=ptime:'' @ formatPTimeMs (sd_ptimeUs s)] @
     (if 0 < sd_framecount s then [''a=framecount:'' @ decimal (unat (sd_framecount s))] else []) @
     [''a='' @ sd_direction s] @
     (if sd_sourceAddress s \<noteq> []
      then [''a=source-filter: incl IN IP4 '' @ sd_connectionAddress s @ '' '' @ sd_sourceAddress s] else [])"

definition clock_lines :: "sdp_session \<Rightarrow> string list" where
  "clock_lines s =
     refclk_lines s @
     (if 0 \<le> sd_ptpDomain s \<and> map_find (sd_customAttributes s) ''clock-domain'' = None
      then [''a=clock-domain:PTPv2 '' @ decimal_int (sd_ptpDomain s)] else []) @
     (if sd_mediaClockType s \<noteq> [] then [''a=mediaclk:'' @ sd_mediaClockType s] else []) @
     map custom_line (sd_customAttributes s)"

definition generateAttributes :: "sdp_session \<Rightarrow> string list" where
  "generateAttributes s = format_lines s @ clock_lines s"

definition kCRLF :: string where "kCRLF = [CHR 0x0D, CHR 0x0A]"

definition head_lines :: "u64 \<Rightarrow> sdp_session \<Rightarrow> string list" where
  "head_lines now s =
     [''v=0'', generateOriginLine now s, ''s='' @ sd_sessionName s] @
     (if sd_sessionInfo s \<noteq> [] then [''i='' @ sd_sessionInfo s] else []) @
     [generateConnectionLine s,
      ''t='' @ decimal (unat (sd_timeStart s)) @ '' '' @ decimal (unat (sd_timeStop s)),
      generateMediaLine s, generateConnectionLine s]"

definition generate :: "u64 \<Rightarrow> sdp_session \<Rightarrow> string" where
  "generate now s = concat (map (\<lambda>line. line @ kCRLF) (head_lines now s @ generateAttributes s))"

section \<open>Sessions and streams\<close>

definition createDefaultTxSession ::
  "u64 \<Rightarrow> string \<Rightarrow> string \<Rightarrow> string \<Rightarrow> u16 \<Rightarrow> u16 \<Rightarrow> u32 \<Rightarrow> string \<Rightarrow> sdp_session" where
  "createDefaultTxSession now name sourceIP multicastIP port channels rate encoding =
     sdp_default\<lparr>sd_sessionName := name, sd_sessionInfo := ''AES67 Stream'', sd_sessionID := now,
       sd_sessionVersion := 0, sd_originUsername := ''-'', sd_originAddress := sourceIP,
       sd_originAddressType := ''IP4'', sd_originNetworkType := ''IN'', sd_connectionAddress := multicastIP,
       sd_connectionType := ''IN'', sd_connectionNetwork := ''IP4'', sd_ttl := 32, sd_timeStart := 0,
       sd_timeStop := 0, sd_mediaType := ''audio'', sd_port := port, sd_transport := ''RTP/AVP'',
       sd_payloadType := payloadTypeFor encoding, sd_encoding := encoding, sd_sampleRate := rate,
       sd_numChannels := channels, sd_ptimeUs := 1000, sd_framecount := rate div 1000,
       sd_sourceAddress := sourceIP, sd_direction := ''sendonly'', sd_ptpDomain := 0,
       sd_mediaClockType := ''direct=0''\<rparr>"

definition stats_zero :: statistics where
  "stats_zero = \<lparr>packetsReceived = 0, packetsLost = 0, malformedPackets = 0, outOfOrderPackets = 0,
     underruns = 0, overruns = 0, lastPacketTimeNs = 0, jitterNs = 0, latencyNs = 0,
     bytesReceived = 0, bytesSent = 0\<rparr>"

definition toStreamInfo :: "stream_id \<Rightarrow> sdp_session \<Rightarrow> stream_info" where
  "toStreamInfo fresh s =
     \<lparr>si_id = fresh, si_name = sd_sessionName s, si_description = sd_sessionInfo s,
      si_source = \<lparr>na_ip = sd_sourceAddress s, na_port = 0, na_ttl = 32\<rparr>,
      si_multicast = \<lparr>na_ip = sd_connectionAddress s, na_port = sd_port s, na_ttl = sd_ttl s\<rparr>,
      si_encoding = (if sd_encoding s = ''L16'' then L16 else if sd_encoding s = ''L24'' then L24 else Unknown),
      si_sampleRate = sd_sampleRate s, si_numChannels = sd_numChannels s, si_payloadType = sd_payloadType s,
      si_ptime = sd_ptimeUs s, si_framecount = sd_framecount s, si_jitterBufferDepth = 0,
      si_ptp = \<lparr>ptp_domain = sd_ptpDomain s, ptp_masterMAC = sd_ptpMasterMAC s,
                ptp_enabled = (0 \<le> sd_ptpDomain s)\<rparr>,
      si_stats = stats_zero, si_isActive = False, si_isConnected = False\<rparr>"

definition fromStreamInfo :: "u64 \<Rightarrow> stream_info \<Rightarrow> sdp_session" where
  "fromStreamInfo now info =
     sdp_default\<lparr>sd_sessionName := si_name info, sd_sessionInfo := si_description info, sd_sessionID := now,
       sd_originAddress := na_ip (si_source info), sd_connectionAddress := na_ip (si_multicast info),
       sd_port := na_port (si_multicast info), sd_ttl := na_ttl (si_multicast info),
       sd_encoding := (case si_encoding info of L16 \<Rightarrow> ''L16'' | L24 \<Rightarrow> ''L24'' | _ \<Rightarrow> ''L24''),
       sd_sampleRate := si_sampleRate info, sd_numChannels := si_numChannels info,
       sd_payloadType := si_payloadType info, sd_ptimeUs := si_ptime info, sd_framecount := si_framecount info,
       sd_sourceAddress := na_ip (si_source info), sd_ptpDomain := ptp_domain (si_ptp info),
       sd_ptpMasterMAC := ptp_masterMAC (si_ptp info)\<rparr>"

end
