(* ===== verification/SDP_Roundtrip.thy ===== *)
theory SDP_Roundtrip
  imports SDP
begin

text \<open>
  What a session description looks like after it was written and read again. \<open>on_the_wire\<close> says,
  field by field, what \<open>parseString (generate s)\<close> must return; the lemmas go line by line, and the
  packet time goes through \<open>double\<close> on both sides.
\<close>

section \<open>Packet times\<close>

lemma drop_end_append: "drop_end P (a @ b) = (if list_all P b then drop_end P a else a @ drop_end P b)"
  by (auto simp: drop_end_def dropWhile_append list_all_iff)

definition ptime_tail :: "nat \<Rightarrow> string" where
  "ptime_tail r = (let d = drop_end (\<lambda>c. c = CHR ''0'') (digits3 r) in if d = [] then [] else CHR ''.'' # d)"

lemma digit_char_0: "d < 10 \<Longrightarrow> digit_char d = CHR ''0'' \<longleftrightarrow> d = 0"
  by (auto simp: digit_char_def code_inject [symmetric]) (auto simp: code_def)

lemma formatPTimeMs_digits:
  "formatPTimeMs us = decimal (unat us div 1000) @ ptime_tail (unat us mod 1000)"
proof -
  let ?q = "decimal (unat us div 1000)" and ?d = "digits3 (unat us mod 1000)" and ?z = "\<lambda>c. c = CHR ''0''"
  have "unat us < 2 ^ 32" using unsigned_less [of us] by simp
  then have f: "fixed3 (to_double (of_nat (unat us) / 1000)) = (?q @ [CHR ''.'']) @ ?d"
    by (simp add: fixed3_milli del: of_nat_unat)
  have e: "drop_end ?z ?d = [] \<longleftrightarrow> list_all ?z ?d" by (auto simp: drop_end_def list_all_iff dropWhile_eq_Nil_conv)
  have l: "last (drop_end ?z ?d) \<in> set ?d" if "drop_end ?z ?d \<noteq> []"
    using last_in_set [OF that] by (auto simp: drop_end_def dest: set_dropWhileD)
  have nd: "CHR ''.'' \<notin> set ?d"
    using is_digit_char by (auto simp: digits3_def is_digit_def code_def dest!: arg_cong [where f = is_digit])
  have dot: "drop_end ?z (?q @ [CHR ''.'']) = ?q @ [CHR ''.'']" by (simp add: drop_end_def)
  show ?thesis
  proof (cases "list_all ?z ?d")
    case True
    have "drop_end ?z ((?q @ [CHR ''.'']) @ ?d) = ?q @ [CHR ''.'']" using True dot by (subst drop_end_append) simp
    then show ?thesis using e True unfolding formatPTimeMs_def f ptime_tail_def by (simp add: Let_def)
  next
    case False
    have "drop_end ?z ((?q @ [CHR ''.'']) @ ?d) = (?q @ [CHR ''.'']) @ drop_end ?z ?d"
      using False by (subst drop_end_append) simp
    moreover have "last ((?q @ [CHR ''.'']) @ drop_end ?z ?d) \<noteq> CHR ''.''" using e l nd False by auto
    ultimately show ?thesis using e False unfolding formatPTimeMs_def f ptime_tail_def by (simp add: Let_def)
  qed
qed

lemma digits3_digits: "c \<in> set (digits3 r) \<Longrightarrow> is_digit c"
  by (auto simp: digits3_def)

lemma three_digits:
  assumes "r < 1000"
  obtains a b c where "a < 10" "b < 10" "c < 10" "r = (a * 10 + b) * 10 + c"
    "digits3 r = [digit_char a, digit_char b, digit_char c]"
proof
  show "r div 100 < 10" "r div 10 mod 10 < 10" "r mod 10 < 10" using assms by simp_all
  have "r div 100 * 10 + r div 10 mod 10 = r div 10"
    using div_mult_mod_eq [of "r div 10" 10] by (simp add: div_mult2_eq flip: div_mult2_eq)
  then show "r = (r div 100 * 10 + r div 10 mod 10) * 10 + r mod 10" using div_mult_mod_eq [of r 10] by simp
  show "digits3 r = [digit_char (r div 100), digit_char (r div 10 mod 10), digit_char (r mod 10)]"
    using assms by (simp add: digits3_def)
qed

lemma read_ptime:
  fixes q r :: nat
  assumes "r < 1000"
  shows "read_magnitude 10 (decimal q @ ptime_tail r) = Some (of_nat (q * 1000 + r) / 1000)"
proof -
  let ?t = "ptime_tail r"
  obtain a b c where d: "a < 10" "b < 10" "c < 10" "r = (a * 10 + b) * 10 + c"
    "digits3 r = [digit_char a, digit_char b, digit_char c]" using three_digits [OF assms] by blast
  have t: "?t = (if c \<noteq> 0 then [CHR ''.'', digit_char a, digit_char b, digit_char c]
      else if b \<noteq> 0 then [CHR ''.'', digit_char a, digit_char b] else if a \<noteq> 0 then [CHR ''.'', digit_char a] else [])"
    using d(1-3) by (simp add: ptime_tail_def d(5) drop_end_def digit_char_0)
  have stop: "\<not> starts_with_digit 10 ?t"
    by (simp add: t starts_with_digit_def is_digit_val is_digit_def code_def)
  have rd: "read_digits 10 0 (decimal q @ ?t) = (q, ?t)"
    using read_digits_decimal [of 0 q ?t] read_digits_stop [OF stop] by simp
  have fr: "\<exists>n. read_fraction 10 q ?t = (of_nat (q * 1000 + r) / 1000, n, [])"
  proof -
    have "rat_of_nat r = of_nat a * 100 + of_nat b * 10 + of_nat c" unfolding d(4) by simp
    then show ?thesis
      using d(1-3) unfolding t by (simp add: read_fraction_def field_simps power2_eq_square power3_eq_cube)
  qed
  then show ?thesis using rd by (auto simp: read_magnitude_def read_exponent_def)
qed

text \<open>The double that comes out of it is a thousandth of the count, and the count comes back.\<close>

lemma milli_lower: "0 < n \<Longrightarrow> (2::rat) powi (- 1022) \<le> of_nat n / 1000"
proof -
  assume n: "0 < n"
  have "(2::rat) powi (- 1022) \<le> 1 / 1000" by (simp add: power_int_minus field_simps)
  also have "\<dots> \<le> of_nat n / 1000" using n by (intro divide_right_mono) auto
  finally show ?thesis .
qed

lemma to_double_1000: "to_double 1000 = 1000"
  by code_simp

lemma milli_bounds:
  fixes n :: nat
  assumes "0 < n" "n \<le> 1000000"
  shows "0 < to_double (of_nat n / 1000)" "to_double (of_nat n / 1000) \<le> 1000"
    "lround (to_double (to_double (of_nat n / 1000) * 1000)) = int n"
proof -
  let ?x = "of_nat n / (1000 :: rat)" let ?d = "to_double ?x"
  have n: "(1::rat) \<le> of_nat n" using assms(1) by simp
  have err: "\<bar>?d - ?x\<bar> \<le> ?x / 2 ^ 53" by (rule to_double_milli [OF assms(1)])
  have small: "?x / 2 ^ 53 < ?x" using n by (simp add: field_simps)
  show pos: "0 < ?d" using err small by linarith
  show "?d \<le> 1000"
  proof (cases "n = 1000000")
    case True
    then show ?thesis by (simp add: to_double_1000)
  next
    case False
    then have "of_nat n \<le> (of_nat 999999 :: rat)" using assms(2) by (intro of_nat_mono) simp
    then have "?x + ?x / 2 ^ 53 \<le> 1000" by (simp add: field_simps)
    then show ?thesis using err by linarith
  qed
  have up: "(of_nat n :: rat) \<le> 1000000" using assms(2) of_nat_mono [of n 1000000] by simp
  have e1: "\<bar>?d * 1000 - of_nat n\<bar> \<le> of_nat n / 2 ^ 53"
  proof -
    have "\<bar>?d * 1000 - of_nat n\<bar> = \<bar>?d - ?x\<bar> * 1000" by (simp add: abs_if field_simps)
    then show ?thesis using err by simp
  qed
  have s1: "of_nat n / 2 ^ 53 \<le> (1 / 8 :: rat)" using up by simp
  have low: "1 / 2 \<le> ?d * 1000" "?d * 1000 \<le> 1000001"
    using e1 s1 n up by linarith+
  have "(2::rat) powi (- 1022) \<le> 1 / 2" by (simp add: power_int_minus field_simps)
  then have e2: "\<bar>to_double (?d * 1000) - ?d * 1000\<bar> \<le> ?d * 1000 / 2 ^ 53"
    using to_double_error [of "?d * 1000"] low pos by simp
  have "?d * 1000 / 2 ^ 53 \<le> 1 / 8" using low by simp
  then have "\<bar>to_double (?d * 1000) - of_nat n\<bar> \<le> 1 / 4" using e1 e2 s1 by linarith
  moreover from this have "0 \<le> to_double (?d * 1000)" using n by linarith
  ultimately show "lround (to_double (?d * 1000)) = int n" by (intro lround_near) simp_all
qed

lemma stod_ptime:
  fixes n :: nat
  assumes "0 < n" "n \<le> 1000000"
  shows "stod (decimal (n div 1000) @ ptime_tail (n mod 1000)) = Inr (Finite (to_double (of_nat n / 1000)))"
proof -
  let ?s = "decimal (n div 1000) @ ptime_tail (n mod 1000)" and ?d = "to_double (of_nat n / 1000)"
  obtain c cs where s: "?s = c # cs" "is_digit c" using decimal_hd [of "n div 1000"] by auto
  have m: "read_magnitude 10 ?s = Some (of_nat n / 1000)" using read_ptime [of "n mod 1000" "n div 1000"] by simp
  have x: "CHR ''x'' \<notin> lower ` set ?s"
  proof -
    have "lower z \<noteq> CHR ''x''" if "is_digit z \<or> z = CHR ''.''" for z
      using that by (auto simp: lower_def is_digit_def code_def)
    moreover have "is_digit z \<or> z = CHR ''.''" if "z \<in> set ?s" for z
      using that decimal_digits [of z "n div 1000"] digits3_digits [of z "n mod 1000"]
      by (auto simp: ptime_tail_def drop_end_def Let_def split: if_splits dest: set_dropWhileD)
    ultimately have "\<forall>z\<in>set ?s. lower z \<noteq> CHR ''x''" by blast
    then show ?thesis by (rule contrapos_pn) (erule imageE, metis)
  qed
  have p1: "dropWhile is_space ?s = ?s" "skip_sign ?s = (False, ?s)"
    using digit_facts [OF s(2)] by (simp_all add: s(1) skip_sign_def)
  have p2: "to_lower (take 3 ?s) \<noteq> ''inf''" "to_lower (take 3 ?s) \<noteq> ''nan''"
  proof -
    have "lower c \<noteq> CHR ''i'' \<and> lower c \<noteq> CHR ''n''" using s(2) by (auto simp: lower_def is_digit_def code_def)
    then show "to_lower (take 3 ?s) \<noteq> ''inf''" "to_lower (take 3 ?s) \<noteq> ''nan''" by (auto simp: s(1) to_lower_def)
  qed
  have p3: "to_lower (take 2 ?s) \<noteq> ''0x''"
  proof
    assume "to_lower (take 2 ?s) = ''0x''"
    then have "CHR ''x'' \<in> set (to_lower (take 2 ?s))" by simp
    then show False using x by (auto simp: to_lower_def dest: in_set_takeD)
  qed
  have "?d < 2 ^ 1024"
    using milli_bounds(2) [OF assms] by (rule le_less_trans) (simp add: less_le_trans [of _ "2 ^ 10"])
  then show ?thesis using p1 p2 p3 m milli_lower [OF assms(1)]
    by (simp only: stod_def Let_def split: prod.split) simp
qed

lemma ptime_parse:
  assumes "0 < us" "us \<le> 1000000"
  shows "parsePTimeAttribute (formatPTimeMs us) s = Some (s\<lparr>sd_ptimeUs := us\<rparr>)"
proof -
  have n: "0 < unat us" "unat us \<le> 1000000" using assms by (auto simp: unat_gt_0 word_le_nat_alt)
  show ?thesis
    using stod_ptime [OF n] milli_bounds [OF n]
    by (simp add: formatPTimeMs_digits parsePTimeAttribute_def not_less)
qed

section \<open>What survives\<close>

definition mac_char :: "char \<Rightarrow> bool" where
  "mac_char c \<longleftrightarrow> is_digit c \<or> 65 \<le> code c \<and> code c \<le> 70 \<or> 97 \<le> code c \<and> code c \<le> 102 \<or>
     c = CHR ''-'' \<or> c = CHR '':''"

definition one_line :: "string \<Rightarrow> bool" where
  "one_line s \<longleftrightarrow> CHR 0x0A \<notin> set s"

definition custom_key :: "string \<Rightarrow> bool" where
  "custom_key k \<longleftrightarrow> one_line k \<and> CHR '':'' \<notin> set k \<and> \<not> is_direction k \<and>
     k \<notin> {''rtpmap'', ''ptime'', ''framecount'', ''source-filter'', ''ts-refclk'', ''mediaclk''}"

text \<open>The sessions whose fields fit the syntax of the lines they are written on.\<close>

definition wf_origin :: "sdp_session \<Rightarrow> bool" where
  "wf_origin s \<longleftrightarrow> token (sd_originUsername s) \<and> token (sd_originNetworkType s) \<and>
     token (sd_originAddressType s) \<and> token (sd_originAddress s) \<and> sd_originAddress s \<noteq> [] \<and>
     one_line (sd_sessionName s) \<and> trim (sd_sessionName s) \<noteq> [] \<and> one_line (sd_sessionInfo s)"

definition wf_media :: "sdp_session \<Rightarrow> bool" where
  "wf_media s \<longleftrightarrow> token (sd_connectionType s) \<and> token (sd_connectionNetwork s) \<and>
     token (sd_connectionAddress s) \<and> sd_connectionAddress s \<noteq> [] \<and> CHR ''/'' \<notin> set (sd_connectionAddress s) \<and>
     token (sd_mediaType s) \<and> token (sd_transport s) \<and> sd_port s \<noteq> 0 \<and> sd_payloadType s \<le> 127"

definition wf_format :: "sdp_session \<Rightarrow> bool" where
  "wf_format s \<longleftrightarrow> (sd_encoding s = ''L16'' \<or> sd_encoding s = ''L24'' \<or> sd_encoding s = ''AM824'') \<and>
     sd_sampleRate s \<noteq> 0 \<and> sd_numChannels s \<noteq> 0 \<and> 0 < sd_ptimeUs s \<and> sd_ptimeUs s \<le> 1000000 \<and>
     token (sd_sourceAddress s) \<and> is_direction (sd_direction s)"

definition wf_clock :: "sdp_session \<Rightarrow> bool" where
  "wf_clock s \<longleftrightarrow> sd_ptpDomain s < 2 ^ 31 \<and> list_all mac_char (sd_ptpMasterMAC s) \<and>
     one_line (sd_mediaClockType s) \<and> sorted_map (sd_customAttributes s) \<and>
     list_all (\<lambda>(k, v). custom_key k \<and> one_line v) (sd_customAttributes s)"

definition wf_sdp :: "sdp_session \<Rightarrow> bool" where
  "wf_sdp s \<longleftrightarrow> wf_origin s \<and> wf_media s \<and> wf_format s \<and> wf_clock s"

text \<open>
  What reading the written description gives: the domain of a session without a grandmaster, the
  egress marking and a TTL of zero are not on the wire and come back as their defaults, and the
  clock domain comes back as an attribute of its own.
\<close>

definition wire_custom :: "sdp_session \<Rightarrow> (string, string) stdmap" where
  "wire_custom s =
     (if 0 \<le> sd_ptpDomain s \<and> map_find (sd_customAttributes s) ''clock-domain'' = None
      then map_put ''clock-domain'' (''PTPv2 '' @ decimal_int (sd_ptpDomain s)) (sd_customAttributes s)
      else sd_customAttributes s)"

definition on_the_wire :: "u64 \<Rightarrow> sdp_session \<Rightarrow> sdp_session" where
  "on_the_wire now s = s\<lparr>
     sd_sessionName := trim (sd_sessionName s), sd_sessionInfo := trim (sd_sessionInfo s),
     sd_sessionID := (if sd_sessionID s = 0 then now else sd_sessionID s),
     sd_ttl := (if sd_ttl s = 0 then 32 else sd_ttl s),
     sd_ptpDomain := (if \<not> sd_ptpTraceable s \<and> 0 \<le> sd_ptpDomain s \<and> sd_ptpMasterMAC s \<noteq> [] then sd_ptpDomain s else 0),
     sd_ptpMasterMAC := (if \<not> sd_ptpTraceable s \<and> 0 \<le> sd_ptpDomain s then sd_ptpMasterMAC s else []),
     sd_mediaClockType := (if sd_mediaClockType s = [] then ''direct=0'' else sd_mediaClockType s),
     sd_dscp := - 1, sd_customAttributes := wire_custom s\<rparr>"

section \<open>Line by line\<close>

lemma one_line_simps [simp]:
  "one_line []" "one_line (a @ b) \<longleftrightarrow> one_line a \<and> one_line b"
  "one_line (c # a) \<longleftrightarrow> c \<noteq> CHR 0x0A \<and> one_line a" "token a \<Longrightarrow> one_line a" "one_line (decimal n)"
  by (auto simp: one_line_def)

lemma splitLines_generated:
  "list_all one_line ls \<Longrightarrow> splitLines (concat (map (\<lambda>l. l @ kCRLF) ls)) = ls"
proof (induction ls)
  case (Cons l ls)
  have "getline_parts (CHR 0x0A) ((l @ [CHR 0x0D]) @ CHR 0x0A # concat (map (\<lambda>l. l @ kCRLF) ls)) =
      (l @ [CHR 0x0D]) # getline_parts (CHR 0x0A) (concat (map (\<lambda>l. l @ kCRLF) ls))"
    using Cons.prems by (intro getline_parts_append) (simp add: one_line_def)
  then show ?case using Cons by (simp add: splitLines_def kCRLF_def)
qed (simp add: splitLines_def getline_parts_def)

lemma parse_lines_append: "parse_lines (a @ b) s = Option.bind (parse_lines a s) (parse_lines b)"
proof (induction a arbitrary: s)
  case (Cons l a)
  then show ?case by (cases "parse_line l s") simp_all
qed simp

lemma line_dispatch [simp]:
  "parse_line (CHR ''o'' # CHR ''='' # v) s = parseOriginLine v s"
  "parse_line (CHR ''s'' # CHR ''='' # v) s = Some (s\<lparr>sd_sessionName := trim v\<rparr>)"
  "parse_line (CHR ''i'' # CHR ''='' # v) s = Some (s\<lparr>sd_sessionInfo := trim v\<rparr>)"
  "parse_line (CHR ''c'' # CHR ''='' # v) s = parseConnectionLine v s"
  "parse_line (CHR ''t'' # CHR ''='' # v) s = parseTimingLine v s"
  "parse_line (CHR ''m'' # CHR ''='' # v) s = parseMediaLine v s"
  "parse_line (CHR ''a'' # CHR ''='' # v) s = parseAttributeLine v s"
  "parse_line ''v=0'' s = Some s"
  by (simp_all add: parse_line_def trim_def drop_end_def is_space_def code_def)

lemma splitString_append [simp]:
  "d \<notin> set w \<Longrightarrow> splitString (w @ d # s) d = trim w # splitString s d"
  "d \<notin> set w \<Longrightarrow> w \<noteq> [] \<Longrightarrow> splitString w d = [trim w]"
  by (simp_all add: splitString_def)

lemma unat_ranges:
  "unat (a :: u64) < 2 ^ 64" "unat (b :: u32) < 2 ^ 31 * 2" "unat (c :: u16) \<le> 65535" "unat (e :: u8) < 256"
  using unsigned_less [of a, where ?'a = nat] unsigned_less [of b, where ?'a = nat]
    unsigned_less [of c, where ?'a = nat] unsigned_less [of e, where ?'a = nat] by simp_all

lemma ucast_u32_u64 [simp]: "ucast (ucast (x :: u32) :: u64) = x"
  by (rule bit_word_eqI) (simp add: bit_unsigned_iff)

lemma origin_back:
  assumes "wf_origin s"
  shows "parse_line (generateOriginLine now s) st = Some (st\<lparr>sd_originUsername := sd_originUsername s,
    sd_sessionID := (if sd_sessionID s = 0 then now else sd_sessionID s), sd_sessionVersion := sd_sessionVersion s,
    sd_originNetworkType := sd_originNetworkType s, sd_originAddressType := sd_originAddressType s,
    sd_originAddress := sd_originAddress s\<rparr>)"
  using assms unat_ranges(1) by (simp add: generateOriginLine_def parseOriginLine_def wf_origin_def)

lemma connection_back:
  assumes "wf_media s"
  shows "parse_line (generateConnectionLine s) st = Some (st\<lparr>sd_connectionType := sd_connectionType s,
    sd_connectionNetwork := sd_connectionNetwork s, sd_connectionAddress := sd_connectionAddress s,
    sd_ttl := (if sd_ttl s = 0 then sd_ttl st else sd_ttl s)\<rparr>)"
proof -
  have slash: "token (CHR ''/'' # d) \<longleftrightarrow> token d" for d by (simp add: token_def is_space_def code_def)
  have "stoi (decimal (unat (sd_ttl s))) = Inr (int (unat (sd_ttl s)))"
    using unat_ranges(4) [of "sd_ttl s"] by (intro stoi_decimal_plain) simp
  then show ?thesis using assms
    by (simp add: generateConnectionLine_def parseConnectionLine_def wf_media_def slash)
qed

lemma timing_back:
  "parseTimingLine (decimal (unat a) @ CHR '' '' # decimal (unat b)) st =
     Some (st\<lparr>sd_timeStart := a, sd_timeStop := b\<rparr>)"
  using unat_ranges(1) by (simp add: parseTimingLine_def)

lemma media_back:
  assumes "wf_media s"
  shows "parse_line (generateMediaLine s) st = Some (st\<lparr>sd_mediaType := sd_mediaType s,
    sd_port := sd_port s, sd_transport := sd_transport s, sd_payloadType := sd_payloadType s\<rparr>)"
proof -
  have "stoi (decimal (unat (sd_port s))) = Inr (int (unat (sd_port s)))"
    "stoi (decimal (unat (sd_payloadType s))) = Inr (int (unat (sd_payloadType s)))"
    using unat_ranges(3) [of "sd_port s"] unat_ranges(4) [of "sd_payloadType s"]
    by (intro stoi_decimal_plain; simp)+
  moreover have "unat (sd_payloadType s) \<le> 127" using assms by (simp add: wf_media_def word_le_nat_alt)
  ultimately show ?thesis using assms unat_ranges(3) [of "sd_port s"]
    by (simp add: generateMediaLine_def parseMediaLine_def wf_media_def del: of_nat_unat) simp
qed

lemma attribute_dispatch:
  "parseAttributeLine (''rtpmap:'' @ v) s = parseRTPMapAttribute v s"
  "parseAttributeLine (''ptime:'' @ v) s = parsePTimeAttribute v s"
  "parseAttributeLine (''framecount:'' @ v) s = parseFrameCountAttribute v s"
  "parseAttributeLine (''source-filter:'' @ v) s = parseSourceFilterAttribute v s"
  "parseAttributeLine (''ts-refclk:'' @ v) s = parsePTPRefClockAttribute v s"
  "parseAttributeLine (''mediaclk:'' @ v) s = parseMediaClockAttribute v s"
  "is_direction a \<Longrightarrow> parseAttributeLine a s = Some (s\<lparr>sd_direction := a\<rparr>)"
proof -
  note cut = cut_first_append [of "CHR '':''" "''rtpmap''" v] cut_first_append [of "CHR '':''" "''ptime''" v]
    cut_first_append [of "CHR '':''" "''framecount''" v] cut_first_append [of "CHR '':''" "''source-filter''" v]
    cut_first_append [of "CHR '':''" "''ts-refclk''" v] cut_first_append [of "CHR '':''" "''mediaclk''" v]
  show "parseAttributeLine (''rtpmap:'' @ v) s = parseRTPMapAttribute v s"
    "parseAttributeLine (''ptime:'' @ v) s = parsePTimeAttribute v s"
    "parseAttributeLine (''framecount:'' @ v) s = parseFrameCountAttribute v s"
    "parseAttributeLine (''source-filter:'' @ v) s = parseSourceFilterAttribute v s"
    "parseAttributeLine (''ts-refclk:'' @ v) s = parsePTPRefClockAttribute v s"
    "parseAttributeLine (''mediaclk:'' @ v) s = parseMediaClockAttribute v s"
    using cut by (simp_all add: parseAttributeLine_def)
next
  assume "is_direction a"
  then show "parseAttributeLine a s = Some (s\<lparr>sd_direction := a\<rparr>)"
    unfolding is_direction_def
    by (elim disjE) (simp_all add: parseAttributeLine_def cut_first_def is_direction_def)
qed

lemma custom_back:
  assumes "custom_key k"
  shows "parse_line (custom_line (k, v)) s = Some (s\<lparr>sd_customAttributes := map_put k v (sd_customAttributes s)\<rparr>)"
  using assms by (simp add: custom_line_def parseAttributeLine_def custom_key_def)

lemma rtpmap_back:
  assumes "wf_format s" "sd_payloadType st = sd_payloadType s"
  shows "parseRTPMapAttribute (decimal (unat (sd_payloadType s)) @ CHR '' '' # sd_encoding s @ CHR ''/'' #
      decimal (unat (sd_sampleRate s)) @ CHR ''/'' # decimal (unat (sd_numChannels s))) st =
    Some (st\<lparr>sd_encoding := sd_encoding s, sd_sampleRate := sd_sampleRate s, sd_numChannels := sd_numChannels s\<rparr>)"
proof -
  let ?f = "sd_encoding s @ CHR ''/'' # decimal (unat (sd_sampleRate s)) @ CHR ''/'' # decimal (unat (sd_numChannels s))"
  have e: "token (sd_encoding s)" "CHR ''/'' \<notin> set (sd_encoding s)"
    using assms(1) by (auto simp: wf_format_def token_def is_space_def code_def)
  have d: "CHR ''/'' \<notin> set (decimal n)" for n by (rule decimal_no_char) (simp add: is_digit_def code_def)
  have slash: "token (CHR ''/'' # w) \<longleftrightarrow> token w" for w by (simp add: token_def is_space_def code_def)
  have tf: "token ?f" using e by (simp add: slash)
  have p: "splitString (decimal (unat (sd_payloadType s)) @ CHR '' '' # ?f) (CHR '' '') = [decimal (unat (sd_payloadType s)), ?f]"
    using tf token_blank [OF tf] by simp
  have f: "splitString ?f (CHR ''/'') = [sd_encoding s, decimal (unat (sd_sampleRate s)), decimal (unat (sd_numChannels s))]"
    using e d by simp
  have n: "stoi (decimal (unat (sd_payloadType s))) = Inr (int (unat (sd_payloadType s)))"
    using unat_ranges(4) [of "sd_payloadType s"] by (intro stoi_decimal_plain) simp
  have "scan_number 10 (decimal (unat (sd_numChannels s))) = Some (False, unat (sd_numChannels s), [])"
    using scan_decimal [of "[]"] by simp
  then have c: "stol (decimal (unat (sd_numChannels s))) = Inr (int (unat (sd_numChannels s)))"
    using unat_ranges(3) [of "sd_numChannels s"] by (simp add: stol_def del: of_nat_unat)
  have c1: "1 \<le> int (unat (sd_numChannels s))" using assms(1) by (simp add: wf_format_def Suc_leI unat_gt_0 del: of_nat_unat)
  have r: "unat (sd_sampleRate s) < 2 ^ 64" using unat_ranges(2) [of "sd_sampleRate s"] by simp
  show ?thesis
    using n c c1 r assms(2) unat_ranges(3) [of "sd_numChannels s"]
    by (simp add: parseRTPMapAttribute_def p f rtpmap_channels_def del: of_nat_unat splitString_append) simp
qed

lemma framecount_back:
  "parseFrameCountAttribute (decimal (unat n)) st = Some (st\<lparr>sd_framecount := n\<rparr>)"
proof -
  have "unat n < 2 ^ 64" using unat_ranges(2) [of n] by simp
  then show ?thesis by (simp add: parseFrameCountAttribute_def)
qed

lemma source_filter_back:
  assumes "token dst" "dst \<noteq> []" "token src" "src \<noteq> []"
  shows "parseSourceFilterAttribute ('' incl IN IP4 '' @ dst @ CHR '' '' # src) st = Some (st\<lparr>sd_sourceAddress := src\<rparr>)"
proof -
  let ?v = "''incl'' @ CHR '' '' # ''IN'' @ CHR '' '' # ''IP4'' @ CHR '' '' # dst @ CHR '' '' # src"
  have w: "token ''incl''" "token ''IN''" "token ''IP4''" by (simp_all add: token_def is_space_def code_def)
  have l: "last ?v = last src" using assms(4) by simp
  have "\<not> is_space (last src)" using assms(3,4) by (auto simp: token_def list_all_iff)
  then have "trim ?v = ?v" using l by (intro trim_solid disjI2) (simp add: is_space_def code_def)
  then have "trim ('' incl IN IP4 '' @ dst @ CHR '' '' # src) = ?v"
    by (simp add: trim_def) (simp add: is_space_def code_def)
  moreover have "splitString ?v (CHR '' '') = [''incl'', ''IN'', ''IP4'', dst, src]"
    unfolding splitString_append(1) [OF token_blank [OF w(1)]] splitString_append(1) [OF token_blank [OF w(2)]]
      splitString_append(1) [OF token_blank [OF w(3)]] token_trim [OF w(1)] token_trim [OF w(2)] token_trim [OF w(3)]
    using assms by simp
  ultimately show ?thesis by (simp add: parseSourceFilterAttribute_def)
qed

lemma mac_chars:
  assumes "list_all mac_char m"
  shows "CHR ''r'' \<notin> set m" "CHR ''='' \<notin> set m" "one_line m"
  using assms by (auto simp: list_all_iff mac_char_def is_digit_def code_def one_line_def)

lemma refclk_back:
  assumes "list_all mac_char m" "0 \<le> d" "d < 2 ^ 31"
  shows "parsePTPRefClockAttribute (''ptp=IEEE1588-2008:'' @ m @ CHR '':'' # decimal_int d) st =
    Some (st\<lparr>sd_ptpMasterMAC := m, sd_ptpDomain := d\<rparr>)"
proof -
  let ?p = "''ptp=IEEE1588-2008:''" and ?n = "decimal (nat d)"
  let ?r = "m @ CHR '':'' # ?n"
  have dn: "decimal_int d = ?n" using assms(2) by (simp add: decimal_int_def)
  have nd: "c \<notin> set ?n" if "\<not> is_digit c" for c using that by (rule decimal_no_char)
  have tr: "str_find ''traceable'' (?p @ ?r) = None"
    using mac_chars [OF assms(1)] nd [of "CHR ''r''"]
    by (intro str_find_absent [of "CHR ''r''"]) (auto simp: is_digit_def code_def)
  have ab: "str_find '':domain-nmbr='' ?r = None"
    using mac_chars [OF assms(1)] nd [of "CHR ''=''"]
    by (intro str_find_absent [of "CHR ''=''"]) (auto simp: is_digit_def code_def)
  have "is_digit (last ?n)" using last_in_set [OF decimal_nonempty [of "nat d"]] decimal_digits by blast
  then have "\<not> refclk_blank (last ?r)" by (auto simp: refclk_blank_def is_digit_def code_def)
  then have de: "drop_end refclk_blank ?r = ?r" by (intro drop_end_id) simp
  have cut: "cut_last (CHR '':'') ?r = Some (m, ?n)"
    using nd [of "CHR '':''"] by (intro cut_last_append) (simp add: is_digit_def code_def)
  have dig: "list_all is_digit ?n" using decimal_digits by (auto simp: list_all_iff)
  have dom: "parseDomainOr ?n k = d" for k
  proof -
    have "nat d < 2 ^ 31" using assms(2,3) by (simp add: nat_less_iff)
    then show ?thesis using assms(2) by (simp add: parseDomainOr_def stoi_decimal_plain)
  qed
  have dr: "drop (0 + 18) (?p @ ?r) = ?r" by simp
  show ?thesis unfolding dn parsePTPRefClockAttribute_def tr str_find_prefix option.case dr de
    by (simp add: parse_gmid_def ab cut dig dom)
qed

lemma traceable_back:
  "parsePTPRefClockAttribute ''ptp=IEEE1588-2008:traceable'' st = Some (st\<lparr>sd_ptpTraceable := True, sd_ptpMasterMAC := []\<rparr>)"
  by (simp add: parsePTPRefClockAttribute_def)

lemma custom_lines_back:
  "list_all (\<lambda>(k, v). custom_key k \<and> one_line v) m \<Longrightarrow>
   parse_lines (map custom_line m) st =
     Some (st\<lparr>sd_customAttributes := fold (\<lambda>(k, v). map_put k v) m (sd_customAttributes st)\<rparr>)"
  by (induction m arbitrary: st) (auto simp: custom_back)

lemma custom_map_back:
  assumes "sorted_map m"
  shows "fold (\<lambda>(k, v). map_put k v) m [] = m"
    "map_find m k = None \<Longrightarrow> fold (\<lambda>(k, v). map_put k v) m [(k, v)] = map_put k v m"
proof -
  show "fold (\<lambda>(k, v). map_put k v) m [] = m"
    by (rule sorted_map_ext) (simp_all add: assms sorted_map_put_all map_find_put_all split: option.split)
  show "fold (\<lambda>(k, v). map_put k v) m [(k, v)] = map_put k v m" if "map_find m k = None"
    using that by (intro sorted_map_ext) (auto simp: assms sorted_map_put sorted_map_put_all map_find_put_all split: option.split)
qed

lemma clock_domain_back:
  "parse_line (''a=clock-domain:'' @ v) st = Some (st\<lparr>sd_customAttributes := map_put ''clock-domain'' v (sd_customAttributes st)\<rparr>)"
  using cut_first_append [of "CHR '':''" "''clock-domain''" v]
  by (simp add: parseAttributeLine_def is_direction_def)

section \<open>The whole description\<close>

lemma head_back:
  assumes "wf_origin s" "wf_media s"
  shows "parse_lines (head_lines now s) sdp_default =
    Some (sdp_default\<lparr>sd_sessionName := trim (sd_sessionName s), sd_sessionInfo := trim (sd_sessionInfo s),
     sd_sessionID := (if sd_sessionID s = 0 then now else sd_sessionID s), sd_sessionVersion := sd_sessionVersion s,
     sd_originUsername := sd_originUsername s, sd_originAddress := sd_originAddress s,
     sd_originNetworkType := sd_originNetworkType s, sd_originAddressType := sd_originAddressType s,
     sd_connectionAddress := sd_connectionAddress s, sd_connectionType := sd_connectionType s,
     sd_connectionNetwork := sd_connectionNetwork s, sd_ttl := (if sd_ttl s = 0 then 32 else sd_ttl s),
     sd_timeStart := sd_timeStart s, sd_timeStop := sd_timeStop s, sd_mediaType := sd_mediaType s,
     sd_port := sd_port s, sd_transport := sd_transport s, sd_payloadType := sd_payloadType s\<rparr>)"
proof -
  have t: "trim [] = []" by (simp add: trim_def drop_end_def)
  show ?thesis
    using assms by (simp add: origin_back connection_back timing_back media_back sdp_default_def t head_lines_def)
qed

lemmas attribute_lines = attribute_dispatch [simplified] clock_domain_back [simplified]

lemma format_back:
  assumes "wf_format s" "wf_media s" "sd_payloadType st = sd_payloadType s" "sd_framecount st = 0" "sd_sourceAddress st = []"
  shows "parse_lines (format_lines s) st =
    Some (st\<lparr>sd_encoding := sd_encoding s, sd_sampleRate := sd_sampleRate s, sd_numChannels := sd_numChannels s,
      sd_ptimeUs := sd_ptimeUs s, sd_framecount := sd_framecount s, sd_direction := sd_direction s,
      sd_sourceAddress := sd_sourceAddress s\<rparr>)"
proof -
  have d: "is_direction (sd_direction s)" and u: "0 < sd_ptimeUs s" "sd_ptimeUs s \<le> 1000000"
    and tok: "token (sd_sourceAddress s)" using assms(1) by (simp_all add: wf_format_def)
  have c: "token (sd_connectionAddress s)" "sd_connectionAddress s \<noteq> []" using assms(2) by (simp_all add: wf_media_def)
  have fc: "\<not> 0 < sd_framecount s \<Longrightarrow> sd_framecount s = 0" by (simp add: word_gt_0)
  note src = source_filter_back [OF c tok, simplified]
  show ?thesis
    using assms(3-5) d fc
    by (simp add: format_lines_def attribute_lines rtpmap_back [OF assms(1)] ptime_parse [OF u] framecount_back src parse_lines_append)
qed

lemma clock_back:
  assumes "wf_clock s" "sd_ptpDomain st = 0" "sd_ptpMasterMAC st = []" "\<not> sd_ptpTraceable st"
    "sd_mediaClockType st = ''direct=0''" "sd_customAttributes st = []"
  shows "parse_lines (clock_lines s) st =
    Some (st\<lparr>sd_ptpTraceable := sd_ptpTraceable s,
      sd_ptpDomain := (if \<not> sd_ptpTraceable s \<and> 0 \<le> sd_ptpDomain s \<and> sd_ptpMasterMAC s \<noteq> [] then sd_ptpDomain s else 0),
      sd_ptpMasterMAC := (if \<not> sd_ptpTraceable s \<and> 0 \<le> sd_ptpDomain s then sd_ptpMasterMAC s else []),
      sd_mediaClockType := (if sd_mediaClockType s = [] then ''direct=0'' else sd_mediaClockType s),
      sd_customAttributes := wire_custom s\<rparr>)"
proof -
  have m: "list_all mac_char (sd_ptpMasterMAC s)" "sd_ptpDomain s < 2 ^ 31"
    and c: "sorted_map (sd_customAttributes s)" "list_all (\<lambda>(k, v). custom_key k \<and> one_line v) (sd_customAttributes s)"
    using assms(1) by (simp_all add: wf_clock_def)
  have r: "parse_lines (refclk_lines s) st = Some (st\<lparr>sd_ptpTraceable := sd_ptpTraceable s,
      sd_ptpDomain := (if \<not> sd_ptpTraceable s \<and> 0 \<le> sd_ptpDomain s \<and> sd_ptpMasterMAC s \<noteq> [] then sd_ptpDomain s else 0),
      sd_ptpMasterMAC := (if \<not> sd_ptpTraceable s \<and> 0 \<le> sd_ptpDomain s then sd_ptpMasterMAC s else [])\<rparr>)"
    using assms(2-4) refclk_back [OF m(1) _ m(2), simplified]
    by (auto simp: refclk_lines_def attribute_lines traceable_back)
  show ?thesis
    using assms(5,6) custom_map_back [OF c(1)]
    by (simp add: clock_lines_def parse_lines_append r attribute_lines custom_lines_back [OF c(2)] wire_custom_def parseMediaClockAttribute_def)
qed

lemma one_line_ptime: "one_line (formatPTimeMs us)"
proof -
  have "is_digit z \<or> z = CHR ''.''" if "z \<in> set (formatPTimeMs us)" for z
    using that decimal_digits [of z] digits3_digits [of z]
    by (auto simp: formatPTimeMs_digits ptime_tail_def drop_end_def Let_def split: if_splits dest: set_dropWhileD)
  moreover have "\<not> (is_digit (CHR 0x0A) \<or> CHR 0x0A = CHR ''.'')" by (simp add: is_digit_def code_def)
  ultimately show ?thesis unfolding one_line_def by blast
qed

lemma one_line_decimal_int [simp]: "one_line (decimal_int d)"
  by (simp add: decimal_int_def)

lemma direction_one_line: "is_direction d \<Longrightarrow> one_line d"
  by (auto simp: is_direction_def)

lemma custom_one_line: "list_all (\<lambda>(k, v). custom_key k \<and> one_line v) m \<Longrightarrow> list_all one_line (map custom_line m)"
  by (auto simp: list_all_iff custom_line_def custom_key_def)

lemma lines_one_line:
  assumes "wf_sdp s"
  shows "list_all one_line (head_lines now s @ generateAttributes s)"
proof -
  have w: "wf_origin s" "wf_media s" "wf_format s" "wf_clock s" using assms by (simp_all add: wf_sdp_def)
  have "one_line (generateConnectionLine s)" "one_line (generateMediaLine s)" "one_line (generateOriginLine now s)"
    using w(1,2) by (simp_all add: generateOriginLine_def generateConnectionLine_def generateMediaLine_def wf_media_def wf_origin_def)
  then have h: "list_all one_line (head_lines now s)" using w(1) by (simp add: head_lines_def wf_origin_def)
  have "one_line (sd_encoding s)" "one_line (sd_direction s)" "token (sd_sourceAddress s)"
    using w(3) direction_one_line by (auto simp: wf_format_def)
  moreover have "token (sd_connectionAddress s)" using w(2) by (simp add: wf_media_def)
  moreover have "one_line (sd_ptpMasterMAC s)" "one_line (sd_mediaClockType s)"
    "list_all one_line (map custom_line (sd_customAttributes s))"
    using w(4) mac_chars(3) custom_one_line by (auto simp: wf_clock_def)
  ultimately have "list_all one_line (generateAttributes s)"
    by (simp add: generateAttributes_def format_lines_def clock_lines_def one_line_ptime refclk_lines_def)
  then show ?thesis using h by simp
qed

lemma wire_valid: "wf_sdp s \<Longrightarrow> sdp_isValid (on_the_wire now s)"
  by (auto simp: sdp_isValid_def getValidationErrors_def on_the_wire_def wf_sdp_def wf_origin_def wf_media_def wf_format_def)

lemma wire_lines:
  assumes "wf_sdp s"
  shows "parse_lines (head_lines now s @ generateAttributes s) sdp_default = Some (on_the_wire now s)"
proof -
  have w: "wf_origin s" "wf_media s" "wf_format s" "wf_clock s" using assms by (simp_all add: wf_sdp_def)
  have d: "sd_framecount sdp_default = 0" "sd_sourceAddress sdp_default = []" "sd_ptpDomain sdp_default = 0"
    "sd_ptpMasterMAC sdp_default = []" "\<not> sd_ptpTraceable sdp_default" "sd_mediaClockType sdp_default = ''direct=0''"
    "sd_customAttributes sdp_default = []" by (simp_all add: sdp_default_def)
  show ?thesis
    by (simp add: generateAttributes_def parse_lines_append head_back [OF w(1,2)] format_back [OF w(3,2)] clock_back [OF w(4)] d
      split del: if_split)
      (rule sdp_session.equality; simp add: sdp_default_def on_the_wire_def)
qed

lemma wire_parse: "wf_sdp s \<Longrightarrow> parseString (generate now s) = Some (on_the_wire now s)"
  using splitLines_generated [OF lines_one_line] by (simp add: parseString_def generate_def wire_lines wire_valid)

text \<open>
  C9: Every session that fits the syntax is read back from its own description: \<open>parseString\<close> accepts
  what \<open>generate\<close> wrote and returns the session with exactly the changes \<open>on_the_wire\<close> lists. Names,
  addresses, identifiers, times, port, payload type, format, packet time, source filter, clock and the
  custom attributes come back unchanged.
\<close>

theorem sdp_generate_parse:
  assumes "wf_sdp s"
  shows "parseString (generate now s) = Some (on_the_wire now s)"
  using assms by (rule wire_parse)

definition stage_session :: sdp_session where
  "stage_session = (createDefaultTxSession 77 ''Stage A'' ''10.0.0.5'' ''239.1.2.3'' 5004 8 48000 ''L24'')
     \<lparr>sd_ptimeUs := 125, sd_ptpMasterMAC := ''00-1D-C1-FF-FE-12-34-56'', sd_ptpDomain := 3,
      sd_customAttributes := [(''keywds'', ''Dante'')]\<rparr>"

theorem sdp_generate_parse_witness:
  "wf_sdp stage_session \<and> parseString (generate 5 stage_session) = Some (on_the_wire 5 stage_session) \<and>
   sd_ptimeUs (on_the_wire 5 stage_session) = 125 \<and> sd_ptpDomain (on_the_wire 5 stage_session) = 3"
proof -
  have wf: "wf_sdp stage_session" by code_simp
  have "sd_ptimeUs (on_the_wire 5 stage_session) = 125" "sd_ptpDomain (on_the_wire 5 stage_session) = 3" by code_simp+
  then show ?thesis using wf sdp_generate_parse [OF wf, of 5] by simp
qed

end
