(* ===== verification/SDP_Sessions.thy ===== *)
theory SDP_Sessions
  imports SDP_Roundtrip
begin

text \<open>
  What every accepted session description satisfies, which numbers of a media line are taken, and
  the operations on sessions: naming the own source and the conversion to and from stream records.
\<close>

interpretation sdp_text: codec "\<lambda>s. wf_sdp s \<and> on_the_wire now s = s" "generate now" parseString Some for now
  by unfold_locales (auto simp: wire_parse)

section \<open>What a parsed session satisfies\<close>

lemma to_double_tiny:
  assumes "0 < x" "x < 2 powi (- 1022)"
  shows "\<bar>to_double x - x\<bar> \<le> 1 / 8"
proof -
  have "(2::rat) powi (- 1022) \<le> 2 powi (binade x)" if "- 1022 \<le> binade x" using that by (intro power_int_increasing) simp_all
  then have "binade x < - 1022" using binade_le [OF assms(1)] assms(2) by (meson not_le order_trans)
  then have d: "to_double x = of_int (round_even (x / 2 powi (- 1074))) * 2 powi (- 1074)"
    using assms(1) by (simp add: to_double_def max_def)
  define u :: rat where "u = 2 powi (- 1074)"
  have u: "0 < u" "u \<le> 1 / 4" by (simp_all add: u_def power_int_minus field_simps)
  have "\<bar>to_double x - x\<bar> = \<bar>of_int (round_even (x / u)) - x / u\<bar> * u"
    using u(1) unfolding d u_def [symmetric] by (simp add: abs_if field_simps)
  also have "\<dots> \<le> 1 / 2 * u" using u(1) round_even_error [of "x / u"] by (intro mult_right_mono) auto
  finally show ?thesis using u(2) by simp
qed

lemma lround_ptime:
  assumes "0 < ms" "ms \<le> 1000"
  shows "0 \<le> lround (to_double (ms * 1000)) \<and> lround (to_double (ms * 1000)) \<le> 1000000"
proof -
  let ?x = "ms * 1000"
  have x: "0 < ?x" "?x \<le> 1000000" using assms by simp_all
  have e: "\<bar>to_double ?x - ?x\<bar> \<le> 1 / 8"
  proof (cases "?x < 2 powi (- 1022)")
    case False
    then have "\<bar>to_double ?x - ?x\<bar> \<le> ?x / 2 ^ 53" using to_double_error [of ?x] x(1) by simp
    moreover have "?x / 2 ^ 53 \<le> 1 / 8" using x(2) by simp
    ultimately show ?thesis by linarith
  qed (use to_double_tiny [OF x(1)] in simp)
  then have "- (1 / 8) \<le> to_double ?x" "to_double ?x \<le> 1000000 + 1 / 8" using x by linarith+
  then show ?thesis by (simp add: lround_def) linarith
qed

text \<open>The properties of a session that every line keeps.\<close>

definition free_key :: "string \<Rightarrow> bool" where
  "free_key k \<longleftrightarrow> \<not> is_direction k \<and>
     k \<notin> {''rtpmap'', ''ptime'', ''framecount'', ''source-filter'', ''ts-refclk'', ''mediaclk''}"

definition free_keys :: "(string, string) stdmap \<Rightarrow> bool" where
  "free_keys m \<longleftrightarrow> (\<forall>k\<in>fst ` set m. free_key k)"

lemma free_keys_put [simp]: "free_key k \<Longrightarrow> free_keys m \<Longrightarrow> free_keys (map_put k v m)"
  by (simp add: free_keys_def set_map_put)

definition parsed_inv :: "sdp_session \<Rightarrow> bool" where
  "parsed_inv s \<longleftrightarrow> sd_payloadType s \<le> 127 \<and> sd_ptimeUs s \<le> 1000000 \<and> sd_dscp s = - 1 \<and>
     is_direction (sd_direction s) \<and> sorted_map (sd_customAttributes s) \<and>
     free_keys (sd_customAttributes s)"

lemma parsed_default: "parsed_inv sdp_default"
  by (simp add: parsed_inv_def sdp_default_def is_direction_def free_keys_def)

lemma caught_Some: "caught r = Some v \<longleftrightarrow> r = Inr v"
  by (cases r) auto

lemma ptime_line_inv:
  assumes "parsed_inv s" "parsePTimeAttribute v s = Some s'"
  shows "parsed_inv s'"
proof -
  obtain ms where ms: "0 < ms" "ms \<le> 1000" "s' = s\<lparr>sd_ptimeUs := of_int (lround (to_double (ms * 1000)))\<rparr>"
    using assms(2) by (auto simp: parsePTimeAttribute_def split: sum.splits double_val.splits if_splits)
  define n where "n = lround (to_double (ms * 1000))"
  have "0 \<le> n \<and> n \<le> 1000000" unfolding n_def using lround_ptime [OF ms(1,2)] .
  then have "(of_int n :: u32) \<le> 1000000" by (simp add: word_le_def uint_word_of_int_eq take_bit_int_eq_self)
  then show ?thesis using assms(1) unfolding ms(3) n_def [symmetric] by (simp add: parsed_inv_def)
qed

lemma media_line_inv:
  assumes "parsed_inv s" "parseMediaLine v s = Some s'"
  shows "parsed_inv s'"
proof -
  have "(of_int n :: u8) \<le> 127" if "0 \<le> n" "n \<le> 127" for n :: int
    using that by (simp add: word_le_def uint_word_of_int_eq take_bit_int_eq_self)
  then show ?thesis using assms
    by (auto simp: parseMediaLine_def parsed_inv_def Let_def caught_Some split: if_splits bind_splits)
qed

lemma attribute_line_inv:
  assumes "parsed_inv s" "parseAttributeLine v s = Some s'"
  shows "parsed_inv s'"
proof -
  obtain a w where aw: "(case cut_first (CHR '':'') v of Some av \<Rightarrow> av | None \<Rightarrow> (v, [])) = (a, w)" by force
  note p = assms(2) [unfolded parseAttributeLine_def aw Let_def prod.case]
  consider "a = ''rtpmap''" | "a = ''ptime''" | "free_key a" | "\<not> free_key a" "a \<notin> {''rtpmap'', ''ptime''}" by auto
  then show ?thesis
  proof cases
    case 1
    then show ?thesis using p assms(1)
      by (auto simp: parseRTPMapAttribute_def parsed_inv_def Let_def split: if_splits bind_splits)
  next
    case 2
    then show ?thesis using p assms(1) ptime_line_inv by auto
  next
    case 3
    then have "s' = s\<lparr>sd_customAttributes := map_put a w (sd_customAttributes s)\<rparr>" using p by (simp add: free_key_def)
    then show ?thesis using assms(1) 3 by (simp add: parsed_inv_def sorted_map_put)
  next
    case 4
    then show ?thesis using p assms(1)
      by (auto simp: free_key_def parseFrameCountAttribute_def parseSourceFilterAttribute_def parsePTPRefClockAttribute_def parse_gmid_def
        parseMediaClockAttribute_def parsed_inv_def Let_def split: if_splits bind_splits option.splits)
  qed
qed

lemma line_inv:
  assumes "parsed_inv s" "parse_line l s = Some s'"
  shows "parsed_inv s'"
proof -
  have keep: "parsed_inv s'" if "sd_payloadType s' = sd_payloadType s" "sd_ptimeUs s' = sd_ptimeUs s" "sd_dscp s' = sd_dscp s"
    "sd_direction s' = sd_direction s" "sd_customAttributes s' = sd_customAttributes s"
    using that assms(1) by (simp add: parsed_inv_def)
  consider "parseMediaLine (drop 2 l) s = Some s'" | "parseAttributeLine (drop 2 l) s = Some s'"
    | "parseOriginLine (drop 2 l) s = Some s' \<or> parseConnectionLine (drop 2 l) s = Some s' \<or> parseTimingLine (drop 2 l) s = Some s'"
    | "s' = s \<or> s' = s\<lparr>sd_sessionName := trim (drop 2 l)\<rparr> \<or> s' = s\<lparr>sd_sessionInfo := trim (drop 2 l)\<rparr>"
    using assms(2) unfolding parse_line_def Let_def by (auto split: if_splits)
  then show ?thesis
  proof cases
    case 3
    then show ?thesis
      by (intro keep) (auto simp: parseOriginLine_def parseConnectionLine_def parseTimingLine_def Let_def
        split: if_splits bind_splits option.splits)
  next
    case 4
    then show ?thesis using keep by (elim disjE) simp_all
  qed (use assms(1) in \<open>blast intro: media_line_inv attribute_line_inv\<close>)+
qed

lemma lines_inv: "parsed_inv s \<Longrightarrow> parse_lines ls s = Some s' \<Longrightarrow> parsed_inv s'"
  by (induction ls s rule: parse_lines.induct) (auto simp: line_inv split: bind_splits)

text \<open>
  C20: Whatever text arrives, an accepted description is a session the rest of the program can use: it has
  a name, a connection address, a port, one of the three encodings, a sample rate and channels; its
  payload type fits RTP's seven bits, its packet time is at most a second, its direction is one of the
  four, its attributes are sorted and none of them shadows one the parser knows.
\<close>

theorem sdp_parsed_valid:
  assumes "parseString text = Some s"
  shows "sdp_isValid s \<and> parsed_inv s"
  using assms lines_inv [OF parsed_default] by (auto simp: parseString_def split: bind_splits if_splits)

theorem sdp_parsed_valid_witness:
  "sdp_isValid (on_the_wire 5 stage_session) \<and> parsed_inv (on_the_wire 5 stage_session)"
proof -
  have "wf_sdp stage_session" by code_simp
  then show ?thesis using sdp_parsed_valid [OF wire_parse] by blast
qed

section \<open>Numbers of the media line\<close>

lemma token_decimal_int [simp]: "token (decimal_int n)" "decimal_int n \<noteq> []"
proof -
  have "token (CHR ''-'' # d) \<longleftrightarrow> token d" for d by (simp add: token_def is_space_def code_def)
  then show "token (decimal_int n)" "decimal_int n \<noteq> []" by (simp_all add: decimal_int_def)
qed

lemma stoi_decimal_int:
  "stoi (decimal_int n) = (if - (2 ^ 31) \<le> n \<and> n < 2 ^ 31 then Inr n else Inl OutOfRange)"
proof (cases "n < 0")
  case True
  obtain c cs where c: "decimal (nat (- n)) = c # cs" "is_digit c" using decimal_hd by blast
  have "scan_number 10 (CHR ''-'' # decimal (nat (- n))) = Some (True, nat (- n), [])"
    using read_digits_decimal [of 0 "nat (- n)" "[]"] digit_facts [OF c(2)]
    by (simp add: scan_number_def skip_sign_def is_space_def code_def starts_with_digit_def c(1))
  then show ?thesis using True by (auto simp: stoi_def decimal_int_def)
next
  case False
  then show ?thesis using scan_decimal [of "[]" "nat n"] by (auto simp: stoi_def decimal_int_def)
qed

text \<open>
  A media line whose port and payload type are written as numbers is accepted exactly when the port
  fits sixteen bits and the payload type RTP's seven, and then the stored values are those numbers:
  nothing wraps.
\<close>

theorem sdp_media_exact:
  "parseMediaLine (''audio '' @ decimal_int port @ '' RTP/AVP '' @ decimal_int pt) s =
     (if 0 \<le> port \<and> port \<le> 65535 \<and> 0 \<le> pt \<and> pt \<le> 127
      then Some (s\<lparr>sd_mediaType := ''audio'', sd_port := of_int port, sd_transport := ''RTP/AVP'',
                   sd_payloadType := of_int pt\<rparr>) else None) \<and>
   (\<forall>s'. parseMediaLine (''audio '' @ decimal_int port @ '' RTP/AVP '' @ decimal_int pt) s = Some s' \<longrightarrow>
      uint (sd_port s') = port \<and> uint (sd_payloadType s') = pt)"
proof -
  have w: "token ''audio''" "token ''RTP/AVP''" by (simp_all add: token_def is_space_def code_def)
  have sp: "splitString (''audio '' @ decimal_int port @ '' RTP/AVP '' @ decimal_int pt) (CHR '' '') =
      [''audio'', decimal_int port, ''RTP/AVP'', decimal_int pt]"
    using splitString_append(1) [OF token_blank [OF w(1)], of "decimal_int port @ CHR '' '' # ''RTP/AVP'' @ CHR '' '' # decimal_int pt"]
      splitString_append(1) [OF token_blank [OF w(2)], of "decimal_int pt"] token_trim [OF w(1)] token_trim [OF w(2)]
    by simp
  have eq: "parseMediaLine (''audio '' @ decimal_int port @ '' RTP/AVP '' @ decimal_int pt) s =
     (if 0 \<le> port \<and> port \<le> 65535 \<and> 0 \<le> pt \<and> pt \<le> 127
      then Some (s\<lparr>sd_mediaType := ''audio'', sd_port := of_int port, sd_transport := ''RTP/AVP'',
                   sd_payloadType := of_int pt\<rparr>) else None)"
    unfolding parseMediaLine_def sp by (auto simp: stoi_decimal_int Let_def)
  moreover have "uint (of_int port :: u16) = port" if "0 \<le> port" "port \<le> 65535"
    using that by (simp add: uint_word_of_int_eq take_bit_int_eq_self)
  moreover have "uint (of_int pt :: u8) = pt" if "0 \<le> pt" "pt \<le> 127"
    using that by (simp add: uint_word_of_int_eq take_bit_int_eq_self)
  ultimately show ?thesis unfolding eq by (auto split: if_splits)
qed

theorem sdp_media_exact_witness:
  "parseMediaLine (''audio '' @ decimal_int 70000 @ '' RTP/AVP '' @ decimal_int 97) sdp_default = None \<and>
   (\<exists>s'. parseMediaLine (''audio '' @ decimal_int 5004 @ '' RTP/AVP '' @ decimal_int 97) sdp_default = Some s' \<and>
      uint (sd_port s') = 5004 \<and> uint (sd_payloadType s') = 97)"
proof
  show "parseMediaLine (''audio '' @ decimal_int 70000 @ '' RTP/AVP '' @ decimal_int 97) sdp_default = None"
    unfolding conjunct1 [OF sdp_media_exact [of 70000 97 sdp_default]] by simp
  show "\<exists>s'. parseMediaLine (''audio '' @ decimal_int 5004 @ '' RTP/AVP '' @ decimal_int 97) sdp_default = Some s' \<and>
      uint (sd_port s') = 5004 \<and> uint (sd_payloadType s') = 97"
    unfolding conjunct1 [OF sdp_media_exact [of 5004 97 sdp_default]] by simp
qed

text \<open>
  The TTL of a connection line has no such guard: it is stored modulo 256, and a packet time below
  half a microsecond is stored as zero although zero itself is refused.
\<close>

lemma sdp_ttl_wraps:
  "parseConnectionLine ''IN IP4 239.1.2.3/300'' s =
     Some (s\<lparr>sd_connectionType := ''IN'', sd_connectionNetwork := ''IP4'', sd_connectionAddress := ''239.1.2.3'', sd_ttl := 44\<rparr>)"
proof -
  have "splitString ''IN IP4 239.1.2.3/300'' (CHR '' '') = [''IN'', ''IP4'', ''239.1.2.3/300'']" by code_simp
  moreover have "cut_first (CHR ''/'') ''239.1.2.3/300'' = Some (''239.1.2.3'', ''300'')" by code_simp
  moreover have "stoi ''300'' = Inr 300" by code_simp
  ultimately show ?thesis by (simp add: parseConnectionLine_def)
qed

section \<open>Naming the own source\<close>

lemma first_part:
  assumes "isValidIPv4 ip"
  shows "\<exists>a r. cut_first (CHR ''.'') ip = Some (a, r) \<and> a \<noteq> [] \<and> list_all is_digit a \<and>
    a = takeWhile (\<lambda>c. c \<noteq> CHR ''.'') ip \<and> (\<exists>n. stoi a = Inr n)"
proof -
  obtain ps where ps: "ipv4_parts ip = Some ps" using assms by (auto simp: isValidIPv4_def split: option.splits)
  then have sp: "ps = split_on (CHR ''.'') ip" "length ps = 4"
    "\<forall>p\<in>set ps. 1 \<le> length p \<and> list_all is_digit p"
    by (auto simp: ipv4_parts_def Let_def list_all_iff split: if_splits)
  have dot: "CHR ''.'' \<in> set ip"
  proof (rule ccontr)
    assume "CHR ''.'' \<notin> set ip"
    then show False using sp(1,2) by (simp add: split_on_plain)
  qed
  let ?a = "takeWhile (\<lambda>c. c \<noteq> CHR ''.'') ip"
  obtain y r where y: "ip = y @ CHR ''.'' # r" "CHR ''.'' \<notin> set y" using split_list_first [OF dot] by blast
  have "hd ps = ?a" unfolding sp(1) y(1) using y(2) by (simp add: split_on_append takeWhile_until)
  moreover have "ps \<noteq> []" using sp(2) by auto
  ultimately have a: "?a \<in> set ps" by (metis hd_in_set)
  then have "?a \<noteq> []" "list_all is_digit ?a" "\<exists>n. stoi ?a = Inr n"
    using sp(3) octet_no_throw [OF ps a] by auto
  then show ?thesis using dot by (simp add: cut_first_def)
qed

text \<open>
  On a destination that is an IPv4 address, \<open>nameOwnSource\<close> never throws and agrees with the
  program's own classification of addresses: the source becomes the origin exactly when the
  destination is multicast, the source was unnamed and the origin is known.
\<close>

theorem own_source_multicast:
  assumes "isValidIPv4 (sd_connectionAddress s)"
  shows "nameOwnSource s =
    Inr (if isMulticastIP (sd_connectionAddress s) \<and> sd_sourceAddress s = [] \<and> sd_originAddress s \<noteq> []
         then s\<lparr>sd_sourceAddress := sd_originAddress s\<rparr> else s)"
proof -
  obtain a r n where a: "cut_first (CHR ''.'') (sd_connectionAddress s) = Some (a, r)" "a \<noteq> []" "list_all is_digit a"
    "a = takeWhile (\<lambda>c. c \<noteq> CHR ''.'') (sd_connectionAddress s)" "stoi a = Inr n"
    using first_part [OF assms] by blast
  have "CHR ''.'' \<in> set (sd_connectionAddress s)" using a(1) by (simp add: cut_first_def split: if_splits)
  then have "isMulticastIP (sd_connectionAddress s) \<longleftrightarrow> 224 \<le> n \<and> n \<le> 239"
    using assms a(5) by (simp add: isMulticastIP_def first_octet_def flip: a(4))
  then show ?thesis using a by (auto simp: nameOwnSource_def)
qed

theorem own_source_multicast_witness:
  "isValidIPv4 (sd_connectionAddress (stage_session\<lparr>sd_sourceAddress := []\<rparr>)) \<and>
   nameOwnSource (stage_session\<lparr>sd_sourceAddress := []\<rparr>) = Inr (stage_session\<lparr>sd_sourceAddress := ''10.0.0.5''\<rparr>)"
proof -
  have v: "isValidIPv4 (sd_connectionAddress (stage_session\<lparr>sd_sourceAddress := []\<rparr>))" by code_simp
  have m: "isMulticastIP (sd_connectionAddress (stage_session\<lparr>sd_sourceAddress := []\<rparr>))" by code_simp
  have o': "sd_originAddress stage_session = ''10.0.0.5''" by code_simp
  show ?thesis using v m o' own_source_multicast [OF v] by simp
qed

section \<open>Sessions and streams\<close>

text \<open>
  A stream that is written as a session and read back as a stream keeps everything a description
  can say of it: name, description, addresses, TTL, format, payload type, timing and clock. Linear
  PCM keeps its encoding; any other encoding comes back as L24.
\<close>

theorem stream_session_roundtrip:
  "let back = toStreamInfo i (fromStreamInfo now info) in
   si_name back = si_name info \<and> si_description back = si_description info \<and>
   na_ip (si_source back) = na_ip (si_source info) \<and> si_multicast back = si_multicast info \<and>
   si_encoding back = (if si_encoding info = L16 then L16 else L24) \<and>
   si_sampleRate back = si_sampleRate info \<and> si_numChannels back = si_numChannels info \<and>
   si_payloadType back = si_payloadType info \<and> si_ptime back = si_ptime info \<and>
   si_framecount back = si_framecount info \<and> ptp_domain (si_ptp back) = ptp_domain (si_ptp info) \<and>
   ptp_masterMAC (si_ptp back) = ptp_masterMAC (si_ptp info) \<and>
   ptp_enabled (si_ptp back) = (0 \<le> ptp_domain (si_ptp info))"
  by (cases "si_encoding info") (simp_all add: toStreamInfo_def fromStreamInfo_def sdp_default_def)

end
