(* ===== verification/SAP.thy ===== *)
theory SAP
  imports SDP_Sessions
begin

text \<open>
  Session announcements (RFC 2974) of the macOS driver: the parser and the session list of
  \<open>src/packages/aes67-macos-driver/NetworkEngine/Discovery/SAPListener.cpp\<close> and the sender of \<open>SAPAnnouncer.cpp\<close>. Sockets are
  not modelled: a datagram is a list of bytes and the address it came from. A read outside the datagram makes the
  parser \<open>None\<close>. Times of the steady clock are in nanoseconds. The order in which \<open>std::unordered_map\<close> is walked
  is not specified and is an argument.
\<close>

section \<open>An announcement\<close>

record sap_announcement =
  ann_description :: string
  ann_source :: string
  ann_name :: string
  ann_multicast :: string
  ann_port :: int
  ann_ptpDomain :: int
  ann_lastSeen :: int
  ann_isDeletion :: bool
  ann_hash :: u16
  ann_origin :: u32

definition sap_blank :: "int \<Rightarrow> string \<Rightarrow> sap_announcement" where
  "sap_blank now source = \<lparr>ann_description = [], ann_source = source, ann_name = [], ann_multicast = [], ann_port = 0,
     ann_ptpDomain = 0, ann_lastSeen = now, ann_isDeletion = False, ann_hash = 0, ann_origin = 0\<rparr>"

section \<open>Reading the description\<close>

definition connectionAddress :: "string \<Rightarrow> string" where
  "connectionAddress line = (case cut_last (CHR '' '') line of
       None \<Rightarrow> []
     | Some (before, address) \<Rightarrow> takeWhile (\<lambda>c. c \<noteq> CHR ''/'') address)"

definition media_port :: "string \<Rightarrow> sap_announcement \<Rightarrow> sap_announcement" where
  "media_port line a = (case cut_first (CHR '' '') (drop 2 line) of
       None \<Rightarrow> a
     | Some (media, rest) \<Rightarrow> (case cut_first (CHR '' '') rest of
           None \<Rightarrow> a
         | Some (portStr, others) \<Rightarrow> a\<lparr>ann_port := (case stoi portStr of Inl e \<Rightarrow> 0 | Inr n \<Rightarrow> n)\<rparr>))"

definition parseSDPLine :: "string \<Rightarrow> sap_announcement \<Rightarrow> sap_announcement" where
  "parseSDPLine line a =
     (if take 2 line = ''s='' then a\<lparr>ann_name := drop 2 line\<rparr>
      else if take 2 line = ''c='' then a\<lparr>ann_multicast := connectionAddress line\<rparr>
      else if take 2 line = ''m='' then media_port line a
      else a)"

definition sap_lines :: "string \<Rightarrow> string list" where
  "sap_lines sdp = map (\<lambda>line. if line \<noteq> [] \<and> last line = CHR 0x0D then butlast line else line)
     (getline_parts (CHR 0x0A) sdp)"

definition parseSDPInfo :: "string \<Rightarrow> sap_announcement \<Rightarrow> sap_announcement" where
  "parseSDPInfo sdp a = fold parseSDPLine (sap_lines sdp) a"

section \<open>Reading a datagram\<close>

definition sap_identity :: "byte_list \<Rightarrow> sap_announcement \<Rightarrow> sap_announcement option" where
  "sap_identity data a =
     (if 8 \<le> length data
      then do { h \<leftarrow> read16 data 2; source \<leftarrow> read32 data 4; Some (a\<lparr>ann_hash := h, ann_origin := source\<rparr>) }
      else Some a)"

fun memchr_nul :: "byte_list \<Rightarrow> nat option" where
  "memchr_nul [] = None"
| "memchr_nul (b # bs) = (if b = 0 then Some 0 else map_option Suc (memchr_nul bs))"

text \<open>Where the description starts; \<open>Some None\<close> when the datagram is left alone.\<close>

definition sap_body :: "byte_list \<Rightarrow> nat option option" where
  "sap_body data = do {
     authLen \<leftarrow> byte_at data 1;
     let start = 8 + unat authLen * 4;
     if start \<ge> length data \<or> length data - start < 5 then Some None
     else do {
       c0 \<leftarrow> byte_at data start;
       c1 \<leftarrow> byte_at data (start + 1);
       if c0 \<noteq> 0x76 \<or> c1 \<noteq> 0x3D
       then (case memchr_nul (take (min (length data - start) 64) (drop start data)) of
                None \<Rightarrow> Some (Some start)
              | Some typeLen \<Rightarrow> if length data - (start + typeLen + 1) < 5 then Some None
                               else Some (Some (start + typeLen + 1)))
       else Some (Some start)
     }
   }"

definition kMinSAPHeaderSize :: nat where "kMinSAPHeaderSize = 4"
definition kMaxSAPPacketSize :: nat where "kMaxSAPPacketSize = 4096"

definition parseAnnouncement :: "int \<Rightarrow> byte_list \<Rightarrow> string \<Rightarrow> sap_announcement option" where
  "parseAnnouncement now data source =
     (let a0 = sap_blank now source in
      if length data < kMinSAPHeaderSize \<or> length data > kMaxSAPPacketSize then Some a0
      else do {
        sapHeader \<leftarrow> byte_at data 0;
        if drop_bit 5 sapHeader AND 0x07 \<noteq> 1 then Some a0
        else do {
          a1 \<leftarrow> sap_identity data (a0\<lparr>ann_isDeletion := (drop_bit 2 sapHeader AND 0x01 \<noteq> 0)\<rparr>);
          if drop_bit 1 sapHeader AND 0x01 \<noteq> 0 \<or> sapHeader AND 0x01 \<noteq> 0 then Some a1
          else if ann_isDeletion a1 then Some a1
          else do {
            body \<leftarrow> sap_body data;
            (case body of
               None \<Rightarrow> Some a1
             | Some start \<Rightarrow>
                 (let sdpContent = bytes_string (drop start data) in
                  if str_find ''v=0'' sdpContent = None then Some a1
                  else Some (parseSDPInfo sdpContent (a1\<lparr>ann_description := sdpContent\<rparr>))))
          }
        }
      })"

section \<open>The list of sessions\<close>

definition kSessionTimeout :: int where "kSessionTimeout = 300 * 1000000000"

definition sameSession :: "sap_announcement \<Rightarrow> sap_announcement \<Rightarrow> bool" where
  "sameSession a b =
     (if ann_hash a \<noteq> 0 \<and> ann_hash b \<noteq> 0 then ann_hash a = ann_hash b \<and> ann_origin a = ann_origin b
      else ann_name a \<noteq> [] \<and> ann_name a = ann_name b \<and> ann_source a = ann_source b)"

definition erase_oldest :: "sap_announcement list \<Rightarrow> sap_announcement list" where
  "erase_oldest xs = erase_first (\<lambda>s. list_all (\<lambda>t. ann_lastSeen s \<le> ann_lastSeen t) xs) xs"

definition kMaxDiscovered :: nat where "kMaxDiscovered = 50"

text \<open>One announcement or deletion filed under the lock; the flag is \<open>isNew\<close>.\<close>

definition file_announcement ::
  "sap_announcement \<Rightarrow> sap_announcement list \<Rightarrow> sap_announcement list \<times> bool" where
  "file_announcement a streams =
     (let known = list_ex (\<lambda>s. sameSession s a) streams in
      if ann_isDeletion a then (if known then erase_first (\<lambda>s. sameSession s a) streams else streams, False)
      else if known then (assign_first (\<lambda>s. sameSession s a) a streams, False)
      else (let longer = streams @ [a] in
            (if length longer > kMaxDiscovered then erase_oldest longer else longer, True)))"

text \<open>One round of the receive loop: at most 2047 bytes of the datagram are read.\<close>

definition listen_step ::
  "int \<Rightarrow> string \<Rightarrow> byte_list \<Rightarrow> sap_announcement list \<Rightarrow> (sap_announcement list \<times> sap_announcement option) option" where
  "listen_step now source datagram streams =
     (let data = take 2047 datagram in
      if data = [] then Some (streams, None)
      else do {
        a \<leftarrow> parseAnnouncement now data source;
        if ann_description a \<noteq> [] \<or> ann_isDeletion a
        then (case file_announcement a streams of
                (streams', isNew) \<Rightarrow> Some (streams', if isNew then Some a else None))
        else Some (streams, None)
      })"

definition getDiscoveredStreams :: "int \<Rightarrow> sap_announcement list \<Rightarrow> sap_announcement list" where
  "getDiscoveredStreams now streams = filter (\<lambda>s. \<not> now - ann_lastSeen s > kSessionTimeout) streams"

section \<open>Announcing\<close>

definition fnv_step :: "u32 \<Rightarrow> char \<Rightarrow> u32" where
  "fnv_step h c = (h XOR of_nat (code c)) * 16777619"

definition hashSdp :: "string \<Rightarrow> u16" where
  "hashSdp sdp = (let h = foldl fnv_step 2166136261 sdp in ucast (drop_bit 16 h XOR (h AND 0xFFFF)))"

text \<open>The four bytes of an address kept in network byte order, as a little-endian host stores it.\<close>

definition memory_bytes :: "u32 \<Rightarrow> byte_list" where
  "memory_bytes w = [ucast w, ucast (drop_bit 8 w), ucast (drop_bit 16 w), ucast (drop_bit 24 w)]"

definition kPayloadType :: string where "kPayloadType = ''application/sdp''"

definition sap_buildPacket :: "string \<Rightarrow> u16 \<Rightarrow> u32 \<Rightarrow> bool \<Rightarrow> byte_list" where
  "sap_buildPacket sdp msgIdHash originatingSource deletion =
     [if deletion then 0x20 OR 0x04 else 0x20, 0,
      ucast (drop_bit 8 msgIdHash AND 0xFF), ucast (msgIdHash AND 0xFF)] @
     memory_bytes originatingSource @ string_bytes kPayloadType @ [0] @ string_bytes sdp"

definition kSapGroups :: "string list" where "kSapGroups = [''224.2.127.254'', ''239.255.255.255'']"

record sap_announcer =
  an_open :: bool
  an_origin :: u32
  announced :: "(string \<times> u16) list"

text \<open>One datagram to each group.\<close>

definition sendPacket :: "sap_announcer \<Rightarrow> bool \<Rightarrow> string \<times> u16 \<Rightarrow> (string \<times> byte_list) list" where
  "sendPacket st deletion kv =
     (if \<not> an_open st then []
      else map (\<lambda>group. (group, sap_buildPacket (fst kv) (snd kv) (an_origin st) deletion)) kSapGroups)"

definition emplace :: "'k \<Rightarrow> 'v \<Rightarrow> ('k \<times> 'v) list \<Rightarrow> ('k \<times> 'v) list" where
  "emplace k v m = (if map_of m k = None then m @ [(k, v)] else m)"

definition still_present :: "(string \<times> u16) list \<Rightarrow> string list \<Rightarrow> (string \<times> u16) list" where
  "still_present old current =
     foldl (\<lambda>m sdp. if sdp = [] then m
        else emplace sdp (case map_of old sdp of Some h \<Rightarrow> h | None \<Rightarrow> hashSdp sdp) m) [] current"

type_synonym map_order = "(string \<times> u16) list \<Rightarrow> (string \<times> u16) list"

definition refreshAndAnnounce ::
  "map_order \<Rightarrow> string list \<Rightarrow> sap_announcer \<Rightarrow> (string \<times> byte_list) list \<times> sap_announcer" where
  "refreshAndAnnounce ord current st =
     (let stillPresent = still_present (announced st) current;
          gone = filter (\<lambda>kv. map_of stillPresent (fst kv) = None) (ord (announced st))
      in (concat (map (sendPacket st True) gone) @ concat (map (sendPacket st False) (ord stillPresent)),
          st\<lparr>announced := stillPresent\<rparr>))"

definition announcer_stop :: "map_order \<Rightarrow> sap_announcer \<Rightarrow> (string \<times> byte_list) list \<times> sap_announcer" where
  "announcer_stop ord st =
     (concat (map (sendPacket st True) (ord (announced st))), st\<lparr>announced := [], an_open := False\<rparr>)"

section \<open>The parser stays inside the datagram\<close>

lemma sap_body_total: "2 \<le> length data \<Longrightarrow> \<exists>r. sap_body data = Some r"
  by (auto simp: sap_body_def Let_def split: option.split)

lemma parse_total: "parseAnnouncement now data source \<noteq> None"
proof (cases "length data < kMinSAPHeaderSize")
  case False
  then have l: "4 \<le> length data" by (simp add: kMinSAPHeaderSize_def)
  have h: "byte_at data 0 = Some (data ! 0)" using l by (intro byte_at_in) auto
  obtain a1 where "sap_identity data ((sap_blank now source)\<lparr>ann_isDeletion := (drop_bit 2 (data ! 0) AND 1 \<noteq> 0)\<rparr>) = Some a1"
    using l by (cases "8 \<le> length data") (simp_all add: sap_identity_def)
  moreover obtain r where "sap_body data = Some r" using sap_body_total l by fastforce
  ultimately show ?thesis using h
    by (auto simp: parseAnnouncement_def Let_def split: option.split)
qed (simp add: parseAnnouncement_def Let_def)

lemma listen_total: "listen_step now source datagram streams \<noteq> None"
  using parse_total [of now "take 2047 datagram" source]
  by (auto simp: listen_step_def Let_def Option.bind_eq_None_conv split: prod.split)

section \<open>What was built is read back\<close>

definition announceable :: "string \<Rightarrow> bool" where
  "announceable sdp \<longleftrightarrow> 5 \<le> length sdp \<and> length sdp \<le> 2023 \<and> str_find ''v=0'' sdp \<noteq> None"

definition sender_of :: "u32 \<Rightarrow> u32" where
  "sender_of w = be32 (ucast w) (ucast (drop_bit 8 w)) (ucast (drop_bit 16 w)) (ucast (drop_bit 24 w))"

lemma payload_type_bytes:
  "string_bytes kPayloadType = [97, 112, 112, 108, 105, 99, 97, 116, 105, 111, 110, 47, 115, 100, 112]"
  by (simp add: kPayloadType_def string_bytes_def code_def)

lemma built_bytes:
  "sap_buildPacket sdp h w d =
    [if d then 0x24 else 0x20, 0, ucast (drop_bit 8 h AND 0xFF), ucast (h AND 0xFF), ucast w, ucast (drop_bit 8 w),
     ucast (drop_bit 16 w), ucast (drop_bit 24 w),
     97, 112, 112, 108, 105, 99, 97, 116, 105, 111, 110, 47, 115, 100, 112, 0] @ string_bytes sdp"
  by (simp add: sap_buildPacket_def memory_bytes_def payload_type_bytes)

lemma built_length: "length (sap_buildPacket sdp h w d) = 24 + length sdp"
  by (simp add: built_bytes)

lemma hash_back: "be16 (ucast (drop_bit 8 h AND 0xFF)) (ucast (h AND 0xFF)) = h"
proof -
  have m: "(0xFF :: u16) = mask 8" by (simp add: mask_eq_exp_minus_1)
  show ?thesis unfolding be16_def m
    by (rule bit_word_eqI)
       (auto simp: bit_or_iff bit_push_bit_iff bit_and_iff bit_unsigned_iff bit_drop_bit_eq bit_mask_iff)
qed

lemma identity_built:
  "sap_identity (sap_buildPacket sdp h w d) a = Some (a\<lparr>ann_hash := h, ann_origin := sender_of w\<rparr>)"
  by (simp add: sap_identity_def built_length) (simp add: built_bytes hash_back sender_of_def)

lemma body_built: "5 \<le> length sdp \<Longrightarrow> sap_body (sap_buildPacket sdp h w False) = Some (Some 24)"
  by (simp add: sap_body_def built_length Let_def) (simp add: built_bytes)

lemma parse_built:
  assumes "announceable sdp"
  shows "parseAnnouncement now (sap_buildPacket sdp h w False) source =
    Some (parseSDPInfo sdp ((sap_blank now source)\<lparr>ann_description := sdp, ann_hash := h, ann_origin := sender_of w\<rparr>))"
proof -
  have b: "drop 24 (sap_buildPacket sdp h w False) = string_bytes sdp" "sap_buildPacket sdp h w False ! 0 = 0x20"
    by (simp_all add: built_bytes)
  have bits: "drop_bit 5 (0x20 :: u8) AND 7 = 1" "drop_bit 2 (0x20 :: u8) AND 1 = 0" "drop_bit 1 (0x20 :: u8) AND 1 = 0"
    "(0x20 :: u8) AND 1 = 0" by simp_all
  show ?thesis using assms bits
    by (auto simp: parseAnnouncement_def announceable_def built_length kMinSAPHeaderSize_def kMaxSAPPacketSize_def
        identity_built body_built b sap_blank_def Let_def)
qed

lemma parse_built_deletion:
  assumes "length sdp \<le> 2023"
  shows "parseAnnouncement now (sap_buildPacket sdp h w True) source =
    Some ((sap_blank now source)\<lparr>ann_isDeletion := True, ann_hash := h, ann_origin := sender_of w\<rparr>)"
proof -
  have b: "sap_buildPacket sdp h w True ! 0 = 0x24" by (simp add: built_bytes)
  have bits: "drop_bit 5 (0x24 :: u8) AND 7 = 1" "drop_bit 2 (0x24 :: u8) AND 1 = 1" "drop_bit 1 (0x24 :: u8) AND 1 = 0"
    "(0x24 :: u8) AND 1 = 0" by simp_all
  show ?thesis using assms bits
    by (simp add: parseAnnouncement_def built_length kMinSAPHeaderSize_def kMaxSAPPacketSize_def
        identity_built b sap_blank_def Let_def)
qed

lemma info_keeps:
  "ann_description (parseSDPInfo sdp a) = ann_description a" "ann_hash (parseSDPInfo sdp a) = ann_hash a"
  "ann_origin (parseSDPInfo sdp a) = ann_origin a" "ann_lastSeen (parseSDPInfo sdp a) = ann_lastSeen a"
  "ann_isDeletion (parseSDPInfo sdp a) = ann_isDeletion a" "ann_source (parseSDPInfo sdp a) = ann_source a"
proof -
  have "ann_description (fold parseSDPLine ls a) = ann_description a \<and> ann_hash (fold parseSDPLine ls a) = ann_hash a \<and>
      ann_origin (fold parseSDPLine ls a) = ann_origin a \<and> ann_lastSeen (fold parseSDPLine ls a) = ann_lastSeen a \<and>
      ann_isDeletion (fold parseSDPLine ls a) = ann_isDeletion a \<and> ann_source (fold parseSDPLine ls a) = ann_source a" for ls
    by (induction ls arbitrary: a) (auto simp: parseSDPLine_def media_port_def split: option.split prod.split)
  then show "ann_description (parseSDPInfo sdp a) = ann_description a" "ann_hash (parseSDPInfo sdp a) = ann_hash a"
    "ann_origin (parseSDPInfo sdp a) = ann_origin a" "ann_lastSeen (parseSDPInfo sdp a) = ann_lastSeen a"
    "ann_isDeletion (parseSDPInfo sdp a) = ann_isDeletion a" "ann_source (parseSDPInfo sdp a) = ann_source a"
    by (simp_all add: parseSDPInfo_def)
qed

section \<open>The list under announcements and deletions\<close>

lemma erase_first_cong: "(\<And>x. x \<in> set xs \<Longrightarrow> P x = Q x) \<Longrightarrow> erase_first P xs = erase_first Q xs"
  by (induction xs) auto

lemma assign_first_cong: "(\<And>x. x \<in> set xs \<Longrightarrow> P x = Q x) \<Longrightarrow> assign_first P v xs = assign_first Q v xs"
  by (induction xs) auto

lemma erase_first_key:
  "distinct (map f xs) \<Longrightarrow> erase_first (\<lambda>s. f s = k) xs = filter (\<lambda>s. f s \<noteq> k) xs"
  by (induction xs) (auto simp: image_iff intro!: filter_id_conv [THEN iffD2, symmetric])

lemma assign_first_key:
  "distinct (map f xs) \<Longrightarrow> assign_first (\<lambda>s. f s = k) v xs = map (\<lambda>s. if f s = k then v else s) xs"
  by (induction xs) (auto simp: image_iff intro!: map_idI [symmetric])

lemma assign_first_length [simp]: "length (assign_first P v xs) = length xs"
  by (induction xs) auto

lemma oldest_exists: "xs \<noteq> [] \<Longrightarrow> \<exists>s\<in>set xs. \<forall>t\<in>set xs. ann_lastSeen s \<le> ann_lastSeen t"
proof -
  assume "xs \<noteq> []"
  then have "Min (ann_lastSeen ` set xs) \<in> ann_lastSeen ` set xs" by (intro Min_in) auto
  then obtain s where "s \<in> set xs" "ann_lastSeen s = Min (ann_lastSeen ` set xs)" by auto
  then show ?thesis by (intro bexI [of _ s]) auto
qed

lemma erase_oldest_length: "xs \<noteq> [] \<Longrightarrow> length (erase_oldest xs) = length xs - 1"
  using oldest_exists [of xs] by (auto simp: erase_oldest_def erase_first_length list_ex_iff list_all_iff)

lemma erase_first_split:
  "list_ex P xs \<Longrightarrow> \<exists>us v vs. xs = us @ v # vs \<and> P v \<and> (\<forall>u\<in>set us. \<not> P u) \<and> erase_first P xs = us @ vs"
proof (induction xs)
  case (Cons x xs)
  show ?case
  proof (cases "P x")
    case False
    then obtain us v vs where "xs = us @ v # vs" "P v" "\<forall>u\<in>set us. \<not> P u" "erase_first P xs = us @ vs" using Cons by auto
    then have "x # xs = (x # us) @ v # vs \<and> P v \<and> (\<forall>u\<in>set (x # us). \<not> P u) \<and> erase_first P (x # xs) = (x # us) @ vs" using False by simp
    then show ?thesis by blast
  qed (auto intro: exI [of _ "[]"])
qed simp

lemma erase_oldest_split:
  assumes "xs \<noteq> []"
  shows "\<exists>us v vs. xs = us @ v # vs \<and> erase_oldest xs = us @ vs \<and> (\<forall>t\<in>set xs. ann_lastSeen v \<le> ann_lastSeen t) \<and>
    (\<forall>u\<in>set us. \<exists>t\<in>set xs. ann_lastSeen t < ann_lastSeen u)"
proof -
  have "list_ex (\<lambda>s. list_all (\<lambda>t. ann_lastSeen s \<le> ann_lastSeen t) xs) xs"
    using oldest_exists [OF assms] by (auto simp: list_ex_iff list_all_iff)
  from erase_first_split [OF this] show ?thesis by (auto simp: erase_oldest_def list_all_iff not_le)
qed

lemma file_bounded: "length L \<le> kMaxDiscovered \<Longrightarrow> length (fst (file_announcement a L)) \<le> kMaxDiscovered"
  by (auto simp: file_announcement_def Let_def erase_first_length erase_oldest_length)

section \<open>A listener that hears an announcer\<close>

text \<open>What the listener records for a body announced with a hash.\<close>

definition sap_entry :: "int \<Rightarrow> string \<Rightarrow> u32 \<Rightarrow> string \<times> u16 \<Rightarrow> sap_announcement" where
  "sap_entry now source w kv = parseSDPInfo (fst kv)
     ((sap_blank now source)\<lparr>ann_description := fst kv, ann_hash := snd kv, ann_origin := sender_of w\<rparr>)"

definition sap_key :: "sap_announcement \<Rightarrow> string \<times> u16" where
  "sap_key a = (ann_description a, ann_hash a)"

lemma sap_key_parts [simp]: "fst (sap_key a) = ann_description a" "snd (sap_key a) = ann_hash a"
  by (simp_all add: sap_key_def)

lemma sap_entry_fields [simp]:
  "ann_description (sap_entry now source w kv) = fst kv" "ann_hash (sap_entry now source w kv) = snd kv"
  "ann_origin (sap_entry now source w kv) = sender_of w" "ann_lastSeen (sap_entry now source w kv) = now"
  "\<not> ann_isDeletion (sap_entry now source w kv)" "sap_key (sap_entry now source w kv) = kv"
  by (simp_all add: sap_entry_def info_keeps sap_blank_def sap_key_def)

text \<open>
  The list holds exactly the bodies of \<open>B\<close>, each once, and those of \<open>F\<close> as they were announced at \<open>now\<close>.
\<close>

definition mirrors where
  "mirrors now source w B F L \<longleftrightarrow> sap_key ` set L = B \<and> distinct (map ann_hash L) \<and>
     (\<forall>a\<in>set L. ann_origin a = sender_of w \<and> ann_hash a \<noteq> 0) \<and>
     (\<forall>a\<in>set L. sap_key a \<in> F \<longrightarrow> a = sap_entry now source w (sap_key a))"

lemma mirrors_length: "mirrors now source w B F L \<Longrightarrow> length L = card B"
proof -
  assume m: "mirrors now source w B F L"
  then have "distinct (map sap_key L)"
    by (auto simp: mirrors_def distinct_map inj_on_def sap_key_def)
  then show ?thesis using m distinct_card [of "map sap_key L"] by (simp add: mirrors_def)
qed

lemma same_by_hash:
  assumes "mirrors now source w B F L" "ann_origin a = sender_of w" "ann_hash a \<noteq> 0" "s \<in> set L"
  shows "sameSession s a \<longleftrightarrow> ann_hash s = ann_hash a"
  using assms by (auto simp: mirrors_def sameSession_def)

lemma mirror_hash_key:
  assumes "mirrors now source w B F L" "inj_on snd (insert kv B)" "s \<in> set L"
  shows "sap_key s = kv \<longleftrightarrow> ann_hash s = snd kv"
proof -
  have "sap_key s \<in> insert kv B" using assms(1,3) by (auto simp: mirrors_def)
  from inj_on_eq_iff [OF assms(2) this, of kv] show ?thesis by (auto simp: sap_key_def)
qed

lemma file_mirrors:
  assumes m: "mirrors now source w B F L" and h: "snd kv \<noteq> 0" and inj: "inj_on snd (insert kv B)"
    and room: "card (insert kv B) \<le> kMaxDiscovered"
  shows "mirrors now source w (insert kv B) (insert kv F) (fst (file_announcement (sap_entry now source w kv) L))"
proof -
  let ?a = "sap_entry now source w kv"
  have same: "sameSession s ?a \<longleftrightarrow> ann_hash s = snd kv" if "s \<in> set L" for s
    using same_by_hash [OF m _ _ that, of ?a] h by simp
  note hash_key = mirror_hash_key [OF m inj]
  show ?thesis
  proof (cases "list_ex (\<lambda>s. sameSession s ?a) L")
    case True
    then obtain s0 where s0: "s0 \<in> set L" "ann_hash s0 = snd kv" using same by (auto simp: list_ex_iff)
    then have B: "insert kv B = B" using hash_key m by (force simp: mirrors_def)
    have "assign_first (\<lambda>s. sameSession s ?a) ?a L = map (\<lambda>s. if ann_hash s = snd kv then ?a else s) L"
      using assign_first_cong [of L "\<lambda>s. sameSession s ?a" "\<lambda>s. ann_hash s = snd kv"] assign_first_key [of ann_hash L] same m
      by (simp add: mirrors_def)
    then have f: "fst (file_announcement ?a L) = map (\<lambda>s. if ann_hash s = snd kv then ?a else s) L" (is "_ = ?L")
      using True by (simp add: file_announcement_def)
    have hs: "map ann_hash ?L = map ann_hash L" by simp
    have ks: "map sap_key ?L = map sap_key L" by simp (metis hash_key)
    show ?thesis unfolding f B mirrors_def hs
      using m hash_key arg_cong [OF ks, of set] by (auto simp: mirrors_def h simp del: map_map)
  next
    case False
    then have new: "snd kv \<notin> ann_hash ` set L" using same by (auto simp: list_ex_iff)
    then have "kv \<notin> B" using m hash_key by (auto simp: mirrors_def)
    moreover have "finite B" using m by (auto simp: mirrors_def)
    ultimately have "length (L @ [?a]) \<le> kMaxDiscovered" using room mirrors_length [OF m] by simp
    then have f: "fst (file_announcement ?a L) = L @ [?a]" using False by (simp add: file_announcement_def Let_def)
    have "ann_hash s \<noteq> snd kv" if "s \<in> set L" for s using new that by (metis imageI)
    then show ?thesis unfolding f using m new h hash_key by (auto simp: mirrors_def)
  qed
qed

lemma file_deletion_mirrors:
  assumes m: "mirrors now source w B F L" and h: "snd kv \<noteq> 0" and inj: "inj_on snd (insert kv B)"
    and a: "ann_isDeletion a" "ann_hash a = snd kv" "ann_origin a = sender_of w"
  shows "mirrors now source w (B - {kv}) F (fst (file_announcement a L))"
proof -
  have same: "sameSession s a \<longleftrightarrow> ann_hash s = snd kv" if "s \<in> set L" for s
    using same_by_hash [OF m _ _ that, of a] h a by simp
  note hash_key = mirror_hash_key [OF m inj]
  have "erase_first (\<lambda>s. sameSession s a) L = filter (\<lambda>s. ann_hash s \<noteq> snd kv) L"
    using erase_first_cong [of L "\<lambda>s. sameSession s a" "\<lambda>s. ann_hash s = snd kv"] erase_first_key [of ann_hash L] same m
    by (simp add: mirrors_def)
  moreover have "filter (\<lambda>s. ann_hash s \<noteq> snd kv) L = L" if "\<not> list_ex (\<lambda>s. sameSession s a) L"
    using that same by (auto simp: list_ex_iff filter_id_conv)
  ultimately have f: "fst (file_announcement a L) = filter (\<lambda>s. ann_hash s \<noteq> snd kv) L"
    using a(1) by (simp add: file_announcement_def)
  also have "\<dots> = filter (\<lambda>s. sap_key s \<noteq> kv) L" using hash_key by (auto intro: filter_cong)
  finally show ?thesis using m by (auto simp: mirrors_def distinct_map_filter)
qed

section \<open>Rounds of announcements\<close>

text \<open>Every datagram of a round arrives, in the order it was sent, at the time \<open>now\<close>.\<close>

fun hear :: "int \<Rightarrow> string \<Rightarrow> (string \<times> byte_list) list \<Rightarrow> sap_announcement list \<Rightarrow> sap_announcement list option" where
  "hear now source [] L = Some L"
| "hear now source (d # ds) L = do { r \<leftarrow> listen_step now source (snd d) L; hear now source ds (fst r) }"

type_synonym sap_round = "int \<times> map_order \<times> string list"

fun sap_rounds ::
  "string \<Rightarrow> sap_round list \<Rightarrow> sap_announcer \<times> sap_announcement list \<Rightarrow> (sap_announcer \<times> sap_announcement list) option" where
  "sap_rounds source [] s = Some s"
| "sap_rounds source ((now, ord, current) # rs) (st, L) =
     (case refreshAndAnnounce ord current st of
        (sent, st') \<Rightarrow> do { L' \<leftarrow> hear now source sent L; sap_rounds source rs (st', L') })"

lemma hear_append: "hear now source (a @ b) L = Option.bind (hear now source a L) (hear now source b)"
proof (induction a arbitrary: L)
  case (Cons d a)
  then show ?case by (cases "listen_step now source (snd d) L") simp_all
qed simp

lemma listen_announcement:
  assumes "announceable (fst kv)"
  shows "listen_step now source (sap_buildPacket (fst kv) (snd kv) w False) L =
    (let a = sap_entry now source w kv; r = file_announcement a L in Some (fst r, if snd r then Some a else None))"
proof -
  have "fst kv \<noteq> []" using assms by (auto simp: announceable_def)
  moreover have "take 2047 (sap_buildPacket (fst kv) (snd kv) w False) = sap_buildPacket (fst kv) (snd kv) w False"
    using assms by (simp add: built_length announceable_def)
  moreover have "sap_buildPacket (fst kv) (snd kv) w False \<noteq> []" by (simp add: built_bytes)
  ultimately show ?thesis
    using assms by (simp add: listen_step_def parse_built sap_entry_def [symmetric] Let_def split: prod.split)
qed

lemma listen_deletion:
  assumes "length sdp \<le> 2023"
  shows "listen_step now source (sap_buildPacket sdp h w True) L =
    Some (fst (file_announcement ((sap_blank now source)\<lparr>ann_isDeletion := True, ann_hash := h, ann_origin := sender_of w\<rparr>) L), None)"
proof -
  have "take 2047 (sap_buildPacket sdp h w True) = sap_buildPacket sdp h w True" using assms by (simp add: built_length)
  moreover have "sap_buildPacket sdp h w True \<noteq> []" by (simp add: built_bytes)
  ultimately show ?thesis
    using assms by (simp add: listen_step_def parse_built_deletion file_announcement_def Let_def)
qed

text \<open>The bodies of a round that can be told apart on the wire.\<close>

definition sap_bodies :: "string list \<Rightarrow> (string \<times> u16) set" where
  "sap_bodies current = (\<lambda>sdp. (sdp, hashSdp sdp)) ` (set current - {[]})"

definition good_round :: "sap_round \<Rightarrow> bool" where
  "good_round r = (case r of (now, ord, current) \<Rightarrow>
     (\<forall>m. set (ord m) = set m) \<and> card (sap_bodies current) \<le> kMaxDiscovered \<and>
     (\<forall>sdp\<in>set current. sdp = [] \<or> announceable sdp \<and> hashSdp sdp \<noteq> 0))"

lemma hear_announcements:
  assumes "mirrors now source w B F L" "an_open st" "an_origin st = w"
    "\<forall>kv\<in>set kvs. announceable (fst kv) \<and> snd kv \<noteq> 0" "inj_on snd (B \<union> set kvs)" "card (B \<union> set kvs) \<le> kMaxDiscovered"
    "finite B"
  shows "\<exists>L'. hear now source (concat (map (sendPacket st False) kvs)) L = Some L' \<and>
    mirrors now source w (B \<union> set kvs) (F \<union> set kvs) L'"
  using assms
proof (induction kvs arbitrary: B F L)
  case (Cons kv kvs)
  have sub: "insert kv B \<subseteq> B \<union> set (kv # kvs)" by auto
  have i: "inj_on snd (insert kv B)" using Cons.prems(5) sub by (rule inj_on_subset)
  have c: "card (insert kv B) \<le> kMaxDiscovered"
    using card_mono [OF _ sub] Cons.prems(6,7) by simp
  have k: "announceable (fst kv)" "snd kv \<noteq> 0" using Cons.prems(4) by auto
  define L1 where "L1 = fst (file_announcement (sap_entry now source w kv) L)"
  define L2 where "L2 = fst (file_announcement (sap_entry now source w kv) L1)"
  have m1: "mirrors now source w (insert kv B) (insert kv F) L1"
    unfolding L1_def by (rule file_mirrors [OF Cons.prems(1) k(2) i c])
  have m2: "mirrors now source w (insert kv B) (insert kv F) L2"
    unfolding L2_def using file_mirrors [OF m1 k(2)] i c by (simp add: insert_absorb)
  have "hear now source (sendPacket st False kv) L = Some L2"
    using Cons.prems(2,3) listen_announcement [OF k(1), of now source w]
    by (simp add: sendPacket_def kSapGroups_def L1_def L2_def Let_def)
  moreover have "\<exists>L'. hear now source (concat (map (sendPacket st False) kvs)) L2 = Some L' \<and>
      mirrors now source w (insert kv B \<union> set kvs) (insert kv F \<union> set kvs) L'"
    using Cons.prems m2 by (intro Cons.IH) (auto simp: insert_commute)
  ultimately show ?case by (simp add: hear_append)
qed simp

lemma hear_deletions:
  assumes "mirrors now source w B F L" "an_open st" "an_origin st = w"
    "\<forall>kv\<in>set kvs. length (fst kv) \<le> 2023 \<and> snd kv \<noteq> 0" "inj_on snd (B \<union> set kvs)"
  shows "\<exists>L'. hear now source (concat (map (sendPacket st True) kvs)) L = Some L' \<and>
    mirrors now source w (B - set kvs) F L'"
  using assms
proof (induction kvs arbitrary: B L)
  case (Cons kv kvs)
  have i: "inj_on snd (insert kv B)" by (rule inj_on_subset [OF Cons.prems(5)]) auto
  have i2: "inj_on snd (insert kv (B - {kv}))" by (rule inj_on_subset [OF i]) auto
  have k: "length (fst kv) \<le> 2023" "snd kv \<noteq> 0" using Cons.prems(4) by auto
  let ?a = "(sap_blank now source)\<lparr>ann_isDeletion := True, ann_hash := snd kv, ann_origin := sender_of w\<rparr>"
  define L1 where "L1 = fst (file_announcement ?a L)"
  define L2 where "L2 = fst (file_announcement ?a L1)"
  have m1: "mirrors now source w (B - {kv}) F L1"
    unfolding L1_def by (rule file_deletion_mirrors [OF Cons.prems(1) k(2) i]) simp_all
  have m2: "mirrors now source w (B - {kv}) F L2"
    unfolding L2_def using file_deletion_mirrors [OF m1 k(2) i2, of ?a] by simp
  have "hear now source (sendPacket st True kv) L = Some L2"
    using Cons.prems(2,3) listen_deletion [OF k(1), of now source "snd kv" w]
    by (simp add: sendPacket_def kSapGroups_def L1_def L2_def)
  moreover have "\<exists>L'. hear now source (concat (map (sendPacket st True) kvs)) L2 = Some L' \<and>
      mirrors now source w (B - {kv} - set kvs) F L'"
    using Cons.prems m2 by (intro Cons.IH) (auto intro: inj_on_subset [OF Cons.prems(5)])
  ultimately show ?case by (simp add: hear_append Diff_insert2 [symmetric] Diff_insert [symmetric])
qed simp

lemma still_present_exact:
  assumes "set old \<subseteq> (\<lambda>sdp. (sdp, hashSdp sdp)) ` UNIV"
  shows "set (still_present old current) = sap_bodies current"
proof -
  have h: "(case map_of old sdp of None \<Rightarrow> hashSdp sdp | Some h \<Rightarrow> h) = hashSdp sdp" for sdp
    using assms by (auto split: option.split dest: map_of_SomeD)
  have "set (foldl (\<lambda>m sdp. if sdp = [] then m else emplace sdp (hashSdp sdp) m) m current) =
      set m \<union> sap_bodies current" if "\<forall>kv\<in>set m. snd kv = hashSdp (fst kv)" for m
    using that
  proof (induction current arbitrary: m)
    case (Cons sdp current)
    have e: "set (emplace sdp (hashSdp sdp) m) = insert (sdp, hashSdp sdp) (set m)" if "\<forall>kv\<in>set m. snd kv = hashSdp (fst kv)"
    proof (cases "map_of m sdp")
      case (Some h)
      then have "(sdp, h) \<in> set m" by (rule map_of_SomeD)
      then show ?thesis using that Some by (force simp: emplace_def)
    qed (simp add: emplace_def)
    show ?case
      using Cons.IH [of m] Cons.IH [of "emplace sdp (hashSdp sdp) m"] Cons.prems e [OF Cons.prems]
      by (auto simp: sap_bodies_def)
  qed (simp add: sap_bodies_def)
  from this [of "[]"] show ?thesis unfolding still_present_def h by simp
qed

lemma mirrors_fresh: "mirrors now source w B F L \<Longrightarrow> mirrors now' source w B {} L"
  by (simp add: mirrors_def)

lemma round_mirrors:
  assumes m: "mirrors now0 source w (sap_bodies old) F L" and a: "set (announced st) = sap_bodies old"
    and st: "an_open st" "an_origin st = w" and good: "good_round (now0, ord0, old)" "good_round (now, ord, current)"
    and inj: "inj_on hashSdp ((set old \<union> set current) - {[]})"
  shows "\<exists>L'. hear now source (fst (refreshAndAnnounce ord current st)) L = Some L' \<and>
      mirrors now source w (sap_bodies current) (sap_bodies current) L'"
    and "set (announced (snd (refreshAndAnnounce ord current st))) = sap_bodies current"
proof -
  let ?still = "still_present (announced st) current"
  have s: "set ?still = sap_bodies current" using a by (intro still_present_exact) (auto simp: sap_bodies_def)
  then show "set (announced (snd (refreshAndAnnounce ord current st))) = sap_bodies current"
    by (simp add: refreshAndAnnounce_def Let_def)
  have o: "set (ord m) = set m" for m using good(2) by (simp add: good_round_def)
  define gone where "gone = filter (\<lambda>kv. map_of ?still (fst kv) = None) (ord (announced st))"
  have g: "set gone = sap_bodies old - sap_bodies current"
    using a s by (auto simp: gone_def o map_of_eq_None_iff sap_bodies_def image_iff)
  have i: "inj_on snd (sap_bodies old \<union> sap_bodies current)"
    using inj by (auto simp: inj_on_def sap_bodies_def)
  have "\<forall>kv\<in>set gone. length (fst kv) \<le> 2023 \<and> snd kv \<noteq> 0"
    using good(1) unfolding g by (auto simp: sap_bodies_def good_round_def announceable_def)
  moreover have "inj_on snd (sap_bodies old \<union> set gone)" unfolding g by (rule inj_on_subset [OF i]) auto
  ultimately obtain L1 where L1: "hear now source (concat (map (sendPacket st True) gone)) L = Some L1"
      "mirrors now source w (sap_bodies old \<inter> sap_bodies current) {} L1"
    using hear_deletions [OF mirrors_fresh [OF m] st, of gone now] g
    by (auto simp: Diff_Diff_Int)
  have "\<forall>kv\<in>set (ord ?still). announceable (fst kv) \<and> snd kv \<noteq> 0"
    using good(2) unfolding o s by (auto simp: sap_bodies_def good_round_def)
  moreover have "card (sap_bodies old \<inter> sap_bodies current \<union> set (ord ?still)) \<le> kMaxDiscovered"
    using good(2) unfolding o s by (simp add: good_round_def Un_absorb1)
  ultimately obtain L2 where "hear now source (concat (map (sendPacket st False) (ord ?still))) L1 = Some L2"
      "mirrors now source w (sap_bodies current) (sap_bodies current) L2"
    using hear_announcements [OF L1(2) st, of "ord ?still"] inj_on_subset [OF i] unfolding o s
    by (auto simp: Un_absorb1 sap_bodies_def)
  then show "\<exists>L'. hear now source (fst (refreshAndAnnounce ord current st)) L = Some L' \<and>
      mirrors now source w (sap_bodies current) (sap_bodies current) L'"
    using L1 by (simp add: refreshAndAnnounce_def Let_def gone_def hear_append)
qed

lemma sap_rounds_step:
  "sap_rounds source ((now, ord, current) # rs) (st, L) =
     Option.bind (hear now source (fst (refreshAndAnnounce ord current st)) L)
       (\<lambda>L'. sap_rounds source rs (snd (refreshAndAnnounce ord current st), L'))"
  by (simp split: prod.split)

lemma rounds_mirror:
  assumes "mirrors now0 source w (sap_bodies old) (sap_bodies old) L" "set (announced st) = sap_bodies old"
    "an_open st" "an_origin st = w" "good_round (now0, ord0, old)" "list_all good_round rs"
    "inj_on hashSdp ((set old \<union> (\<Union>(now, ord, current)\<in>set rs. set current)) - {[]})"
  shows "\<exists>st' L'. sap_rounds source rs (st, L) = Some (st', L') \<and>
    (case last ((now0, ord0, old) # rs) of (now, ord, current) \<Rightarrow>
       mirrors now source w (sap_bodies current) (sap_bodies current) L')"
  using assms
proof (induction rs arbitrary: now0 ord0 old st L)
  case (Cons r rs)
  obtain now ord current where r: "r = (now, ord, current)" by (cases r)
  have good: "good_round (now, ord, current)" using Cons.prems(6) r by simp
  have inj: "inj_on hashSdp ((set old \<union> set current) - {[]})"
    by (rule inj_on_subset [OF Cons.prems(7)]) (auto simp: r)
  note step = round_mirrors [OF Cons.prems(1-5) good inj]
  from step(1) obtain L1 where L1: "hear now source (fst (refreshAndAnnounce ord current st)) L = Some L1"
    "mirrors now source w (sap_bodies current) (sap_bodies current) L1" by blast
  have st: "an_open (snd (refreshAndAnnounce ord current st))" "an_origin (snd (refreshAndAnnounce ord current st)) = w"
    using Cons.prems(3,4) by (simp_all add: refreshAndAnnounce_def Let_def)
  have "list_all good_round rs" using Cons.prems(6) by simp
  moreover have "inj_on hashSdp ((set current \<union> (\<Union>(now, ord, current)\<in>set rs. set current)) - {[]})"
    by (rule inj_on_subset [OF Cons.prems(7)]) (auto simp: r)
  ultimately show ?case
    using Cons.IH [OF L1(2) step(2) st good] L1(1) by (simp only: r sap_rounds_step) simp
qed auto


definition sap_first :: string where "sap_first = ''v=0 s=first''"
definition sap_second :: string where "sap_second = ''v=0 s=second''"

lemma sap_examples:
  "hashSdp sap_first = 15570" "hashSdp sap_second = 28022"
  "announceable sap_first" "announceable sap_second"
  by (simp_all add: hashSdp_def sap_first_def sap_second_def fnv_step_def code_def announceable_def)


section \<open>What a session announced over SAP looks like\<close>

lemma sap_lines_split: "sap_lines sdp = splitLines sdp"
  by (simp add: sap_lines_def splitLines_def)

lemma other_line: "take 2 l \<notin> {''s='', ''c='', ''m=''} \<Longrightarrow> parseSDPLine l a = a"
  by (simp add: parseSDPLine_def)

lemma attribute_lines_skipped: "list_all (\<lambda>l. take 2 l = ''a='') ls \<Longrightarrow> fold parseSDPLine ls a = a"
  by (induction ls) (auto simp: other_line)

lemma generated_attributes: "list_all (\<lambda>l. take 2 l = ''a='') (generateAttributes s)"
  by (auto simp: generateAttributes_def format_lines_def clock_lines_def refclk_lines_def custom_line_def list_all_iff)

lemma connection_line_address:
  assumes "wf_media s"
  shows "connectionAddress (generateConnectionLine s) = sd_connectionAddress s"
proof -
  let ?tail = "sd_connectionAddress s @ (if sd_ttl s \<noteq> 0 then ''/'' @ decimal (unat (sd_ttl s)) else [])"
  have "CHR '' '' \<notin> set ?tail" using assms by (auto simp: wf_media_def dest: token_blank decimal_digits)
  then have "cut_last (CHR '' '') ((''c='' @ sd_connectionType s @ '' '' @ sd_connectionNetwork s) @ CHR '' '' # ?tail) =
      Some (''c='' @ sd_connectionType s @ '' '' @ sd_connectionNetwork s, ?tail)" by (rule cut_last_append)
  moreover have "takeWhile (\<lambda>c. c \<noteq> CHR ''/'') ?tail = sd_connectionAddress s"
    using assms by (auto simp: wf_media_def takeWhile_until takeWhile_eq_all_conv)
  ultimately show ?thesis by (simp add: connectionAddress_def generateConnectionLine_def)
qed

lemma media_line_port:
  assumes "wf_media s"
  shows "media_port (generateMediaLine s) a = a\<lparr>ann_port := int (unat (sd_port s))\<rparr>"
proof -
  have p: "unat (sd_port s) < 65536" by (rule unat_u16)
  have "cut_first (CHR '' '') (sd_mediaType s @ CHR '' '' # decimal (unat (sd_port s)) @ CHR '' '' # sd_transport s @ '' '' @ decimal (unat (sd_payloadType s))) =
      Some (sd_mediaType s, decimal (unat (sd_port s)) @ CHR '' '' # sd_transport s @ '' '' @ decimal (unat (sd_payloadType s)))"
    using assms by (intro cut_first_append) (simp add: wf_media_def)
  moreover have "cut_first (CHR '' '') (decimal (unat (sd_port s)) @ CHR '' '' # sd_transport s @ '' '' @ decimal (unat (sd_payloadType s))) =
      Some (decimal (unat (sd_port s)), sd_transport s @ '' '' @ decimal (unat (sd_payloadType s)))"
    by (intro cut_first_append) simp
  moreover have "stoi (decimal (unat (sd_port s))) = Inr (int (unat (sd_port s)))"
    using stoi_decimal [of "unat (sd_port s)" "[]"] p by simp
  ultimately show ?thesis by (simp add: media_port_def generateMediaLine_def)
qed

lemma generated_info:
  assumes "wf_sdp s"
  shows "parseSDPInfo (generate t s) a =
    a\<lparr>ann_name := sd_sessionName s, ann_multicast := sd_connectionAddress s, ann_port := int (unat (sd_port s))\<rparr>"
proof -
  have w: "wf_media s" using assms by (simp add: wf_sdp_def)
  have c: "parseSDPLine (generateConnectionLine s) b = b\<lparr>ann_multicast := sd_connectionAddress s\<rparr>" for b
    using connection_line_address [OF w] by (simp add: parseSDPLine_def generateConnectionLine_def)
  have m: "parseSDPLine (generateMediaLine s) b = b\<lparr>ann_port := int (unat (sd_port s))\<rparr>" for b
    using media_line_port [OF w, of b] by (simp add: parseSDPLine_def generateMediaLine_def)
  have n: "parseSDPLine (CHR ''s'' # CHR ''='' # x) b = b\<lparr>ann_name := x\<rparr>" for x b by (simp add: parseSDPLine_def)
  have "sap_lines (generate t s) = head_lines t s @ generateAttributes s"
    unfolding sap_lines_split generate_def by (rule splitLines_generated) (rule lines_one_line [OF assms])
  then show ?thesis
    by (simp add: parseSDPInfo_def attribute_lines_skipped [OF generated_attributes] head_lines_def c m n)
       (simp add: other_line generateOriginLine_def)
qed

lemma generated_announceable: "length (generate t s) \<le> 2023 \<Longrightarrow> announceable (generate t s)"
proof -
  have "generate t s = ''v=0'' @ kCRLF @ concat (map (\<lambda>line. line @ kCRLF) (tl (head_lines t s) @ generateAttributes s))"
    by (simp add: generate_def head_lines_def)
  then have "str_find ''v=0'' (generate t s) = Some 0" "5 \<le> length (generate t s)"
    by (simp_all only: str_find_prefix) (simp add: kCRLF_def)
  then show "length (generate t s) \<le> 2023 \<Longrightarrow> announceable (generate t s)" by (simp add: announceable_def)
qed

text \<open>
  A session that is announced over SAP is recorded with its own name, group and port, and the recorded description parses
  back to the session, in the form it has on the wire.
\<close>

theorem sap_session_found:
  assumes "wf_sdp s" "length (generate t s) \<le> 2023"
  shows "\<exists>a. parseAnnouncement now (sap_buildPacket (generate t s) (hashSdp (generate t s)) w False) source = Some a \<and>
    ann_name a = sd_sessionName s \<and> ann_multicast a = sd_connectionAddress s \<and> ann_port a = int (unat (sd_port s)) \<and>
    ann_hash a = hashSdp (generate t s) \<and> ann_origin a = sender_of w \<and> ann_source a = source \<and> ann_lastSeen a = now \<and>
    parseString (ann_description a) = Some (on_the_wire t s)"
  using assms by (simp add: parse_built generated_announceable generated_info wire_parse sap_blank_def)

theorem sap_session_found_witness:
  "\<exists>a. parseAnnouncement 7 (sap_buildPacket (generate 1 stage_session) (hashSdp (generate 1 stage_session)) 0x0100000A False) ''10.0.0.1'' = Some a \<and>
    ann_name a = sd_sessionName stage_session \<and> ann_multicast a = sd_connectionAddress stage_session \<and>
    ann_port a = int (unat (sd_port stage_session)) \<and>
    ann_hash a = hashSdp (generate 1 stage_session) \<and> ann_origin a = sender_of 0x0100000A \<and> ann_source a = ''10.0.0.1'' \<and>
    ann_lastSeen a = 7 \<and> parseString (ann_description a) = Some (on_the_wire 1 stage_session)"
proof (rule sap_session_found)
  show "wf_sdp stage_session" by code_simp
  have p: "formatPTimeMs 125 = ''0.125''" unfolding formatPTimeMs_digits by code_simp
  have f: "sd_ptimeUs stage_session = 125" "sd_sampleRate stage_session = 48000" "sd_framecount stage_session = 48"
    "sd_payloadType stage_session = 97" "sd_numChannels stage_session = 8" "sd_encoding stage_session = ''L24''"
    "sd_direction stage_session = ''sendonly''" "sd_connectionAddress stage_session = ''239.1.2.3''"
    "sd_sourceAddress stage_session = ''10.0.0.5''" by code_simp+
  have h: "length (concat (map (\<lambda>line. line @ kCRLF) (head_lines 1 stage_session))) \<le> 500"
    using decimal_length [of 5004 4] decimal_length [of 77 2] decimal_length [of 97 2] decimal_length [of 32 2] decimal_length [of 0 1]
    by (simp add: head_lines_def generateOriginLine_def generateConnectionLine_def generateMediaLine_def kCRLF_def
        stage_session_def createDefaultTxSession_def sdp_default_def payloadTypeFor_def del: decimal.simps)
  have c: "length (concat (map (\<lambda>line. line @ kCRLF) (clock_lines stage_session))) \<le> 500" by code_simp
  have m: "length (concat (map (\<lambda>line. line @ kCRLF) (format_lines stage_session))) \<le> 500"
    using decimal_length [of 48000 5] decimal_length [of 48 2] decimal_length [of 97 2] decimal_length [of 8 1]
    unfolding format_lines_def f p by (simp add: kCRLF_def del: decimal.simps)
  show "length (generate 1 stage_session) \<le> 2023"
    using h c m by (simp add: generate_def generateAttributes_def)
qed

text \<open>
  The session list never holds more than 50 sessions. When a new session makes it drop one, the dropped one is
  a session that nobody was heard from for longer; as long as the clock does not run backwards it is not the new one.
\<close>

theorem sap_list_bounded:
  assumes "length L \<le> kMaxDiscovered" "\<forall>s\<in>set L. ann_lastSeen s \<le> ann_lastSeen a"
  shows "length (fst (file_announcement a L)) \<le> kMaxDiscovered \<and>
    (snd (file_announcement a L) \<longrightarrow> a \<in> set (fst (file_announcement a L)) \<and>
       (\<forall>s\<in>set L. s \<in> set (fst (file_announcement a L)) \<or>
         (length L = kMaxDiscovered \<and> (\<forall>r\<in>set L. ann_lastSeen s \<le> ann_lastSeen r))))"
proof (intro conjI impI)
  show "length (fst (file_announcement a L)) \<le> kMaxDiscovered" by (rule file_bounded [OF assms(1)])
next
  assume "snd (file_announcement a L)"
  then have f: "fst (file_announcement a L) = (if length L < kMaxDiscovered then L @ [a] else erase_oldest (L @ [a]))"
    by (auto simp: file_announcement_def Let_def split: if_splits)
  have "a \<in> set (fst (file_announcement a L)) \<and> (\<forall>s\<in>set L. s \<in> set (fst (file_announcement a L)) \<or>
         (length L = kMaxDiscovered \<and> (\<forall>r\<in>set L. ann_lastSeen s \<le> ann_lastSeen r)))"
  proof (cases "length L < kMaxDiscovered")
    case False
    then have L: "length L = kMaxDiscovered" "L \<noteq> []" using assms(1) by (auto simp: kMaxDiscovered_def)
    obtain us v vs where s: "L @ [a] = us @ v # vs" "erase_oldest (L @ [a]) = us @ vs"
        "\<forall>r\<in>set (L @ [a]). ann_lastSeen v \<le> ann_lastSeen r" "\<forall>u\<in>set us. \<exists>r\<in>set (L @ [a]). ann_lastSeen r < ann_lastSeen u"
      using erase_oldest_split [of "L @ [a]"] by blast
    have "vs \<noteq> []"
    proof
      assume "vs = []"
      then have v: "us = L" "v = a" using s(1) by auto
      then have "hd L \<in> set us" using L(2) by simp
      then have "ann_lastSeen (hd L) \<le> ann_lastSeen v" using v assms(2) by simp
      moreover obtain r where "r \<in> set (L @ [a])" "ann_lastSeen r < ann_lastSeen (hd L)"
        using s(4) \<open>hd L \<in> set us\<close> by blast
      ultimately show False using s(3) by force
    qed
    then have "last (us @ v # vs) = last vs" "last vs \<in> set vs" by auto
    then have "a \<in> set vs" using s(1) by (metis last_snoc)
    moreover have "x = v \<or> x \<in> set us \<or> x \<in> set vs" if "x \<in> set L" for x
      using that arg_cong [OF s(1), of set] by auto
    ultimately show ?thesis using False s(2,3) L(1) f by auto
  qed (use f in auto)
  then show "a \<in> set (fst (file_announcement a L))"
    and "\<forall>s\<in>set L. s \<in> set (fst (file_announcement a L)) \<or>
         (length L = kMaxDiscovered \<and> (\<forall>r\<in>set L. ann_lastSeen s \<le> ann_lastSeen r))" by blast+
qed

theorem sap_list_bounded_witness:
  "length (fst (file_announcement (sap_entry 9 ''10.0.0.1'' 1 (sap_second, 2)) [sap_entry 5 ''10.0.0.1'' 1 (sap_first, 1)])) \<le> kMaxDiscovered \<and>
    (snd (file_announcement (sap_entry 9 ''10.0.0.1'' 1 (sap_second, 2)) [sap_entry 5 ''10.0.0.1'' 1 (sap_first, 1)]) \<longrightarrow>
       sap_entry 9 ''10.0.0.1'' 1 (sap_second, 2) \<in>
         set (fst (file_announcement (sap_entry 9 ''10.0.0.1'' 1 (sap_second, 2)) [sap_entry 5 ''10.0.0.1'' 1 (sap_first, 1)])) \<and>
       (\<forall>s\<in>set [sap_entry 5 ''10.0.0.1'' 1 (sap_first, 1)].
         s \<in> set (fst (file_announcement (sap_entry 9 ''10.0.0.1'' 1 (sap_second, 2)) [sap_entry 5 ''10.0.0.1'' 1 (sap_first, 1)])) \<or>
         (length [sap_entry 5 ''10.0.0.1'' 1 (sap_first, 1)] = kMaxDiscovered \<and>
          (\<forall>r\<in>set [sap_entry 5 ''10.0.0.1'' 1 (sap_first, 1)]. ann_lastSeen s \<le> ann_lastSeen r))))"
  by (rule sap_list_bounded) (simp_all add: kMaxDiscovered_def)

text \<open>
  A deletion without a hash is never acted upon: the parser leaves the name of a deletion empty, and an empty
  name matches nothing. So a session whose description happens to hash to zero is announced, but its withdrawal
  changes nothing; it stays listed until it times out.
\<close>

theorem sap_unhashed_withdrawal_lost:
  assumes "hashSdp sdp = 0" "length sdp \<le> 2023"
  shows "listen_step now source (sap_buildPacket sdp (hashSdp sdp) w True) L = Some (L, None)"
proof -
  have "\<not> sameSession s ((sap_blank now source)\<lparr>ann_isDeletion := True, ann_hash := 0, ann_origin := sender_of w\<rparr>)" for s
    by (simp add: sameSession_def sap_blank_def)
  then show ?thesis using assms by (simp add: listen_deletion file_announcement_def Let_def list_ex_iff)
qed

theorem sap_unhashed_withdrawal_lost_witness:
  "listen_step 9 ''10.0.0.1'' (sap_buildPacket (''v=0'' @ kCRLF @ ''s=ijc'') (hashSdp (''v=0'' @ kCRLF @ ''s=ijc'')) 1 True)
      [sap_entry 5 ''10.0.0.1'' 1 (''v=0'' @ kCRLF @ ''s=ijc'', 0)] =
    Some ([sap_entry 5 ''10.0.0.1'' 1 (''v=0'' @ kCRLF @ ''s=ijc'', 0)], None)"
  by (rule sap_unhashed_withdrawal_lost) (simp_all add: hashSdp_def fnv_step_def code_def kCRLF_def)

end
