(* ===== verification/DNS_SD.thy ===== *)
theory DNS_SD
  imports Std_Strings "HOL-Library.Monad_Syntax"
begin

text \<open>
  The DNS-SD records of the RAVENNA session layer as bytes:
  \<open>src/packages/aes67-ravenna/Ravenna/DnsSd.h\<close> and \<open>DnsSd.cpp\<close>. A received packet is a list of bytes and its
  length; a read outside it makes the whole call \<open>None\<close>, and the totality lemmas say that none
  happens. \<open>Some None\<close> of a reader is its return value false.
\<close>

section \<open>Constants and records\<close>

definition kRtspService :: string where "kRtspService = ''_rtsp._tcp.local''"
definition kRavennaSessionSubtype :: string where
  "kRavennaSessionSubtype = ''_ravenna_session._sub._rtsp._tcp.local''"

definition kTypeA :: u16 where "kTypeA = 1"
definition kTypePTR :: u16 where "kTypePTR = 12"
definition kTypeTXT :: u16 where "kTypeTXT = 16"
definition kTypeSRV :: u16 where "kTypeSRV = 33"
definition kClassIN :: u16 where "kClassIN = 1"
definition kCacheFlush :: u16 where "kCacheFlush = 0x8000"
definition kHostRecordTtl :: u32 where "kHostRecordTtl = 120"
definition kServiceRecordTtl :: u32 where "kServiceRecordTtl = 4500"

lemmas record_types = kTypeA_def kTypePTR_def kTypeTXT_def kTypeSRV_def

record session_ad =
  sa_instanceName :: string
  sa_hostName :: string
  sa_port :: u16
  sa_addressV4 :: u32
  sa_txtEntries :: "string list"
  serviceType :: string
  subtype :: string

record discovered =
  ds_instanceName :: string
  ds_hostName :: string
  ds_port :: u16
  ds_addressV4 :: u32
  ds_txtEntries :: "string list"

definition discovered_default :: discovered where
  "discovered_default = \<lparr>ds_instanceName = [], ds_hostName = [], ds_port = 0, ds_addressV4 = 0, ds_txtEntries = []\<rparr>"

section \<open>Writing\<close>

definition dns16 :: "u16 \<Rightarrow> byte_list" where
  "dns16 v = [ucast (drop_bit 8 v), ucast (v AND 0xFF)]"

definition dns32 :: "u32 \<Rightarrow> byte_list" where
  "dns32 v = [ucast (drop_bit 24 v), ucast (drop_bit 16 v AND 0xFF), ucast (drop_bit 8 v AND 0xFF), ucast (v AND 0xFF)]"

text \<open>The loop of \<open>encodeName\<close> on what is left of the name.\<close>

function encode_labels :: "string \<Rightarrow> byte_list" where
  "encode_labels s =
     (if s = [] then []
      else (let w = takeWhile (\<lambda>c. c \<noteq> CHR ''.'') s; l = take 63 w in
        (if l \<noteq> [] then of_nat (length l) # string_bytes l else []) @ encode_labels (drop (length w + 1) s)))"
  by pat_completeness auto

termination
  by (relation "measure length") auto

declare encode_labels.simps [simp del]

definition encodeName :: "string \<Rightarrow> byte_list" where
  "encodeName name = encode_labels name @ [0]"

definition record_header :: "string \<Rightarrow> u16 \<Rightarrow> u32 \<Rightarrow> u16 \<Rightarrow> bool \<Rightarrow> byte_list" where
  "record_header name type ttl dataLength cacheFlush =
     encodeName name @ dns16 type @ dns16 (kClassIN OR (if cacheFlush then kCacheFlush else 0)) @ dns32 ttl @ dns16 dataLength"

definition instanceFqdn :: "session_ad \<Rightarrow> string" where
  "instanceFqdn s = sa_instanceName s @ ''.'' @ serviceType s"

definition txt_entry :: "string \<Rightarrow> byte_list" where
  "txt_entry e = (let l = min (length e) 255 in of_nat l # string_bytes (take l e))"

definition txt_data :: "string list \<Rightarrow> byte_list" where
  "txt_data es = (if es = [] then [0] else concat (map txt_entry es))"

definition buildRecords :: "session_ad \<Rightarrow> bool \<Rightarrow> u32 \<Rightarrow> u32 \<Rightarrow> byte_list" where
  "buildRecords s includeSubtype serviceTtl hostTtl =
     (let inst = instanceFqdn s; instName = encodeName inst; host = encodeName (sa_hostName s); txt = txt_data (sa_txtEntries s) in
      record_header (serviceType s) kTypePTR serviceTtl (of_nat (length instName)) False @ instName @
      (if includeSubtype \<and> subtype s \<noteq> []
       then record_header (subtype s) kTypePTR serviceTtl (of_nat (length instName)) False @ instName else []) @
      record_header inst kTypeSRV hostTtl (of_nat (6 + length host)) True @ dns16 0 @ dns16 0 @ dns16 (sa_port s) @ host @
      record_header inst kTypeTXT serviceTtl (of_nat (length txt)) True @ txt @
      record_header (sa_hostName s) kTypeA hostTtl 4 True @ dns32 (sa_addressV4 s))"

definition buildPacket :: "byte_list \<Rightarrow> u16 \<Rightarrow> byte_list" where
  "buildPacket records answerCount = dns16 0 @ dns16 0x8400 @ dns16 0 @ dns16 answerCount @ dns16 0 @ dns16 0 @ records"

definition answerCountFor :: "session_ad \<Rightarrow> bool \<Rightarrow> u16" where
  "answerCountFor s includeSubtype = (if includeSubtype \<and> subtype s \<noteq> [] then 5 else 4)"

definition buildAnnouncement :: "session_ad \<Rightarrow> bool \<Rightarrow> byte_list" where
  "buildAnnouncement s incl = buildPacket (buildRecords s incl kServiceRecordTtl kHostRecordTtl) (answerCountFor s incl)"

definition buildGoodbye :: "session_ad \<Rightarrow> bool \<Rightarrow> byte_list" where
  "buildGoodbye s incl = buildPacket (buildRecords s incl 0 0) (answerCountFor s incl)"

definition buildQuery :: "string \<Rightarrow> byte_list" where
  "buildQuery service = [0, 0, 0, 0, 0, 1, 0, 0, 0, 0, 0, 0] @ encodeName service @
     [0, ucast kTypePTR, 0, ucast kClassIN]"

section \<open>Reading names\<close>

definition read_chars :: "byte_list \<Rightarrow> nat \<Rightarrow> nat \<Rightarrow> string option" where
  "read_chars pkt p n = (if p + n \<le> length pkt then Some (bytes_string (take n (drop p pkt))) else None)"

definition dot_join :: "string \<Rightarrow> string \<Rightarrow> string" where
  "dot_join name w = (if name \<noteq> [] then name @ ''.'' @ w else w)"

text \<open>The loop of \<open>parseQueryNames\<close> over the labels of one question.\<close>

function query_name :: "byte_list \<Rightarrow> nat \<Rightarrow> nat \<Rightarrow> string \<Rightarrow> (string \<times> nat) option option" where
  "query_name pkt len off name =
     (if \<not> off < len then Some (Some (name, off))
      else (case byte_at pkt off of
          None \<Rightarrow> None
        | Some label \<Rightarrow>
            if label = 0 then Some (Some (name, off + 1))
            else if label AND 0xC0 \<noteq> 0 then Some None
            else if off + 1 + unat label > len then Some None
            else (case read_chars pkt (off + 1) (unat label) of
                None \<Rightarrow> None
              | Some w \<Rightarrow> query_name pkt len (off + 1 + unat label) (dot_join name (to_lower w)))))"
  by pat_completeness auto

termination
  by (relation "measure (\<lambda>(pkt, len, off, name). len - off)") auto

declare query_name.simps [simp del]

fun query_loop :: "byte_list \<Rightarrow> nat \<Rightarrow> nat \<Rightarrow> nat \<Rightarrow> string list \<Rightarrow> string list option" where
  "query_loop pkt len 0 off names = Some names"
| "query_loop pkt len (Suc k) off names = (case query_name pkt len off [] of
       None \<Rightarrow> None
     | Some None \<Rightarrow> Some names
     | Some (Some (name, off1)) \<Rightarrow>
         if off1 + 4 > len then Some names
         else query_loop pkt len k (off1 + 4) (if name \<noteq> [] then names @ [name] else names))"

definition parseQueryNames :: "byte_list option \<Rightarrow> nat \<Rightarrow> string list option" where
  "parseQueryNames packet len = (case packet of
       None \<Rightarrow> Some []
     | Some pkt \<Rightarrow> if len < 12 then Some [] else do {
         flags \<leftarrow> read16 pkt 2;
         if flags AND 0x8000 \<noteq> 0 then Some [] else do {
           questions \<leftarrow> read16 pkt 4;
           query_loop pkt len (unat questions) 12 [] } })"

text \<open>
  \<open>readName\<close>, which follows compression pointers: the name so far, whether a pointer was followed, where
  the name ends in the record, and how many pointers were followed.
\<close>

function name_loop :: "byte_list \<Rightarrow> nat \<Rightarrow> nat \<Rightarrow> string \<Rightarrow> bool \<Rightarrow> nat \<Rightarrow> nat \<Rightarrow> (string \<times> nat) option option" where
  "name_loop pkt len off name jumped after jumps =
     (if \<not> off < len then Some None
      else (case byte_at pkt off of
          None \<Rightarrow> None
        | Some label \<Rightarrow>
            if label AND 0xC0 = 0xC0 then
              (if off + 1 \<ge> len then Some None
               else (case byte_at pkt (off + 1) of
                   None \<Rightarrow> None
                 | Some low \<Rightarrow>
                     (let target = unat (label AND 0x3F) * 256 + unat low in
                      if target \<ge> off then Some None
                      else if jumps + 1 > 16 then Some None
                      else name_loop pkt len target name True (if jumped then after else off + 2) (jumps + 1))))
            else if label AND 0xC0 \<noteq> 0 then Some None
            else if label = 0 then Some (Some (name, if jumped then after else off + 1))
            else if off + 1 + unat label > len then Some None
            else (case read_chars pkt (off + 1) (unat label) of
                None \<Rightarrow> None
              | Some w \<Rightarrow> name_loop pkt len (off + 1 + unat label) (dot_join name (to_lower w)) jumped after jumps)))"
  by pat_completeness auto

termination
  by (relation "measures [\<lambda>(pkt, len, off, name, jumped, after, jumps). 17 - jumps,
      \<lambda>(pkt, len, off, name, jumped, after, jumps). len - off]") auto

declare name_loop.simps [simp del]

definition readName :: "byte_list \<Rightarrow> nat \<Rightarrow> nat \<Rightarrow> (string \<times> nat) option option" where
  "readName pkt len off = name_loop pkt len off [] False off 0"

section \<open>Reading responses\<close>

definition ds_txt :: "discovered \<Rightarrow> string \<Rightarrow> string \<Rightarrow> string" where
  "ds_txt s key fallback = (let prefix = key @ ''='' in
     case find (\<lambda>e. take (length prefix) e = prefix) (ds_txtEntries s) of
       None \<Rightarrow> fallback | Some e \<Rightarrow> drop (length prefix) e)"

fun skip_questions :: "byte_list \<Rightarrow> nat \<Rightarrow> nat \<Rightarrow> nat \<Rightarrow> nat option option" where
  "skip_questions pkt len 0 off = Some (Some off)"
| "skip_questions pkt len (Suc k) off = (case readName pkt len off of
       None \<Rightarrow> None
     | Some None \<Rightarrow> Some None
     | Some (Some (_, after)) \<Rightarrow> if after + 4 > len then Some None else skip_questions pkt len k (after + 4))"

text \<open>What the record loop has gathered: instances, services by owner, addresses by host.\<close>

record gathered =
  g_instances :: "string list"
  g_byOwner :: "(string \<times> discovered) list"
  g_addresses :: "(string \<times> u32) list"

definition gathered_empty :: gathered where
  "gathered_empty = \<lparr>g_instances = [], g_byOwner = [], g_addresses = []\<rparr>"

text \<open>\<open>owned\<close>: the entry of an owner, made when there is none, changed by \<open>f\<close>.\<close>

fun update_owned :: "(discovered \<Rightarrow> discovered) \<Rightarrow> string \<Rightarrow> (string \<times> discovered) list \<Rightarrow> (string \<times> discovered) list" where
  "update_owned f owner [] = [(owner, f (discovered_default\<lparr>ds_instanceName := owner\<rparr>))]"
| "update_owned f owner ((n, s) # rest) = (if n = owner then (n, f s) # rest else (n, s) # update_owned f owner rest)"

function txt_loop :: "byte_list \<Rightarrow> nat \<Rightarrow> nat \<Rightarrow> string list \<Rightarrow> string list option" where
  "txt_loop pkt at stop acc =
     (if \<not> at < stop then Some acc
      else (case byte_at pkt at of
          None \<Rightarrow> None
        | Some n \<Rightarrow>
            if at + 1 + unat n > stop then Some acc
            else (case read_chars pkt (at + 1) (unat n) of
                None \<Rightarrow> None
              | Some e \<Rightarrow> txt_loop pkt (at + 1 + unat n) stop (if n \<noteq> 0 then acc @ [e] else acc))))"
  by pat_completeness auto

termination
  by (relation "measure (\<lambda>(pkt, at, stop, acc). stop - at)") auto

declare txt_loop.simps [simp del]

definition on_record :: "byte_list \<Rightarrow> nat \<Rightarrow> string \<Rightarrow> string \<Rightarrow> u16 \<Rightarrow> nat \<Rightarrow> nat \<Rightarrow> gathered \<Rightarrow> gathered option" where
  "on_record pkt len wanted owner type dataLength data g =
     (if type = kTypePTR \<and> owner = wanted then
        (case readName pkt len data of
           None \<Rightarrow> None
         | Some None \<Rightarrow> Some g
         | Some (Some (inst, _)) \<Rightarrow> Some (if inst \<noteq> [] then g\<lparr>g_instances := g_instances g @ [inst]\<rparr> else g))
      else if type = kTypeSRV \<and> dataLength \<ge> 6 then
        (case readName pkt (data + dataLength) (data + 6) of
           None \<Rightarrow> None
         | Some None \<Rightarrow> Some g
         | Some (Some (host, _)) \<Rightarrow> do {
             port \<leftarrow> read16 pkt (data + 4);
             Some (g\<lparr>g_byOwner := update_owned (\<lambda>s. s\<lparr>ds_port := port, ds_hostName := host\<rparr>) owner (g_byOwner g)\<rparr>) })
      else if type = kTypeTXT then do {
        es \<leftarrow> txt_loop pkt data (data + dataLength) [];
        Some (g\<lparr>g_byOwner := update_owned (\<lambda>s. s\<lparr>ds_txtEntries := ds_txtEntries s @ es\<rparr>) owner (g_byOwner g)\<rparr>) }
      else if type = kTypeA \<and> dataLength = 4 then do {
        a \<leftarrow> read32 pkt data;
        Some (g\<lparr>g_addresses := g_addresses g @ [(owner, a)]\<rparr>) }
      else Some g)"

fun record_loop :: "byte_list \<Rightarrow> nat \<Rightarrow> string \<Rightarrow> nat \<Rightarrow> nat \<Rightarrow> gathered \<Rightarrow> gathered option" where
  "record_loop pkt len wanted 0 off g = Some g"
| "record_loop pkt len wanted (Suc k) off g = (case readName pkt len off of
       None \<Rightarrow> None
     | Some None \<Rightarrow> Some g
     | Some (Some (owner, after)) \<Rightarrow>
         if after + 10 > len then Some g else do {
           type \<leftarrow> read16 pkt after;
           dl \<leftarrow> read16 pkt (after + 8);
           let data = after + 10;
           if data + unat dl > len then Some g else do {
             g1 \<leftarrow> on_record pkt len wanted owner type (unat dl) data g;
             record_loop pkt len wanted k (data + unat dl) g1 } })"

definition with_address :: "(string \<times> u32) list \<Rightarrow> discovered \<Rightarrow> discovered" where
  "with_address as s = (case map_of as (ds_hostName s) of None \<Rightarrow> s | Some a \<Rightarrow> s\<lparr>ds_addressV4 := a\<rparr>)"

definition collect :: "gathered \<Rightarrow> discovered list" where
  "collect g = map (with_address (g_addresses g))
     (map (\<lambda>inst. case map_of (g_byOwner g) inst of
         None \<Rightarrow> discovered_default\<lparr>ds_instanceName := inst\<rparr> | Some s \<Rightarrow> s) (g_instances g))"

definition parseServiceResponse :: "byte_list option \<Rightarrow> nat \<Rightarrow> string \<Rightarrow> discovered list option" where
  "parseServiceResponse packet len service = (case packet of
       None \<Rightarrow> Some []
     | Some pkt \<Rightarrow> if len < 12 then Some [] else do {
         flags \<leftarrow> read16 pkt 2;
         if flags AND 0x8000 = 0 then Some [] else do {
           questions \<leftarrow> read16 pkt 4;
           an \<leftarrow> read16 pkt 6;
           ns \<leftarrow> read16 pkt 8;
           ar \<leftarrow> read16 pkt 10;
           start \<leftarrow> skip_questions pkt len (unat questions) 12;
           case start of
             None \<Rightarrow> Some []
           | Some off \<Rightarrow> map_option collect
               (record_loop pkt len (to_lower service) (unat an + unat ns + unat ar) off gathered_empty) } })"

section \<open>Every packet is read within its bounds\<close>

lemma read_chars_in [simp]: "p + n \<le> length pkt \<Longrightarrow> read_chars pkt p n = Some (bytes_string (take n (drop p pkt)))"
  by (simp add: read_chars_def)

lemma query_name_total: "len \<le> length pkt \<Longrightarrow> query_name pkt len off name \<noteq> None"
proof (induction pkt len off name rule: query_name.induct)
  case (1 pkt len off name)
  then show ?case by (subst query_name.simps) auto
qed

lemma query_loop_total: "len \<le> length pkt \<Longrightarrow> query_loop pkt len k off names \<noteq> None"
proof (induction k arbitrary: off names)
  case (Suc k)
  then show ?case using query_name_total [of len pkt off "[]"] by (auto split: option.splits)
qed simp

lemma name_loop_total: "len \<le> length pkt \<Longrightarrow> name_loop pkt len off name jumped after jumps \<noteq> None"
proof (induction pkt len off name jumped after jumps rule: name_loop.induct)
  case (1 pkt len off name jumped after jumps)
  then show ?case by (subst name_loop.simps) (auto simp: Let_def)
qed

lemma readName_total: "len \<le> length pkt \<Longrightarrow> \<exists>r. readName pkt len off = Some r"
  using name_loop_total unfolding readName_def by blast

lemma txt_loop_total: "stop \<le> length pkt \<Longrightarrow> txt_loop pkt at stop acc \<noteq> None"
proof (induction pkt at stop acc rule: txt_loop.induct)
  case (1 pkt at stop acc)
  then show ?case by (subst txt_loop.simps) auto
qed

lemma skip_questions_total: "len \<le> length pkt \<Longrightarrow> skip_questions pkt len k off \<noteq> None"
proof (induction k arbitrary: off)
  case (Suc k)
  then show ?case using readName_total [of len pkt off] by (auto split: option.splits)
qed simp

lemma on_record_total:
  assumes "len \<le> length pkt" "data + dl \<le> len"
  shows "on_record pkt len wanted owner type dl data g \<noteq> None"
proof -
  obtain r1 where "readName pkt len data = Some r1" using readName_total [OF assms(1)] by blast
  moreover obtain r2 where "readName pkt (data + dl) (data + 6) = Some r2"
    using readName_total [of "data + dl" pkt] assms by auto
  moreover obtain r3 where "txt_loop pkt data (data + dl) [] = Some r3"
    using txt_loop_total [of "data + dl" pkt] assms by fastforce
  ultimately show ?thesis using assms by (auto simp: on_record_def split: option.splits)
qed

lemma record_loop_total: "len \<le> length pkt \<Longrightarrow> record_loop pkt len wanted k off g \<noteq> None"
proof (induction k arbitrary: off g)
  case (Suc k)
  show ?case
  proof
    assume n: "record_loop pkt len wanted (Suc k) off g = None"
    obtain r where r: "readName pkt len off = Some r" using readName_total [OF Suc.prems] by blast
    then obtain owner after where o: "r = Some (owner, after)" "after + 10 \<le> len"
      using n by (auto split: option.splits if_splits)
    then have "after + 9 < length pkt" using Suc.prems by simp
    then obtain type dl where "read16 pkt after = Some type" "read16 pkt (after + 8) = Some dl" by simp
    then have f: "after + 10 + unat dl \<le> len" and
      e: "Option.bind (on_record pkt len wanted owner type (unat dl) (after + 10) g)
        (record_loop pkt len wanted k (after + 10 + unat dl)) = None"
      using n r o by (auto simp: Let_def split: if_splits)
    obtain g1 where "on_record pkt len wanted owner type (unat dl) (after + 10) g = Some g1"
      using on_record_total [OF Suc.prems f] by blast
    then show False using e Suc.IH [OF Suc.prems] by simp
  qed
qed simp

section \<open>Segments of a packet\<close>

text \<open>\<open>seg pkt p bs\<close>: the bytes \<open>bs\<close> stand in the packet from position \<open>p\<close> on.\<close>

definition seg :: "byte_list \<Rightarrow> nat \<Rightarrow> byte_list \<Rightarrow> bool" where
  "seg pkt p bs \<longleftrightarrow> p + length bs \<le> length pkt \<and> take (length bs) (drop p pkt) = bs"

lemma seg_append: "seg pkt p (a @ b) \<longleftrightarrow> seg pkt p a \<and> seg pkt (p + length a) b"
proof -
  have "take (length a + length b) (drop p pkt) = take (length a) (drop p pkt) @ take (length b) (drop (p + length a) pkt)"
    by (simp add: take_add add.commute)
  then show ?thesis
    unfolding seg_def by (auto simp: append_eq_append_conv)
qed

lemma seg_whole: "seg (a @ b) (length a) b" "seg bs 0 bs"
  by (simp_all add: seg_def)

lemma seg_Nil: "p \<le> length pkt \<Longrightarrow> seg pkt p []"
  by (simp add: seg_def)

lemma seg_Cons: "seg pkt p (b # bs) \<longleftrightarrow> byte_at pkt p = Some b \<and> seg pkt (p + 1) bs"
proof -
  have "seg pkt p [b] \<longleftrightarrow> byte_at pkt p = Some b"
    by (auto simp: seg_def byte_at_def take_Suc_conv_app_nth hd_drop_conv_nth take_Suc)
  then show ?thesis using seg_append [of pkt p "[b]" bs] by simp
qed

lemma seg_length: "seg pkt p bs \<Longrightarrow> p + length bs \<le> length pkt"
  by (simp add: seg_def)

lemma dns_lengths [simp]: "length (dns16 v) = 2" "length (dns32 w) = 4"
  by (simp_all add: dns16_def dns32_def)

lemma seg_read16: "seg pkt p (dns16 v) \<Longrightarrow> read16 pkt p = Some v"
  by (simp add: dns16_def seg_Cons read16_def be16_split del: byte_at_in)

lemma seg_read32: "seg pkt p (dns32 v) \<Longrightarrow> read32 pkt p = Some v"
proof -
  assume s: "seg pkt p (dns32 v)"
  have e: "p + 3 = Suc (Suc (Suc p))" by simp
  from s show ?thesis by (simp add: e dns32_def seg_Cons read32_def be32_split del: byte_at_in)
qed

lemma seg_chars: "seg pkt p (string_bytes w) \<Longrightarrow> read_chars pkt p (length w) = Some w"
  by (simp add: seg_def)

section \<open>Names survive\<close>

text \<open>A name DNS can carry: labels of 1 to 63 characters between the dots.\<close>

definition dns_name :: "string \<Rightarrow> bool" where
  "dns_name s \<longleftrightarrow> (\<forall>w\<in>set (split_on (CHR ''.'') s). w \<noteq> [] \<and> length w \<le> 63)"

fun join_labels :: "string list \<Rightarrow> string" where
  "join_labels [] = []"
| "join_labels [w] = w"
| "join_labels (w # ws) = w @ ''.'' @ join_labels ws"

lemma join_split: "join_labels (split_on (CHR ''.'') s) = s"
proof (induction s)
  case (Cons c s)
  obtain w ws where "split_on (CHR ''.'') s = w # ws" by (cases "split_on (CHR ''.'') s") auto
  then show ?case using Cons by (cases ws) auto
qed simp

lemma split_no_dot: "w \<in> set (split_on d s) \<Longrightarrow> d \<notin> set w"
proof (induction s arbitrary: w)
  case (Cons c s)
  then show ?case by (cases "split_on d s") (auto split: if_splits)
qed simp

definition label_bytes :: "string \<Rightarrow> byte_list" where
  "label_bytes w = of_nat (length w) # string_bytes w"

lemma label_bytes_length [simp]: "length (label_bytes w) = Suc (length w)"
  by (simp add: label_bytes_def)

lemma encode_labels_join:
  assumes "\<forall>w\<in>set ws. w \<noteq> [] \<and> length w \<le> 63 \<and> CHR ''.'' \<notin> set w"
  shows "encode_labels (join_labels ws) = concat (map label_bytes ws)"
  using assms
proof (induction ws rule: join_labels.induct)
  case 1
  then show ?case by (simp add: encode_labels.simps)
next
  case (2 w)
  then have t: "takeWhile (\<lambda>c. c \<noteq> CHR ''.'') w = w" by (auto simp: takeWhile_eq_all_conv)
  show ?case using 2 by (subst encode_labels.simps) (simp add: t encode_labels.simps [of "[]"] label_bytes_def)
next
  case (3 w v ws)
  have w: "CHR ''.'' \<notin> set w" "w \<noteq> []" "length w \<le> 63" using "3.prems" by auto
  then have "takeWhile (\<lambda>c. c \<noteq> CHR ''.'') (join_labels (w # v # ws)) = w" by (simp add: takeWhile_until)
  then show ?case using 3 w by (subst encode_labels.simps) (simp add: label_bytes_def [of w])
qed

lemma label_byte:
  assumes "w \<noteq> []" "length w \<le> 63"
  shows "unat (of_nat (length w) :: u8) = length w" "(of_nat (length w) :: u8) \<noteq> 0" "(of_nat (length w) :: u8) AND 0xC0 = 0"
proof -
  show u: "unat (of_nat (length w) :: u8) = length w" using assms(2) by (intro unat_of_nat_small) simp
  show "(of_nat (length w) :: u8) \<noteq> 0" using u assms(1) by (metis length_0_conv unat_0)
  have "(0xC0 :: u8) = NOT (mask 6)" by (simp add: mask_eq_exp_minus_1)
  moreover have "take_bit 6 x AND NOT (mask 6) = 0" for x :: u8
    by (rule bit_word_eqI) (auto simp: bit_and_iff bit_not_iff bit_mask_iff bit_take_bit_iff)
  moreover have "(of_nat (length w) :: u8) = take_bit 6 (of_nat (length w))"
    using u assms(2) by (intro word_unat_eq_iff [THEN iffD2]) (simp add: unsigned_take_bit_eq take_bit_nat_eq_self)
  ultimately show "(of_nat (length w) :: u8) AND 0xC0 = 0"
    by metis
qed

definition good_label :: "string \<Rightarrow> bool" where
  "good_label w \<longleftrightarrow> w \<noteq> [] \<and> length w \<le> 63 \<and> CHR ''.'' \<notin> set w"

lemma label_step:
  assumes "good_label w" "seg pkt off (label_bytes w @ rest)" "off + length (label_bytes w) \<le> len"
  shows "byte_at pkt off = Some (of_nat (length w))" "unat (of_nat (length w) :: u8) = length w"
    "(of_nat (length w) :: u8) \<noteq> 0" "(of_nat (length w) :: u8) AND 0xC0 = 0"
    "read_chars pkt (off + 1) (length w) = Some w" "seg pkt (off + 1 + length w) rest" "off + 1 + length w \<le> len"
proof -
  have w: "w \<noteq> []" "length w \<le> 63" using assms(1) by (auto simp: good_label_def)
  show "unat (of_nat (length w) :: u8) = length w" "(of_nat (length w) :: u8) \<noteq> 0" "(of_nat (length w) :: u8) AND 0xC0 = 0"
    using label_byte [OF w] by auto
  have s: "byte_at pkt off = Some (of_nat (length w))" "seg pkt (off + 1) (string_bytes w @ rest)"
    using assms(2) by (simp_all add: label_bytes_def seg_Cons del: byte_at_in)
  show "byte_at pkt off = Some (of_nat (length w))" by (rule s(1))
  have s2: "seg pkt (off + 1) (string_bytes w)" "seg pkt (off + 1 + length w) rest"
    using s(2) by (simp_all add: seg_append)
  show "read_chars pkt (off + 1) (length w) = Some w" using s2(1) by (rule seg_chars)
  show "seg pkt (off + 1 + length w) rest" by (rule s2(2))
  show "off + 1 + length w \<le> len" using assms(3) by (simp add: label_bytes_def)
qed

lemma name_loop_labels:
  assumes "\<forall>w\<in>set ws. good_label w" "seg pkt off (concat (map label_bytes ws) @ [0])"
    "off + length (concat (map label_bytes ws)) < len"
  shows "name_loop pkt len off name False after 0 =
    Some (Some (foldl dot_join name (map to_lower ws), off + length (concat (map label_bytes ws)) + 1))"
  using assms
proof (induction ws arbitrary: off name)
  case Nil
  then have "byte_at pkt off = Some 0" by (simp add: seg_Cons del: byte_at_in)
  then show ?case using Nil.prems(3) by (subst name_loop.simps) (simp del: byte_at_in)
next
  case (Cons w ws)
  have g: "good_label w" using Cons.prems(1) by simp
  have l: "off + length (label_bytes w) \<le> len" using Cons.prems(3) by simp
  note st = label_step [OF g _ l, of pkt "concat (map label_bytes ws) @ [0]"]
  have s: "seg pkt off (label_bytes w @ concat (map label_bytes ws) @ [0])" using Cons.prems(2) by simp
  have off: "off < len" using st(7) [OF s] by simp
  have rest: "off + 1 + length w + length (concat (map label_bytes ws)) < len" using Cons.prems(3) by simp
  have n: "(of_nat (length w) :: u8) AND 0xC0 \<noteq> 0xC0" using st(4) [OF s] by simp
  have "name_loop pkt len off name False after 0 =
      name_loop pkt len (off + 1 + length w) (dot_join name (to_lower w)) False after 0"
    by (subst name_loop.simps) (use off n st [OF s] in \<open>simp del: byte_at_in read_chars_in\<close>)
  also have "\<dots> = Some (Some (foldl dot_join (dot_join name (to_lower w)) (map to_lower ws),
      off + 1 + length w + length (concat (map label_bytes ws)) + 1))"
    using Cons.prems(1) by (intro Cons.IH [OF _ st(6) [OF s] rest]) simp
  finally show ?case by simp
qed

lemma query_name_labels:
  assumes "\<forall>w\<in>set ws. good_label w" "seg pkt off (concat (map label_bytes ws) @ [0])"
    "off + length (concat (map label_bytes ws)) < len"
  shows "query_name pkt len off name =
    Some (Some (foldl dot_join name (map to_lower ws), off + length (concat (map label_bytes ws)) + 1))"
  using assms
proof (induction ws arbitrary: off name)
  case Nil
  then have "byte_at pkt off = Some 0" by (simp add: seg_Cons del: byte_at_in)
  then show ?case using Nil.prems(3) by (subst query_name.simps) (simp del: byte_at_in)
next
  case (Cons w ws)
  have g: "good_label w" using Cons.prems(1) by simp
  have l: "off + length (label_bytes w) \<le> len" using Cons.prems(3) by simp
  note st = label_step [OF g _ l, of pkt "concat (map label_bytes ws) @ [0]"]
  have s: "seg pkt off (label_bytes w @ concat (map label_bytes ws) @ [0])" using Cons.prems(2) by simp
  have off: "off < len" using st(7) [OF s] by simp
  have rest: "off + 1 + length w + length (concat (map label_bytes ws)) < len" using Cons.prems(3) by simp
  have "query_name pkt len off name = query_name pkt len (off + 1 + length w) (dot_join name (to_lower w))"
    by (subst query_name.simps) (use off st [OF s] in \<open>simp del: byte_at_in read_chars_in\<close>)
  also have "\<dots> = Some (Some (foldl dot_join (dot_join name (to_lower w)) (map to_lower ws),
      off + 1 + length w + length (concat (map label_bytes ws)) + 1))"
    using Cons.prems(1) by (intro Cons.IH [OF _ st(6) [OF s] rest]) simp
  finally show ?case by simp
qed

lemma lower_dot [simp]: "to_lower ''.'' = ''.''" "lower (CHR ''.'') = CHR ''.''"
  by (simp_all add: to_lower_def lower_def code_def)

lemma dot_joins [simp]: "name \<noteq> [] \<Longrightarrow> dot_join name w = name @ ''.'' @ w" "dot_join [] w = w"
  by (simp_all add: dot_join_def)

lemma fold_dot_join:
  "name \<noteq> [] \<Longrightarrow> ws \<noteq> [] \<Longrightarrow> \<forall>w\<in>set ws. w \<noteq> [] \<Longrightarrow>
   foldl dot_join name (map to_lower ws) = name @ ''.'' @ to_lower (join_labels ws)"
proof (induction ws arbitrary: name rule: join_labels.induct)
  case (3 w v ws)
  have "foldl dot_join (dot_join name (to_lower w)) (map to_lower (v # ws)) =
      dot_join name (to_lower w) @ ''.'' @ to_lower (join_labels (v # ws))"
    using "3.prems" by (intro "3.IH") (auto simp: dot_joins)
  then show ?case using "3.prems"(1) to_lower_append [of "''.''" "join_labels (v # ws)"] by (simp add: dot_joins)
qed (auto simp: dot_joins)

lemma fold_join_lower:
  assumes "ws \<noteq> []" "\<forall>w\<in>set ws. w \<noteq> []"
  shows "foldl dot_join [] (map to_lower ws) = to_lower (join_labels ws)"
proof (cases ws rule: join_labels.cases)
  case (3 w v vs)
  have "foldl dot_join (to_lower w) (map to_lower (v # vs)) = to_lower w @ ''.'' @ to_lower (join_labels (v # vs))"
    using assms 3 by (intro fold_dot_join) auto
  then show ?thesis using 3 to_lower_append [of "''.''" "join_labels (v # vs)"] by (simp add: dot_joins)
qed (use assms in \<open>auto simp: dot_joins\<close>)

lemma dns_name_labels:
  assumes "dns_name s"
  shows "\<forall>w\<in>set (split_on (CHR ''.'') s). good_label w" "encodeName s = concat (map label_bytes (split_on (CHR ''.'') s)) @ [0]"
    "foldl dot_join [] (map to_lower (split_on (CHR ''.'') s)) = to_lower s"
proof -
  show g: "\<forall>w\<in>set (split_on (CHR ''.'') s). good_label w"
    using assms split_no_dot by (auto simp: dns_name_def good_label_def)
  show "encodeName s = concat (map label_bytes (split_on (CHR ''.'') s)) @ [0]"
    using encode_labels_join [of "split_on (CHR ''.'') s"] g by (simp add: encodeName_def good_label_def join_split)
  show "foldl dot_join [] (map to_lower (split_on (CHR ''.'') s)) = to_lower s"
    using fold_join_lower [of "split_on (CHR ''.'') s"] g by (simp add: good_label_def join_split)
qed

lemma readName_encoded:
  assumes "dns_name s" "seg pkt off (encodeName s)" "off + length (encodeName s) \<le> len"
  shows "readName pkt len off = Some (Some (to_lower s, off + length (encodeName s)))"
  using name_loop_labels [OF dns_name_labels(1) [OF assms(1)], of pkt off len "[]" off] assms
  by (simp add: readName_def dns_name_labels [OF assms(1)])

lemma query_name_encoded:
  assumes "dns_name s" "seg pkt off (encodeName s)" "off + length (encodeName s) \<le> len"
  shows "query_name pkt len off [] = Some (Some (to_lower s, off + length (encodeName s)))"
  using query_name_labels [OF dns_name_labels(1) [OF assms(1)], of pkt off len "[]"] assms
  by (simp add: dns_name_labels [OF assms(1)])

section \<open>Records survive\<close>

definition rec_bytes :: "string \<Rightarrow> u16 \<Rightarrow> u32 \<Rightarrow> bool \<Rightarrow> byte_list \<Rightarrow> byte_list" where
  "rec_bytes owner type ttl flush data = record_header owner type ttl (of_nat (length data)) flush @ data"

definition srv_data :: "session_ad \<Rightarrow> byte_list" where
  "srv_data s = dns16 0 @ dns16 0 @ dns16 (sa_port s) @ encodeName (sa_hostName s)"

lemma buildRecords_rec:
  "buildRecords s incl st ht =
     rec_bytes (serviceType s) kTypePTR st False (encodeName (instanceFqdn s)) @
     (if incl \<and> subtype s \<noteq> [] then rec_bytes (subtype s) kTypePTR st False (encodeName (instanceFqdn s)) else []) @
     rec_bytes (instanceFqdn s) kTypeSRV ht True (srv_data s) @
     rec_bytes (instanceFqdn s) kTypeTXT st True (txt_data (sa_txtEntries s)) @
     rec_bytes (sa_hostName s) kTypeA ht True (dns32 (sa_addressV4 s))"
  by (simp add: buildRecords_def rec_bytes_def srv_data_def Let_def)

lemma header_length: "length (record_header owner ty ttl n fl) = length (encodeName owner) + 10"
  by (simp add: record_header_def)

lemma rec_step:
  assumes "seg pkt off (rec_bytes owner ty ttl fl data @ rest)" "dns_name owner" "length data < 65536"
  defines "d \<equiv> off + length (encodeName owner) + 10"
  shows "record_loop pkt (length pkt) wanted (Suc k) off g =
      Option.bind (on_record pkt (length pkt) wanted (to_lower owner) ty (length data) d g)
        (record_loop pkt (length pkt) wanted k (d + length data))"
    and "seg pkt d data" and "seg pkt (d + length data) rest" and "d + length data \<le> length pkt"
proof -
  let ?e = "off + length (encodeName owner)"
  have s: "seg pkt off (encodeName owner)" "seg pkt ?e (dns16 ty)" "seg pkt (?e + 8) (dns16 (of_nat (length data)))"
    "seg pkt d data" "seg pkt (d + length data) rest"
    using assms(1) unfolding rec_bytes_def record_header_def d_def by (simp_all add: seg_append ac_simps)
  show "seg pkt d data" "seg pkt (d + length data) rest" by (rule s(4), rule s(5))
  show b: "d + length data \<le> length pkt" using seg_length [OF s(4)] .
  have n: "readName pkt (length pkt) off = Some (Some (to_lower owner, ?e))"
    using seg_length [OF s(1)] by (intro readName_encoded [OF assms(2) s(1)])
  have l: "unat (of_nat (length data) :: u16) = length data" using assms(3) by (intro unat_of_nat_small) simp
  have "\<not> length pkt < ?e + 10" using b d_def by simp
  then show "record_loop pkt (length pkt) wanted (Suc k) off g =
      Option.bind (on_record pkt (length pkt) wanted (to_lower owner) ty (length data) d g)
        (record_loop pkt (length pkt) wanted k (d + length data))"
    using n seg_read16 [OF s(2)] seg_read16 [OF s(3)] l b by (simp add: d_def Let_def del: read16_in)
qed

lemma on_ptr:
  assumes "seg pkt d (encodeName inst)" "dns_name inst" "inst \<noteq> []"
  shows "on_record pkt (length pkt) wanted owner kTypePTR n d g =
    Some (if owner = wanted then g\<lparr>g_instances := g_instances g @ [to_lower inst]\<rparr> else g)"
  using readName_encoded [OF assms(2,1), of "length pkt"] seg_length [OF assms(1)] assms(3)
  by (simp add: on_record_def record_types)

lemma on_srv:
  assumes "seg pkt d (srv_data s)" "dns_name (sa_hostName s)"
  shows "on_record pkt (length pkt) wanted owner kTypeSRV (length (srv_data s)) d g =
    Some (g\<lparr>g_byOwner := update_owned (\<lambda>x. x\<lparr>ds_port := sa_port s, ds_hostName := to_lower (sa_hostName s)\<rparr>) owner (g_byOwner g)\<rparr>)"
proof -
  have e: "d + 4 = Suc (Suc (Suc (Suc d)))" "d + 6 = Suc (Suc (Suc (Suc (Suc (Suc d)))))" by simp_all
  have s: "seg pkt (d + 4) (dns16 (sa_port s))" "seg pkt (d + 6) (encodeName (sa_hostName s))"
    using assms(1) unfolding srv_data_def e by (simp_all add: seg_append)
  have l: "length (srv_data s) = 6 + length (encodeName (sa_hostName s))" by (simp add: srv_data_def)
  show ?thesis
    using readName_encoded [OF assms(2) s(2), of "d + length (srv_data s)"] seg_read16 [OF s(1)] l
    by (simp add: on_record_def record_types del: read16_in)
qed

definition good_entry :: "string \<Rightarrow> bool" where
  "good_entry e \<longleftrightarrow> e \<noteq> [] \<and> length e \<le> 255"

lemma txt_loop_entries:
  assumes "\<forall>e\<in>set es. good_entry e" "seg pkt at (concat (map txt_entry es))" "stop = at + length (concat (map txt_entry es))"
  shows "txt_loop pkt at stop acc = Some (acc @ es)"
  using assms
proof (induction es arbitrary: at acc)
  case Nil
  then show ?case by (subst txt_loop.simps) simp
next
  case (Cons e es)
  have e: "e \<noteq> []" "length e \<le> 255" using Cons.prems(1) by (auto simp: good_entry_def)
  have te: "txt_entry e = of_nat (length e) # string_bytes e" using e by (simp add: txt_entry_def Let_def min_absorb1)
  have u: "unat (of_nat (length e) :: u8) = length e" using e(2) by (intro unat_of_nat_small) simp
  then have z: "(of_nat (length e) :: u8) \<noteq> 0" using e(1) by (metis length_0_conv unat_0)
  have s: "byte_at pkt at = Some (of_nat (length e))" "seg pkt (at + 1) (string_bytes e)"
    "seg pkt (at + 1 + length e) (concat (map txt_entry es))"
    using Cons.prems(2) te by (simp_all add: seg_Cons seg_append del: byte_at_in)
  have r: "txt_loop pkt (at + 1 + length e) stop (acc @ [e]) = Some ((acc @ [e]) @ es)"
    using Cons.prems(1,3) te s(3) by (intro Cons.IH) simp_all
  show ?case
    using s(1) seg_chars [OF s(2)] u z r Cons.prems(3) te
    by (subst txt_loop.simps) (simp del: byte_at_in read_chars_in)
qed

lemma on_txt:
  assumes "seg pkt d (txt_data es)" "\<forall>e\<in>set es. good_entry e"
  shows "on_record pkt (length pkt) wanted owner kTypeTXT (length (txt_data es)) d g =
    Some (g\<lparr>g_byOwner := update_owned (\<lambda>x. x\<lparr>ds_txtEntries := ds_txtEntries x @ es\<rparr>) owner (g_byOwner g)\<rparr>)"
proof -
  have "txt_loop pkt d (d + length (txt_data es)) [] = Some es"
  proof (cases "es = []")
    case True
    then have "byte_at pkt d = Some 0" using assms(1) by (simp add: txt_data_def seg_Cons del: byte_at_in)
    moreover have "d + 1 \<le> length pkt" using seg_length [OF assms(1)] True by (simp add: txt_data_def)
    ultimately show ?thesis using True
      by (subst txt_loop.simps) (simp add: txt_data_def txt_loop.simps [of _ "Suc d"] del: byte_at_in)
  next
    case False
    then show ?thesis using txt_loop_entries [OF assms(2), of pkt d _ "[]"] assms(1) by (simp add: txt_data_def)
  qed
  then show ?thesis by (simp add: on_record_def record_types)
qed

lemma on_a:
  "seg pkt d (dns32 a) \<Longrightarrow> on_record pkt (length pkt) wanted owner kTypeA 4 d g = Some (g\<lparr>g_addresses := g_addresses g @ [(owner, a)]\<rparr>)"
  using seg_read32 [of pkt d a] by (simp add: on_record_def record_types del: read32_in)

text \<open>A session whose names and entries DNS can carry.\<close>

definition wf_session :: "session_ad \<Rightarrow> bool" where
  "wf_session s \<longleftrightarrow> dns_name (serviceType s) \<and> dns_name (instanceFqdn s) \<and> dns_name (sa_hostName s) \<and>
     (subtype s \<noteq> [] \<longrightarrow> dns_name (subtype s) \<and> to_lower (subtype s) \<noteq> to_lower (serviceType s)) \<and>
     length (encodeName (instanceFqdn s)) < 65536 \<and> length (srv_data s) < 65536 \<and>
     length (txt_data (sa_txtEntries s)) < 65536 \<and> (\<forall>e\<in>set (sa_txtEntries s). good_entry e)"

definition as_discovered :: "session_ad \<Rightarrow> discovered" where
  "as_discovered s = \<lparr>ds_instanceName = to_lower (instanceFqdn s), ds_hostName = to_lower (sa_hostName s),
     ds_port = sa_port s, ds_addressV4 = sa_addressV4 s, ds_txtEntries = sa_txtEntries s\<rparr>"

text \<open>The last three records, after any number of PTR records gathered into \<open>insts\<close>.\<close>

lemma instance_records:
  assumes "wf_session s" "seg pkt off
      (rec_bytes (instanceFqdn s) kTypeSRV ht True (srv_data s) @
       rec_bytes (instanceFqdn s) kTypeTXT st True (txt_data (sa_txtEntries s)) @
       rec_bytes (sa_hostName s) kTypeA ht True (dns32 (sa_addressV4 s)))"
  shows "record_loop pkt (length pkt) wanted 3 off \<lparr>g_instances = insts, g_byOwner = [], g_addresses = []\<rparr> =
    Some \<lparr>g_instances = insts, g_byOwner = [(to_lower (instanceFqdn s), (as_discovered s)\<lparr>ds_addressV4 := 0\<rparr>)],
      g_addresses = [(to_lower (sa_hostName s), sa_addressV4 s)]\<rparr>"
proof -
  have wf: "dns_name (instanceFqdn s)" "dns_name (sa_hostName s)" "length (srv_data s) < 65536"
    "length (txt_data (sa_txtEntries s)) < 65536" "\<forall>e\<in>set (sa_txtEntries s). good_entry e"
    using assms(1) by (auto simp: wf_session_def)
  note r1 = rec_step [OF assms(2) wf(1,3)]
  note r2 = rec_step [OF r1(3) wf(1,4)]
  have r3: "seg pkt (off + length (encodeName (instanceFqdn s)) + 10 + length (srv_data s) +
      length (encodeName (instanceFqdn s)) + 10 + length (txt_data (sa_txtEntries s)))
      (rec_bytes (sa_hostName s) kTypeA ht True (dns32 (sa_addressV4 s)) @ [])" using r2(3) by simp
  have l4: "length (dns32 (sa_addressV4 s)) < 65536" by simp
  note r3 = rec_step [OF r3 wf(2) l4]
  have three: "(3 :: nat) = Suc (Suc (Suc 0))" by simp
  show ?thesis
    unfolding three r1(1) on_srv [OF r1(2) wf(2)] bind.bind_lunit r2(1) on_txt [OF r2(2) wf(5)] r3(1) dns_lengths on_a [OF r3(2)]
    by (simp add: as_discovered_def discovered_default_def)
qed

lemma instance_nonempty [simp]: "instanceFqdn s \<noteq> []"
  by (simp add: instanceFqdn_def)

lemma all_records:
  assumes "wf_session s" "seg pkt 12 (buildRecords s incl st ht)"
  shows "record_loop pkt (length pkt) (to_lower (serviceType s)) (unat (answerCountFor s incl)) 12 gathered_empty =
    Some \<lparr>g_instances = [to_lower (instanceFqdn s)],
      g_byOwner = [(to_lower (instanceFqdn s), (as_discovered s)\<lparr>ds_addressV4 := 0\<rparr>)],
      g_addresses = [(to_lower (sa_hostName s), sa_addressV4 s)]\<rparr>"
proof -
  have wf: "dns_name (serviceType s)" "dns_name (instanceFqdn s)" "length (encodeName (instanceFqdn s)) < 65536"
    using assms(1) by (auto simp: wf_session_def)
  note r1 = rec_step [OF assms(2) [unfolded buildRecords_rec] wf(1,3)]
  note p1 = on_ptr [OF r1(2) wf(2) instance_nonempty]
  show ?thesis
  proof (cases "incl \<and> subtype s \<noteq> []")
    case False
    then have n: "unat (answerCountFor s incl) = Suc 3" by (simp add: answerCountFor_def)
    show ?thesis
      unfolding n r1(1) p1 using instance_records [OF assms(1), of pkt] r1(3) False by (simp add: gathered_empty_def)
  next
    case True
    then have sub: "dns_name (subtype s)" "to_lower (subtype s) \<noteq> to_lower (serviceType s)"
      using assms(1) by (auto simp: wf_session_def)
    have n: "unat (answerCountFor s incl) = Suc (Suc 3)" using True by (simp add: answerCountFor_def)
    note s2 = r1(3) [unfolded if_P [OF True]]
    note r2 = rec_step [OF s2 sub(1) wf(3)]
    note p2 = on_ptr [OF r2(2) wf(2) instance_nonempty]
    show ?thesis
      unfolding n r1(1) p1 bind.bind_lunit r2(1) p2 using instance_records [OF assms(1) r2(3)] sub(2)
      by (simp add: gathered_empty_def)
  qed
qed

lemma packet_parsed:
  fixes incl st ht
  assumes "wf_session s"
  defines "pkt \<equiv> buildPacket (buildRecords s incl st ht) (answerCountFor s incl)"
  shows "parseServiceResponse (Some pkt) (length pkt) (serviceType s) = Some [as_discovered s]"
proof -
  have hdr: "seg pkt 0 (dns16 0 @ dns16 0x8400 @ dns16 0 @ dns16 (answerCountFor s incl) @ dns16 0 @ dns16 0 @
      buildRecords s incl st ht)"
    unfolding pkt_def buildPacket_def by (rule seg_whole)
  then have h: "seg pkt 2 (dns16 0x8400)" "seg pkt 4 (dns16 0)" "seg pkt 6 (dns16 (answerCountFor s incl))"
    "seg pkt 8 (dns16 0)" "seg pkt 10 (dns16 0)" "seg pkt 12 (buildRecords s incl st ht)"
    by (simp_all add: seg_append numeral_eq_Suc)
  have len: "\<not> length pkt < 12" using seg_length [OF h(5)] by simp
  have c: "collect \<lparr>g_instances = [to_lower (instanceFqdn s)],
      g_byOwner = [(to_lower (instanceFqdn s), (as_discovered s)\<lparr>ds_addressV4 := 0\<rparr>)],
      g_addresses = [(to_lower (sa_hostName s), sa_addressV4 s)]\<rparr> = [as_discovered s]"
    by (simp add: collect_def with_address_def as_discovered_def)
  show ?thesis
    using len all_records [OF assms(1) h(6)] c
    by (simp add: parseServiceResponse_def h(1-5) [THEN seg_read16] del: read16_in)
qed

lemma query_parsed:
  assumes "dns_name service"
  shows "parseQueryNames (Some (buildQuery service)) (length (buildQuery service)) = Some [to_lower service]"
proof -
  let ?pkt = "buildQuery service"
  have h: "seg ?pkt 0 ([0, 0, 0, 0, 0, 1, 0, 0, 0, 0, 0, 0] @ encodeName service @ [0, ucast kTypePTR, 0, ucast kClassIN])"
    unfolding buildQuery_def by (rule seg_whole)
  then have n: "seg ?pkt 12 (encodeName service)" unfolding seg_append by (simp add: numeral_eq_Suc)
  have l: "length ?pkt = 12 + length (encodeName service) + 4" by (simp add: buildQuery_def)
  have f: "read16 ?pkt 2 = Some 0" "read16 ?pkt 4 = Some 1"
    using l by (simp_all add: buildQuery_def be16_def)
  have q: "query_name ?pkt (length ?pkt) 12 [] = Some (Some (to_lower service, 12 + length (encodeName service)))"
    using l by (intro query_name_encoded [OF assms n]) simp
  have ne: "service \<noteq> []" using assms by (auto simp: dns_name_def)
  show ?thesis using f q l ne by (simp add: parseQueryNames_def del: read16_in)
qed

section \<open>What the codec guarantees\<close>


definition example_session :: session_ad where
  "example_session = \<lparr>sa_instanceName = ''Studio A'', sa_hostName = ''box.local'', sa_port = 554, sa_addressV4 = 0xC0A80105,
     sa_txtEntries = [''v=1''], serviceType = kRtspService, subtype = kRavennaSessionSubtype\<rparr>"

lemma encode_labels_length: "length (encode_labels s) \<le> length s + 1"
proof (induction s rule: encode_labels.induct)
  case (1 s)
  show ?case
  proof (cases "s = []")
    case False
    let ?w = "takeWhile (\<lambda>c. c \<noteq> CHR ''.'') s"
    have "length (encode_labels (drop (length ?w + 1) s)) \<le> length (drop (length ?w + 1) s) + 1"
      using 1 False by (simp add: Let_def)
    moreover have "length ?w \<le> length s" by (rule length_takeWhile_le)
    moreover have "encode_labels (drop (length ?w + 1) s) = []" if "length ?w = length s"
      using that by (simp add: encode_labels.simps)
    ultimately show ?thesis using False
      by (subst encode_labels.simps) (cases "length ?w = length s", auto simp: Let_def)
  qed (simp add: encode_labels.simps)
qed

lemma example_session_wf: "wf_session example_session"
proof -
  have "dns_name (serviceType example_session)" "dns_name (instanceFqdn example_session)"
    "dns_name (sa_hostName example_session)" "dns_name (subtype example_session)"
    "to_lower (subtype example_session) \<noteq> to_lower (serviceType example_session)"
    by (simp_all add: dns_name_def example_session_def instanceFqdn_def kRtspService_def kRavennaSessionSubtype_def to_lower_def)
  moreover have "length (encodeName (instanceFqdn example_session)) < 65536" "length (srv_data example_session) < 65536"
    using encode_labels_length [of "instanceFqdn example_session"] encode_labels_length [of "sa_hostName example_session"]
    by (simp_all add: encodeName_def srv_data_def example_session_def instanceFqdn_def kRtspService_def)
  ultimately show ?thesis
    by (simp add: wf_session_def txt_data_def txt_entry_def good_entry_def example_session_def)
qed


text \<open>
  A withdrawn session is found again. The goodbye packet, whose only difference is a time to live of
  zero, is read back as exactly the service it withdraws: the reader never looks at the time to live.
\<close>
theorem dns_goodbye_found:
  assumes "wf_session s"
  shows "parseServiceResponse (Some (buildGoodbye s incl)) (length (buildGoodbye s incl)) (serviceType s) =
    Some [as_discovered s]"
  unfolding buildGoodbye_def by (rule packet_parsed [OF assms])

theorem dns_goodbye_found_witness:
  "parseServiceResponse (Some (buildGoodbye example_session False)) (length (buildGoodbye example_session False))
     (serviceType example_session) = Some [as_discovered example_session]"
  by (rule dns_goodbye_found [OF example_session_wf])

text \<open>
  C36: No packet makes the DNS readers loop or read outside it. For every byte string, \<open>parseQueryNames\<close> and
  \<open>parseServiceResponse\<close> return a value; in particular compression pointers that go in circles end.
\<close>
theorem dns_readers_total:
  "(\<exists>names. parseQueryNames (Some pkt) (length pkt) = Some names) \<and>
   (\<exists>found. parseServiceResponse (Some pkt) (length pkt) service = Some found)"
proof
  show "\<exists>names. parseQueryNames (Some pkt) (length pkt) = Some names"
    using query_loop_total [of "length pkt" pkt] by (cases "length pkt < 12") (auto simp: parseQueryNames_def)
  show "\<exists>found. parseServiceResponse (Some pkt) (length pkt) service = Some found"
  proof (cases "length pkt < 12")
    case False
    then obtain fl q a n r where h: "read16 pkt 2 = Some fl" "read16 pkt 4 = Some q" "read16 pkt 6 = Some a"
      "read16 pkt 8 = Some n" "read16 pkt 10 = Some r" by simp
    obtain st where "skip_questions pkt (length pkt) (unat q) 12 = Some st"
      using skip_questions_total [of "length pkt" pkt] by blast
    then show ?thesis using False h record_loop_total [of "length pkt" pkt]
      by (cases st) (auto simp: parseServiceResponse_def)
  qed (simp add: parseServiceResponse_def)
qed

end
