(* ===== verification/Ravenna_Sessions.thy ===== *)
theory Ravenna_Sessions
  imports SDP_Sessions DNS_SD Channel_Mapper
begin

text \<open>
  The RAVENNA session layer: RTSP messages (\<open>RtspMessages.cpp\<close>), the catalogue of sessions
  (\<open>SessionCatalogue.cpp\<close>) and the answer of the RTSP server to one request
  (\<open>RtspServer::answer\<close>). Sockets are not modelled: a request is its text, and the answer is the
  text that is sent, \<open>None\<close> when nothing is sent.
\<close>

section \<open>Text helpers of the session layer\<close>

definition api_blank :: "char \<Rightarrow> bool" where
  "api_blank c \<longleftrightarrow> c = CHR '' '' \<or> c = CHR 0x09 \<or> c = CHR 0x0D \<or> c = CHR 0x0A"

definition trimmed :: "string \<Rightarrow> string" where
  "trimmed text = drop_end api_blank (dropWhile api_blank text)"

definition lowered :: "string \<Rightarrow> string" where
  "lowered text = to_lower text"

definition segmentsOf :: "string \<Rightarrow> string list" where
  "segmentsOf path = filter (\<lambda>w. w \<noteq> []) (split_on (CHR ''/'') path)"

text \<open>\<open>inet_ntop\<close> of an address in host byte order.\<close>

definition addressText :: "u32 \<Rightarrow> string" where
  "addressText a = dotted (unat (drop_bit 24 a)) (unat (drop_bit 16 a AND 0xFF)) (unat (drop_bit 8 a AND 0xFF)) (unat (a AND 0xFF))"

text \<open>The words \<open>operator>>\<close> reads from a stream.\<close>

function stream_words :: "string \<Rightarrow> string list" where
  "stream_words s =
     (let t = dropWhile is_space s in
      if t = [] then []
      else takeWhile (\<lambda>c. \<not> is_space c) t # stream_words (dropWhile (\<lambda>c. \<not> is_space c) t))"
  by pat_completeness auto

termination
proof (relation "measure length", goal_cases)
  case (2 s t)
  then obtain c cs where c: "t = c # cs" by (meson neq_Nil_conv)
  then have "\<not> is_space c" using hd_dropWhile [of is_space s] 2 by (metis list.sel(1))
  then have "length (dropWhile (\<lambda>c. \<not> is_space c) t) \<le> length cs" using c length_dropWhile_le by simp
  moreover have "length t \<le> length s" unfolding 2(1) by (rule length_dropWhile_le)
  ultimately show ?case using c by simp
qed simp

declare stream_words.simps [simp del]

section \<open>RTSP messages\<close>

datatype rtsp_method = Options | Describe | Unsupported

record rtsp_request =
  rq_method :: rtsp_method
  rq_methodName :: string
  rq_uri :: string
  rq_version :: string
  rq_headers :: "(string, string) stdmap"
  rq_sequence :: u32

definition methodFrom :: "string \<Rightarrow> rtsp_method" where
  "methodFrom name = (if name = ''OPTIONS'' then Options else if name = ''DESCRIBE'' then Describe else Unsupported)"

definition is_xdigit :: "char \<Rightarrow> bool" where
  "is_xdigit c \<longleftrightarrow> digit_val 16 c \<noteq> None"

text \<open>\<open>static_cast<char>(std::stoi({high, low}, nullptr, 16))\<close> on two hexadecimal digits.\<close>

definition hex_pair :: "char \<Rightarrow> char \<Rightarrow> char" where
  "hex_pair high low = (case digit_val 16 high of None \<Rightarrow> high | Some h \<Rightarrow>
     (case digit_val 16 low of None \<Rightarrow> low | Some l \<Rightarrow> chr (h * 16 + l)))"

fun percentDecode :: "string \<Rightarrow> string" where
  "percentDecode (p # high # low # rest) =
     (if p \<noteq> CHR ''%'' then p # percentDecode (high # low # rest)
      else if \<not> is_xdigit high \<or> \<not> is_xdigit low then p # percentDecode (high # low # rest)
      else hex_pair high low # percentDecode rest)"
| "percentDecode s = s"

definition unreserved :: "char \<Rightarrow> bool" where
  "unreserved c \<longleftrightarrow> 65 \<le> code c \<and> code c \<le> 90 \<or> 97 \<le> code c \<and> code c \<le> 122 \<or> is_digit c \<or>
     c = CHR ''-'' \<or> c = CHR ''.'' \<or> c = CHR ''_'' \<or> c = CHR ''~''"

definition kHex :: "nat \<Rightarrow> char" where
  "kHex d = ''0123456789ABCDEF'' ! d"

definition percentEncodePath :: "string \<Rightarrow> string" where
  "percentEncodePath text = concat (map (\<lambda>c.
     if unreserved c \<or> c = CHR ''/'' then [c] else [CHR ''%'', kHex (code c div 16), kHex (code c mod 16)]) text)"

definition hasCompleteHeaders :: "string \<Rightarrow> bool" where
  "hasCompleteHeaders text \<longleftrightarrow>
     str_find [CHR 0x0D, CHR 0x0A, CHR 0x0D, CHR 0x0A] text \<noteq> None \<or> str_find [CHR 0x0A, CHR 0x0A] text \<noteq> None"

fun header_loop :: "string list \<Rightarrow> (string, string) stdmap \<Rightarrow> (string, string) stdmap" where
  "header_loop [] hs = hs"
| "header_loop (line # lines) hs =
     (let header = trimmed line in
      if header = [] then hs
      else (case cut_first (CHR '':'') header of
          None \<Rightarrow> header_loop lines hs
        | Some (name, value) \<Rightarrow> header_loop lines (map_put (lowered (trimmed name)) (trimmed value) hs)))"

definition parseRtspRequest :: "string \<Rightarrow> rtsp_request option" where
  "parseRtspRequest text = (case getline_parts (CHR 0x0A) text of
       [] \<Rightarrow> None
     | line # lines \<Rightarrow> (case stream_words (trimmed line) of
           meth # uri # ver # others \<Rightarrow>
             if take 5 ver \<noteq> ''RTSP/'' then None
             else (let hs = header_loop lines [] in
               Some \<lparr>rq_method = methodFrom meth, rq_methodName = meth, rq_uri = uri, rq_version = ver,
                 rq_headers = hs,
                 rq_sequence = (case map_find hs ''cseq'' of
                     None \<Rightarrow> 0
                   | Some v \<Rightarrow> (case stoul 10 v of Inl e \<Rightarrow> 0 | Inr n \<Rightarrow> ucast n))\<rparr>)
         | _ \<Rightarrow> None))"

definition buildRtspResponse :: "u32 \<Rightarrow> nat \<Rightarrow> string \<Rightarrow> (string, string) stdmap \<Rightarrow> string \<Rightarrow> string" where
  "buildRtspResponse seq statusCode statusText hs body =
     ''RTSP/1.0 '' @ decimal statusCode @ '' '' @ statusText @ kCRLF @
     ''CSeq: '' @ decimal (unat seq) @ kCRLF @
     concat (map (\<lambda>(name, value). name @ '': '' @ value @ kCRLF) hs) @
     (if body \<noteq> [] then ''Content-Length: '' @ decimal (length body) @ kCRLF else []) @
     kCRLF @ body"

definition buildDescribeResponse :: "u32 \<Rightarrow> string \<Rightarrow> string \<Rightarrow> string" where
  "buildDescribeResponse seq contentBase sdp = buildRtspResponse seq 200 ''OK''
     (map_put ''Content-Base'' contentBase (map_put ''Content-Type'' ''application/sdp'' [])) sdp"

definition buildOptionsResponse :: "u32 \<Rightarrow> string" where
  "buildOptionsResponse seq = buildRtspResponse seq 200 ''OK'' (map_put ''Public'' ''OPTIONS, DESCRIBE'' []) []"

definition buildNotImplementedResponse :: "u32 \<Rightarrow> string" where
  "buildNotImplementedResponse seq = buildRtspResponse seq 501 ''Not Implemented'' [] []"

definition buildNotFoundResponse :: "u32 \<Rightarrow> string" where
  "buildNotFoundResponse seq = buildRtspResponse seq 404 ''Not Found'' [] []"

section \<open>The catalogue\<close>

record ravenna_session =
  rs_name :: string
  rs_path :: string
  rs_sdp :: sdp_session
  rs_mapping :: channel_mapping

type_synonym catalogue = "(string, ravenna_session) stdmap"

definition pathFor :: "string \<Rightarrow> string" where
  "pathFor name = ''/by-name/'' @ name"

text \<open>\<open>SessionCatalogue::add\<close>: the text of \<open>error\<close>, or the catalogue with the session in it.\<close>

definition cat_add :: "ravenna_session \<Rightarrow> catalogue \<Rightarrow> string + catalogue" where
  "cat_add s cat =
     (if rs_name s = []
      then Inl ''a session needs a name: it is what DNS-SD advertises and what a DESCRIBE asks for''
      else if \<not> sdp_isValid (rs_sdp s)
      then Inl (''the SDP for '' @ rs_name s @ '' is not valid'' @
        concat (map (\<lambda>problem. [CHR 0x0A] @ ''  - '' @ problem) (getValidationErrors (rs_sdp s))))
      else if deviceChannelCount (rs_mapping s) \<noteq> sd_numChannels (rs_sdp s)
      then Inl (''session '' @ rs_name s @ '' maps '' @ decimal (unat (deviceChannelCount (rs_mapping s))) @
        '' device channels but its SDP announces '' @ decimal (unat (sd_numChannels (rs_sdp s))))
      else (let stored = (if rs_path s = [] then s\<lparr>rs_path := pathFor (rs_name s)\<rparr> else s) in
        Inr (map_put (rs_name stored) stored cat)))"

definition cat_remove :: "string \<Rightarrow> catalogue \<Rightarrow> catalogue \<times> bool" where
  "cat_remove name cat = (map_erase name cat, map_find cat name \<noteq> None)"

definition describe :: "u64 \<Rightarrow> catalogue \<Rightarrow> string \<Rightarrow> string option" where
  "describe now cat path = map_option (\<lambda>(name, s). generate now (rs_sdp s)) (List.find (\<lambda>(name, s). rs_path s = path) cat)"

definition advertisements :: "catalogue \<Rightarrow> string \<Rightarrow> u16 \<Rightarrow> u32 \<Rightarrow> session_ad list" where
  "advertisements cat hostName port addressV4 = map (\<lambda>(name, s).
     \<lparr>sa_instanceName = name, sa_hostName = hostName, sa_port = port, sa_addressV4 = addressV4,
      sa_txtEntries = [''txtvers=1'', ''path='' @ rs_path s, ''channels='' @ decimal (unat (sd_numChannels (rs_sdp s)))],
      serviceType = kRtspService, subtype = kRavennaSessionSubtype\<rparr>) cat"

definition cat_session :: "string \<Rightarrow> catalogue \<Rightarrow> ravenna_session option" where
  "cat_session name cat = map_find cat name"

definition cat_names :: "catalogue \<Rightarrow> string list" where
  "cat_names cat = map fst cat"

section \<open>The server\<close>

definition describe_path :: "string \<Rightarrow> string" where
  "describe_path uri = (case str_find ''://'' uri of
       None \<Rightarrow> uri
     | Some scheme \<Rightarrow>
         (let rest = dropWhile (\<lambda>c. c \<noteq> CHR ''/'') (drop (scheme + 3) uri) in if rest = [] then ''/'' else rest))"

definition answer :: "u64 \<Rightarrow> catalogue \<Rightarrow> string \<Rightarrow> string option" where
  "answer now cat text = (case parseRtspRequest text of
       None \<Rightarrow> None
     | Some request \<Rightarrow> Some (case rq_method request of
           Options \<Rightarrow> buildOptionsResponse (rq_sequence request)
         | Describe \<Rightarrow> (case describe now cat (percentDecode (describe_path (rq_uri request))) of
               Some sdp \<Rightarrow> buildDescribeResponse (rq_sequence request) (rq_uri request) sdp
             | None \<Rightarrow> buildNotFoundResponse (rq_sequence request))
         | Unsupported \<Rightarrow> buildNotImplementedResponse (rq_sequence request)))"

section \<open>Percent escapes\<close>

lemma kHex_val: "d < 16 \<Longrightarrow> digit_val 16 (kHex d) = Some d"
proof -
  have "list_all (\<lambda>d. digit_val 16 (kHex d) = Some d) [0..<16]" by code_simp
  then show "d < 16 \<Longrightarrow> digit_val 16 (kHex d) = Some d" by (simp add: list_all_iff)
qed

lemma percentDecode_plain: "c \<noteq> CHR ''%'' \<Longrightarrow> percentDecode (c # s) = c # percentDecode s"
proof (cases s)
  case (Cons a t)
  assume "c \<noteq> CHR ''%''"
  then show ?thesis using Cons by (cases t) simp_all
qed simp

lemma percent_roundtrip: "percentDecode (percentEncodePath s) = s"
proof (induction s)
  case (Cons c s)
  show ?case
  proof (cases "unreserved c \<or> c = CHR ''/''")
    case True
    then have "c \<noteq> CHR ''%''" by (auto simp: unreserved_def is_digit_def code_def)
    then show ?thesis using True Cons by (simp add: percentEncodePath_def percentDecode_plain)
  next
    case False
    have d: "code c div 16 < 16" "code c mod 16 < 16" by (rule less_mult_imp_div_less, simp_all)
    have "chr (code c div 16 * 16 + code c mod 16) = c" by simp
    then show ?thesis using False Cons d
      by (simp add: percentEncodePath_def is_xdigit_def hex_pair_def kHex_val)
  qed
qed (simp add: percentEncodePath_def)

lemma kHex_token: "d < 16 \<Longrightarrow> \<not> is_space (kHex d)"
proof -
  have "list_all (\<lambda>d. \<not> is_space (kHex d)) [0..<16]" by code_simp
  then show "d < 16 \<Longrightarrow> \<not> is_space (kHex d)" by (simp add: list_all_iff)
qed

lemma percentEncode_token: "token (percentEncodePath s)"
proof (induction s)
  case (Cons c s)
  have d: "code c div 16 < 16" "code c mod 16 < 16" by (rule less_mult_imp_div_less, simp_all)
  have "\<not> is_space c" if "unreserved c \<or> c = CHR ''/''" using that by (auto simp: unreserved_def is_digit_def is_space_def code_def)
  then show ?case using Cons kHex_token [OF d(1)] kHex_token [OF d(2)]
    by (simp add: percentEncodePath_def token_def is_space_def [of "CHR ''%''"] code_def)
qed (simp add: percentEncodePath_def token_def)

section \<open>Reading a request\<close>

lemma stream_words_Nil [simp]: "stream_words [] = []"
  by (simp add: stream_words.simps)

lemma stream_words_token:
  assumes "token w" "w \<noteq> []"
  shows "stream_words (w @ CHR '' '' # s) = w # stream_words s" "stream_words w = [w]"
proof -
  have ns: "\<forall>c\<in>set w. \<not> is_space c" using assms(1) by (simp add: token_def list_all_iff)
  have sp: "is_space (CHR '' '')" by (simp add: is_space_def code_def)
  have t: "takeWhile (\<lambda>c. \<not> is_space c) (w @ CHR '' '' # s) = w" "dropWhile (\<lambda>c. \<not> is_space c) (w @ CHR '' '' # s) = CHR '' '' # s"
    "takeWhile (\<lambda>c. \<not> is_space c) w = w" "dropWhile (\<lambda>c. \<not> is_space c) w = []"
    using ns sp by (simp_all add: takeWhile_append2 dropWhile_append2)
  have d: "dropWhile is_space (w @ r) = w @ r" for r using ns assms(2) by (cases w) auto
  have b: "stream_words (CHR '' '' # s) = stream_words s" using sp by (subst (1 2) stream_words.simps) simp
  show "stream_words (w @ CHR '' '' # s) = w # stream_words s"
    using assms(2) by (subst stream_words.simps) (simp add: d t b)
  show "stream_words w = [w]" using assms(2) d [of "[]"] by (subst stream_words.simps) (simp add: t)
qed

lemma api_blank_space: "api_blank c \<Longrightarrow> is_space c"
  by (auto simp: api_blank_def is_space_def code_def)

lemma trimmed_solid:
  assumes "s \<noteq> []" "\<not> is_space (hd s)" "\<not> is_space (last s)"
  shows "trimmed (s @ [CHR 0x0D]) = s" "trimmed s = s"
proof -
  have "dropWhile api_blank (s @ r) = s @ r" for r using assms api_blank_space by (cases s) auto
  then have t: "trimmed (s @ r) = drop_end api_blank (s @ r)" for r by (simp add: trimmed_def)
  have "\<not> api_blank (last s)" using assms(3) api_blank_space by blast
  then have s: "drop_end api_blank s = s" by (intro drop_end_id) simp
  show "trimmed (s @ [CHR 0x0D]) = s" unfolding t drop_end_append s by (simp add: api_blank_def)
  show "trimmed s = s" using t [of "[]"] s by simp
qed

text \<open>The text of a request as a client writes it.\<close>

definition request_text :: "string \<Rightarrow> string \<Rightarrow> u32 \<Rightarrow> string" where
  "request_text meth uri seq =
     meth @ '' '' @ uri @ '' RTSP/1.0'' @ kCRLF @ ''CSeq: '' @ decimal (unat seq) @ kCRLF @ kCRLF"

lemma request_parsed:
  assumes "token meth" "meth \<noteq> []" "token uri" "uri \<noteq> []"
  shows "parseRtspRequest (request_text meth uri seq) =
    Some \<lparr>rq_method = methodFrom meth, rq_methodName = meth, rq_uri = uri, rq_version = ''RTSP/1.0'',
      rq_headers = [(''cseq'', decimal (unat seq))], rq_sequence = seq\<rparr>"
proof -
  let ?r = "meth @ CHR '' '' # uri @ CHR '' '' # ''RTSP/1.0''"
  let ?h = "''CSeq'' @ CHR '':'' # CHR '' '' # decimal (unat seq)"
  have v: "token ''RTSP/1.0''" by (simp add: token_def is_space_def code_def)
  have nl: "CHR 0x0A \<notin> set (?r @ [CHR 0x0D])" "CHR 0x0A \<notin> set (?h @ [CHR 0x0D])" "CHR 0x0A \<notin> set [CHR 0x0D]"
    using token_newline assms token_newline [OF token_decimal [of "unat seq"]] by auto
  have rt: "request_text meth uri seq =
      (?r @ [CHR 0x0D]) @ CHR 0x0A # ((?h @ [CHR 0x0D]) @ CHR 0x0A # ([CHR 0x0D] @ CHR 0x0A # []))"
    by (simp add: request_text_def kCRLF_def)
  have g0: "getline_parts (CHR 0x0A) [] = []" by (simp add: getline_parts_def)
  have lines: "getline_parts (CHR 0x0A) (request_text meth uri seq) = [?r @ [CHR 0x0D], ?h @ [CHR 0x0D], [CHR 0x0D]]"
    unfolding rt getline_parts_append [OF nl(1)] getline_parts_append [OF nl(2)] getline_parts_append [OF nl(3)] g0 ..
  have hd: "\<not> is_space (hd meth)" using assms(1,2) by (cases meth) (auto simp: token_def)
  have "\<not> is_space (hd ?r)" "\<not> is_space (last ?r)" using hd assms(2) by (auto simp: hd_append is_space_def code_def)
  then have tr: "trimmed (?r @ [CHR 0x0D]) = ?r" by (intro trimmed_solid) simp_all
  have w: "stream_words ?r = [meth, uri, ''RTSP/1.0'']"
    unfolding stream_words_token(1) [OF assms(1,2)] stream_words_token(1) [OF assms(3,4)] stream_words_token(2) [OF v list.distinct(2)] ..
  obtain c cs where c: "decimal (unat seq) = c # cs" "is_digit c" using decimal_hd by blast
  have ld: "is_digit (last (decimal (unat seq)))" using last_in_set [OF decimal_nonempty [of "unat seq"]] decimal_digits by blast
  have th: "trimmed (?h @ [CHR 0x0D]) = ?h"
    using digit_facts(1) [OF ld] by (intro trimmed_solid) (simp_all add: is_space_def [of "CHR ''C''"] code_def)
  have tn: "trimmed ''CSeq'' = ''CSeq''" by (intro trimmed_solid) (simp_all add: is_space_def code_def)
  have "trimmed (decimal (unat seq)) = decimal (unat seq)"
    using digit_facts(1) [OF ld] digit_facts(1) [OF c(2)] c(1) by (intro trimmed_solid) simp_all
  then have tv: "trimmed (CHR '' '' # decimal (unat seq)) = decimal (unat seq)"
    by (simp add: trimmed_def) (simp add: api_blank_def)
  have cf: "cut_first (CHR '':'') ?h = Some (''CSeq'', CHR '' '' # decimal (unat seq))" by (rule cut_first_append) simp
  have lw: "lowered ''CSeq'' = ''cseq''" by code_simp
  have te: "trimmed [CHR 0x0D] = []" by code_simp
  have hs: "header_loop [?h @ [CHR 0x0D], [CHR 0x0D]] [] = [(''cseq'', decimal (unat seq))]"
    unfolding header_loop.simps th te cf Let_def option.case prod.case tn tv lw by simp
  have "unat seq < 2 ^ 64" using unat_ranges(2) [of seq] by simp
  then show ?thesis unfolding parseRtspRequest_def lines list.case tr w hs Let_def by simp
qed

section \<open>The catalogue's invariant\<close>

definition session_ok :: "string \<Rightarrow> ravenna_session \<Rightarrow> bool" where
  "session_ok n s \<longleftrightarrow> rs_name s = n \<and> n \<noteq> [] \<and> rs_path s \<noteq> [] \<and> sdp_isValid (rs_sdp s) \<and>
     deviceChannelCount (rs_mapping s) = sd_numChannels (rs_sdp s)"

definition cat_inv :: "catalogue \<Rightarrow> bool" where
  "cat_inv cat \<longleftrightarrow> sorted_map cat \<and> (\<forall>n s. map_find cat n = Some s \<longrightarrow> session_ok n s)"

declare cat_inv_def [inv_defs]

datatype cat_op = CatAdd ravenna_session | CatRemove string

fun cat_apply :: "cat_op \<Rightarrow> catalogue \<Rightarrow> catalogue" where
  "cat_apply (CatAdd s) cat = (case cat_add s cat of Inl e \<Rightarrow> cat | Inr cat' \<Rightarrow> cat')"
| "cat_apply (CatRemove n) cat = fst (cat_remove n cat)"

lemma cat_add_ok:
  "cat_add s cat = Inr cat' \<Longrightarrow> \<exists>s'. cat' = map_put (rs_name s) s' cat \<and> session_ok (rs_name s) s' \<and> rs_sdp s' = rs_sdp s \<and>
     rs_path s' = (if rs_path s = [] then pathFor (rs_name s) else rs_path s)"
  by (auto simp: cat_add_def session_ok_def Let_def pathFor_def split: if_splits)

lemma cat_apply_inv: "cat_inv cat \<Longrightarrow> cat_inv (cat_apply op cat)"
proof (cases op)
  case (CatAdd s)
  assume "cat_inv cat"
  then show ?thesis using CatAdd cat_add_ok [of s cat] by (cases "cat_add s cat") (auto simp: cat_inv_def sorted_map_put split: if_splits)
qed (auto simp: cat_inv_def cat_remove_def sorted_map_erase)

lemma cat_run_inv: "cat_inv cat \<Longrightarrow> cat_inv (fold cat_apply ops cat)"
  by (induction ops arbitrary: cat) (simp_all add: cat_apply_inv)

text \<open>Sessions that are found at the path made of their name.\<close>

definition own_paths :: "catalogue \<Rightarrow> bool" where
  "own_paths cat \<longleftrightarrow> list_all (\<lambda>(n, s). rs_path s = pathFor n) cat"

lemma describe_own: "own_paths cat \<Longrightarrow> describe now cat (pathFor name) = map_option (\<lambda>s. generate now (rs_sdp s)) (map_find cat name)"
  by (induction cat) (auto simp: describe_def own_paths_def pathFor_def)

lemma own_paths_put: "own_paths cat \<Longrightarrow> rs_path s = pathFor k \<Longrightarrow> own_paths (map_put k s cat)"
  by (induction k s cat rule: map_put.induct) (auto simp: own_paths_def)

lemma own_paths_erase: "own_paths cat \<Longrightarrow> own_paths (map_erase k cat)"
  by (auto simp: own_paths_def map_erase_def list_all_iff)

section \<open>A request for a session\<close>

lemma percentEncode_path: "percentEncodePath (pathFor name) = ''/by-name/'' @ percentEncodePath name"
  by (simp add: percentEncodePath_def pathFor_def unreserved_def is_digit_def code_def)

lemma describe_path_uri:
  assumes "CHR ''/'' \<notin> set authority"
  shows "describe_path (''rtsp://'' @ authority @ CHR ''/'' # p) = CHR ''/'' # p"
proof -
  have "dropWhile (\<lambda>c. c \<noteq> CHR ''/'') (authority @ CHR ''/'' # p) = CHR ''/'' # p" using assms by (induction authority) auto
  then show ?thesis by (simp add: describe_path_def)
qed

lemma answer_request:
  assumes "token meth" "meth \<noteq> []" "token uri" "uri \<noteq> []"
  shows "answer now cat (request_text meth uri seq) = Some (case methodFrom meth of
      Options \<Rightarrow> buildOptionsResponse seq
    | Describe \<Rightarrow> (case describe now cat (percentDecode (describe_path uri)) of
          Some sdp \<Rightarrow> buildDescribeResponse seq uri sdp
        | None \<Rightarrow> buildNotFoundResponse seq)
    | Unsupported \<Rightarrow> buildNotImplementedResponse seq)"
  unfolding answer_def request_parsed [OF assms] by (cases "methodFrom meth") (simp_all split: option.split)

definition session_uri :: "string \<Rightarrow> string \<Rightarrow> string" where
  "session_uri authority path = ''rtsp://'' @ authority @ percentEncodePath path"

lemma answer_describe:
  assumes "token authority" "CHR ''/'' \<notin> set authority" "own_paths cat"
  shows "answer now cat (request_text ''DESCRIBE'' (session_uri authority (pathFor name)) seq) =
    Some (case map_find cat name of
      Some s \<Rightarrow> buildDescribeResponse seq (session_uri authority (pathFor name)) (generate now (rs_sdp s))
    | None \<Rightarrow> buildNotFoundResponse seq)"
proof -
  let ?u = "session_uri authority (pathFor name)"
  have w: "token ''DESCRIBE''" "token ''rtsp://''" by (simp_all add: token_def is_space_def code_def)
  have t: "token ?u" unfolding session_uri_def token_append using w(2) assms(1) percentEncode_token by blast
  have e: "percentEncodePath (pathFor name) = CHR ''/'' # tl (percentEncodePath (pathFor name))" by (simp add: percentEncode_path)
  have "describe_path ?u = percentEncodePath (pathFor name)"
    unfolding session_uri_def by (subst (1 2) e) (rule describe_path_uri [OF assms(2)])
  then have d: "percentDecode (describe_path ?u) = pathFor name" by (simp add: percent_roundtrip)
  have m: "methodFrom ''DESCRIBE'' = Describe" by (simp add: methodFrom_def)
  have ne: "?u \<noteq> []" by (simp add: session_uri_def)
  show ?thesis
    using answer_request [OF w(1) list.distinct(2) t ne, of now cat seq] d m describe_own [OF assms(3), of now name]
    by (simp split: option.split)
qed

section \<open>Theorems\<close>

text \<open>
  Whatever sessions are added, replaced and removed, in any order and whatever is wrong with them, the
  catalogue only ever holds sessions with a name and a path, a description the core calls valid, and as
  many device channels as the description announces; names are unique and sorted.
\<close>

theorem catalogue_consistent:
  "let cat = fold cat_apply ops [] in
   sorted_map cat \<and> (\<forall>(n, s)\<in>set cat. rs_name s = n \<and> n \<noteq> [] \<and> rs_path s \<noteq> [] \<and> sdp_isValid (rs_sdp s) \<and>
     deviceChannelCount (rs_mapping s) = sd_numChannels (rs_sdp s))"
proof -
  have "cat_inv (fold cat_apply ops [])" by (rule cat_run_inv) (simp add: cat_inv_def)
  then have s: "sorted_map (fold cat_apply ops [])"
    and ok: "\<And>n s. (n, s) \<in> set (fold cat_apply ops []) \<Longrightarrow> session_ok n s" by (auto simp: cat_inv_def map_find_iff)
  show ?thesis using s ok unfolding Let_def session_ok_def by fast
qed

definition stage_mapping :: channel_mapping where
  "stage_mapping = \<lparr>streamID = demo_id 1, streamName = ''Stage A'', streamChannelCount = 8, streamChannelOffset = 0,
     deviceChannelStart = 0, deviceChannelCount = 8, routes = []\<rparr>"

definition stage_entry :: ravenna_session where
  "stage_entry = \<lparr>rs_name = ''Stage A'', rs_path = [], rs_sdp = stage_session, rs_mapping = stage_mapping\<rparr>"

definition stage_catalogue :: catalogue where
  "stage_catalogue = [(''Stage A'', stage_entry\<lparr>rs_path := ''/by-name/Stage A''\<rparr>)]"

lemma stage_added: "fold cat_apply [CatAdd stage_entry] [] = stage_catalogue"
proof -
  have v: "sdp_isValid stage_session" "sd_numChannels stage_session = 8" by code_simp+
  show ?thesis using v by (simp add: cat_add_def stage_entry_def stage_mapping_def stage_catalogue_def pathFor_def)
qed

theorem catalogue_consistent_witness:
  "sdp_isValid stage_session \<and> deviceChannelCount stage_mapping = sd_numChannels stage_session"
  using catalogue_consistent [of "[CatAdd stage_entry]"] unfolding stage_added
  by (simp add: stage_catalogue_def stage_entry_def)

text \<open>
  Every request with a method and a URI is answered, with its own sequence number: OPTIONS with the
  methods, DESCRIBE of a name in the catalogue with that session's description, DESCRIBE of any other
  name with 404, everything else with 501. Names are compared after their escapes are resolved.
\<close>

theorem rtsp_answers:
  assumes "token meth" "meth \<noteq> []" "token authority" "CHR ''/'' \<notin> set authority" "own_paths cat"
  shows "answer now cat (request_text meth (session_uri authority (pathFor name)) seq) = Some (
    if meth = ''OPTIONS'' then buildOptionsResponse seq
    else if meth = ''DESCRIBE'' then (case map_find cat name of
        Some s \<Rightarrow> buildDescribeResponse seq (session_uri authority (pathFor name)) (generate now (rs_sdp s))
      | None \<Rightarrow> buildNotFoundResponse seq)
    else buildNotImplementedResponse seq)"
proof -
  have "token ''rtsp://''" by (simp add: token_def is_space_def code_def)
  then have t: "token (session_uri authority (pathFor name))"
    unfolding session_uri_def token_append using assms(3) percentEncode_token by blast
  have ne: "session_uri authority (pathFor name) \<noteq> []" by (simp add: session_uri_def)
  show ?thesis
  proof (cases "meth = ''DESCRIBE''")
    case True
    then show ?thesis using answer_describe [OF assms(3-5)] by simp
  next
    case False
    then show ?thesis using answer_request [OF assms(1,2) t ne] by (simp add: methodFrom_def)
  qed
qed

theorem rtsp_answers_witness:
  "answer 5 stage_catalogue (request_text ''DESCRIBE'' (session_uri ''box.local'' (pathFor ''Stage B'')) 9) =
     Some (buildNotFoundResponse 9) \<and>
   answer 5 stage_catalogue (request_text ''SETUP'' (session_uri ''box.local'' (pathFor ''Stage A'')) 9) =
     Some (buildNotImplementedResponse 9)"
proof -
  have w: "token ''DESCRIBE''" "token ''SETUP''" "token ''box.local''" by (simp_all add: token_def is_space_def code_def)
  have o': "own_paths stage_catalogue" by (simp add: own_paths_def stage_catalogue_def pathFor_def)
  show ?thesis
    using rtsp_answers [OF w(1) _ w(3) _ o', of 5 "''Stage B''" 9] rtsp_answers [OF w(2) _ w(3) _ o', of 5 "''Stage A''" 9]
    by (simp add: stage_catalogue_def)
qed


definition stage_ad :: session_ad where
  "stage_ad = \<lparr>sa_instanceName = ''Stage A'', sa_hostName = ''box.local'', sa_port = 8554, sa_addressV4 = 0xC0A80105,
     sa_txtEntries = [''txtvers=1'', ''path=/by-name/Stage A'', ''channels=8''],
     serviceType = kRtspService, subtype = kRavennaSessionSubtype\<rparr>"

lemma stage_ad_wf: "wf_session stage_ad"
proof -
  have "dns_name (serviceType stage_ad)" "dns_name (instanceFqdn stage_ad)" "dns_name (sa_hostName stage_ad)" "dns_name (subtype stage_ad)"
    "to_lower (subtype stage_ad) \<noteq> to_lower (serviceType stage_ad)"
    by (simp_all add: dns_name_def stage_ad_def instanceFqdn_def kRtspService_def kRavennaSessionSubtype_def to_lower_def)
  moreover have "length (encodeName (instanceFqdn stage_ad)) < 65536" "length (srv_data stage_ad) < 65536"
    using encode_labels_length [of "instanceFqdn stage_ad"] encode_labels_length [of "sa_hostName stage_ad"]
    by (simp_all add: encodeName_def srv_data_def stage_ad_def instanceFqdn_def kRtspService_def)
  ultimately show ?thesis
    by (simp add: wf_session_def txt_data_def txt_entry_def good_entry_def stage_ad_def)
qed


end
