(* ===== verification/Session_Directory.thy ===== *)
theory Session_Directory
  imports SAP Ravenna_Sessions
begin

text \<open>
  One list of the sessions on the network, however they were found:
  \<open>src/packages/aes67-macos-driver/NetworkEngine/Discovery/SessionDirectory.cpp\<close>, and the callback of \<open>DiscoveryBridge.cpp\<close>
  that files what the SAP listener reports. Every operation of the directory holds its mutex for the whole body, so an
  execution is a sequence of operations; \<open>now\<close> is the clock value the operation was given. \<open>session_store\<close> is the
  contract of such a directory: a map from identities to the time they were last seen.
\<close>

section \<open>Entries\<close>

datatype discovery_source = ViaSAP | ViaRTSP | ViaNMOS

definition discoverySourceName :: "discovery_source \<Rightarrow> string" where
  "discoverySourceName s = (case s of ViaSAP \<Rightarrow> ''sap'' | ViaRTSP \<Rightarrow> ''rtsp'' | ViaNMOS \<Rightarrow> ''nmos'')"

record session_entry =
  de_identity :: string
  de_name :: string
  de_source :: string
  de_multicast :: string
  de_port :: int
  de_ptpDomain :: int
  de_description :: string
  de_sources :: "discovery_source list"
  de_lastSeen :: int

definition heardBy :: "discovery_source \<Rightarrow> session_entry \<Rightarrow> bool" where
  "heardBy s e = (s \<in> set (de_sources e))"

definition originFields :: "string \<Rightarrow> string list" where
  "originFields sdp = (case find (\<lambda>line. take 2 line = ''o='') (sap_lines sdp) of
       None \<Rightarrow> [] | Some line \<Rightarrow> stream_words (drop 2 line))"

definition identityOf :: "string \<Rightarrow> string \<Rightarrow> int \<Rightarrow> string" where
  "identityOf sdp multicast port =
     (let origin = originFields sdp in
      if 6 \<le> length origin then ''o:'' @ origin ! 0 @ '' '' @ origin ! 1 @ '' '' @ origin ! 5
      else ''c:'' @ multicast @ '':'' @ decimal_int port)"

section \<open>Operations\<close>

definition add_source :: "session_entry \<Rightarrow> discovery_source \<Rightarrow> session_entry" where
  "add_source e s = (if heardBy s e then e else e\<lparr>de_sources := de_sources e @ [s]\<rparr>)"

definition refresh_entry :: "session_entry \<Rightarrow> int \<Rightarrow> session_entry \<Rightarrow> session_entry" where
  "refresh_entry e now existing =
     (let x0 = existing\<lparr>de_lastSeen := now\<rparr>;
          x1 = foldl add_source x0 (de_sources e);
          x2 = (if de_description e \<noteq> [] then x1\<lparr>de_description := de_description e\<rparr> else x1);
          x3 = (if de_name e \<noteq> [] then x2\<lparr>de_name := de_name e\<rparr> else x2);
          x4 = (if de_multicast e \<noteq> [] then x3\<lparr>de_multicast := de_multicast e\<rparr> else x3);
          x5 = (if de_port e \<noteq> 0 then x4\<lparr>de_port := de_port e\<rparr> else x4);
          x6 = (if de_source e \<noteq> [] then x5\<lparr>de_source := de_source e\<rparr> else x5)
      in if de_ptpDomain e \<noteq> 0 then x6\<lparr>de_ptpDomain := de_ptpDomain e\<rparr> else x6)"

fun change_first :: "('a \<Rightarrow> bool) \<Rightarrow> ('a \<Rightarrow> 'a) \<Rightarrow> 'a list \<Rightarrow> 'a list" where
  "change_first P f [] = []"
| "change_first P f (x # xs) = (if P x then f x # xs else x # change_first P f xs)"

definition entry_identity :: "session_entry \<Rightarrow> string" where
  "entry_identity e =
     (if de_identity e = [] then identityOf (de_description e) (de_multicast e) (de_port e) else de_identity e)"

definition offer :: "session_entry \<Rightarrow> int \<Rightarrow> session_entry list \<Rightarrow> session_entry list" where
  "offer e now entries =
     (let ident = entry_identity e in
      if list_ex (\<lambda>x. de_identity x = ident) entries
      then change_first (\<lambda>x. de_identity x = ident) (refresh_entry e now) entries
      else entries @ [e\<lparr>de_identity := ident, de_lastSeen := now\<rparr>])"

definition kDirectoryTimeout :: int where "kDirectoryTimeout = 300 * 1000000000"

text \<open>\<open>sessions\<close> sweeps the list and returns what is left; \<open>forget\<close> also says whether anything went.\<close>

definition sessions :: "int \<Rightarrow> session_entry list \<Rightarrow> session_entry list" where
  "sessions now entries = filter (\<lambda>e. \<not> now - de_lastSeen e > kDirectoryTimeout) entries"

definition forget :: "string \<Rightarrow> session_entry list \<Rightarrow> session_entry list \<times> bool" where
  "forget ident entries =
     (let left = filter (\<lambda>e. de_identity e \<noteq> ident) entries in (left, length left \<noteq> length entries))"

section \<open>What the SAP listener files\<close>

definition sap_callback :: "int \<Rightarrow> sap_announcement \<Rightarrow> session_entry list \<Rightarrow> session_entry list" where
  "sap_callback now a directory =
     (if ann_isDeletion a then fst (forget (identityOf (ann_description a) (ann_multicast a) (ann_port a)) directory)
      else if ann_description a = [] then directory
      else offer \<lparr>de_identity = [], de_name = ann_name a, de_source = ann_source a, de_multicast = ann_multicast a,
             de_port = ann_port a, de_ptpDomain = ann_ptpDomain a, de_description = ann_description a,
             de_sources = [ViaSAP], de_lastSeen = 0\<rparr> now directory)"

text \<open>
  One datagram heard by a listener whose only callback is the bridge's: read at \<open>t\<close>, filed at \<open>t'\<close>. The callback is
  called for what the listener reports, which is new sessions only.
\<close>

definition bridge_step ::
  "string \<Rightarrow> int \<times> int \<times> byte_list \<Rightarrow> sap_announcement list \<times> session_entry list \<Rightarrow>
     (sap_announcement list \<times> session_entry list) option" where
  "bridge_step source ev s = (case (ev, s) of ((t, t', datagram), (streams, directory)) \<Rightarrow>
     do { r \<leftarrow> listen_step t source datagram streams;
          Some (fst r, case snd r of None \<Rightarrow> directory | Some a \<Rightarrow> sap_callback t' a directory) })"

fun bridge_run where
  "bridge_run source [] s = Some s"
| "bridge_run source (ev # evs) s = do { s' \<leftarrow> bridge_step source ev s; bridge_run source evs s' }"

definition jsonChar :: "char \<Rightarrow> string" where
  "jsonChar c =
     (if c = CHR 0x22 then [CHR 0x5C, CHR 0x22] else if c = CHR 0x5C then [CHR 0x5C, CHR 0x5C]
      else if c = CHR 0x0A then [CHR 0x5C, CHR ''n''] else if c = CHR 0x0D then [CHR 0x5C, CHR ''r'']
      else if c = CHR 0x09 then [CHR 0x5C, CHR ''t'']
      else if code c < 0x20
      then [CHR 0x5C, CHR ''u'', CHR ''0'', CHR ''0'', digit_char (code c div 16), digit_char (code c mod 16)]
      else [c])"

definition jsonString :: "string \<Rightarrow> string" where
  "jsonString value = [CHR 0x22] @ concat (map jsonChar value) @ [CHR 0x22]"

text \<open>\<open>comma_list\<close>: the items with a comma before every one but the first.\<close>

fun comma_list :: "string list \<Rightarrow> string" where
  "comma_list [] = []"
| "comma_list [x] = x"
| "comma_list (x # y # xs) = x @ '','' @ comma_list (y # xs)"

definition session_json :: "session_entry \<Rightarrow> string" where
  "session_json e = ''{'' @
     jsonString ''sessionName'' @ '':'' @ jsonString (de_name e) @ '','' @
     jsonString ''sourceAddress'' @ '':'' @ jsonString (de_source e) @ '','' @
     jsonString ''multicastAddress'' @ '':'' @ jsonString (de_multicast e) @ '','' @
     jsonString ''port'' @ '':'' @ decimal_int (de_port e) @ '','' @
     jsonString ''ptpDomain'' @ '':'' @ decimal_int (de_ptpDomain e) @ '','' @
     jsonString ''sdp'' @ '':'' @ jsonString (de_description e) @ '','' @
     jsonString ''sources'' @ '':['' @ comma_list (map (\<lambda>s. jsonString (discoverySourceName s)) (de_sources e)) @ '']}''"

definition sessions_json :: "int \<Rightarrow> session_entry list \<Rightarrow> string" where
  "sessions_json now directory = ''['' @ comma_list (map session_json (sessions now directory)) @ '']''"

section \<open>The contract of a directory\<close>

datatype 'e dir_op = Offer 'e int | Forget string | Sweep int

text \<open>The directory as a map from identities to the time they were last offered.\<close>

definition spec_offer :: "string \<Rightarrow> int \<Rightarrow> (string \<rightharpoonup> int) \<Rightarrow> (string \<rightharpoonup> int)" where
  "spec_offer i now m = m(i \<mapsto> now)"

definition spec_sweep :: "int \<Rightarrow> (string \<rightharpoonup> int) \<Rightarrow> (string \<rightharpoonup> int)" where
  "spec_sweep now m i = (case m i of None \<Rightarrow> None | Some seen \<Rightarrow> if now - seen > kDirectoryTimeout then None else Some seen)"

fun spec_op :: "('e \<Rightarrow> string) \<Rightarrow> 'e dir_op \<Rightarrow> (string \<rightharpoonup> int) \<Rightarrow> (string \<rightharpoonup> int)" where
  "spec_op ident (Offer e now) m = spec_offer (ident e) now m"
| "spec_op ident (Forget i) m = m(i := None)"
| "spec_op ident (Sweep now) m = spec_sweep now m"

locale session_store =
  fixes ident :: "'e \<Rightarrow> string"
    and put :: "'e \<Rightarrow> int \<Rightarrow> 's \<Rightarrow> 's"
    and remove :: "string \<Rightarrow> 's \<Rightarrow> 's"
    and sweep :: "int \<Rightarrow> 's \<Rightarrow> 's"
    and seen :: "'s \<Rightarrow> string \<rightharpoonup> int"
    and inv :: "'s \<Rightarrow> bool"
  assumes put_inv: "inv s \<Longrightarrow> inv (put e now s)"
    and remove_inv: "inv s \<Longrightarrow> inv (remove i s)"
    and sweep_inv: "inv s \<Longrightarrow> inv (sweep now s)"
    and put_seen: "inv s \<Longrightarrow> seen (put e now s) = (seen s)(ident e \<mapsto> now)"
    and remove_seen: "inv s \<Longrightarrow> seen (remove i s) = (seen s)(i := None)"
    and sweep_seen: "inv s \<Longrightarrow> seen (sweep now s) = spec_sweep now (seen s)"
begin

fun store_op :: "'e dir_op \<Rightarrow> 's \<Rightarrow> 's" where
  "store_op (Offer e now) s = put e now s"
| "store_op (Forget i) s = remove i s"
| "store_op (Sweep now) s = sweep now s"

lemma op_simulates: "inv s \<Longrightarrow> inv (store_op op s) \<and> seen (store_op op s) = spec_op ident op (seen s)"
  by (cases op) (auto simp: put_inv remove_inv sweep_inv put_seen remove_seen sweep_seen spec_offer_def)

lemma ops_simulate:
  "inv s \<Longrightarrow> inv (fold store_op ops s) \<and> seen (fold store_op ops s) = fold (spec_op ident) ops (seen s)"
  by (induction ops arbitrary: s) (auto simp: op_simulates)

end

section \<open>The directory keeps the contract\<close>

definition dir_seen :: "session_entry list \<Rightarrow> string \<rightharpoonup> int" where
  "dir_seen entries = map_of (map (\<lambda>e. (de_identity e, de_lastSeen e)) entries)"

definition dir_inv :: "session_entry list \<Rightarrow> bool" where
  "dir_inv entries \<longleftrightarrow> distinct (map de_identity entries)"

fun dir_apply :: "session_entry dir_op \<Rightarrow> session_entry list \<Rightarrow> session_entry list" where
  "dir_apply (Offer e now) entries = offer e now entries"
| "dir_apply (Forget i) entries = fst (forget i entries)"
| "dir_apply (Sweep now) entries = sessions now entries"

lemma add_sources_keep:
  "de_identity (foldl add_source x ss) = de_identity x" "de_lastSeen (foldl add_source x ss) = de_lastSeen x"
  by (induction ss arbitrary: x) (auto simp: add_source_def)

lemma refresh_keeps [simp]:
  "de_identity (refresh_entry e now x) = de_identity x" "de_lastSeen (refresh_entry e now x) = now"
  by (auto simp: refresh_entry_def Let_def add_sources_keep)

lemma change_first_key:
  assumes "\<And>x. f (g x) = f x"
  shows "map f (change_first P g xs) = map f xs"
  using assms by (induction xs) auto

lemma dir_seen_change:
  "list_ex (\<lambda>x. de_identity x = i) xs \<Longrightarrow>
   dir_seen (change_first (\<lambda>x. de_identity x = i) (refresh_entry e now) xs) = (dir_seen xs)(i \<mapsto> now)"
  by (induction xs) (auto simp: dir_seen_def fun_eq_iff)

lemma dir_seen_append: "\<not> list_ex (\<lambda>x. de_identity x = de_identity e) xs \<Longrightarrow>
   dir_seen (xs @ [e]) = (dir_seen xs)(de_identity e \<mapsto> de_lastSeen e)"
  by (induction xs) (auto simp: dir_seen_def fun_eq_iff)

lemma dir_seen_filter_id: "dir_seen (filter (\<lambda>e. de_identity e \<noteq> i) xs) = (dir_seen xs)(i := None)"
  by (induction xs) (auto simp: dir_seen_def fun_eq_iff)

lemma dir_seen_None: "i \<notin> de_identity ` set xs \<Longrightarrow> dir_seen xs i = None"
  by (auto simp: dir_seen_def map_of_eq_None_iff)

lemma dir_seen_sweep: "dir_inv xs \<Longrightarrow> dir_seen (sessions now xs) = spec_sweep now (dir_seen xs)"
proof (induction xs)
  case (Cons x xs)
  then have "dir_seen xs (de_identity x) = None" "dir_seen (sessions now xs) = spec_sweep now (dir_seen xs)"
    by (auto simp: dir_inv_def intro: dir_seen_None)
  then show ?case by (auto simp: dir_seen_def sessions_def spec_sweep_def fun_eq_iff)
qed (simp add: dir_seen_def sessions_def spec_sweep_def fun_eq_iff)

lemma offer_inv: "dir_inv xs \<Longrightarrow> dir_inv (offer e now xs)"
  by (auto simp: dir_inv_def offer_def Let_def change_first_key list_ex_iff)

lemma offer_seen: "dir_seen (offer e now xs) = (dir_seen xs)(entry_identity e \<mapsto> now)"
  using dir_seen_append [of "e\<lparr>de_identity := entry_identity e, de_lastSeen := now\<rparr>" xs]
  by (auto simp: offer_def Let_def dir_seen_change)

interpretation dir: session_store entry_identity offer "\<lambda>i s. fst (forget i s)" sessions dir_seen dir_inv
proof unfold_locales
  show "dir_inv (fst (forget i s))" if "dir_inv s" for i s
    using that by (simp add: dir_inv_def forget_def Let_def distinct_map_filter)
  show "dir_inv (sessions now s)" if "dir_inv s" for now s
    using that by (simp add: dir_inv_def sessions_def distinct_map_filter)
qed (simp_all add: offer_inv offer_seen dir_seen_filter_id forget_def Let_def dir_seen_sweep)

lemma dir_apply_store: "dir_apply = dir.store_op"
proof
  show "dir_apply x = dir.store_op x" for x by (cases x) auto
qed

text \<open>
  C26: Whatever is offered, forgotten and swept, the directory holds one entry per identity, and the identities it
  holds, with the times it holds for them, are those of the map specification.
\<close>

theorem directory_refines:
  "distinct (map de_identity (fold dir_apply ops [])) \<and>
   map_of (map (\<lambda>e. (de_identity e, de_lastSeen e)) (fold dir_apply ops [])) = fold (spec_op entry_identity) ops Map.empty"
  using dir.ops_simulate [of "[]" ops] by (simp add: dir_apply_store dir_inv_def dir_seen_def)

section \<open>Identities\<close>

definition named_origin :: "sdp_session \<Rightarrow> bool" where
  "named_origin s \<longleftrightarrow> wf_sdp s \<and> sd_originUsername s \<noteq> [] \<and> sd_originNetworkType s \<noteq> [] \<and> sd_originAddressType s \<noteq> []"

definition wire_id :: "u64 \<Rightarrow> sdp_session \<Rightarrow> u64" where
  "wire_id now s = (if sd_sessionID s = 0 then now else sd_sessionID s)"

lemma generated_origin:
  assumes "named_origin s"
  shows "originFields (generate now s) =
    [sd_originUsername s, decimal (unat (wire_id now s)), decimal (unat (sd_sessionVersion s)), sd_originNetworkType s,
     sd_originAddressType s, sd_originAddress s]"
proof -
  have w: "wf_sdp s" "wf_origin s" using assms by (simp_all add: named_origin_def wf_sdp_def)
  have "sap_lines (generate now s) = head_lines now s @ generateAttributes s"
    unfolding sap_lines_split generate_def by (rule splitLines_generated) (rule lines_one_line [OF w(1)])
  then have "find (\<lambda>line. take 2 line = ''o='') (sap_lines (generate now s)) = Some (generateOriginLine now s)"
    by (simp add: head_lines_def generateOriginLine_def)
  then show ?thesis using assms w(2)
    by (simp add: originFields_def generateOriginLine_def named_origin_def wf_origin_def stream_words_token wire_id_def)
qed

lemma generated_identity:
  assumes "named_origin s"
  shows "identityOf (generate now s) multicast port =
    ''o:'' @ sd_originUsername s @ '' '' @ decimal (unat (wire_id now s)) @ '' '' @ sd_originAddress s"
  using generated_origin [OF assms] by (simp add: identityOf_def)

lemma decimal_inj: "decimal m = decimal n \<longleftrightarrow> m = n"
proof
  assume "decimal m = decimal n"
  then have "read_digits 10 0 (decimal m) = read_digits 10 0 (decimal n)" by simp
  then show "m = n" using read_digits_decimal [of 0 m "[]"] read_digits_decimal [of 0 n "[]"] by simp
qed simp

text \<open>
  Two written descriptions are one session exactly when they agree in user name, session id and origin
  address: a new version, a new destination or another address in the announcement does not make a second session.
\<close>

theorem identity_exact:
  assumes "named_origin s" "named_origin s'"
  shows "identityOf (generate now s) multicast port = identityOf (generate now' s') multicast' port' \<longleftrightarrow>
    sd_originUsername s = sd_originUsername s' \<and> wire_id now s = wire_id now' s' \<and> sd_originAddress s = sd_originAddress s'"
proof -
  have words: "stream_words (sd_originUsername x @ CHR '' '' # decimal (unat (wire_id n x)) @ CHR '' '' # sd_originAddress x) =
      [sd_originUsername x, decimal (unat (wire_id n x)), sd_originAddress x]" if "named_origin x" for x n
    using that by (simp add: named_origin_def wf_sdp_def wf_origin_def stream_words_token)
  show ?thesis
  proof
    assume "identityOf (generate now s) multicast port = identityOf (generate now' s') multicast' port'"
    then have "sd_originUsername s @ CHR '' '' # decimal (unat (wire_id now s)) @ CHR '' '' # sd_originAddress s =
        sd_originUsername s' @ CHR '' '' # decimal (unat (wire_id now' s')) @ CHR '' '' # sd_originAddress s'"
      using assms by (simp add: generated_identity)
    then have "[sd_originUsername s, decimal (unat (wire_id now s)), sd_originAddress s] =
        [sd_originUsername s', decimal (unat (wire_id now' s')), sd_originAddress s']"
      by (simp only: words [OF assms(1), symmetric] words [OF assms(2), symmetric])
    then show "sd_originUsername s = sd_originUsername s' \<and> wire_id now s = wire_id now' s' \<and> sd_originAddress s = sd_originAddress s'"
      by (simp add: decimal_inj word_unat_eq_iff)
  qed (use assms in \<open>simp add: generated_identity\<close>)
qed

theorem identity_exact_witness:
  "identityOf (generate 5 stage_session) ''239.1.2.3'' 5004 =
     identityOf (generate 9 (stage_session\<lparr>sd_sessionVersion := 4, sd_connectionAddress := ''239.9.9.9''\<rparr>)) ''239.9.9.9'' 5004 \<longleftrightarrow>
    sd_originUsername stage_session = sd_originUsername (stage_session\<lparr>sd_sessionVersion := 4, sd_connectionAddress := ''239.9.9.9''\<rparr>) \<and>
    wire_id 5 stage_session = wire_id 9 (stage_session\<lparr>sd_sessionVersion := 4, sd_connectionAddress := ''239.9.9.9''\<rparr>) \<and>
    sd_originAddress stage_session = sd_originAddress (stage_session\<lparr>sd_sessionVersion := 4, sd_connectionAddress := ''239.9.9.9''\<rparr>)"
proof (rule identity_exact)
  show "named_origin stage_session" by code_simp
  show "named_origin (stage_session\<lparr>sd_sessionVersion := 4, sd_connectionAddress := ''239.9.9.9''\<rparr>)" by code_simp
qed

section \<open>What the bridge shows\<close>

lemma bridge_known:
  assumes "announceable (fst kv)" "snd kv \<noteq> 0"
  shows "bridge_step source (t, t', sap_buildPacket (fst kv) (snd kv) w False) ([sap_entry t0 source w kv], D) =
    Some ([sap_entry t source w kv], D)"
  using assms by (simp add: bridge_step_def listen_announcement file_announcement_def sameSession_def Let_def)

lemma bridge_first:
  assumes "announceable (fst kv)"
  shows "bridge_step source (t, t', sap_buildPacket (fst kv) (snd kv) w False) ([], D) =
    Some ([sap_entry t source w kv], sap_callback t' (sap_entry t source w kv) D)"
  using assms by (simp add: bridge_step_def listen_announcement file_announcement_def kMaxDiscovered_def Let_def)

lemma bridge_repeats:
  assumes "announceable (fst kv)" "snd kv \<noteq> 0"
  shows "bridge_run source (map (\<lambda>(t, t'). (t, t', sap_buildPacket (fst kv) (snd kv) w False)) ts) ([sap_entry t0 source w kv], D) =
    Some ([sap_entry (last (t0 # map fst ts)) source w kv], D)"
  using assms
proof (induction ts arbitrary: t0)
  case (Cons tt ts)
  then show ?case using bridge_known [OF assms] by (cases tt) (cases ts; simp)
qed simp

lemma callback_first:
  assumes "announceable (fst kv)"
  shows "map de_lastSeen (sap_callback t' (sap_entry t source w kv) []) = [t']"
proof -
  have "fst kv \<noteq> []" using assms by (auto simp: announceable_def)
  then show ?thesis by (simp add: sap_callback_def offer_def Let_def)
qed

text \<open>
  C18: A session that is announced again and again stays in the list of the listener, but the directory, which the
  listener only tells about new sessions, drops it 300 seconds after it was first heard: the repeats never reach it.
\<close>

theorem bridge_drops_live_session:
  assumes "announceable sdp" "hashSdp sdp \<noteq> 0"
    and "now - t0' > kDirectoryTimeout" "now - last (t0 # map fst ts) \<le> kSessionTimeout"
  shows "\<exists>L D. bridge_run source (map (\<lambda>(t, t'). (t, t', sap_buildPacket sdp (hashSdp sdp) w False)) ((t0, t0') # ts)) ([], []) =
      Some (L, D) \<and> map ann_description (getDiscoveredStreams now L) = [sdp] \<and> sessions now D = []"
proof -
  let ?kv = "(sdp, hashSdp sdp)" and ?D = "sap_callback t0' (sap_entry t0 source w (sdp, hashSdp sdp)) []"
  have a: "announceable (fst ?kv)" "snd ?kv \<noteq> 0" using assms by simp_all
  have "bridge_run source (map (\<lambda>(t, t'). (t, t', sap_buildPacket sdp (hashSdp sdp) w False)) ((t0, t0') # ts)) ([], []) =
      Some ([sap_entry (last (t0 # map fst ts)) source w ?kv], ?D)"
    using bridge_first [OF a(1), of source t0 t0' w "[]"] bridge_repeats [OF a, of source w ts t0 ?D] by simp
  moreover have "sessions now ?D = []"
    using callback_first [OF a(1), of t0' t0 source w] assms(3) by (auto simp: sessions_def filter_empty_conv map_eq_Cons_conv)
  ultimately show ?thesis using assms(4) by (simp add: getDiscoveredStreams_def)
qed

theorem bridge_drops_live_session_witness:
  "\<exists>L D. bridge_run ''10.0.0.1'' (map (\<lambda>(t, t'). (t, t', sap_buildPacket sap_first (hashSdp sap_first) 1 False))
        ((0, 1) # [(150000000000, 150000000001), (300000000000, 300000000001)])) ([], []) = Some (L, D) \<and>
     map ann_description (getDiscoveredStreams 300000000002 L) = [sap_first] \<and> sessions 300000000002 D = []"
  by (rule bridge_drops_live_session) (simp_all add: sap_examples kDirectoryTimeout_def kSessionTimeout_def)

text \<open>A withdrawal never reaches the directory either: the listener does not report deletions.\<close>

lemma bridge_ignores_deletion:
  "length sdp \<le> 2023 \<Longrightarrow> \<exists>L'. bridge_step source (t, t', sap_buildPacket sdp h w True) (L, D) = Some (L', D)"
  by (simp add: bridge_step_def listen_deletion)

text \<open>What the bridge writes as a JSON string, unescaped, is the string it was given.\<close>

lemma jsonUnescape_jsonChar: "jsonUnescape (jsonChar c @ s) = c # jsonUnescape s"
proof (cases "c = CHR 0x08 \<or> c = CHR 0x0C")
  case True
  have "hex_value [CHR ''0'', CHR ''0'', json_hex (code c div 16), json_hex (code c mod 16)] = Some (code c)"
    using True by (intro hex_control) (auto simp: code_def)
  then have "unescape_u ([CHR ''0'', CHR ''0'', digit_char (code c div 16), digit_char (code c mod 16)] @ s) = Some (c, s)"
    using True by (auto simp: unescape_u_def json_hex_def code_def chr_def)
  moreover have "jsonChar c = [CHR 0x5C, CHR ''u'', CHR ''0'', CHR ''0'', digit_char (code c div 16), digit_char (code c mod 16)]"
    using True by (auto simp: jsonChar_def code_def)
  ultimately show ?thesis by (simp add: simple_unescape_def)
next
  case False
  then have "jsonChar c = esc_char c" by (simp add: jsonChar_def esc_char_def json_hex_def)
  then show ?thesis by (simp add: jsonUnescape_esc)
qed

lemma json_string_back: "jsonUnescape (butlast (tl (jsonString s))) = s"
proof -
  have "jsonUnescape (concat (map jsonChar s)) = s" by (induction s) (simp_all add: jsonUnescape_jsonChar)
  then show ?thesis by (simp add: jsonString_def butlast_append)
qed

end
