(* ===== verification/Registry_Browser.thy ===== *)
theory Registry_Browser
  imports Ravenna_Sessions
begin

text \<open>
  \<open>RegistryBrowser\<close>: which NMOS registries a node knows and in which order it tries them. The socket
  is not modelled: a received packet is its bytes, and \<open>service\<close> is the fold over the packets it reads.
\<close>

section \<open>Operations\<close>

definition kNmosRegisterService :: string where "kNmosRegisterService = ''_nmos-register._tcp.local''"

record nmos_registry =
  nr_host :: string
  nr_port :: u16
  nr_apiVersion :: string
  nr_priority :: int

definition nr_valid :: "nmos_registry \<Rightarrow> bool" where
  "nr_valid g \<longleftrightarrow> nr_host g \<noteq> [] \<and> nr_port g \<noteq> 0"

definition registrationPath :: "nmos_registry \<Rightarrow> string" where
  "registrationPath g = ''/x-nmos/registration/'' @ nr_apiVersion g"

definition endpoint :: "nmos_registry \<Rightarrow> string" where
  "endpoint g = nr_host g @ '':'' @ decimal (unat (nr_port g))"

definition version_blank :: "char \<Rightarrow> bool" where
  "version_blank c \<longleftrightarrow> c = CHR '' '' \<or> c = CHR 0x09"

definition speaks :: "string \<Rightarrow> string \<Rightarrow> bool" where
  "speaks versions wanted \<longleftrightarrow> versions = [] \<or>
     list_ex (\<lambda>one. drop_end version_blank (dropWhile version_blank one) = wanted) (split_on (CHR '','') versions)"

definition registry_priority :: "string \<Rightarrow> int" where
  "registry_priority pri =
     (if pri \<noteq> [] \<and> length pri \<le> 6 \<and> list_all is_digit pri then int (fst (read_digits 10 0 pri)) else 100)"

definition registry_of :: "string \<Rightarrow> discovered \<Rightarrow> nmos_registry" where
  "registry_of wanted s = \<lparr>nr_host = (if ds_addressV4 s \<noteq> 0 then addressText (ds_addressV4 s) else ds_hostName s),
     nr_port = ds_port s, nr_apiVersion = wanted, nr_priority = registry_priority (ds_txt s ''pri'' [])\<rparr>"

definition usable_service :: "string \<Rightarrow> discovered \<Rightarrow> bool" where
  "usable_service wanted s \<longleftrightarrow> speaks (ds_txt s ''api_ver'' []) wanted \<and> ds_txt s ''api_proto'' ''http'' = ''http''"

definition registriesFrom :: "discovered list \<Rightarrow> string \<Rightarrow> nmos_registry list" where
  "registriesFrom services wanted = sort_key nr_priority
     (filter nr_valid (map (registry_of wanted) (filter (usable_service wanted) services)))"

type_synonym known_services = "(string, discovered) stdmap"

text \<open>What one service of a packet changes, and one packet.\<close>

definition fill_in :: "discovered \<Rightarrow> discovered \<Rightarrow> discovered" where
  "fill_in s held = held\<lparr>ds_instanceName := ds_instanceName s,
     ds_hostName := (if ds_hostName s \<noteq> [] then ds_hostName s else ds_hostName held),
     ds_port := (if ds_port s \<noteq> 0 then ds_port s else ds_port held),
     ds_addressV4 := (if ds_addressV4 s \<noteq> 0 then ds_addressV4 s else ds_addressV4 held),
     ds_txtEntries := (if ds_txtEntries s \<noteq> [] then ds_txtEntries s else ds_txtEntries held)\<rparr>"

definition note_service :: "discovered \<Rightarrow> known_services \<Rightarrow> known_services" where
  "note_service s known = map_put (ds_instanceName s)
     (fill_in s (case map_find known (ds_instanceName s) of None \<Rightarrow> discovered_default | Some held \<Rightarrow> held)) known"

definition on_packet :: "byte_list \<Rightarrow> known_services \<Rightarrow> known_services option" where
  "on_packet pkt known = map_option (\<lambda>found. fold note_service found known)
     (parseServiceResponse (Some pkt) (length pkt) kNmosRegisterService)"

fun browse :: "byte_list list \<Rightarrow> known_services \<Rightarrow> known_services option" where
  "browse [] known = Some known"
| "browse (pkt # pkts) known = Option.bind (on_packet pkt known) (browse pkts)"

definition registries :: "string \<Rightarrow> known_services \<Rightarrow> nmos_registry list" where
  "registries wanted known = registriesFrom (map snd known) wanted"

section \<open>What is known of an instance\<close>

text \<open>The last value a field had that says something, or its default.\<close>

definition latest :: "('a \<Rightarrow> bool) \<Rightarrow> 'a \<Rightarrow> 'a list \<Rightarrow> 'a" where
  "latest silent d vs = foldl (\<lambda>held v. if silent v then held else v) d vs"

lemma latest_filter: "latest silent d vs = (case filter (\<lambda>v. \<not> silent v) vs of [] \<Rightarrow> d | w # ws \<Rightarrow> last (w # ws))"
proof -
  have "latest silent d vs = last (d # filter (\<lambda>v. \<not> silent v) vs)"
    unfolding latest_def by (induction vs arbitrary: d) auto
  then show ?thesis by (simp split: list.split)
qed

lemma note_other: "ds_instanceName s \<noteq> n \<Longrightarrow> map_find (note_service s known) n = map_find known n"
  by (simp add: note_service_def)

lemma note_same: "map_find (note_service s known) (ds_instanceName s) =
   Some (fill_in s (case map_find known (ds_instanceName s) of None \<Rightarrow> discovered_default | Some held \<Rightarrow> held))"
  by (simp add: note_service_def)

lemma known_fold:
  "map_find (fold note_service ss known) n =
     (case filter (\<lambda>s. ds_instanceName s = n) ss of
        [] \<Rightarrow> map_find known n
      | ts \<Rightarrow> Some (foldl (\<lambda>held s. fill_in s held)
          (case map_find known n of None \<Rightarrow> discovered_default | Some held \<Rightarrow> held) ts))"
proof (induction ss arbitrary: known)
  case (Cons s ss)
  show ?case
  proof (cases "ds_instanceName s = n")
    case True
    then have "map_find (note_service s known) n =
        Some (fill_in s (case map_find known n of None \<Rightarrow> discovered_default | Some held \<Rightarrow> held))" using note_same by blast
    then show ?thesis using Cons True by (simp split: list.split)
  next
    case False
    then show ?thesis using Cons note_other [OF False, of known] by (simp split: list.split)
  qed
qed simp

lemma fill_all:
  "ts \<noteq> [] \<Longrightarrow> \<forall>s\<in>set ts. ds_instanceName s = n \<Longrightarrow> foldl (\<lambda>held s. fill_in s held) h ts =
     \<lparr>ds_instanceName = n, ds_hostName = latest (\<lambda>v. v = []) (ds_hostName h) (map ds_hostName ts),
      ds_port = latest (\<lambda>v. v = 0) (ds_port h) (map ds_port ts),
      ds_addressV4 = latest (\<lambda>v. v = 0) (ds_addressV4 h) (map ds_addressV4 ts),
      ds_txtEntries = latest (\<lambda>v. v = []) (ds_txtEntries h) (map ds_txtEntries ts)\<rparr>"
proof (induction ts rule: rev_induct)
  case (snoc t ts)
  show ?case
  proof (cases "ts = []")
    case True
    then show ?thesis using snoc.prems by (simp add: fill_in_def latest_def)
  next
    case False
    then show ?thesis using snoc by (simp add: fill_in_def latest_def)
  qed
qed simp

lemma browse_fold:
  "browse pkts known = Some known' \<Longrightarrow>
   \<exists>founds. map (\<lambda>pkt. parseServiceResponse (Some pkt) (length pkt) kNmosRegisterService) pkts = map Some founds \<and>
     known' = fold note_service (concat founds) known"
proof (induction pkts arbitrary: known)
  case (Cons pkt pkts)
  then obtain found where f: "parseServiceResponse (Some pkt) (length pkt) kNmosRegisterService = Some found"
    "browse pkts (fold note_service found known) = Some known'"
    by (auto simp: on_packet_def split: bind_splits)
  then obtain founds where "map (\<lambda>pkt. parseServiceResponse (Some pkt) (length pkt) kNmosRegisterService) pkts = map Some founds"
    "known' = fold note_service (concat founds) (fold note_service found known)" using Cons.IH by blast
  then show ?case using f(1) by (intro exI [of _ "found # founds"]) simp
qed simp

section \<open>Theorems\<close>

text \<open>
  The records of a service may arrive in any number of packets and in any order. What is known of an
  instance is, field by field, the last value that said something: a packet with only some of the
  records never blanks out the rest, and other instances are left alone.
\<close>

theorem browser_keeps_latest:
  "map_find (fold note_service ss []) n =
     (let ts = filter (\<lambda>s. ds_instanceName s = n) ss in
      if ts = [] then None
      else Some \<lparr>ds_instanceName = n, ds_hostName = latest (\<lambda>v. v = []) [] (map ds_hostName ts),
        ds_port = latest (\<lambda>v. v = 0) 0 (map ds_port ts), ds_addressV4 = latest (\<lambda>v. v = 0) 0 (map ds_addressV4 ts),
        ds_txtEntries = latest (\<lambda>v. v = []) [] (map ds_txtEntries ts)\<rparr>)"
proof -
  define ts where "ts = filter (\<lambda>s. ds_instanceName s = n) ss"
  have n: "\<forall>s\<in>set ts. ds_instanceName s = n" by (simp add: ts_def)
  have k: "map_find (fold note_service ss []) n =
      (case ts of [] \<Rightarrow> None | _ \<Rightarrow> Some (foldl (\<lambda>held s. fill_in s held) discovered_default ts))"
    unfolding ts_def known_fold by (simp split: list.split)
  show ?thesis
    using fill_all [OF _ n, of discovered_default] unfolding Let_def ts_def [symmetric] k
    by (cases ts) (simp_all add: discovered_default_def)
qed

text \<open>
  The registries a node tries are exactly the advertised ones that speak its version over plain HTTP
  and have an address or name and a port, lowest priority first; those of one priority stay in the
  order they were known, so the choice does not change from one browse to the next.
\<close>

theorem registries_ordered:
  "let rs = registriesFrom services wanted;
       eligible = filter nr_valid (map (registry_of wanted) (filter (usable_service wanted) services)) in
   sorted (map nr_priority rs) \<and> set rs = set eligible \<and>
   (\<forall>p. filter (\<lambda>g. nr_priority g = p) rs = filter (\<lambda>g. nr_priority g = p) eligible) \<and>
   (\<forall>g\<in>set rs. nr_host g \<noteq> [] \<and> nr_port g \<noteq> 0 \<and> nr_apiVersion g = wanted)"
proof -
  have "\<forall>g\<in>set (registriesFrom services wanted). nr_host g \<noteq> [] \<and> nr_port g \<noteq> 0 \<and> nr_apiVersion g = wanted"
    by (auto simp: registriesFrom_def nr_valid_def registry_of_def)
  then show ?thesis by (simp add: Let_def registriesFrom_def sort_key_stable)
qed

theorem registries_ordered_witness:
  "map nr_priority (registriesFrom [
     \<lparr>ds_instanceName = ''b'', ds_hostName = ''b.local'', ds_port = 80, ds_addressV4 = 0, ds_txtEntries = [''pri=20'']\<rparr>,
     \<lparr>ds_instanceName = ''a'', ds_hostName = ''a.local'', ds_port = 80, ds_addressV4 = 0, ds_txtEntries = [''pri=5'', ''api_ver=v1.2,v1.3'']\<rparr>,
     \<lparr>ds_instanceName = ''c'', ds_hostName = ''c.local'', ds_port = 80, ds_addressV4 = 0, ds_txtEntries = [''api_proto=https'']\<rparr>] ''v1.3'') = [5, 20] \<and>
   (\<forall>p. filter (\<lambda>g. nr_priority g = p) (registriesFrom [] ''v1.3'') = [])"
proof
  show "map nr_priority (registriesFrom [
     \<lparr>ds_instanceName = ''b'', ds_hostName = ''b.local'', ds_port = 80, ds_addressV4 = 0, ds_txtEntries = [''pri=20'']\<rparr>,
     \<lparr>ds_instanceName = ''a'', ds_hostName = ''a.local'', ds_port = 80, ds_addressV4 = 0, ds_txtEntries = [''pri=5'', ''api_ver=v1.2,v1.3'']\<rparr>,
     \<lparr>ds_instanceName = ''c'', ds_hostName = ''c.local'', ds_port = 80, ds_addressV4 = 0, ds_txtEntries = [''api_proto=https'']\<rparr>] ''v1.3'') = [5, 20]"
    by code_simp
  show "\<forall>p. filter (\<lambda>g. nr_priority g = p) (registriesFrom [] ''v1.3'') = []"
    using registries_ordered [of "[]" "''v1.3''"] by (simp add: Let_def)
qed

text \<open>A priority that is not a number is taken as 100, ahead of a registry that names a larger one.\<close>

lemma unreadable_priority: "registry_priority ''high'' = 100 \<and> registry_priority ''200'' = 200"
  by code_simp

end
