(* ===== verification/Json_Values.thy ===== *)
theory Json_Values
  imports Std_Float Std_Map Json_Text
begin

text \<open>
  The JSON values of the RAVENNA session layer: \<open>src/packages/aes67-ravenna/Ravenna/Json.h\<close> and \<open>Json.cpp\<close>. The parser's
  position is the text that is left; \<open>fail\<close> records how much was left, from which the offset in the message is
  computed. Recursion is on the text: every accepted value consumes some of it. An object is a sorted map. A
  number is a \<open>double\<close>; the sign of a NaN and of zero, which the code never looks at, is not kept.
\<close>

section \<open>Reading and writing a double\<close>

text \<open>\<open>strtod\<close> with the rest of the text: \<open>None\<close> when nothing could be converted.\<close>

definition exponent_and_rest :: "char \<Rightarrow> string \<Rightarrow> int \<times> string" where
  "exponent_and_rest e s = (case s of
       [] \<Rightarrow> (0, s)
     | c # cs \<Rightarrow>
         (let (neg, ds) = skip_sign cs; (k, rest) = read_digits 10 0 ds
          in if lower c = e \<and> starts_with_digit 10 ds then (if neg then - int k else int k, rest) else (0, s)))"

definition magnitude_and_rest :: "nat \<Rightarrow> string \<Rightarrow> (rat \<times> string) option" where
  "magnitude_and_rest base s =
     (let (m, rest) = read_digits base 0 s; (x, n, rest') = read_fraction base m rest in
      if length s = length rest \<and> n = 0 then None
      else (case exponent_and_rest (if base = 16 then CHR ''p'' else CHR ''e'') rest' of
              (k, rest'') \<Rightarrow> Some (x * (if base = 16 then 2 powi k else 10 powi k), rest'')))"

definition double_of :: "bool \<Rightarrow> rat \<Rightarrow> double_val" where
  "double_of neg x = (let d = to_double x in if 2 ^ 1024 \<le> d then Infinite neg else Finite (if neg then - d else d))"

definition nan_rest :: "string \<Rightarrow> string" where
  "nan_rest s = (case s of
       [] \<Rightarrow> s
     | c # cs \<Rightarrow>
         (let tail = dropWhile (\<lambda>b. is_digit b \<or> 97 \<le> code (lower b) \<and> code (lower b) \<le> 122 \<or> b = CHR ''_'') cs
          in if c = CHR ''('' \<and> tail \<noteq> [] \<and> hd tail = CHR '')'' then tl tail else s))"

definition strtod :: "string \<Rightarrow> (double_val \<times> string) option" where
  "strtod str =
     (let (neg, s) = skip_sign (dropWhile is_space str) in
      if to_lower (take 8 s) = ''infinity'' then Some (Infinite neg, drop 8 s)
      else if to_lower (take 3 s) = ''inf'' then Some (Infinite neg, drop 3 s)
      else if to_lower (take 3 s) = ''nan'' then Some (NotANumber, nan_rest (drop 3 s))
      else if to_lower (take 2 s) = ''0x'' then
        (case magnitude_and_rest 16 (drop 2 s) of
           None \<Rightarrow> Some (Finite 0, drop 1 s) | Some (x, rest) \<Rightarrow> Some (double_of neg x, rest))
      else (case magnitude_and_rest 10 s of None \<Rightarrow> None | Some (x, rest) \<Rightarrow> Some (double_of neg x, rest)))"

text \<open>\<open>operator<<\<close> with ten significant digits, that is \<open>"%.10g"\<close>, of a positive number.\<close>

definition decade :: "rat \<Rightarrow> int" where
  "decade x = (let (p, q) = quotient_of x; e = int (length (decimal (nat p))) - int (length (decimal (nat q)))
     in if 10 powi e \<le> x then e else e - 1)"

definition strip_zeros :: "string \<Rightarrow> string" where
  "strip_zeros ds = drop_end (\<lambda>c. c = CHR ''0'') ds"

definition with_point :: "string \<Rightarrow> string \<Rightarrow> string" where
  "with_point whole fraction = (if fraction = [] then whole else whole @ ''.'' @ fraction)"

definition general10 :: "rat \<Rightarrow> string" where
  "general10 x =
     (let e0 = decade x; m0 = nat (round_even (x * 10 powi (9 - e0)));
          (m, e) = (if m0 = 10 ^ 10 then (10 ^ 9, e0 + 1) else (m0, e0)); ds = decimal m in
      if e < - 4 \<or> 10 \<le> e
      then with_point (take 1 ds) (strip_zeros (drop 1 ds)) @ ''e'' @ (if e < 0 then ''-'' else ''+'') @
             (if \<bar>e\<bar> < 10 then ''0'' else []) @ decimal (nat \<bar>e\<bar>)
      else if e < 0 then with_point ''0'' (replicate (nat (- e - 1)) (CHR ''0'') @ strip_zeros ds)
      else with_point (take (nat e + 1) ds) (strip_zeros (drop (nat e + 1) ds)))"

section \<open>Values\<close>

datatype json =
    JNull
  | JBool bool
  | JNumber double_val
  | JString string
  | JObject "(string \<times> json) list"
  | JArray "json list"

definition JInt :: "int \<Rightarrow> json" where
  "JInt n = JNumber (Finite (of_int n))"

fun isNull :: "json \<Rightarrow> bool" where "isNull JNull = True" | "isNull _ = False"
fun isBool :: "json \<Rightarrow> bool" where "isBool (JBool b) = True" | "isBool _ = False"
fun isNumber :: "json \<Rightarrow> bool" where "isNumber (JNumber d) = True" | "isNumber _ = False"
fun isString :: "json \<Rightarrow> bool" where "isString (JString s) = True" | "isString _ = False"
fun isObject :: "json \<Rightarrow> bool" where "isObject (JObject m) = True" | "isObject _ = False"
fun isArray :: "json \<Rightarrow> bool" where "isArray (JArray xs) = True" | "isArray _ = False"

text \<open>The accessors return the member of the class, which is empty when the value is of another kind.\<close>

fun asBool :: "json \<Rightarrow> bool" where "asBool (JBool b) = b" | "asBool _ = False"
fun asNumber :: "json \<Rightarrow> double_val" where "asNumber (JNumber d) = d" | "asNumber _ = Finite 0"
fun asString :: "json \<Rightarrow> string" where "asString (JString s) = s" | "asString _ = []"
fun asObject :: "json \<Rightarrow> (string, json) stdmap" where "asObject (JObject m) = m" | "asObject _ = []"
fun asArray :: "json \<Rightarrow> json list" where "asArray (JArray xs) = xs" | "asArray _ = []"

definition member_of :: "json \<Rightarrow> string \<Rightarrow> json" where
  "member_of v key = (if \<not> isObject v then JNull
     else (case map_find (asObject v) key of None \<Rightarrow> JNull | Some x \<Rightarrow> x))"

definition has :: "json \<Rightarrow> string \<Rightarrow> bool" where
  "has v key = (isObject v \<and> map_find (asObject v) key \<noteq> None)"

section \<open>Writing\<close>

definition quote_char :: "char \<Rightarrow> string" where
  "quote_char c =
     (if c = CHR 0x22 then [CHR 0x5C, CHR 0x22] else if c = CHR 0x5C then [CHR 0x5C, CHR 0x5C]
      else if c = CHR 0x08 then [CHR 0x5C, CHR ''b''] else if c = CHR 0x0C then [CHR 0x5C, CHR ''f'']
      else if c = CHR 0x0A then [CHR 0x5C, CHR ''n''] else if c = CHR 0x0D then [CHR 0x5C, CHR ''r'']
      else if c = CHR 0x09 then [CHR 0x5C, CHR ''t'']
      else if code c < 0x20
      then [CHR 0x5C, CHR ''u'', CHR ''0'', CHR ''0'', digit_char (code c div 16), digit_char (code c mod 16)]
      else [c])"

definition jsonQuote :: "string \<Rightarrow> string" where
  "jsonQuote s = [CHR 0x22] @ concat (map quote_char s) @ [CHR 0x22]"

definition number_text :: "double_val \<Rightarrow> string" where
  "number_text d = (case d of
       Finite x \<Rightarrow> if x = of_int \<lfloor>x\<rfloor> \<and> \<bar>x\<bar> < 10 ^ 15 then decimal_int \<lfloor>x\<rfloor>
                  else (if x < 0 then ''-'' @ general10 (- x) else general10 x)
     | Infinite neg \<Rightarrow> if neg then ''-inf'' else ''inf''
     | NotANumber \<Rightarrow> ''nan'')"

text \<open>The items with a comma before every one but the first.\<close>

fun separated :: "string list \<Rightarrow> string" where
  "separated [] = []"
| "separated [x] = x"
| "separated (x # y # xs) = x @ '','' @ separated (y # xs)"

fun serialise :: "json \<Rightarrow> string" where
  "serialise JNull = ''null''"
| "serialise (JBool b) = (if b then ''true'' else ''false'')"
| "serialise (JString s) = jsonQuote s"
| "serialise (JNumber d) = number_text d"
| "serialise (JObject m) = ''{'' @ separated (map (\<lambda>(k, v). jsonQuote k @ '':'' @ serialise v) m) @ ''}''"
| "serialise (JArray xs) = ''['' @ separated (map serialise xs) @ '']''"

section \<open>Parsing\<close>

type_synonym 'a parsed = "(string \<times> nat) + ('a \<times> string)"

definition jfail :: "string \<Rightarrow> string \<Rightarrow> 'a parsed" where
  "jfail what rest = Inl (what, length rest)"

definition json_space :: "char \<Rightarrow> bool" where
  "json_space c \<longleftrightarrow> c = CHR '' '' \<or> c = CHR 0x09 \<or> c = CHR 0x0A \<or> c = CHR 0x0D"

definition skipSpace :: "string \<Rightarrow> string" where
  "skipSpace s = dropWhile json_space s"

definition parse_literal :: "string \<Rightarrow> json \<Rightarrow> string \<Rightarrow> json parsed" where
  "parse_literal word v s =
     (if take (length word) s \<noteq> word then jfail (''expected '' @ word) s else Inr (v, drop (length word) s))"

text \<open>\<open>strtol(digits, nullptr, 16)\<close> of four characters.\<close>

definition hex_code :: "string \<Rightarrow> int" where
  "hex_code digits = (case scan_number 16 digits of
       None \<Rightarrow> 0 | Some (neg, m, rest) \<Rightarrow> if neg then - int m else int m)"

definition unicode_piece :: "string \<Rightarrow> string" where
  "unicode_piece digits =
     (let c = hex_code digits in if 0 < c \<and> c < 0x80 then [chr (nat c)] else [CHR 0x5C] @ ''u'' @ digits)"

definition prepend :: "string \<Rightarrow> string parsed \<Rightarrow> string parsed" where
  "prepend p r = (case r of Inl e \<Rightarrow> Inl e | Inr (out, rest) \<Rightarrow> Inr (p @ out, rest))"

function string_tail :: "string \<Rightarrow> string parsed" where
  "string_tail [] = jfail ''a string that never ends'' []"
| "string_tail (c # cs) =
     (if c = CHR 0x22 then Inr ([], cs)
      else if c \<noteq> CHR 0x5C then prepend [c] (string_tail cs)
      else (case cs of
          [] \<Rightarrow> jfail ''a string ends inside an escape'' []
        | e # es \<Rightarrow> (case simple_unescape e of
              Some r \<Rightarrow> prepend [r] (string_tail es)
            | None \<Rightarrow>
                if e = CHR ''u''
                then (if length es < 4 then jfail (''a short '' @ [CHR 0x5C] @ ''u escape'') es
                      else prepend (unicode_piece (take 4 es)) (string_tail (drop 4 es)))
                else jfail ''an escape this parser does not know'' es)))"
  by pat_completeness auto

termination
  by (relation "measure length") auto

definition json_string :: "string \<Rightarrow> string parsed" where
  "json_string s = (case s of
       [] \<Rightarrow> jfail ''expected a string'' s
     | c # cs \<Rightarrow> if c = CHR 0x22 then string_tail cs else jfail ''expected a string'' s)"

definition kMaxNestingDepth :: nat where "kMaxNestingDepth = 64"

definition json_number :: "string \<Rightarrow> json parsed" where
  "json_number s = (case strtod s of
       None \<Rightarrow> jfail ''not a value'' s
     | Some (d, rest) \<Rightarrow> if length rest = length s then jfail ''not a value'' s else Inr (JNumber d, rest))"

lemma skipSpace_length: "length (skipSpace s) \<le> length s"
  by (simp add: skipSpace_def length_dropWhile_le)

lemma skipSpace_Cons: "skipSpace s = c # cs \<Longrightarrow> length cs < length s"
  using skipSpace_length [of s] by simp

lemma string_tail_shorter: "string_tail s = Inr (out, rest) \<Longrightarrow> length rest < length s"
proof (induction s arbitrary: out rest rule: string_tail.induct)
  case (2 c cs)
  then show ?case
    by (fastforce simp: prepend_def jfail_def split: if_splits list.splits option.splits sum.splits prod.splits)
qed (simp add: jfail_def)

lemma json_string_shorter: "json_string s = Inr (out, rest) \<Longrightarrow> length rest < length s"
  using string_tail_shorter by (auto simp: json_string_def jfail_def split: list.splits if_splits dest: less_SucI)

lemma json_number_shorter:
  assumes "json_number s = Inr (v, rest)" "\<And>d r. strtod s = Some (d, r) \<Longrightarrow> length r \<le> length s"
  shows "length rest < length s"
  using assms by (auto simp: json_number_def jfail_def split: option.splits prod.splits if_splits)

lemma read_digits_shorter: "read_digits base acc s = (m, rest) \<Longrightarrow> length rest \<le> length s"
  by (induction base acc s rule: read_digits.induct) (auto split: option.splits)

lemma skip_sign_shorter: "skip_sign s = (neg, rest) \<Longrightarrow> length rest \<le> length s"
  by (auto simp: skip_sign_def split: list.splits if_splits)

lemma exponent_shorter: "exponent_and_rest e s = (k, rest) \<Longrightarrow> length rest \<le> length s"
  by (auto simp: exponent_and_rest_def Let_def split: list.splits if_splits prod.splits
      dest!: skip_sign_shorter read_digits_shorter)

lemma fraction_shorter: "read_fraction base m s = (x, n, rest) \<Longrightarrow> length rest \<le> length s"
  by (auto simp: read_fraction_def Let_def split: list.splits if_splits prod.splits dest!: read_digits_shorter)

lemma magnitude_shorter: "magnitude_and_rest base s = Some (x, rest) \<Longrightarrow> length rest \<le> length s"
  by (auto simp: magnitude_and_rest_def Let_def split: prod.splits if_splits
      dest!: read_digits_shorter fraction_shorter exponent_shorter)

lemma nan_rest_length: "length (nan_rest s) \<le> length s"
proof (cases s)
  case (Cons c cs)
  have "length (dropWhile P cs) \<le> length cs" for P by (rule length_dropWhile_le)
  then show ?thesis using Cons by (simp add: nan_rest_def Let_def le_SucI) (meson diff_le_self le_SucI le_trans)
qed (simp add: nan_rest_def)

lemma strtod_shorter: "strtod s = Some (d, rest) \<Longrightarrow> length rest \<le> length s"
proof -
  assume s: "strtod s = Some (d, rest)"
  obtain neg t where t: "skip_sign (dropWhile is_space s) = (neg, t)" by fastforce
  have l: "length t \<le> length s" using skip_sign_shorter [OF t] length_dropWhile_le [of is_space s] by linarith
  have "length rest \<le> length t"
    using s t nan_rest_length [of "drop 3 t"]
    by (auto simp: strtod_def split: if_splits option.splits prod.splits dest!: magnitude_shorter)
  then show ?thesis using l by linarith
qed

text \<open>
  The mutual recursion of the three parsing functions. \<open>depth\<close> counts the brackets that are open. In \<open>json_members\<close>
  and \<open>json_items\<close>, the loops of \<open>parseObject\<close> and \<open>parseArray\<close>, \<open>acc\<close> is what was read so far.
\<close>

function json_value :: "nat \<Rightarrow> string \<Rightarrow> json parsed"
  and json_members :: "nat \<Rightarrow> (string, json) stdmap \<Rightarrow> string \<Rightarrow> json parsed"
  and json_items :: "nat \<Rightarrow> json list \<Rightarrow> string \<Rightarrow> json parsed" where
  "json_value depth s = (case skipSpace s of
       [] \<Rightarrow> jfail ''nothing to parse'' []
     | c # cs \<Rightarrow>
         if c = CHR ''{'' \<or> c = CHR ''['' then
           (if kMaxNestingDepth \<le> depth then jfail ''nested too deep'' (c # cs)
            else if c = CHR ''{''
            then (if take 1 (skipSpace cs) = ''}'' then Inr (JObject [], drop 1 (skipSpace cs))
                  else json_members (Suc depth) [] (skipSpace cs))
            else (if take 1 (skipSpace cs) = '']'' then Inr (JArray [], drop 1 (skipSpace cs))
                  else json_items (Suc depth) [] (skipSpace cs)))
         else if c = CHR 0x22 then
           (case json_string (c # cs) of Inl e \<Rightarrow> Inl e | Inr (out, rest) \<Rightarrow> Inr (JString out, rest))
         else if c = CHR ''t'' then parse_literal ''true'' (JBool True) (c # cs)
         else if c = CHR ''f'' then parse_literal ''false'' (JBool False) (c # cs)
         else if c = CHR ''n'' then parse_literal ''null'' JNull (c # cs)
         else json_number (c # cs))"
| "json_members depth acc s = (case json_string (skipSpace s) of
       Inl e \<Rightarrow> Inl e
     | Inr (key, r1) \<Rightarrow> (case skipSpace r1 of
           [] \<Rightarrow> jfail (''expected '' @ [CHR 0x27, CHR '':'', CHR 0x27]) []
         | c1 # r2 \<Rightarrow>
             if c1 \<noteq> CHR '':'' then jfail (''expected '' @ [CHR 0x27, CHR '':'', CHR 0x27]) (c1 # r2)
             else (case json_value depth r2 of
                 Inl e \<Rightarrow> Inl e
               | Inr (v, r3) \<Rightarrow> (case skipSpace r3 of
                     [] \<Rightarrow> jfail ''an object that never closes'' []
                   | c2 # r4 \<Rightarrow>
                       if c2 = CHR '','' then json_members depth (map_put key v acc) r4
                       else if c2 = CHR ''}'' then Inr (JObject (map_put key v acc), r4)
                       else jfail (''expected '' @ [CHR 0x27, CHR '','', CHR 0x27] @ '' or '' @ [CHR 0x27, CHR ''}'', CHR 0x27]) (c2 # r4)))))"
| "json_items depth acc s = (case json_value depth s of
       Inl e \<Rightarrow> Inl e
     | Inr (v, r) \<Rightarrow> (case skipSpace r of
           [] \<Rightarrow> jfail ''an array that never closes'' []
         | c # cs \<Rightarrow>
             if c = CHR '','' then json_items depth (acc @ [v]) cs
             else if c = CHR '']'' then Inr (JArray (acc @ [v]), cs)
             else jfail (''expected '' @ [CHR 0x27, CHR '','', CHR 0x27] @ '' or '' @ [CHR 0x27, CHR '']'', CHR 0x27]) (c # cs)))"
  by pat_completeness auto

lemma parse_literal_shorter: "parse_literal word v s = Inr (u, r) \<Longrightarrow> word \<noteq> [] \<Longrightarrow> length r < length s"
  by (cases s) (auto simp: parse_literal_def jfail_def split: if_splits)

lemma drop_one_shorter: "take 1 (skipSpace cs) = [c] \<Longrightarrow> length (drop 1 (skipSpace cs)) < Suc (length cs)"
  using skipSpace_length [of cs] by simp

lemma scalar_shorter:
  assumes "skipSpace s = c # cs"
  shows "json_string (c # cs) = Inr (out, r) \<Longrightarrow> length r < length s"
    "parse_literal word u (c # cs) = Inr (v, r) \<Longrightarrow> word \<noteq> [] \<Longrightarrow> length r < length s"
    "json_number (c # cs) = Inr (v, r) \<Longrightarrow> length r < length s"
proof -
  have l: "Suc (length cs) \<le> length s" using skipSpace_length [of s] assms by simp
  show "json_string (c # cs) = Inr (out, r) \<Longrightarrow> length r < length s" using json_string_shorter [of "c # cs"] l by force
  show "parse_literal word u (c # cs) = Inr (v, r) \<Longrightarrow> word \<noteq> [] \<Longrightarrow> length r < length s"
    using parse_literal_shorter [of word u "c # cs"] l by force
  show "json_number (c # cs) = Inr (v, r) \<Longrightarrow> length r < length s"
    using json_number_shorter [of "c # cs" v r] strtod_shorter l by force
qed

lemma partial_shorter:
  "json_value_json_members_json_items_dom (Inl (depth, s)) \<Longrightarrow> json_value depth s = Inr (v, r) \<Longrightarrow> length r < length s"
  "json_value_json_members_json_items_dom (Inr (Inl (depth, acc, s))) \<Longrightarrow> json_members depth acc s = Inr (v, r) \<Longrightarrow> length r < length s"
  "json_value_json_members_json_items_dom (Inr (Inr (depth, acc', s))) \<Longrightarrow> json_items depth acc' s = Inr (v, r) \<Longrightarrow> length r < length s"
proof (induction depth s and depth acc s and depth acc' s arbitrary: v r and v r and v r
    rule: json_value_json_members_json_items.pinduct)
  case (1 depth s)
  show ?case
  proof (cases "skipSpace s")
    case Nil
    then show ?thesis using 1 by (simp add: json_value.psimps jfail_def)
  next
    case (Cons c cs)
    have l: "Suc (length cs) \<le> length s" using skipSpace_length [of s] Cons by simp
    have k: "length (skipSpace cs) < length s" using skipSpace_length [of cs] l by linarith
    show ?thesis
      using 1(4) 1(2,3) [OF Cons] k drop_one_shorter [of cs] scalar_shorter [OF Cons] l
      by (auto simp: json_value.psimps [OF 1(1)] Cons jfail_def split: if_splits sum.splits prod.splits)
  qed
next
  case (2 depth acc s)
  note eq = json_members.psimps [OF 2(1)]
  obtain key r1 where js: "json_string (skipSpace s) = Inr (key, r1)"
    using 2(4) by (auto simp: eq split: sum.splits)
  obtain r2 where c1: "skipSpace r1 = CHR '':'' # r2"
    using 2(4) by (auto simp: eq js jfail_def split: list.splits if_splits)
  obtain w r3 where jv: "json_value depth r2 = Inr (w, r3)"
    using 2(4) by (auto simp: eq js c1 split: sum.splits)
  obtain c2 r4 where c2: "skipSpace r3 = c2 # r4"
    using 2(4) by (auto simp: eq js c1 jv jfail_def split: list.splits)
  have "length r3 < length r2" by (rule 2(2) [OF js refl c1 _ jv]) simp
  then have l: "length r4 < length s"
    using json_string_shorter [OF js] skipSpace_length [of s] skipSpace_Cons [OF c1] skipSpace_Cons [OF c2] by linarith
  show ?case
  proof (cases "c2 = CHR '',''")
    case True
    have "json_members depth (map_put key w acc) r4 = Inr (v, r)" using 2(4) True by (simp add: eq js c1 jv c2)
    then have "length r < length r4" by (rule 2(3) [OF js refl c1 _ jv refl c2 True, rotated]) simp
    then show ?thesis using l by linarith
  next
    case False
    then have "r = r4" using 2(4) by (auto simp: eq js c1 jv c2 jfail_def split: if_splits)
    then show ?thesis using l by simp
  qed
next
  case (3 depth acc s)
  note eq = json_items.psimps [OF 3(1)]
  obtain w r3 where jv: "json_value depth s = Inr (w, r3)" using 3(4) by (auto simp: eq split: sum.splits)
  obtain c2 r4 where c2: "skipSpace r3 = c2 # r4" using 3(4) by (auto simp: eq jv jfail_def split: list.splits)
  have l: "length r4 < length s" using 3(2) [OF jv] skipSpace_Cons [OF c2] by linarith
  show ?case
  proof (cases "c2 = CHR '',''")
    case True
    have "json_items depth (acc @ [w]) r4 = Inr (v, r)" using 3(4) True by (simp add: eq jv c2)
    then have "length r < length r4" by (rule 3(3) [OF jv refl c2 True])
    then show ?thesis using l by linarith
  next
    case False
    then have "r = r4" using 3(4) by (auto simp: eq jv c2 jfail_def split: if_splits)
    then show ?thesis using l by simp
  qed
qed

termination json_value
proof (relation "measure (\<lambda>x. case x of
    Inl (d, s) \<Rightarrow> 2 * length s | Inr (Inl (d, acc, s)) \<Rightarrow> 2 * length s + 1 | Inr (Inr (d, acc, s)) \<Rightarrow> 2 * length s + 1)",
    goal_cases)
  case 1
  show ?case by (rule wf_measure)
next
  case (2 depth s c cs)
  then show ?case using skipSpace_Cons [of s c cs] skipSpace_length [of cs] by simp
next
  case (3 depth s c cs)
  then show ?case using skipSpace_Cons [of s c cs] skipSpace_length [of cs] by simp
next
  case (4 depth acc s x key r1 c1 r2)
  then have "json_string (skipSpace s) = Inr (key, r1)" "skipSpace r1 = c1 # r2" by simp_all
  then have "length r1 < length (skipSpace s)" "length r2 < length r1"
    using json_string_shorter skipSpace_Cons by blast+
  then show ?case using skipSpace_length [of s] by simp
next
  case (5 depth acc s x key r1 c1 r2 y v r3 c2 r4)
  then have "json_string (skipSpace s) = Inr (key, r1)" "skipSpace r1 = c1 # r2" "json_value depth r2 = Inr (v, r3)"
    "skipSpace r3 = c2 # r4" by simp_all
  then have "length r1 < length (skipSpace s)" "length r2 < length r1" "length r3 < length r2" "length r4 < length r3"
    using json_string_shorter skipSpace_Cons partial_shorter(1) 5(9) by blast+
  then show ?case using skipSpace_length [of s] by simp
next
  case (6 depth acc s)
  show ?case by simp
next
  case (7 depth acc s x v r c cs)
  then have "json_value depth s = Inr (v, r)" "skipSpace r = c # cs" by simp_all
  then have "length r < length s" "length cs < length r" using partial_shorter(1) 7(5) skipSpace_Cons by blast+
  then show ?case by simp
qed

declare json_value.simps [simp del] and json_members.simps [simp del] and json_items.simps [simp del]

definition parseJson :: "string \<Rightarrow> string + json" where
  "parseJson text = (case json_value 0 text of
       Inl (what, left) \<Rightarrow> Inl (what @ '' at offset '' @ decimal (length text - left))
     | Inr (v, rest) \<Rightarrow>
         if skipSpace rest \<noteq> []
         then Inl (''trailing text after the value, at offset '' @ decimal (length text - length (skipSpace rest)))
         else Inr v)"

section \<open>Nesting is bounded\<close>

fun nesting :: "json \<Rightarrow> nat" where
  "nesting (JObject m) = Suc (foldr max (map (\<lambda>kv. nesting (snd kv)) m) 0)"
| "nesting (JArray xs) = Suc (foldr max (map nesting xs) 0)"
| "nesting _ = 0"

lemma foldr_max_le: "foldr max ns a \<le> (k :: nat) \<longleftrightarrow> a \<le> k \<and> (\<forall>n\<in>set ns. n \<le> k)"
  by (induction ns) auto

lemma in_map_put: "(k', v') \<in> set (map_put k v m) \<Longrightarrow> (k', v') = (k, v) \<or> (k', v') \<in> set m"
  by (induction k v m rule: map_put.induct) (auto split: if_splits)

definition depth_ok :: "nat \<Rightarrow> json parsed \<Rightarrow> bool" where
  "depth_ok k r = (case r of Inl e \<Rightarrow> True | Inr (v, rest) \<Rightarrow> nesting v \<le> k)"

lemma depth_ok_simps [simp]: "depth_ok k (Inl e)" "depth_ok k (Inr (v, rest)) \<longleftrightarrow> nesting v \<le> k" "depth_ok k (jfail w s)"
  by (simp_all add: depth_ok_def jfail_def)

lemma depth_scalar: "depth_ok k (parse_literal w (JBool b) s)" "depth_ok k (parse_literal w JNull s)" "depth_ok k (json_number s)"
  by (auto simp: parse_literal_def json_number_def split: option.splits)

lemma parsed_depth:
  "depth_ok (kMaxNestingDepth - depth) (json_value depth s)"
  "(\<forall>kv\<in>set acc. nesting (snd kv) \<le> kMaxNestingDepth - depth) \<Longrightarrow> depth_ok (Suc (kMaxNestingDepth - depth)) (json_members depth acc s)"
  "(\<forall>v\<in>set acc'. nesting v \<le> kMaxNestingDepth - depth) \<Longrightarrow> depth_ok (Suc (kMaxNestingDepth - depth)) (json_items depth acc' s)"
proof (induction depth s and depth acc s and depth acc' s rule: json_value_json_members_json_items.induct)
  case (1 depth s)
  show ?case
  proof (cases "skipSpace s")
    case (Cons c cs)
    have e: "kMaxNestingDepth - depth = Suc (kMaxNestingDepth - Suc depth)" if "\<not> kMaxNestingDepth \<le> depth"
      using that by simp
    have m: "depth_ok (kMaxNestingDepth - depth) (json_members (Suc depth) [] (skipSpace cs))"
      if "\<not> kMaxNestingDepth \<le> depth" "c = CHR ''{''" "take 1 (skipSpace cs) \<noteq> ''}''"
      unfolding e [OF that(1)] using 1(1) [OF Cons _ that] that(2) by simp
    have i: "depth_ok (kMaxNestingDepth - depth) (json_items (Suc depth) [] (skipSpace cs))"
      if "\<not> kMaxNestingDepth \<le> depth" "c = CHR ''[''" "take 1 (skipSpace cs) \<noteq> '']''"
      unfolding e [OF that(1)] using 1(2) [OF Cons _ that(1) _ that(3)] that(2) by simp
    have s: "depth_ok k (case json_string u of Inl e \<Rightarrow> Inl e | Inr (out, rest) \<Rightarrow> Inr (JString out, rest))" for k u
      by (simp split: sum.split prod.split)
    have z: "1 \<le> kMaxNestingDepth - depth" if "\<not> kMaxNestingDepth \<le> depth" using that by simp
    show ?thesis
      unfolding json_value.simps [of depth s] Cons list.case using m i s z depth_scalar by (simp split del: if_split) (simp split: if_split)
  qed (simp add: json_value.simps)
next
  case (2 depth acc s)
  show ?case
  proof (cases "json_string (skipSpace s)")
    case (Inr b)
    obtain key r1 where b: "b = (key, r1)" by force
    show ?thesis
    proof (cases "skipSpace r1")
      case (Cons c1 r2)
      show ?thesis
      proof (cases "c1 = CHR '':''")
        case True
        then have ih: "depth_ok (kMaxNestingDepth - depth) (json_value depth r2)" using 2(1) [OF Inr _ Cons] b by simp
        show ?thesis
        proof (cases "json_value depth r2")
          case ok: (Inr w)
          obtain v r3 where w: "w = (v, r3)" by force
          have n: "\<forall>kv\<in>set (map_put key v acc). nesting (snd kv) \<le> kMaxNestingDepth - depth"
            using 2(3) ih ok w by (auto dest: in_map_put)
          have "depth_ok (Suc (kMaxNestingDepth - depth)) (json_members depth (map_put key v acc) r4)"
            if "skipSpace r3 = CHR '','' # r4" for r4
            using 2(2) [OF Inr _ Cons _ ok _ that refl] b w True n by simp
          then show ?thesis using n
            by (auto simp: json_members.simps Inr b Cons True ok w foldr_max_le split: list.splits)
        qed (simp add: json_members.simps Inr b Cons True)
      qed (simp add: json_members.simps Inr b Cons)
    qed (simp add: json_members.simps Inr b)
  qed (simp add: json_members.simps)
next
  case (3 depth acc s)
  show ?case
  proof (cases "json_value depth s")
    case (Inr w)
    obtain v r where w: "w = (v, r)" by force
    have n: "\<forall>u\<in>set (acc @ [v]). nesting u \<le> kMaxNestingDepth - depth" using 3(1,3) Inr w by auto
    have "depth_ok (Suc (kMaxNestingDepth - depth)) (json_items depth (acc @ [v]) cs)" if "skipSpace r = CHR '','' # cs" for cs
      using 3(2) [OF Inr _ that refl] w n by simp
    then show ?thesis using n by (auto simp: json_items.simps Inr w foldr_max_le split: list.splits)
  qed (simp add: json_items.simps)
qed

text \<open>
  No text makes the parser build a value nested more than 64 deep, and so none makes it recurse deeper.
\<close>

theorem json_depth_bounded:
  assumes "parseJson input = Inr v"
  shows "nesting v \<le> 64"
  using assms parsed_depth(1) [of 0 input]
  by (auto simp: parseJson_def kMaxNestingDepth_def split: sum.splits prod.splits if_splits)

theorem json_depth_bounded_witness: "parseJson ''[[true], null]'' = Inr (JArray [JArray [JBool True], JNull]) \<and>
    nesting (JArray [JArray [JBool True], JNull]) \<le> 64"
proof -
  have "parseJson ''[[true], null]'' = Inr (JArray [JArray [JBool True], JNull])" by code_simp
  then show ?thesis using json_depth_bounded [of "''[[true], null]''"] by blast
qed

section \<open>What was written is read back\<close>

text \<open>The values the interfaces build: whole numbers, and text without the NUL character.\<close>

definition no_nul :: "string \<Rightarrow> bool" where
  "no_nul s \<longleftrightarrow> list_all (\<lambda>c. code c \<noteq> 0) s"

definition whole_number :: "double_val \<Rightarrow> bool" where
  "whole_number d = (case d of Finite x \<Rightarrow> x = of_int \<lfloor>x\<rfloor> \<and> \<bar>x\<bar> < 10 ^ 15 | _ \<Rightarrow> False)"

fun plain_json :: "json \<Rightarrow> bool" where
  "plain_json (JNumber d) = whole_number d"
| "plain_json (JString s) = no_nul s"
| "plain_json (JObject m) = (sorted_map m \<and> list_all (\<lambda>kv. no_nul (fst kv) \<and> plain_json (snd kv)) m)"
| "plain_json (JArray xs) = list_all plain_json xs"
| "plain_json _ = True"

lemma string_tail_piece:
  assumes "code c \<noteq> 0"
  shows "string_tail (quote_char c @ s) = prepend [c] (string_tail s)"
proof (cases "code c < 32 \<and> length (quote_char c) = 6")
  case True
  then have e: "quote_char c = [CHR 0x5C, CHR ''u'', CHR ''0'', CHR ''0'', digit_char (code c div 16), digit_char (code c mod 16)]"
    by (auto simp: quote_char_def split: if_splits)
  have "digit_val 16 (CHR ''0'') = Some 0" by (simp add: digit_val_def code_def)
  moreover have "digit_val 16 (digit_char (code c div 16)) = Some (code c div 16)"
    "digit_val 16 (digit_char (code c mod 16)) = Some (code c mod 16)"
    using True by (auto intro!: digit_val_char)
  ultimately have "scan_number 16 [CHR ''0'', CHR ''0'', digit_char (code c div 16), digit_char (code c mod 16)] = Some (False, code c, [])"
    by (simp add: scan_number_def skip_sign_def skip_prefix_def starts_with_digit_def is_space_def code_def)
  then have "unicode_piece [CHR ''0'', CHR ''0'', digit_char (code c div 16), digit_char (code c mod 16)] = [c]"
    using True assms by (simp add: unicode_piece_def hex_code_def)
  then show ?thesis by (simp add: e simple_unescape_def)
next
  case False
  then show ?thesis by (auto simp: quote_char_def simple_unescape_def)
qed

lemma string_tail_quoted:
  "no_nul s \<Longrightarrow> string_tail (concat (map quote_char s) @ CHR 0x22 # rest) = Inr (s, rest)"
  by (induction s) (simp_all add: no_nul_def string_tail_piece prepend_def)

lemma json_string_quoted: "no_nul s \<Longrightarrow> json_string (jsonQuote s @ rest) = Inr (s, rest)"
  using string_tail_quoted [of s rest] by (simp add: json_string_def jsonQuote_def)

declare string_tail.simps [simp del]

text \<open>Whole numbers below \<open>2 ^ 53\<close> are doubles.\<close>

lemma to_double_whole:
  fixes m :: nat
  assumes "m < 2 ^ 53"
  shows "to_double (of_nat m) = of_nat m"
proof (cases "m = 0")
  case False
  let ?x = "of_nat m :: rat"
  have pos: "0 < ?x" using False by simp
  have "2 powi (binade ?x) \<le> ?x" by (rule binade_le [OF pos])
  also have "?x < 2 ^ 53" using assms by (metis of_nat_less_iff of_nat_numeral of_nat_power)
  finally have "(2::rat) powi binade ?x < 2 powi 53" by simp
  then have b: "binade ?x < 53" by (metis not_le one_le_numeral power_int_increasing)
  define k where "k = nat (52 - max (binade ?x) (- 1022))"
  have u: "(2::rat) powi (max (binade ?x) (- 1022) - 52) = 1 / 2 ^ k"
    using b by (simp add: k_def power_int_def field_simps) 
  have "round_even (of_int (int m * 2 ^ k)) = int m * 2 ^ k" by (simp only: round_even_def Let_def floor_of_int) simp
  then have "round_even (?x * 2 ^ k) = int m * 2 ^ k" by simp
  then show ?thesis using False u by (simp add: to_double_def Let_def)
qed (simp add: to_double_def)

text \<open>What may follow a value.\<close>

definition value_end :: "string \<Rightarrow> bool" where
  "value_end rest \<longleftrightarrow> rest = [] \<or> hd rest \<in> {CHR '','', CHR '']'', CHR ''}''}"

lemma exponent_none: "lower c \<noteq> e \<Longrightarrow> exponent_and_rest e (c # cs) = (0, c # cs)"
  by (simp add: exponent_and_rest_def Let_def split: prod.split)

lemma value_end_facts:
  assumes "value_end rest"
  shows "\<not> starts_with_digit 10 rest" "read_fraction 10 m rest = (of_nat m, 0, rest)"
    "exponent_and_rest (CHR ''e'') rest = (0, rest)" "take 1 rest \<noteq> ''x''" "take 1 rest \<noteq> ''X''"
proof -
  consider "rest = []" | c cs where "rest = c # cs" "c \<in> {CHR '','', CHR '']'', CHR ''}''}"
    using assms by (cases rest) (auto simp: value_end_def)
  then have "\<not> starts_with_digit 10 rest \<and> read_fraction 10 m rest = (of_nat m, 0, rest) \<and>
      exponent_and_rest (CHR ''e'') rest = (0, rest) \<and> take 1 rest \<noteq> ''x'' \<and> take 1 rest \<noteq> ''X''"
  proof cases
    case 1
    then show ?thesis by (simp add: starts_with_digit_def read_fraction_def exponent_and_rest_def)
  next
    case (2 c cs)
    have "lower c \<noteq> CHR ''e''" "digit_val 10 c = None" using 2(2) by (auto simp: lower_def digit_val_def code_def)
    then show ?thesis using 2 by (auto simp: starts_with_digit_def read_fraction_def exponent_none)
  qed
  then show "\<not> starts_with_digit 10 rest" "read_fraction 10 m rest = (of_nat m, 0, rest)"
    "exponent_and_rest (CHR ''e'') rest = (0, rest)" "take 1 rest \<noteq> ''x''" "take 1 rest \<noteq> ''X''" by blast+
qed

lemma magnitude_decimal:
  assumes "value_end rest"
  shows "magnitude_and_rest 10 (decimal m @ rest) = Some (of_nat m, rest)"
proof -
  have "read_digits 10 0 (decimal m @ rest) = (m, rest)"
    using read_digits_decimal [of 0 m rest] read_digits_stop [OF value_end_facts(1) [OF assms]] by simp
  then show ?thesis using value_end_facts [OF assms] by (simp add: magnitude_and_rest_def)
qed

lemma lower_digit: "is_digit c \<Longrightarrow> lower c = c"
  by (auto simp: lower_def is_digit_def)

lemma strtod_decimal:
  assumes "value_end rest" "m < 10 ^ 15"
  shows "strtod (decimal m @ rest) = Some (Finite (of_nat m), rest)"
    "strtod (''-'' @ decimal m @ rest) = Some (Finite (- of_nat m), rest)"
proof -
  obtain c cs where c: "decimal m = c # cs" "is_digit c" using decimal_hd by blast
  have l: "lower c = c" by (rule lower_digit [OF c(2)])
  have n: "\<not> is_space c" "c \<noteq> CHR ''-''" "c \<noteq> CHR ''+''" "c \<noteq> CHR ''i''" "c \<noteq> CHR ''n''"
    using c(2) by (auto simp: is_digit_def is_space_def code_def)
  have x: "to_lower (take 2 (decimal m @ rest)) \<noteq> ''0x''"
  proof
    assume "to_lower (take 2 (decimal m @ rest)) = ''0x''"
    then obtain b where b: "take 1 (cs @ rest) = [b]" "lower b = CHR ''x''"
      using c by (cases "cs @ rest") (auto simp: to_lower_def)
    then have bx: "b = CHR ''x'' \<or> b = CHR ''X''" by (auto simp: lower_def code_inject [symmetric] split: if_splits) (auto simp: code_def)
    show False
    proof (cases cs)
      case Nil
      then show False using b(1) bx value_end_facts(4,5) [OF assms(1)] by auto
    next
      case (Cons d ds)
      then have "is_digit d" using decimal_digits [of d m] c(1) by simp
      then show False using Cons b(1) bx by (auto simp: is_digit_def code_def)
    qed
  qed
  have w: "to_lower (take k (decimal m @ rest)) \<noteq> CHR ''i'' # ws" "to_lower (take k (decimal m @ rest)) \<noteq> CHR ''n'' # ws" for k ws
    using c l n by (cases k; simp add: to_lower_def)+
  have "m < 2 ^ 53" using assms(2) by (rule order.strict_trans) simp
  then have d: "to_double (of_nat m) = of_nat m" by (rule to_double_whole)
  have "(of_nat m :: rat) < of_nat (2 ^ 1024)" using \<open>m < 2 ^ 53\<close> by (simp only: of_nat_less_iff) (rule order.strict_trans, assumption, simp)
  then have b: "\<not> (2 ^ 1024 \<le> (of_nat m :: rat))" by simp
  have core: "strtod (sgn @ decimal m @ rest) = Some (Finite (if neg then - of_nat m else of_nat m), rest)"
    if "skip_sign (dropWhile is_space (sgn @ decimal m @ rest)) = (neg, decimal m @ rest)" for sgn neg
    using that x w magnitude_decimal [OF assms(1), of m] d b by (simp add: strtod_def double_of_def Let_def)
  show "strtod (decimal m @ rest) = Some (Finite (of_nat m), rest)"
    using core [of "[]" False] c n by (simp add: skip_sign_def)
  show "strtod (''-'' @ decimal m @ rest) = Some (Finite (- of_nat m), rest)"
    using core [of "''-''" True] by (simp add: skip_sign_def is_space_def code_def)
qed

lemma number_text_whole:
  assumes "whole_number d"
  obtains n where "d = Finite (of_int n)" "\<bar>n\<bar> < 10 ^ 15" "number_text d = decimal_int n"
proof -
  obtain x where x: "d = Finite x" "x = of_int \<lfloor>x\<rfloor>" "\<bar>x\<bar> < 10 ^ 15"
    using assms by (auto simp: whole_number_def split: double_val.splits)
  have "of_int \<bar>\<lfloor>x\<rfloor>\<bar> < (of_int (10 ^ 15) :: rat)" using x(2,3) by simp
  then have "\<bar>\<lfloor>x\<rfloor>\<bar> < 10 ^ 15" by (simp only: of_int_less_iff)
  then show thesis using that [of "\<lfloor>x\<rfloor>"] x by (simp add: number_text_def)
qed

lemma decimal_int_hd: "\<exists>c cs. decimal_int n = c # cs \<and> (is_digit c \<or> c = CHR ''-'')"
  using decimal_hd [of "nat n"] by (auto simp: decimal_int_def)

lemma json_number_whole:
  assumes "whole_number d" "value_end rest"
  shows "json_number (number_text d @ rest) = Inr (JNumber d, rest)"
proof -
  obtain n where n: "d = Finite (of_int n)" "\<bar>n\<bar> < 10 ^ 15" "number_text d = decimal_int n"
    using number_text_whole [OF assms(1)] by blast
  have m: "nat n < 10 ^ 15" "nat (- n) < 10 ^ 15" using n(2) by (simp_all add: nat_less_iff)
  have "strtod (decimal_int n @ rest) = Some (d, rest)"
    using strtod_decimal(1) [OF assms(2) m(1)] strtod_decimal(2) [OF assms(2) m(2)] n(1) by (simp add: decimal_int_def)
  moreover have "decimal_int n \<noteq> []" using decimal_int_hd [of n] by auto
  ultimately show ?thesis by (simp add: json_number_def n(3))
qed

lemma serialise_hd:
  assumes "plain_json v"
  obtains c cs where "serialise v = c # cs" "\<not> json_space c" "c \<noteq> CHR '']''" "c \<noteq> CHR ''}''"
proof (cases v)
  case (JNumber d)
  then obtain n where "serialise v = decimal_int n" using assms number_text_whole by (metis plain_json.simps(1) serialise.simps(4))
  moreover have "\<not> json_space c \<and> c \<noteq> CHR '']'' \<and> c \<noteq> CHR ''}''" if "is_digit c \<or> c = CHR ''-''" for c
    using that by (auto simp: is_digit_def json_space_def code_def)
  ultimately show thesis using decimal_int_hd [of n] that by metis
next
  case (JBool b)
  then show thesis using that by (cases b) (auto simp: json_space_def)
qed (use that in \<open>auto simp: json_space_def jsonQuote_def\<close>)

lemma skipSpace_serialise: "plain_json v \<Longrightarrow> skipSpace (serialise v @ rest) = serialise v @ rest"
  by (rule serialise_hd [of v]) (auto simp: skipSpace_def)

lemma skipSpace_end: "value_end rest \<Longrightarrow> skipSpace rest = rest"
  by (cases rest) (auto simp: skipSpace_def value_end_def json_space_def)

lemma skipSpace_quoted: "skipSpace (jsonQuote k @ rest) = jsonQuote k @ rest"
  by (simp add: skipSpace_def jsonQuote_def json_space_def)

definition reads_back :: "nat \<Rightarrow> json \<Rightarrow> bool" where
  "reads_back depth v \<longleftrightarrow> (\<forall>rest. value_end rest \<longrightarrow> json_value depth (serialise v @ rest) = Inr (v, rest))"

lemma value_end_simps [simp]: "value_end (CHR '','' # r)" "value_end (CHR '']'' # r)" "value_end (CHR ''}'' # r)" "value_end []"
  by (simp_all add: value_end_def)

lemma items_back:
  assumes "\<forall>v\<in>set xs. reads_back depth v" "xs \<noteq> []"
  shows "json_items depth acc (separated (map serialise xs) @ CHR '']'' # rest) = Inr (JArray (acc @ xs), rest)"
  using assms
proof (induction xs arbitrary: acc rule: induct_list012)
  case (2 x)
  then have "json_value depth (serialise x @ CHR '']'' # rest) = Inr (x, CHR '']'' # rest)" by (simp add: reads_back_def)
  then show ?case by (simp add: json_items.simps skipSpace_end)
next
  case (3 x y xs)
  have "json_value depth (serialise x @ CHR '','' # separated (map serialise (y # xs)) @ CHR '']'' # rest) =
      Inr (x, CHR '','' # separated (map serialise (y # xs)) @ CHR '']'' # rest)"
    using 3(3) by (simp add: reads_back_def)
  then show ?case using 3(2) [of "acc @ [x]"] 3(3) by (simp add: json_items.simps [of depth acc] skipSpace_end)
qed simp

lemma members_back:
  assumes "\<forall>kv\<in>set m. no_nul (fst kv) \<and> plain_json (snd kv) \<and> reads_back depth (snd kv)" "m \<noteq> []" "sorted_map (acc @ m)"
  shows "json_members depth acc (separated (map (\<lambda>(k, v). jsonQuote k @ '':'' @ serialise v) m) @ CHR ''}'' # rest) =
    Inr (JObject (acc @ m), rest)"
  using assms
proof (induction m arbitrary: acc rule: induct_list012)
  case (2 kv)
  obtain k v where kv: "kv = (k, v)" by force
  have "json_value depth (serialise v @ CHR ''}'' # rest) = Inr (v, CHR ''}'' # rest)" using 2 kv by (simp add: reads_back_def)
  moreover have "map_put k v acc = acc @ [(k, v)]" using 2(3) by (intro map_put_last) (auto simp: kv sorted_map_append)
  ultimately show ?case using 2(1) kv
    by (simp add: json_members.simps skipSpace_quoted json_string_quoted skipSpace_end skipSpace_serialise)
       (simp add: skipSpace_def json_space_def)
next
  case (3 kv kv' m)
  obtain k v where kv: "kv = (k, v)" by force
  let ?more = "separated (map (\<lambda>(k, v). jsonQuote k @ '':'' @ serialise v) (kv' # m)) @ CHR ''}'' # rest"
  have "json_value depth (serialise v @ CHR '','' # ?more) = Inr (v, CHR '','' # ?more)" using 3(3) kv by (simp add: reads_back_def)
  moreover have "map_put k v acc = acc @ [(k, v)]" using 3(5) by (intro map_put_last) (auto simp: kv sorted_map_append)
  moreover have "json_members depth (acc @ [(k, v)]) ?more = Inr (JObject ((acc @ [(k, v)]) @ kv' # m), rest)"
    using 3(3,5) kv by (intro 3(2)) auto
  ultimately show ?case using 3(3) kv
    by (simp add: json_members.simps [of depth acc] skipSpace_quoted json_string_quoted skipSpace_end)
       (simp add: skipSpace_def json_space_def)
qed simp

lemma separated_hd: "\<exists>r. separated (x # xs) = x @ r"
  by (cases xs) auto

lemma value_back: "plain_json v \<Longrightarrow> depth + nesting v \<le> kMaxNestingDepth \<Longrightarrow> reads_back depth v"
proof (induction v arbitrary: depth)
  case (JNumber d)
  show ?case unfolding reads_back_def
  proof (intro allI impI)
    fix rest assume r: "value_end rest"
    obtain n where n: "number_text d = decimal_int n" using JNumber number_text_whole by (metis plain_json.simps(1))
    obtain c cs where c: "decimal_int n = c # cs" "is_digit c \<or> c = CHR ''-''" using decimal_int_hd by blast
    have h: "c \<notin> {CHR ''{'', CHR ''['', CHR 0x22, CHR ''t'', CHR ''f'', CHR ''n''} \<and> \<not> json_space c"
      using c(2) by (auto simp: is_digit_def json_space_def code_def)
    have "json_number (c # cs @ rest) = Inr (JNumber d, rest)" using json_number_whole [of d rest] JNumber r n c by simp
    then show "json_value depth (serialise (JNumber d) @ rest) = Inr (JNumber d, rest)"
      using h by (simp add: json_value.simps n c skipSpace_def)
  qed
next
  case (JString s)
  have "json_string (CHR 0x22 # concat (map quote_char s) @ CHR 0x22 # rest) = Inr (s, rest)" for rest
    using json_string_quoted [of s rest] JString by (simp add: jsonQuote_def)
  then show ?case by (simp add: reads_back_def json_value.simps jsonQuote_def skipSpace_def json_space_def)
next
  case (JObject m)
  have m: "\<forall>kv\<in>set m. no_nul (fst kv) \<and> plain_json (snd kv)" "sorted_map m" using JObject(2) by (auto simp: list_all_iff)
  have "foldr max (map (\<lambda>kv. nesting (snd kv)) m) 0 \<le> kMaxNestingDepth - Suc depth" and d: "Suc depth \<le> kMaxNestingDepth"
    using JObject(3) by simp_all
  then have "\<forall>kv\<in>set m. Suc depth + nesting (snd kv) \<le> kMaxNestingDepth" by (auto simp: foldr_max_le)
  then have "\<forall>kv\<in>set m. no_nul (fst kv) \<and> plain_json (snd kv) \<and> reads_back (Suc depth) (snd kv)"
    using m JObject(1) by (metis prod.collapse prod_set_simps(2) singletonI snds.cases)
  from members_back [OF this, of "[]"] m(2)
  have b: "m \<noteq> [] \<Longrightarrow> json_members (Suc depth) [] (separated (map (\<lambda>(k, v). jsonQuote k @ '':'' @ serialise v) m) @ CHR ''}'' # rest) =
      Inr (JObject m, rest)" for rest by simp
  show ?case
  proof (cases "m = []")
    case True
    then show ?thesis using d by (simp add: reads_back_def json_value.simps skipSpace_def json_space_def)
  next
    case False
    then obtain k v m' where "m = (k, v) # m'" by (metis list.exhaust prod.exhaust)
    then obtain cs where "separated (map (\<lambda>(k, v). jsonQuote k @ '':'' @ serialise v) m) = CHR 0x22 # cs"
      using separated_hd [of "jsonQuote k @ '':'' @ serialise v" "map (\<lambda>(k, v). jsonQuote k @ '':'' @ serialise v) m'"]
      by (auto simp: jsonQuote_def)
    then show ?thesis using d b [OF False] by (simp add: reads_back_def json_value.simps [of depth] skipSpace_def json_space_def)
  qed
next
  case (JArray xs)
  have "foldr max (map nesting xs) 0 \<le> kMaxNestingDepth - Suc depth" and d: "Suc depth \<le> kMaxNestingDepth"
    using JArray(3) by simp_all
  then have "\<forall>v\<in>set xs. Suc depth + nesting v \<le> kMaxNestingDepth" by (auto simp: foldr_max_le)
  then have r: "\<forall>v\<in>set xs. reads_back (Suc depth) v" using JArray(1,2) by (auto simp: list_all_iff)
  show ?case
  proof (cases xs)
    case Nil
    then show ?thesis using d by (simp add: reads_back_def json_value.simps skipSpace_def json_space_def)
  next
    case (Cons x ys)
    have "plain_json x" using JArray(2) Cons by simp
    then obtain c cs where c: "serialise x = c # cs" "\<not> json_space c" "c \<noteq> CHR '']''" by (rule serialise_hd)
    then have "\<exists>cs. separated (map serialise xs) = c # cs" using Cons by (cases ys) auto
    then show ?thesis using d items_back [OF r, of "[]"] Cons c(2,3)
      by (auto simp: reads_back_def json_value.simps [of depth] skipSpace_def json_space_def)
  qed
qed (auto simp: reads_back_def json_value.simps skipSpace_def json_space_def parse_literal_def)



interpretation json_document: codec "\<lambda>v. plain_json v \<and> nesting v \<le> kMaxNestingDepth" serialise parseJson Inr
proof unfold_locales
  show "parseJson (serialise v) = Inr v" if "plain_json v \<and> nesting v \<le> kMaxNestingDepth" for v
    using value_back [of v 0] that by (auto simp: parseJson_def reads_back_def skipSpace_def dest!: spec [of _ "[]"])
qed auto

text \<open>A NUL character is written as an escape the parser leaves alone: it comes back as six characters.\<close>

lemma json_nul_mangled:
  "parseJson (serialise (JString [CHR 0x00])) = Inr (JString ([CHR 0x5C] @ ''u0000''))"
  by code_simp

end
