(* ===== verification/Nmos_Common.thy ===== *)
theory Nmos_Common
  imports Json_Values Ravenna_Sessions
begin

text \<open>
  What the NMOS interfaces share: the replies of \<open>src/packages/aes67-ravenna/Ravenna/ApiReplies.cpp\<close> and the time of
  \<open>TaiClock.h\<close> and \<open>TaiClock.cpp\<close>.
\<close>

section \<open>Replies\<close>

record api_response =
  rsp_status :: int
  rsp_contentType :: string
  rsp_body :: string

text \<open>A \<open>JsonObject\<close> filled member by member.\<close>

definition json_object :: "(string \<times> json) list \<Rightarrow> json" where
  "json_object kvs = JObject (fold (\<lambda>(k, v). map_put k v) kvs [])"

definition jsonResponse :: "int \<Rightarrow> json \<Rightarrow> api_response" where
  "jsonResponse st v = \<lparr>rsp_status = st, rsp_contentType = ''application/json'', rsp_body = serialise v\<rparr>"

definition error_summary :: "int \<Rightarrow> string" where
  "error_summary st =
     (if st = 404 then ''Not Found'' else if st = 405 then ''Method Not Allowed'' else if st = 423 then ''Locked''
      else if st = 500 then ''Internal Server Error'' else if st = 501 then ''Not Implemented'' else ''Bad Request'')"

definition errorResponse :: "int \<Rightarrow> string \<Rightarrow> api_response" where
  "errorResponse st detail = jsonResponse st
     (json_object [(''code'', JInt st), (''error'', JString (error_summary st)), (''debug'', JString detail)])"

definition listResponse :: "string list \<Rightarrow> api_response" where
  "listResponse entries = jsonResponse 200 (JArray (map JString entries))"

section \<open>TAI\<close>

record tai_time =
  tai_seconds :: u64
  tai_nanos :: u32

definition kNanosPerSecond :: nat where "kNanosPerSecond = 1000000000"

definition taiText :: "tai_time \<Rightarrow> string" where
  "taiText t = decimal (unat (tai_seconds t)) @ '':'' @ decimal (unat (tai_nanos t))"

definition parseTai :: "string \<Rightarrow> tai_time option" where
  "parseTai t = (case cut_first (CHR '':'') t of
       None \<Rightarrow> None
     | Some (seconds, nanos) \<Rightarrow>
         if seconds = [] \<or> nanos = [] \<or> \<not> list_all is_digit seconds \<or> \<not> list_all is_digit nanos then None
         else (case stoul 10 seconds of
             Inl e \<Rightarrow> None
           | Inr s \<Rightarrow> (case stoul 10 nanos of
                 Inl e \<Rightarrow> None
               | Inr f \<Rightarrow> if f \<ge> of_nat kNanosPerSecond then None
                         else Some \<lparr>tai_seconds = s, tai_nanos = ucast f\<rparr>)))"

definition taiSum :: "tai_time \<Rightarrow> tai_time \<Rightarrow> tai_time" where
  "taiSum a b =
     (let s = tai_seconds a + tai_seconds b; n = tai_nanos a + tai_nanos b in
      if n \<ge> of_nat kNanosPerSecond then \<lparr>tai_seconds = s + 1, tai_nanos = n - of_nat kNanosPerSecond\<rparr>
      else \<lparr>tai_seconds = s, tai_nanos = n\<rparr>)"

definition taiReached :: "tai_time \<Rightarrow> tai_time \<Rightarrow> bool" where
  "taiReached due now =
     (if tai_seconds now \<noteq> tai_seconds due then tai_seconds now > tai_seconds due else tai_nanos now \<ge> tai_nanos due)"

section \<open>Times and replies\<close>

definition wf_tai :: "tai_time \<Rightarrow> bool" where
  "wf_tai t \<longleftrightarrow> unat (tai_nanos t) < kNanosPerSecond"

text \<open>Nanoseconds since the epoch.\<close>

definition tai_value :: "tai_time \<Rightarrow> nat" where
  "tai_value t = unat (tai_seconds t) * kNanosPerSecond + unat (tai_nanos t)"

lemma tai_reached_value:
  assumes "wf_tai due" "wf_tai now"
  shows "taiReached due now \<longleftrightarrow> tai_value due \<le> tai_value now"
proof -
  let ?K = kNanosPerSecond
  have a: "unat (tai_nanos due) < ?K" "unat (tai_nanos now) < ?K" using assms by (simp_all add: wf_tai_def)
  have step: "s * ?K + n < s' * ?K + n'" if "s < s'" "n < ?K" for s s' n n' :: nat
  proof -
    have "(s + 1) * ?K \<le> s' * ?K" using that(1) by (intro mult_le_mono1) simp
    then show ?thesis using that(2) by simp
  qed
  consider "unat (tai_seconds due) < unat (tai_seconds now)" | "unat (tai_seconds now) < unat (tai_seconds due)"
    | "tai_seconds now = tai_seconds due" using word_unat_eq_iff by (metis linorder_neqE_nat)
  then show ?thesis
  proof cases
    case 1
    then show ?thesis using step [OF 1 a(1), of "unat (tai_nanos now)"] by (auto simp: taiReached_def tai_value_def word_less_nat_alt)
  next
    case 2
    then show ?thesis using step [OF 2 a(2), of "unat (tai_nanos due)"] by (auto simp: taiReached_def tai_value_def word_less_nat_alt)
  qed (simp add: taiReached_def tai_value_def word_le_nat_alt)
qed

lemma decimal_all_digits: "list_all is_digit (decimal n)"
  using decimal_digits by (auto simp: list_all_iff)

lemma tai_text_back: "wf_tai t \<Longrightarrow> parseTai (taiText t) = Some t"
proof -
  assume w: "wf_tai t"
  have c: "cut_first (CHR '':'') (decimal (unat (tai_seconds t)) @ CHR '':'' # decimal (unat (tai_nanos t))) =
      Some (decimal (unat (tai_seconds t)), decimal (unat (tai_nanos t)))"
    by (rule cut_first_append) (rule decimal_no_char, simp add: is_digit_def code_def)
  have s: "unat (tai_seconds t) < 2 ^ 64" using unsigned_less [of "tai_seconds t", where 'a = nat] by simp
  have n: "unat (tai_nanos t) < 1000000000" using w by (simp add: wf_tai_def kNanosPerSecond_def)
  have "unat (of_nat (unat (tai_nanos t)) :: u64) = unat (tai_nanos t)" using n by (intro unat_of_nat_small) simp
  then have "\<not> of_nat kNanosPerSecond \<le> (of_nat (unat (tai_nanos t)) :: u64)"
    using n by (simp add: word_le_nat_alt kNanosPerSecond_def del: of_nat_unat)
  moreover have "ucast (of_nat (unat (tai_nanos t)) :: u64) = tai_nanos t" by simp
  ultimately show ?thesis
    using c s n by (simp add: parseTai_def taiText_def decimal_all_digits del: of_nat_unat) simp
qed

text \<open>
  The time of a relative activation is the sum of now and the offset, unless the seconds wrap: an offset near
  \<open>2 ^ 64\<close> seconds, which is accepted, gives an instant that has already passed.
\<close>

lemma tai_sum_exact:
  assumes "wf_tai a" "wf_tai b" "unat (tai_seconds a) + unat (tai_seconds b) + 1 < 2 ^ 64"
  shows "wf_tai (taiSum a b)" "tai_value (taiSum a b) = tai_value a + tai_value b"
proof -
  have n: "unat (tai_nanos a) < 1000000000" "unat (tai_nanos b) < 1000000000" using assms(1,2) by (simp_all add: wf_tai_def kNanosPerSecond_def)
  have ns: "unat (tai_nanos a + tai_nanos b) = unat (tai_nanos a) + unat (tai_nanos b)"
    using n by (intro unat_add_lem [THEN iffD1]) simp
  have ss: "unat (tai_seconds a + tai_seconds b) = unat (tai_seconds a) + unat (tai_seconds b)"
    using assms(3) by (intro unat_add_lem [THEN iffD1]) simp
  have s1: "unat (tai_seconds a + tai_seconds b + 1) = unat (tai_seconds a) + unat (tai_seconds b) + 1"
    using assms(3) ss by (subst unat_add_lem [THEN iffD1]) simp_all
  have k: "unat (of_nat kNanosPerSecond :: u32) = 1000000000" by (simp add: kNanosPerSecond_def)
  have le: "of_nat kNanosPerSecond \<le> tai_nanos a + tai_nanos b \<longleftrightarrow> 1000000000 \<le> unat (tai_nanos a) + unat (tai_nanos b)"
    unfolding word_le_nat_alt k ns ..
  have sub: "unat (tai_nanos a + tai_nanos b - of_nat kNanosPerSecond) = unat (tai_nanos a) + unat (tai_nanos b) - 1000000000"
    if "of_nat kNanosPerSecond \<le> tai_nanos a + tai_nanos b" using unat_sub [OF that] k ns by simp
  show "wf_tai (taiSum a b)" using n ns sub le by (auto simp: taiSum_def Let_def wf_tai_def kNanosPerSecond_def)
  show "tai_value (taiSum a b) = tai_value a + tai_value b"
    using n ns ss s1 sub le by (auto simp: taiSum_def Let_def tai_value_def kNanosPerSecond_def algebra_simps)
qed

lemma tai_sum_wraps:
  "taiReached (taiSum \<lparr>tai_seconds = 1700000000, tai_nanos = 0\<rparr> \<lparr>tai_seconds = 18446744073709551615, tai_nanos = 0\<rparr>)
     \<lparr>tai_seconds = 1700000000, tai_nanos = 0\<rparr>"
  by (simp add: taiReached_def taiSum_def kNanosPerSecond_def)

end
