(* ===== verification/Connection_Api.thy ===== *)
theory Connection_Api
  imports Nmos_Common
begin

text \<open>
  The NMOS IS-05 connection interface: \<open>src/packages/aes67-ravenna/Ravenna/ConnectionApi.h\<close> and \<open>ConnectionApi.cpp\<close>. A
  request is its method, path and body; \<open>handle\<close> holds one lock for its whole run, so an execution is a sequence of
  requests. The host's two callbacks are functions of an \<open>api_env\<close> that may change the state of the host; the
  clocks are read once per request. The result is \<open>None\<close> where the behaviour of C++ is undefined: a number outside
  the range of \<open>uint16_t\<close> that is converted to it.
\<close>

section \<open>State\<close>

record conn_state =
  cs_masterEnable :: bool
  cs_transportFile :: string
  cs_senderId :: string
  cs_receiverId :: string
  cs_transportParams :: "(string, json) stdmap"
  cs_activationMode :: string
  cs_requestedTime :: string
  cs_activationTime :: string

definition conn_default :: conn_state where
  "conn_default = \<lparr>cs_masterEnable = False, cs_transportFile = [], cs_senderId = [], cs_receiverId = [],
     cs_transportParams = [], cs_activationMode = ''null'', cs_requestedTime = [], cs_activationTime = []\<rparr>"

record pending_activation =
  pa_waiting :: bool
  pa_due :: tai_time
  pa_state :: conn_state

definition pending_none :: pending_activation where
  "pending_none = \<lparr>pa_waiting = False, pa_due = \<lparr>tai_seconds = 0, tai_nanos = 0\<rparr>, pa_state = conn_default\<rparr>"

record conn_sender =
  cx_id :: string
  cx_label :: string
  cx_sdp :: string
  cx_staged :: conn_state
  cx_active :: conn_state
  cx_pending :: pending_activation

record conn_receiver =
  cr_id :: string
  cr_label :: string
  cr_staged :: conn_state
  cr_active :: conn_state
  cr_pending :: pending_activation

record connection_api =
  ca_senders :: "(string, conn_sender) stdmap"
  ca_receivers :: "(string, conn_receiver) stdmap"
  ca_interface :: string

text \<open>
  The callbacks take the identifier, the description, whether the resource is enabled and the state of the
  host; \<open>None\<close> is a callback that was never set.
\<close>

type_synonym 'h activation_callback = "string \<Rightarrow> string \<Rightarrow> bool \<Rightarrow> 'h \<Rightarrow> (bool \<times> string) \<times> 'h"

record 'h api_env =
  onReceiver :: "'h activation_callback option"
  onSender :: "'h activation_callback option"
  env_tai :: tai_time
  env_time :: u64

definition kConnectionApiRoot :: string where "kConnectionApiRoot = ''/x-nmos/connection/v1.1''"
definition kTransportRtp :: string where "kTransportRtp = ''urn:x-nmos:transport:rtp''"
definition kActivateImmediate :: string where "kActivateImmediate = ''activate_immediate''"
definition kActivateRelative :: string where "kActivateRelative = ''activate_scheduled_relative''"
definition kActivateAbsolute :: string where "kActivateAbsolute = ''activate_scheduled_absolute''"

section \<open>Transport parameters\<close>

definition transport_session :: "string \<Rightarrow> sdp_session option" where
  "transport_session sdp = (if sdp = [] then None else parseString sdp)"

definition address_json :: "string \<Rightarrow> json" where
  "address_json value = (if value = [] then JNull else JString value)"

definition transportParamsFromSdp :: "string \<Rightarrow> bool \<Rightarrow> (string, json) stdmap" where
  "transportParamsFromSdp sdp forSender =
     (let session = transport_session sdp;
          address = (\<lambda>f. case session of None \<Rightarrow> JNull | Some s \<Rightarrow> address_json (f s));
          port = (case session of None \<Rightarrow> JString ''auto'' | Some s \<Rightarrow> JInt (int (unat (sd_port s))))
      in asObject (json_object (
           [(''rtp_enabled'', JBool True)] @
           (if forSender
            then [(''source_ip'', address sd_originAddress), (''source_port'', JString ''auto''),
                  (''destination_ip'', address sd_connectionAddress)]
            else [(''source_ip'', address sd_sourceAddress), (''interface_ip'', JString ''auto''),
                  (''multicast_ip'', address sd_connectionAddress)]) @
           [(''destination_port'', port)])))"

definition isKnownPatchKey :: "string \<Rightarrow> bool \<Rightarrow> bool" where
  "isKnownPatchKey name forSender =
     (if name = ''master_enable'' \<or> name = ''activation'' \<or> name = ''transport_params'' then True
      else if forSender then name = ''receiver_id'' else name = ''sender_id'' \<or> name = ''transport_file'')"

definition is_auto :: "(string, json) stdmap \<Rightarrow> string \<Rightarrow> bool" where
  "is_auto leg name = (map_find leg name = Some (JString ''auto''))"

definition if_auto :: "string \<Rightarrow> json \<Rightarrow> (string, json) stdmap \<Rightarrow> (string, json) stdmap" where
  "if_auto name v leg = (if is_auto leg name then map_put name v leg else leg)"

definition resolveAutoLeg :: "(string, json) stdmap \<Rightarrow> bool \<Rightarrow> string \<Rightarrow> string \<Rightarrow> (string, json) stdmap" where
  "resolveAutoLeg leg forSender sdp interfaceAddress =
     (let session = transport_session sdp;
          mediaPort = (case session of None \<Rightarrow> 5004 | Some s \<Rightarrow> int (unat (sd_port s)));
          ownAddress = (if interfaceAddress = [] then ''0.0.0.0'' else interfaceAddress);
          leg0 = if_auto ''destination_port'' (JInt mediaPort) leg
      in if forSender
         then (let leg1 = if_auto ''source_port'' (JInt mediaPort) leg0;
                   leg2 = if_auto ''source_ip'' (address_json (case session of None \<Rightarrow> ownAddress | Some s \<Rightarrow> sd_originAddress s)) leg1
               in (case session of None \<Rightarrow> leg2 | Some s \<Rightarrow> if_auto ''destination_ip'' (address_json (sd_connectionAddress s)) leg2))
         else (let leg1 = if_auto ''interface_ip'' (JString ownAddress) leg0;
                   leg2 = if_auto ''multicast_ip'' (case session of None \<Rightarrow> JNull | Some s \<Rightarrow> address_json (sd_connectionAddress s)) leg1
               in if_auto ''source_ip'' (case session of None \<Rightarrow> JNull | Some s \<Rightarrow> address_json (sd_sourceAddress s)) leg2))"

text \<open>\<open>static_cast<uint16_t>(double)\<close>: truncation, undefined outside the range.\<close>

definition cast_u16 :: "double_val \<Rightarrow> u16 option" where
  "cast_u16 d = (case d of
       Finite x \<Rightarrow> (let n = (if x < 0 then \<lceil>x\<rceil> else \<lfloor>x\<rfloor>) in if 0 \<le> n \<and> n < 65536 then Some (of_int n) else None)
     | _ \<Rightarrow> None)"

definition leg_destination :: "(string, json) stdmap \<Rightarrow> json option" where
  "leg_destination leg = (case map_find leg ''destination_ip'' of None \<Rightarrow> map_find leg ''multicast_ip'' | Some v \<Rightarrow> Some v)"

definition moved_address :: "(string, json) stdmap \<Rightarrow> sdp_session \<Rightarrow> string" where
  "moved_address leg s = (case leg_destination leg of
       Some (JString a) \<Rightarrow> if a \<noteq> ''auto'' then a else sd_connectionAddress s
     | _ \<Rightarrow> sd_connectionAddress s)"

definition moved_port :: "(string, json) stdmap \<Rightarrow> sdp_session \<Rightarrow> u16 option" where
  "moved_port leg s = (case map_find leg ''destination_port'' of Some (JNumber d) \<Rightarrow> cast_u16 d | _ \<Rightarrow> Some (sd_port s))"

definition followSdpToLeg :: "u64 \<Rightarrow> string \<Rightarrow> (string, json) stdmap \<Rightarrow> string option" where
  "followSdpToLeg now sdp leg = (case transport_session sdp of
       None \<Rightarrow> Some sdp
     | Some s \<Rightarrow> (case moved_port leg s of
           None \<Rightarrow> None
         | Some p \<Rightarrow>
             (let a = moved_address leg s in
              if a = sd_connectionAddress s \<and> p = sd_port s then Some sdp
              else Some (generate now (s\<lparr>sd_connectionAddress := a, sd_port := p,
                                         sd_sessionVersion := sd_sessionVersion s + 1\<rparr>)))))"

definition put_all :: "(string, json) stdmap \<Rightarrow> (string, json) stdmap \<Rightarrow> (string, json) stdmap" where
  "put_all overrides leg = fold (\<lambda>(k, v). map_put k v) overrides leg"

section \<open>Reading a request\<close>

record activation_request =
  ar_mode :: string
  ar_requestedTime :: string
  ar_due :: tai_time

definition ar_none :: activation_request where
  "ar_none = \<lparr>ar_mode = [], ar_requestedTime = [], ar_due = \<lparr>tai_seconds = 0, tai_nanos = 0\<rparr>\<rparr>"

definition quoted_time :: string where
  "quoted_time = [CHR 0x22] @ ''<seconds>:<nanoseconds>'' @ [CHR 0x22]"

definition readActivation :: "tai_time \<Rightarrow> json \<Rightarrow> string + activation_request" where
  "readActivation now patch =
     (if \<not> has patch ''activation'' then Inr ar_none
      else (let activation = member_of patch ''activation'' in
        if \<not> isObject activation then Inl ''activation has to be an object''
        else (let mode = member_of activation ''mode'' in
          if isNull mode then Inr ar_none
          else if \<not> isString mode then Inl ''activation.mode has to be a string''
          else if asString mode = kActivateImmediate then Inr (ar_none\<lparr>ar_mode := asString mode\<rparr>)
          else if asString mode \<noteq> kActivateRelative \<and> asString mode \<noteq> kActivateAbsolute
          then Inl (''no activation mode called '' @ asString mode)
          else (let requested = member_of activation ''requested_time'' in
            if \<not> isString requested then Inl (asString mode @ '' needs a requested_time of '' @ quoted_time)
            else (case parseTai (asString requested) of
                None \<Rightarrow> Inl (''requested_time is not '' @ quoted_time @ '': '' @ asString requested)
              | Some asked \<Rightarrow> Inr \<lparr>ar_mode = asString mode, ar_requestedTime = asString requested,
                  ar_due = (if asString mode = kActivateRelative then taiSum now asked else asked)\<rparr>)))))"

definition isKnownTransportParam :: "string \<Rightarrow> bool \<Rightarrow> bool" where
  "isKnownTransportParam name forSender =
     (if name = ''rtp_enabled'' \<or> name = ''source_ip'' \<or> name = ''destination_port'' then True
      else if forSender then name = ''source_port'' \<or> name = ''destination_ip''
      else name = ''interface_ip'' \<or> name = ''multicast_ip'')"

definition outside_ports :: "double_val \<Rightarrow> bool" where
  "outside_ports d = (case d of Finite x \<Rightarrow> x < 0 \<or> x > 65535 | Infinite neg \<Rightarrow> True | NotANumber \<Rightarrow> False)"

definition param_error :: "bool \<Rightarrow> string \<times> json \<Rightarrow> string option" where
  "param_error forSender nv = (case nv of (name, value) \<Rightarrow>
     if \<not> isKnownTransportParam name forSender then Some (''no transport parameter called '' @ name)
     else if isNull value then None
     else if name = ''rtp_enabled'' then (if isBool value then None else Some ''rtp_enabled has to be a boolean'')
     else if name = ''destination_port'' \<or> name = ''source_port''
     then (if value \<noteq> JString ''auto'' \<and> \<not> isNumber value
           then Some (name @ '' has to be a port number or '' @ [CHR 0x22] @ ''auto'' @ [CHR 0x22])
           else if isNumber value \<and> outside_ports (asNumber value) then Some (name @ '' is outside the port range'')
           else None)
     else if isString value then None
     else Some (name @ '' has to be an address, or null to let the file say''))"

fun first_error :: "('a \<Rightarrow> string option) \<Rightarrow> 'a list \<Rightarrow> string option" where
  "first_error f [] = None"
| "first_error f (x # xs) = (case f x of Some e \<Rightarrow> Some e | None \<Rightarrow> first_error f xs)"

definition override :: "string \<times> json \<Rightarrow> (string, json) stdmap \<Rightarrow> (string, json) stdmap" where
  "override nv m = (if isNull (snd nv) then map_erase (fst nv) m else map_put (fst nv) (snd nv) m)"

definition applyTransportParams ::
  "json \<Rightarrow> bool \<Rightarrow> (string, json) stdmap \<Rightarrow> string + (string, json) stdmap" where
  "applyTransportParams params forSender overrides =
     (if \<not> isArray params then Inl ''transport_params has to be an array''
      else (case asArray params of
          [leg] \<Rightarrow>
            (if \<not> isObject leg then Inl ''each leg has to be an object''
             else (case first_error (param_error forSender) (asObject leg) of
                 Some e \<Rightarrow> Inl e
               | None \<Rightarrow> Inr (fold override (asObject leg) overrides)))
        | xs \<Rightarrow> Inl (''this device has one leg, not '' @ decimal (length xs))))"

section \<open>Writing a state\<close>

definition text_or_null :: "string \<Rightarrow> json" where
  "text_or_null t = (if t = [] then JNull else JString t)"

definition stateAsJson :: "conn_state \<Rightarrow> bool \<Rightarrow> json" where
  "stateAsJson st forSender =
     (let activation = json_object
            [(''mode'', if cs_activationMode st = ''null'' then JNull else JString (cs_activationMode st)),
             (''requested_time'', text_or_null (cs_requestedTime st)),
             (''activation_time'', text_or_null (cs_activationTime st))];
          leg = put_all (cs_transportParams st) (transportParamsFromSdp (cs_transportFile st) forSender);
          file = json_object
            (if cs_transportFile st = [] then [(''data'', JNull), (''type'', JNull)]
             else [(''data'', JString (cs_transportFile st)), (''type'', JString ''application/sdp'')])
      in json_object
           ([(''master_enable'', JBool (cs_masterEnable st)), (''activation'', activation),
             (''transport_params'', JArray [JObject leg])] @
            (if forSender then [(''receiver_id'', text_or_null (cs_receiverId st))]
             else [(''sender_id'', text_or_null (cs_senderId st)), (''transport_file'', file)])))"

definition resolved_leg :: "conn_state \<Rightarrow> bool \<Rightarrow> string \<Rightarrow> string \<Rightarrow> (string, json) stdmap" where
  "resolved_leg st forSender sdp interfaceAddress =
     resolveAutoLeg (put_all (cs_transportParams st) (transportParamsFromSdp sdp forSender)) forSender sdp interfaceAddress"

definition activeAsJson :: "string \<Rightarrow> conn_state \<Rightarrow> bool \<Rightarrow> json" where
  "activeAsJson interfaceAddress st forSender =
     stateAsJson (st\<lparr>cs_transportParams := resolved_leg st forSender (cs_transportFile st) interfaceAddress\<rparr>) forSender"

section \<open>Resources\<close>

definition addSender :: "conn_sender \<Rightarrow> connection_api \<Rightarrow> connection_api" where
  "addSender s api =
     (let stored = s\<lparr>cx_staged := (cx_staged s)\<lparr>cs_transportFile := cx_sdp s\<rparr>,
                     cx_active := (cx_active s)\<lparr>cs_transportFile := cx_sdp s\<rparr>\<rparr>
      in api\<lparr>ca_senders := map_put (cx_id stored) stored (ca_senders api)\<rparr>)"

definition addReceiver :: "conn_receiver \<Rightarrow> connection_api \<Rightarrow> connection_api" where
  "addReceiver r api = api\<lparr>ca_receivers := map_put (cr_id r) r (ca_receivers api)\<rparr>"

definition removeSender :: "string \<Rightarrow> connection_api \<Rightarrow> connection_api" where
  "removeSender i api = api\<lparr>ca_senders := map_erase i (ca_senders api)\<rparr>"

definition removeReceiver :: "string \<Rightarrow> connection_api \<Rightarrow> connection_api" where
  "removeReceiver i api = api\<lparr>ca_receivers := map_erase i (ca_receivers api)\<rparr>"

definition ca_sender :: "string \<Rightarrow> connection_api \<Rightarrow> conn_sender option" where
  "ca_sender i api = map_find (ca_senders api) i"

definition ca_receiver :: "string \<Rightarrow> connection_api \<Rightarrow> conn_receiver option" where
  "ca_receiver i api = map_find (ca_receivers api) i"

definition senderIds :: "connection_api \<Rightarrow> string list" where
  "senderIds api = map fst (ca_senders api)"

definition receiverIds :: "connection_api \<Rightarrow> string list" where
  "receiverIds api = map fst (ca_receivers api)"

section \<open>Activation\<close>

definition call_host :: "'h activation_callback option \<Rightarrow> string \<Rightarrow> string \<Rightarrow> bool \<Rightarrow> 'h \<Rightarrow> (bool \<times> string) \<times> 'h" where
  "call_host cb i sdp enable h = (case cb of None \<Rightarrow> ((True, []), h) | Some f \<Rightarrow> f i sdp enable h)"

definition clear_activation :: "conn_state \<Rightarrow> conn_state" where
  "clear_activation st = st\<lparr>cs_activationMode := ''null'', cs_requestedTime := [], cs_activationTime := []\<rparr>"

definition activateSender ::
  "'h api_env \<Rightarrow> string \<Rightarrow> conn_sender \<Rightarrow> conn_state \<Rightarrow> 'h \<Rightarrow> ((bool \<times> string) \<times> conn_sender \<times> 'h) option" where
  "activateSender env iface s st h =
     (let leg = resolved_leg st True (cx_sdp s) iface in
      case followSdpToLeg (env_time env) (cx_sdp s) leg of
        None \<Rightarrow> None
      | Some moved \<Rightarrow> (case call_host (onSender env) (cx_id s) moved (cs_masterEnable st) h of
            ((False, e), h') \<Rightarrow> Some ((False, e), s, h')
          | ((True, e), h') \<Rightarrow> Some ((True, e),
              s\<lparr>cx_sdp := moved, cx_active := st\<lparr>cs_transportParams := leg, cs_transportFile := moved\<rparr>,
                cx_staged := clear_activation ((cx_staged s)\<lparr>cs_transportFile := moved\<rparr>)\<rparr>, h')))"

definition activateReceiver ::
  "'h api_env \<Rightarrow> string \<Rightarrow> conn_receiver \<Rightarrow> conn_state \<Rightarrow> 'h \<Rightarrow> ((bool \<times> string) \<times> conn_receiver \<times> 'h) option" where
  "activateReceiver env iface r st h =
     (let leg = resolved_leg st False (cs_transportFile st) iface in
      case followSdpToLeg (env_time env) (cs_transportFile st) leg of
        None \<Rightarrow> None
      | Some moved \<Rightarrow> (case call_host (onReceiver env) (cr_id r) moved (cs_masterEnable st) h of
            ((False, e), h') \<Rightarrow> Some ((False, e), r, h')
          | ((True, e), h') \<Rightarrow> Some ((True, e),
              r\<lparr>cr_active := st\<lparr>cs_transportParams := leg, cs_transportFile := moved\<rparr>,
                cr_staged := clear_activation (cr_staged r)\<rparr>, h')))"

definition due :: "'h api_env \<Rightarrow> pending_activation \<Rightarrow> bool" where
  "due env p = (pa_waiting p \<and> taiReached (pa_due p) (env_tai env))"

fun due_senders ::
  "'h api_env \<Rightarrow> string \<Rightarrow> (string \<times> conn_sender) list \<Rightarrow> 'h \<Rightarrow> ((string \<times> conn_sender) list \<times> 'h) option" where
  "due_senders env iface [] h = Some ([], h)"
| "due_senders env iface ((i, s) # ss) h =
     do { (s', h1) \<leftarrow> (if due env (cx_pending s)
             then do { (ok, s', h') \<leftarrow> activateSender env iface (s\<lparr>cx_pending := pending_none\<rparr>) (pa_state (cx_pending s)) h;
                       Some (s', h') }
             else Some (s, h));
          (ss', h2) \<leftarrow> due_senders env iface ss h1;
          Some ((i, s') # ss', h2) }"

fun due_receivers ::
  "'h api_env \<Rightarrow> string \<Rightarrow> (string \<times> conn_receiver) list \<Rightarrow> 'h \<Rightarrow> ((string \<times> conn_receiver) list \<times> 'h) option" where
  "due_receivers env iface [] h = Some ([], h)"
| "due_receivers env iface ((i, r) # rs) h =
     do { (r', h1) \<leftarrow> (if due env (cr_pending r)
             then do { (ok, r', h') \<leftarrow> activateReceiver env iface (r\<lparr>cr_pending := pending_none\<rparr>) (pa_state (cr_pending r)) h;
                       Some (r', h') }
             else Some (r, h));
          (rs', h2) \<leftarrow> due_receivers env iface rs h1;
          Some ((i, r') # rs', h2) }"

definition applyDueActivations :: "'h api_env \<Rightarrow> connection_api \<Rightarrow> 'h \<Rightarrow> (connection_api \<times> 'h) option" where
  "applyDueActivations env api h =
     do { (ss, h1) \<leftarrow> due_senders env (ca_interface api) (ca_senders api) h;
          (rs, h2) \<leftarrow> due_receivers env (ca_interface api) (ca_receivers api) h1;
          Some (api\<lparr>ca_senders := ss, ca_receivers := rs\<rparr>, h2) }"

section \<open>Staging\<close>

type_synonym staged_result = "(int \<times> string) + (conn_state \<times> activation_request)"

definition and_then :: "'e + 'a \<Rightarrow> ('a \<Rightarrow> 'e + 'b) \<Rightarrow> 'e + 'b" where
  "and_then r f = (case r of Inl e \<Rightarrow> Inl e | Inr a \<Rightarrow> f a)"

definition bad :: "string + 'a \<Rightarrow> (int \<times> string) + 'a" where
  "bad r = (case r of Inl e \<Rightarrow> Inl (400, e) | Inr a \<Rightarrow> Inr a)"

definition patch_object :: "bool \<Rightarrow> string \<Rightarrow> (int \<times> string) + json" where
  "patch_object forSender body = (case parseJson body of
       Inl e \<Rightarrow> Inl (400, ''the body is not JSON: '' @ e)
     | Inr patch \<Rightarrow>
         if \<not> isObject patch then Inl (400, ''the body has to be an object'')
         else (case find (\<lambda>kv. \<not> isKnownPatchKey (fst kv) forSender) (asObject patch) of
             Some kv \<Rightarrow> Inl (400, (if forSender then ''a sender has nothing called '' else ''a receiver has nothing called '') @ fst kv)
           | None \<Rightarrow> Inr patch))"

definition stage_enable :: "json \<Rightarrow> conn_state \<Rightarrow> (int \<times> string) + conn_state" where
  "stage_enable patch st =
     (if \<not> has patch ''master_enable'' then Inr st
      else (case member_of patch ''master_enable'' of
          JBool b \<Rightarrow> Inr (st\<lparr>cs_masterEnable := b\<rparr>)
        | _ \<Rightarrow> Inl (400, ''master_enable has to be a boolean'')))"

definition stage_sender_id :: "json \<Rightarrow> conn_state \<Rightarrow> (int \<times> string) + conn_state" where
  "stage_sender_id patch st =
     (if \<not> has patch ''sender_id'' then Inr st
      else (case member_of patch ''sender_id'' of
          JNull \<Rightarrow> Inr (st\<lparr>cs_senderId := []\<rparr>)
        | JString i \<Rightarrow> Inr (st\<lparr>cs_senderId := i\<rparr>)
        | _ \<Rightarrow> Inl (400, ''sender_id has to be a string or null'')))"

definition stage_receiver_id :: "json \<Rightarrow> conn_state \<Rightarrow> (int \<times> string) + conn_state" where
  "stage_receiver_id patch st =
     (if \<not> has patch ''receiver_id'' then Inr st
      else (case member_of patch ''receiver_id'' of
          JNull \<Rightarrow> Inr (st\<lparr>cs_receiverId := []\<rparr>)
        | JString i \<Rightarrow> Inr (st\<lparr>cs_receiverId := i\<rparr>)
        | _ \<Rightarrow> Inl (400, ''receiver_id has to be a string or null'')))"

definition stage_file :: "json \<Rightarrow> conn_state \<Rightarrow> (int \<times> string) + conn_state" where
  "stage_file patch st =
     (if \<not> has patch ''transport_file'' then Inr st
      else (let file = member_of patch ''transport_file'';
                forgotten = (\<lambda>s. s\<lparr>cs_transportParams := map_erase ''destination_port'' (map_erase ''multicast_ip''
                    (map_erase ''source_ip'' (cs_transportParams s)))\<rparr>) in
        if \<not> isObject file then Inl (400, ''transport_file has to be an object'')
        else if isNull (member_of file ''data'') then Inr (forgotten (st\<lparr>cs_transportFile := []\<rparr>))
        else if \<not> isString (member_of file ''data'') then Inl (400, ''transport_file.data has to be a string'')
        else if member_of file ''type'' \<noteq> JString ''application/sdp''
        then Inl (400, ''this receiver takes application/sdp transport files'')
        else Inr (forgotten (st\<lparr>cs_transportFile := asString (member_of file ''data'')\<rparr>))))"

definition stage_params :: "bool \<Rightarrow> json \<Rightarrow> conn_state \<Rightarrow> (int \<times> string) + conn_state" where
  "stage_params forSender patch st =
     (if \<not> has patch ''transport_params'' then Inr st
      else and_then (bad (applyTransportParams (member_of patch ''transport_params'') forSender (cs_transportParams st)))
             (\<lambda>ps. Inr (st\<lparr>cs_transportParams := ps\<rparr>)))"

definition staged_receiver :: "tai_time \<Rightarrow> string \<Rightarrow> conn_state \<Rightarrow> staged_result" where
  "staged_receiver now body st =
     and_then (patch_object False body) (\<lambda>patch.
     and_then (stage_enable patch st) (\<lambda>s1.
     and_then (stage_sender_id patch s1) (\<lambda>s2.
     and_then (stage_file patch s2) (\<lambda>s3.
     and_then (stage_params False patch s3) (\<lambda>s4.
     and_then (bad (readActivation now patch)) (\<lambda>act. Inr (s4, act)))))))"

definition staged_sender :: "tai_time \<Rightarrow> string \<Rightarrow> conn_state \<Rightarrow> staged_result" where
  "staged_sender now body st =
     and_then (patch_object True body) (\<lambda>patch.
     and_then (stage_enable patch st) (\<lambda>s1.
     and_then (stage_receiver_id patch s1) (\<lambda>s2.
     and_then (stage_params True patch s2) (\<lambda>s3.
     and_then (bad (readActivation now patch)) (\<lambda>act. Inr (s3, act))))))"

section \<open>Requests\<close>

type_synonym 'h outcome = "(api_response \<times> connection_api \<times> 'h) option"

definition put_receiver :: "string \<Rightarrow> conn_receiver \<Rightarrow> connection_api \<Rightarrow> connection_api" where
  "put_receiver i r api = api\<lparr>ca_receivers := map_put i r (ca_receivers api)\<rparr>"

definition put_sender :: "string \<Rightarrow> conn_sender \<Rightarrow> connection_api \<Rightarrow> connection_api" where
  "put_sender i s api = api\<lparr>ca_senders := map_put i s (ca_senders api)\<rparr>"

definition promised :: "activation_request \<Rightarrow> conn_state \<Rightarrow> conn_state" where
  "promised act st = st\<lparr>cs_activationMode := ar_mode act, cs_requestedTime := ar_requestedTime act,
     cs_activationTime := taiText (ar_due act)\<rparr>"

definition promise :: "activation_request \<Rightarrow> conn_state \<Rightarrow> pending_activation" where
  "promise act st = \<lparr>pa_waiting = True, pa_due = ar_due act, pa_state = promised act st\<rparr>"

definition immediate_state :: "tai_time \<Rightarrow> conn_state \<Rightarrow> conn_state" where
  "immediate_state now st = st\<lparr>cs_activationMode := kActivateImmediate, cs_requestedTime := [], cs_activationTime := taiText now\<rparr>"

definition addressed :: "conn_state \<Rightarrow> bool" where
  "addressed st = (case map_find (cs_transportParams st) ''multicast_ip'' of
       Some (JString a) \<Rightarrow> a \<noteq> [] \<and> a \<noteq> ''auto'' | _ \<Rightarrow> False)"

definition patchStagedReceiver :: "'h api_env \<Rightarrow> string \<Rightarrow> string \<Rightarrow> connection_api \<Rightarrow> 'h \<Rightarrow> 'h outcome" where
  "patchStagedReceiver env i body api h = (case map_find (ca_receivers api) i of
       None \<Rightarrow> Some (errorResponse 404 (''no receiver called '' @ i), api, h)
     | Some r \<Rightarrow> (case staged_receiver (env_tai env) body (cr_staged r) of
           Inl (st, why) \<Rightarrow> Some (errorResponse st why, api, h)
         | Inr (staged, act) \<Rightarrow>
             (let r1 = r\<lparr>cr_staged := staged\<rparr> in
              if ar_mode act = [] then Some (jsonResponse 200 (stateAsJson staged False), put_receiver i r1 api, h)
              else if cs_masterEnable staged \<and> cs_transportFile staged = [] \<and> \<not> addressed staged
              then Some (errorResponse 400 ''cannot enable a receiver with neither a transport file nor a multicast_ip'',
                         put_receiver i r1 api, h)
              else if ar_mode act \<noteq> kActivateImmediate
              then Some (jsonResponse 202 (stateAsJson (promised act staged) False),
                         put_receiver i (r1\<lparr>cr_staged := promised act staged, cr_pending := promise act staged\<rparr>) api, h)
              else (case activateReceiver env (ca_interface api) r1 (immediate_state (env_tai env) staged) h of
                  None \<Rightarrow> None
                | Some ((False, why), r2, h') \<Rightarrow>
                    Some (errorResponse 500 (''the receiver refused it: '' @ why), put_receiver i r2 api, h')
                | Some ((True, why), r2, h') \<Rightarrow>
                    Some (jsonResponse 200 (activeAsJson (ca_interface api) (cr_active r2) False), put_receiver i r2 api, h')))))"

definition patchStagedSender :: "'h api_env \<Rightarrow> string \<Rightarrow> string \<Rightarrow> connection_api \<Rightarrow> 'h \<Rightarrow> 'h outcome" where
  "patchStagedSender env i body api h = (case map_find (ca_senders api) i of
       None \<Rightarrow> Some (errorResponse 404 (''no sender called '' @ i), api, h)
     | Some s \<Rightarrow> (case staged_sender (env_tai env) body (cx_staged s) of
           Inl (st, why) \<Rightarrow> Some (errorResponse st why, api, h)
         | Inr (staged0, act) \<Rightarrow>
             (let staged = staged0\<lparr>cs_transportFile := cx_sdp s\<rparr>; s1 = s\<lparr>cx_staged := staged\<rparr> in
              if ar_mode act = [] then Some (jsonResponse 200 (stateAsJson staged True), put_sender i s1 api, h)
              else if ar_mode act \<noteq> kActivateImmediate
              then Some (jsonResponse 202 (stateAsJson (promised act staged) True),
                         put_sender i (s1\<lparr>cx_staged := promised act staged, cx_pending := promise act staged\<rparr>) api, h)
              else (case activateSender env (ca_interface api) s1 (immediate_state (env_tai env) staged) h of
                  None \<Rightarrow> None
                | Some ((False, why), s2, h') \<Rightarrow>
                    Some (errorResponse 500 (''the sender refused it: '' @ why), put_sender i s2 api, h')
                | Some ((True, why), s2, h') \<Rightarrow>
                    Some (jsonResponse 200 (activeAsJson (ca_interface api) (cx_active s2) True), put_sender i s2 api, h')))))"

fun bulk_entries ::
  "'h api_env \<Rightarrow> bool \<Rightarrow> json list \<Rightarrow> json list \<Rightarrow> connection_api \<Rightarrow> 'h \<Rightarrow> 'h outcome" where
  "bulk_entries env forSenders [] answers api h = Some (jsonResponse 200 (JArray answers), api, h)"
| "bulk_entries env forSenders (entry # entries) answers api h =
     (if \<not> isObject entry \<or> \<not> isString (member_of entry ''id'')
      then Some (errorResponse 400 ''every entry in a bulk request needs an id and its params'', api, h)
      else (let i = asString (member_of entry ''id''); params = serialise (member_of entry ''params'') in
        case (if forSenders then patchStagedSender env i params api h else patchStagedReceiver env i params api h) of
          None \<Rightarrow> None
        | Some (one, api', h') \<Rightarrow> bulk_entries env forSenders entries
            (answers @ [json_object [(''id'', JString i), (''code'', JInt (rsp_status one))]]) api' h'))"

definition patchInBulk :: "'h api_env \<Rightarrow> bool \<Rightarrow> string \<Rightarrow> connection_api \<Rightarrow> 'h \<Rightarrow> 'h outcome" where
  "patchInBulk env forSenders body api h = (case parseJson body of
       Inl e \<Rightarrow> Some (errorResponse 400 (''the body is not JSON: '' @ e), api, h)
     | Inr request \<Rightarrow>
         if \<not> isArray request then Some (errorResponse 400 ''a bulk request is an array'', api, h)
         else bulk_entries env forSenders (asArray request) [] api h)"

definition constraints_json :: "bool \<Rightarrow> json" where
  "constraints_json isSender = JArray [json_object (
     [(''destination_port'', JObject []), (''rtp_enabled'', JObject [])] @
     (if isSender then [(''source_ip'', JObject []), (''source_port'', JObject []), (''destination_ip'', JObject [])]
      else [(''source_ip'', JObject []), (''interface_ip'', JObject []), (''multicast_ip'', JObject [])]))]"

text \<open>What is answered for one resource; \<open>leaf\<close> is the fourth part of the path.\<close>

definition handle_leaf ::
  "'h api_env \<Rightarrow> string \<Rightarrow> bool \<Rightarrow> string \<Rightarrow> string \<Rightarrow> string \<Rightarrow> connection_api \<Rightarrow> 'h \<Rightarrow> 'h outcome" where
  "handle_leaf env verb isSender i leaf body api h =
     (let same = (\<lambda>response. Some (response, api, h)) in
      if leaf = ''transporttype'' then
        (if verb \<noteq> ''GET'' then same (errorResponse 405 ''only GET here'') else same (jsonResponse 200 (JString kTransportRtp)))
      else if leaf = ''constraints'' then
        (if verb \<noteq> ''GET'' then same (errorResponse 405 ''only GET here'') else same (jsonResponse 200 (constraints_json isSender)))
      else if leaf = ''transportfile'' then
        (if \<not> isSender then same (errorResponse 404 ''receivers have no transport file to serve'')
         else if verb \<noteq> ''GET'' then same (errorResponse 405 ''only GET here'')
         else same \<lparr>rsp_status = 200, rsp_contentType = ''application/sdp'',
                    rsp_body = (case map_find (ca_senders api) i of None \<Rightarrow> [] | Some s \<Rightarrow> cx_sdp s)\<rparr>)
      else if leaf = ''active'' \<or> leaf = ''staged'' then
        (if verb = ''GET'' then
           (if isSender
            then (case map_find (ca_senders api) i of
                    None \<Rightarrow> None
                  | Some s \<Rightarrow> same (jsonResponse 200 (if leaf = ''staged'' then stateAsJson (cx_staged s) True
                                                    else activeAsJson (ca_interface api) (cx_active s) True)))
            else (case map_find (ca_receivers api) i of
                    None \<Rightarrow> None
                  | Some r \<Rightarrow> same (jsonResponse 200 (if leaf = ''staged'' then stateAsJson (cr_staged r) False
                                                    else activeAsJson (ca_interface api) (cr_active r) False))))
         else if verb = ''PATCH'' then
           (if leaf \<noteq> ''staged'' then same (errorResponse 405 ''active is read-only; PATCH staged'')
            else if isSender then patchStagedSender env i body api h else patchStagedReceiver env i body api h)
         else same (errorResponse 405 ''GET or PATCH here''))
      else same (errorResponse 404 ''no such resource''))"

definition handle_single ::
  "'h api_env \<Rightarrow> string \<Rightarrow> string list \<Rightarrow> string \<Rightarrow> connection_api \<Rightarrow> 'h \<Rightarrow> 'h outcome" where
  "handle_single env verb segments body api h =
     (let same = (\<lambda>response. Some (response, api, h)) in
      case segments of
        [] \<Rightarrow> if verb \<noteq> ''GET'' then same (errorResponse 405 ''only GET here'') else same (listResponse [''receivers/'', ''senders/''])
      | kind # rest \<Rightarrow>
          (let isSender = (kind = ''senders''); isReceiver = (kind = ''receivers'') in
           if \<not> isSender \<and> \<not> isReceiver then same (errorResponse 404 ''no such resource'')
           else (case rest of
               [] \<Rightarrow> if verb \<noteq> ''GET'' then same (errorResponse 405 ''only GET here'')
                     else same (listResponse (map (\<lambda>i. i @ ''/'') (if isSender then senderIds api else receiverIds api)))
             | i # leaves \<Rightarrow>
                 if isSender \<and> map_find (ca_senders api) i = None then same (errorResponse 404 (''no sender called '' @ i))
                 else if isReceiver \<and> map_find (ca_receivers api) i = None then same (errorResponse 404 (''no receiver called '' @ i))
                 else (case leaves of
                     [] \<Rightarrow> if verb \<noteq> ''GET'' then same (errorResponse 405 ''only GET here'')
                           else same (listResponse ([''active/'', ''constraints/'', ''staged/''] @
                                  (if isSender then [''transportfile/''] else []) @ [''transporttype/'']))
                   | leaf # _ \<Rightarrow> handle_leaf env verb isSender i leaf body api h))))"

definition handle_segments ::
  "'h api_env \<Rightarrow> string \<Rightarrow> string list \<Rightarrow> string \<Rightarrow> connection_api \<Rightarrow> 'h \<Rightarrow> 'h outcome" where
  "handle_segments env verb segments body api h =
     (let same = (\<lambda>response. Some (response, api, h)) in
      case segments of
        [] \<Rightarrow> if verb \<noteq> ''GET'' then same (errorResponse 405 ''only GET here'') else same (listResponse [''bulk/'', ''single/''])
      | s # rest \<Rightarrow>
          if s = ''bulk'' then
            (case rest of
               [] \<Rightarrow> same (listResponse [''senders/'', ''receivers/''])
             | [kind] \<Rightarrow>
                 if kind = ''senders'' \<or> kind = ''receivers'' then
                   (if verb \<noteq> ''POST'' then same (errorResponse 405 ''only POST here'')
                    else patchInBulk env (kind = ''senders'') body api h)
                 else same (errorResponse 404 ''no such resource'')
             | _ \<Rightarrow> same (errorResponse 404 ''no such resource''))
          else if s \<noteq> ''single'' then same (errorResponse 404 ''no such resource'')
          else handle_single env verb rest body api h)"

definition ca_handle :: "'h api_env \<Rightarrow> string \<Rightarrow> string \<Rightarrow> string \<Rightarrow> connection_api \<Rightarrow> 'h \<Rightarrow> 'h outcome" where
  "ca_handle env verb path body api h =
     do { (api1, h1) \<leftarrow> applyDueActivations env api h;
          if take (length kConnectionApiRoot) path \<noteq> kConnectionApiRoot
          then Some (errorResponse 404 (''this device serves '' @ kConnectionApiRoot), api1, h1)
          else handle_segments env verb (segmentsOf (drop (length kConnectionApiRoot) path)) body api1 h1 }"

end
