(* ===== verification/Receiver_Routing.thy ===== *)
theory Receiver_Routing
  imports SDP_Sessions Channel_Mapper
begin

text \<open>
  \<open>ReceiverRouting\<close>: what activating a receiver does to the channel matrix. The state holds the matrix
  (the code keeps a reference to it), the stream identifier of every connected receiver and the grids
  remembered for receivers that carry nothing. \<open>StreamID::generate\<close> is called twice, once inside
  \<open>createDefaultMapping\<close> and once for the mapping that is kept: both results are parameters.
\<close>

section \<open>Operations\<close>

record routing_outcome =
  ro_connected :: bool
  ro_streamName :: string
  ro_channelCount :: u16
  ro_deviceChannelStart :: u16

definition outcome_default :: routing_outcome where
  "outcome_default = \<lparr>ro_connected = False, ro_streamName = [], ro_channelCount = 0, ro_deviceChannelStart = 0\<rparr>"

record routing =
  rr_mapper :: mapper
  rr_streamIdOf :: "(string, stream_id) stdmap"
  rr_remembered :: "(string, channel_route list) stdmap"

definition rr_release :: "string \<Rightarrow> routing \<Rightarrow> routing" where
  "rr_release r rt = (case map_find (rr_streamIdOf rt) r of
       None \<Rightarrow> rt
     | Some i \<Rightarrow> rt\<lparr>rr_mapper := fst (removeMapping i (rr_mapper rt)), rr_streamIdOf := map_erase r (rr_streamIdOf rt)\<rparr>)"

definition requested_session :: "string \<Rightarrow> string \<Rightarrow> sdp_session option" where
  "requested_session r sdp =
     (if sdp = []
      then Some (sdp_default\<lparr>sd_sessionName := r, sd_encoding := ''L24'', sd_sampleRate := 48000,
                   sd_numChannels := 2, sd_ptimeUs := 1000\<rparr>)
      else parseString sdp)"

definition with_remembered :: "channel_route list option \<Rightarrow> channel_mapping \<Rightarrow> channel_mapping" where
  "with_remembered asked m = (case asked of
       None \<Rightarrow> m
     | Some rs \<Rightarrow>
         (let kept = filter (\<lambda>route. streamChannel route < streamChannelCount m) rs;
              wanted = m\<lparr>routes := (if kept = [] then routes m else kept)\<rparr>
          in if validateMapping wanted then wanted else m))"

text \<open>The result is the text of \<open>why\<close>, or the outcome.\<close>

definition rr_apply :: "stream_id \<Rightarrow> stream_id \<Rightarrow> string \<Rightarrow> string \<Rightarrow> bool \<Rightarrow> routing \<Rightarrow> routing \<times> (string + routing_outcome)" where
  "rr_apply gen fresh r sdp enable rt =
     (if \<not> enable then (rr_release r rt, Inr outcome_default)
      else (case requested_session r sdp of
          None \<Rightarrow> (rt, Inl ''the transport file is not an SDP this device can read'')
        | Some session \<Rightarrow>
            (let rt1 = rr_release r rt in
             case createDefaultMapping gen (sd_sessionName session) (sd_numChannels session) (rr_mapper rt1) of
               None \<Rightarrow> (rt1, Inl (''no free device channels for '' @ decimal (unat (sd_numChannels session)) @ '' channels''))
             | Some m0 \<Rightarrow>
                 (let m = with_remembered (map_find (rr_remembered rt1) r) (m0\<lparr>streamID := fresh\<rparr>) in
                  if \<not> validateMapping m then (rt1, Inl (getValidationError m))
                  else (case addMapping m (rr_mapper rt1) of
                      (mp, False) \<Rightarrow> (rt1\<lparr>rr_mapper := mp\<rparr>, Inl ''the mapping overlaps one already in place'')
                    | (mp, True) \<Rightarrow>
                        (rt1\<lparr>rr_mapper := mp, rr_streamIdOf := map_put r fresh (rr_streamIdOf rt1)\<rparr>,
                         Inr \<lparr>ro_connected = True, ro_streamName = sd_sessionName session,
                              ro_channelCount = deviceChannelCount m, ro_deviceChannelStart = deviceChannelStart m\<rparr>))))))"

definition rr_mappingFor :: "string \<Rightarrow> routing \<Rightarrow> channel_mapping option" where
  "rr_mappingFor r rt = Option.bind (map_find (rr_streamIdOf rt) r) (\<lambda>i. getMapping i (rr_mapper rt))"

definition connectedReceivers :: "routing \<Rightarrow> string list" where
  "connectedReceivers rt = map fst (rr_streamIdOf rt)"

definition rememberRoutes :: "string \<Rightarrow> channel_route list \<Rightarrow> routing \<Rightarrow> routing" where
  "rememberRoutes r rs rt = rt\<lparr>rr_remembered := map_put r rs (rr_remembered rt)\<rparr>"

definition rememberedRoutes :: "string \<Rightarrow> routing \<Rightarrow> channel_route list" where
  "rememberedRoutes r rt = (case map_find (rr_remembered rt) r of None \<Rightarrow> [] | Some rs \<Rightarrow> rs)"

definition streamIdFor :: "string \<Rightarrow> routing \<Rightarrow> stream_id option" where
  "streamIdFor r rt = map_find (rr_streamIdOf rt) r"

definition routing_init :: routing where
  "routing_init = \<lparr>rr_mapper = StreamChannelMapper, rr_streamIdOf = [], rr_remembered = []\<rparr>"

section \<open>The invariant\<close>

text \<open>
  The receivers and the mappings of the matrix correspond one to one, and the owner table is exact.
\<close>

definition paired :: "(string, stream_id) stdmap \<Rightarrow> (stream_id, channel_mapping) stdmap \<Rightarrow> bool" where
  "paired ids ms \<longleftrightarrow>
     (\<forall>r i. map_find ids r = Some i \<longrightarrow> map_find ms i \<noteq> None) \<and>
     (\<forall>i. map_find ms i \<noteq> None \<longrightarrow> (\<exists>r. map_find ids r = Some i)) \<and>
     (\<forall>r r' i. map_find ids r = Some i \<longrightarrow> map_find ids r' = Some i \<longrightarrow> r = r')"

lemma pairedD:
  assumes "paired ids ms"
  shows "map_find ids r = Some i \<Longrightarrow> map_find ms i \<noteq> None" "map_find ms i \<noteq> None \<Longrightarrow> \<exists>r. map_find ids r = Some i"
    "map_find ids r = Some i \<Longrightarrow> map_find ids r' = Some i \<Longrightarrow> r = r'"
  using assms unfolding paired_def by blast+

lemma paired_erase:
  assumes "paired ids ms" "map_find ids r = Some i"
  shows "paired (map_erase r ids) (map_erase i ms)"
  unfolding paired_def
proof (intro conjI allI impI)
  fix r' j assume "map_find (map_erase r ids) r' = Some j"
  then have "r' \<noteq> r" "map_find ids r' = Some j" by (auto split: if_splits)
  moreover from this have "j \<noteq> i" using pairedD(3) [OF assms] by blast
  ultimately show "map_find (map_erase i ms) j \<noteq> None" using pairedD(1) [OF assms(1)] by simp
next
  fix j assume j: "map_find (map_erase i ms) j \<noteq> None"
  then obtain r' where "map_find ids r' = Some j" using pairedD(2) [OF assms(1)] by (auto split: if_splits)
  then show "\<exists>r'. map_find (map_erase r ids) r' = Some j" using j assms(2) by (intro exI [of _ r']) (auto split: if_splits)
next
  fix r' r'' j assume "map_find (map_erase r ids) r' = Some j" "map_find (map_erase r ids) r'' = Some j"
  then show "r' = r''" using pairedD(3) [OF assms(1)] by (auto split: if_splits)
qed

lemma paired_put:
  assumes "paired ids ms" "map_find ids r = None" "map_find ms i = None"
  shows "paired (map_put r i ids) (map_put i m ms)"
  unfolding paired_def
proof (intro conjI allI impI)
  fix r' j assume "map_find (map_put r i ids) r' = Some j"
  then show "map_find (map_put i m ms) j \<noteq> None" using pairedD(1) [OF assms(1)] by (auto split: if_splits)
next
  fix j assume "map_find (map_put i m ms) j \<noteq> None"
  then consider "j = i" | "map_find ms j \<noteq> None" by (auto split: if_splits)
  then show "\<exists>r'. map_find (map_put r i ids) r' = Some j"
  proof cases
    case 2
    then obtain r' where "map_find ids r' = Some j" using pairedD(2) [OF assms(1)] by blast
    then show ?thesis using assms(2) by (intro exI [of _ r']) auto
  qed (auto intro: exI [of _ r])
next
  fix r' r'' j assume "map_find (map_put r i ids) r' = Some j" "map_find (map_put r i ids) r'' = Some j"
  then show "r' = r''" using pairedD(1,3) [OF assms(1)] assms(3) by (metis map_find_put option.inject)
qed

definition rr_inv :: "routing \<Rightarrow> bool" where
  "rr_inv rt \<longleftrightarrow> mapper_exact (rr_mapper rt) \<and> sorted_map (rr_streamIdOf rt) \<and>
     paired (rr_streamIdOf rt) (mappings (rr_mapper rt))"

declare rr_inv_def [inv_defs]

datatype routing_op =
    Apply stream_id stream_id string string bool
  | Remember string "channel_route list"

fun rr_step :: "routing_op \<Rightarrow> routing \<Rightarrow> routing" where
  "rr_step (Apply gen fresh r sdp enable) rt = fst (rr_apply gen fresh r sdp enable rt)"
| "rr_step (Remember r rs) rt = rememberRoutes r rs rt"

text \<open>What \<open>StreamID::generate\<close> promises: a version 4 identifier that no stream has.\<close>

fun op_fresh :: "routing_op \<Rightarrow> routing \<Rightarrow> bool" where
  "op_fresh (Apply gen fresh r sdp enable) rt \<longleftrightarrow>
     valid_id fresh \<and> \<not> id_isNull fresh \<and> map_find (mappings (rr_mapper rt)) fresh = None"
| "op_fresh (Remember r rs) rt \<longleftrightarrow> True"

fun run_fresh :: "routing_op list \<Rightarrow> routing \<Rightarrow> bool" where
  "run_fresh [] rt \<longleftrightarrow> True"
| "run_fresh (op # ops) rt \<longleftrightarrow> op_fresh op rt \<and> run_fresh ops (rr_step op rt)"

lemma rr_inv_init: "rr_inv routing_init"
  using mapper_exact_init by (simp add: rr_inv_def routing_init_def) (simp add: StreamChannelMapper_def paired_def)

lemma removeMapping_mappings: "mappings (fst (removeMapping i mp)) = map_erase i (mappings mp)"
proof (cases "map_find (mappings mp) i")
  case None
  then have "map_erase i (mappings mp) = mappings mp" by (intro map_erase_absent) (simp add: map_find_None)
  then show ?thesis using None by (simp add: removeMapping_def)
qed (simp add: removeMapping_def)

lemma release_fields [simp]:
  "rr_remembered (rr_release r rt) = rr_remembered rt" "map_find (rr_streamIdOf (rr_release r rt)) r = None"
  by (simp_all add: rr_release_def split: option.split)

lemma release_inv:
  assumes "rr_inv rt"
  shows "rr_inv (rr_release r rt)"
proof (cases "map_find (rr_streamIdOf rt) r")
  case (Some i)
  have e: "mapper_exact (fst (removeMapping i (rr_mapper rt)))" using assms removeMapping_exact by (simp add: rr_inv_def)
  then show ?thesis
    using assms Some paired_erase [of "rr_streamIdOf rt" "mappings (rr_mapper rt)" r i]
    by (simp add: rr_inv_def rr_release_def removeMapping_mappings sorted_map_erase)
qed (simp add: rr_release_def assms)

lemma release_mappings:
  "map_find (mappings (rr_mapper rt)) i = None \<Longrightarrow> map_find (mappings (rr_mapper (rr_release r rt))) i = None"
  by (simp add: rr_release_def removeMapping_mappings split: option.split)

lemma with_remembered_id [simp]: "streamID (with_remembered asked m) = streamID m"
  by (simp add: with_remembered_def Let_def split: option.split)

lemma put_receiver_inv:
  assumes "rr_inv rt" "map_find (rr_streamIdOf rt) r = None" "valid_id (streamID m)"
    "map_find (mappings (rr_mapper rt)) (streamID m) = None" "addMapping m (rr_mapper rt) = (mp, True)"
  shows "rr_inv (rt\<lparr>rr_mapper := mp, rr_streamIdOf := map_put r (streamID m) (rr_streamIdOf rt)\<rparr>)"
proof -
  have mp: "mp = put_mapping m (rr_mapper rt)" using assms(5) by (simp add: addMapping_def split: if_splits)
  have "mapper_exact (fst (addMapping m (rr_mapper rt)))"
    using assms(1,3,4) by (intro addMapping_exact) (simp_all add: rr_inv_def getMapping_def)
  then have e: "mapper_exact mp" by (simp add: assms(5))
  then show ?thesis
    using assms(1,2,4) paired_put [of "rr_streamIdOf rt" "mappings (rr_mapper rt)" r "streamID m" m]
    unfolding rr_inv_def mp by (simp add: sorted_map_put)
qed

lemma apply_inv:
  assumes "rr_inv rt" "valid_id fresh" "map_find (mappings (rr_mapper rt)) fresh = None"
  shows "rr_inv (fst (rr_apply gen fresh r sdp enable rt))"
proof -
  have rel: "rr_inv (rr_release r rt)" using release_inv [OF assms(1)] .
  have keep: "rr_inv (rt1\<lparr>rr_mapper := mp\<rparr>)" if "rr_inv rt1" "addMapping m (rr_mapper rt1) = (mp, False)" for rt1 m mp
    using that by (auto simp: addMapping_def split: if_splits)
  have none: "map_find (mappings (rr_mapper (rr_release r rt))) fresh = None" using release_mappings assms(3) by blast
  have add: "rr_inv ((rr_release r rt)\<lparr>rr_mapper := mp, rr_streamIdOf := map_put r fresh (rr_streamIdOf (rr_release r rt))\<rparr>)"
    if "addMapping (with_remembered asked (m0\<lparr>streamID := fresh\<rparr>)) (rr_mapper (rr_release r rt)) = (mp, True)" for mp asked m0
    using put_receiver_inv [OF rel _ _ _ that] assms(2) none by simp
  show ?thesis
    using assms(1) rel keep [OF rel] add
    by (auto simp: rr_apply_def Let_def split: option.split prod.split bool.split)
qed

lemma routing_step_inv: "rr_inv rt \<Longrightarrow> op_fresh op rt \<Longrightarrow> rr_inv (rr_step op rt)"
  by (cases op) (simp_all add: apply_inv, simp add: rr_inv_def rememberRoutes_def)

lemma routing_run_inv: "rr_inv rt \<Longrightarrow> run_fresh ops rt \<Longrightarrow> rr_inv (fold rr_step ops rt)"
  by (induction ops arbitrary: rt) (auto simp: routing_step_inv)

text \<open>The device channels a receiver holds.\<close>

definition receiver_channels :: "routing \<Rightarrow> string \<Rightarrow> nat set" where
  "receiver_channels rt r = (case rr_mappingFor r rt of None \<Rightarrow> {} | Some m \<Rightarrow> set (deviceChannels m))"

lemma receiver_channels_of:
  "receiver_channels rt r = (case map_find (rr_streamIdOf rt) r of None \<Rightarrow> {} | Some i \<Rightarrow> channels_of (rr_mapper rt) i)"
  by (simp add: receiver_channels_def rr_mappingFor_def channels_of_def split: option.split)

lemma receivers_disjoint:
  assumes "rr_inv rt" "r \<noteq> r'"
  shows "receiver_channels rt r \<inter> receiver_channels rt r' = {}"
proof -
  have inv: "mapper_inv (rr_mapper rt)" "paired (rr_streamIdOf rt) (mappings (rr_mapper rt))"
    using assms(1) by (auto simp: rr_inv_def mapper_exact_def)
  have "channels_of (rr_mapper rt) i \<inter> channels_of (rr_mapper rt) j = {}"
    if "map_find (rr_streamIdOf rt) r = Some i" "map_find (rr_streamIdOf rt) r' = Some j" for i j
    using that pairedD(3) [OF inv(2)] assms(2) by (intro channels_disjoint [OF inv(1)]) blast
  then show ?thesis by (auto simp: receiver_channels_of split: option.splits)
qed

lemma assigned_receiver:
  assumes "rr_inv rt" "ch < kMaxDeviceChannels"
  shows "isChannelAssigned (int ch) (rr_mapper rt) \<longleftrightarrow> (\<exists>r. ch \<in> receiver_channels rt r)"
proof -
  have inv: "mapper_exact (rr_mapper rt)" "paired (rr_streamIdOf rt) (mappings (rr_mapper rt))"
    using assms(1) by (auto simp: rr_inv_def)
  have "\<exists>r. ch \<in> receiver_channels rt r" if "ch \<in> channels_of (rr_mapper rt) j" for j
  proof -
    have "map_find (mappings (rr_mapper rt)) j \<noteq> None" using that by (auto simp: channels_of_def getMapping_def split: option.splits)
    then obtain r where "map_find (rr_streamIdOf rt) r = Some j" using pairedD(2) [OF inv(2)] by blast
    then show ?thesis using that by (intro exI [of _ r]) (simp add: receiver_channels_of)
  qed
  moreover have "\<exists>j. ch \<in> channels_of (rr_mapper rt) j" if "ch \<in> receiver_channels rt r" for r
    using that by (auto simp: receiver_channels_of split: option.splits)
  ultimately show ?thesis using assigned_iff [OF inv(1) assms(2)] by blast
qed

lemma requested_channels: "requested_session r sdp = Some s \<Longrightarrow> 0 < sd_numChannels s"
proof -
  have "sdp_isValid s \<Longrightarrow> 0 < sd_numChannels s" by (auto simp: sdp_isValid_def getValidationErrors_def word_gt_0 split: if_splits)
  then show "requested_session r sdp = Some s \<Longrightarrow> 0 < sd_numChannels s"
    by (auto simp: requested_session_def parseString_def split: if_splits bind_splits)
qed

lemma release_others:
  assumes "rr_inv rt" "r' \<noteq> r"
  shows "map_find (rr_streamIdOf (rr_release r rt)) r' = map_find (rr_streamIdOf rt) r'"
    "rr_mappingFor r' (rr_release r rt) = rr_mappingFor r' rt"
proof -
  have p: "paired (rr_streamIdOf rt) (mappings (rr_mapper rt))" using assms(1) by (simp add: rr_inv_def)
  show ids: "map_find (rr_streamIdOf (rr_release r rt)) r' = map_find (rr_streamIdOf rt) r'"
    using assms(2) by (simp add: rr_release_def split: option.split)
  show "rr_mappingFor r' (rr_release r rt) = rr_mappingFor r' rt"
  proof (cases "map_find (rr_streamIdOf rt) r")
    case (Some i)
    have "j \<noteq> i" if "map_find (rr_streamIdOf rt) r' = Some j" for j using pairedD(3) [OF p Some] that assms(2) by blast
    then show ?thesis using Some assms(2)
      by (cases "map_find (rr_streamIdOf rt) r'") (simp_all add: rr_mappingFor_def rr_release_def getMapping_def removeMapping_mappings)
  qed (simp add: rr_release_def)
qed

lemma default_with_id: "map_option (\<lambda>m. m\<lparr>streamID := j\<rparr>) (createDefaultMapping i n c mp) = createDefaultMapping j n c mp"
  by (simp add: createDefaultMapping_def split: option.split)

lemma mapper_inv_release: "rr_inv rt \<Longrightarrow> mapper_inv (rr_mapper (rr_release r rt))"
  using release_inv [of rt r] by (simp add: rr_inv_def mapper_exact_def)

text \<open>Enabling a receiver without a remembered grid: one block, or no room.\<close>

lemma apply_enabled:
  assumes "rr_inv rt" "\<not> id_isNull fresh" "requested_session r sdp = Some s" "map_find (rr_remembered rt) r = None"
  shows "rr_apply gen fresh r sdp True rt =
    (case createDefaultMapping fresh (sd_sessionName s) (sd_numChannels s) (rr_mapper (rr_release r rt)) of
       None \<Rightarrow> (rr_release r rt, Inl (''no free device channels for '' @ decimal (unat (sd_numChannels s)) @ '' channels''))
     | Some m \<Rightarrow> ((rr_release r rt)\<lparr>rr_mapper := put_mapping m (rr_mapper (rr_release r rt)),
           rr_streamIdOf := map_put r fresh (rr_streamIdOf (rr_release r rt))\<rparr>,
         Inr \<lparr>ro_connected = True, ro_streamName = sd_sessionName s, ro_channelCount = deviceChannelCount m,
              ro_deviceChannelStart = deviceChannelStart m\<rparr>))"
proof (cases "createDefaultMapping gen (sd_sessionName s) (sd_numChannels s) (rr_mapper (rr_release r rt))")
  case None
  then show ?thesis using assms(3) default_with_id [of fresh gen "sd_sessionName s" "sd_numChannels s" "rr_mapper (rr_release r rt)"]
    by (simp add: rr_apply_def)
next
  case (Some m0)
  then have d: "createDefaultMapping fresh (sd_sessionName s) (sd_numChannels s) (rr_mapper (rr_release r rt)) = Some (m0\<lparr>streamID := fresh\<rparr>)"
    using default_with_id [of fresh gen "sd_sessionName s" "sd_numChannels s" "rr_mapper (rr_release r rt)"] by simp
  note fit = default_mapping_fits [OF mapper_inv_release [OF assms(1)] assms(2) requested_channels [OF assms(3)] d]
  have "addMapping (m0\<lparr>streamID := fresh\<rparr>) (rr_mapper (rr_release r rt)) = (put_mapping (m0\<lparr>streamID := fresh\<rparr>) (rr_mapper (rr_release r rt)), True)"
    using fit(1,2) by (simp add: addMapping_def)
  then show ?thesis using Some d fit(1) assms(3,4) by (simp add: rr_apply_def with_remembered_def Let_def)
qed

section \<open>Theorems\<close>

text \<open>
  C11: Whatever is activated, re-pointed, refused and disabled, and whatever grids are remembered: a device
  channel counts as taken exactly when some receiver holds it, and then exactly one does. No
  channel is lost to a connection that is gone and none carries two.
\<close>

theorem routing_channels_exact:
  assumes "run_fresh ops routing_init" "ch < kMaxDeviceChannels"
  shows "let rt = fold rr_step ops routing_init in
    (isChannelAssigned (int ch) (rr_mapper rt) \<longleftrightarrow> (\<exists>!r. ch \<in> receiver_channels rt r)) \<and>
    (\<not> isChannelAssigned (int ch) (rr_mapper rt) \<longrightarrow> (\<forall>r. ch \<notin> receiver_channels rt r))"
proof -
  have inv: "rr_inv (fold rr_step ops routing_init)" by (rule routing_run_inv [OF rr_inv_init assms(1)])
  show ?thesis using receivers_disjoint [OF inv] assigned_receiver [OF inv assms(2)] unfolding Let_def by blast
qed

definition route_id :: "nat \<Rightarrow> stream_id" where
  "route_id k = StreamID (of_nat k # replicate 15 1)"

definition two_receivers :: "routing_op list" where
  "two_receivers = [Apply (route_id 9) (route_id 1) ''rx1'' [] True, Apply (route_id 9) (route_id 2) ''rx2'' [] True,
     Apply (route_id 9) (route_id 3) ''rx1'' [] False]"

theorem routing_channels_exact_witness:
  "run_fresh two_receivers routing_init \<and>
   (let rt = fold rr_step two_receivers routing_init in
    isChannelAssigned (int 2) (rr_mapper rt) \<and> (\<exists>!r. 2 \<in> receiver_channels rt r) \<and> \<not> isChannelAssigned (int 0) (rr_mapper rt))"
proof -
  have f: "run_fresh two_receivers routing_init" by code_simp
  have a: "isChannelAssigned (int 2) (rr_mapper (fold rr_step two_receivers routing_init))" by code_simp
  have b: "\<not> isChannelAssigned (int 0) (rr_mapper (fold rr_step two_receivers routing_init))" by code_simp
  have k: "2 < kMaxDeviceChannels" by (simp add: kMaxDeviceChannels_def)
  show ?thesis using f a b routing_channels_exact [OF f k] by (simp add: Let_def)
qed

text \<open>
  C37: Enabling a receiver that has no remembered grid succeeds exactly when, once its own old channels are
  given back, the usable range has room for the stream in one piece. It then gets the first such
  block, nobody else's mapping changes, and the outcome reports the block. Otherwise the
  receiver is left without a mapping.
\<close>

theorem routing_connects_exact:
  assumes "rr_inv rt" "\<not> id_isNull fresh" "map_find (mappings (rr_mapper rt)) fresh = None"
    and "requested_session r sdp = Some s" "map_find (rr_remembered rt) r = None"
  shows "let mp = rr_mapper (rr_release r rt); n = unat (sd_numChannels s); (rt', result) = rr_apply gen fresh r sdp True rt in
    (case result of
       Inr out \<Rightarrow> (\<exists>start. start + n \<le> usableChannelCount mp \<and> free_block (owners mp) n start \<and>
           (\<forall>k < start. \<not> free_block (owners mp) n k) \<and> receiver_channels rt' r = {start..<start + n} \<and>
           ro_connected out \<and> ro_channelCount out = sd_numChannels s \<and> unat (ro_deviceChannelStart out) = start)
     | Inl why \<Rightarrow> (\<forall>start. start + n \<le> usableChannelCount mp \<longrightarrow> \<not> free_block (owners mp) n start) \<and>
         rr_mappingFor r rt' = None) \<and>
    (\<forall>r'. r' \<noteq> r \<longrightarrow> rr_mappingFor r' rt' = rr_mappingFor r' rt)"
proof -
  let ?rt = "rr_release r rt" and ?n = "unat (sd_numChannels s)"
  have n: "0 < ?n" using requested_channels [OF assms(4)] by (simp add: word_less_nat_alt)
  have inv: "mapper_inv (rr_mapper ?rt)" using mapper_inv_release [OF assms(1)] .
  have u: "usableChannelCount (rr_mapper ?rt) \<le> 128" using inv by (simp add: mapper_inv_def kMaxDeviceChannels_def)
  have others: "rr_mappingFor r' (?rt\<lparr>rr_mapper := put_mapping m (rr_mapper ?rt), rr_streamIdOf := map_put r fresh (rr_streamIdOf ?rt)\<rparr>) =
      rr_mappingFor r' rt" if "r' \<noteq> r" "streamID m = fresh" for r' m
  proof -
    have "paired (rr_streamIdOf rt) (mappings (rr_mapper rt))" using assms(1) by (simp add: rr_inv_def)
    then have "j \<noteq> fresh" if "map_find (rr_streamIdOf rt) r' = Some j" for j using pairedD(1) that assms(3) by blast
    then show ?thesis using that release_others [OF assms(1) that(1)]
      by (cases "map_find (rr_streamIdOf rt) r'") (simp_all add: rr_mappingFor_def getMapping_def)
  qed
  note spec = findContiguousBlock_spec [OF n, of "rr_mapper ?rt"]
  show ?thesis
  proof (cases "findContiguousBlock ?n (rr_mapper ?rt)")
    case None
    then have "createDefaultMapping fresh (sd_sessionName s) (sd_numChannels s) (rr_mapper ?rt) = None"
      by (simp add: createDefaultMapping_def)
    then show ?thesis
      using None spec release_others(2) [OF assms(1)]
      by (simp add: Let_def apply_enabled [OF assms(1,2,4,5)] rr_mappingFor_def)
  next
    case (Some start)
    define m where "m = \<lparr>streamID = fresh, streamName = sd_sessionName s, streamChannelCount = sd_numChannels s,
      streamChannelOffset = 0, deviceChannelStart = of_nat start, deviceChannelCount = sd_numChannels s, routes = []\<rparr>"
    have d: "createDefaultMapping fresh (sd_sessionName s) (sd_numChannels s) (rr_mapper ?rt) = Some m"
      using Some by (simp add: createDefaultMapping_def m_def)
    have b: "start + ?n \<le> usableChannelCount (rr_mapper ?rt)" using Some spec by simp
    then have st: "unat (of_nat start :: u16) = start" using u by (intro unat_of_nat_small) simp
    have i: "streamID m = fresh" by (simp add: m_def)
    have "x \<in> (\<lambda>k. start + k) ` {0..<?n}" if "start \<le> x" "x < start + ?n" for x
      using that by (intro image_eqI [of _ _ "x - start"]) auto
    then have dc: "set (deviceChannels m) = {start..<start + ?n}" by (auto simp: m_def deviceChannels_def st)
    show ?thesis
      using Some spec st i dc others [OF _ i]
      by (simp add: Let_def apply_enabled [OF assms(1,2,4,5)] d receiver_channels_of channels_of_def getMapping_def)
        (simp add: m_def)
  qed
qed

theorem routing_connects_exact_witness:
  "let (rt', result) = rr_apply (route_id 9) (route_id 1) ''rx1'' [] True routing_init in
   receiver_channels rt' ''rx1'' = {0..<2} \<and> (\<forall>r'. r' \<noteq> ''rx1'' \<longrightarrow> rr_mappingFor r' rt' = None)"
proof -
  let ?a = "rr_apply (route_id 9) (route_id 1) ''rx1'' [] True routing_init"
  define s where "s = sdp_default\<lparr>sd_sessionName := ''rx1'', sd_encoding := ''L24'', sd_sampleRate := 48000,
    sd_numChannels := 2, sd_ptimeUs := 1000\<rparr>"
  have i: "\<not> id_isNull (route_id 1)" by (simp add: route_id_def id_isNull_def)
  have f: "map_find (mappings (rr_mapper routing_init)) (route_id 1) = None" "map_find (rr_remembered routing_init) ''rx1'' = None"
    by (simp_all add: routing_init_def StreamChannelMapper_def)
  have r: "requested_session ''rx1'' [] = Some s" by (simp add: requested_session_def s_def)
  have n: "unat (sd_numChannels s) = 2" by (simp add: s_def)
  have o': "case snd ?a of Inl why \<Rightarrow> False | Inr out \<Rightarrow> unat (ro_deviceChannelStart out) = 0" by code_simp
  have none: "rr_mappingFor r' routing_init = None" for r' by (simp add: rr_mappingFor_def routing_init_def)
  show ?thesis
    using routing_connects_exact [OF rr_inv_init i f(1) r f(2), of "route_id 9"] o' none n
    by (cases ?a) (auto simp: Let_def split: sum.splits)
qed

text \<open>
  Disabling a receiver, whatever it held, leaves it without a mapping and all its channels free, and
  touches nobody else.
\<close>

theorem routing_release_frees:
  assumes "rr_inv rt"
  shows "let (rt', result) = rr_apply gen fresh r sdp False rt in
    result = Inr outcome_default \<and> rr_mappingFor r rt' = None \<and>
    (\<forall>ch\<in>receiver_channels rt r. \<not> isChannelAssigned (int ch) (rr_mapper rt')) \<and>
    (\<forall>r'. r' \<noteq> r \<longrightarrow> rr_mappingFor r' rt' = rr_mappingFor r' rt)"
proof -
  let ?rt = "rr_release r rt"
  have "\<not> isChannelAssigned (int ch) (rr_mapper ?rt)" if "ch \<in> receiver_channels rt r" for ch
  proof (cases "ch < kMaxDeviceChannels")
    case True
    have "ch \<notin> receiver_channels ?rt r'" for r'
      using that receivers_disjoint [OF assms, of r r'] release_others(2) [OF assms, of r' r]
      by (cases "r' = r") (auto simp: receiver_channels_def rr_mappingFor_def)
    then show ?thesis using assigned_receiver [OF release_inv [OF assms] True] by simp
  qed (simp add: isChannelAssigned_def)
  then show ?thesis using release_others(2) [OF assms] by (simp add: rr_apply_def rr_mappingFor_def)
qed

theorem routing_release_frees_witness:
  "let rt = fst (rr_apply (route_id 9) (route_id 1) ''rx1'' [] True routing_init);
       (rt', result) = rr_apply (route_id 9) (route_id 2) ''rx1'' [] False rt in
   isChannelAssigned 1 (rr_mapper rt) \<and> rr_mappingFor ''rx1'' rt' = None \<and> \<not> isChannelAssigned (int 1) (rr_mapper rt')"
proof -
  let ?rt = "fst (rr_apply (route_id 9) (route_id 1) ''rx1'' [] True routing_init)"
  have f: "op_fresh (Apply (route_id 9) (route_id 1) ''rx1'' [] True) routing_init" by code_simp
  then have inv: "rr_inv ?rt" using routing_step_inv [OF rr_inv_init f] by simp
  have a: "isChannelAssigned 1 (rr_mapper ?rt)" by code_simp
  have c: "1 \<in> receiver_channels ?rt ''rx1''" by code_simp
  show ?thesis using a c routing_release_frees [OF inv, of "route_id 9" "route_id 2" "''rx1''" "[]"] by (auto simp: Let_def split: prod.splits)
qed

text \<open>
  A remembered grid that is well formed but lands on another receiver's channels is not set aside for
  the default block: the activation is refused although the block is free.
\<close>

theorem routing_grid_conflict_refused:
  "let rt = fold rr_step [Apply (route_id 9) (route_id 1) ''rx1'' [] True,
       Remember ''rx2'' [\<lparr>streamChannel = 0, deviceChannel = 0\<rparr>]] routing_init in
   createDefaultMapping (route_id 2) ''rx2'' 2 (rr_mapper rt) \<noteq> None \<and>
   snd (rr_apply (route_id 9) (route_id 2) ''rx2'' [] True rt) = Inl ''the mapping overlaps one already in place''"
  by code_simp

end
