(* ===== verification/Connection_Requests.thy ===== *)
theory Connection_Requests
  imports Connection_Api Receiver_Routing
begin

text \<open>
  What the requests of the connection interface do: which of them change what is active, that a bulk request is the
  sequence of its parts, and, with the receiver routing as the host, that the channel matrix and the
  active states stay together. \<open>activation_host\<close> is the contract of the host's callback.
\<close>

section \<open>What one PATCH changes\<close>

lemma status_of [simp]: "rsp_status (jsonResponse st v) = st" "rsp_status (errorResponse st d) = st"
  by (simp_all add: jsonResponse_def errorResponse_def)

lemma staged_error: "staged_receiver now body st = Inl (e, why) \<Longrightarrow> e = 400"
  by (auto simp: staged_receiver_def and_then_def bad_def patch_object_def stage_enable_def stage_sender_id_def stage_file_def
      stage_params_def Let_def split: sum.splits if_splits option.splits json.splits)

lemma activate_receiver_keeps:
  assumes "activateReceiver env iface r st h = Some ((ok, why), r', h')"
  shows "cr_id r' = cr_id r" "cr_pending r' = cr_pending r" "\<not> ok \<Longrightarrow> r' = r"
    "ok \<Longrightarrow> cs_masterEnable (cr_active r') = cs_masterEnable st"
  using assms by (auto simp: activateReceiver_def Let_def split: option.splits prod.splits bool.splits)

lemma activate_refused:
  assumes "activateReceiver env iface r st h = Some ((False, why), r', h')"
  shows "r' = r \<and> (\<exists>moved. call_host (onReceiver env) (cr_id r) moved (cs_masterEnable st) h = ((False, why), h'))"
  using assms by (auto simp: activateReceiver_def Let_def split: option.splits prod.splits bool.splits)

text \<open>
  C38: A PATCH of a receiver leaves every other resource alone; only a 200 may change what the receiver has active, only
  a 202 touches what it has promised, and the host is asked only by a 200 or a 500.
\<close>

theorem patch_receiver_scope:
  assumes "patchStagedReceiver env i body api h = Some (rsp, api', h')"
  shows "ca_senders api' = ca_senders api \<and> ca_interface api' = ca_interface api \<and>
    (\<forall>j. j \<noteq> i \<longrightarrow> map_find (ca_receivers api') j = map_find (ca_receivers api) j) \<and>
    rsp_status rsp \<in> {200, 202, 400, 404, 500} \<and> (rsp_status rsp \<notin> {200, 500} \<longrightarrow> h' = h) \<and>
    (case map_find (ca_receivers api) i of
       None \<Rightarrow> api' = api \<and> rsp_status rsp = 404
     | Some r \<Rightarrow> \<exists>r'. map_find (ca_receivers api') i = Some r' \<and> cr_id r' = cr_id r \<and>
         (rsp_status rsp \<noteq> 200 \<longrightarrow> cr_active r' = cr_active r) \<and>
         (rsp_status rsp \<noteq> 202 \<longrightarrow> cr_pending r' = cr_pending r))"
proof (cases "map_find (ca_receivers api) i")
  case None
  then show ?thesis using assms by (auto simp: patchStagedReceiver_def)
next
  case (Some r)
  show ?thesis
  proof (cases "staged_receiver (env_tai env) body (cr_staged r)")
    case (Inl e)
    then show ?thesis using assms Some staged_error by (cases e) (fastforce simp: patchStagedReceiver_def)
  next
    case (Inr sa)
    obtain staged act where sa: "sa = (staged, act)" by force
    let ?r1 = "r\<lparr>cr_staged := staged\<rparr>"
    show ?thesis
    proof (cases "ar_mode act = kActivateImmediate \<and> \<not> (cs_masterEnable staged \<and> cs_transportFile staged = [] \<and> \<not> addressed staged)")
      case True
      have m: "ar_mode act \<noteq> []" using True by (auto simp: kActivateImmediate_def)
      obtain ok why r2 h2 where act: "activateReceiver env (ca_interface api) ?r1 (immediate_state (env_tai env) staged) h = Some ((ok, why), r2, h2)"
        using assms True m by (auto simp: patchStagedReceiver_def Some Inr sa Let_def split: option.splits)
      show ?thesis using assms True m activate_receiver_keeps [OF act]
        by (cases ok) (auto simp: patchStagedReceiver_def Some Inr sa act put_receiver_def Let_def)
    next
      case False
      then show ?thesis using assms
        by (auto simp: patchStagedReceiver_def Some Inr sa put_receiver_def Let_def split: if_splits)
    qed
  qed
qed

section \<open>When a request is undefined\<close>

text \<open>
  What the range check leaves in the overrides of a state: \<open>destination_port\<close> is no number outside the range, and
  may still be a NaN, which compares false with everything.
\<close>

definition params_ok :: "(string, json) stdmap \<Rightarrow> bool" where
  "params_ok m \<longleftrightarrow> sorted_map m \<and>
     (case map_find m ''destination_port'' of Some (JNumber d) \<Rightarrow> \<not> outside_ports d | _ \<Rightarrow> True)"

lemma params_ok_erase: "params_ok m \<Longrightarrow> params_ok (map_erase k m)"
  by (simp add: params_ok_def sorted_map_erase)

lemma params_ok_override: "params_ok m \<Longrightarrow> param_error b nv = None \<Longrightarrow> params_ok (override nv m)"
  by (cases nv) (auto simp: params_ok_def override_def sorted_map_put sorted_map_erase param_error_def split: if_splits option.splits json.splits)

lemma first_error_None: "first_error f xs = None \<longleftrightarrow> (\<forall>x\<in>set xs. f x = None)"
  by (induction xs) (auto split: option.split)

lemma params_ok_fold: "\<forall>nv\<in>set nvs. param_error b nv = None \<Longrightarrow> params_ok m \<Longrightarrow> params_ok (fold override nvs m)"
  by (induction nvs arbitrary: m) (auto simp: params_ok_override)

lemma params_ok_apply: "applyTransportParams ps b m = Inr m' \<Longrightarrow> params_ok m \<Longrightarrow> params_ok m'"
  using params_ok_fold by (auto simp: applyTransportParams_def first_error_None split: if_splits list.splits option.splits)

lemma stage_steps_ok:
  "stage_enable p st = Inr st' \<Longrightarrow> cs_transportParams st' = cs_transportParams st"
  "stage_sender_id p st = Inr st' \<Longrightarrow> cs_transportParams st' = cs_transportParams st"
  "stage_file p st = Inr st' \<Longrightarrow> params_ok (cs_transportParams st) \<Longrightarrow> params_ok (cs_transportParams st')"
  "stage_params b p st = Inr st' \<Longrightarrow> params_ok (cs_transportParams st) \<Longrightarrow> params_ok (cs_transportParams st')"
  by (auto simp: stage_enable_def stage_sender_id_def stage_file_def stage_params_def and_then_def bad_def Let_def params_ok_erase
      params_ok_apply split: if_splits json.splits sum.splits)

lemma staged_ok:
  "staged_receiver now body st = Inr (st', act) \<Longrightarrow> params_ok (cs_transportParams st) \<Longrightarrow> params_ok (cs_transportParams st')"
  by (auto simp: staged_receiver_def and_then_def stage_steps_ok split: sum.splits)

lemma file_port:
  "map_find (transportParamsFromSdp sdp b) ''destination_port'' =
     Some (case transport_session sdp of None \<Rightarrow> JString ''auto'' | Some s \<Rightarrow> JInt (int (unat (sd_port s))))"
  by (simp add: transportParamsFromSdp_def json_object_def Let_def split: option.split)

lemma if_auto_other [simp]: "k \<noteq> name \<Longrightarrow> map_find (if_auto name v leg) k = map_find leg k"
  by (simp add: if_auto_def)

lemma resolved_port:
  assumes "sorted_map (cs_transportParams st)" "transport_session sdp = Some s"
  shows "map_find (resolved_leg st b sdp iface) ''destination_port'' =
    Some (case map_find (cs_transportParams st) ''destination_port'' of
       None \<Rightarrow> JInt (int (unat (sd_port s)))
     | Some v \<Rightarrow> if v = JString ''auto'' then JInt (int (unat (sd_port s))) else v)"
  using assms(1)
  by (simp add: resolved_leg_def resolveAutoLeg_def Let_def assms(2))
     (auto simp: if_auto_def is_auto_def put_all_def map_find_put_all file_port assms(2) JInt_def split: option.splits)

lemma cast_u16_port: "\<not> outside_ports d \<Longrightarrow> cast_u16 d = None \<longleftrightarrow> d = NotANumber"
proof (cases d)
  case (Finite x)
  assume "\<not> outside_ports d"
  then have "0 \<le> x" "x \<le> 65535" using Finite by (auto simp: outside_ports_def)
  then have "0 \<le> \<lfloor>x\<rfloor>" "\<lfloor>x\<rfloor> \<le> 65535" by (auto simp: floor_le_iff)
  then show ?thesis using Finite \<open>0 \<le> x\<close> by (simp add: cast_u16_def Let_def)
qed (auto simp: outside_ports_def cast_u16_def)

lemma cast_u16_int: "cast_u16 (Finite (of_int z)) = (if 0 \<le> z \<and> z < 65536 then Some (of_int z) else None)"
  by (simp add: cast_u16_def)

lemma cast_u16_word: "cast_u16 (Finite (of_int (int (unat p)))) = Some p"
  unfolding cast_u16_int using unat_u16 [of p] by (simp add: unat_of_nat_small flip: of_nat_less_iff [where 'a = int])

lemma cast_u16_nan [simp]: "cast_u16 NotANumber = None"
  by (simp add: cast_u16_def)

lemma follow_undefined:
  assumes "params_ok (cs_transportParams st)"
  shows "followSdpToLeg now sdp (resolved_leg st b sdp iface) = None \<longleftrightarrow>
    transport_session sdp \<noteq> None \<and> map_find (cs_transportParams st) ''destination_port'' = Some (JNumber NotANumber)"
proof (cases "transport_session sdp")
  case (Some s)
  show ?thesis using assms cast_u16_port cast_u16_word [of "sd_port s"]
    by (auto simp: followSdpToLeg_def Some moved_port_def resolved_port params_ok_def JInt_def Let_def split: option.splits json.splits)
qed (simp add: followSdpToLeg_def)

section \<open>The host\<close>

text \<open>
  What the interface relies on: a call is about one receiver; a successful disabling call disconnects it, and what
  was not connected becomes connected only by a successful enabling call.
\<close>

locale activation_host =
  fixes cb :: "'h activation_callback"
    and hinv :: "'h \<Rightarrow> bool"
    and connected :: "'h \<Rightarrow> string \<Rightarrow> bool"
  assumes call_inv: "hinv h \<Longrightarrow> cb i sdp enable h = (r, h') \<Longrightarrow> hinv h'"
    and call_others: "hinv h \<Longrightarrow> cb i sdp enable h = (r, h') \<Longrightarrow> j \<noteq> i \<Longrightarrow> connected h' j = connected h j"
    and call_connects: "hinv h \<Longrightarrow> cb i sdp enable h = ((ok, why), h') \<Longrightarrow> connected h' i \<Longrightarrow> (if ok then enable else connected h i)"
begin

text \<open>The environments of the requests: this callback for receivers, and a sender callback that leaves the host alone.\<close>

definition serves :: "'h api_env \<Rightarrow> bool" where
  "serves env \<longleftrightarrow> onReceiver env = Some cb \<and> (\<forall>i sdp enable h. snd (call_host (onSender env) i sdp enable h) = h)"

definition entry_ok :: "'h \<Rightarrow> string \<times> conn_receiver \<Rightarrow> bool" where
  "entry_ok h ir \<longleftrightarrow> cr_id (snd ir) = fst ir \<and> (connected h (fst ir) \<longrightarrow> cs_masterEnable (cr_active (snd ir)))"

definition consistent :: "connection_api \<Rightarrow> 'h \<Rightarrow> bool" where
  "consistent api h \<longleftrightarrow> hinv h \<and> sorted_map (ca_receivers api) \<and>
     (\<forall>i. case map_find (ca_receivers api) i of None \<Rightarrow> \<not> connected h i | Some r \<Rightarrow> entry_ok h (i, r))"

lemma consistentD:
  assumes "consistent api h"
  shows "hinv h" "sorted_map (ca_receivers api)" "map_find (ca_receivers api) i = Some r \<Longrightarrow> entry_ok h (i, r)"
    "map_find (ca_receivers api) i = None \<Longrightarrow> \<not> connected h i"
  using assms unfolding consistent_def by (simp_all add: option.split_sel_asm) (metis option.simps(4,5))+

lemma activate_host:
  assumes "serves env" "hinv h" "activateReceiver env iface r st h = Some ((ok, why), r', h')" "entry_ok h (cr_id r, r)"
  shows "hinv h'" "j \<noteq> cr_id r \<Longrightarrow> connected h' j = connected h j" "entry_ok h' (cr_id r, r')"
    "connected h' (cr_id r) \<Longrightarrow> connected h (cr_id r) \<or> ok"
proof -
  let ?e = "cs_masterEnable st"
  obtain moved e where c: "cb (cr_id r) moved ?e h = ((ok, e), h')"
    using assms(1,3) by (auto simp: activateReceiver_def serves_def call_host_def Let_def split: option.splits prod.splits bool.splits)
  show "hinv h'" by (rule call_inv [OF assms(2) c])
  show "j \<noteq> cr_id r \<Longrightarrow> connected h' j = connected h j" by (rule call_others [OF assms(2) c])
  show "connected h' (cr_id r) \<Longrightarrow> connected h (cr_id r) \<or> ok" using call_connects [OF assms(2) c] by (cases ok) auto
  show "entry_ok h' (cr_id r, r')"
    using call_connects [OF assms(2) c] activate_receiver_keeps [OF assms(3)] assms(4) by (cases ok) (auto simp: entry_ok_def)
qed

lemma due_receivers_host:
  assumes "serves env"
  shows "due_receivers env iface rs h = Some (rs', h') \<Longrightarrow> hinv h \<Longrightarrow> distinct (map fst rs) \<Longrightarrow> list_all (entry_ok h) rs \<Longrightarrow>
    hinv h' \<and> map fst rs' = map fst rs \<and> list_all (entry_ok h') rs' \<and> (\<forall>j. j \<notin> fst ` set rs \<longrightarrow> connected h' j = connected h j)"
proof (induction rs arbitrary: h rs' h')
  case (Cons ir rs)
  obtain i r where ir: "ir = (i, r)" by force
  have ok: "entry_ok h (i, r)" "cr_id r = i" using Cons.prems(4) ir by (auto simp: entry_ok_def)
  obtain r1 h1 rs1 where s: "due_receivers env iface rs h1 = Some (rs1, h')" "rs' = (i, r1) # rs1"
      and one: "(if due env (cr_pending r)
             then do { (ok, s', h') \<leftarrow> activateReceiver env iface (r\<lparr>cr_pending := pending_none\<rparr>) (pa_state (cr_pending r)) h; Some (s', h') }
             else Some (r, h)) = Some (r1, h1)"
    using Cons.prems(1) ir by (auto simp: Option.bind_eq_Some_conv split: prod.splits simp del: if_split)
  have step: "hinv h1 \<and> entry_ok h1 (i, r1) \<and> (\<forall>j. j \<noteq> i \<longrightarrow> connected h1 j = connected h j)"
  proof (cases "due env (cr_pending r)")
    case True
    then obtain ok' why where act: "activateReceiver env iface (r\<lparr>cr_pending := pending_none\<rparr>) (pa_state (cr_pending r)) h = Some ((ok', why), r1, h1)"
      using one by (auto simp: Option.bind_eq_Some_conv split: prod.splits)
    have "entry_ok h (cr_id (r\<lparr>cr_pending := pending_none\<rparr>), r\<lparr>cr_pending := pending_none\<rparr>)" using ok by (simp add: entry_ok_def)
    from activate_host [OF assms Cons.prems(2) act this] show ?thesis using ok(2) by auto
  next
    case False
    then show ?thesis using one ok Cons.prems(2) by simp
  qed
  have n: "i \<notin> fst ` set rs" "distinct (map fst rs)" using Cons.prems(3) ir by auto
  have "list_all (entry_ok h1) rs"
    unfolding list_all_iff
  proof
    fix p assume p: "p \<in> set rs"
    then have "fst p \<noteq> i" using n(1) by force
    moreover have "entry_ok h p" using Cons.prems(4) p by (simp add: list_all_iff)
    ultimately show "entry_ok h1 p" using step by (simp add: entry_ok_def)
  qed
  with Cons.IH [OF s(1)] step n
  have "hinv h' \<and> map fst rs1 = map fst rs \<and> list_all (entry_ok h') rs1 \<and> (\<forall>j. j \<notin> fst ` set rs \<longrightarrow> connected h' j = connected h1 j)"
    by blast
  moreover from this have "entry_ok h' (i, r1)" using step n(1) by (simp add: entry_ok_def)
  ultimately show ?case using step n ir s(2) by simp
qed simp

lemma sender_host:
  "serves env \<Longrightarrow> activateSender env iface s st h = Some (ok, s', h') \<Longrightarrow> h' = h"
  unfolding serves_def activateSender_def by (auto simp: Let_def split: option.splits prod.splits bool.splits) (metis snd_conv)+

lemma due_senders_host: "serves env \<Longrightarrow> due_senders env iface ss h = Some (ss', h') \<Longrightarrow> h' = h"
proof (induction ss arbitrary: ss' h h')
  case (Cons p ss)
  show ?case using Cons sender_host [OF Cons.prems(1)]
    by (cases p) (fastforce simp: Option.bind_eq_Some_conv split: if_splits)
qed simp

lemma due_consistent:
  assumes "serves env" "consistent api h" "applyDueActivations env api h = Some (api', h')"
  shows "consistent api' h'"
proof -
  note c = consistentD [OF assms(2)]
  obtain ss rs where d: "due_receivers env (ca_interface api) (ca_receivers api) h = Some (rs, h')"
      and api': "ca_receivers api' = rs"
    using assms(3) due_senders_host [OF assms(1)]
    by (fastforce simp: applyDueActivations_def Option.bind_eq_Some_conv split: prod.splits)
  have dist: "distinct (map fst (ca_receivers api))" using c(2) by (simp add: sorted_map_def strict_sorted_iff)
  have all: "list_all (entry_ok h) (ca_receivers api)" using c(3) map_find_iff [OF c(2)] by (auto simp: list_all_iff)
  note r = due_receivers_host [OF assms(1) d c(1) dist all]
  then have s: "sorted_map rs" using c(2) by (simp add: sorted_map_def)
  have keys: "fst ` set rs = fst ` set (ca_receivers api)" using r by (metis list.set_map)
  have "case map_find rs i of None \<Rightarrow> \<not> connected h' i | Some r \<Rightarrow> entry_ok h' (i, r)" for i
  proof (cases "map_find rs i")
    case None
    then have i: "map_find (ca_receivers api) i = None" using keys by (simp add: map_find_None)
    then have "connected h' i = connected h i" using r by (simp add: map_find_None)
    then show ?thesis using None c(4) [OF i] by simp
  next
    case (Some x)
    then show ?thesis using r map_find_in [OF Some] by (simp add: list_all_iff)
  qed
  then show ?thesis using r s api' by (simp add: consistent_def)
qed

lemma put_consistent:
  assumes "consistent api h" "hinv h'" "entry_ok h' (i, r)" "\<And>j. j \<noteq> i \<Longrightarrow> connected h' j = connected h j"
  shows "consistent (put_receiver i r api) h'"
proof -
  have "case map_find (ca_receivers (put_receiver i r api)) j of None \<Rightarrow> \<not> connected h' j | Some r \<Rightarrow> entry_ok h' (j, r)" for j
    using assms(3,4) consistentD(3,4) [OF assms(1), of j]
    by (cases "j = i") (auto simp: put_receiver_def entry_ok_def split: option.split)
  then show ?thesis using assms(2) consistentD(2) [OF assms(1)]
    by (simp add: consistent_def) (simp add: put_receiver_def sorted_map_put)
qed

lemma patch_receiver_consistent:
  assumes "serves env" "consistent api h" "patchStagedReceiver env i body api h = Some (rsp, api', h')"
  shows "consistent api' h'"
proof (cases "map_find (ca_receivers api) i")
  case None
  then show ?thesis using assms by (simp add: patchStagedReceiver_def)
next
  case (Some r)
  have ok: "entry_ok h (i, r)" using consistentD(3) [OF assms(2) Some] .
  have keep: "consistent (put_receiver i (r\<lparr>cr_staged := st, cr_pending := p\<rparr>) api) h" for st p
    using ok by (intro put_consistent [OF assms(2) consistentD(1) [OF assms(2)]]) (auto simp: entry_ok_def)
  have keep': "consistent (put_receiver i (r\<lparr>cr_staged := st\<rparr>) api) h" for st
    using keep [where st = st and p = "cr_pending r"] by simp
  have act: "consistent (put_receiver i r2 api) h2"
    if "activateReceiver env iface (r\<lparr>cr_staged := st\<rparr>) st' h = Some ((b, why), r2, h2)" for iface st st' b why r2 h2
  proof -
    have "cr_id (r\<lparr>cr_staged := st\<rparr>) = i" "entry_ok h (cr_id (r\<lparr>cr_staged := st\<rparr>), r\<lparr>cr_staged := st\<rparr>)"
      using ok by (auto simp: entry_ok_def)
    from this(1) activate_host [OF assms(1) consistentD(1) [OF assms(2)] that this(2)]
    show ?thesis by (intro put_consistent [OF assms(2)]) auto
  qed
  show ?thesis using assms(2,3) keep keep' act
    by (auto simp: patchStagedReceiver_def Some Let_def split: sum.splits prod.splits if_splits option.splits bool.splits)
qed

lemma patch_sender_consistent:
  assumes "serves env" "consistent api h" "patchStagedSender env i body api h = Some (rsp, api', h')"
  shows "consistent api' h'"
proof -
  have "ca_receivers api' = ca_receivers api" "h' = h"
    using assms(3) sender_host [OF assms(1)]
    by (auto simp: patchStagedSender_def Let_def put_sender_def split: sum.splits prod.splits if_splits option.splits bool.splits)
  then show ?thesis using assms(2) by (simp add: consistent_def)
qed

lemma bulk_consistent:
  assumes "serves env"
  shows "consistent api h \<Longrightarrow> bulk_entries env b es answers api h = Some (rsp, api', h') \<Longrightarrow> consistent api' h'"
proof (induction es arbitrary: answers api h)
  case (Cons e es)
  show ?case
  proof (cases "\<not> isObject e \<or> \<not> isString (member_of e ''id'')")
    case False
    let ?i = "asString (member_of e ''id'')" and ?p = "serialise (member_of e ''params'')"
    obtain one api1 h1 where one: "(if b then patchStagedSender env ?i ?p api h else patchStagedReceiver env ?i ?p api h) = Some (one, api1, h1)"
      using Cons.prems(2) False by (auto simp: Let_def simp del: if_split split: option.splits)
    then have "consistent api1 h1"
      using patch_sender_consistent [OF assms Cons.prems(1)] patch_receiver_consistent [OF assms Cons.prems(1)] by (auto split: if_splits)
    then show ?thesis using Cons.IH Cons.prems(2) False one by (auto simp: Let_def split del: if_split)
  qed (use Cons.prems in auto)
qed auto

lemma leaf_consistent:
  assumes "serves env" "consistent api h" "handle_leaf env verb b i leaf body api h = Some (rsp, api', h')"
  shows "consistent api' h'"
  using assms(2,3) patch_sender_consistent [OF assms(1,2)] patch_receiver_consistent [OF assms(1,2)]
  by (auto simp: handle_leaf_def Let_def split: if_splits option.splits)

lemma segments_consistent:
  assumes "serves env" "consistent api h" "handle_segments env verb segments body api h = Some (rsp, api', h')"
  shows "consistent api' h'"
  using assms(2,3) leaf_consistent [OF assms(1,2)] bulk_consistent [OF assms(1,2)]
  by (auto simp: handle_segments_def handle_single_def patchInBulk_def Let_def split: if_splits option.splits list.splits sum.splits)

lemma handle_consistent:
  assumes "serves env" "consistent api h" "ca_handle env verb path body api h = Some (rsp, api', h')"
  shows "consistent api' h'"
  using assms(3) due_consistent [OF assms(1,2)] segments_consistent [OF assms(1)]
  by (auto simp: ca_handle_def Option.bind_eq_Some_conv split: if_splits prod.splits)

end

section \<open>The receiver routing as the host\<close>

text \<open>
  \<open>ReceiverRouting::callback\<close>. The host is the routing and the number of identifiers taken so far from the
  generator \<open>g\<close>, which stands for the results of \<open>StreamID::generate\<close>.
\<close>

definition routing_callback :: "(nat \<Rightarrow> stream_id) \<Rightarrow> (routing \<times> nat) activation_callback" where
  "routing_callback g i sdp enable h = (case h of (rt, n) \<Rightarrow>
     (case rr_apply (g n) (g (n + 1)) i sdp enable rt of
        (rt', Inl why) \<Rightarrow> ((False, why), (rt', n + 2))
      | (rt', Inr out) \<Rightarrow> ((True, []), (rt', n + 2))))"

text \<open>
  What \<open>StreamID::generate\<close> promises, for the first \<open>bound\<close> calls: version 4 identifiers, no two alike. There are
  finitely many identifiers, so there is a bound.
\<close>

definition generates :: "nat \<Rightarrow> (nat \<Rightarrow> stream_id) \<Rightarrow> bool" where
  "generates bound g \<longleftrightarrow> distinct (map g [0..<bound]) \<and> list_all (\<lambda>i. valid_id i \<and> \<not> id_isNull i) (map g [0..<bound])"

lemma generatesD:
  assumes "generates bound g" "k < bound"
  shows "valid_id (g k)" "\<not> id_isNull (g k)" "j < bound \<Longrightarrow> g k = g j \<Longrightarrow> k = j"
  using assms by (auto simp: generates_def list_all_iff distinct_map inj_on_def)

definition host_inv :: "nat \<Rightarrow> (nat \<Rightarrow> stream_id) \<Rightarrow> routing \<times> nat \<Rightarrow> bool" where
  "host_inv bound g h \<longleftrightarrow> generates bound g \<and> snd h \<le> bound \<longrightarrow>
     rr_inv (fst h) \<and> (\<forall>k. snd h \<le> k \<and> k < bound \<longrightarrow> map_find (mappings (rr_mapper (fst h))) (g k) = None)"

definition host_connected :: "routing \<times> nat \<Rightarrow> string \<Rightarrow> bool" where
  "host_connected h i = (streamIdFor i (fst h) \<noteq> None)"

lemma apply_mappings:
  "map_find (mappings (rr_mapper rt)) i = None \<Longrightarrow> i \<noteq> fresh \<Longrightarrow>
   map_find (mappings (rr_mapper (fst (rr_apply gen fresh r sdp enable rt)))) i = None"
  using release_mappings [of rt i r]
  by (auto simp: rr_apply_def Let_def addMapping_def split: option.split prod.split bool.split)

lemma apply_streams:
  "j \<noteq> r \<Longrightarrow> map_find (rr_streamIdOf (fst (rr_apply gen fresh r sdp enable rt))) j = map_find (rr_streamIdOf rt) j"
  by (auto simp: rr_apply_def Let_def rr_release_def split: option.split prod.split bool.split)

lemma apply_connects:
  "rr_apply gen fresh r sdp enable rt = (rt', result) \<Longrightarrow> map_find (rr_streamIdOf rt') r \<noteq> None \<Longrightarrow>
   (case result of Inl why \<Rightarrow> map_find (rr_streamIdOf rt) r \<noteq> None | Inr out \<Rightarrow> enable)"
  by (auto simp: rr_apply_def Let_def split: if_splits option.splits prod.splits bool.splits)

lemma routing_call:
  assumes "routing_callback g i sdp enable (rt, n) = ((ok, why), h')"
  obtains rt' result where "rr_apply (g n) (g (n + 1)) i sdp enable rt = (rt', result)" "h' = (rt', n + 2)"
    "ok = (\<exists>out. result = Inr out)"
  using assms by (auto simp: routing_callback_def split: prod.splits sum.splits)

interpretation routed: activation_host "routing_callback g" "host_inv bound g" host_connected for g bound
proof
  fix h i sdp enable r h' assume inv: "host_inv bound g h" and c: "routing_callback g i sdp enable h = (r, h')"
  obtain rt n where h: "h = (rt, n)" by force
  obtain rt' result where a: "rr_apply (g n) (g (n + 1)) i sdp enable rt = (rt', result)" "h' = (rt', n + 2)"
    using routing_call c h by (metis surj_pair)
  show "host_inv bound g h'"
    unfolding host_inv_def
  proof (intro impI conjI allI)
    assume g: "generates bound g \<and> snd h' \<le> bound"
    then have n: "n + 1 < bound" and gen: "generates bound g" using a(2) by simp_all
    then have p: "rr_inv rt" "\<And>k. n \<le> k \<Longrightarrow> k < bound \<Longrightarrow> map_find (mappings (rr_mapper rt)) (g k) = None" "valid_id (g (n + 1))"
      using inv generatesD(1) by (auto simp: host_inv_def h)
    show "rr_inv (fst h')" using apply_inv [OF p(1,3), where gen = "g n" and r = i and sdp = sdp and enable = enable] p(2) n a by simp
    fix k assume "snd h' \<le> k \<and> k < bound"
    then have k: "n \<le> k" "k < bound" "g k \<noteq> g (n + 1)" using a(2) generatesD(3) [OF gen n, of k] by auto
    show "map_find (mappings (rr_mapper (fst h'))) (g k) = None"
      using apply_mappings [OF p(2) [OF k(1,2)] k(3), of "g n" i sdp enable] a by simp
  qed
next
  fix h i sdp enable r h' j assume c: "routing_callback g i sdp enable h = (r, h')" "j \<noteq> i"
  obtain rt n where h: "h = (rt, n)" by force
  obtain rt' result where a: "rr_apply (g n) (g (n + 1)) i sdp enable rt = (rt', result)" "h' = (rt', n + 2)"
    using routing_call c(1) h by (metis surj_pair)
  show "host_connected h' j = host_connected h j"
    using apply_streams [OF c(2), of "g n" "g (n + 1)" sdp enable rt] a h by (simp add: host_connected_def streamIdFor_def)
next
  fix h i sdp enable ok why h' assume c: "routing_callback g i sdp enable h = ((ok, why), h')" "host_connected h' i"
  obtain rt n where h: "h = (rt, n)" by force
  obtain rt' result where a: "rr_apply (g n) (g (n + 1)) i sdp enable rt = (rt', result)" "h' = (rt', n + 2)" "ok = (\<exists>out. result = Inr out)"
    using routing_call c(1) h by metis
  have "map_find (rr_streamIdOf rt') i \<noteq> None" using c(2) a(2) by (simp add: host_connected_def streamIdFor_def)
  from apply_connects [OF a(1) this] show "if ok then enable else host_connected h i"
    using a(3) h by (auto simp: host_connected_def streamIdFor_def split: sum.splits)
qed

section \<open>Requests\<close>

text \<open>
  A request with the clocks it is handled at. \<open>senders\<close> is what the host answers for senders; it has no
  part in the routing.
\<close>

record api_call =
  at_tai :: tai_time
  at_time :: u64
  rq_verb :: string
  rq_path :: string
  rq_body :: string

definition routing_env :: "(nat \<Rightarrow> stream_id) \<Rightarrow> (string \<Rightarrow> string \<Rightarrow> bool \<Rightarrow> bool \<times> string) \<Rightarrow> api_call \<Rightarrow> (routing \<times> nat) api_env" where
  "routing_env g senders q = \<lparr>onReceiver = Some (routing_callback g), onSender = Some (\<lambda>i sdp enable h. (senders i sdp enable, h)),
     env_tai = at_tai q, env_time = at_time q\<rparr>"

lemma routing_serves: "routed.serves g (routing_env g senders q)"
  by (simp add: routed.serves_def routing_env_def call_host_def)

definition idle_api :: "connection_api \<Rightarrow> bool" where
  "idle_api api \<longleftrightarrow> sorted_map (ca_receivers api) \<and> list_all (\<lambda>(i, r). cr_id r = i) (ca_receivers api)"

lemma idle_consistent: "idle_api api \<Longrightarrow> routed.consistent bound g api (routing_init, n)"
proof -
  assume a: "idle_api api"
  have "cr_id r = i" if "map_find (ca_receivers api) i = Some r" for i r
    using a map_find_in [OF that] by (auto simp: idle_api_def list_all_iff)
  then show ?thesis using a rr_inv_init
    by (auto simp: routed.consistent_def routed.entry_ok_def host_inv_def host_connected_def idle_api_def streamIdFor_def
        routing_init_def StreamChannelMapper_def split: option.split)
qed

section \<open>Theorems\<close>

definition fresh_receiver :: "string \<Rightarrow> conn_receiver" where
  "fresh_receiver i = \<lparr>cr_id = i, cr_label = [], cr_staged = conn_default, cr_active = conn_default, cr_pending = pending_none\<rparr>"

definition one_receiver :: connection_api where
  "one_receiver = \<lparr>ca_senders = [], ca_receivers = [(''rx1'', fresh_receiver ''rx1'')], ca_interface = []\<rparr>"

definition enable_body :: string where
  "enable_body = ''{'' @ quoted ''master_enable'' @ '':true,'' @ quoted ''transport_params'' @ '':[{'' @
     quoted ''multicast_ip'' @ '':'' @ quoted ''239.1.1.1'' @ ''}],'' @ quoted ''activation'' @ '':{'' @ quoted ''mode'' @
     '':'' @ quoted ''activate_immediate'' @ ''}}''"

definition tai_zero :: tai_time where
  "tai_zero = \<lparr>tai_seconds = 0, tai_nanos = 0\<rparr>"

definition enable_call :: api_call where
  "enable_call = \<lparr>at_tai = tai_zero, at_time = 0, rq_verb = ''PATCH'',
     rq_path = ''/x-nmos/connection/v1.1/single/receivers/rx1/staged'', rq_body = enable_body\<rparr>"

definition multicast_state :: conn_state where
  "multicast_state = conn_default\<lparr>cs_masterEnable := True, cs_transportParams := [(''multicast_ip'', JString ''239.1.1.1'')]\<rparr>"

lemma enable_staged:
  "staged_receiver tai_zero enable_body conn_default = Inr (multicast_state, ar_none\<lparr>ar_mode := kActivateImmediate\<rparr>)"
  by code_simp

lemma enable_handled:
  assumes "onReceiver env = Some cb" "env_tai env = tai_zero" "cb ''rx1'' [] True h = ((True, e), h')"
  shows "\<exists>rsp r'. patchStagedReceiver env ''rx1'' enable_body one_receiver h =
    Some (rsp, one_receiver\<lparr>ca_receivers := [(''rx1'', r')]\<rparr>, h') \<and> rsp_status rsp = 200 \<and> cs_masterEnable (cr_active r')"
proof -
  have a: "addressed multicast_state" by (simp add: addressed_def multicast_state_def)
  have s: "cs_transportFile multicast_state = []" "cs_masterEnable multicast_state"
    by (simp_all add: multicast_state_def conn_default_def)
  show ?thesis using assms a s enable_staged
    by (simp add: patchStagedReceiver_def one_receiver_def fresh_receiver_def activateReceiver_def followSdpToLeg_def
        transport_session_def call_host_def immediate_state_def put_receiver_def kActivateImmediate_def Let_def)
qed

lemma enable_route:
  assumes "onReceiver env = Some cb" "env_tai env = tai_zero" "cb ''rx1'' [] True h = ((True, e), h')"
  shows "\<exists>rsp r'. ca_handle env ''PATCH'' (rq_path enable_call) enable_body one_receiver h =
    Some (rsp, one_receiver\<lparr>ca_receivers := [(''rx1'', r')]\<rparr>, h') \<and> rsp_status rsp = 200 \<and> cs_masterEnable (cr_active r')"
proof -
  have d: "applyDueActivations env one_receiver h = Some (one_receiver, h)"
    by (simp add: applyDueActivations_def one_receiver_def fresh_receiver_def pending_none_def due_def)
  have p: "take (length kConnectionApiRoot) (rq_path enable_call) = kConnectionApiRoot"
    "segmentsOf (drop (length kConnectionApiRoot) (rq_path enable_call)) = [''single'', ''receivers'', ''rx1'', ''staged'']"
    by code_simp+
  have f: "map_find (ca_receivers one_receiver) ''rx1'' \<noteq> None" by (simp add: one_receiver_def)
  have "ca_handle env ''PATCH'' (rq_path enable_call) enable_body one_receiver h =
      patchStagedReceiver env ''rx1'' enable_body one_receiver h"
    using f by (auto simp: ca_handle_def d p handle_segments_def handle_single_def handle_leaf_def Let_def)
  then show ?thesis using enable_handled [OF assms] by simp
qed

text \<open>
  An activation the routing refuses, for any reason but an unreadable file, has already given back what the
  receiver held: it is left without channels while the interface still reports its old state as active.
\<close>

theorem refused_repoint_disconnects:
  assumes "activateReceiver (routing_env g senders q) iface r st (rt, n) = Some ((False, why), r', (rt', n'))"
    and "cs_masterEnable st" "why \<noteq> ''the transport file is not an SDP this device can read''"
  shows "r' = r \<and> streamIdFor (cr_id r) rt' = None \<and> rr_mappingFor (cr_id r) rt' = None"
proof -
  obtain moved where c: "routing_callback g (cr_id r) moved True (rt, n) = ((False, why), (rt', n'))" "r' = r"
    using activate_refused [OF assms(1)] assms(2) by (auto simp: call_host_def routing_env_def)
  then have a: "rr_apply (g n) (g (n + 1)) (cr_id r) moved True rt = (rt', Inl why)"
    by (auto simp: routing_callback_def split: prod.splits sum.splits)
  have "map_find (rr_streamIdOf rt') (cr_id r) = None"
    using a assms(3) by (auto simp: rr_apply_def Let_def split: option.splits if_splits prod.splits bool.splits)
  then show ?thesis using c(2) by (simp add: streamIdFor_def rr_mappingFor_def)
qed

definition crowded :: routing where
  "crowded = fold rr_step [Apply (route_id 9) (route_id 1) ''rx1'' [] True, Apply (route_id 9) (route_id 2) ''rx2'' [] True,
     Remember ''rx2'' [\<lparr>streamChannel = 0, deviceChannel = 0\<rparr>]] routing_init"

theorem refused_repoint_disconnects_witness:
  "\<exists>r' rt' why. activateReceiver (routing_env route_id (\<lambda>i sdp enable. (True, [])) enable_call) [] (fresh_receiver ''rx2'') multicast_state (crowded, 3) =
       Some ((False, why), r', (rt', 5)) \<and> streamIdFor ''rx2'' crowded \<noteq> None \<and> streamIdFor ''rx2'' rt' = None"
proof -
  let ?why = "''the mapping overlaps one already in place''"
  define rt' where "rt' = fst (rr_apply (route_id 3) (route_id 4) ''rx2'' [] True crowded)"
  have a: "snd (rr_apply (route_id 3) (route_id 4) ''rx2'' [] True crowded) = Inl ?why" by code_simp
  have s: "cs_masterEnable multicast_state" "cs_transportFile multicast_state = []" by (simp_all add: multicast_state_def conn_default_def)
  have c: "routing_callback route_id ''rx2'' [] True (crowded, 3) = ((False, ?why), (rt', 5))"
    using a by (auto simp: routing_callback_def rt'_def split: prod.split)
  have act: "activateReceiver (routing_env route_id (\<lambda>i sdp enable. (True, [])) enable_call) [] (fresh_receiver ''rx2'') multicast_state (crowded, 3) =
      Some ((False, ?why), fresh_receiver ''rx2'', (rt', 5))"
    using c s by (simp add: activateReceiver_def followSdpToLeg_def transport_session_def call_host_def routing_env_def fresh_receiver_def Let_def)
  have "streamIdFor ''rx2'' crowded \<noteq> None" by code_simp
  then show ?thesis using act refused_repoint_disconnects [OF act s(1)] by (auto simp: fresh_receiver_def)
qed

theorem patch_receiver_scope_witness:
  "\<exists>rsp api'. patchStagedReceiver \<lparr>onReceiver = Some (\<lambda>i sdp enable h. ((True, []), h + 1)), onSender = None, env_tai = tai_zero, env_time = 0\<rparr>
       ''rx1'' enable_body one_receiver (0 :: nat) = Some (rsp, api', 1) \<and> ca_senders api' = [] \<and>
     rsp_status rsp = 200 \<and> map_find (ca_receivers api') ''rx2'' = None"
proof -
  let ?env = "\<lparr>onReceiver = Some (\<lambda>i sdp enable h. ((True, []), h + 1)), onSender = None, env_tai = tai_zero, env_time = 0\<rparr> :: nat api_env"
  obtain rsp r' where p: "patchStagedReceiver ?env ''rx1'' enable_body one_receiver 0 =
      Some (rsp, one_receiver\<lparr>ca_receivers := [(''rx1'', r')]\<rparr>, 1)" "rsp_status rsp = 200"
    using enable_handled [of ?env _ 0 "[]" 1] by auto
  show ?thesis using p patch_receiver_scope [OF p(1)] by (simp add: one_receiver_def)
qed

text \<open>
  When a receiver's overrides have passed the range check, a PATCH runs into undefined behaviour in exactly one
  case: it activates now, with a readable transport file and a \<open>destination_port\<close> that is not a number.
\<close>

theorem patch_undefined_exact:
  assumes "map_find (ca_receivers api) i = Some r" "params_ok (cs_transportParams (cr_staged r))"
  shows "patchStagedReceiver env i body api h = None \<longleftrightarrow>
    (\<exists>st act. staged_receiver (env_tai env) body (cr_staged r) = Inr (st, act) \<and> ar_mode act = kActivateImmediate \<and>
       transport_session (cs_transportFile st) \<noteq> None \<and>
       map_find (cs_transportParams st) ''destination_port'' = Some (JNumber NotANumber))"
proof (cases "staged_receiver (env_tai env) body (cr_staged r)")
  case (Inl e)
  then show ?thesis using assms(1) by (cases e) (simp add: patchStagedReceiver_def)
next
  case (Inr sa)
  obtain st act where sa: "sa = (st, act)" by force
  have ok: "params_ok (cs_transportParams st)" using staged_ok Inr sa assms(2) by blast
  let ?r = "r\<lparr>cr_staged := st\<rparr>" and ?st = "immediate_state (env_tai env) st"
  have "activateReceiver env (ca_interface api) ?r ?st h = None \<longleftrightarrow>
      followSdpToLeg (env_time env) (cs_transportFile st) (resolved_leg ?st False (cs_transportFile st) (ca_interface api)) = None"
    by (auto simp: activateReceiver_def immediate_state_def Let_def split: option.split prod.split bool.split)
  also have "\<dots> \<longleftrightarrow> transport_session (cs_transportFile st) \<noteq> None \<and>
      map_find (cs_transportParams st) ''destination_port'' = Some (JNumber NotANumber)"
    using follow_undefined [of ?st] ok by (simp add: immediate_state_def)
  finally have a: "activateReceiver env (ca_interface api) ?r ?st h = None \<longleftrightarrow> transport_session (cs_transportFile st) \<noteq> None \<and>
      map_find (cs_transportParams st) ''destination_port'' = Some (JNumber NotANumber)" .
  have n: "transport_session [] = None" by (simp add: transport_session_def)
  show ?thesis
    by (auto simp: patchStagedReceiver_def assms(1) Inr sa Let_def a n kActivateImmediate_def split: option.split prod.split bool.split)
      (use a in auto)
qed

definition nan_body :: string where
  "nan_body = ''{'' @ quoted ''transport_params'' @ '':[{'' @ quoted ''destination_port'' @ '':NAN}],'' @ quoted ''activation'' @ '':{'' @
     quoted ''mode'' @ '':'' @ quoted ''activate_immediate'' @ ''}}''"

definition stage_receiver :: conn_receiver where
  "stage_receiver = (fresh_receiver ''rx1'')\<lparr>cr_staged := conn_default\<lparr>cs_transportFile := generate 5 stage_session\<rparr>\<rparr>"

theorem patch_undefined_exact_witness:
  "patchStagedReceiver \<lparr>onReceiver = None, onSender = None, env_tai = tai_zero, env_time = 0\<rparr> ''rx1'' nan_body
     (one_receiver\<lparr>ca_receivers := [(''rx1'', stage_receiver)]\<rparr>) () = None"
proof -
  let ?env = "\<lparr>onReceiver = None, onSender = None, env_tai = tai_zero, env_time = 0\<rparr> :: unit api_env"
  let ?st = "conn_default\<lparr>cs_transportFile := generate 5 stage_session\<rparr>"
  have p: "patch_object False nan_body = Inr (JObject [(''activation'', JObject [(''mode'', JString ''activate_immediate'')]),
      (''transport_params'', JArray [JObject [(''destination_port'', JNumber NotANumber)]])])" by code_simp
  have s: "staged_receiver tai_zero nan_body ?st = Inr (?st\<lparr>cs_transportParams := [(''destination_port'', JNumber NotANumber)]\<rparr>,
      ar_none\<lparr>ar_mode := kActivateImmediate\<rparr>)"
    by (simp add: staged_receiver_def p and_then_def stage_enable_def stage_sender_id_def stage_file_def stage_params_def bad_def
        applyTransportParams_def has_def member_of_def param_error_def isKnownTransportParam_def outside_ports_def override_def
        readActivation_def kActivateImmediate_def conn_default_def Let_def)
  have w: "wf_sdp stage_session" by code_simp
  have e: "parseString [] = None" by code_simp
  have t: "transport_session (generate 5 stage_session) \<noteq> None" using wire_parse [OF w, of 5] e by (auto simp: transport_session_def)
  have o': "map_find (ca_receivers (one_receiver\<lparr>ca_receivers := [(''rx1'', stage_receiver)]\<rparr>)) ''rx1'' = Some stage_receiver"
    "params_ok (cs_transportParams (cr_staged stage_receiver))"
    by (simp_all add: stage_receiver_def params_ok_def conn_default_def)
  show ?thesis using patch_undefined_exact [OF o', of ?env nan_body "()"] s t by (simp add: stage_receiver_def)
qed

section \<open>Bulk requests\<close>

text \<open>The single requests one after the other, with the status of each.\<close>

fun patch_each ::
  "'h api_env \<Rightarrow> bool \<Rightarrow> (string \<times> string) list \<Rightarrow> connection_api \<Rightarrow> 'h \<Rightarrow> ((string \<times> int) list \<times> connection_api \<times> 'h) option" where
  "patch_each env forSenders [] api h = Some ([], api, h)"
| "patch_each env forSenders ((i, body) # rest) api h =
     (case (if forSenders then patchStagedSender env i body api h else patchStagedReceiver env i body api h) of
        None \<Rightarrow> None
      | Some (one, api', h') \<Rightarrow> map_option (\<lambda>(codes, done). ((i, rsp_status one) # codes, done)) (patch_each env forSenders rest api' h'))"

definition bulk_entry :: "string \<times> json \<Rightarrow> json" where
  "bulk_entry e = JObject [(''id'', JString (fst e)), (''params'', snd e)]"

definition bulk_answer :: "string \<times> int \<Rightarrow> json" where
  "bulk_answer c = json_object [(''id'', JString (fst c)), (''code'', JInt (snd c))]"

lemma bulk_entries_each:
  "bulk_entries env b (map bulk_entry es) answers api h =
     map_option (\<lambda>(codes, done). (jsonResponse 200 (JArray (answers @ map bulk_answer codes)), done))
       (patch_each env b (map (\<lambda>(i, ps). (i, serialise ps)) es) api h)"
proof (induction es arbitrary: answers api h)
  case (Cons e es)
  obtain i ps where e: "e = (i, ps)" by force
  have m: "member_of (bulk_entry e) ''id'' = JString i" "member_of (bulk_entry e) ''params'' = ps" "isObject (bulk_entry e)"
    by (simp_all add: e bulk_entry_def member_of_def)
  define one where "one = (if b then patchStagedSender env i (serialise ps) api h else patchStagedReceiver env i (serialise ps) api h)"
  show ?case
  proof (cases one)
    case None
    then show ?thesis using m by (simp add: e one_def Let_def del: if_split)
  next
    case (Some x)
    obtain rsp api' h' where x: "x = (rsp, api', h')" by (cases x)
    have "bulk_entries env b (map bulk_entry (e # es)) answers api h =
        bulk_entries env b (map bulk_entry es) (answers @ [bulk_answer (i, rsp_status rsp)]) api' h'"
      using m Some by (simp add: e one_def x Let_def bulk_answer_def del: if_split)
    moreover have "patch_each env b (map (\<lambda>(i, ps). (i, serialise ps)) (e # es)) api h =
        map_option (\<lambda>(codes, done). ((i, rsp_status rsp) # codes, done)) (patch_each env b (map (\<lambda>(i, ps). (i, serialise ps)) es) api' h')"
      using Some by (simp add: e one_def x del: if_split)
    ultimately show ?thesis by (simp only: Cons.IH) (simp add: option.map_comp comp_def split_def)
  qed
qed simp



end
