(* ===== verification/Channel_Mapping_Api.thy ===== *)
theory Channel_Mapping_Api
  imports Connection_Requests
begin

text \<open>
  The NMOS IS-08 channel mapping interface: \<open>src/packages/aes67-ravenna/Ravenna/ChannelMappingApi.h\<close> and
  \<open>ChannelMappingApi.cpp\<close>. The interface holds references to the matrix, to the routing that uses the same matrix, and to
  the connection interface, whose receivers it only reads (\<open>conns\<close>). An action is a grid of cells; the result
  is \<open>None\<close> where a channel index is no \<open>int\<close>, which is undefined in C++.
\<close>

section \<open>State\<close>

record pending_grid =
  pg_id :: string
  pg_mode :: string
  pg_requestedTime :: string
  pg_activationTime :: string
  pg_due :: tai_time
  pg_action :: json

record grid_api =
  gs_routing :: routing
  gs_lastActivation :: string
  gs_pending :: "pending_grid list"
  gs_nextId :: u64

definition kChannelMappingApiRoot :: string where "kChannelMappingApiRoot = ''/x-nmos/channelmapping/v1.0''"
definition kDeviceOutputId :: string where "kDeviceOutputId = ''device''"

definition grid_init :: "routing \<Rightarrow> grid_api" where
  "grid_init rt = \<lparr>gs_routing = rt, gs_lastActivation = [], gs_pending = [], gs_nextId = 1\<rparr>"

section \<open>Inputs and outputs\<close>

definition routesOf :: "channel_mapping \<Rightarrow> channel_route list" where
  "routesOf m = (if routes m \<noteq> [] then routes m
     else map (\<lambda>i. \<lparr>streamChannel = of_nat i, deviceChannel = deviceChannelStart m + of_nat i\<rparr>)
            [0..<min (unat (deviceChannelCount m)) (unat (streamChannelCount m))])"

definition unfeed :: "u16 \<Rightarrow> channel_route list \<Rightarrow> channel_route list" where
  "unfeed ch rs = filter (\<lambda>route. deviceChannel route \<noteq> ch) rs"

definition channelLabels :: "u16 \<Rightarrow> string \<Rightarrow> json" where
  "channelLabels count prefix =
     JArray (map (\<lambda>i. JObject [(''label'', JString (prefix @ '' '' @ decimal (i + 1)))]) [0..<unat count])"

definition hasInput :: "connection_api \<Rightarrow> string \<Rightarrow> bool" where
  "hasInput conns i = (i \<in> set (receiverIds conns))"

definition inputProperties :: "connection_api \<Rightarrow> routing \<Rightarrow> string \<Rightarrow> json" where
  "inputProperties conns rt i =
     (let mapping = rr_mappingFor i rt;
          own = (case ca_receiver i conns of Some r \<Rightarrow> if cr_label r \<noteq> [] then cr_label r else i | None \<Rightarrow> i);
          name = (case mapping of Some m \<Rightarrow> if streamName m \<noteq> [] then streamName m else own | None \<Rightarrow> own)
      in json_object [(''name'', JString name),
           (''description'', JString (if mapping \<noteq> None then ''the stream receiver '' @ i @ '' took''
                                      else ''receiver '' @ i @ '', taking nothing yet''))])"

definition inputChannels :: "routing \<Rightarrow> string \<Rightarrow> json" where
  "inputChannels rt i =
     (let usable = of_nat (getUsableChannelCount (rr_mapper rt)) in
      channelLabels (case rr_mappingFor i rt of
          Some m \<Rightarrow> if streamChannelCount m > 0 then streamChannelCount m else usable | None \<Rightarrow> usable) ''Channel'')"

definition inputParent :: "routing \<Rightarrow> string \<Rightarrow> json" where
  "inputParent rt i = (if rr_mappingFor i rt = None then json_object [(''type'', JNull), (''id'', JNull)]
     else json_object [(''type'', JString ''receiver''), (''id'', JString i)])"

definition inputCaps :: json where
  "inputCaps = json_object [(''block_size'', JInt 1), (''reordering'', JBool True)]"

definition outputProperties :: json where
  "outputProperties = json_object [(''name'', JString ''Device channels''),
     (''description'', JString ''the channels this device carries'')]"

definition outputChannels :: "routing \<Rightarrow> json" where
  "outputChannels rt = channelLabels (of_nat (getUsableChannelCount (rr_mapper rt))) ''Device''"

definition outputCaps :: json where
  "outputCaps = json_object [(''routable_inputs'', JNull)]"

definition outputSourceId :: json where
  "outputSourceId = JNull"

definition describeIo :: "connection_api \<Rightarrow> routing \<Rightarrow> api_response" where
  "describeIo conns rt =
     (let inputs = json_object (map (\<lambda>i. (i, json_object
            [(''properties'', inputProperties conns rt i), (''parent'', inputParent rt i),
             (''channels'', inputChannels rt i), (''caps'', inputCaps)])) (receiverIds conns));
          outputs = json_object [(kDeviceOutputId, json_object
            [(''properties'', outputProperties), (''source_id'', outputSourceId),
             (''channels'', outputChannels rt), (''caps'', outputCaps)])]
      in jsonResponse 200 (json_object [(''inputs'', inputs), (''outputs'', outputs)]))"

section \<open>The active map\<close>

definition routes_shown :: "routing \<Rightarrow> string \<Rightarrow> channel_route list" where
  "routes_shown rt i = (case rr_mappingFor i rt of Some m \<Rightarrow> routesOf m | None \<Rightarrow> rememberedRoutes i rt)"

text \<open>\<open>feeding\<close>: the input and the channel of it that each device channel shows.\<close>

definition feed_routes :: "string \<Rightarrow> channel_route list \<Rightarrow> (int, string \<times> int) stdmap \<Rightarrow> (int, string \<times> int) stdmap" where
  "feed_routes i rs m = fold (\<lambda>route. map_put (uint (deviceChannel route)) (i, uint (streamChannel route))) rs m"

definition feeding :: "connection_api \<Rightarrow> routing \<Rightarrow> (int, string \<times> int) stdmap" where
  "feeding conns rt = fold (\<lambda>i. feed_routes i (routes_shown rt i)) (receiverIds conns) []"

definition map_cell :: "(string \<times> int) option \<Rightarrow> json" where
  "map_cell fed = (case fed of
       None \<Rightarrow> json_object [(''input'', JNull), (''channel_index'', JNull)]
     | Some (i, ch) \<Rightarrow> json_object [(''input'', JString i), (''channel_index'', JInt ch)])"

definition activeMap :: "connection_api \<Rightarrow> routing \<Rightarrow> string \<Rightarrow> api_response" where
  "activeMap conns rt lastActivation =
     (let fed = feeding conns rt;
          cells = json_object (map (\<lambda>ch. (decimal ch, map_cell (map_find fed (int ch)))) [0..<getUsableChannelCount (rr_mapper rt)]);
          activation = json_object
            [(''mode'', if lastActivation = [] then JNull else JString ''activate_immediate''),
             (''requested_time'', JNull), (''activation_time'', text_or_null lastActivation)]
      in jsonResponse 200 (json_object [(''map'', json_object [(kDeviceOutputId, cells)]), (''activation'', activation)]))"

section \<open>Applying an action\<close>

type_synonym grid_work = "(string, channel_mapping) stdmap \<times> (string, channel_route list) stdmap"

text \<open>The grids the action starts from: of every input that carries something, and of every other one.\<close>

definition grid_start :: "connection_api \<Rightarrow> routing \<Rightarrow> grid_work" where
  "grid_start conns rt = fold (\<lambda>i (updated, waiting).
     (case rr_mappingFor i rt of
        Some m \<Rightarrow> (map_put i (m\<lparr>routes := routesOf m\<rparr>) updated, waiting)
      | None \<Rightarrow> (updated, map_put i (rememberedRoutes i rt) waiting))) (receiverIds conns) ([], [])"

definition output_error :: "string \<times> json \<Rightarrow> (int \<times> string) option" where
  "output_error oc = (if fst oc \<noteq> kDeviceOutputId then Some (404, ''this device has one output block, called '' @ kDeviceOutputId)
     else if \<not> isObject (snd oc) then Some (400, ''an output'' @ [CHR 0x27] @ ''s action has to be an object'')
     else None)"

fun first_refusal :: "('a \<Rightarrow> (int \<times> string) option) \<Rightarrow> 'a list \<Rightarrow> (int \<times> string) option" where
  "first_refusal f [] = None"
| "first_refusal f (x # xs) = (case f x of Some e \<Rightarrow> Some e | None \<Rightarrow> first_refusal f xs)"

text \<open>\<open>static_cast<int>(double)\<close>\<close>

definition cast_int :: "double_val \<Rightarrow> int option" where
  "cast_int d = (case d of
       Finite x \<Rightarrow> (let n = (if x < 0 then \<lceil>x\<rceil> else \<lfloor>x\<rfloor>) in if - (2 ^ 31) \<le> n \<and> n < 2 ^ 31 then Some n else None)
     | _ \<Rightarrow> None)"

definition unfeed_all :: "u16 \<Rightarrow> grid_work \<Rightarrow> grid_work" where
  "unfeed_all ch w = (map (\<lambda>(i, m). (i, m\<lparr>routes := unfeed ch (routes m)\<rparr>)) (fst w), map (\<lambda>(i, rs). (i, unfeed ch rs)) (snd w))"

definition push_route :: "string \<Rightarrow> channel_route \<Rightarrow> grid_work \<Rightarrow> grid_work" where
  "push_route i route w = (case map_find (fst w) i of
       Some m \<Rightarrow> (map_put i (m\<lparr>routes := routes m @ [route]\<rparr>) (fst w), snd w)
     | None \<Rightarrow> (case map_find (snd w) i of
           Some rs \<Rightarrow> (fst w, map_put i (rs @ [route]) (snd w))
         | None \<Rightarrow> w))"

definition input_width :: "nat \<Rightarrow> grid_work \<Rightarrow> string \<Rightarrow> int" where
  "input_width usable w i = (case map_find (fst w) i of Some m \<Rightarrow> uint (streamChannelCount m) | None \<Rightarrow> int usable)"

definition grid_cell :: "nat \<Rightarrow> string \<times> json \<Rightarrow> grid_work \<Rightarrow> ((int \<times> string) + grid_work) option" where
  "grid_cell usable cell w = (case cell of (channelText, c) \<Rightarrow>
     (case stoi channelText of
        Inl e \<Rightarrow> Some (Inl (400, ''output channel '' @ [CHR 0x22] @ channelText @ [CHR 0x22] @ '' is not a number''))
      | Inr deviceCh \<Rightarrow>
          if deviceCh < 0 \<or> deviceCh \<ge> int usable
          then Some (Inl (400, ''output channel '' @ channelText @ '' is not on this device''))
          else if \<not> isObject c then Some (Inl (400, ''a cell has to be an object''))
          else (let w1 = unfeed_all (of_int deviceCh) w; input = member_of c ''input'' in
            if isNull input then Some (Inr w1)
            else if \<not> isString input then Some (Inl (400, ''a cell'' @ [CHR 0x27] @ ''s input has to be a string''))
            else (let i = asString input in
              if map_find (fst w1) i = None \<and> map_find (snd w1) i = None
              then Some (Inl (404, ''no input called '' @ i @ ''; io/ lists the ones there are''))
              else (let index = member_of c ''channel_index'' in
                if \<not> isNumber index then Some (Inl (400, ''a cell that names an input needs a channel_index''))
                else (case cast_int (asNumber index) of
                    None \<Rightarrow> None
                  | Some ch \<Rightarrow>
                      if ch < 0 \<or> ch \<ge> input_width usable w1 i
                      then Some (Inl (400, ''input '' @ i @ '' has no channel '' @ decimal_int ch))
                      else Some (Inr (push_route i \<lparr>streamChannel = of_int ch, deviceChannel = of_int deviceCh\<rparr> w1))))))))"

fun grid_cells :: "nat \<Rightarrow> (string \<times> json) list \<Rightarrow> grid_work \<Rightarrow> ((int \<times> string) + grid_work) option" where
  "grid_cells usable [] w = Some (Inr w)"
| "grid_cells usable (cell # cells) w = (case grid_cell usable cell w of
       None \<Rightarrow> None
     | Some (Inl e) \<Rightarrow> Some (Inl e)
     | Some (Inr w') \<Rightarrow> grid_cells usable cells w')"

fun install :: "(string \<times> channel_mapping) list \<Rightarrow> mapper \<Rightarrow> string + mapper" where
  "install [] mp = Inr mp"
| "install ((i, m) # ms) mp =
     (if \<not> validateMapping m then Inl (getValidationError m)
      else (case addMapping m mp of (mp', False) \<Rightarrow> Inl [] | (mp', True) \<Rightarrow> install ms mp'))"

definition restore :: "mapper \<Rightarrow> mapper \<Rightarrow> mapper" where
  "restore before mp = add_all (getAllMappings before) (clearAll mp)"

definition remember_all :: "(string \<times> channel_route list) list \<Rightarrow> routing \<Rightarrow> routing" where
  "remember_all waiting rt = fold (\<lambda>(i, rs). rememberRoutes i rs) waiting rt"

text \<open>
  What the matrix holds when \<open>install\<close> stops at a refused mapping does not matter: it is cleared before the
  old mappings are put back, and only the number of usable channels survives.
\<close>

definition applyAction :: "connection_api \<Rightarrow> tai_time \<Rightarrow> json \<Rightarrow> bool \<Rightarrow> grid_api \<Rightarrow> (api_response \<times> grid_api) option" where
  "applyAction conns now action commit gs =
     (let rt = gs_routing gs; mp = rr_mapper rt; usable = getUsableChannelCount mp in
      if \<not> isObject action then Some (errorResponse 400 ''action has to be an object'', gs)
      else (case first_refusal output_error (asObject action) of
          Some (st, why) \<Rightarrow> Some (errorResponse st why, gs)
        | None \<Rightarrow> (case grid_cells usable (asObject (member_of action kDeviceOutputId)) (grid_start conns rt) of
              None \<Rightarrow> None
            | Some (Inl (st, why)) \<Rightarrow> Some (errorResponse st why, gs)
            | Some (Inr (updated, waiting)) \<Rightarrow>
                (case install updated (clearAll mp) of
                   Inl why \<Rightarrow> Some (errorResponse 400 (''the matrix refused the grid: '' @ (if why = [] then ''it overlaps itself'' else why)),
                                gs\<lparr>gs_routing := rt\<lparr>rr_mapper := restore mp mp\<rparr>\<rparr>)
                 | Inr mp' \<Rightarrow>
                     if \<not> commit
                     then (let rt' = rt\<lparr>rr_mapper := restore mp mp'\<rparr> in
                           Some (activeMap conns rt' (gs_lastActivation gs), gs\<lparr>gs_routing := rt'\<rparr>))
                     else (let rt' = remember_all waiting (rt\<lparr>rr_mapper := mp'\<rparr>); last = taiText now in
                           Some (activeMap conns rt' last, gs\<lparr>gs_routing := rt', gs_lastActivation := last\<rparr>))))))"

section \<open>Activations\<close>

definition activationEnvelope :: "pending_grid \<Rightarrow> json" where
  "activationEnvelope a = json_object
     [(''activation'', json_object [(''mode'', JString (pg_mode a)), (''requested_time'', text_or_null (pg_requestedTime a)),
        (''activation_time'', text_or_null (pg_activationTime a))]),
      (''action'', pg_action a)]"

fun due_grids :: "connection_api \<Rightarrow> tai_time \<Rightarrow> pending_grid list \<Rightarrow> grid_api \<Rightarrow> (pending_grid list \<times> grid_api) option" where
  "due_grids conns now [] gs = Some ([], gs)"
| "due_grids conns now (a # as) gs =
     (if \<not> taiReached (pg_due a) now
      then map_option (\<lambda>(left, gs'). (a # left, gs')) (due_grids conns now as gs)
      else (case applyAction conns now (pg_action a) True gs of
          None \<Rightarrow> None
        | Some (rsp, gs') \<Rightarrow> due_grids conns now as gs'))"

definition gs_applyDueActivations :: "connection_api \<Rightarrow> tai_time \<Rightarrow> grid_api \<Rightarrow> grid_api option" where
  "gs_applyDueActivations conns now gs = map_option (\<lambda>(left, gs'). gs'\<lparr>gs_pending := left\<rparr>) (due_grids conns now (gs_pending gs) gs)"

definition ok_status :: "api_response \<Rightarrow> bool" where
  "ok_status rsp = (\<not> (rsp_status rsp < 200 \<or> rsp_status rsp > 299))"

definition postActivation :: "connection_api \<Rightarrow> tai_time \<Rightarrow> string \<Rightarrow> grid_api \<Rightarrow> (api_response \<times> grid_api) option" where
  "postActivation conns now body gs =
     (let same = (\<lambda>response. Some (response, gs)) in
      case parseJson body of
        Inl e \<Rightarrow> same (errorResponse 400 (''the body is not JSON: '' @ e))
      | Inr request \<Rightarrow>
          if \<not> isObject request then same (errorResponse 400 ''the body has to be an object'')
          else (let activation = member_of request ''activation''; mode = member_of activation ''mode''; wanted = asString mode in
            if \<not> isObject activation then same (errorResponse 400 ''activation has to be an object'')
            else if \<not> isString mode then same (errorResponse 400 ''activation.mode has to be a string'')
            else if wanted \<notin> {kActivateImmediate, kActivateRelative, kActivateAbsolute}
            then same (errorResponse 400 (''no activation mode called '' @ wanted))
            else if gs_pending gs \<noteq> [] then same (errorResponse 423 ''an activation is already waiting; delete it first'')
            else (let queued = \<lparr>pg_id = decimal (unat (gs_nextId gs)), pg_mode = wanted, pg_requestedTime = [], pg_activationTime = [],
                        pg_due = \<lparr>tai_seconds = 0, tai_nanos = 0\<rparr>, pg_action = member_of request ''action''\<rparr>;
                      gs1 = gs\<lparr>gs_nextId := gs_nextId gs + 1\<rparr> in
              if wanted = kActivateImmediate
              then (case applyAction conns now (pg_action queued) True gs1 of
                  None \<Rightarrow> None
                | Some (applied, gs2) \<Rightarrow>
                    if \<not> ok_status applied then Some (applied, gs2)
                    else Some (jsonResponse 200 (json_object [(pg_id queued,
                           activationEnvelope (queued\<lparr>pg_activationTime := gs_lastActivation gs2\<rparr>))]), gs2))
              else (let requested = member_of activation ''requested_time'' in
                if \<not> isString requested then Some (errorResponse 400 (wanted @ '' needs a requested_time of '' @ quoted_time), gs1)
                else (case parseTai (asString requested) of
                    None \<Rightarrow> Some (errorResponse 400 (''requested_time is not '' @ quoted_time @ '': '' @ asString requested), gs1)
                  | Some asked \<Rightarrow>
                      (let moment = (if wanted = kActivateRelative then taiSum now asked else asked);
                           promised = queued\<lparr>pg_requestedTime := asString requested, pg_due := moment, pg_activationTime := taiText moment\<rparr> in
                       case applyAction conns now (pg_action queued) False gs1 of
                         None \<Rightarrow> None
                       | Some (dryRun, gs2) \<Rightarrow>
                           if \<not> ok_status dryRun then Some (dryRun, gs2)
                           else Some (jsonResponse 202 (json_object [(pg_id promised, activationEnvelope promised)]),
                                      gs2\<lparr>gs_pending := gs_pending gs2 @ [promised]\<rparr>)))))))"

section \<open>Requests\<close>

definition port_leaf :: "connection_api \<Rightarrow> routing \<Rightarrow> bool \<Rightarrow> string \<Rightarrow> string \<Rightarrow> api_response" where
  "port_leaf conns rt forInputs i leaf =
     (if leaf = ''properties'' then jsonResponse 200 (if forInputs then inputProperties conns rt i else outputProperties)
      else if leaf = ''channels'' then jsonResponse 200 (if forInputs then inputChannels rt i else outputChannels rt)
      else if leaf = ''caps'' then jsonResponse 200 (if forInputs then inputCaps else outputCaps)
      else if forInputs \<and> leaf = ''parent'' then jsonResponse 200 (inputParent rt i)
      else if \<not> forInputs \<and> leaf = ''sourceid'' then jsonResponse 200 outputSourceId
      else errorResponse 404 ''no such resource'')"

definition describe_ports :: "connection_api \<Rightarrow> routing \<Rightarrow> string \<Rightarrow> bool \<Rightarrow> string list \<Rightarrow> api_response" where
  "describe_ports conns rt verb forInputs segments =
     (if verb \<noteq> ''GET'' then errorResponse 405 ''only GET here''
      else (case segments of
          [] \<Rightarrow> listResponse (if forInputs then map (\<lambda>i. i @ ''/'') (receiverIds conns) else [kDeviceOutputId @ ''/''])
        | i # leaves \<Rightarrow>
            if (if forInputs then \<not> hasInput conns i else i \<noteq> kDeviceOutputId)
            then errorResponse 404 (''no '' @ (if forInputs then ''input'' else ''output'') @ '' called '' @ i)
            else (case leaves of
                [] \<Rightarrow> listResponse [''caps/'', ''channels/'', if forInputs then ''parent/'' else ''sourceid/'', ''properties/'']
              | leaf # _ \<Rightarrow> port_leaf conns rt forInputs i leaf)))"

definition one_activation :: "string \<Rightarrow> string \<Rightarrow> grid_api \<Rightarrow> api_response \<times> grid_api" where
  "one_activation verb i gs = (case find (\<lambda>a. pg_id a = i) (gs_pending gs) of
       None \<Rightarrow> (errorResponse 404 (''no activation called '' @ i), gs)
     | Some a \<Rightarrow>
         if verb = ''GET'' then (jsonResponse 200 (activationEnvelope a), gs)
         else if verb = ''DELETE''
         then (\<lparr>rsp_status = 204, rsp_contentType = [], rsp_body = []\<rparr>,
               gs\<lparr>gs_pending := erase_first (\<lambda>a. pg_id a = i) (gs_pending gs)\<rparr>)
         else (errorResponse 405 ''GET or DELETE here'', gs))"

definition handle_map ::
  "connection_api \<Rightarrow> tai_time \<Rightarrow> string \<Rightarrow> string list \<Rightarrow> string \<Rightarrow> grid_api \<Rightarrow> (api_response \<times> grid_api) option" where
  "handle_map conns now verb segments body gs =
     (let same = (\<lambda>response. Some (response, gs)) in
      case segments of
        [] \<Rightarrow> if verb \<noteq> ''GET'' then same (errorResponse 405 ''only GET here'') else same (listResponse [''activations/'', ''active/''])
      | s # rest \<Rightarrow>
          if s = ''active'' then
            (if verb \<noteq> ''GET'' then same (errorResponse 405 ''only GET here'')
             else same (activeMap conns (gs_routing gs) (gs_lastActivation gs)))
          else if s = ''activations'' then
            (case rest of
               [] \<Rightarrow> if verb = ''POST'' then postActivation conns now body gs
                     else if verb \<noteq> ''GET'' then same (errorResponse 405 ''GET or POST here'')
                     else same (jsonResponse 200 (json_object (map (\<lambda>a. (pg_id a, activationEnvelope a)) (gs_pending gs))))
             | i # _ \<Rightarrow> Some (one_activation verb i gs))
          else same (errorResponse 404 ''no such resource''))"

definition grid_segments ::
  "connection_api \<Rightarrow> tai_time \<Rightarrow> string \<Rightarrow> string list \<Rightarrow> string \<Rightarrow> grid_api \<Rightarrow> (api_response \<times> grid_api) option" where
  "grid_segments conns now verb segments body gs =
     (let same = (\<lambda>response. Some (response, gs)); rt = gs_routing gs in
      case segments of
        [] \<Rightarrow> if verb \<noteq> ''GET'' then same (errorResponse 405 ''only GET here'')
              else same (listResponse [''inputs/'', ''io/'', ''map/'', ''outputs/''])
      | s # rest \<Rightarrow>
          if s = ''io'' then (if verb \<noteq> ''GET'' then same (errorResponse 405 ''only GET here'') else same (describeIo conns rt))
          else if s = ''inputs'' \<or> s = ''outputs'' then same (describe_ports conns rt verb (s = ''inputs'') rest)
          else if s \<noteq> ''map'' then same (errorResponse 404 ''no such resource'')
          else handle_map conns now verb rest body gs)"

definition gs_handle ::
  "connection_api \<Rightarrow> tai_time \<Rightarrow> string \<Rightarrow> string \<Rightarrow> string \<Rightarrow> grid_api \<Rightarrow> (api_response \<times> grid_api) option" where
  "gs_handle conns now verb path body gs =
     (case gs_applyDueActivations conns now gs of
        None \<Rightarrow> None
      | Some gs1 \<Rightarrow>
          if take (length kChannelMappingApiRoot) path \<noteq> kChannelMappingApiRoot
          then Some (errorResponse 404 (''this device serves '' @ kChannelMappingApiRoot), gs1)
          else grid_segments conns now verb (segmentsOf (drop (length kChannelMappingApiRoot) path)) body gs1)"

end
