(* ===== verification/Grid_Requests.thy ===== *)
theory Grid_Requests
  imports Channel_Mapping_Api
begin

text \<open>
  What a grid activation does: a refused one and a dry run change nothing, a committed one changes the active map cell by
  cell as asked, and both interfaces together keep the channel matrix exact.
\<close>

section \<open>Installing the mappings\<close>

lemma install_mappings:
  "install ms mp = Inr mp' \<Longrightarrow>
   mappings mp' = fold (\<lambda>(i, m). map_put (streamID m) m) ms (mappings mp) \<and> usableChannelCount mp' = usableChannelCount mp"
proof (induction ms arbitrary: mp)
  case (Cons im ms)
  obtain i m where im: "im = (i, m)" by force
  show ?case using Cons by (auto simp: im addMapping_def split: if_splits)
qed simp

lemma install_exact:
  "install ms mp = Inr mp' \<Longrightarrow> mapper_exact mp \<Longrightarrow> \<forall>im\<in>set ms. valid_id (streamID (snd im)) \<and> map_find (mappings mp) (streamID (snd im)) = None \<Longrightarrow>
   distinct (map (\<lambda>im. streamID (snd im)) ms) \<Longrightarrow> mapper_exact mp'"
proof (induction ms arbitrary: mp)
  case (Cons im ms)
  obtain i m where im: "im = (i, m)" by force
  have a: "addMapping m mp = (put_mapping m mp, True)" "install ms (put_mapping m mp) = Inr mp'"
    using Cons.prems(1) by (auto simp: im addMapping_def split: if_splits)
  have e: "mapper_exact (put_mapping m mp)"
    using addMapping_exact [of mp m] Cons.prems(2,3) a(1) by (simp add: im getMapping_def)
  have "streamID (snd x) \<noteq> streamID m" if "x \<in> set ms" for x using that Cons.prems(4) im by force
  then show ?case using Cons.prems(3,4) by (intro Cons.IH [OF a(2) e]) (simp_all add: im)
qed simp

lemma find_fold_ids:
  "distinct (map (\<lambda>im. streamID (snd im)) ms) \<Longrightarrow>
   map_find (fold (\<lambda>(i, m). map_put (streamID m) m) ms m0) k =
     (case find (\<lambda>im. streamID (snd im) = k) ms of Some im \<Rightarrow> Some (snd im) | None \<Rightarrow> map_find m0 k)"
proof (induction ms arbitrary: m0)
  case (Cons im ms)
  have "streamID (snd im) \<notin> (\<lambda>im. streamID (snd im)) ` set ms" using Cons.prems by simp
  then have "streamID (snd x) \<noteq> streamID (snd im)" if "x \<in> set ms" for x using that by (metis imageI)
  then have "find (\<lambda>x. streamID (snd x) = streamID (snd im)) ms = None" by (auto simp: find_None_iff)
  then show ?case using Cons by (auto simp: split_def split: option.split)
qed simp

section \<open>The working grids\<close>

text \<open>
  The working grids are about the receivers of the interface: every one has a grid, those that carry something
  with the mapping they had, up to the routes.
\<close>

definition entry_work :: "connection_api \<Rightarrow> routing \<Rightarrow> string \<Rightarrow> channel_mapping option \<Rightarrow> channel_route list option \<Rightarrow> bool" where
  "entry_work conns rt i a b \<longleftrightarrow> (case a of
       Some m \<Rightarrow> i \<in> set (receiverIds conns) \<and> b = None \<and> (\<exists>m0. rr_mappingFor i rt = Some m0 \<and> m\<lparr>routes := []\<rparr> = m0\<lparr>routes := []\<rparr>)
     | None \<Rightarrow> (if b = None then i \<notin> set (receiverIds conns) else i \<in> set (receiverIds conns) \<and> rr_mappingFor i rt = None))"

definition work_ok :: "connection_api \<Rightarrow> routing \<Rightarrow> grid_work \<Rightarrow> bool" where
  "work_ok conns rt w \<longleftrightarrow> sorted_map (fst w) \<and> sorted_map (snd w) \<and>
     (\<forall>i. entry_work conns rt i (map_find (fst w) i) (map_find (snd w) i))"

lemma work_okD:
  assumes "work_ok conns rt w"
  shows "sorted_map (fst w)" "sorted_map (snd w)" "entry_work conns rt i (map_find (fst w) i) (map_find (snd w) i)"
  using assms by (auto simp: work_ok_def)

lemma entry_work_routes [simp]:
  "entry_work conns rt i (map_option (\<lambda>m. m\<lparr>routes := f m\<rparr>) a) (map_option g b) = entry_work conns rt i a b"
  by (auto simp: entry_work_def split: option.split)

lemma entry_work_some [simp]:
  "entry_work conns rt i (Some (m\<lparr>routes := rs\<rparr>)) b = entry_work conns rt i (Some m) b"
  "entry_work conns rt i None (Some rs) \<longleftrightarrow> i \<in> set (receiverIds conns) \<and> rr_mappingFor i rt = None"
  by (auto simp: entry_work_def)

definition work_routes :: "grid_work \<Rightarrow> string \<Rightarrow> channel_route list" where
  "work_routes w i = (case map_find (fst w) i of Some m \<Rightarrow> routes m | None \<Rightarrow> (case map_find (snd w) i of Some rs \<Rightarrow> rs | None \<Rightarrow> []))"

lemma unfeed_find:
  "map_find (fst (unfeed_all ch w)) i = map_option (\<lambda>m. m\<lparr>routes := unfeed ch (routes m)\<rparr>) (map_find (fst w) i)"
  "map_find (snd (unfeed_all ch w)) i = map_option (unfeed ch) (map_find (snd w) i)"
  by (simp_all add: unfeed_all_def map_find_map)

lemma unfeed_ok: "work_ok conns rt w \<Longrightarrow> work_ok conns rt (unfeed_all ch w)"
  by (auto simp: work_ok_def unfeed_find) (simp_all add: unfeed_all_def sorted_map_map)

lemma push_ok:
  assumes "work_ok conns rt w"
  shows "work_ok conns rt (push_route i route w)"
proof -
  note D = work_okD [OF assms]
  have "entry_work conns rt j (map_find (fst (push_route i route w)) j) (map_find (snd (push_route i route w)) j)" for j
    using D(3) [of j] by (auto simp: push_route_def split: option.split)
  then show ?thesis using D(1,2) by (auto simp: work_ok_def push_route_def sorted_map_put split: option.splits)
qed

lemma unfeed_routes: "work_routes (unfeed_all ch w) i = unfeed ch (work_routes w i)"
  by (simp add: work_routes_def unfeed_find unfeed_def split: option.split)

lemma push_routes:
  assumes "map_find (fst w) i \<noteq> None \<or> map_find (snd w) i \<noteq> None"
  shows "work_routes (push_route i route w) j = (if j = i then work_routes w i @ [route] else work_routes w j)"
  using assms by (auto simp: work_routes_def push_route_def split: option.splits)

definition start_entry :: "routing \<Rightarrow> string \<Rightarrow> grid_work \<Rightarrow> grid_work" where
  "start_entry rt i w = (case rr_mappingFor i rt of
     Some m \<Rightarrow> (map_put i (m\<lparr>routes := routesOf m\<rparr>) (fst w), snd w)
   | None \<Rightarrow> (fst w, map_put i (rememberedRoutes i rt) (snd w)))"

lemma grid_start_fold: "grid_start conns rt = fold (start_entry rt) (receiverIds conns) ([], [])"
  by (auto simp: grid_start_def start_entry_def fun_eq_iff intro!: fold_cong split: option.split)

lemma start_find:
  "map_find (fst (fold (start_entry rt) ids w)) i =
     (if i \<in> set ids \<and> rr_mappingFor i rt \<noteq> None then map_option (\<lambda>m. m\<lparr>routes := routesOf m\<rparr>) (rr_mappingFor i rt) else map_find (fst w) i)"
  "map_find (snd (fold (start_entry rt) ids w)) i =
     (if i \<in> set ids \<and> rr_mappingFor i rt = None then Some (rememberedRoutes i rt) else map_find (snd w) i)"
  by (induction ids arbitrary: w) (auto simp: start_entry_def split: option.split)

lemma start_sorted: "sorted_map (fst w) \<and> sorted_map (snd w) \<Longrightarrow>
   sorted_map (fst (fold (start_entry rt) ids w)) \<and> sorted_map (snd (fold (start_entry rt) ids w))"
  by (induction ids arbitrary: w) (auto simp: start_entry_def sorted_map_put split: option.split)

lemma start_ok: "work_ok conns rt (grid_start conns rt)"
  unfolding work_ok_def grid_start_fold using start_sorted [of "([], [])"]
  by (auto simp: start_find entry_work_def split: option.splits)

lemma start_routes: "i \<in> set (receiverIds conns) \<Longrightarrow> work_routes (grid_start conns rt) i = routes_shown rt i"
  unfolding grid_start_fold by (auto simp: work_routes_def start_find routes_shown_def split: option.split)

section \<open>What the map shows\<close>

text \<open>The stream channel that the last route to a device channel names.\<close>

definition last_route :: "channel_route list \<Rightarrow> int \<Rightarrow> int option" where
  "last_route rs ch = map_option (\<lambda>route. uint (streamChannel route)) (find (\<lambda>route. uint (deviceChannel route) = ch) (rev rs))"

fun fed :: "(string \<Rightarrow> channel_route list) \<Rightarrow> string list \<Rightarrow> int \<Rightarrow> (string \<times> int) option \<Rightarrow> (string \<times> int) option" where
  "fed f [] ch acc = acc"
| "fed f (i # is) ch acc = fed f is ch (case last_route (f i) ch of Some k \<Rightarrow> Some (i, k) | None \<Rightarrow> acc)"

lemma find_append: "find P (xs @ ys) = (case find P xs of Some x \<Rightarrow> Some x | None \<Rightarrow> find P ys)"
  by (induction xs) auto

lemma last_route_simps [simp]:
  "last_route [] ch = None"
  "last_route (rs @ [route]) ch = (if uint (deviceChannel route) = ch then Some (uint (streamChannel route)) else last_route rs ch)"
  by (simp_all add: last_route_def)

lemma feed_find: "map_find (feed_routes i rs m) ch = (case last_route rs ch of Some k \<Rightarrow> Some (i, k) | None \<Rightarrow> map_find m ch)"
  by (induction rs rule: rev_induct) (auto simp: feed_routes_def)

lemma feeding_fold: "map_find (fold (\<lambda>i. feed_routes i (f i)) ids m) ch = fed f ids ch (map_find m ch)"
  by (induction ids arbitrary: m) (simp_all add: feed_find)

lemma feeding_fed: "map_find (feeding conns rt) ch = fed (routes_shown rt) (receiverIds conns) ch None"
  by (simp add: feeding_def feeding_fold)

lemma fed_cong: "(\<And>i. i \<in> set ids \<Longrightarrow> last_route (f i) ch = last_route (g i) ch) \<Longrightarrow> fed f ids ch acc = fed g ids ch acc"
  by (induction ids arbitrary: acc) auto

lemma last_route_unfeed: "last_route (unfeed d rs) ch = (if ch = uint d then None else last_route rs ch)"
proof (induction rs rule: rev_induct)
  case (snoc route rs)
  have "uint (deviceChannel route) = uint d \<longleftrightarrow> deviceChannel route = d" by (simp add: word_uint_eq_iff)
  then show ?case using snoc by (auto simp: unfeed_def)
qed (simp add: unfeed_def)

lemma fed_one:
  assumes "\<And>j. j \<in> set ids \<Longrightarrow> last_route (f j) ch = (if j = i then Some k else None)"
  shows "fed f ids ch acc = (if i \<in> set ids then Some (i, k) else acc)"
  using assms by (induction ids arbitrary: acc) auto

lemma fed_none: "(\<And>j. j \<in> set ids \<Longrightarrow> last_route (f j) ch = None) \<Longrightarrow> fed f ids ch acc = acc"
  by (induction ids arbitrary: acc) auto

section \<open>One cell\<close>

text \<open>What a cell asks for, and the grid that a list of cells makes of another one.\<close>

definition cell_channel :: "string \<times> json \<Rightarrow> int" where
  "cell_channel cell = (case stoi (fst cell) of Inr d \<Rightarrow> d | Inl e \<Rightarrow> - 1)"

definition cell_value :: "string \<times> json \<Rightarrow> (string \<times> int) option" where
  "cell_value cell = (if isNull (member_of (snd cell) ''input'') then None
     else Some (asString (member_of (snd cell) ''input''), the (cast_int (asNumber (member_of (snd cell) ''channel_index'')))))"

definition grid_after :: "(string \<times> json) list \<Rightarrow> (int \<Rightarrow> (string \<times> int) option) \<Rightarrow> int \<Rightarrow> (string \<times> int) option" where
  "grid_after cells g = fold (\<lambda>cell g. g(cell_channel cell := cell_value cell)) cells g"

definition work_grid :: "connection_api \<Rightarrow> grid_work \<Rightarrow> int \<Rightarrow> (string \<times> int) option" where
  "work_grid conns w ch = fed (work_routes w) (receiverIds conns) ch None"

lemma uint_u16_of_int: "0 \<le> n \<Longrightarrow> n < 65536 \<Longrightarrow> uint (of_int n :: u16) = n"
  by (simp add: uint_word_of_int take_bit_int_eq_self)

lemma unfeed_grid: "work_grid conns (unfeed_all d w) = (work_grid conns w)(uint d := None)"
proof
  fix ch
  show "work_grid conns (unfeed_all d w) ch = ((work_grid conns w)(uint d := None)) ch"
    unfolding work_grid_def by (auto simp: unfeed_routes last_route_unfeed intro!: fed_cong fed_none)
qed

lemma push_grid:
  assumes "map_find (fst w) i \<noteq> None \<or> map_find (snd w) i \<noteq> None" "i \<in> set (receiverIds conns)"
    and "work_grid conns w = (work_grid conns w0)(uint d := None)" "\<And>j. last_route (work_routes w j) (uint d) = None"
  shows "work_grid conns (push_route i \<lparr>streamChannel = k, deviceChannel = d\<rparr> w) = (work_grid conns w0)(uint d := Some (i, uint k))"
proof
  fix ch
  let ?w = "push_route i \<lparr>streamChannel = k, deviceChannel = d\<rparr> w"
  show "work_grid conns ?w ch = ((work_grid conns w0)(uint d := Some (i, uint k))) ch"
  proof (cases "ch = uint d")
    case True
    have "fed (work_routes ?w) (receiverIds conns) (uint d) None = Some (i, uint k)"
      using fed_one [of "receiverIds conns" "work_routes ?w" "uint d" i "uint k"] assms(2,4) by (simp add: push_routes [OF assms(1)])
    then show ?thesis using True by (simp add: work_grid_def)
  next
    case False
    have "work_grid conns ?w ch = work_grid conns w ch"
      unfolding work_grid_def using False by (intro fed_cong) (simp add: push_routes [OF assms(1)])
    then show ?thesis using False assms(3) by simp
  qed
qed

lemma entry_known: "entry_work conns rt i a b \<Longrightarrow> a \<noteq> None \<or> b \<noteq> None \<Longrightarrow> i \<in> set (receiverIds conns)"
  by (auto simp: entry_work_def split: option.splits if_splits)

lemma cell_step:
  assumes "grid_cell usable cell w = Some (Inr w')" "usable \<le> 128" "work_ok conns rt w"
  shows "work_ok conns rt w' \<and> work_grid conns w' = (work_grid conns w)(cell_channel cell := cell_value cell)"
proof -
  obtain t c where cell: "cell = (t, c)" by force
  obtain d where d: "stoi t = Inr d" "0 \<le> d" "d < int usable"
    using assms(1) by (auto simp: grid_cell_def cell split: sum.splits if_splits)
  have ud: "uint (of_int d :: u16) = d" using d(2,3) assms(2) by (intro uint_u16_of_int) auto
  let ?w = "unfeed_all (of_int d) w"
  have ok: "work_ok conns rt ?w" using unfeed_ok [OF assms(3)] .
  have g: "work_grid conns ?w = (work_grid conns w)(d := None)" using unfeed_grid [of conns "of_int d" w] ud by simp
  show ?thesis
  proof (cases "isNull (member_of c ''input'')")
    case True
    then have "w' = ?w" using assms(1) d by (auto simp: grid_cell_def cell Let_def split: if_splits)
    then show ?thesis using ok g d True by (simp add: cell_channel_def cell_value_def cell)
  next
    case False
    let ?i = "asString (member_of c ''input'')"
    obtain k where k: "cast_int (asNumber (member_of c ''channel_index'')) = Some k" "0 \<le> k" "k < input_width usable ?w ?i"
        and known: "map_find (fst ?w) ?i \<noteq> None \<or> map_find (snd ?w) ?i \<noteq> None"
        and w': "w' = push_route ?i \<lparr>streamChannel = of_int k, deviceChannel = of_int d\<rparr> ?w"
      using assms(1) d False by (auto simp: grid_cell_def cell Let_def split: if_splits option.splits)
    have "input_width usable ?w ?i \<le> 65536"
    proof (cases "map_find (fst ?w) ?i")
      case None
      then show ?thesis using assms(2) by (simp add: input_width_def)
    next
      case (Some m)
      then show ?thesis using uint_lt2p [of "streamChannelCount m"] by (simp add: input_width_def)
    qed
    then have uk: "uint (of_int k :: u16) = k" using k(2,3) by (intro uint_u16_of_int) auto
    have i: "?i \<in> set (receiverIds conns)" using entry_known [OF work_okD(3) [OF ok]] known by blast
    have "work_grid conns w' = (work_grid conns w)(d := Some (?i, k))"
      using push_grid [OF known i, of w "of_int d" "of_int k"] g ud uk w' by (simp add: unfeed_routes last_route_unfeed)
    then show ?thesis using push_ok [OF ok] w' d k False by (simp add: cell_channel_def cell_value_def cell)
  qed
qed

lemma cells_step:
  assumes "usable \<le> 128"
  shows "grid_cells usable cells w = Some (Inr w') \<Longrightarrow> work_ok conns rt w \<Longrightarrow>
    work_ok conns rt w' \<and> work_grid conns w' = grid_after cells (work_grid conns w)"
proof (induction cells arbitrary: w)
  case (Cons cell cells)
  obtain w1 where w1: "grid_cell usable cell w = Some (Inr w1)" "grid_cells usable cells w1 = Some (Inr w')"
    using Cons.prems(1) by (auto split: option.splits sum.splits)
  have "work_ok conns rt w1 \<and> work_grid conns w1 = (work_grid conns w)(cell_channel cell := cell_value cell)"
    by (rule cell_step [OF w1(1) assms Cons.prems(2)])
  then show ?case using Cons.IH [OF w1(2)] by (simp add: grid_after_def fun_upd_def)
qed (simp add: grid_after_def)

section \<open>The matrix after an action\<close>

text \<open>Every receiver that carries something is one the interface knows.\<close>

definition known_receivers :: "connection_api \<Rightarrow> routing \<Rightarrow> bool" where
  "known_receivers conns rt \<longleftrightarrow> set (connectedReceivers rt) \<subseteq> set (receiverIds conns)"

lemma mappingFor_iff:
  assumes "rr_inv rt"
  shows "rr_mappingFor i rt = None \<longleftrightarrow> map_find (rr_streamIdOf rt) i = None"
    "rr_mappingFor i rt = Some m \<Longrightarrow> map_find (rr_streamIdOf rt) i = Some (streamID m) \<and> map_find (mappings (rr_mapper rt)) (streamID m) = Some m"
proof -
  have p: "paired (rr_streamIdOf rt) (mappings (rr_mapper rt))" and inv: "mapper_inv (rr_mapper rt)"
    using assms by (auto simp: rr_inv_def mapper_exact_def)
  show "rr_mappingFor i rt = None \<longleftrightarrow> map_find (rr_streamIdOf rt) i = None"
    using pairedD(1) [OF p] by (cases "map_find (rr_streamIdOf rt) i") (auto simp: rr_mappingFor_def getMapping_def)
  show "map_find (rr_streamIdOf rt) i = Some (streamID m) \<and> map_find (mappings (rr_mapper rt)) (streamID m) = Some m"
    if "rr_mappingFor i rt = Some m"
    using that mapper_invD(4) [OF inv] by (auto simp: rr_mappingFor_def getMapping_def split: bind_splits)
qed

lemma updated_ids:
  assumes "rr_inv rt" "work_ok conns rt w" "(i, m) \<in> set (fst w)"
  shows "map_find (rr_streamIdOf rt) i = Some (streamID m)" "map_find (mappings (rr_mapper rt)) (streamID m) \<noteq> None" "valid_id (streamID m)"
proof -
  have "map_find (fst w) i = Some m" using map_find_iff [OF work_okD(1) [OF assms(2)]] assms(3) by simp
  then obtain m0 where m0: "rr_mappingFor i rt = Some m0" "m\<lparr>routes := []\<rparr> = m0\<lparr>routes := []\<rparr>"
    using work_okD(3) [OF assms(2), of i] by (auto simp: entry_work_def)
  then have "streamID m = streamID m0" by (metis channel_mapping.select_convs(1) channel_mapping.surjective channel_mapping.update_convs(7))
  then show "map_find (rr_streamIdOf rt) i = Some (streamID m)" "map_find (mappings (rr_mapper rt)) (streamID m) \<noteq> None"
    using mappingFor_iff(2) [OF assms(1) m0(1)] by simp_all
  then show "valid_id (streamID m)" using mapping_id_valid assms(1) by (auto simp: rr_inv_def mapper_exact_def)
qed

lemma installed:
  assumes "rr_inv rt" "work_ok conns rt w" "known_receivers conns rt" "install (fst w) (clearAll (rr_mapper rt)) = Inr mp"
  shows "mapper_exact mp" "usableChannelCount mp = usableChannelCount (rr_mapper rt)"
    "map_find (mappings mp) k \<noteq> None \<longleftrightarrow> map_find (mappings (rr_mapper rt)) k \<noteq> None"
    "map_find (fst w) i = Some m \<Longrightarrow> map_find (rr_streamIdOf rt) i = Some (streamID m) \<and> map_find (mappings mp) (streamID m) = Some m"
proof -
  note D = work_okD [OF assms(2)]
  have p: "paired (rr_streamIdOf rt) (mappings (rr_mapper rt))" "mapper_inv (rr_mapper rt)"
    using assms(1) by (auto simp: rr_inv_def mapper_exact_def)
  have keys: "distinct (map fst (fst w))" using D(1) by (simp add: sorted_map_def strict_sorted_iff)
  have same: "x = y" if "x \<in> set (fst w)" "y \<in> set (fst w)" "streamID (snd x) = streamID (snd y)" for x y
  proof -
    have "fst x = fst y"
      using updated_ids(1) [OF assms(1,2), of "fst x" "snd x"] updated_ids(1) [OF assms(1,2), of "fst y" "snd y"] that pairedD(3) [OF p(1)] by simp
    then show ?thesis using keys that(1,2) by (metis eq_key_imp_eq_value prod.collapse)
  qed
  have dist: "distinct (map (\<lambda>im. streamID (snd im)) (fst w))"
    using keys same by (auto simp: distinct_map inj_on_def)
  have all: "\<forall>im\<in>set (fst w). valid_id (streamID (snd im)) \<and> map_find (mappings (clearAll (rr_mapper rt))) (streamID (snd im)) = None"
    using updated_ids(3) [OF assms(1,2)] by (auto simp: clearAll_def)
  show "mapper_exact mp" by (rule install_exact [OF assms(4) clearAll_exact [OF p(2)] all dist])
  show "usableChannelCount mp = usableChannelCount (rr_mapper rt)" using install_mappings [OF assms(4)] by (simp add: clearAll_def)
  have f: "map_find (mappings mp) k = map_option snd (find (\<lambda>im. streamID (snd im) = k) (fst w))" for k
    using install_mappings [OF assms(4)] find_fold_ids [OF dist] by (simp add: clearAll_def split: option.split)
  show "map_find (rr_streamIdOf rt) i = Some (streamID m) \<and> map_find (mappings mp) (streamID m) = Some m" if "map_find (fst w) i = Some m"
  proof -
    have im: "(i, m) \<in> set (fst w)" by (rule map_find_in [OF that])
    then obtain x where x: "find (\<lambda>im. streamID (snd im) = streamID m) (fst w) = Some x"
      by (cases "find (\<lambda>im. streamID (snd im) = streamID m) (fst w)") (auto simp: find_None_iff)
    then have "x \<in> set (fst w)" "streamID (snd x) = streamID m" by (auto simp: find_Some_iff)
    then have "x = (i, m)" using same [OF _ im] by simp
    then show ?thesis using f x updated_ids(1) [OF assms(1,2) im] by simp
  qed
  show "map_find (mappings mp) k \<noteq> None \<longleftrightarrow> map_find (mappings (rr_mapper rt)) k \<noteq> None"
  proof
    assume "map_find (mappings mp) k \<noteq> None"
    then obtain x where "find (\<lambda>im. streamID (snd im) = k) (fst w) = Some x" using f by auto
    then have "x \<in> set (fst w)" "streamID (snd x) = k" by (auto simp: find_Some_iff)
    then show "map_find (mappings (rr_mapper rt)) k \<noteq> None" using updated_ids(2) [OF assms(1,2), of "fst x" "snd x"] by auto
  next
    assume "map_find (mappings (rr_mapper rt)) k \<noteq> None"
    then obtain i where i: "map_find (rr_streamIdOf rt) i = Some k" using pairedD(2) [OF p(1)] by blast
    then have "i \<in> set (receiverIds conns)" using map_find_in assms(3) by (fastforce simp: known_receivers_def connectedReceivers_def)
    moreover have "rr_mappingFor i rt \<noteq> None" using i mappingFor_iff(1) [OF assms(1)] by simp
    ultimately obtain m where m: "map_find (fst w) i = Some m" using D(3) [of i] by (auto simp: entry_work_def split: option.splits if_splits)
    then have "(i, m) \<in> set (fst w)" by (rule map_find_in)
    moreover from this have "streamID m = k" using updated_ids(1) [OF assms(1,2)] i by fastforce
    ultimately have "find (\<lambda>im. streamID (snd im) = k) (fst w) \<noteq> None" by (auto simp: find_None_iff)
    then show "map_find (mappings mp) k \<noteq> None" using f by simp
  qed
qed

lemma remember_fields:
  "rr_mapper (remember_all ws rt) = rr_mapper rt" "rr_streamIdOf (remember_all ws rt) = rr_streamIdOf rt"
  "rr_remembered (remember_all ws rt) = fold (\<lambda>(i, rs). map_put i rs) ws (rr_remembered rt)"
  by (induction ws arbitrary: rt) (auto simp: remember_all_def rememberRoutes_def split_def)

text \<open>The routing after a committed action.\<close>

definition committed :: "grid_work \<Rightarrow> mapper \<Rightarrow> routing \<Rightarrow> routing" where
  "committed w mp rt = remember_all (snd w) (rt\<lparr>rr_mapper := mp\<rparr>)"

lemma committed_inv:
  assumes "rr_inv rt" "work_ok conns rt w" "known_receivers conns rt" "install (fst w) (clearAll (rr_mapper rt)) = Inr mp"
  shows "rr_inv (committed w mp rt)"
proof -
  have "paired (rr_streamIdOf rt) (mappings mp)"
    using assms(1) installed(3) [OF assms] unfolding rr_inv_def paired_def by blast
  then show ?thesis using assms(1) installed(1) [OF assms] by (simp add: rr_inv_def committed_def remember_fields)
qed

lemma committed_shown:
  assumes "rr_inv rt" "work_ok conns rt w" "known_receivers conns rt" "install (fst w) (clearAll (rr_mapper rt)) = Inr mp"
    and "i \<in> set (receiverIds conns)" "rr_mappingFor i rt \<noteq> None \<Longrightarrow> work_routes w i \<noteq> []"
  shows "routes_shown (committed w mp rt) i = work_routes w i"
proof (cases "map_find (fst w) i")
  case (Some m)
  have "rr_mappingFor i (committed w mp rt) = Some m"
    using installed(4) [OF assms(1-4) Some] by (simp add: rr_mappingFor_def committed_def remember_fields getMapping_def)
  moreover have "rr_mappingFor i rt \<noteq> None" using work_okD(3) [OF assms(2), of i] Some by (auto simp: entry_work_def)
  ultimately show ?thesis using assms(6) Some by (simp add: routes_shown_def work_routes_def routesOf_def)
next
  case None
  then have n: "rr_mappingFor i rt = None" "map_find (snd w) i \<noteq> None"
    using work_okD(3) [OF assms(2), of i] assms(5) by (auto simp: entry_work_def split: if_splits)
  then have "map_find (rr_streamIdOf rt) i = None" using mappingFor_iff(1) [OF assms(1)] by blast
  then have "rr_mappingFor i (committed w mp rt) = None" by (simp add: rr_mappingFor_def committed_def remember_fields)
  then show ?thesis using None n(2) map_find_put_all [OF work_okD(2) [OF assms(2)]]
    by (auto simp: routes_shown_def work_routes_def rememberedRoutes_def committed_def remember_fields)
qed

section \<open>Actions\<close>

lemma restored: "mapper_exact mp \<Longrightarrow> mapper_inv mp' \<Longrightarrow> usableChannelCount mp' = usableChannelCount mp \<Longrightarrow> restore mp mp' = mp"
  by (simp add: restore_def restore_mappings)

lemma activeMap_status [simp]: "rsp_status (activeMap conns rt lastA) = 200"
  by (simp add: activeMap_def Let_def)

text \<open>An action is refused, tried, or committed.\<close>

lemma action_cases:
  assumes "applyAction conns now action commit gs = Some (rsp, gs')" "rr_inv (gs_routing gs)" "known_receivers conns (gs_routing gs)"
  obtains (unchanged) "gs' = gs" "rsp_status rsp \<noteq> 200 \<or> \<not> commit"
  | (changed) w mp where "commit" "rsp_status rsp = 200"
      "grid_cells (usableChannelCount (rr_mapper (gs_routing gs))) (asObject (member_of action kDeviceOutputId))
         (grid_start conns (gs_routing gs)) = Some (Inr w)"
      "install (fst w) (clearAll (rr_mapper (gs_routing gs))) = Inr mp"
      "gs' = gs\<lparr>gs_routing := committed w mp (gs_routing gs), gs_lastActivation := taiText now\<rparr>"
proof -
  let ?rt = "gs_routing gs" and ?cells = "asObject (member_of action kDeviceOutputId)"
  have ex: "mapper_exact (rr_mapper ?rt)" "mapper_inv (rr_mapper ?rt)" using assms(2) by (auto simp: rr_inv_def mapper_exact_def)
  have u: "usableChannelCount (rr_mapper ?rt) \<le> 128" using ex(2) by (simp add: mapper_inv_def kMaxDeviceChannels_def)
  have same: "restore (rr_mapper ?rt) (rr_mapper ?rt) = rr_mapper ?rt" using restored [OF ex] by simp
  have e: "e \<noteq> 200" if "output_error oc = Some (e, why)" for oc e why using that by (auto simp: output_error_def split: if_splits)
  then have e': "e \<noteq> 200" if "first_refusal output_error ocs = Some (e, why)" for ocs e why
    using that by (induction ocs) (auto split: option.splits)
  have c: "e \<noteq> 200" if "grid_cell n cell w = Some (Inl (e, why))" for n cell w e why
    using that by (auto simp: grid_cell_def Let_def split: prod.splits sum.splits if_splits option.splits)
  then have c': "e \<noteq> 200" if "grid_cells n cells w = Some (Inl (e, why))" for n cells w e why
    using that by (induction cells arbitrary: w) (auto split: option.splits sum.splits)
  consider "\<not> isObject action" | "isObject action" "first_refusal output_error (asObject action) \<noteq> None"
    | x where "isObject action" "first_refusal output_error (asObject action) = None"
        "grid_cells (usableChannelCount (rr_mapper ?rt)) ?cells (grid_start conns ?rt) = Some x"
    using assms(1) by (fastforce simp: applyAction_def getUsableChannelCount_def Let_def split: option.splits)
  then show thesis
  proof cases
    case 1
    then show thesis using assms(1) unchanged by (auto simp: applyAction_def Let_def)
  next
    case 2
    then show thesis using assms(1) unchanged e' by (auto simp: applyAction_def Let_def)
  next
    case (3 x)
    show thesis
    proof (cases x)
      case (Inl ew)
      have "fst ew \<noteq> 200" by (rule c' [of "usableChannelCount (rr_mapper ?rt)" ?cells "grid_start conns ?rt" _ "snd ew"]) (use 3(3) Inl in simp)
      then show thesis using assms(1) 3 Inl unchanged by (cases ew) (auto simp: applyAction_def getUsableChannelCount_def Let_def)
    next
      case (Inr w)
      show thesis
      proof (cases "install (fst w) (clearAll (rr_mapper ?rt))")
        case (Inl why)
        then show thesis using assms(1) 3 Inr same
          by (intro unchanged) (auto simp: applyAction_def getUsableChannelCount_def Let_def split: prod.splits)
      next
        case ins: (Inr mp)
        have ok: "work_ok conns ?rt w" using cells_step [OF u 3(3) [unfolded Inr] start_ok] by blast
        note I = installed [OF assms(2) ok assms(3) ins]
        have same': "restore (rr_mapper ?rt) mp = rr_mapper ?rt" using I(1,2) ex(1) by (intro restored) (auto simp: mapper_exact_def)
        show thesis
        proof (cases commit)
          case True
          then show thesis using assms(1) 3 Inr ins
            by (intro changed [of w mp]) (auto simp: applyAction_def getUsableChannelCount_def committed_def Let_def split: prod.splits)
        next
          case False
          then show thesis using assms(1) 3 Inr ins same'
            by (intro unchanged) (auto simp: applyAction_def getUsableChannelCount_def Let_def split: prod.splits)
        qed
      qed
    qed
  qed
qed

lemma action_grid:
  assumes "applyAction conns now action True gs = Some (rsp, gs')" "rsp_status rsp = 200"
    and inv: "rr_inv (gs_routing gs)" "known_receivers conns (gs_routing gs)"
    and keep: "\<And>i m. rr_mappingFor i (gs_routing gs') = Some m \<Longrightarrow> routes m \<noteq> []"
  shows "map_find (feeding conns (gs_routing gs')) = grid_after (asObject (member_of action kDeviceOutputId)) (map_find (feeding conns (gs_routing gs)))"
  using assms(1) inv
proof (cases rule: action_cases)
  case unchanged
  then show ?thesis using assms(2) by simp
next
  case (changed w mp)
  let ?rt = "gs_routing gs"
  have u: "usableChannelCount (rr_mapper ?rt) \<le> 128" using inv(1) by (simp add: rr_inv_def mapper_exact_def mapper_inv_def kMaxDeviceChannels_def)
  have s: "work_ok conns ?rt w" "work_grid conns w = grid_after (asObject (member_of action kDeviceOutputId)) (work_grid conns (grid_start conns ?rt))"
    using cells_step [OF u changed(3) start_ok] by blast+
  have rt': "gs_routing gs' = committed w mp ?rt" using changed(5) by simp
  have "work_routes w i \<noteq> []" if h: "rr_mappingFor i ?rt \<noteq> None" "i \<in> set (receiverIds conns)" for i
  proof -
    obtain m where m: "map_find (fst w) i = Some m"
      using work_okD(3) [OF s(1), of i] h by (cases "map_find (fst w) i") (auto simp: entry_work_def split: if_splits)
    then have "rr_mappingFor i (gs_routing gs') = Some m"
      using installed(4) [OF inv(1) s(1) inv(2) changed(4) m] by (simp add: rt' rr_mappingFor_def committed_def remember_fields getMapping_def)
    then show ?thesis using keep m by (simp add: work_routes_def)
  qed
  then have sh: "routes_shown (gs_routing gs') i = work_routes w i" if "i \<in> set (receiverIds conns)" for i
    using committed_shown [OF inv(1) s(1) inv(2) changed(4) that] that by (simp add: rt')
  have "map_find (feeding conns (gs_routing gs')) = work_grid conns w"
    by (rule ext) (simp add: feeding_fed work_grid_def sh cong: fed_cong)
  moreover have "map_find (feeding conns ?rt) = work_grid conns (grid_start conns ?rt)"
    by (rule ext) (simp add: feeding_fed work_grid_def start_routes cong: fed_cong)
  ultimately show ?thesis using s(2) by simp
qed

section \<open>Requests\<close>

text \<open>What every request of this interface keeps: the invariant, who is connected, and under which identifiers.\<close>

definition same_streams :: "routing \<Rightarrow> routing \<Rightarrow> bool" where
  "same_streams rt rt' \<longleftrightarrow> rr_inv rt' \<and> rr_streamIdOf rt' = rr_streamIdOf rt \<and>
     (\<forall>k. map_find (mappings (rr_mapper rt')) k = None \<longleftrightarrow> map_find (mappings (rr_mapper rt)) k = None)"

lemma same_streams_refl: "rr_inv rt \<Longrightarrow> same_streams rt rt"
  by (simp add: same_streams_def)

lemma same_streams_trans: "same_streams rt rt' \<Longrightarrow> same_streams rt' rt'' \<Longrightarrow> same_streams rt rt''"
  by (simp add: same_streams_def)

lemma same_streams_known: "same_streams rt rt' \<Longrightarrow> known_receivers conns rt' = known_receivers conns rt"
  by (simp add: same_streams_def known_receivers_def connectedReceivers_def)

lemma action_keeps:
  assumes "applyAction conns now action commit gs = Some (rsp, gs')" "rr_inv (gs_routing gs)" "known_receivers conns (gs_routing gs)"
  shows "same_streams (gs_routing gs) (gs_routing gs') \<and> gs_pending gs' = gs_pending gs"
  using assms
proof (cases rule: action_cases)
  case unchanged
  then show ?thesis using same_streams_refl assms(2) by simp
next
  case (changed w mp)
  let ?rt = "gs_routing gs"
  have "usableChannelCount (rr_mapper ?rt) \<le> 128" using assms(2) by (simp add: rr_inv_def mapper_exact_def mapper_inv_def kMaxDeviceChannels_def)
  then have ok: "work_ok conns ?rt w" using cells_step [OF _ changed(3) start_ok] by blast
  show ?thesis
    using committed_inv [OF assms(2) ok assms(3) changed(4)] changed(5)
    by (simp add: same_streams_def committed_def remember_fields) (metis installed(3) [OF assms(2) ok assms(3) changed(4)])
qed

lemma due_keeps:
  "due_grids conns now as gs = Some (left, gs') \<Longrightarrow> rr_inv (gs_routing gs) \<Longrightarrow> known_receivers conns (gs_routing gs) \<Longrightarrow>
   same_streams (gs_routing gs) (gs_routing gs') \<and> length left \<le> length as"
proof (induction as arbitrary: gs left)
  case (Cons a as)
  show ?case
  proof (cases "taiReached (pg_due a) now")
    case True
    then obtain rsp gs1 where s: "applyAction conns now (pg_action a) True gs = Some (rsp, gs1)" "due_grids conns now as gs1 = Some (left, gs')"
      using Cons.prems(1) by (auto split: option.splits)
    have k: "same_streams (gs_routing gs) (gs_routing gs1)" using action_keeps [OF s(1) Cons.prems(2,3)] by blast
    then have "rr_inv (gs_routing gs1)" "known_receivers conns (gs_routing gs1)"
      using same_streams_known Cons.prems(3) by (auto simp: same_streams_def)
    from Cons.IH [OF s(2) this] show ?thesis using same_streams_trans [OF k] by simp
  next
    case False
    then show ?thesis using Cons.IH Cons.prems by auto
  qed
qed (simp add: same_streams_refl)

lemma post_keeps:
  assumes "postActivation conns now body gs = Some (rsp, gs')" "rr_inv (gs_routing gs)" "known_receivers conns (gs_routing gs)"
  shows "same_streams (gs_routing gs) (gs_routing gs') \<and> (length (gs_pending gs) \<le> 1 \<longrightarrow> length (gs_pending gs') \<le> 1)"
proof -
  have keep: "same_streams (gs_routing gs) (gs_routing gs2) \<and> gs_pending gs2 = gs_pending gs"
    if "applyAction conns now action commit (gs\<lparr>gs_nextId := n\<rparr>) = Some (r, gs2)" for action commit n r gs2
    using action_keeps [OF that] assms(2,3) by simp
  show ?thesis
    using assms(1) same_streams_refl [OF assms(2)]
    by (auto simp: postActivation_def Let_def dest!: keep split: sum.splits if_splits option.splits)
qed

lemma handle_grid_keeps:
  assumes "gs_handle conns now verb path body gs = Some (rsp, gs')" "rr_inv (gs_routing gs)" "known_receivers conns (gs_routing gs)"
  shows "same_streams (gs_routing gs) (gs_routing gs') \<and> (length (gs_pending gs) \<le> 1 \<longrightarrow> length (gs_pending gs') \<le> 1)"
proof -
  obtain left gs1 where d: "due_grids conns now (gs_pending gs) gs = Some (left, gs1)"
    using assms(1) by (auto simp: gs_handle_def gs_applyDueActivations_def split: option.splits)
  let ?gs = "gs1\<lparr>gs_pending := left\<rparr>"
  have k: "same_streams (gs_routing gs) (gs_routing ?gs)" "length left \<le> length (gs_pending gs)" using due_keeps [OF d assms(2,3)] by auto
  then have inv: "rr_inv (gs_routing ?gs)" "known_receivers conns (gs_routing ?gs)"
    using same_streams_known assms(3) by (auto simp: same_streams_def)
  have erase: "length (erase_first P left) \<le> 1" if "length left \<le> 1" for P using that by (simp add: erase_first_length)
  have "same_streams (gs_routing ?gs) (gs_routing gs') \<and> (length left \<le> 1 \<longrightarrow> length (gs_pending gs') \<le> 1)"
    using assms(1) same_streams_refl [OF inv(1)] post_keeps [OF _ inv] erase
    by (auto simp: gs_handle_def gs_applyDueActivations_def d grid_segments_def handle_map_def one_activation_def Let_def
        split: if_splits list.splits option.splits)
  then show ?thesis using k same_streams_trans by auto
qed

section \<open>Both interfaces\<close>

datatype nmos_call = Connection api_call | Mapping api_call

fun nmos_step :: "(nat \<Rightarrow> stream_id) \<Rightarrow> (string \<Rightarrow> string \<Rightarrow> bool \<Rightarrow> bool \<times> string) \<Rightarrow> nmos_call \<Rightarrow>
    connection_api \<times> grid_api \<times> nat \<Rightarrow> (connection_api \<times> grid_api \<times> nat) option" where
  "nmos_step g senders (Connection q) (api, gs, n) =
     (case ca_handle (routing_env g senders q) (rq_verb q) (rq_path q) (rq_body q) api (gs_routing gs, n) of
        None \<Rightarrow> None
      | Some (rsp, api', rt, n') \<Rightarrow> Some (api', gs\<lparr>gs_routing := rt\<rparr>, n'))"
| "nmos_step g senders (Mapping q) (api, gs, n) =
     (case gs_handle api (at_tai q) (rq_verb q) (rq_path q) (rq_body q) gs of
        None \<Rightarrow> None
      | Some (rsp, gs') \<Rightarrow> Some (api, gs', n))"

fun run_nmos :: "(nat \<Rightarrow> stream_id) \<Rightarrow> (string \<Rightarrow> string \<Rightarrow> bool \<Rightarrow> bool \<times> string) \<Rightarrow> nmos_call list \<Rightarrow>
    connection_api \<times> grid_api \<times> nat \<Rightarrow> (connection_api \<times> grid_api \<times> nat) option" where
  "run_nmos g senders [] s = Some s"
| "run_nmos g senders (q # qs) s = (case nmos_step g senders q s of None \<Rightarrow> None | Some s' \<Rightarrow> run_nmos g senders qs s')"

lemma agree_known:
  assumes "routed.consistent bound g api (rt, n)"
  shows "known_receivers api rt"
proof -
  have "i \<in> set (receiverIds api)" if "(i, k) \<in> set (rr_streamIdOf rt)" for i k
  proof -
    have "map_find (rr_streamIdOf rt) i \<noteq> None" using that by (metis map_find_None fst_conv image_eqI)
    then have "map_find (ca_receivers api) i \<noteq> None"
      using routed.consistentD(4) [OF assms, of i] by (auto simp: host_connected_def streamIdFor_def)
    then show ?thesis by (simp add: map_find_None receiverIds_def)
  qed
  then show ?thesis by (auto simp: known_receivers_def connectedReceivers_def)
qed

lemma mapping_consistent:
  assumes "routed.consistent bound g api (gs_routing gs, n)" "gs_handle api now verb path body gs = Some (rsp, gs')"
    and "generates bound g" "n \<le> bound"
  shows "routed.consistent bound g api (gs_routing gs', n)"
proof -
  have inv: "rr_inv (gs_routing gs)" "\<And>k. n \<le> k \<Longrightarrow> k < bound \<Longrightarrow> map_find (mappings (rr_mapper (gs_routing gs))) (g k) = None"
    using routed.consistentD(1) [OF assms(1)] assms(3,4) by (auto simp: host_inv_def)
  have "same_streams (gs_routing gs) (gs_routing gs')" using handle_grid_keeps [OF assms(2) inv(1) agree_known [OF assms(1)]] by blast
  then have s: "rr_inv (gs_routing gs')" "rr_streamIdOf (gs_routing gs') = rr_streamIdOf (gs_routing gs)"
    "\<And>k. map_find (mappings (rr_mapper (gs_routing gs'))) k = None \<longleftrightarrow> map_find (mappings (rr_mapper (gs_routing gs))) k = None"
    by (auto simp: same_streams_def)
  have c: "host_connected (gs_routing gs', n) = host_connected (gs_routing gs, n)"
    by (rule ext) (simp add: host_connected_def streamIdFor_def s(2))
  have h: "host_inv bound g (gs_routing gs', n)" using inv s by (simp add: host_inv_def)
  show ?thesis using assms(1) h unfolding routed.consistent_def routed.entry_ok_def c by blast
qed

text \<open>
  The same contract once more, with the number of identifiers taken as the invariant of the host: it only
  grows, and the receivers stay filed under their own identifiers.
\<close>

interpretation counted: activation_host "routing_callback g" "\<lambda>h. n0 \<le> snd h" "\<lambda>h i. False" for g n0
  by unfold_locales (auto simp: routing_callback_def split: prod.splits sum.splits)

lemma idle_counted: "counted.consistent n0 api h \<longleftrightarrow> n0 \<le> snd h \<and> idle_api api"
proof -
  have "list_all (\<lambda>(i, r). cr_id r = i) (ca_receivers api) \<longleftrightarrow> (\<forall>i r. map_find (ca_receivers api) i = Some r \<longrightarrow> cr_id r = i)"
    if "sorted_map (ca_receivers api)"
    by (simp add: list_all_iff Ball_def split_paired_All map_find_iff [OF that])
  then have "(\<forall>i. case map_find (ca_receivers api) i of None \<Rightarrow> True | Some r \<Rightarrow> cr_id r = i) \<longleftrightarrow>
      list_all (\<lambda>(i, r). cr_id r = i) (ca_receivers api)" if "sorted_map (ca_receivers api)"
    using that by (auto split: option.split)
  moreover have "(case x of None \<Rightarrow> \<not> False | Some r \<Rightarrow> counted.entry_ok h (i, r)) = (case x of None \<Rightarrow> True | Some r \<Rightarrow> cr_id r = i)" for x i
    by (simp add: counted.entry_ok_def split: option.split)
  ultimately show ?thesis unfolding counted.consistent_def idle_api_def by auto
qed

lemma step_grows:
  assumes "nmos_step g senders q (api, gs, n) = Some (api', gs', n')" "idle_api api"
  shows "idle_api api' \<and> n \<le> n'"
proof (cases q)
  case (Connection c)
  obtain rsp where h: "ca_handle (routing_env g senders c) (rq_verb c) (rq_path c) (rq_body c) api (gs_routing gs, n) =
      Some (rsp, api', (gs_routing gs', n'))"
    using assms(1) Connection by (auto split: option.splits)
  have "counted.serves g (routing_env g senders c)" by (simp add: counted.serves_def routing_env_def call_host_def)
  from counted.handle_consistent [OF this _ h, of n] show ?thesis using assms(2) by (simp add: idle_counted)
next
  case (Mapping c)
  then show ?thesis using assms by (auto split: option.splits)
qed

lemma run_grows:
  "run_nmos g senders qs (api, gs, n) = Some (api', gs', n') \<Longrightarrow> idle_api api \<Longrightarrow> n \<le> n'"
proof (induction qs arbitrary: api gs n)
  case (Cons q qs)
  obtain api1 gs1 n1 where s: "nmos_step g senders q (api, gs, n) = Some (api1, gs1, n1)" "run_nmos g senders qs (api1, gs1, n1) = Some (api', gs', n')"
    using Cons.prems(1) by (auto split: option.splits)
  show ?case using step_grows [OF s(1) Cons.prems(2)] Cons.IH [OF s(2)] by simp
qed simp

lemma run_nmos_consistent:
  "run_nmos g senders qs (api, gs, n) = Some (api', gs', n') \<Longrightarrow> idle_api api \<Longrightarrow> generates n' g \<Longrightarrow>
   routed.consistent n' g api (gs_routing gs, n) \<Longrightarrow> routed.consistent n' g api' (gs_routing gs', n')"
proof (induction qs arbitrary: api gs n)
  case (Cons q qs)
  obtain api1 gs1 n1 where s: "nmos_step g senders q (api, gs, n) = Some (api1, gs1, n1)" "run_nmos g senders qs (api1, gs1, n1) = Some (api', gs', n')"
    using Cons.prems(1) by (auto split: option.splits)
  have n: "n \<le> n'" by (rule run_grows [OF Cons.prems(1,2)])
  have "routed.consistent n' g api1 (gs_routing gs1, n1)"
  proof (cases q)
    case (Connection c)
    obtain rsp where "ca_handle (routing_env g senders c) (rq_verb c) (rq_path c) (rq_body c) api (gs_routing gs, n) =
        Some (rsp, api1, (gs_routing gs1, n1))"
      using s(1) Connection by (auto split: option.splits)
    from routed.handle_consistent [OF routing_serves Cons.prems(4) this] show ?thesis .
  next
    case (Mapping c)
    then obtain rsp where h: "gs_handle api (at_tai c) (rq_verb c) (rq_path c) (rq_body c) gs = Some (rsp, gs1)" "api1 = api" "n1 = n"
      using s(1) by (auto split: option.splits)
    show ?thesis using mapping_consistent [OF Cons.prems(4) h(1) Cons.prems(3) n] h by simp
  qed
  then show ?case using Cons.IH [OF s(2)] step_grows [OF s(1) Cons.prems(2)] Cons.prems(3) by blast
qed simp

section \<open>Theorems\<close>

text \<open>
  C4: Whatever requests arrive at the connection and the channel mapping interface, in whatever order and with whatever
  bodies, scheduled activations and refusals included: a device channel counts as taken exactly when
  exactly one receiver holds it, and every receiver that holds one is known and reported active and enabled.
\<close>

theorem requests_keep_matrix:
  assumes "generates m g" "idle_api api" "run_nmos g senders qs (api, grid_init routing_init, 0) = Some (api', gs, m)"
    and "ch < kMaxDeviceChannels"
  shows "(isChannelAssigned (int ch) (rr_mapper (gs_routing gs)) \<longleftrightarrow> (\<exists>!i. ch \<in> receiver_channels (gs_routing gs) i)) \<and>
    (\<forall>i. ch \<in> receiver_channels (gs_routing gs) i \<longrightarrow> (\<exists>r. ca_receiver i api' = Some r \<and> cs_masterEnable (cr_active r)))"
proof -
  let ?rt = "gs_routing gs"
  have c: "routed.consistent m g api' (?rt, m)"
    using run_nmos_consistent [OF assms(3,2,1)] idle_consistent [OF assms(2)] by (simp add: grid_init_def)
  have inv: "rr_inv ?rt" using routed.consistentD(1) [OF c] assms(1) by (simp add: host_inv_def)
  have "\<exists>r. ca_receiver i api' = Some r \<and> cs_masterEnable (cr_active r)" if "ch \<in> receiver_channels ?rt i" for i
  proof -
    have "host_connected (?rt, m) i" using that by (auto simp: receiver_channels_of host_connected_def streamIdFor_def split: option.splits)
    then show ?thesis using routed.consistentD(3,4) [OF c, of i]
      by (cases "map_find (ca_receivers api') i") (auto simp: routed.entry_ok_def ca_receiver_def)
  qed
  then show ?thesis using receivers_disjoint [OF inv] assigned_receiver [OF inv assms(4)] by blast
qed

theorem requests_keep_matrix_witness:
  "\<exists>api' gs. run_nmos route_id (\<lambda>i sdp enable. (True, [])) [Connection enable_call, Mapping enable_call]
       (one_receiver, grid_init routing_init, 0) = Some (api', gs, 2) \<and>
     isChannelAssigned (int 0) (rr_mapper (gs_routing gs)) \<and> (\<exists>!i. 0 \<in> receiver_channels (gs_routing gs) i)"
proof -
  define rt where "rt = fst (rr_apply (route_id 0) (route_id 1) ''rx1'' [] True routing_init)"
  have ok: "isl (snd (rr_apply (route_id 0) (route_id 1) ''rx1'' [] True routing_init)) = False" by code_simp
  have "routing_callback route_id ''rx1'' [] True (routing_init, 0) = ((True, []), (rt, 2))"
    using ok by (auto simp: routing_callback_def rt_def isl_def split: prod.split sum.split)
  then obtain rsp api1 where "ca_handle (routing_env route_id (\<lambda>i sdp enable. (True, [])) enable_call) ''PATCH'' (rq_path enable_call) enable_body
      one_receiver (routing_init, 0) = Some (rsp, api1, (rt, 2))"
    using enable_route [of "routing_env route_id (\<lambda>i sdp enable. (True, [])) enable_call"]
    by (simp add: routing_env_def enable_call_def) blast
  moreover have "gs_handle api1 tai_zero ''PATCH'' (rq_path enable_call) enable_body (grid_init rt) =
      Some (errorResponse 404 (''this device serves '' @ kChannelMappingApiRoot), grid_init rt)"
    by (simp add: gs_handle_def gs_applyDueActivations_def grid_init_def kChannelMappingApiRoot_def enable_call_def)
  ultimately have run: "run_nmos route_id (\<lambda>i sdp enable. (True, [])) [Connection enable_call, Mapping enable_call]
      (one_receiver, grid_init routing_init, 0) = Some (api1, grid_init rt, 2)"
    by (simp add: enable_call_def grid_init_def)
  have a: "isChannelAssigned (int 0) (rr_mapper rt)" unfolding rt_def by code_simp
  have g: "generates 2 route_id" "idle_api one_receiver" "0 < kMaxDeviceChannels" by code_simp+
  show ?thesis using run a requests_keep_matrix [OF g(1,2) run g(3)] by (auto simp: grid_init_def)
qed

text \<open>
  C10: A committed action changes the active map exactly as asked: every cell it names, in the order it names them, and
  nothing else; provided that every stream keeps at least one route.
\<close>

theorem grid_action_refines:
  assumes "rr_inv (gs_routing gs)" "known_receivers conns (gs_routing gs)"
    and "applyAction conns now action True gs = Some (rsp, gs')" "rsp_status rsp = 200"
    and "list_all (\<lambda>m. routes m \<noteq> []) (getAllMappings (rr_mapper (gs_routing gs')))"
  shows "map_find (feeding conns (gs_routing gs')) =
    grid_after (asObject (member_of action kDeviceOutputId)) (map_find (feeding conns (gs_routing gs)))"
proof (rule action_grid [OF assms(3,4,1,2)])
  fix i m assume "rr_mappingFor i (gs_routing gs') = Some m"
  then obtain k where "map_find (mappings (rr_mapper (gs_routing gs'))) k = Some m"
    by (auto simp: rr_mappingFor_def getMapping_def split: bind_splits)
  from map_find_in [OF this] show "routes m \<noteq> []" using assms(5) by (auto simp: list_all_iff getAllMappings_def)
qed

definition eight_channels :: routing where
  "eight_channels = fst (rr_apply (route_id 9) (route_id 1) ''rx1'' [] True
     (routing_init\<lparr>rr_mapper := setUsableChannelCount 8 StreamChannelMapper\<rparr>))"

definition one_cell :: "string \<Rightarrow> json \<Rightarrow> json" where
  "one_cell ch cell = JObject [(kDeviceOutputId, JObject [(ch, cell)])]"

lemma eight_ok: "rr_inv eight_channels" "known_receivers one_receiver eight_channels"
proof -
  have "rr_inv (routing_init\<lparr>rr_mapper := setUsableChannelCount 8 StreamChannelMapper\<rparr>)"
    using rr_inv_init mapper_exact_init
    by (simp add: rr_inv_def mapper_exact_def setUsable_inv) (simp add: routing_init_def setUsableChannelCount_def mapper_inv_def)
  then show "rr_inv eight_channels" unfolding eight_channels_def
    by (rule apply_inv) (simp_all add: route_id_def valid_id_def setUsableChannelCount_def StreamChannelMapper_def)
  show "known_receivers one_receiver eight_channels" unfolding known_receivers_def by code_simp
qed

theorem grid_action_refines_witness:
  "\<exists>rsp gs'. applyAction one_receiver tai_zero (one_cell ''5'' (JObject [(''channel_index'', JInt 1), (''input'', JString ''rx1'')])) True
       (grid_init eight_channels) = Some (rsp, gs') \<and>
     map_find (feeding one_receiver (gs_routing gs')) 5 = Some (''rx1'', 1) \<and> map_find (feeding one_receiver (gs_routing gs')) 0 = Some (''rx1'', 0)"
proof -
  let ?a = "one_cell ''5'' (JObject [(''channel_index'', JInt 1), (''input'', JString ''rx1'')])"
  have r: "case applyAction one_receiver tai_zero ?a True (grid_init eight_channels) of None \<Rightarrow> False
    | Some (rsp, gs') \<Rightarrow> rsp_status rsp = 200 \<and> list_all (\<lambda>m. routes m \<noteq> []) (getAllMappings (rr_mapper (gs_routing gs')))" by code_simp
  then obtain rsp gs' where e: "applyAction one_receiver tai_zero ?a True (grid_init eight_channels) = Some (rsp, gs')" "rsp_status rsp = 200"
      "list_all (\<lambda>m. routes m \<noteq> []) (getAllMappings (rr_mapper (gs_routing gs')))"
    by (auto split: option.splits)
  have g: "grid_after (asObject (member_of ?a kDeviceOutputId)) f 5 = Some (''rx1'', 1)" "grid_after (asObject (member_of ?a kDeviceOutputId)) f 0 = f 0" for f
  proof -
    have "stoi ''5'' = Inr 5" "cast_int (Finite 1) = Some 1" by code_simp+
    then show "grid_after (asObject (member_of ?a kDeviceOutputId)) f 5 = Some (''rx1'', 1)" "grid_after (asObject (member_of ?a kDeviceOutputId)) f 0 = f 0"
      by (simp_all add: grid_after_def one_cell_def member_of_def cell_channel_def cell_value_def JInt_def)
  qed
  have f: "map_find (feeding one_receiver eight_channels) 0 = Some (''rx1'', 0)" by code_simp
  show ?thesis using e(1) grid_action_refines [OF _ _ e(1,2,3)] eight_ok g f by (auto simp: grid_init_def)
qed

text \<open>
  C33: A dry run changes nothing and answers what committing would answer; and an action that is refused leaves the
  matrix, the remembered grids and the time of the last change as they were.
\<close>

theorem grid_dry_run_exact:
  assumes "rr_inv (gs_routing gs)" "known_receivers conns (gs_routing gs)"
    and "applyAction conns now action False gs = Some (rsp, gs')"
  shows "gs' = gs \<and> (\<exists>rsp2 gs2. applyAction conns later action True gs = Some (rsp2, gs2) \<and> rsp_status rsp2 = rsp_status rsp \<and>
    (rsp_status rsp \<noteq> 200 \<longrightarrow> rsp2 = rsp \<and> gs2 = gs))"
proof -
  have same: "gs' = gs" using assms(3,1,2) by (cases rule: action_cases) auto
  have "\<exists>rsp2 gs2. applyAction conns later action True gs = Some (rsp2, gs2) \<and> rsp_status rsp2 = rsp_status rsp \<and> (rsp_status rsp \<noteq> 200 \<longrightarrow> rsp2 = rsp)"
    using assms(3) by (auto simp: applyAction_def Let_def split: if_splits option.splits sum.splits)
  then obtain rsp2 gs2 where c: "applyAction conns later action True gs = Some (rsp2, gs2)" "rsp_status rsp2 = rsp_status rsp"
    "rsp_status rsp \<noteq> 200 \<longrightarrow> rsp2 = rsp" by blast
  have "rsp_status rsp2 \<noteq> 200 \<longrightarrow> gs2 = gs" using c(1) assms(1,2) by (cases rule: action_cases) auto
  then show ?thesis using same c by auto
qed

theorem grid_dry_run_exact_witness:
  "\<exists>rsp2 gs2. applyAction one_receiver tai_zero (one_cell ''9'' JNull) True (grid_init eight_channels) = Some (rsp2, gs2) \<and>
     gs2 = grid_init eight_channels"
proof -
  have "case applyAction one_receiver tai_zero (one_cell ''9'' JNull) False (grid_init eight_channels) of None \<Rightarrow> False
    | Some (rsp, gs') \<Rightarrow> rsp_status rsp = 400" by code_simp
  then obtain rsp gs' where e: "applyAction one_receiver tai_zero (one_cell ''9'' JNull) False (grid_init eight_channels) = Some (rsp, gs')" "rsp_status rsp = 400"
    by (auto split: option.splits)
  show ?thesis using grid_dry_run_exact [OF _ _ e(1), of tai_zero] eight_ok e(2) by (auto simp: grid_init_def)
qed

text \<open>
  Emptying the cells of a stream one after the other works until the last one: a stream without routes is a
  stream on its own block, so the request that empties its last cell connects the whole block again.
\<close>

theorem grid_emptied_returns:
  "let both = JObject [(''0'', JObject [(''input'', JNull)]), (''1'', JObject [(''input'', JNull)])] in
   case applyAction one_receiver tai_zero (JObject [(kDeviceOutputId, both)]) True (grid_init eight_channels) of
     None \<Rightarrow> False
   | Some (rsp, gs') \<Rightarrow> rsp_status rsp = 200 \<and>
       grid_after (asObject both) (map_find (feeding one_receiver eight_channels)) 0 = None \<and>
       map_find (feeding one_receiver (gs_routing gs')) 0 = Some (''rx1'', 0) \<and> isChannelAssigned 0 (rr_mapper (gs_routing gs'))"
  by code_simp

end
