(* ===== verification/Http_Exchange.thy ===== *)
theory Http_Exchange
  imports Nmos_Common
begin

text \<open>
  HTTP as the session layer speaks it: the client of \<open>HTTPClient.cpp\<close> and the server of \<open>HttpServer.cpp\<close>. A socket is
  what was received on it, as the list of its non-empty pieces: a list that ends is a peer that closed, fell
  silent or ran into the deadline. The outcome of connecting and of sending is an argument of the client.
\<close>

section \<open>The client\<close>

record http_response =
  hr_status :: int
  hr_body :: string
  hr_error :: string

definition http_failed :: "string \<Rightarrow> http_response" where
  "http_failed e = \<lparr>hr_status = 0, hr_body = [], hr_error = e\<rparr>"

definition hr_ok :: "http_response \<Rightarrow> bool" where
  "hr_ok r \<longleftrightarrow> hr_error r = [] \<and> 200 \<le> hr_status r \<and> hr_status r \<le> 299"

definition kMaxBodyBytes :: nat where "kMaxBodyBytes = 1048576"

definition parseSmallNumber :: "string \<Rightarrow> nat option" where
  "parseSmallNumber text = (case scan_number 10 text of
       None \<Rightarrow> None
     | Some (neg, m, rest) \<Rightarrow>
         if neg then (if m = 0 then Some 0 else None) else if 2 ^ 63 \<le> m then None else Some m)"

definition http_blank :: "char \<Rightarrow> bool" where
  "http_blank c \<longleftrightarrow> c = CHR '' '' \<or> c = CHR 0x09"

definition next_line :: "string \<Rightarrow> string \<times> string" where
  "next_line rest = (case str_find kCRLF rest of None \<Rightarrow> (rest, []) | Some n \<Rightarrow> (take n rest, drop (n + 2) rest))"

lemma next_line_shorter: "rest \<noteq> [] \<Longrightarrow> length (snd (next_line rest)) < length rest"
  by (auto simp: next_line_def split: option.split)

function header_lines :: "string \<Rightarrow> string \<Rightarrow> string" where
  "header_lines wanted rest =
     (if rest = [] then []
      else (let (line, after) = next_line rest in
        case cut_first (CHR '':'') line of
          None \<Rightarrow> header_lines wanted after
        | Some (name, value) \<Rightarrow>
            if to_lower name = wanted then drop_end http_blank (dropWhile http_blank value) else header_lines wanted after))"
  by pat_completeness auto

termination header_lines
proof (relation "measure (\<lambda>(wanted, rest). length rest)", goal_cases)
  case (2 wanted rest x line after)
  then show ?case using next_line_shorter [of rest] by (metis case_prod_conv in_measure snd_conv)
next
  case (3 wanted rest x line after y name val)
  then show ?case using next_line_shorter [of rest] by (metis case_prod_conv in_measure snd_conv)
qed simp

declare header_lines.simps [simp del]

definition headerValue :: "string \<Rightarrow> string \<Rightarrow> string" where
  "headerValue head name = (case str_find kCRLF head of None \<Rightarrow> [] | Some n \<Rightarrow> header_lines (to_lower name) (drop (n + 2) head))"

datatype connecting = Unresolved | NoSocket | NotConnected | Connected

definition connect_error :: "string \<Rightarrow> u16 \<Rightarrow> connecting \<Rightarrow> string" where
  "connect_error host port c = (case c of
       Unresolved \<Rightarrow> ''cannot resolve '' @ host
     | NoSocket \<Rightarrow> ''cannot create a socket''
     | NotConnected \<Rightarrow> ''cannot connect to '' @ host @ '':'' @ decimal (unat port)
     | Connected \<Rightarrow> [])"

definition http_request :: "string \<Rightarrow> u16 \<Rightarrow> string \<Rightarrow> string \<Rightarrow> string \<Rightarrow> string \<Rightarrow> string \<Rightarrow> string" where
  "http_request host port accept verb path body contentType =
     verb @ '' '' @ path @ '' HTTP/1.1'' @ kCRLF @
     ''Host: '' @ host @ '':'' @ decimal (unat port) @ kCRLF @
     ''User-Agent: AES67macOSDriver'' @ kCRLF @
     (if accept \<noteq> [] then ''Accept: '' @ accept @ kCRLF else []) @
     (if contentType \<noteq> [] then ''Content-Type: '' @ contentType @ kCRLF else []) @
     ''Content-Length: '' @ decimal (length body) @ kCRLF @ ''Connection: close'' @ kCRLF @ kCRLF @ body"

fun recv_answer :: "string \<Rightarrow> string list \<Rightarrow> string" where
  "recv_answer raw [] = raw"
| "recv_answer raw (c # cs) = (if length raw \<le> kMaxBodyBytes + 8192 then recv_answer (raw @ c) cs else raw)"

definition bounded_body :: "http_response \<Rightarrow> string \<Rightarrow> http_response" where
  "bounded_body response lengthText =
     (let body = hr_body response in
      if lengthText = []
      then (if length body > kMaxBodyBytes
            then response\<lparr>hr_status := 0, hr_error := ''body larger than '' @ decimal kMaxBodyBytes @ '' bytes''\<rparr> else response)
      else (let refused = response\<lparr>hr_status := 0, hr_error := ''the answer declares a body this will not read: '' @ lengthText\<rparr> in
        case parseSmallNumber lengthText of
          None \<Rightarrow> refused
        | Some declared \<Rightarrow>
            if declared > kMaxBodyBytes then refused
            else response\<lparr>hr_body := take declared body\<rparr>))"

definition read_answer :: "string \<Rightarrow> string \<Rightarrow> http_response" where
  "read_answer host raw =
     (if raw = [] then http_failed (''no answer from '' @ host)
      else (case str_find (kCRLF @ kCRLF) raw of
          None \<Rightarrow> http_failed (''malformed answer from '' @ host)
        | Some headEnd \<Rightarrow>
            (let head = take headEnd raw; body = drop (headEnd + 4) raw;
                 malformed = \<lparr>hr_status = 0, hr_body = body, hr_error = ''malformed status line from '' @ host\<rparr> in
             case cut_first (CHR '' '') head of
               None \<Rightarrow> malformed
             | Some (proto, rest) \<Rightarrow>
                 (case parseSmallNumber (takeWhile (\<lambda>c. c \<noteq> CHR '' '') rest) of
                    None \<Rightarrow> malformed
                  | Some status \<Rightarrow>
                      if status < 100 \<or> 599 < status then malformed
                      else bounded_body \<lparr>hr_status = int status, hr_body = body, hr_error = []\<rparr> (headerValue head ''Content-Length'')))))"

definition http_perform :: "string \<Rightarrow> u16 \<Rightarrow> connecting \<Rightarrow> bool \<Rightarrow> string list \<Rightarrow> http_response" where
  "http_perform host port conn sent received =
     (if conn \<noteq> Connected then http_failed (connect_error host port conn)
      else if \<not> sent then http_failed (''cannot send the request to '' @ host)
      else read_answer host (recv_answer [] received))"

definition http_get :: "string \<Rightarrow> u16 \<Rightarrow> string \<Rightarrow> string \<Rightarrow> string" where
  "http_get host port path accept = http_request host port accept ''GET'' path [] []"

definition http_post :: "string \<Rightarrow> u16 \<Rightarrow> string \<Rightarrow> string \<Rightarrow> string \<Rightarrow> string" where
  "http_post host port path body contentType = http_request host port [] ''POST'' path body contentType"

definition http_del :: "string \<Rightarrow> u16 \<Rightarrow> string \<Rightarrow> string" where
  "http_del host port path = http_request host port [] ''DELETE'' path [] []"

section \<open>The server\<close>

definition kMaxRequestBytes :: nat where "kMaxRequestBytes = 65536"

definition statusTextFor :: "int \<Rightarrow> string" where
  "statusTextFor status =
     (if status = 200 then ''OK'' else if status = 400 then ''Bad Request'' else if status = 404 then ''Not Found''
      else if status = 405 then ''Method Not Allowed'' else if status = 500 then ''Internal Server Error''
      else if status = 501 then ''Not Implemented'' else ''Error'')"

fun decodePath :: "string \<Rightarrow> string" where
  "decodePath (p # high # low # rest) =
     (if p = CHR ''%'' \<and> is_xdigit high \<and> is_xdigit low
      then (if hex_pair high low = CHR ''/'' then p # high # low # decodePath rest else hex_pair high low # decodePath rest)
      else p # decodePath (high # low # rest))"
| "decodePath [a, b] = [a, b]"
| "decodePath [a] = [a]"
| "decodePath [] = []"

definition header_end :: "string \<Rightarrow> nat option" where
  "header_end text = (case str_find (kCRLF @ kCRLF) text of
       Some blank \<Rightarrow> Some (blank + 4)
     | None \<Rightarrow> map_option (\<lambda>n. n + 2) (str_find [CHR 0x0A, CHR 0x0A] text))"

definition parseHttpRequest :: "string \<Rightarrow> (string \<times> string \<times> string) option" where
  "parseHttpRequest text = (case header_end text of
       None \<Rightarrow> None
     | Some headerEnd \<Rightarrow>
         (case getline_parts (CHR 0x0A) (take headerEnd text) of
            [] \<Rightarrow> None
          | line # lines \<Rightarrow>
              (case stream_words (trimmed line) of
                 verb # path # ver # others \<Rightarrow>
                   if take 5 ver \<noteq> ''HTTP/'' then None
                   else Some (verb, decodePath (takeWhile (\<lambda>c. c \<noteq> CHR ''?'') path), drop headerEnd text)
               | _ \<Rightarrow> None)))"

definition buildHttpResponse :: "int \<Rightarrow> string \<Rightarrow> string \<Rightarrow> string" where
  "buildHttpResponse status contentType body =
     ''HTTP/1.1 '' @ decimal_int status @ '' '' @ statusTextFor status @ kCRLF @
     ''Content-Type: '' @ contentType @ kCRLF @
     ''Content-Length: '' @ decimal (length body) @ kCRLF @
     ''Access-Control-Allow-Origin: *'' @ kCRLF @
     ''Access-Control-Allow-Methods: GET, PUT, POST, PATCH, DELETE, HEAD, OPTIONS'' @ kCRLF @
     ''Access-Control-Allow-Headers: Content-Type, Accept, Authorization'' @ kCRLF @
     ''Access-Control-Max-Age: 3600'' @ kCRLF @
     ''Connection: close'' @ kCRLF @ kCRLF @ body"

type_synonym 's api_handler = "string \<Rightarrow> string \<Rightarrow> string \<Rightarrow> 's \<Rightarrow> api_response \<times> 's"

definition http_answer :: "'s api_handler \<Rightarrow> string \<Rightarrow> 's \<Rightarrow> string \<times> 's" where
  "http_answer handler text s = (case parseHttpRequest text of
       None \<Rightarrow> (buildHttpResponse 400 ''text/plain'' (''not an HTTP request'' @ [CHR 0x0A]), s)
     | Some (verb, path, body) \<Rightarrow>
         if verb = ''OPTIONS'' then (buildHttpResponse 200 ''text/plain'' [], s)
         else (let (a, s') = handler verb path body s in (buildHttpResponse (rsp_status a) (rsp_contentType a) (rsp_body a), s')))"

text \<open>\<open>std::strtoul\<close> in base ten.\<close>

definition strtoul :: "string \<Rightarrow> u64" where
  "strtoul s = (case scan_number 10 s of
       None \<Rightarrow> 0
     | Some (neg, m, rest) \<Rightarrow> if 2 ^ 64 \<le> m then - 1 else if neg then - of_nat m else of_nat m)"

definition expected_body :: "string \<Rightarrow> u64" where
  "expected_body headers =
     (case (case str_find ''Content-Length:'' headers of Some n \<Rightarrow> Some n | None \<Rightarrow> str_find ''content-length:'' headers) of
        None \<Rightarrow> 0
      | Some found \<Rightarrow> strtoul (drop (found + 15) headers))"

text \<open>What is read of a request; \<open>expected\<close> is \<open>npos\<close>, all ones, until the end of the headers was seen.\<close>

fun http_read :: "string \<Rightarrow> u64 \<Rightarrow> string list \<Rightarrow> string" where
  "http_read text expected [] = text"
| "http_read text expected (c # cs) =
     (if kMaxRequestBytes \<le> length text then text
      else (let t = text @ c in
        case str_find (kCRLF @ kCRLF) t of
          None \<Rightarrow> http_read t expected cs
        | Some blank \<Rightarrow>
            (let e = (if expected = - 1 then expected_body (take blank t) else expected) in
             if unat (of_nat blank + 4 + e) \<le> length t then t else http_read t e cs)))"

fun http_service :: "'s api_handler \<Rightarrow> string list list \<Rightarrow> 's \<Rightarrow> string list \<times> 's" where
  "http_service handler [] s = ([], s)"
| "http_service handler (pieces # clients) s =
     (let request = http_read [] (- 1) pieces in
      if request = [] then http_service handler clients s
      else (let (sent, s1) = http_answer handler request s; (rest, s2) = http_service handler clients s1 in (sent # rest, s2)))"

section \<open>Finding the end of the headers\<close>

lemma take_front: "length p \<le> length t \<Longrightarrow> take (length p) (t @ u) = take (length p) t"
  by simp

lemma str_find_more: "str_find p t = Some n \<Longrightarrow> str_find p (t @ u) = Some n \<and> n + length p \<le> length t"
proof (induction t arbitrary: n)
  case Nil
  then show ?case using str_find_prefix [of "[]" u] by (auto split: if_splits)
next
  case (Cons c t)
  have len: "length p \<le> length (c # t)"
  proof (cases "take (length p) (c # t) = p")
    case True
    then show ?thesis by (metis length_take min.cobounded1)
  next
    case False
    then obtain m where "str_find p t = Some m" using Cons.prems by auto
    then show ?thesis using Cons.IH by fastforce
  qed
  have same: "str_find p ((c # t) @ u) = (if take (length p) (c # t) = p then Some 0 else map_option Suc (str_find p (t @ u)))"
    using take_front [OF len, of u] by simp
  show ?case using Cons.IH Cons.prems len unfolding same by (auto split: if_splits)
qed

lemma str_find_line:
  assumes "d \<notin> set p" "p \<noteq> []"
  shows "str_find p w = None \<Longrightarrow> str_find p (w @ d # s) = map_option (\<lambda>n. length w + 1 + n) (str_find p s)"
proof (induction w)
  case Nil
  have "take (length p) (d # s) \<noteq> p" using assms by (cases p) auto
  then show ?case by simp
next
  case (Cons c w)
  have t: "take (length p) (c # w) \<noteq> p" "str_find p w = None" using Cons.prems by (auto split: if_splits)
  have "take (length p) (c # w @ d # s) \<noteq> p"
  proof
    assume e: "take (length p) (c # w @ d # s) = p"
    show False
    proof (cases "length p \<le> length (c # w)")
      case True
      then show False using e t(1) take_append [of "length p" "c # w" "d # s"] by simp
    next
      case False
      then have "d \<in> set (take (length p) ((c # w) @ d # s))" unfolding take_append by (simp add: take_Cons')
      then show False using e assms(1) by simp
    qed
  qed
  then show ?case using Cons.IH [OF t(2)] by (simp add: option.map_comp comp_def)
qed

definition head_text :: "string list \<Rightarrow> string" where
  "head_text ws = concat (map (\<lambda>w. w @ kCRLF) ws)"

lemma head_text_simps [simp]: "head_text [] = []" "head_text (w # ws) = w @ kCRLF @ head_text ws" "head_text (ws @ vs) = head_text ws @ head_text vs"
  by (simp_all add: head_text_def)

definition header_line :: "string \<Rightarrow> bool" where
  "header_line w \<longleftrightarrow> w \<noteq> [] \<and> CHR 0x0D \<notin> set w"

lemma blank_skip:
  assumes "CHR 0x0D \<notin> set w"
  shows "str_find (kCRLF @ kCRLF) (w @ s) = map_option (\<lambda>n. length w + n) (str_find (kCRLF @ kCRLF) s)"
  using assms by (induction w; cases "str_find (kCRLF @ kCRLF) s") (auto simp: kCRLF_def)

lemma blank_line: "header_line w \<Longrightarrow> header_line v \<Longrightarrow>
   str_find (kCRLF @ kCRLF) (w @ kCRLF @ v @ s) = map_option (\<lambda>n. length w + 2 + n) (str_find (kCRLF @ kCRLF) (v @ s))"
  using blank_skip [of w "kCRLF @ v @ s"] by (cases v) (auto simp: header_line_def kCRLF_def option.map_comp comp_def)

lemma blank_found: "ws \<noteq> [] \<Longrightarrow> list_all header_line ws \<Longrightarrow>
   str_find (kCRLF @ kCRLF) (head_text ws @ kCRLF @ body) = Some (length (head_text ws) - 2)"
proof (induction ws)
  case (Cons w ws)
  show ?case
  proof (cases ws)
    case Nil
    have "str_find (kCRLF @ kCRLF) ((kCRLF @ kCRLF) @ body) = Some 0" by (rule str_find_prefix)
    then show ?thesis using Cons.prems Nil by (simp add: header_line_def blank_skip) (simp add: kCRLF_def)
  next
    case (Cons v vs)
    have "header_line w" "header_line v" using Cons Cons.prems by simp_all
    from blank_line [OF this, of "kCRLF @ head_text vs @ kCRLF @ body"] show ?thesis
      using Cons Cons.IH Cons.prems by (simp add: kCRLF_def)
  qed
qed simp

lemma str_find_lines:
  assumes "CHR 0x0A \<notin> set p" "p \<noteq> []"
  shows "list_all (\<lambda>w. str_find p (w @ [CHR 0x0D]) = None) ws \<Longrightarrow> str_find p (head_text ws @ p @ rest) = Some (length (head_text ws))"
proof (induction ws)
  case (Cons w ws)
  have "str_find p ((w @ [CHR 0x0D]) @ CHR 0x0A # head_text ws @ p @ rest) = Some (length (w @ [CHR 0x0D]) + 1 + length (head_text ws))"
    using str_find_line [OF assms, of "w @ [CHR 0x0D]" "head_text ws @ p @ rest"] Cons by simp
  then show ?case by (simp add: kCRLF_def)
qed simp

section \<open>A request on its way\<close>

text \<open>Host names, media types and addresses as they are written into headers.\<close>

definition header_word :: "string \<Rightarrow> bool" where
  "header_word w \<longleftrightarrow> list_all (\<lambda>c. is_digit c \<or> 97 \<le> code c \<and> code c \<le> 122 \<or> c = CHR ''.'' \<or> c = CHR ''-'' \<or> c = CHR ''/'' \<or> c = CHR ''+'') w"

lemma header_word_char: "header_word w \<Longrightarrow> \<not> is_digit c \<Longrightarrow> code c < 97 \<Longrightarrow> c \<notin> {CHR ''.'', CHR ''-'', CHR ''/'', CHR ''+''} \<Longrightarrow> c \<notin> set w"
  by (auto simp: header_word_def list_all_iff)

definition request_word :: "string \<Rightarrow> bool" where
  "request_word w \<longleftrightarrow> w \<noteq> [] \<and> token w \<and> CHR '':'' \<notin> set w"

definition request_lines :: "string \<Rightarrow> u16 \<Rightarrow> string \<Rightarrow> string \<Rightarrow> string \<Rightarrow> string \<Rightarrow> string list" where
  "request_lines host port accept verb path contentType =
     [verb @ '' '' @ path @ '' HTTP/1.1'', ''Host: '' @ host @ '':'' @ decimal (unat port), ''User-Agent: AES67macOSDriver''] @
     (if accept \<noteq> [] then [''Accept: '' @ accept] else []) @ (if contentType \<noteq> [] then [''Content-Type: '' @ contentType] else [])"

lemma request_text_lines:
  "http_request host port accept verb path body contentType =
     head_text (request_lines host port accept verb path contentType @ [''Content-Length: '' @ decimal (length body), ''Connection: close'']) @ kCRLF @ body"
  by (simp add: http_request_def request_lines_def)

lemma token_return: "token s \<Longrightarrow> CHR 0x0D \<notin> set s"
  by (auto simp: token_def list_all_iff is_space_def code_def)

lemma char_class: "\<not> is_digit (CHR 0x0D)" "\<not> is_digit (CHR ''C'')" "\<not> is_digit (CHR ''L'')" "\<not> is_digit (CHR 0x0A)" "\<not> is_digit (CHR '':'')"
    "code (CHR 0x0D) = 13" "code (CHR ''C'') = 67" "code (CHR ''L'') = 76" "code (CHR 0x0A) = 10"
  by (simp_all add: is_digit_def code_def)

lemma request_header_lines:
  assumes "request_word verb" "request_word path" "header_word host" "header_word accept" "header_word contentType"
  shows "list_all header_line (request_lines host port accept verb path contentType)"
  using assms header_word_char [of host "CHR 0x0D"] header_word_char [of accept "CHR 0x0D"] header_word_char [of contentType "CHR 0x0D"]
    decimal_no_char [of "CHR 0x0D" "unat port"] token_return [of verb] token_return [of path]
  by (auto simp: request_lines_def header_line_def request_word_def char_class)

lemma request_no_length:
  assumes "request_word verb" "request_word path" "header_word host" "header_word accept" "header_word contentType"
  shows "list_all (\<lambda>w. str_find ''Content-Length:'' (w @ [CHR 0x0D]) = None) (request_lines host port accept verb path contentType)"
proof -
  have first: "CHR '':'' \<notin> set ((verb @ '' '' @ path @ '' HTTP/1.1'') @ [CHR 0x0D])" using assms by (simp add: request_word_def)
  have host: "CHR ''C'' \<notin> set ((''Host: '' @ host @ '':'' @ decimal (unat port)) @ [CHR 0x0D])"
    using header_word_char [OF assms(3), of "CHR ''C''"] decimal_no_char [of "CHR ''C''" "unat port"] by (simp add: char_class)
  have agent: "CHR ''C'' \<notin> set (''User-Agent: AES67macOSDriver'' @ [CHR 0x0D])" by simp
  have acc: "CHR ''C'' \<notin> set ((''Accept: '' @ accept) @ [CHR 0x0D])"
    using header_word_char [OF assms(4), of "CHR ''C''"] by (simp add: char_class)
  have ctype: "CHR ''L'' \<notin> set ((''Content-Type: '' @ contentType) @ [CHR 0x0D])"
    using header_word_char [OF assms(5), of "CHR ''L''"] by (simp add: char_class)
  have none: "str_find ''Content-Length:'' w = None" if "CHR '':'' \<notin> set w \<or> CHR ''C'' \<notin> set w \<or> CHR ''L'' \<notin> set w" for w
    using that str_find_absent [of "CHR '':''" "''Content-Length:''" w] str_find_absent [of "CHR ''C''" "''Content-Length:''" w]
      str_find_absent [of "CHR ''L''" "''Content-Length:''" w] by auto
  show ?thesis
    using none [of "(verb @ '' '' @ path @ '' HTTP/1.1'') @ [CHR 0x0D]"] none [of "(''Host: '' @ host @ '':'' @ decimal (unat port)) @ [CHR 0x0D]"]
      none [of "''User-Agent: AES67macOSDriver'' @ [CHR 0x0D]"] none [of "(''Accept: '' @ accept) @ [CHR 0x0D]"]
      none [of "(''Content-Type: '' @ contentType) @ [CHR 0x0D]"] first host agent acc ctype
    unfolding request_lines_def by (simp del: append.simps append_assoc)
qed

lemma scan_after_blank: "scan_number 10 (CHR '' '' # s) = scan_number 10 s"
proof -
  have "is_space (CHR '' '')" by (simp add: is_space_def code_def)
  then show ?thesis by (simp add: scan_number_def)
qed

lemma stop_at_return: "\<not> starts_with_digit 10 (CHR 0x0D # s)"
  by (simp add: starts_with_digit_def is_digit_val char_class)

lemma expected_found:
  assumes "list_all (\<lambda>w. str_find ''Content-Length:'' (w @ [CHR 0x0D]) = None) ws" "n < 2 ^ 64"
  shows "expected_body (head_text (ws @ [''Content-Length: '' @ decimal n]) @ rest) = of_nat n"
proof -
  have t: "head_text (ws @ [''Content-Length: '' @ decimal n]) @ rest = head_text ws @ ''Content-Length:'' @ CHR '' '' # decimal n @ CHR 0x0D # CHR 0x0A # rest"
    by (simp add: kCRLF_def)
  have f: "str_find ''Content-Length:'' (head_text ws @ ''Content-Length:'' @ CHR '' '' # decimal n @ CHR 0x0D # CHR 0x0A # rest) = Some (length (head_text ws))"
    by (rule str_find_lines) (simp_all add: assms(1))
  have d: "drop (length (head_text ws) + 15) (head_text ws @ ''Content-Length:'' @ CHR '' '' # decimal n @ CHR 0x0D # CHR 0x0A # rest) =
      CHR '' '' # decimal n @ CHR 0x0D # CHR 0x0A # rest" by simp
  show ?thesis unfolding expected_body_def t f option.case d strtoul_def scan_after_blank scan_decimal [OF stop_at_return] using assms(2) by simp
qed

text \<open>A request is read whole, in whatever pieces it arrives.\<close>

lemma read_whole:
  assumes found: "str_find (kCRLF @ kCRLF) full = Some blank"
    and expect: "expected_body (take blank full) = of_nat n" and len: "length full = blank + 4 + n" "length full \<le> kMaxRequestBytes"
  shows "t @ concat cs = full \<Longrightarrow> e = - 1 \<or> e = of_nat n \<Longrightarrow> http_read t e cs = full"
proof (induction cs arbitrary: t e)
  case (Cons c cs)
  have small: "unat (of_nat blank + 4 + of_nat n :: u64) = length full" "of_nat n \<noteq> (- 1 :: u64)"
  proof -
    have "blank + 4 + n < 2 ^ 64" using len by (simp add: kMaxRequestBytes_def)
    then show "unat (of_nat blank + 4 + of_nat n :: u64) = length full" using unat_of_nat_small [of "blank + 4 + n", where 'a = 64] len(1) by simp
    have "n < 2 ^ 64 - 1" using len by (simp add: kMaxRequestBytes_def)
    then have "unat (of_nat n :: u64) \<noteq> unat (- 1 :: u64)" by (simp add: unat_of_nat_small unsigned_minus_1_eq_mask mask_eq_exp_minus_1)
    then show "of_nat n \<noteq> (- 1 :: u64)" by metis
  qed
  let ?t = "t @ c"
  have rest: "?t @ concat cs = full" using Cons.prems(1) by simp
  show ?case
  proof (cases "kMaxRequestBytes \<le> length t")
    case True
    have "length t + length c + length (concat cs) = length full" using rest by (metis length_append)
    then have "length c = 0" "length (concat cs) = 0" using True len(2) by linarith+
    then have "t = full" using rest by (metis append.right_neutral length_0_conv)
    then show ?thesis using True by simp
  next
    case False
    show ?thesis
    proof (cases "str_find (kCRLF @ kCRLF) ?t")
      case None
      then show ?thesis using False Cons.IH [OF rest Cons.prems(2)] by simp
    next
      case (Some b)
      from str_find_more [OF Some, of "concat cs"] have b: "b = blank" "blank \<le> length ?t" using found rest by auto
      then have h: "take blank ?t = take blank full" unfolding rest [symmetric] by simp
      have e: "(if e = - 1 then expected_body (take b ?t) else e) = of_nat n" unfolding b(1) h expect using Cons.prems(2) small(2) by auto
      have whole: "?t = full" if "length full \<le> length ?t"
        using that rest by (metis append_Nil2 append_eq_conv_conj take_all)
      show ?thesis using False Some Cons.IH [OF rest, of "of_nat n"] whole
        by (simp add: Let_def e) (simp add: b(1) small(1))
    qed
  qed
qed simp

lemma request_read:
  assumes "request_word verb" "request_word path" "header_word host" "header_word accept" "header_word contentType"
    and "length (http_request host port accept verb path body contentType) \<le> kMaxRequestBytes"
    and "concat pieces = http_request host port accept verb path body contentType"
  shows "http_read [] (- 1) pieces = http_request host port accept verb path body contentType"
proof -
  let ?ws = "request_lines host port accept verb path contentType @ [''Content-Length: '' @ decimal (length body)]"
  let ?full = "http_request host port accept verb path body contentType"
  have full: "?full = head_text (?ws @ [''Connection: close'']) @ kCRLF @ body" by (simp add: request_text_lines)
  have "CHR 0x0D \<notin> set (decimal (length body))" by (simp add: decimal_no_char char_class)
  then have lines: "list_all header_line (?ws @ [''Connection: close''])"
    using request_header_lines [OF assms(1-5)] by (simp add: header_line_def)
  have found: "str_find (kCRLF @ kCRLF) ?full = Some (length (head_text (?ws @ [''Connection: close''])) - 2)"
    unfolding full by (rule blank_found) (simp_all only: lines, simp)
  have len: "length (head_text (?ws @ [''Connection: close''])) - 2 = length (head_text ?ws @ ''Connection: close'')" by (simp add: kCRLF_def)
  have f2: "?full = (head_text ?ws @ ''Connection: close'') @ kCRLF @ kCRLF @ body" unfolding full by simp
  have "take (length a) (a @ b) = a" for a b :: string by simp
  then have h: "take (length (head_text ?ws @ ''Connection: close'')) ?full = head_text ?ws @ ''Connection: close''" unfolding f2 .
  have l: "length ?full = length (head_text ?ws @ ''Connection: close'') + 4 + length body" unfolding f2 by (simp add: kCRLF_def)
  have "length body < 2 ^ 64" using assms(6) l by (simp add: kMaxRequestBytes_def)
  then have e: "expected_body (take (length (head_text ?ws @ ''Connection: close'')) ?full) = of_nat (length body)"
    unfolding h by (intro expected_found request_no_length assms)
  show ?thesis by (rule read_whole [OF found [unfolded len] e l assms(6)]) (simp_all add: assms(7))
qed

section \<open>Requests and answers understood\<close>

lemma decodePath_plain: "CHR ''%'' \<notin> set p \<Longrightarrow> decodePath p = p"
  by (induction p rule: decodePath.induct) auto

lemma request_understood:
  assumes "request_word verb" "request_word path" "header_word host" "header_word accept" "header_word contentType"
    and "CHR ''?'' \<notin> set path" "CHR ''%'' \<notin> set path"
  shows "parseHttpRequest (http_request host port accept verb path body contentType) = Some (verb, path, body)"
proof -
  let ?ws = "request_lines host port accept verb path contentType @ [''Content-Length: '' @ decimal (length body), ''Connection: close'']"
  let ?r = "verb @ CHR '' '' # path @ CHR '' '' # ''HTTP/1.1''"
  have full: "http_request host port accept verb path body contentType = head_text ?ws @ kCRLF @ body" by (rule request_text_lines)
  have "CHR 0x0D \<notin> set (decimal (length body))" by (simp add: decimal_no_char char_class)
  then have lines: "list_all header_line ?ws" using request_header_lines [OF assms(1-5)] by (simp add: header_line_def)
  have "str_find (kCRLF @ kCRLF) (head_text ?ws @ kCRLF @ body) = Some (length (head_text ?ws) - 2)"
    by (rule blank_found) (simp_all only: lines, simp)
  moreover have "2 \<le> length (head_text ?ws)" by (simp add: kCRLF_def)
  ultimately have e: "header_end (head_text ?ws @ kCRLF @ body) = Some (length (head_text ?ws @ kCRLF))"
    unfolding header_end_def by (simp add: kCRLF_def)
  have "take (length (a @ b)) (a @ b @ c) = a @ b" "drop (length (a @ b)) (a @ b @ c) = c" for a b c :: string by simp_all
  then have cut: "take (length (head_text ?ws @ kCRLF)) (head_text ?ws @ kCRLF @ body) = head_text ?ws @ kCRLF"
    "drop (length (head_text ?ws @ kCRLF)) (head_text ?ws @ kCRLF @ body) = body" .
  obtain others where others: "head_text ?ws @ kCRLF = (?r @ [CHR 0x0D]) @ CHR 0x0A # others" by (simp add: request_lines_def kCRLF_def)
  have nl: "CHR 0x0A \<notin> set (?r @ [CHR 0x0D])" using token_newline assms(1,2) by (auto simp: request_word_def)
  have g: "getline_parts (CHR 0x0A) (head_text ?ws @ kCRLF) = (?r @ [CHR 0x0D]) # getline_parts (CHR 0x0A) others"
    unfolding others by (rule getline_parts_append [OF nl])
  have v: "token ''HTTP/1.1''" by (simp add: token_def is_space_def code_def)
  have w: "token verb" "verb \<noteq> []" "token path" "path \<noteq> []" using assms(1,2) by (simp_all add: request_word_def)
  have "\<not> is_space (hd verb)" using w(1,2) by (cases verb) (auto simp: token_def)
  then have "\<not> is_space (hd ?r)" "\<not> is_space (last ?r)" using w(2) by (auto simp: hd_append is_space_def code_def)
  then have tr: "trimmed (?r @ [CHR 0x0D]) = ?r" by (intro trimmed_solid) simp_all
  have sw: "stream_words ?r = [verb, path, ''HTTP/1.1'']"
    unfolding stream_words_token(1) [OF w(1,2)] stream_words_token(1) [OF w(3,4)] stream_words_token(2) [OF v list.distinct(2)] ..
  have tw: "takeWhile (\<lambda>c. c \<noteq> CHR ''?'') path = path" using assms(6) by (auto simp: takeWhile_eq_all_conv)
  show ?thesis unfolding parseHttpRequest_def full e option.case cut g list.case tr sw tw decodePath_plain [OF assms(7)] by simp
qed

lemma str_find_crlf: "CHR 0x0D \<notin> set line \<Longrightarrow> str_find kCRLF (line @ kCRLF @ rest) = Some (length line)"
  by (induction line) (auto simp: kCRLF_def)

lemma next_line_crlf: "CHR 0x0D \<notin> set line \<Longrightarrow> next_line (line @ kCRLF @ rest) = (line, rest)"
  by (simp add: next_line_def str_find_crlf) (simp add: kCRLF_def)

lemma small_number: "n < 2 ^ 63 \<Longrightarrow> parseSmallNumber (decimal n) = Some n"
  using scan_decimal [of "[]" n] by (simp add: parseSmallNumber_def)

lemma header_other:
  assumes "CHR 0x0D \<notin> set v" "CHR '':'' \<notin> set name" "CHR 0x0D \<notin> set name" "to_lower name \<noteq> wanted"
  shows "header_lines wanted (name @ '': '' @ v @ kCRLF @ rest) = header_lines wanted rest"
proof -
  have n: "next_line (name @ '': '' @ v @ kCRLF @ rest) = (name @ '': '' @ v, rest)"
    using next_line_crlf [of "name @ '': '' @ v" rest] assms by simp
  have c: "cut_first (CHR '':'') (name @ '': '' @ v) = Some (name, '' '' @ v)" using cut_first_append [OF assms(2)] by simp
  show ?thesis by (subst header_lines.simps) (simp only: n c split option.case Let_def assms(4), simp)
qed

lemma header_this:
  assumes "CHR 0x0D \<notin> set name" "CHR '':'' \<notin> set name" "to_lower name = wanted"
  shows "header_lines wanted (name @ '': '' @ decimal n @ kCRLF @ rest) = decimal n"
proof -
  have n: "next_line (name @ '': '' @ decimal n @ kCRLF @ rest) = (name @ '': '' @ decimal n, rest)"
    using next_line_crlf [of "name @ '': '' @ decimal n" rest] assms(1) decimal_no_char [of "CHR 0x0D" n] by (simp add: char_class)
  have c: "cut_first (CHR '':'') (name @ '': '' @ decimal n) = Some (name, '' '' @ decimal n)" using cut_first_append [OF assms(2)] by simp
  have nb: "\<not> http_blank c" if "c \<in> set (decimal n)" for c using decimal_digits [OF that] by (auto simp: http_blank_def is_digit_def code_def)
  have "dropWhile http_blank (decimal n) = decimal n" using nb decimal_hd [of n] by (auto simp: dropWhile_eq_self_iff)
  then have d: "dropWhile http_blank ('' '' @ decimal n) = decimal n" by (simp add: http_blank_def)
  have e: "drop_end http_blank (decimal n) = decimal n" using nb [OF last_in_set [OF decimal_nonempty]] by (intro drop_end_id) simp
  show ?thesis by (subst header_lines.simps) (simp only: n c split option.case Let_def assms(3) d e, simp)
qed

lemma received_whole: "length raw + length (concat cs) \<le> kMaxBodyBytes + 8192 \<Longrightarrow> recv_answer raw cs = raw @ concat cs"
  by (induction cs arbitrary: raw) simp_all

definition answer_lines :: "int \<Rightarrow> string \<Rightarrow> nat \<Rightarrow> string list" where
  "answer_lines status contentType n =
     [''HTTP/1.1 '' @ decimal_int status @ '' '' @ statusTextFor status, ''Content-Type: '' @ contentType, ''Content-Length: '' @ decimal n,
      ''Access-Control-Allow-Origin: *'', ''Access-Control-Allow-Methods: GET, PUT, POST, PATCH, DELETE, HEAD, OPTIONS'',
      ''Access-Control-Allow-Headers: Content-Type, Accept, Authorization'', ''Access-Control-Max-Age: 3600'']"

lemma answer_text_lines:
  "buildHttpResponse status contentType body = head_text (answer_lines status contentType (length body) @ [''Connection: close'']) @ kCRLF @ body"
  by (simp add: buildHttpResponse_def answer_lines_def)

lemma answer_understood:
  assumes "100 \<le> status" "status \<le> 599" "CHR 0x0D \<notin> set contentType" "n \<le> kMaxBodyBytes"
  shows "read_answer host (head_text (answer_lines status contentType n @ [''Connection: close'']) @ kCRLF @ body) =
    \<lparr>hr_status = status, hr_body = take n body, hr_error = []\<rparr>"
proof -
  let ?ws = "answer_lines status contentType n"
  let ?head = "head_text ?ws @ ''Connection: close''"
  have st: "decimal_int status = decimal (nat status)" using assms(1) by (simp add: decimal_int_def)
  have cr: "CHR 0x0D \<notin> set (decimal n)" for n by (simp add: decimal_no_char char_class)
  have sl: "CHR 0x0D \<notin> set (statusTextFor status)" by (simp add: statusTextFor_def)
  have lines: "list_all header_line (?ws @ [''Connection: close''])"
    using cr sl assms(3) by (simp add: answer_lines_def header_line_def st)
  have raw: "head_text (?ws @ [''Connection: close'']) @ kCRLF @ body = ?head @ kCRLF @ kCRLF @ body" by simp
  have "str_find (kCRLF @ kCRLF) (head_text (?ws @ [''Connection: close'']) @ kCRLF @ body) = Some (length (head_text (?ws @ [''Connection: close''])) - 2)"
    by (rule blank_found) (simp_all only: lines, simp)
  moreover have "length (head_text (?ws @ [''Connection: close''])) - 2 = length ?head" by (simp add: kCRLF_def)
  ultimately have f: "str_find (kCRLF @ kCRLF) (?head @ kCRLF @ kCRLF @ body) = Some (length ?head)" by simp
  have "take (length a) (a @ b) = a" "drop (length a + 4) (a @ kCRLF @ kCRLF @ c) = c" for a b c :: string by (simp_all add: kCRLF_def)
  then have cut: "take (length ?head) (?head @ kCRLF @ kCRLF @ body) = ?head" "drop (length ?head + 4) (?head @ kCRLF @ kCRLF @ body) = body" .
  obtain rest where rest: "?head = (''HTTP/1.1 '' @ decimal (nat status) @ '' '' @ statusTextFor status) @ kCRLF @ ''Content-Type'' @ '': '' @ contentType @ kCRLF @
      ''Content-Length'' @ '': '' @ decimal n @ kCRLF @ rest"
    by (simp add: answer_lines_def st)
  have sp: "cut_first (CHR '' '') ?head = Some (''HTTP/1.1'', decimal (nat status) @ CHR '' '' # statusTextFor status @ kCRLF @ ''Content-Type'' @ '': '' @ contentType @ kCRLF @
      ''Content-Length'' @ '': '' @ decimal n @ kCRLF @ rest)"
    unfolding rest using cut_first_append [of "CHR '' ''" "''HTTP/1.1''"] by simp
  have tw: "takeWhile (\<lambda>c. c \<noteq> CHR '' '') (decimal (nat status) @ CHR '' '' # s) = decimal (nat status)" for s
    by (rule takeWhile_until) (simp add: decimal_no_char is_digit_def code_def)
  have pn: "parseSmallNumber (decimal (nat status)) = Some (nat status)" "parseSmallNumber (decimal n) = Some n"
    using assms by (intro small_number; simp add: kMaxBodyBytes_def)+
  have "CHR 0x0D \<notin> set (''HTTP/1.1 '' @ decimal (nat status) @ '' '' @ statusTextFor status)" using cr sl by simp
  then have nl: "str_find kCRLF ?head = Some (length (''HTTP/1.1 '' @ decimal (nat status) @ '' '' @ statusTextFor status))"
    unfolding rest by (rule str_find_crlf)
  have hv: "headerValue ?head ''Content-Length'' = decimal n"
  proof -
    have dr: "drop (length a + 2) (a @ kCRLF @ b) = b" for a b :: string by (simp add: kCRLF_def)
    have lo: "to_lower ''Content-Length'' = ''content-length''" "to_lower ''Content-Type'' = ''content-type''" by code_simp+
    show ?thesis unfolding headerValue_def nl option.case unfolding rest dr lo
      by (subst header_other; (rule header_this)?) (simp_all add: assms(3) lo)
  qed
  have ne: "?head @ kCRLF @ kCRLF @ body \<noteq> []" by simp
  have range: "\<not> (nat status < 100 \<or> 599 < nat status)" using assms(1,2) by linarith
  show ?thesis unfolding read_answer_def raw f option.case cut Let_def sp prod.case tw pn hv
    using range ne assms(1,4) by (simp add: bounded_body_def pn)
qed

section \<open>Theorems\<close>


definition echo_handler :: "nat api_handler" where
  "echo_handler verb path body n = (\<lparr>rsp_status = 200, rsp_contentType = ''text/plain'', rsp_body = path @ body\<rparr>, n + 1)"


lemma slash_escape: "\<not> is_xdigit (CHR ''/'')"
  by (simp add: is_xdigit_def digit_val_def code_def)

lemma decodePath_slash: "decodePath (CHR ''/'' # s) = CHR ''/'' # decodePath s"
  by (cases s; cases "tl s") auto

lemma decodePath_cut:
  "CHR ''/'' \<notin> set w \<Longrightarrow> decodePath (w @ CHR ''/'' # s) = decodePath w @ CHR ''/'' # decodePath s \<and> CHR ''/'' \<notin> set (decodePath w)"
proof (induction w rule: decodePath.induct)
  case (1 p high low rest)
  then show ?case by auto
next
  case (2 a b)
  then show ?case by (cases s) (auto simp: slash_escape decodePath_slash)
next
  case (3 a)
  then show ?case by (cases s) (auto simp: slash_escape decodePath_slash)
qed (simp add: decodePath_slash)

text \<open>
  Decoding a path never creates or removes a separator: the segments of the decoded path are the decoded segments of the
  path, so an escaped slash stays inside its segment.
\<close>

theorem decoded_segments:
  "split_on (CHR ''/'') (decodePath p) = map decodePath (split_on (CHR ''/'') p)"
proof (induction p rule: length_induct)
  case (1 p)
  show ?case
  proof (cases "CHR ''/'' \<in> set p")
    case True
    then obtain w s where p: "p = w @ CHR ''/'' # s" "CHR ''/'' \<notin> set w" by (metis split_list_first)
    then show ?thesis using 1 decodePath_cut [OF p(2), of s] by (simp add: split_on_append)
  next
    case False
    then show ?thesis using decodePath_cut [OF False, of "[]"] by (simp add: split_on_plain)
  qed
qed

text \<open>
  An answer that is cut off in its body is taken for a complete one: the client reports the status and no error, with the part
  of the body that arrived.
\<close>

theorem truncated_answer_accepted:
  assumes "100 \<le> status" "status \<le> 599" "CHR 0x0D \<notin> set contentType" "length (body @ unsent) \<le> kMaxBodyBytes"
    and "buildHttpResponse status contentType (body @ unsent) = sent @ unsent"
  shows "read_answer host sent = \<lparr>hr_status = status, hr_body = body, hr_error = []\<rparr>"
proof -
  have "sent = head_text (answer_lines status contentType (length (body @ unsent)) @ [''Connection: close'']) @ kCRLF @ body"
    using assms(5) unfolding answer_text_lines by simp
  then show ?thesis using answer_understood [OF assms(1-4), of host body] by simp
qed

theorem truncated_answer_accepted_witness:
  "\<exists>sent. buildHttpResponse 200 ''text/plain'' (''ab'' @ ''cd'') = sent @ ''cd'' \<and>
     read_answer ''h'' sent = \<lparr>hr_status = 200, hr_body = ''ab'', hr_error = []\<rparr>"
proof -
  let ?sent = "head_text (answer_lines 200 ''text/plain'' (length (''ab'' @ ''cd'')) @ [''Connection: close'']) @ kCRLF @ ''ab''"
  have s: "buildHttpResponse 200 ''text/plain'' (''ab'' @ ''cd'') = ?sent @ ''cd''" unfolding answer_text_lines by simp
  have "read_answer ''h'' ?sent = \<lparr>hr_status = 200, hr_body = ''ab'', hr_error = []\<rparr>"
    by (rule truncated_answer_accepted [OF _ _ _ _ s]) (simp_all add: kMaxBodyBytes_def)
  with s show ?thesis by blast
qed

end
