(* ===== verification/Node_Api.thy ===== *)
theory Node_Api
  imports Channel_Mapping_Api
begin

text \<open>
  The NMOS IS-04 node interface: \<open>src/packages/aes67-ravenna/Ravenna/NodeApi.h\<close> and \<open>NodeApi.cpp\<close>, and the listing above the
  interfaces, \<open>NmosRoot.cpp\<close>. Resources are built from the session catalogue and the connection interface on
  every read; the interface itself keeps only the last shape and version of each (\<open>versions\<close>). \<open>std::hash\<close>
  is a parameter, the clock text \<open>now\<close> is read once per operation.
\<close>

section \<open>State\<close>

record node_identity =
  ni_nodeId :: string
  ni_deviceId :: string
  ni_label :: string
  ni_description :: string
  ni_hostName :: string
  ni_addressV4 :: u32
  ni_apiPort :: u16
  ni_interfaceName :: string
  ni_interfaceMac :: string
  ni_ptpGrandmaster :: string

text \<open>\<open>na_mapping\<close> is the last activation of the channel mapping interface, \<open>None\<close> without one.\<close>

record node_api =
  na_identity :: node_identity
  na_catalogue :: catalogue
  na_connections :: connection_api
  na_mapping :: "string option"
  na_hash :: "string \<Rightarrow> u64"

type_synonym versions = "(string, string \<times> string) stdmap"

definition kNodeApiRoot :: string where "kNodeApiRoot = ''/x-nmos/node/v1.3''"
definition kTransportRtpMulticast :: string where "kTransportRtpMulticast = ''urn:x-nmos:transport:rtp.mcast''"
definition kNmosNodeService :: string where "kNmosNodeService = ''_nmos-node._tcp.local''"

section \<open>Identifiers and versions\<close>

definition hex_digits :: "nat \<Rightarrow> u64 \<Rightarrow> string" where
  "hex_digits w v = map (\<lambda>i. digit_char ((unat v div 16 ^ (w - 1 - i)) mod 16)) [0..<w]"

definition stableUuidFrom :: "(string \<Rightarrow> u64) \<Rightarrow> string \<Rightarrow> string" where
  "stableUuidFrom hash name =
     (let high = hash (''aes67-ravenna/'' @ name); low = hash (name @ ''/aes67-ravenna'') in
      hex_digits 8 (drop_bit 32 high) @ ''-'' @ hex_digits 4 (drop_bit 16 high AND 0xFFFF) @ ''-5'' @
      hex_digits 3 (high AND 0x0FFF) @ ''-a'' @ hex_digits 3 (drop_bit 52 low AND 0x0FFF) @ ''-'' @
      hex_digits 12 (low AND 0xFFFFFFFFFFFF))"

definition oneLabel :: "string \<Rightarrow> string" where
  "oneLabel name = map (\<lambda>c. if c = CHR ''.'' then CHR '' '' else c) name"

definition versioned :: "string \<Rightarrow> (string, json) stdmap \<Rightarrow> string \<Rightarrow> versions \<Rightarrow> json \<times> versions" where
  "versioned now resource alsoWhenThisChanges vs =
     (let i = (case map_find resource ''id'' of Some v \<Rightarrow> asString v | None \<Rightarrow> []);
          serialised = serialise (JObject (map_erase ''version'' resource)) @ alsoWhenThisChanges;
          known = (case map_find vs i of Some k \<Rightarrow> k | None \<Rightarrow> ([], []));
          known' = (if fst known \<noteq> serialised then (serialised, now) else known)
      in (JObject (map_put ''version'' (JString (snd known')) resource), map_put i known' vs))"

definition senderIdFor :: "node_api \<Rightarrow> string \<Rightarrow> string" where
  "senderIdFor na sessionName =
     (case find (\<lambda>i. case ca_sender i (na_connections na) of Some s \<Rightarrow> cx_label s = sessionName | None \<Rightarrow> False)
             (senderIds (na_connections na)) of
        Some i \<Rightarrow> i
      | None \<Rightarrow> stableUuidFrom (na_hash na) (ni_nodeId (na_identity na) @ ''/sender/'' @ sessionName))"

definition sourceIdFor :: "node_api \<Rightarrow> string \<Rightarrow> string" where
  "sourceIdFor na sessionName = stableUuidFrom (na_hash na) (ni_nodeId (na_identity na) @ ''/source/'' @ sessionName)"

definition flowIdFor :: "node_api \<Rightarrow> string \<Rightarrow> string" where
  "flowIdFor na sessionName = stableUuidFrom (na_hash na) (ni_nodeId (na_identity na) @ ''/flow/'' @ sessionName)"

definition node_base :: "node_api \<Rightarrow> string" where
  "node_base na = ''http://'' @ addressText (ni_addressV4 (na_identity na)) @ '':'' @ decimal (unat (ni_apiPort (na_identity na)))"

section \<open>Resources\<close>

text \<open>Each resource as the object that is stamped, with what its version also depends on.\<close>

type_synonym draft = "(string, json) stdmap \<times> string"

definition tagsEmpty :: json where "tagsEmpty = JObject []"

definition self_draft :: "node_api \<Rightarrow> draft" where
  "self_draft na =
     (let d = na_identity na;
          api = json_object
            [(''versions'', JArray [JString ''v1.3'']),
             (''endpoints'', JArray [json_object [(''host'', JString (addressText (ni_addressV4 d))),
                (''port'', JInt (uint (ni_apiPort d))), (''protocol'', JString ''http''), (''authorization'', JBool False)]])];
          clock = json_object ([(''name'', JString ''clk0'')] @
            (if ni_ptpGrandmaster d = [] then [(''ref_type'', JString ''internal'')]
             else [(''ref_type'', JString ''ptp''), (''traceable'', JBool False), (''version'', JString ''IEEE1588-2008''),
                   (''gmid'', JString (lowered (ni_ptpGrandmaster d))), (''locked'', JBool True)]))
      in (asObject (json_object
           [(''id'', JString (ni_nodeId d)), (''label'', JString (ni_label d)), (''description'', JString (ni_description d)),
            (''tags'', tagsEmpty), (''href'', JString (node_base na @ ''/'')), (''hostname'', JString (ni_hostName d)),
            (''api'', api), (''caps'', JObject []), (''services'', JArray []), (''clocks'', JArray [clock]),
            (''interfaces'', JArray [json_object [(''name'', JString (ni_interfaceName d)), (''chassis_id'', JNull),
               (''port_id'', JString (ni_interfaceMac d))]])]), []))"

definition device_draft :: "node_api \<Rightarrow> draft" where
  "device_draft na =
     (let d = na_identity na;
          control = (\<lambda>path kind. json_object [(''href'', JString (node_base na @ path)), (''type'', JString kind), (''authorization'', JBool False)])
      in (asObject (json_object
           [(''id'', JString (ni_deviceId d)), (''label'', JString (ni_label d)), (''description'', JString (ni_description d)),
            (''tags'', tagsEmpty), (''type'', JString ''urn:x-nmos:device:audio''), (''node_id'', JString (ni_nodeId d)),
            (''senders'', JArray (map (\<lambda>name. JString (senderIdFor na name)) (cat_names (na_catalogue na)))),
            (''receivers'', JArray (map JString (receiverIds (na_connections na)))),
            (''controls'', JArray [control (kConnectionApiRoot @ ''/'') ''urn:x-nmos:control:sr-ctrl/v1.1'',
               control ''/x-nmos/channelmapping/v1.0/'' ''urn:x-nmos:control:cm-ctrl/v1.0''])]),
         case na_mapping na of Some t \<Rightarrow> t | None \<Rightarrow> []))"

definition source_draft :: "node_api \<Rightarrow> string \<Rightarrow> ravenna_session \<Rightarrow> draft" where
  "source_draft na name s = (asObject (json_object
     [(''id'', JString (sourceIdFor na name)), (''label'', JString name), (''description'', JString []), (''tags'', tagsEmpty),
      (''caps'', JObject []), (''device_id'', JString (ni_deviceId (na_identity na))), (''parents'', JArray []),
      (''clock_name'', JString ''clk0''), (''format'', JString ''urn:x-nmos:format:audio''),
      (''channels'', channelLabels (sd_numChannels (rs_sdp s)) ''Channel'')]), [])"

definition flow_draft :: "node_api \<Rightarrow> string \<Rightarrow> ravenna_session \<Rightarrow> draft" where
  "flow_draft na name s = (asObject (json_object
     [(''id'', JString (flowIdFor na name)), (''label'', JString name), (''description'', JString []), (''tags'', tagsEmpty),
      (''device_id'', JString (ni_deviceId (na_identity na))), (''source_id'', JString (sourceIdFor na name)), (''parents'', JArray []),
      (''format'', JString ''urn:x-nmos:format:audio''), (''media_type'', JString (''audio/'' @ sd_encoding (rs_sdp s))),
      (''sample_rate'', json_object [(''numerator'', JInt (sint (sd_sampleRate (rs_sdp s)))), (''denominator'', JInt 1)]),
      (''bit_depth'', JInt (if sd_encoding (rs_sdp s) = ''L16'' then 16 else 24))]), [])"

definition sender_draft :: "node_api \<Rightarrow> string \<Rightarrow> ravenna_session \<Rightarrow> draft" where
  "sender_draft na name s =
     (let i = senderIdFor na name; connection = ca_sender i (na_connections na);
          active = (case connection of Some c \<Rightarrow> cs_masterEnable (cx_active c) | None \<Rightarrow> False);
          subscribed = (case connection of Some c \<Rightarrow> if active \<and> cs_receiverId (cx_active c) \<noteq> [] then JString (cs_receiverId (cx_active c)) else JNull
                        | None \<Rightarrow> JNull)
      in (asObject (json_object
           [(''id'', JString i), (''label'', JString name), (''description'', JString []), (''tags'', tagsEmpty),
            (''device_id'', JString (ni_deviceId (na_identity na))), (''flow_id'', JString (flowIdFor na name)),
            (''transport'', JString kTransportRtpMulticast), (''interface_bindings'', JArray [JString (ni_interfaceName (na_identity na))]),
            (''manifest_href'', JString (node_base na @ kConnectionApiRoot @ ''/single/senders/'' @ i @ ''/transportfile/'')),
            (''subscription'', json_object [(''receiver_id'', subscribed), (''active'', JBool active)])]),
         case connection of Some c \<Rightarrow> cs_activationTime (cx_active c) | None \<Rightarrow> []))"

definition receiver_draft :: "node_api \<Rightarrow> string \<Rightarrow> conn_receiver \<Rightarrow> draft" where
  "receiver_draft na i c =
     (let active = cs_masterEnable (cr_active c) in
      (asObject (json_object
         [(''id'', JString i), (''label'', JString (if cr_label c = [] then i else cr_label c)), (''description'', JString []), (''tags'', tagsEmpty),
          (''device_id'', JString (ni_deviceId (na_identity na))), (''transport'', JString kTransportRtpMulticast),
          (''interface_bindings'', JArray [JString (ni_interfaceName (na_identity na))]), (''format'', JString ''urn:x-nmos:format:audio''),
          (''caps'', json_object [(''media_types'', JArray [JString ''audio/L24'', JString ''audio/L16''])]),
          (''subscription'', json_object
             [(''sender_id'', if active \<and> cs_senderId (cr_active c) \<noteq> [] then JString (cs_senderId (cr_active c)) else JNull),
              (''active'', JBool active)])]),
       cs_activationTime (cr_active c)))"

definition of_sessions :: "node_api \<Rightarrow> (string \<Rightarrow> ravenna_session \<Rightarrow> draft) \<Rightarrow> draft list" where
  "of_sessions na f = List.map_filter (\<lambda>name. map_option (f name) (cat_session name (na_catalogue na))) (cat_names (na_catalogue na))"

definition receiver_drafts :: "node_api \<Rightarrow> draft list" where
  "receiver_drafts na = List.map_filter (\<lambda>i. map_option (receiver_draft na i) (ca_receiver i (na_connections na))) (receiverIds (na_connections na))"

fun stamp_all :: "string \<Rightarrow> draft list \<Rightarrow> versions \<Rightarrow> json list \<times> versions" where
  "stamp_all now [] vs = ([], vs)"
| "stamp_all now (d # ds) vs =
     (let (j, vs1) = versioned now (fst d) (snd d) vs; (js, vs2) = stamp_all now ds vs1 in (j # js, vs2))"

definition self_of :: "string \<Rightarrow> node_api \<Rightarrow> versions \<Rightarrow> json \<times> versions" where
  "self_of now na vs = versioned now (fst (self_draft na)) (snd (self_draft na)) vs"

definition devices :: "string \<Rightarrow> node_api \<Rightarrow> versions \<Rightarrow> json list \<times> versions" where
  "devices now na vs = stamp_all now [device_draft na] vs"

definition sources :: "string \<Rightarrow> node_api \<Rightarrow> versions \<Rightarrow> json list \<times> versions" where
  "sources now na vs = stamp_all now (of_sessions na (source_draft na)) vs"

definition flows :: "string \<Rightarrow> node_api \<Rightarrow> versions \<Rightarrow> json list \<times> versions" where
  "flows now na vs = stamp_all now (of_sessions na (flow_draft na)) vs"

definition node_senders :: "string \<Rightarrow> node_api \<Rightarrow> versions \<Rightarrow> json list \<times> versions" where
  "node_senders now na vs = stamp_all now (of_sessions na (sender_draft na)) vs"

definition node_receivers :: "string \<Rightarrow> node_api \<Rightarrow> versions \<Rightarrow> json list \<times> versions" where
  "node_receivers now na vs = stamp_all now (receiver_drafts na) vs"

definition node_advertisement :: "node_api \<Rightarrow> session_ad" where
  "node_advertisement na = \<lparr>sa_instanceName = oneLabel (ni_label (na_identity na)), sa_hostName = ni_hostName (na_identity na),
     sa_port = ni_apiPort (na_identity na), sa_addressV4 = ni_addressV4 (na_identity na),
     sa_txtEntries = [''api_ver=v1.3'', ''api_proto=http'', ''api_auth=false'', ''ver_slf=0''], serviceType = kNmosNodeService, subtype = []\<rparr>"

definition resourcesInRegistrationOrder :: "string \<Rightarrow> node_api \<Rightarrow> versions \<Rightarrow> (string \<times> json) list \<times> versions" where
  "resourcesInRegistrationOrder now na vs =
     (let (n, v1) = self_of now na vs; (ds, v2) = devices now na v1; (ss, v3) = sources now na v2;
          (fs, v4) = flows now na v3; (xs, v5) = node_senders now na v4; (rs, v6) = node_receivers now na v5
      in ([(''node'', n)] @ map (Pair ''device'') ds @ map (Pair ''source'') ss @ map (Pair ''flow'') fs @
          map (Pair ''sender'') xs @ map (Pair ''receiver'') rs, v6))"

section \<open>Requests\<close>

definition node_collection :: "string \<Rightarrow> node_api \<Rightarrow> versions \<Rightarrow> string \<Rightarrow> (json list \<times> versions) option" where
  "node_collection now na vs collection =
     (if collection = ''devices'' then Some (devices now na vs)
      else if collection = ''sources'' then Some (sources now na vs)
      else if collection = ''flows'' then Some (flows now na vs)
      else if collection = ''senders'' then Some (node_senders now na vs)
      else if collection = ''receivers'' then Some (node_receivers now na vs)
      else None)"

definition node_segments :: "string \<Rightarrow> node_api \<Rightarrow> string \<Rightarrow> string list \<Rightarrow> versions \<Rightarrow> api_response \<times> versions" where
  "node_segments now na verb segments vs =
     (if length segments = 3 \<and> segments ! 0 = ''receivers'' \<and> segments ! 2 = ''target''
      then (if verb = ''PUT''
            then (errorResponse 501 (''connect over IS-05, at '' @ kConnectionApiRoot @ ''/single/receivers/''), vs)
            else (errorResponse 405 ''only PUT here'', vs))
      else if verb \<noteq> ''GET'' then (errorResponse 405 ''the node API is read-only'', vs)
      else (case segments of
          [] \<Rightarrow> (listResponse [''devices/'', ''flows/'', ''receivers/'', ''self/'', ''senders/'', ''sources/''], vs)
        | collection # rest \<Rightarrow>
            if collection = ''self'' then (let (n, v) = self_of now na vs in (jsonResponse 200 n, v))
            else (case node_collection now na vs collection of
                None \<Rightarrow> (errorResponse 404 ''no such collection'', vs)
              | Some (items, v) \<Rightarrow>
                  (case rest of
                     [] \<Rightarrow> (jsonResponse 200 (JArray items), v)
                   | i # _ \<Rightarrow> (case find (\<lambda>item. asString (member_of item ''id'') = i) items of
                         Some item \<Rightarrow> (jsonResponse 200 item, v)
                       | None \<Rightarrow> (errorResponse 404 (''no '' @ collection @ '' with id '' @ i), v))))))"

definition node_handle :: "string \<Rightarrow> node_api \<Rightarrow> string \<Rightarrow> string \<Rightarrow> versions \<Rightarrow> api_response \<times> versions" where
  "node_handle now na verb path vs =
     (if take (length kNodeApiRoot) path \<noteq> kNodeApiRoot then (errorResponse 404 (''this device serves '' @ kNodeApiRoot), vs)
      else node_segments now na verb (segmentsOf (drop (length kNodeApiRoot) path)) vs)"

section \<open>The listing above the interfaces\<close>

definition kNmosRoot :: string where "kNmosRoot = ''/x-nmos''"

definition split_root :: "string \<Rightarrow> string \<times> string" where
  "split_root apiRoot =
     (let tail = drop (length kNmosRoot + 1) apiRoot in
      (takeWhile (\<lambda>c. c \<noteq> CHR ''/'') tail, drop 1 (dropWhile (\<lambda>c. c \<noteq> CHR ''/'') tail)))"

definition withoutTrailingSlash :: "string \<Rightarrow> string" where
  "withoutTrailingSlash path = (if length path > 1 \<and> last path = CHR ''/'' then butlast path else path)"

definition nmosRootListing :: "string \<Rightarrow> string \<Rightarrow> api_response option" where
  "nmosRootListing verb path =
     (let apis = [split_root kChannelMappingApiRoot, split_root kConnectionApiRoot, split_root kNodeApiRoot];
          resource = withoutTrailingSlash path in
      if resource = kNmosRoot
      then Some (if verb \<noteq> ''GET'' then errorResponse 405 ''only GET here'' else listResponse (map (\<lambda>a. fst a @ ''/'') apis))
      else (case find (\<lambda>a. resource = kNmosRoot @ ''/'' @ fst a) apis of
          Some a \<Rightarrow> Some (if verb \<noteq> ''GET'' then errorResponse 405 ''only GET here'' else listResponse [snd a @ ''/''])
        | None \<Rightarrow> None))"

section \<open>Stamping\<close>

abbreviation draft_id :: "draft \<Rightarrow> string" where
  "draft_id d \<equiv> asString (member_of (JObject (fst d)) ''id'')"

definition shape_of :: "draft \<Rightarrow> string" where
  "shape_of d = serialise (JObject (map_erase ''version'' (fst d))) @ snd d"

text \<open>The shape and version that are on file for a resource after it was stamped.\<close>

definition stamped_as :: "string \<Rightarrow> draft \<Rightarrow> versions \<Rightarrow> string \<times> string" where
  "stamped_as now d vs = (case map_find vs (draft_id d) of
     Some k \<Rightarrow> if fst k = shape_of d then k else (shape_of d, now)
   | None \<Rightarrow> (if shape_of d = [] then ([], []) else (shape_of d, now)))"

lemma versioned_eq:
  "versioned now (fst d) (snd d) vs =
     (JObject (map_put ''version'' (JString (snd (stamped_as now d vs))) (fst d)), map_put (draft_id d) (stamped_as now d vs) vs)"
  by (auto simp: versioned_def stamped_as_def shape_of_def member_of_def Let_def split: option.split)

lemma stamped_shape: "fst (stamped_as now d vs) = shape_of d"
  by (simp add: stamped_as_def split: option.split)

declare stamp_all.simps [simp del]

lemma stamp_all_simps [simp]:
  "fst (stamp_all now [] vs) = []" "snd (stamp_all now [] vs) = vs"
  "fst (stamp_all now (d # ds) vs) =
     JObject (map_put ''version'' (JString (snd (stamped_as now d vs))) (fst d)) # fst (stamp_all now ds (map_put (draft_id d) (stamped_as now d vs) vs))"
  "snd (stamp_all now (d # ds) vs) = snd (stamp_all now ds (map_put (draft_id d) (stamped_as now d vs) vs))"
  by (simp_all add: stamp_all.simps versioned_eq Let_def split_def)

lemma stamp_append:
  "stamp_all now (ds @ ds') vs =
     (let (js, v) = stamp_all now ds vs; (js', v') = stamp_all now ds' v in (js @ js', v'))"
  by (induction ds arbitrary: vs) (simp_all add: stamp_all.simps Let_def split_def)

lemma stamp_length [simp]: "length (fst (stamp_all now ds vs)) = length ds"
  by (induction ds arbitrary: vs) simp_all

lemma stamp_members:
  "k \<noteq> ''version'' \<Longrightarrow> map (\<lambda>j. member_of j k) (fst (stamp_all now ds vs)) = map (\<lambda>d. member_of (JObject (fst d)) k) ds"
  by (induction ds arbitrary: vs) (simp_all add: member_of_def)

lemma stamp_other: "i \<notin> draft_id ` set ds \<Longrightarrow> map_find (snd (stamp_all now ds vs)) i = map_find vs i"
  by (induction ds arbitrary: vs) auto

lemma stamped_elsewhere: "draft_id e \<noteq> i \<Longrightarrow> stamped_as now e (map_put i x vs) = stamped_as now e vs"
  by (simp add: stamped_as_def)

lemma stamp_nth:
  "distinct (map draft_id ds) \<Longrightarrow> n < length ds \<Longrightarrow>
   fst (stamp_all now ds vs) ! n = JObject (map_put ''version'' (JString (snd (stamped_as now (ds ! n) vs))) (fst (ds ! n))) \<and>
   map_find (snd (stamp_all now ds vs)) (draft_id (ds ! n)) = Some (stamped_as now (ds ! n) vs)"
proof (induction ds arbitrary: n vs)
  case (Cons d ds)
  have other: "draft_id d \<notin> draft_id ` set ds" using Cons.prems(1) by simp
  show ?case
  proof (cases n)
    case 0
    then show ?thesis using stamp_other [OF other] by simp
  next
    case (Suc k)
    then have "ds ! k \<in> set ds" using Cons.prems(2) by simp
    then have mem: "draft_id (ds ! k) \<in> draft_id ` set ds" by (rule imageI)
    have "draft_id (ds ! k) \<noteq> draft_id d"
    proof
      assume "draft_id (ds ! k) = draft_id d"
      with mem have "draft_id d \<in> draft_id ` set ds" by (simp only:)
      with other show False by (rule notE)
    qed
    then have e: "stamped_as now (ds ! k) (map_put (draft_id d) x vs) = stamped_as now (ds ! k) vs" for x by (rule stamped_elsewhere)
    have "distinct (map draft_id ds)" "k < length ds" using Cons.prems Suc by simp_all
    from Cons.IH [OF this, of "map_put (draft_id d) (stamped_as now d vs) vs"] show ?thesis unfolding e by (simp add: Suc)
  qed
qed simp

section \<open>The order of registration\<close>

definition all_drafts :: "node_api \<Rightarrow> (string \<times> draft) list" where
  "all_drafts na = [(''node'', self_draft na), (''device'', device_draft na)] @
     map (Pair ''source'') (of_sessions na (source_draft na)) @ map (Pair ''flow'') (of_sessions na (flow_draft na)) @
     map (Pair ''sender'') (of_sessions na (sender_draft na)) @ map (Pair ''receiver'') (receiver_drafts na)"

lemma zip_const: "length ds = length js \<Longrightarrow> zip (map (\<lambda>d. k) ds) js = map (Pair k) js"
  by (induction ds js rule: list_induct2) simp_all

lemma order_drafts:
  "resourcesInRegistrationOrder now na vs =
     (let (js, v) = stamp_all now (map snd (all_drafts na)) vs in (zip (map fst (all_drafts na)) js, v))"
  by (simp add: resourcesInRegistrationOrder_def all_drafts_def self_of_def devices_def sources_def flows_def node_senders_def
      node_receivers_def stamp_append stamp_all.simps comp_def zip_append zip_const Let_def split_def)

text \<open>What a resource refers to, and whether every resource of a list refers only to what comes before it.\<close>

definition refs :: "string \<times> json \<Rightarrow> (string \<times> string) list" where
  "refs r = (let to = (\<lambda>kind key. (kind, asString (member_of (snd r) key))) in
     if fst r = ''device'' then [to ''node'' ''node_id'']
     else if fst r = ''source'' then [to ''device'' ''device_id'']
     else if fst r = ''flow'' then [to ''device'' ''device_id'', to ''source'' ''source_id'']
     else if fst r = ''sender'' then [to ''device'' ''device_id'', to ''flow'' ''flow_id'']
     else if fst r = ''receiver'' then [to ''device'' ''device_id'']
     else [])"

definition resource_id :: "string \<times> json \<Rightarrow> string \<times> string" where
  "resource_id r = (fst r, asString (member_of (snd r) ''id''))"

fun all_resolved :: "(string \<times> string) set \<Rightarrow> (string \<times> json) list \<Rightarrow> bool" where
  "all_resolved seen [] = True"
| "all_resolved seen (r # rs) = (set (refs r) \<subseteq> seen \<and> all_resolved (insert (resource_id r) seen) rs)"

lemma resolved_append: "all_resolved seen (xs @ ys) \<longleftrightarrow> all_resolved seen xs \<and> all_resolved (seen \<union> resource_id ` set xs) ys"
  by (induction xs arbitrary: seen) auto

lemma resolved_block: "\<forall>r\<in>set rs. set (refs r) \<subseteq> seen \<Longrightarrow> all_resolved seen rs"
proof (induction rs arbitrary: seen)
  case (Cons r rs)
  have "\<forall>x\<in>set rs. set (refs x) \<subseteq> insert (resource_id r) seen" using Cons.prems by (simp add: subset_insertI2)
  then show ?case using Cons by simp
qed simp

text \<open>A stamped list refers to what its drafts refer to.\<close>

definition draft_json :: "string \<times> draft \<Rightarrow> string \<times> json" where
  "draft_json kd = (fst kd, JObject (fst (snd kd)))"

lemma resolved_cong:
  assumes "length rs = length rs'" "\<And>n. n < length rs \<Longrightarrow> refs (rs ! n) = refs (rs' ! n) \<and> resource_id (rs ! n) = resource_id (rs' ! n)"
  shows "all_resolved seen rs = all_resolved seen rs'"
  using assms
proof (induction rs rs' arbitrary: seen rule: list_induct2)
  case (Cons r rs r' rs')
  have "refs r = refs r'" "resource_id r = resource_id r'" using Cons.prems [of 0] by simp_all
  moreover have "all_resolved s rs = all_resolved s rs'" for s using Cons.prems [of "Suc n" for n] by (intro Cons.IH) simp
  ultimately show ?case by simp
qed simp

lemma stamped_resolved:
  "all_resolved seen (fst (resourcesInRegistrationOrder now na vs)) = all_resolved seen (map draft_json (all_drafts na))"
proof -
  let ?ds = "map snd (all_drafts na)"
  have m: "member_of (fst (stamp_all now ?ds vs) ! n) k = member_of (JObject (fst (?ds ! n))) k" if "n < length ?ds" "k \<noteq> ''version''" for n k
    using arg_cong [OF stamp_members [OF that(2), of now ?ds vs], of "\<lambda>xs. xs ! n"] that(1) by simp
  show ?thesis
    unfolding order_drafts Let_def split_def fst_conv
    by (rule resolved_cong) (auto simp: m refs_def resource_id_def draft_json_def Let_def)
qed

text \<open>The sessions and receivers the drafts are made of.\<close>

definition session_pairs :: "node_api \<Rightarrow> (string \<times> ravenna_session) list" where
  "session_pairs na = List.map_filter (\<lambda>name. map_option (Pair name) (cat_session name (na_catalogue na))) (cat_names (na_catalogue na))"

definition receiver_pairs :: "node_api \<Rightarrow> (string \<times> conn_receiver) list" where
  "receiver_pairs na = List.map_filter (\<lambda>i. map_option (Pair i) (ca_receiver i (na_connections na))) (receiverIds (na_connections na))"

lemma map_filter_pair: "List.map_filter (\<lambda>x. map_option (f x) (g x)) xs = map (\<lambda>(x, y). f x y) (List.map_filter (\<lambda>x. map_option (Pair x) (g x)) xs)"
  by (induction xs) (auto simp: map_filter_simps split: option.split)

lemma drafts_pairs:
  "of_sessions na f = map (\<lambda>(name, s). f name s) (session_pairs na)"
  "receiver_drafts na = map (\<lambda>(i, c). receiver_draft na i c) (receiver_pairs na)"
  unfolding of_sessions_def session_pairs_def receiver_drafts_def receiver_pairs_def by (rule map_filter_pair)+

lemma pair_names:
  "map fst (session_pairs na) = cat_names (na_catalogue na)" "map fst (receiver_pairs na) = receiverIds (na_connections na)"
proof -
  have m: "map fst (List.map_filter (\<lambda>x. map_option (Pair x) (g x)) xs) = xs" if "\<forall>x\<in>set xs. g x \<noteq> None" for g :: "'a \<Rightarrow> 'b option" and xs
    using that by (induction xs) (auto simp: map_filter_simps)
  show "map fst (session_pairs na) = cat_names (na_catalogue na)"
    unfolding session_pairs_def by (rule m) (auto simp: cat_names_def cat_session_def map_find_None image_iff simp flip: not_None_eq)
  show "map fst (receiver_pairs na) = receiverIds (na_connections na)"
    unfolding receiver_pairs_def by (rule m) (auto simp: receiverIds_def ca_receiver_def map_find_None image_iff simp flip: not_None_eq)
qed

lemma session_members [simp]:
  "member_of (JObject (fst (source_draft na name s))) ''device_id'' = JString (ni_deviceId (na_identity na))"
  "member_of (JObject (fst (source_draft na name s))) ''id'' = JString (sourceIdFor na name)"
  "member_of (JObject (fst (flow_draft na name s))) ''device_id'' = JString (ni_deviceId (na_identity na))"
  "member_of (JObject (fst (flow_draft na name s))) ''source_id'' = JString (sourceIdFor na name)"
  "member_of (JObject (fst (flow_draft na name s))) ''id'' = JString (flowIdFor na name)"
  "member_of (JObject (fst (sender_draft na name s))) ''device_id'' = JString (ni_deviceId (na_identity na))"
  "member_of (JObject (fst (sender_draft na name s))) ''flow_id'' = JString (flowIdFor na name)"
  "member_of (JObject (fst (sender_draft na name s))) ''id'' = JString (senderIdFor na name)"
  "member_of (JObject (fst (receiver_draft na i c))) ''device_id'' = JString (ni_deviceId (na_identity na))"
  "member_of (JObject (fst (receiver_draft na i c))) ''id'' = JString i"
  by (simp_all add: member_of_def source_draft_def flow_draft_def sender_draft_def receiver_draft_def json_object_def Let_def)

lemma node_members [simp]:
  "member_of (JObject (fst (self_draft na))) ''id'' = JString (ni_nodeId (na_identity na))"
  "member_of (JObject (fst (device_draft na))) ''id'' = JString (ni_deviceId (na_identity na))"
  "member_of (JObject (fst (device_draft na))) ''node_id'' = JString (ni_nodeId (na_identity na))"
  "member_of (JObject (fst (device_draft na))) ''senders'' = JArray (map (\<lambda>name. JString (senderIdFor na name)) (cat_names (na_catalogue na)))"
  "member_of (JObject (fst (device_draft na))) ''receivers'' = JArray (map JString (receiverIds (na_connections na)))"
  by (simp_all add: member_of_def self_draft_def device_draft_def json_object_def Let_def)

lemma drafts_resolved: "all_resolved {} (map draft_json (all_drafts na))"
proof -
  let ?base = "{(''node'', ni_nodeId (na_identity na)), (''device'', ni_deviceId (na_identity na))}"
  let ?src = "(\<lambda>(name, s). (''source'', sourceIdFor na name)) ` set (session_pairs na)"
  let ?flw = "(\<lambda>(name, s). (''flow'', flowIdFor na name)) ` set (session_pairs na)"
  have s: "all_resolved ?base (map draft_json (map (Pair ''source'') (of_sessions na (source_draft na))))"
    by (rule resolved_block) (auto simp: drafts_pairs refs_def draft_json_def Let_def)
  have f: "all_resolved (?base \<union> ?src) (map draft_json (map (Pair ''flow'') (of_sessions na (flow_draft na))))"
    by (rule resolved_block) (auto simp: drafts_pairs refs_def draft_json_def Let_def intro!: image_eqI)
  have x: "all_resolved (?base \<union> ?src \<union> ?flw) (map draft_json (map (Pair ''sender'') (of_sessions na (sender_draft na))))"
    by (rule resolved_block) (auto simp: drafts_pairs refs_def draft_json_def Let_def intro!: image_eqI)
  have r: "all_resolved (?base \<union> ?src \<union> ?flw \<union> X) (map draft_json (map (Pair ''receiver'') (receiver_drafts na)))" for X
    by (rule resolved_block) (auto simp: drafts_pairs refs_def draft_json_def Let_def)
  have i: "resource_id ` set (map draft_json (map (Pair ''source'') (of_sessions na (source_draft na)))) = ?src"
    "resource_id ` set (map draft_json (map (Pair ''flow'') (of_sessions na (flow_draft na)))) = ?flw"
    by (auto simp: drafts_pairs resource_id_def draft_json_def image_image split_def)
  have h: "resource_id (draft_json (''node'', self_draft na)) = (''node'', ni_nodeId (na_identity na))"
    "resource_id (draft_json (''device'', device_draft na)) = (''device'', ni_deviceId (na_identity na))"
    "refs (draft_json (''node'', self_draft na)) = []" "refs (draft_json (''device'', device_draft na)) = [(''node'', ni_nodeId (na_identity na))]"
    by (simp_all add: resource_id_def refs_def draft_json_def Let_def)
  have b: "{} \<union> resource_id ` set (map draft_json [(''node'', self_draft na), (''device'', device_draft na)]) = ?base" by (auto simp: h)
  have n: "all_resolved {} (map draft_json [(''node'', self_draft na), (''device'', device_draft na)])" by (simp add: h)
  show ?thesis unfolding all_drafts_def map_append resolved_append b i using n s f x r by blast
qed

lemma order_members:
  assumes "k \<noteq> ''version''"
  shows "map (\<lambda>r. (fst r, member_of (snd r) k)) (fst (resourcesInRegistrationOrder now na vs)) =
     map (\<lambda>kd. (fst kd, member_of (JObject (fst (snd kd))) k)) (all_drafts na)"
proof -
  let ?js = "fst (stamp_all now (map snd (all_drafts na)) vs)"
  have z: "map (\<lambda>r. (fst r, f (snd r))) (zip ks js) = zip ks (map f js)" for f :: "json \<Rightarrow> json" and ks :: "string list" and js
    by (simp add: zip_map2 split_def)
  have "map (\<lambda>j. member_of j k) ?js = map (\<lambda>d. member_of (JObject (fst d)) k) (map snd (all_drafts na))" by (rule stamp_members [OF assms])
  moreover have "zip (map fst ds) (map (\<lambda>d. member_of (JObject (fst d)) k) (map snd ds)) = map (\<lambda>kd. (fst kd, member_of (JObject (fst (snd kd))) k)) ds"
    for ds :: "(string \<times> draft) list"
    by (induction ds) simp_all
  ultimately show ?thesis by (simp add: order_drafts Let_def split_def z [of "\<lambda>j. member_of j k"] del: map_map)
qed

definition members_of :: "string \<Rightarrow> string \<Rightarrow> (string \<times> json) list \<Rightarrow> json list" where
  "members_of kind key rs = map (\<lambda>r. member_of (snd r) key) (filter (\<lambda>r. fst r = kind) rs)"

lemma members_of_pairs: "members_of kind key rs = map snd (filter (\<lambda>x. fst x = kind) (map (\<lambda>r. (fst r, member_of (snd r) key)) rs))"
  by (induction rs) (simp_all add: members_of_def)

lemma order_ids:
  "members_of ''sender'' ''id'' (fst (resourcesInRegistrationOrder now na vs)) = map (\<lambda>name. JString (senderIdFor na name)) (cat_names (na_catalogue na))"
  "members_of ''receiver'' ''id'' (fst (resourcesInRegistrationOrder now na vs)) = map JString (receiverIds (na_connections na))"
  by (simp_all add: members_of_pairs order_members all_drafts_def drafts_pairs filter_map comp_def split_def flip: pair_names)

lemma order_device:
  "k \<noteq> ''version'' \<Longrightarrow> members_of ''device'' k (fst (resourcesInRegistrationOrder now na vs)) = [member_of (JObject (fst (device_draft na))) k]"
  by (simp add: members_of_pairs order_members all_drafts_def filter_map comp_def)

section \<open>Theorems\<close>

text \<open>
  C39: The resources are handed to a registry in an order in which every reference, to the node, the device, the source
  and the flow, is to a resource before it; and the device lists exactly the senders and receivers that are
  registered with it.
\<close>

theorem registration_order_resolves:
  "let resources = fst (resourcesInRegistrationOrder now na vs) in
   all_resolved {} resources \<and>
   members_of ''device'' ''senders'' resources = [JArray (members_of ''sender'' ''id'' resources)] \<and>
   members_of ''device'' ''receivers'' resources = [JArray (members_of ''receiver'' ''id'' resources)]"
  by (simp add: Let_def stamped_resolved drafts_resolved order_ids order_device)

lemma order_version:
  assumes "distinct (map (\<lambda>kd. draft_id (snd kd)) (all_drafts na))" "n < length (all_drafts na)"
  shows "member_of (snd (fst (resourcesInRegistrationOrder now na vs) ! n)) ''version'' = JString (snd (stamped_as now (snd (all_drafts na ! n)) vs))"
    and "map_find (snd (resourcesInRegistrationOrder now na vs)) (draft_id (snd (all_drafts na ! n))) = Some (stamped_as now (snd (all_drafts na ! n)) vs)"
  using stamp_nth [of "map snd (all_drafts na)" n now vs] assms
  by (simp_all add: order_drafts Let_def split_def comp_def member_of_def)

text \<open>
  A resource read again carries the version of the first read exactly when its content is the same, and the
  time of the second read otherwise, whatever happened to the other resources in between; so a controller that
  compares versions sees every change and only changes.
\<close>

theorem version_follows_shape:
  assumes "distinct (map (\<lambda>kd. draft_id (snd kd)) (all_drafts na))" "distinct (map (\<lambda>kd. draft_id (snd kd)) (all_drafts na'))"
    and "n < length (all_drafts na)" "m < length (all_drafts na')"
    and "draft_id (snd (all_drafts na' ! m)) = draft_id (snd (all_drafts na ! n))"
  shows "let (first, vs1) = resourcesInRegistrationOrder now na vs; (second, vs2) = resourcesInRegistrationOrder later na' vs1 in
     member_of (snd (second ! m)) ''version'' =
       (if shape_of (snd (all_drafts na' ! m)) = shape_of (snd (all_drafts na ! n))
        then member_of (snd (first ! n)) ''version'' else JString later)"
  using order_version(1) [OF assms(1, 3), of now vs] order_version(2) [OF assms(1, 3), of now vs]
    order_version(1) [OF assms(2, 4), of later "snd (resourcesInRegistrationOrder now na vs)"]
  by (simp add: Let_def split_def stamped_as_def [of later] assms(5) stamped_shape)

definition witness_node :: "string option \<Rightarrow> node_api" where
  "witness_node mapping = \<lparr>na_identity = \<lparr>ni_nodeId = ''n'', ni_deviceId = ''d'', ni_label = ''amp'', ni_description = [], ni_hostName = ''amp.local'',
     ni_addressV4 = 0xC0A80105, ni_apiPort = 80, ni_interfaceName = ''eth0'', ni_interfaceMac = ''00-11-22-33-44-55'', ni_ptpGrandmaster = []\<rparr>,
     na_catalogue = [], na_connections = \<lparr>ca_senders = [], ca_receivers = [], ca_interface = ''eth0''\<rparr>, na_mapping = mapping, na_hash = (\<lambda>s. of_nat (length s))\<rparr>"

theorem version_follows_shape_witness:
  "let (first, vs1) = resourcesInRegistrationOrder ''1:0'' (witness_node None) []; (second, vs2) = resourcesInRegistrationOrder ''2:0'' (witness_node (Some ''1:5'')) vs1 in
     member_of (snd (second ! 0)) ''version'' = member_of (snd (first ! 0)) ''version'' \<and> member_of (snd (second ! 1)) ''version'' = JString ''2:0''"
proof -
  have drafts: "all_drafts (witness_node t) = [(''node'', self_draft (witness_node t)), (''device'', device_draft (witness_node t))]" for t
    by (simp add: all_drafts_def of_sessions_def receiver_drafts_def witness_node_def cat_names_def receiverIds_def map_filter_simps)
  have ids: "ni_nodeId (na_identity (witness_node t)) = ''n''" "ni_deviceId (na_identity (witness_node t)) = ''d''" for t
    by (simp_all add: witness_node_def)
  have self: "self_draft (witness_node (Some x)) = self_draft (witness_node None)" for x
    by (simp add: self_draft_def witness_node_def node_base_def)
  have dev: "fst (device_draft (witness_node (Some x))) = fst (device_draft (witness_node None))"
    "snd (device_draft (witness_node (Some x))) = x" "snd (device_draft (witness_node None)) = []" for x
    by (simp_all add: device_draft_def witness_node_def node_base_def cat_names_def Let_def)
  have shape: "shape_of (device_draft (witness_node (Some ''1:5''))) \<noteq> shape_of (device_draft (witness_node None))"
    by (simp add: shape_of_def dev)
  show ?thesis
    using version_follows_shape [of "witness_node None" "witness_node (Some ''1:5'')" 0 0 "''1:0''" "[]" "''2:0''"]
      version_follows_shape [of "witness_node None" "witness_node (Some ''1:5'')" 1 1 "''1:0''" "[]" "''2:0''"]
    by (simp add: drafts ids self shape Let_def split_def)
qed

end
