(* ===== verification/Registration_Client.thy ===== *)
theory Registration_Client
  imports Http_Exchange Node_Api Registry_Browser
begin

text \<open>
  \<open>RegistrationClient.cpp\<close>: telling a registry that the node is there, and keeping it told. The thread is one turn of its
  loop after the other; a turn is given the clock and the registries the browser knows. The network is a function
  \<open>web\<close> from what is sent to a host to what comes back, and \<open>'w\<close> is the state of everything behind it; the text of
  requests and answers is that of \<open>Http_Exchange\<close>.
\<close>

section \<open>Operations\<close>

type_synonym 'w web = "string \<Rightarrow> u16 \<Rightarrow> string \<Rightarrow> 'w \<Rightarrow> (connecting \<times> bool \<times> string list) \<times> 'w"

definition exchange :: "'w web \<Rightarrow> nmos_registry \<Rightarrow> string \<Rightarrow> 'w \<Rightarrow> http_response \<times> 'w" where
  "exchange web g request w =
     (let ((conn, sent, received), w') = web (nr_host g) (nr_port g) request w
      in (http_perform (nr_host g) (nr_port g) conn sent received, w'))"

definition kAskAgain :: nat where "kAskAgain = 5000"
definition kRetry :: nat where "kRetry = 5000"
definition kHeartbeat :: nat where "kHeartbeat = 5000"

definition resourceBody :: "string \<times> json \<Rightarrow> string" where
  "resourceBody r = serialise (json_object [(''type'', JString (fst r)), (''data'', snd r)])"

definition resource_path :: "nmos_registry \<Rightarrow> string" where
  "resource_path g = registrationPath g @ ''/resource''"

definition post_resource :: "nmos_registry \<Rightarrow> string \<times> json \<Rightarrow> string" where
  "post_resource g r = http_post (nr_host g) (nr_port g) (resource_path g) (resourceBody r) ''application/json''"

definition post_heartbeat :: "nmos_registry \<Rightarrow> string \<Rightarrow> string" where
  "post_heartbeat g nodeId = http_request (nr_host g) (nr_port g) [] ''POST'' (registrationPath g @ ''/health/nodes/'' @ nodeId) [] []"

definition delete_node :: "nmos_registry \<Rightarrow> string \<Rightarrow> string" where
  "delete_node g nodeId = http_del (nr_host g) (nr_port g) (resource_path g @ ''/nodes/'' @ nodeId)"

definition post_first :: "'w web \<Rightarrow> nmos_registry \<Rightarrow> string \<Rightarrow> bool \<Rightarrow> string \<times> json \<Rightarrow> 'w \<Rightarrow> http_response \<times> 'w" where
  "post_first web g nodeId first r w =
     (let (response, w1) = exchange web g (post_resource g r) w in
      if first \<and> hr_error response = [] \<and> hr_status response = 200
      then (let (gone, w2) = exchange web g (delete_node g nodeId) w1 in exchange web g (post_resource g r) w2)
      else (response, w1))"

fun post_all :: "'w web \<Rightarrow> nmos_registry \<Rightarrow> string \<Rightarrow> bool \<Rightarrow> (string \<times> json) list \<Rightarrow> 'w \<Rightarrow> bool \<times> 'w" where
  "post_all web g nodeId first [] w = (True, w)"
| "post_all web g nodeId first (r # rs) w =
     (let (response, w') = post_first web g nodeId first r w in
      if hr_error response \<noteq> [] \<or> hr_status response \<noteq> 200 \<and> hr_status response \<noteq> 201 then (False, w')
      else post_all web g nodeId False rs w')"

definition registerEverything :: "'w web \<Rightarrow> nmos_registry \<Rightarrow> string \<Rightarrow> string \<Rightarrow> node_api \<Rightarrow> versions \<times> 'w \<Rightarrow> bool \<times> versions \<times> 'w" where
  "registerEverything web g nodeId now na vw =
     (let (resources, vs) = resourcesInRegistrationOrder now na (fst vw); (ok, w) = post_all web g nodeId True resources (snd vw) in (ok, vs, w))"

text \<open>Whether the heartbeat was taken, and whether the registry has never heard of the node.\<close>

definition heartbeat :: "'w web \<Rightarrow> nmos_registry \<Rightarrow> string \<Rightarrow> 'w \<Rightarrow> (bool \<times> bool) \<times> 'w" where
  "heartbeat web g nodeId w =
     (let (response, w') = exchange web g (post_heartbeat g nodeId) w in
      ((hr_error response = [] \<and> hr_status response = 200, hr_error response = [] \<and> hr_status response = 404), w'))"

definition takeUp :: "'w web \<Rightarrow> nmos_registry \<Rightarrow> string \<Rightarrow> string \<Rightarrow> node_api \<Rightarrow> versions \<times> 'w \<Rightarrow> bool \<times> versions \<times> 'w" where
  "takeUp web g nodeId now na vw =
     (let ((ok, unknown), w1) = heartbeat web g nodeId (snd vw) in
      if ok then (True, fst vw, w1)
      else if \<not> unknown then (False, fst vw, w1)
      else (let (done, vs, w2) = registerEverything web g nodeId now na (fst vw, w1) in
        if \<not> done then (False, vs, w2)
        else (let (beat, w3) = heartbeat web g nodeId w2 in (True, vs, w3))))"

section \<open>The loop\<close>

text \<open>Clock values are milliseconds. \<open>rg_with\<close> is what \<open>registeredWith\<close> answers.\<close>

record registration =
  rg_refused :: "string list"
  rg_active :: nmos_registry
  rg_registered :: bool
  rg_nextAsk :: nat
  rg_nextAttempt :: nat
  rg_nextHeartbeat :: nat
  rg_with :: string

definition registration_start :: "nat \<Rightarrow> registration" where
  "registration_start t = \<lparr>rg_refused = [], rg_active = \<lparr>nr_host = [], nr_port = 0, nr_apiVersion = ''v1.3'', nr_priority = 100\<rparr>,
     rg_registered = False, rg_nextAsk = t, rg_nextAttempt = t, rg_nextHeartbeat = t, rg_with = []\<rparr>"

definition ask_again :: "nat \<Rightarrow> registration \<Rightarrow> bool \<times> registration" where
  "ask_again t rg = (if rg_nextAsk rg \<le> t then (True, rg\<lparr>rg_nextAsk := t + kAskAgain\<rparr>) else (False, rg))"

definition beat_turn :: "'w web \<Rightarrow> string \<Rightarrow> nat \<Rightarrow> registration \<times> versions \<times> 'w \<Rightarrow> registration \<times> versions \<times> 'w" where
  "beat_turn web nodeId t st =
     (let (rg, vs, w) = st in
      if t < rg_nextHeartbeat rg then st
      else (let ((ok, unknown), w') = heartbeat web (rg_active rg) nodeId w in
        if ok then (rg\<lparr>rg_nextHeartbeat := t + kHeartbeat\<rparr>, vs, w')
        else (rg\<lparr>rg_registered := False, rg_refused := rg_refused rg @ [endpoint (rg_active rg)], rg_with := []\<rparr>, vs, w')))"

definition attempt_turn :: "'w web \<Rightarrow> string \<Rightarrow> nmos_registry list \<Rightarrow> nat \<Rightarrow> string \<Rightarrow> node_api \<Rightarrow> registration \<times> versions \<times> 'w \<Rightarrow> registration \<times> versions \<times> 'w" where
  "attempt_turn web nodeId gs t now na st =
     (let (rg, vs, w) = st in
      if t < rg_nextAttempt rg then st
      else (case find (\<lambda>g. endpoint g \<notin> set (rg_refused rg)) gs of
          None \<Rightarrow> (rg\<lparr>rg_refused := [], rg_nextAttempt := t + kRetry\<rparr>, vs, w)
        | Some g \<Rightarrow>
            (let (ok, vs', w') = takeUp web g nodeId now na (vs, w) in
             if ok then (rg\<lparr>rg_active := g, rg_registered := True, rg_nextHeartbeat := t + kHeartbeat, rg_with := endpoint g\<rparr>, vs', w')
             else (rg\<lparr>rg_refused := rg_refused rg @ [endpoint g]\<rparr>, vs', w'))))"

text \<open>One turn: whether the question was asked again, and the state after it.\<close>

definition rg_turn :: "'w web \<Rightarrow> string \<Rightarrow> nmos_registry list \<Rightarrow> nat \<Rightarrow> string \<Rightarrow> node_api \<Rightarrow> registration \<times> versions \<times> 'w \<Rightarrow> bool \<times> registration \<times> versions \<times> 'w" where
  "rg_turn web nodeId gs t now na st =
     (let (asked, rg) = ask_again t (fst st); st1 = (rg, snd st) in
      (asked, if rg_registered rg then beat_turn web nodeId t st1 else attempt_turn web nodeId gs t now na st1))"

text \<open>The loop over the turns it makes, each with its clock, the text of its time, the registries and the node it reads.\<close>

fun rg_run :: "'w web \<Rightarrow> string \<Rightarrow> (nmos_registry list \<times> nat \<times> string \<times> node_api) list \<Rightarrow> registration \<times> versions \<times> 'w \<Rightarrow> registration \<times> versions \<times> 'w" where
  "rg_run web nodeId [] st = st"
| "rg_run web nodeId ((gs, t, now, na) # turns) st = rg_run web nodeId turns (snd (rg_turn web nodeId gs t now na st))"

text \<open>What \<open>run\<close> does when it is told to stop.\<close>

definition rg_stopped :: "registration \<Rightarrow> registration" where
  "rg_stopped rg = rg\<lparr>rg_with := []\<rparr>"

section \<open>A registry, as IS-04 describes one\<close>

text \<open>
  \<open>bodies\<close> are the resources of this node that the registry holds, as they were posted. It answers a heartbeat with 200 when it
  holds any and with 404 otherwise; it takes a resource whose references it holds, with 201 when it is new.
\<close>

definition resolvable :: "string list \<Rightarrow> string \<times> json \<Rightarrow> bool" where
  "resolvable bs r \<longleftrightarrow> (\<forall>x\<in>set (refs r). \<exists>r'. resource_id r' = x \<and> resourceBody r' \<in> set bs)"

definition is04_registry :: "'w web \<Rightarrow> nmos_registry \<Rightarrow> string \<Rightarrow> ('w \<Rightarrow> string list) \<Rightarrow> bool" where
  "is04_registry web g nodeId bodies \<longleftrightarrow>
     (\<forall>w. let (response, w') = exchange web g (post_heartbeat g nodeId) w in
        hr_error response = [] \<and> hr_status response = (if bodies w = [] then 404 else 200) \<and> bodies w' = bodies w) \<and>
     (\<forall>w r. resolvable (bodies w) r \<longrightarrow> (let (response, w') = exchange web g (post_resource g r) w in
        hr_error response = [] \<and> hr_status response = (if resourceBody r \<in> set (bodies w) then 200 else 201) \<and>
        bodies w' = (if resourceBody r \<in> set (bodies w) then bodies w else bodies w @ [resourceBody r])))"

lemma is04_heartbeat:
  assumes "is04_registry web g nodeId bodies"
  obtains w' where "heartbeat web g nodeId w = ((bodies w \<noteq> [], bodies w = []), w')" "bodies w' = bodies w"
proof -
  obtain response w' where e: "exchange web g (post_heartbeat g nodeId) w = (response, w')" by fastforce
  have "hr_error response = []" "hr_status response = (if bodies w = [] then 404 else 200)" "bodies w' = bodies w"
    using spec [OF conjunct1 [OF assms [unfolded is04_registry_def]], of w] by (simp_all add: e Let_def)
  then show thesis using that [of w'] by (simp add: heartbeat_def e)
qed

lemma is04_post:
  assumes "is04_registry web g nodeId bodies" "resolvable (bodies w) r" "first \<Longrightarrow> resourceBody r \<notin> set (bodies w)"
  obtains response w' where "post_first web g nodeId first r w = (response, w')"
    "hr_error response = []" "hr_status response = 200 \<or> hr_status response = 201" "set (bodies w') = insert (resourceBody r) (set (bodies w))"
proof -
  obtain response w' where e: "exchange web g (post_resource g r) w = (response, w')" by fastforce
  have f: "hr_error response = []" "hr_status response = (if resourceBody r \<in> set (bodies w) then 200 else 201)"
    "bodies w' = (if resourceBody r \<in> set (bodies w) then bodies w else bodies w @ [resourceBody r])"
    using mp [OF spec [OF spec [OF conjunct2 [OF assms(1) [unfolded is04_registry_def]], of w], of r] assms(2)] by (simp_all add: e Let_def)
  show thesis
  proof (rule that [of response w'])
    show "post_first web g nodeId first r w = (response, w')" using assms(3) f by (auto simp: post_first_def e)
    show "hr_status response = 200 \<or> hr_status response = 201" using f(2) by simp
    show "set (bodies w') = insert (resourceBody r) (set (bodies w))" using f(3) by auto
  qed (rule f(1))
qed

definition holds_all :: "string list \<Rightarrow> (string \<times> string) set \<Rightarrow> bool" where
  "holds_all bs seen \<longleftrightarrow> (\<forall>x\<in>seen. \<exists>r'. resource_id r' = x \<and> resourceBody r' \<in> set bs)"

lemma holds_all_insert:
  "holds_all bs seen \<Longrightarrow> set bs' = insert (resourceBody r) (set bs) \<Longrightarrow> holds_all bs' (insert (resource_id r) seen)"
  unfolding holds_all_def by (metis insert_iff)

lemma post_all_taken:
  assumes "is04_registry web g nodeId bodies"
  shows "all_resolved seen rs \<Longrightarrow> holds_all (bodies w) seen \<Longrightarrow> (first \<Longrightarrow> bodies w = []) \<Longrightarrow>
    \<exists>w'. post_all web g nodeId first rs w = (True, w') \<and> set (bodies w') = set (bodies w) \<union> resourceBody ` set rs"
proof (induction rs arbitrary: seen w first)
  case (Cons r rs)
  have "resolvable (bodies w) r" using Cons.prems by (auto simp: resolvable_def holds_all_def)
  then obtain response w' where p: "post_first web g nodeId first r w = (response, w')"
      "hr_error response = []" "hr_status response = 200 \<or> hr_status response = 201" "set (bodies w') = insert (resourceBody r) (set (bodies w))"
    using is04_post [OF assms, of w r first] Cons.prems(3) by (metis empty_iff list.set(1))
  have "holds_all (bodies w') (insert (resource_id r) seen)" by (rule holds_all_insert [OF Cons.prems(2) p(4)])
  then obtain w2 where "post_all web g nodeId False rs w' = (True, w2)" "set (bodies w2) = set (bodies w') \<union> resourceBody ` set rs"
    using Cons.IH [of "insert (resource_id r) seen" w' False] Cons.prems(1) by auto
  then show ?case using p by auto
qed simp

lemma resources_resolved: "all_resolved {} (fst (resourcesInRegistrationOrder now na vs))"
  by (simp add: stamped_resolved drafts_resolved)

lemma resources_nonempty: "fst (resourcesInRegistrationOrder now na vs) \<noteq> []"
  by (simp add: resourcesInRegistrationOrder_def Let_def split_def)

lemma takeUp_new:
  assumes "is04_registry web g nodeId bodies" "bodies w = []"
  shows "\<exists>w'. takeUp web g nodeId now na (vs, w) = (True, snd (resourcesInRegistrationOrder now na vs), w') \<and>
    set (bodies w') = resourceBody ` set (fst (resourcesInRegistrationOrder now na vs))"
proof -
  obtain w1 where h: "heartbeat web g nodeId w = ((False, True), w1)" "bodies w1 = []" using is04_heartbeat [OF assms(1), of w] assms(2) by metis
  have "holds_all (bodies w1) {}" by (simp add: holds_all_def)
  from post_all_taken [OF assms(1) resources_resolved this, of True now na vs] obtain w2 where
    p: "post_all web g nodeId True (fst (resourcesInRegistrationOrder now na vs)) w1 = (True, w2)"
      "set (bodies w2) = resourceBody ` set (fst (resourcesInRegistrationOrder now na vs))" using h(2) by auto
  obtain beat w3 where "heartbeat web g nodeId w2 = (beat, w3)" "bodies w3 = bodies w2" using is04_heartbeat [OF assms(1), of w2] by metis
  then show ?thesis using h(1) p by (simp add: takeUp_def registerEverything_def Let_def split_def)
qed

lemma takeUp_known:
  assumes "is04_registry web g nodeId bodies" "bodies w \<noteq> []"
  shows "\<exists>w'. takeUp web g nodeId now na (vs, w) = (True, vs, w') \<and> bodies w' = bodies w"
proof -
  obtain w1 where "heartbeat web g nodeId w = ((True, False), w1)" "bodies w1 = bodies w" using is04_heartbeat [OF assms(1), of w] assms(2) by metis
  then show ?thesis by (simp add: takeUp_def)
qed

section \<open>Looking for a registry\<close>

definition unreachable :: "'w web \<Rightarrow> nmos_registry \<Rightarrow> bool" where
  "unreachable web b \<longleftrightarrow> (\<forall>request w. \<exists>conn sent received. web (nr_host b) (nr_port b) request w = ((conn, sent, received), w) \<and> conn \<noteq> Connected)"

lemma takeUp_unreachable:
  assumes "unreachable web b"
  shows "takeUp web b nodeId now na (vs, w) = (False, vs, w)"
proof -
  obtain conn sent received where "web (nr_host b) (nr_port b) (post_heartbeat b nodeId) w = ((conn, sent, received), w)" "conn \<noteq> Connected"
    using assms unfolding unreachable_def by meson
  moreover from this(2) have "connect_error (nr_host b) (nr_port b) conn \<noteq> []" by (cases conn) (simp_all add: connect_error_def)
  ultimately show ?thesis by (simp add: takeUp_def heartbeat_def exchange_def http_perform_def http_failed_def)
qed

lemma takeUp_is04:
  assumes "is04_registry web g nodeId bodies"
  shows "\<exists>vs' w'. takeUp web g nodeId now na (vs, w) = (True, vs', w') \<and> bodies w' \<noteq> []"
proof (cases "bodies w = []")
  case True
  then show ?thesis using takeUp_new [OF assms True, of now na vs] resources_nonempty [of now na vs] by fastforce
next
  case False
  then show ?thesis using takeUp_known [OF assms False, of now na vs] by metis
qed

text \<open>The registries that are still to be tried.\<close>

definition untried :: "registration \<Rightarrow> nmos_registry list \<Rightarrow> nmos_registry list" where
  "untried rg gs = filter (\<lambda>g. endpoint g \<notin> set (rg_refused rg)) gs"

lemma find_untried: "find (\<lambda>g. endpoint g \<notin> set (rg_refused rg)) gs = (case untried rg gs of [] \<Rightarrow> None | g # rest \<Rightarrow> Some g)"
  unfolding untried_def by (induction gs) simp_all

lemma ask_again_keeps:
  "rg_refused (snd (ask_again t rg)) = rg_refused rg" "rg_active (snd (ask_again t rg)) = rg_active rg"
  "rg_registered (snd (ask_again t rg)) = rg_registered rg" "rg_nextAttempt (snd (ask_again t rg)) = rg_nextAttempt rg"
  "rg_nextHeartbeat (snd (ask_again t rg)) = rg_nextHeartbeat rg" "rg_with (snd (ask_again t rg)) = rg_with rg"
  by (simp_all add: ask_again_def)

lemma turn_unreachable:
  assumes "\<not> rg_registered rg" "rg_nextAttempt rg \<le> t" "untried rg gs = b # rest" "unreachable web b"
  shows "\<exists>rg'. snd (rg_turn web nodeId gs t now na (rg, vs, w)) = (rg', vs, w) \<and> \<not> rg_registered rg' \<and>
    rg_nextAttempt rg' = rg_nextAttempt rg \<and> rg_refused rg' = rg_refused rg @ [endpoint b]"
  using assms find_untried [of rg gs] takeUp_unreachable [OF assms(4), of nodeId now na vs w]
  by (simp add: rg_turn_def attempt_turn_def ask_again_keeps Let_def split_def)

lemma turn_found:
  assumes "\<not> rg_registered rg" "rg_nextAttempt rg \<le> t" "untried rg gs = g # rest" "is04_registry web g nodeId bodies"
  shows "\<exists>rg' vs' w'. snd (rg_turn web nodeId gs t now na (rg, vs, w)) = (rg', vs', w') \<and> rg_registered rg' \<and>
    rg_active rg' = g \<and> rg_with rg' = endpoint g \<and> bodies w' \<noteq> []"
  using assms find_untried [of rg gs] takeUp_is04 [OF assms(4), of now na vs w]
  by (auto simp: rg_turn_def attempt_turn_def ask_again_keeps Let_def split_def)

lemma untried_shrinks:
  assumes "untried rg down = b # bs" "rg_refused rg' = rg_refused rg @ [endpoint b]"
  shows "length (untried rg' down) \<le> length bs"
proof -
  have "untried rg' down = filter (\<lambda>g. endpoint g \<noteq> endpoint b) (untried rg down)"
    unfolding untried_def assms(2) by (induction down) auto
  then show ?thesis using assms(1) by simp
qed

definition registered_at :: "registration \<times> versions \<times> 'w \<Rightarrow> nmos_registry \<Rightarrow> ('w \<Rightarrow> string list) \<Rightarrow> bool" where
  "registered_at st g bodies \<longleftrightarrow> (let (rg, vs, w) = st in rg_registered rg \<and> rg_active rg = g \<and> rg_with rg = endpoint g \<and> bodies w \<noteq> [])"

lemma search_ends:
  assumes down: "list_all (unreachable web) down" "endpoint g \<notin> endpoint ` set down" and good: "is04_registry web g nodeId bodies"
  shows "\<not> rg_registered rg \<Longrightarrow> endpoint g \<notin> set (rg_refused rg) \<Longrightarrow>
    list_all (\<lambda>(gs, t, now, na). gs = down @ g # others \<and> rg_nextAttempt rg \<le> t) turns \<Longrightarrow> length (untried rg down) < length turns \<Longrightarrow>
    \<exists>n\<le>Suc (length (untried rg down)). registered_at (rg_run web nodeId (take n turns) (rg, vs, w)) g bodies"
proof (induction turns arbitrary: rg)
  case (Cons x turns)
  obtain gs t now na where x: "x = (gs, t, now, na)" by (cases x) auto
  have gs: "gs = down @ g # others" "rg_nextAttempt rg \<le> t" using Cons.prems(3) x by auto
  have u: "untried rg gs = untried rg down @ g # untried rg others" using Cons.prems(2) by (simp add: gs untried_def)
  show ?case
  proof (cases "untried rg down")
    case Nil
    obtain rg' vs' w' where "snd (rg_turn web nodeId gs t now na (rg, vs, w)) = (rg', vs', w')" "rg_registered rg'" "rg_active rg' = g"
        "rg_with rg' = endpoint g" "bodies w' \<noteq> []"
      using turn_found [OF Cons.prems(1) gs(2) _ good, of gs "untried rg others" now na vs w] u Nil by auto
    then have "registered_at (rg_run web nodeId (take 1 (x # turns)) (rg, vs, w)) g bodies" by (simp add: x registered_at_def)
    then show ?thesis by (metis One_nat_def Suc_le_mono le0)
  next
    case (Cons b bs)
    have mem: "b \<in> set down" using arg_cong [OF Cons, of set] unfolding untried_def by auto
    have ub: "unreachable web b" using down(1) mem by (simp add: list_all_iff)
    obtain rg' where s: "snd (rg_turn web nodeId gs t now na (rg, vs, w)) = (rg', vs, w)" "\<not> rg_registered rg'"
        "rg_nextAttempt rg' = rg_nextAttempt rg" "rg_refused rg' = rg_refused rg @ [endpoint b]"
      using turn_unreachable [OF Cons.prems(1) gs(2) _ ub, of gs "bs @ g # untried rg others" nodeId now na vs w] u Cons by auto
    have fewer: "length (untried rg' down) \<le> length bs" by (rule untried_shrinks [OF Cons s(4)])
    have fresh: "endpoint g \<notin> set (rg_refused rg')" using Cons.prems(2) s(4) down(2) mem by auto
    have rest: "list_all (\<lambda>(gs, t, now, na). gs = down @ g # others \<and> rg_nextAttempt rg' \<le> t) turns" using Cons.prems(3) s(3) by simp
    have len: "length (untried rg' down) < length turns" using Cons.prems(4) Cons fewer by simp
    obtain n where "n \<le> Suc (length (untried rg' down))" "registered_at (rg_run web nodeId (take n turns) (rg', vs, w)) g bodies"
      using Cons.IH [OF s(2) fresh rest len] by blast
    then show ?thesis using s(1) fewer Cons by (intro exI [of _ "Suc n"]) (simp add: x)
  qed
qed simp

section \<open>A registry to try this on\<close>

definition demo_answer :: "string list \<Rightarrow> string \<Rightarrow> int \<times> string list" where
  "demo_answer held body =
     (if body = [] then (if held = [] then 404 else 200, held)
      else if body \<in> set held then (200, held) else (201, held @ [body]))"

definition demo_web :: "string list web" where
  "demo_web host port request held =
     (if host = ''10.0.0.1'' then ((NotConnected, False, []), held)
      else (case parseHttpRequest request of
          None \<Rightarrow> ((Connected, True, []), held)
        | Some (verb, path, body) \<Rightarrow>
            (let (status, held') = demo_answer held body in ((Connected, True, [buildHttpResponse status ''application/json'' []]), held'))))"

definition demo_registry :: "string \<Rightarrow> nmos_registry" where
  "demo_registry host = \<lparr>nr_host = host, nr_port = 80, nr_apiVersion = ''v1.3'', nr_priority = 0\<rparr>"

lemma demo_perform:
  assumes "100 \<le> status" "status \<le> 599"
  shows "http_perform host port Connected True [buildHttpResponse status ''application/json'' []] = \<lparr>hr_status = status, hr_body = [], hr_error = []\<rparr>"
proof -
  have "length (decimal (nat status)) \<le> 3" using assms by (intro decimal_length) simp_all
  moreover have "length (decimal 0) \<le> 1" by (intro decimal_length) simp_all
  moreover have "length (statusTextFor status) \<le> 21" by (simp add: statusTextFor_def)
  ultimately have "length (buildHttpResponse status ''application/json'' []) \<le> kMaxBodyBytes + 8192"
    using assms by (simp add: buildHttpResponse_def decimal_int_def kCRLF_def kMaxBodyBytes_def)
  then have "recv_answer [] [buildHttpResponse status ''application/json'' []] = buildHttpResponse status ''application/json'' []"
    using received_whole [of "[]"] by simp
  moreover have "read_answer host (buildHttpResponse status ''application/json'' []) = \<lparr>hr_status = status, hr_body = [], hr_error = []\<rparr>"
    unfolding answer_text_lines using answer_understood [OF assms, of "''application/json''" 0 host "[]"] by simp
  ultimately show ?thesis by (simp add: http_perform_def)
qed

lemma demo_words: "header_word ''10.0.0.2''" "header_word ''application/json''" "header_word []" "request_word ''POST''"
  "request_word (''/x-nmos/registration/'' @ ''v1.3'' @ ''/resource'')" "request_word (''/x-nmos/registration/'' @ ''v1.3'' @ ''/health/nodes/'' @ ''n'')"
  by (simp_all add: header_word_def request_word_def token_def is_digit_def is_space_def code_def)

lemma demo_exchange:
  "exchange demo_web (demo_registry ''10.0.0.2'') (post_heartbeat (demo_registry ''10.0.0.2'') ''n'') held =
     (\<lparr>hr_status = (if held = [] then 404 else 200), hr_body = [], hr_error = []\<rparr>, held)"
  "exchange demo_web (demo_registry ''10.0.0.2'') (post_resource (demo_registry ''10.0.0.2'') r) held =
     (\<lparr>hr_status = (if resourceBody r \<in> set held then 200 else 201), hr_body = [], hr_error = []\<rparr>,
      if resourceBody r \<in> set held then held else held @ [resourceBody r])"
proof -
  have h: "parseHttpRequest (post_heartbeat (demo_registry ''10.0.0.2'') ''n'') = Some (''POST'', ''/x-nmos/registration/'' @ ''v1.3'' @ ''/health/nodes/'' @ ''n'', [])"
    unfolding post_heartbeat_def registrationPath_def demo_registry_def nmos_registry.select_convs append_assoc
    by (rule request_understood) (simp_all only: demo_words, simp_all)
  have p: "parseHttpRequest (post_resource (demo_registry ''10.0.0.2'') r) = Some (''POST'', ''/x-nmos/registration/'' @ ''v1.3'' @ ''/resource'', resourceBody r)"
    unfolding post_resource_def http_post_def resource_path_def registrationPath_def demo_registry_def nmos_registry.select_convs append_assoc
    by (rule request_understood) (simp_all only: demo_words, simp_all)
  have n: "resourceBody r \<noteq> []" by (simp add: resourceBody_def json_object_def)
  show "exchange demo_web (demo_registry ''10.0.0.2'') (post_heartbeat (demo_registry ''10.0.0.2'') ''n'') held =
     (\<lparr>hr_status = (if held = [] then 404 else 200), hr_body = [], hr_error = []\<rparr>, held)"
    unfolding exchange_def demo_web_def h by (simp add: demo_answer_def demo_perform demo_registry_def)
  show "exchange demo_web (demo_registry ''10.0.0.2'') (post_resource (demo_registry ''10.0.0.2'') r) held =
     (\<lparr>hr_status = (if resourceBody r \<in> set held then 200 else 201), hr_body = [], hr_error = []\<rparr>,
      if resourceBody r \<in> set held then held else held @ [resourceBody r])"
    unfolding exchange_def demo_web_def p using n by (simp add: demo_answer_def demo_perform demo_registry_def)
qed

lemma demo_endpoints: "endpoint (demo_registry ''10.0.0.2'') \<noteq> endpoint (demo_registry ''10.0.0.1'')"
  by (simp add: endpoint_def demo_registry_def)

lemma demo_is04: "is04_registry demo_web (demo_registry ''10.0.0.2'') ''n'' (\<lambda>held. held)"
  by (simp add: is04_registry_def demo_exchange Let_def)

lemma demo_unreachable: "unreachable demo_web (demo_registry ''10.0.0.1'')"
  by (auto simp: unreachable_def demo_web_def demo_registry_def)

section \<open>Theorems\<close>



text \<open>
  A registry that still holds anything of the node, from before it restarted, is taken up without posting: it keeps what
  it held, whatever the node serves now.
\<close>

theorem restart_keeps_stale:
  assumes "is04_registry web g nodeId bodies" "bodies w \<noteq> []"
  shows "\<exists>w'. takeUp web g nodeId now na (vs, w) = (True, vs, w') \<and> bodies w' = bodies w"
  by (rule takeUp_known [OF assms])

theorem restart_keeps_stale_witness:
  "\<exists>w'. takeUp demo_web (demo_registry ''10.0.0.2'') ''n'' ''1:0'' (witness_node None) ([], [''old'']) = (True, [], w') \<and> w' = [''old'']"
  by (rule restart_keeps_stale [OF demo_is04]) simp



definition rg_inv :: "nat \<Rightarrow> registration \<Rightarrow> bool" where
  "rg_inv t rg \<longleftrightarrow> rg_with rg = (if rg_registered rg then endpoint (rg_active rg) else []) \<and>
     (rg_registered rg \<longrightarrow> t < rg_nextHeartbeat rg \<and> rg_nextHeartbeat rg \<le> t + kHeartbeat)"

lemma turn_inv:
  assumes "rg_inv t0 (fst st)" "t0 \<le> t"
  shows "rg_inv t (fst (snd (rg_turn web nodeId gs t now na st)))"
proof -
  obtain rg vs w where st: "st = (rg, vs, w)" by (cases st) auto
  have "rg_inv t (fst (beat_turn web nodeId t (rg1, vs, w)))" if "rg_inv t0 rg1" "rg_registered rg1" for rg1
    using that assms(2) by (auto simp: beat_turn_def rg_inv_def kHeartbeat_def Let_def split_def)
  moreover have "rg_inv t (fst (attempt_turn web nodeId gs t now na (rg1, vs, w)))" if "rg_inv t0 rg1" "\<not> rg_registered rg1" for rg1
    using that by (auto simp: attempt_turn_def rg_inv_def kHeartbeat_def Let_def split_def split: option.split)
  moreover have "rg_inv t0 (snd (ask_again t rg))" using assms(1) st by (simp add: rg_inv_def ask_again_keeps)
  ultimately show ?thesis by (simp add: rg_turn_def st Let_def split_def)
qed

lemma rg_run_inv:
  "rg_inv t0 (fst st) \<Longrightarrow> sorted (t0 # map (\<lambda>(gs, t, now, na). t) turns) \<Longrightarrow>
   rg_inv (last (t0 # map (\<lambda>(gs, t, now, na). t) turns)) (fst (rg_run web nodeId turns st))"
proof (induction turns arbitrary: t0 st)
  case (Cons x turns)
  obtain gs t now na where x: "x = (gs, t, now, na)" by (cases x) auto
  have "rg_inv t (fst (snd (rg_turn web nodeId gs t now na st)))" using turn_inv [OF Cons.prems(1), of t] Cons.prems(2) x by auto
  from Cons.IH [OF this] show ?case using Cons.prems(2) by (simp add: x)
qed simp

text \<open>
  The node says it is registered exactly while it is, with the registry it is registered with; and a node that is registered
  after a turn has its next heartbeat due within five seconds of that turn and not before it.
\<close>

theorem registration_reported:
  assumes "sorted (t0 # map (\<lambda>(gs, t, now, na). t) turns)"
  shows "rg_inv (last (t0 # map (\<lambda>(gs, t, now, na). t) turns)) (fst (rg_run web nodeId turns (registration_start t0, vs, w)))"
  by (rule rg_run_inv [OF _ assms]) (simp add: rg_inv_def registration_start_def)

theorem registration_reported_witness:
  "rg_inv 900 (fst (rg_run demo_web ''n'' (map (\<lambda>t. ([demo_registry ''10.0.0.1'', demo_registry ''10.0.0.2''], t, ''1:0'', witness_node None)) [200, 500, 900])
     (registration_start 100, [], [])))"
  using registration_reported [of 100 "map (\<lambda>t. ([demo_registry ''10.0.0.1'', demo_registry ''10.0.0.2''], t, ''1:0'', witness_node None)) [200, 500, 900]" demo_web "''n''" "[]" "[]"]
  by simp

end
