(* ===== verification/Compat_Profiles.thy ===== *)
theory Compat_Profiles
  imports SDP Json_Text
begin

text \<open>
  The compatibility profiles, \<open>src/packages/aes67-profiles/Profiles/CompatibilityProfile.cpp\<close>, the catalogue of models
  \<open>DolbyModelCatalog.h\<close>, and where the settings are searched, \<open>ConfigPaths.cpp\<close>. Sample rates are whole numbers in every
  profile and in every stream, so they are \<open>int\<close>. The text \<open>caveats\<close> that is only shown to a person is left
  out. The file system and the environment are arguments.
\<close>

section \<open>Profiles\<close>

datatype profile_direction = AnyDirection | ReceiveOnly | TransmitOnly

datatype ptp_role_constraint = AnyRole | ForcedSlave | ForcedMaster

datatype profile_kind = KindAES67 | RAVENNA | ST2110_30 | ST2110_30_LevelB | Dante | Dolby | DolbyLAN
  | DolbyDAC3202 | DolbyDMA16 | DolbyDMA24 | DolbyDMA32 | DolbyCP850 | DolbyCP950 | DolbyCP950A

record compat_profile =
  pf_kind :: profile_kind
  pf_allowedSampleRates :: "int list"
  pf_allowedPtimesUs :: "u32 list"
  pf_allowedEncodings :: "string list"
  pf_maxChannelsPerFlow :: u16
  pf_fixedMulticastPerFlowSourcePort :: bool
  pf_usesLanAutoDetection :: bool
  pf_usesSap :: bool
  pf_usesDnsSdRtsp :: bool
  pf_usesNmos :: bool
  pf_maxUnits :: u32
  pf_direction :: profile_direction
  pf_maxTotalChannels :: u32
  pf_requiredMulticastPrefix :: string
  pf_requiresZeroRtpTimestampOffset :: bool
  pf_domainIsFixed :: bool
  pf_fixedDomain :: u8
  pf_recommendedPtpDomain :: int
  pf_recommendedMulticastAddress :: string
  pf_ptpRole :: ptp_role_constraint
  pf_recommendedDscp :: int
  pf_displayName :: string

definition profile_default :: "profile_kind \<Rightarrow> compat_profile" where
  "profile_default k = \<lparr>pf_kind = k, pf_allowedSampleRates = [], pf_allowedPtimesUs = [], pf_allowedEncodings = [],
     pf_maxChannelsPerFlow = 8, pf_fixedMulticastPerFlowSourcePort = False, pf_usesLanAutoDetection = False, pf_usesSap = True,
     pf_usesDnsSdRtsp = False, pf_usesNmos = False, pf_maxUnits = 1, pf_direction = AnyDirection, pf_maxTotalChannels = 0,
     pf_requiredMulticastPrefix = [], pf_requiresZeroRtpTimestampOffset = False, pf_domainIsFixed = False, pf_fixedDomain = 0,
     pf_recommendedPtpDomain = - 1, pf_recommendedMulticastAddress = [], pf_ptpRole = AnyRole, pf_recommendedDscp = - 1,
     pf_displayName = []\<rparr>"

definition profile_AES67 :: compat_profile where
  "profile_AES67 = (profile_default KindAES67)\<lparr>pf_displayName := ''AES67'', pf_allowedSampleRates := [44100, 48000, 96000],
     pf_allowedPtimesUs := [1000], pf_allowedEncodings := [''L16'', ''L24''], pf_maxChannelsPerFlow := 8,
     pf_requiresZeroRtpTimestampOffset := False, pf_domainIsFixed := True, pf_fixedDomain := 0, pf_usesDnsSdRtsp := True\<rparr>"

definition profile_RAVENNA :: compat_profile where
  "profile_RAVENNA = (profile_default RAVENNA)\<lparr>pf_displayName := ''RAVENNA'',
     pf_allowedSampleRates := [44100, 48000, 88200, 96000, 176400, 192000, 352800, 384000], pf_allowedPtimesUs := [],
     pf_allowedEncodings := [''L16'', ''L24''], pf_maxChannelsPerFlow := 64, pf_recommendedDscp := 46, pf_recommendedPtpDomain := 0,
     pf_requiresZeroRtpTimestampOffset := False, pf_usesDnsSdRtsp := True, pf_usesNmos := True\<rparr>"

definition profile_ST2110_30 :: compat_profile where
  "profile_ST2110_30 = (profile_default ST2110_30)\<lparr>pf_usesNmos := True, pf_usesSap := False,
     pf_displayName := ''SMPTE ST 2110-30 (Level A)'', pf_allowedSampleRates := [48000], pf_allowedPtimesUs := [1000],
     pf_allowedEncodings := [''L16'', ''L24''], pf_maxChannelsPerFlow := 8, pf_requiresZeroRtpTimestampOffset := True\<rparr>"

definition profile_ST2110_30_LevelB :: compat_profile where
  "profile_ST2110_30_LevelB = (profile_default ST2110_30_LevelB)\<lparr>pf_usesNmos := True, pf_usesSap := False,
     pf_displayName := ''SMPTE ST 2110-30 (Level B)'', pf_allowedSampleRates := [48000], pf_allowedPtimesUs := [125],
     pf_allowedEncodings := [''L16'', ''L24''], pf_maxChannelsPerFlow := 8, pf_requiresZeroRtpTimestampOffset := True\<rparr>"

definition profile_Dante :: compat_profile where
  "profile_Dante = (profile_default Dante)\<lparr>pf_displayName := ''Dante (AES67 mode)'', pf_allowedSampleRates := [48000],
     pf_allowedPtimesUs := [1000], pf_allowedEncodings := [''L24''], pf_maxChannelsPerFlow := 8, pf_requiresZeroRtpTimestampOffset := False,
     pf_domainIsFixed := True, pf_fixedDomain := 0, pf_recommendedDscp := 46, pf_requiredMulticastPrefix := ''239.69''\<rparr>"

definition profile_Dolby :: compat_profile where
  "profile_Dolby = (profile_default Dolby)\<lparr>pf_displayName := ''Generic'', pf_allowedSampleRates := [48000, 96000],
     pf_allowedPtimesUs := [1000], pf_allowedEncodings := [''L16'', ''L24''], pf_maxChannelsPerFlow := 8,
     pf_requiresZeroRtpTimestampOffset := False, pf_domainIsFixed := False, pf_recommendedPtpDomain := 109,
     pf_recommendedMulticastAddress := ''239.81.83.67'', pf_recommendedDscp := 46, pf_direction := AnyDirection,
     pf_ptpRole := AnyRole, pf_maxTotalChannels := 0, pf_fixedMulticastPerFlowSourcePort := True, pf_maxUnits := 1,
     pf_usesLanAutoDetection := False, pf_usesSap := False\<rparr>"

definition profile_DolbyLAN :: compat_profile where
  "profile_DolbyLAN = profile_Dolby\<lparr>pf_kind := DolbyLAN, pf_displayName := ''Autodetect'', pf_maxUnits := 3, pf_usesLanAutoDetection := True\<rparr>"

definition makeDolbyModelProfile :: "profile_kind \<Rightarrow> string \<Rightarrow> u32 \<Rightarrow> bool \<Rightarrow> int \<Rightarrow> compat_profile" where
  "makeDolbyModelProfile kind name channels isOutput dscp =
     (let p = profile_Dolby\<lparr>pf_kind := kind, pf_displayName := name, pf_maxTotalChannels := channels, pf_usesLanAutoDetection := False,
            pf_recommendedDscp := dscp\<rparr> in
      if isOutput then p\<lparr>pf_direction := TransmitOnly, pf_ptpRole := ForcedMaster, pf_maxUnits := 3\<rparr>
      else p\<lparr>pf_direction := ReceiveOnly, pf_ptpRole := ForcedSlave, pf_maxUnits := 1\<rparr>)"

definition forKind :: "profile_kind \<Rightarrow> compat_profile" where
  "forKind kind = (case kind of
       KindAES67 \<Rightarrow> profile_AES67 | RAVENNA \<Rightarrow> profile_RAVENNA | ST2110_30 \<Rightarrow> profile_ST2110_30
     | ST2110_30_LevelB \<Rightarrow> profile_ST2110_30_LevelB | Dante \<Rightarrow> profile_Dante | Dolby \<Rightarrow> profile_Dolby | DolbyLAN \<Rightarrow> profile_DolbyLAN
     | DolbyDAC3202 \<Rightarrow> makeDolbyModelProfile kind ''Dolby DAC3202'' 32 True 46
     | DolbyDMA16 \<Rightarrow> makeDolbyModelProfile kind ''Dolby DMA (16-channel)'' 16 True (- 1)
     | DolbyDMA24 \<Rightarrow> makeDolbyModelProfile kind ''Dolby DMA (24-channel)'' 24 True (- 1)
     | DolbyDMA32 \<Rightarrow> makeDolbyModelProfile kind ''Dolby DMA (32-channel)'' 32 True (- 1)
     | DolbyCP850 \<Rightarrow> makeDolbyModelProfile kind ''Dolby CP850'' 64 False 46
     | DolbyCP950 \<Rightarrow> makeDolbyModelProfile kind ''Dolby CP950'' 16 False 46
     | DolbyCP950A \<Rightarrow> makeDolbyModelProfile kind ''Dolby CP950A'' 64 False 46)"

definition all_profiles :: "compat_profile list" where
  "all_profiles = map forKind [KindAES67, RAVENNA, ST2110_30, ST2110_30_LevelB, Dante, Dolby, DolbyDAC3202, DolbyDMA16, DolbyDMA24,
     DolbyDMA32, DolbyCP850, DolbyCP950, DolbyCP950A, DolbyLAN]"

definition kindToString :: "profile_kind \<Rightarrow> string" where
  "kindToString kind = (case kind of
       KindAES67 \<Rightarrow> ''aes67'' | RAVENNA \<Rightarrow> ''ravenna'' | ST2110_30 \<Rightarrow> ''st2110-30'' | ST2110_30_LevelB \<Rightarrow> ''st2110-30-b''
     | Dante \<Rightarrow> ''dante'' | Dolby \<Rightarrow> ''dolby'' | DolbyLAN \<Rightarrow> ''dolby-lan'' | DolbyDAC3202 \<Rightarrow> ''dolby-dac3202''
     | DolbyDMA16 \<Rightarrow> ''dolby-dma16'' | DolbyDMA24 \<Rightarrow> ''dolby-dma24'' | DolbyDMA32 \<Rightarrow> ''dolby-dma32''
     | DolbyCP850 \<Rightarrow> ''dolby-cp850'' | DolbyCP950 \<Rightarrow> ''dolby-cp950'' | DolbyCP950A \<Rightarrow> ''dolby-cp950a'')"

definition kindFromString :: "string \<Rightarrow> profile_kind" where
  "kindFromString s =
     (if s = ''ravenna'' then RAVENNA else if s = ''st2110-30'' then ST2110_30 else if s = ''st2110-30-b'' then ST2110_30_LevelB
      else if s = ''dante'' then Dante else if s = ''dolby-lan'' then DolbyLAN else if s = ''dolby-dac3202'' then DolbyDAC3202
      else if s = ''dolby-dma16'' then DolbyDMA16 else if s = ''dolby-dma24'' then DolbyDMA24 else if s = ''dolby-dma32'' then DolbyDMA32
      else if s = ''dolby-cp850'' then DolbyCP850 else if s = ''dolby-cp950'' then DolbyCP950 else if s = ''dolby-cp950a'' then DolbyCP950A
      else if s = ''dolby'' then Dolby
      else if s = ''cp850'' \<or> s = ''cp950'' \<or> s = ''dac3202'' \<or> s = ''dma'' then DolbyLAN
      else KindAES67)"

section \<open>Validation\<close>

record stream_description =
  ds_connectionAddress :: string
  ds_encoding :: string
  ds_sampleRate :: int
  ds_numChannels :: u16
  ds_ptimeUs :: u32
  ds_ptpDomain :: int

definition describeStream :: "sdp_session \<Rightarrow> stream_description" where
  "describeStream s = \<lparr>ds_connectionAddress = sd_connectionAddress s, ds_encoding = sd_encoding s, ds_sampleRate = uint (sd_sampleRate s),
     ds_numChannels = sd_numChannels s, ds_ptimeUs = sd_ptimeUs s, ds_ptpDomain = sd_ptpDomain s\<rparr>"

fun joinStrings :: "string list \<Rightarrow> string" where
  "joinStrings [] = []"
| "joinStrings [x] = x"
| "joinStrings (x # y # zs) = x @ '', '' @ joinStrings (y # zs)"

definition joinRates :: "int list \<Rightarrow> string" where
  "joinRates rates = joinStrings (map decimal_int rates)"

definition addressHasPrefix :: "string \<Rightarrow> string \<Rightarrow> bool" where
  "addressHasPrefix address prefix \<longleftrightarrow>
     length prefix < length address \<and> take (length prefix) address = prefix \<and> address ! length prefix = CHR ''.''"

definition em_dash :: string where "em_dash = [CHR '' '', CHR 0xE2, CHR 0x80, CHR 0x94, CHR '' '']"

text \<open>\<open>None\<close> when the stream is acceptable, the error otherwise.\<close>

definition pf_validate :: "compat_profile \<Rightarrow> stream_description \<Rightarrow> bool \<Rightarrow> string option" where
  "pf_validate p s isTransmit =
     (let fail = (\<lambda>reason. Some (pf_displayName p @ '': '' @ reason)) in
      if pf_direction p = ReceiveOnly \<and> isTransmit
      then fail (''this device has no network audio input'' @ em_dash @ ''this driver may only receive from it, not send to it'')
      else if pf_direction p = TransmitOnly \<and> \<not> isTransmit
      then fail (''this device has no network audio output'' @ em_dash @ ''this driver may only send to it, not receive from it'')
      else if pf_allowedSampleRates p \<noteq> [] \<and> \<not> list_ex (\<lambda>rate. \<bar>rate - ds_sampleRate s\<bar> < 1) (pf_allowedSampleRates p)
      then fail (''sample rate '' @ decimal_int (ds_sampleRate s) @ '' Hz not permitted (allowed: '' @ joinRates (pf_allowedSampleRates p) @ '')'')
      else if pf_allowedPtimesUs p \<noteq> [] \<and> ds_ptimeUs s > 0 \<and> \<not> List.member (pf_allowedPtimesUs p) (ds_ptimeUs s)
      then fail (''packet time '' @ decimal (unat (ds_ptimeUs s)) @ '' us not permitted'')
      else if pf_allowedEncodings p \<noteq> [] \<and> ds_encoding s \<noteq> [] \<and> \<not> List.member (pf_allowedEncodings p) (ds_encoding s)
      then fail (''encoding '' @ ds_encoding s @ '' not permitted (allowed: '' @ joinStrings (pf_allowedEncodings p) @ '')'')
      else if ds_numChannels s > pf_maxChannelsPerFlow p
      then fail (decimal (unat (ds_numChannels s)) @ '' channels exceeds the '' @ decimal (unat (pf_maxChannelsPerFlow p)) @
        ''-channel flow limit'' @ em_dash @ ''split it across multiple flows'')
      else if pf_requiredMulticastPrefix p \<noteq> [] \<and> ds_connectionAddress s \<noteq> [] \<and>
        \<not> addressHasPrefix (ds_connectionAddress s) (pf_requiredMulticastPrefix p)
      then fail (''multicast address '' @ ds_connectionAddress s @ '' outside the required '' @ pf_requiredMulticastPrefix p @ ''.0.0/16 range'')
      else if pf_domainIsFixed p \<and> ds_ptpDomain s \<noteq> - 1 \<and> ds_ptpDomain s \<noteq> uint (pf_fixedDomain p)
      then fail (''PTP domain '' @ decimal_int (ds_ptpDomain s) @ '' not permitted'' @ em_dash @ ''fixed at '' @ decimal (unat (pf_fixedDomain p)))
      else None)"

section \<open>The selection on disk\<close>

definition match_unquoted :: "string \<Rightarrow> string option" where
  "match_unquoted s = (case strip_prefix [CHR 0x22] s of
       None \<Rightarrow> None
     | Some b \<Rightarrow> if CHR 0x22 \<in> set b then Some (takeWhile (\<lambda>c. c \<noteq> CHR 0x22) b) else None)"

definition profile_load :: "string option \<Rightarrow> profile_kind" where
  "profile_load file = (case file of
       None \<Rightarrow> KindAES67
     | Some json \<Rightarrow> (case regex_search (match_at ''profile'' match_unquoted) json of
         Some t \<Rightarrow> kindFromString t
       | None \<Rightarrow> KindAES67))"

definition profile_json :: "profile_kind \<Rightarrow> string" where
  "profile_json kind = ''{'' @ [CHR 0x0A] @ ''  '' @ quoted ''version'' @ '': '' @ quoted ''1.0'' @ '','' @ [CHR 0x0A] @
     ''  '' @ quoted ''profile'' @ '': '' @ quoted (kindToString kind) @ [CHR 0x0A] @ ''}'' @ [CHR 0x0A]"

section \<open>Models\<close>

datatype dolby_io = DolbyInput | DolbyOutput

record dolby_model =
  dm_id :: string
  dm_displayName :: string
  dm_channels :: u32
  dm_direction :: dolby_io

definition dolby_models :: "dolby_model list" where
  "dolby_models = map (\<lambda>(i, name, n, d). \<lparr>dm_id = i, dm_displayName = name, dm_channels = n, dm_direction = d\<rparr>)
     [(''dac3202'', ''Dolby DAC3202'', 32, DolbyOutput), (''dma16'', ''Dolby DMA (16-channel)'', 16, DolbyOutput),
      (''dma24'', ''Dolby DMA (24-channel)'', 24, DolbyOutput), (''dma32'', ''Dolby DMA (32-channel)'', 32, DolbyOutput),
      (''cp850'', ''Dolby CP850'', 64, DolbyInput), (''cp950'', ''Dolby CP950'', 16, DolbyInput), (''cp950a'', ''Dolby CP950A'', 64, DolbyInput)]"

definition dm_byId :: "string \<Rightarrow> dolby_model option" where
  "dm_byId i = List.find (\<lambda>m. dm_id m = i) dolby_models"

definition dm_forDirection :: "dolby_io \<Rightarrow> dolby_model list" where
  "dm_forDirection d = filter (\<lambda>m. dm_direction m = d) dolby_models"

definition dm_totalChannels :: "string list \<Rightarrow> dolby_io \<Rightarrow> u32" where
  "dm_totalChannels ids d = fold (\<lambda>i total. case dm_byId i of
       Some m \<Rightarrow> if dm_direction m = d then total + dm_channels m else total | None \<Rightarrow> total) ids 0"

section \<open>Where the settings are\<close>

text \<open>The environment as a partial map, and the home directory of the password file.\<close>

definition kSupportDirectory :: string where "kSupportDirectory = ''/Library/Application Support/AES67Driver/''"

definition configSearchPaths :: "(string \<Rightarrow> string option) \<Rightarrow> string option \<Rightarrow> string option \<Rightarrow> string \<Rightarrow> bool \<Rightarrow> string list" where
  "configSearchPaths getenv pwDir envVar fileName systemBeforeHome =
     (let override = (case envVar of None \<Rightarrow> [] | Some v \<Rightarrow> (case getenv v of Some p \<Rightarrow> if p \<noteq> [] then [p] else [] | None \<Rightarrow> []));
          systemPath = kSupportDirectory @ fileName;
          home = (case getenv ''HOME'' of Some h \<Rightarrow> Some h | None \<Rightarrow> pwDir);
          homePath = (case home of Some h \<Rightarrow> if h \<noteq> [] then [h @ kSupportDirectory @ fileName] else [] | None \<Rightarrow> [])
      in override @ (if systemBeforeHome then [systemPath] else []) @ homePath @ (if \<not> systemBeforeHome then [systemPath] else []))"

definition findExistingConfig :: "(string \<Rightarrow> bool) \<Rightarrow> string list \<Rightarrow> string" where
  "findExistingConfig isFile paths = (case List.find isFile paths of Some p \<Rightarrow> p | None \<Rightarrow> [])"

definition firstWritableConfigPath :: "(string \<Rightarrow> bool) \<Rightarrow> string list \<Rightarrow> string" where
  "firstWritableConfigPath couldWrite paths =
     (case List.find couldWrite paths of Some p \<Rightarrow> p | None \<Rightarrow> if paths = [] then [] else hd paths)"

definition profile_path :: "(string \<Rightarrow> string option) \<Rightarrow> string option \<Rightarrow> (string \<Rightarrow> bool) \<Rightarrow> string" where
  "profile_path getenv pwDir isFile =
     (let existing = findExistingConfig isFile
            (configSearchPaths getenv pwDir (Some ''AES67_COMPAT_PROFILE_CONFIG_PATH'') ''compatibility_profile.json'' False)
      in if existing = [] then kSupportDirectory @ ''compatibility_profile.json'' else existing)"

section \<open>Theorems\<close>

lemmas profile_defs = profile_default_def profile_AES67_def profile_RAVENNA_def profile_ST2110_30_def profile_ST2110_30_LevelB_def
  profile_Dante_def profile_Dolby_def profile_DolbyLAN_def makeDolbyModelProfile_def

lemma kind_back: "kindFromString (kindToString k) = k"
  by (cases k) (simp_all add: kindFromString_def kindToString_def)

lemma kind_no_quote: "CHR 0x22 \<notin> set (kindToString k)"
  by (cases k) (simp_all add: kindToString_def)

lemma match_unquoted_quoted: "CHR 0x22 \<notin> set v \<Longrightarrow> match_unquoted (quoted v @ r) = Some v"
  by (simp add: match_unquoted_def quoted_def takeWhile_until)

lemma profile_of_kind [simp]: "pf_kind (forKind k) = k"
  by (cases k) (simp_all add: forKind_def profile_defs Let_def)

lemma all_kinds: "set (map pf_kind all_profiles) = UNIV" "distinct (map pf_kind all_profiles)"
  by (auto simp: all_profiles_def) (metis profile_kind.exhaust)

lemma validate_iff:
  "pf_validate p s t = None \<longleftrightarrow>
     (pf_direction p = ReceiveOnly \<longrightarrow> \<not> t) \<and> (pf_direction p = TransmitOnly \<longrightarrow> t) \<and>
     (pf_allowedSampleRates p = [] \<or> ds_sampleRate s \<in> set (pf_allowedSampleRates p)) \<and>
     (pf_allowedPtimesUs p = [] \<or> ds_ptimeUs s = 0 \<or> ds_ptimeUs s \<in> set (pf_allowedPtimesUs p)) \<and>
     (pf_allowedEncodings p = [] \<or> ds_encoding s = [] \<or> ds_encoding s \<in> set (pf_allowedEncodings p)) \<and>
     ds_numChannels s \<le> pf_maxChannelsPerFlow p \<and>
     (pf_requiredMulticastPrefix p = [] \<or> ds_connectionAddress s = [] \<or>
        addressHasPrefix (ds_connectionAddress s) (pf_requiredMulticastPrefix p)) \<and>
     (pf_domainIsFixed p \<longrightarrow> ds_ptpDomain s = - 1 \<or> ds_ptpDomain s = uint (pf_fixedDomain p))"
proof -
  have rate: "list_ex (\<lambda>rate. \<bar>rate - ds_sampleRate s\<bar> < 1) rs \<longleftrightarrow> ds_sampleRate s \<in> set rs" for rs :: "int list"
    by (induction rs) auto
  have gt: "ds_ptimeUs s > 0 \<longleftrightarrow> ds_ptimeUs s \<noteq> 0" by (simp add: word_gt_0)
  show ?thesis unfolding pf_validate_def Let_def rate gt not_less [symmetric] by simp
qed

lemma shipped_rates: "set (pf_allowedSampleRates (forKind k)) \<subseteq> set (pf_allowedSampleRates profile_RAVENNA)"
  "pf_allowedSampleRates (forKind k) \<noteq> []"
  by (cases k; simp add: forKind_def profile_defs Let_def)+

lemma shipped_encodings: "set (pf_allowedEncodings (forKind k)) \<subseteq> {''L16'', ''L24''}" "pf_allowedEncodings (forKind k) \<noteq> []"
  by (cases k; simp add: forKind_def profile_defs Let_def)+

lemma shipped_channels: "pf_maxChannelsPerFlow (forKind k) \<le> 64" "k \<noteq> RAVENNA \<Longrightarrow> pf_maxChannelsPerFlow (forKind k) = 8"
  by (cases k; simp add: forKind_def profile_defs Let_def)+

text \<open>a profile that is saved is the one that is loaded again, and without a file the AES67 profile is in force.\<close>

theorem profile_file_roundtrip: "profile_load (Some (profile_json k)) = k \<and> profile_load None = KindAES67"
proof -
  let ?pre = "(''{'' @ [CHR 0x0A] @ ''  '') @ quoted ''version'' @ '': '' @ quoted ''1.0'' @ '','' @ [CHR 0x0A] @ ''  ''"
  let ?v = "quoted (kindToString k) @ [CHR 0x0A] @ ''}'' @ [CHR 0x0A]"
  have key: "key_word ''profile''" by (simp add: key_word_def plain_letter_def code_def)
  have "quiet ''profile'' ?pre d" for d
    by (intro quiet_append) (simp_all add: quiet_quoted [OF _ key] quiet_plain plain_letter_def is_space_def code_def)
  then have "matchField (?pre @ quoted ''profile'' @ '': '' @ ?v) ''profile'' match_unquoted = Some (kindToString k)"
    using match_unquoted_quoted [OF kind_no_quote]
    by (intro matchField_quiet key) (simp_all add: quoted_def is_space_def code_def)
  then have "regex_search (match_at ''profile'' match_unquoted) (profile_json k) = Some (kindToString k)"
    unfolding matchField_def profile_json_def append_assoc by (simp split: if_splits)
  then show ?thesis by (simp add: profile_load_def kind_back)
qed

text \<open>a stream that the AES67 profile accepts, in either direction, is accepted by the RAVENNA profile too, and the
  converse fails: sixty-four channels are more than an AES67 flow may have.\<close>

theorem ravenna_superset:
  "(pf_validate (forKind KindAES67) s t = None \<longrightarrow> pf_validate (forKind RAVENNA) s t = None) \<and>
   (\<exists>wide. pf_validate (forKind RAVENNA) wide t = None \<and> pf_validate (forKind KindAES67) wide t \<noteq> None)"
proof (intro conjI exI)
  show "pf_validate (forKind KindAES67) s t = None \<longrightarrow> pf_validate (forKind RAVENNA) s t = None"
    unfolding validate_iff by (auto simp: forKind_def profile_defs intro: order_trans)
  let ?w = "\<lparr>ds_connectionAddress = [], ds_encoding = ''L24'', ds_sampleRate = 48000, ds_numChannels = 64, ds_ptimeUs = 1000, ds_ptpDomain = - 1\<rparr>"
  show "pf_validate (forKind RAVENNA) ?w t = None" "pf_validate (forKind KindAES67) ?w t \<noteq> None"
    unfolding validate_iff by (simp_all add: forKind_def profile_defs)
qed

text \<open>whatever profile is in force, a stream it accepts is sampled at a rate from 44.1 to 384 kHz that the program knows,
  is linear PCM of 16 or 24 bits when it names an encoding at all, and has at most 8 channels, or 64 under RAVENNA.\<close>

theorem accepted_stream:
  assumes "pf_validate (forKind k) s t = None"
  shows "ds_sampleRate s \<in> {44100, 48000, 88200, 96000, 176400, 192000, 352800, 384000} \<and>
     ds_encoding s \<in> {[], ''L16'', ''L24''} \<and> unat (ds_numChannels s) \<le> (if k = RAVENNA then 64 else 8)"
proof -
  note a = assms [unfolded validate_iff]
  have "set (pf_allowedSampleRates profile_RAVENNA) = {44100, 48000, 88200, 96000, 176400, 192000, 352800, 384000}"
    by (simp add: profile_defs)
  then have "ds_sampleRate s \<in> {44100, 48000, 88200, 96000, 176400, 192000, 352800, 384000}"
    using a shipped_rates [of k] by blast
  moreover have "ds_encoding s \<in> {[], ''L16'', ''L24''}" using a shipped_encodings [of k] by blast
  moreover have "unat (ds_numChannels s) \<le> (if k = RAVENNA then 64 else 8)"
  proof -
    have "unat (pf_maxChannelsPerFlow (forKind k)) \<le> (if k = RAVENNA then 64 else 8)"
      using shipped_channels [of k] by (auto simp: word_le_nat_alt)
    then show ?thesis using a by (meson order_trans word_le_nat_alt)
  qed
  ultimately show ?thesis by blast
qed

definition demo_described :: stream_description where
  "demo_described = \<lparr>ds_connectionAddress = ''239.69.1.1'', ds_encoding = ''L24'', ds_sampleRate = 48000, ds_numChannels = 8, ds_ptimeUs = 1000,
     ds_ptpDomain = 0\<rparr>"

theorem accepted_stream_witness:
  "pf_validate (forKind Dante) demo_described True = None \<and> ds_encoding demo_described \<in> {[], ''L16'', ''L24''} \<and> unat (ds_numChannels demo_described) \<le> 8"
proof -
  have "pf_validate (forKind Dante) demo_described True = None"
    unfolding validate_iff by (simp add: demo_described_def forKind_def profile_defs addressHasPrefix_def)
  then show ?thesis using accepted_stream [of Dante demo_described True] by simp
qed

text \<open>the catalogue of models agrees with the profiles: every model has the profile its identifier names, with the same
  name and number of channels, and a model that takes audio from the network is one the driver may only send to.\<close>

theorem catalog_matches_profiles:
  "\<forall>m \<in> set dolby_models. let p = forKind (kindFromString (''dolby-'' @ dm_id m)) in
     dm_byId (dm_id m) = Some m \<and> pf_displayName p = dm_displayName m \<and> pf_maxTotalChannels p = dm_channels m \<and>
     pf_direction p = (if dm_direction m = DolbyOutput then TransmitOnly else ReceiveOnly)"
  by (simp add: dolby_models_def dm_byId_def forKind_def kindFromString_def profile_defs Let_def)

end
