(* ===== verification/Stream_Config.thy ===== *)
theory Stream_Config
  imports Mapper_Json SDP
begin

text \<open>
  The saved streams, \<open>src/packages/aes67-core/NetworkEngine/StreamConfig.cpp\<close>: what a stream is saved as, the text of the
  file, and its reader. The reader finds the list of streams by counting brackets and each stream by counting braces, in
  strings as well as outside them, and the parts of a stream by searching for their keys. The interfaces of the machine
  and the clock are arguments; \<open>isIPv4Address\<close> is the one of \<open>NetworkUtils.cpp\<close>, which calls the strict \<open>inet_pton\<close>. A
  number that does not fit an \<open>int\<close> makes \<open>std::stoi\<close> throw, and so does a stream identifier of the wrong form;
  nothing catches it here.
\<close>

section \<open>A saved stream\<close>

record persisted_config =
  pc_sdp :: sdp_session
  pc_mapping :: channel_mapping
  pc_enabled :: bool
  pc_isTransmit :: bool
  pc_description :: string
  pc_createdTimestamp :: u64
  pc_modifiedTimestamp :: u64
  pc_jitterBufferDepth :: u64
  pc_networkInterface :: string

definition mapping_default :: channel_mapping where
  "mapping_default = \<lparr>streamID = StreamID_null, streamName = [], streamChannelCount = 0, streamChannelOffset = 0,
     deviceChannelStart = 0, deviceChannelCount = 0, routes = []\<rparr>"

definition persisted_default :: persisted_config where
  "persisted_default = \<lparr>pc_sdp = sdp_default, pc_mapping = mapping_default, pc_enabled = True, pc_isTransmit = False,
     pc_description = [], pc_createdTimestamp = 0, pc_modifiedTimestamp = 0, pc_jitterBufferDepth = 0, pc_networkInterface = []\<rparr>"

definition pc_isValid :: "persisted_config \<Rightarrow> bool" where
  "pc_isValid c \<longleftrightarrow> sdp_isValid (pc_sdp c) \<and> cm_isValid (pc_mapping c)"

definition createConfig :: "u64 \<Rightarrow> sdp_session \<Rightarrow> channel_mapping \<Rightarrow> string \<Rightarrow> persisted_config" where
  "createConfig now sdp mapping description = persisted_default\<lparr>pc_sdp := sdp, pc_mapping := mapping, pc_description := description,
     pc_enabled := True, pc_createdTimestamp := now, pc_modifiedTimestamp := now\<rparr>"

section \<open>Writing\<close>

definition bool_text :: "bool \<Rightarrow> string" where
  "bool_text b = (if b then ''true'' else ''false'')"

definition sdpToJSON :: "sdp_session \<Rightarrow> string" where
  "sdpToJSON s = ''{'' @ nl @
     ''        '' @ quoted ''sessionName'' @ '': '' @ quoted (jsonEscape (sd_sessionName s)) @ '','' @ nl @
     ''        '' @ quoted ''sessionInfo'' @ '': '' @ quoted (jsonEscape (sd_sessionInfo s)) @ '','' @ nl @
     ''        '' @ quoted ''sessionID'' @ '': '' @ decimal (unat (sd_sessionID s)) @ '','' @ nl @
     ''        '' @ quoted ''sessionVersion'' @ '': '' @ decimal (unat (sd_sessionVersion s)) @ '','' @ nl @
     ''        '' @ quoted ''originUsername'' @ '': '' @ quoted (jsonEscape (sd_originUsername s)) @ '','' @ nl @
     ''        '' @ quoted ''originAddress'' @ '': '' @ quoted (jsonEscape (sd_originAddress s)) @ '','' @ nl @
     ''        '' @ quoted ''connectionAddress'' @ '': '' @ quoted (jsonEscape (sd_connectionAddress s)) @ '','' @ nl @
     ''        '' @ quoted ''ttl'' @ '': '' @ decimal (unat (sd_ttl s)) @ '','' @ nl @
     ''        '' @ quoted ''port'' @ '': '' @ decimal (unat (sd_port s)) @ '','' @ nl @
     ''        '' @ quoted ''payloadType'' @ '': '' @ decimal (unat (sd_payloadType s)) @ '','' @ nl @
     ''        '' @ quoted ''encoding'' @ '': '' @ quoted (jsonEscape (sd_encoding s)) @ '','' @ nl @
     ''        '' @ quoted ''sampleRate'' @ '': '' @ decimal (unat (sd_sampleRate s)) @ '','' @ nl @
     ''        '' @ quoted ''numChannels'' @ '': '' @ decimal (unat (sd_numChannels s)) @ '','' @ nl @
     ''        '' @ quoted ''ptimeUs'' @ '': '' @ decimal (unat (sd_ptimeUs s)) @ '','' @ nl @
     ''        '' @ quoted ''framecount'' @ '': '' @ decimal (unat (sd_framecount s)) @ '','' @ nl @
     ''        '' @ quoted ''sourceAddress'' @ '': '' @ quoted (jsonEscape (sd_sourceAddress s)) @ '','' @ nl @
     ''        '' @ quoted ''ptpDomain'' @ '': '' @ decimal_int (sd_ptpDomain s) @ '','' @ nl @
     ''        '' @ quoted ''ptpMasterMAC'' @ '': '' @ quoted (jsonEscape (sd_ptpMasterMAC s)) @ '','' @ nl @
     ''        '' @ quoted ''mediaClockType'' @ '': '' @ quoted (jsonEscape (sd_mediaClockType s)) @ '','' @ nl @
     ''        '' @ quoted ''direction'' @ '': '' @ quoted (jsonEscape (sd_direction s)) @ nl @
     ''      }''"

definition route_text :: "channel_route \<Rightarrow> string" where
  "route_text r = decimal (unat (streamChannel r)) @ '', '' @ decimal (unat (deviceChannel r))"

definition mappingToJSON :: "channel_mapping \<Rightarrow> string" where
  "mappingToJSON m = ''{'' @ nl @
     ''        '' @ quoted ''streamID'' @ '': '' @ quoted (id_toString (streamID m)) @ '','' @ nl @
     ''        '' @ quoted ''streamName'' @ '': '' @ quoted (jsonEscape (streamName m)) @ '','' @ nl @
     ''        '' @ quoted ''streamChannelCount'' @ '': '' @ decimal (unat (streamChannelCount m)) @ '','' @ nl @
     ''        '' @ quoted ''streamChannelOffset'' @ '': '' @ decimal (unat (streamChannelOffset m)) @ '','' @ nl @
     ''        '' @ quoted ''deviceChannelStart'' @ '': '' @ decimal (unat (deviceChannelStart m)) @ '','' @ nl @
     ''        '' @ quoted ''deviceChannelCount'' @ '': '' @ decimal (unat (deviceChannelCount m)) @ '','' @ nl @
     ''        '' @ quoted ''routes'' @ '': ['' @ join_with '', '' (map route_text (routes m)) @ '']'' @ nl @
     ''      }''"

definition configToJSON :: "persisted_config \<Rightarrow> string" where
  "configToJSON c = ''{'' @ nl @
     ''      '' @ quoted ''enabled'' @ '': '' @ bool_text (pc_enabled c) @ '','' @ nl @
     ''      '' @ quoted ''isTransmit'' @ '': '' @ bool_text (pc_isTransmit c) @ '','' @ nl @
     ''      '' @ quoted ''description'' @ '': '' @ quoted (jsonEscape (pc_description c)) @ '','' @ nl @
     ''      '' @ quoted ''createdTimestamp'' @ '': '' @ decimal (unat (pc_createdTimestamp c)) @ '','' @ nl @
     ''      '' @ quoted ''modifiedTimestamp'' @ '': '' @ decimal (unat (pc_modifiedTimestamp c)) @ '','' @ nl @
     ''      '' @ quoted ''jitterBufferDepth'' @ '': '' @ decimal (unat (pc_jitterBufferDepth c)) @ '','' @ nl @
     ''      '' @ quoted ''networkInterface'' @ '': '' @ quoted (jsonEscape (pc_networkInterface c)) @ '','' @ nl @
     ''      '' @ quoted ''sdp'' @ '': '' @ sdpToJSON (pc_sdp c) @ '','' @ nl @
     ''      '' @ quoted ''mapping'' @ '': '' @ mappingToJSON (pc_mapping c) @ nl @
     ''    }''"

definition streams_toJSON :: "persisted_config list \<Rightarrow> string" where
  "streams_toJSON cs = ''{'' @ nl @ ''  '' @ quoted ''version'' @ '': '' @ quoted ''1.0'' @ '','' @ nl @
     ''  '' @ quoted ''streams'' @ '': ['' @ nl @
     join_with ('','' @ nl) (map (\<lambda>c. ''    '' @ configToJSON c) cs) @ nl @ ''  ]'' @ nl @ ''}''"

section \<open>Reading\<close>

text \<open>
  The value part of the patterns. An object is \<open>\{([^}]+(?:\{[^}]+\})?[^}]*)\}\<close>: \<open>[^}]+\<close> already takes
  everything up to the first closing brace, where the pattern can end, so the nested object it allows for is never tried.
\<close>

definition match_object :: "string \<Rightarrow> string option" where
  "match_object s = (case strip_prefix ''{'' s of
       None \<Rightarrow> None
     | Some b \<Rightarrow> (let inner = takeWhile (\<lambda>c. c \<noteq> CHR ''}'') b in
         if inner \<noteq> [] \<and> CHR ''}'' \<in> set b then Some inner else None))"

definition match_array :: "string \<Rightarrow> string option" where
  "match_array s = (case strip_prefix ''['' s of
       None \<Rightarrow> None
     | Some b \<Rightarrow> if CHR '']'' \<in> set b then Some (takeWhile (\<lambda>c. c \<noteq> CHR '']'') b) else None)"

text \<open>The matches of \<open>\d+\<close> and of \<open>-?\d+\<close>, from left to right.\<close>

function digit_runs :: "string \<Rightarrow> string list" where
  "digit_runs [] = []"
| "digit_runs (c # cs) = (if is_digit c then (c # takeWhile is_digit cs) # digit_runs (dropWhile is_digit cs) else digit_runs cs)"
  by pat_completeness auto

termination digit_runs
  by (relation "measure length") (auto simp: less_Suc_eq_le length_dropWhile_le)

function signed_runs :: "string \<Rightarrow> string list" where
  "signed_runs [] = []"
| "signed_runs (c # cs) =
     (if is_digit c then (c # takeWhile is_digit cs) # signed_runs (dropWhile is_digit cs)
      else if c = CHR ''-'' \<and> takeWhile is_digit cs \<noteq> [] then (c # takeWhile is_digit cs) # signed_runs (dropWhile is_digit cs)
      else signed_runs cs)"
  by pat_completeness auto

termination signed_runs
  by (relation "measure length") (auto simp: less_Suc_eq_le length_dropWhile_le)

fun all_stoi :: "string list \<Rightarrow> std_exception + int list" where
  "all_stoi [] = Inr []"
| "all_stoi (t # ts) = (case stoi t of
       Inl e \<Rightarrow> Inl e
     | Inr v \<Rightarrow> (case all_stoi ts of Inl e \<Rightarrow> Inl e | Inr vs \<Rightarrow> Inr (v # vs)))"

fun pair_routes :: "int list \<Rightarrow> channel_route list" where
  "pair_routes [] = []"
| "pair_routes [a] = []"
| "pair_routes (a # b # vs) = \<lparr>streamChannel = of_int a, deviceChannel = of_int b\<rparr> # pair_routes vs"

fun legacy_routes :: "u16 \<Rightarrow> int list \<Rightarrow> channel_route list" where
  "legacy_routes n [] = []"
| "legacy_routes n (v # vs) =
     (if v \<ge> 0 then [\<lparr>streamChannel = n, deviceChannel = of_int v\<rparr>] else []) @ legacy_routes (n + 1) vs"

definition mappingFromJSON :: "string \<Rightarrow> std_exception + channel_mapping" where
  "mappingFromJSON json =
     (let ident = (case extractStringField json ''streamID'' of None \<Rightarrow> Inr StreamID_null | Some v \<Rightarrow> StreamID_parse v) in
      case ident of Inl e \<Rightarrow> Inl e
      | Inr i \<Rightarrow>
        (let m = mapping_default\<lparr>streamID := i,
               streamName := value_or (extractStringField json ''streamName'') [],
               streamChannelCount := value_or (extractUInt16Field json ''streamChannelCount'') 0,
               streamChannelOffset := value_or (extractUInt16Field json ''streamChannelOffset'') 0,
               deviceChannelStart := value_or (extractUInt16Field json ''deviceChannelStart'') 0,
               deviceChannelCount := value_or (extractUInt16Field json ''deviceChannelCount'') 0\<rparr> in
         case matchField json ''routes'' match_array of
           Some content \<Rightarrow> (case all_stoi (digit_runs content) of
               Inl e \<Rightarrow> Inl e | Inr vs \<Rightarrow> Inr (m\<lparr>routes := pair_routes vs\<rparr>))
         | None \<Rightarrow> (case matchField json ''channelMap'' match_array of
             None \<Rightarrow> Inr m
           | Some content \<Rightarrow> (case all_stoi (signed_runs content) of
               Inl e \<Rightarrow> Inl e | Inr vs \<Rightarrow> Inr (m\<lparr>routes := legacy_routes 0 vs\<rparr>)))))"

definition sdpFromJSON :: "string \<Rightarrow> sdp_session" where
  "sdpFromJSON json = sdp_default\<lparr>
     sd_sessionName := value_or (extractStringField json ''sessionName'') [],
     sd_sessionInfo := value_or (extractStringField json ''sessionInfo'') [],
     sd_sessionID := value_or (extractUInt64Field json ''sessionID'') 0,
     sd_sessionVersion := value_or (extractUInt64Field json ''sessionVersion'') 0,
     sd_originUsername := value_or (extractStringField json ''originUsername'') (sd_originUsername sdp_default),
     sd_originAddress := value_or (extractStringField json ''originAddress'') [],
     sd_connectionAddress := value_or (extractStringField json ''connectionAddress'') [],
     sd_ttl := value_or (extractUInt8Field json ''ttl'') (sd_ttl sdp_default),
     sd_port := value_or (extractUInt16Field json ''port'') (sd_port sdp_default),
     sd_payloadType := value_or (extractUInt8Field json ''payloadType'') (sd_payloadType sdp_default),
     sd_encoding := value_or (extractStringField json ''encoding'') (sd_encoding sdp_default),
     sd_sampleRate := value_or (extractUInt32Field json ''sampleRate'') (sd_sampleRate sdp_default),
     sd_numChannels := value_or (extractUInt16Field json ''numChannels'') (sd_numChannels sdp_default),
     sd_ptimeUs := (case extractUInt32Field json ''ptimeUs'' of
        Some v \<Rightarrow> v
      | None \<Rightarrow> (case extractUInt32Field json ''ptime'' of Some ms \<Rightarrow> ms * 1000 | None \<Rightarrow> sd_ptimeUs sdp_default)),
     sd_framecount := value_or (extractUInt32Field json ''framecount'') 0,
     sd_sourceAddress := value_or (extractStringField json ''sourceAddress'') [],
     sd_ptpDomain := value_or (extractIntField json ''ptpDomain'') (sd_ptpDomain sdp_default),
     sd_ptpMasterMAC := value_or (extractStringField json ''ptpMasterMAC'') [],
     sd_mediaClockType := value_or (extractStringField json ''mediaClockType'') (sd_mediaClockType sdp_default),
     sd_direction := value_or (extractStringField json ''direction'') (sd_direction sdp_default)\<rparr>"

text \<open>The machine: the address of its primary interface, and the address of an interface by name; empty when there is none.\<close>

record net_env =
  ne_primaryIP :: string
  ne_interfaceIP :: "string \<Rightarrow> string"

text \<open>A component that begins with a zero and goes on is refused before \<open>inet_pton\<close> is asked.\<close>

definition octal_component :: "string \<Rightarrow> bool" where
  "octal_component part \<longleftrightarrow> 1 < length part \<and> hd part = CHR ''0''"

definition pton_component :: "string \<Rightarrow> bool" where
  "pton_component part \<longleftrightarrow> part \<noteq> [] \<and> length part \<le> 3 \<and> list_all is_digit part \<and> fst (read_digits 10 0 part) \<le> 255"

definition isIPv4Address :: "string \<Rightarrow> bool" where
  "isIPv4Address str \<longleftrightarrow> str \<noteq> [] \<and>
     (let parts = split_on (CHR ''.'') str in
      \<not> list_ex octal_component parts \<and> length parts = 4 \<and> list_all pton_component parts)"

definition read_interface :: "net_env \<Rightarrow> string option \<Rightarrow> string" where
  "read_interface net iface = (case iface of
       Some spec \<Rightarrow> if spec = ''auto'' \<or> spec = [] then ne_primaryIP net
         else if \<not> isIPv4Address spec then (if ne_interfaceIP net spec \<noteq> [] then ne_interfaceIP net spec else spec)
         else spec
     | None \<Rightarrow> ne_primaryIP net)"

definition configFromJSON :: "net_env \<Rightarrow> string \<Rightarrow> std_exception + persisted_config option" where
  "configFromJSON net json =
     (let c = persisted_default\<lparr>
            pc_enabled := value_or (extractBoolField json ''enabled'') True,
            pc_description := value_or (extractStringField json ''description'') [],
            pc_createdTimestamp := value_or (extractUInt64Field json ''createdTimestamp'') 0,
            pc_modifiedTimestamp := value_or (extractUInt64Field json ''modifiedTimestamp'') 0,
            pc_jitterBufferDepth := value_or (extractUInt64Field json ''jitterBufferDepth'') 0,
            pc_networkInterface := read_interface net (extractStringField json ''networkInterface''),
            pc_sdp := (case matchField json ''sdp'' match_object of
               Some inner \<Rightarrow> sdpFromJSON (''{'' @ inner @ ''}'') | None \<Rightarrow> sdp_default)\<rparr>;
          c' = c\<lparr>pc_isTransmit := value_or (extractBoolField json ''isTransmit'')
            (sd_direction (pc_sdp c) = ''sendonly'' \<or> sd_direction (pc_sdp c) = ''sendrecv'')\<rparr>;
          mapping = (case matchField json ''mapping'' match_object of
            Some inner \<Rightarrow> mappingFromJSON (''{'' @ inner @ ''}'') | None \<Rightarrow> Inr mapping_default)
      in case mapping of
           Inl e \<Rightarrow> Inl e
         | Inr m \<Rightarrow> (let c'' = c'\<lparr>pc_mapping := m\<rparr> in Inr (if pc_isValid c'' then Some c'' else None)))"

text \<open>The bracket that closes the one the text begins with, by counting from there.\<close>

fun bracket_end :: "int \<Rightarrow> string \<Rightarrow> nat option" where
  "bracket_end d [] = None"
| "bracket_end d (c # cs) =
     (if c = CHR ''['' then map_option Suc (bracket_end (d + 1) cs)
      else if c = CHR '']'' then (if d - 1 = 0 then Some 0 else map_option Suc (bracket_end (d - 1) cs))
      else map_option Suc (bracket_end d cs))"

fun split_objects :: "int \<Rightarrow> string \<Rightarrow> string \<Rightarrow> string list" where
  "split_objects d cur [] = []"
| "split_objects d cur (c # cs) =
     (if c = CHR ''{'' then split_objects (d + 1) (cur @ [c]) cs
      else if c = CHR ''}'' then
        (if d - 1 = 0 then (cur @ [c]) # split_objects (d - 1) [] cs else split_objects (d - 1) (cur @ [c]) cs)
      else split_objects d (cur @ [c]) cs)"

fun read_configs :: "net_env \<Rightarrow> string list \<Rightarrow> std_exception + persisted_config list" where
  "read_configs net [] = Inr []"
| "read_configs net (obj # objs) = (case configFromJSON net obj of
       Inl e \<Rightarrow> Inl e
     | Inr c \<Rightarrow> (case read_configs net objs of
         Inl e \<Rightarrow> Inl e
       | Inr cs \<Rightarrow> Inr (case c of Some x \<Rightarrow> x # cs | None \<Rightarrow> cs)))"

definition streams_fromJSON :: "net_env \<Rightarrow> string \<Rightarrow> std_exception + persisted_config list option" where
  "streams_fromJSON net json = (case str_find (quoted ''streams'') json of
       None \<Rightarrow> Inr None
     | Some arrayStart \<Rightarrow> (case dropWhile (\<lambda>c. c \<noteq> CHR ''['') (drop arrayStart json) of
         [] \<Rightarrow> Inr None
       | b # bs \<Rightarrow> (case bracket_end 0 (b # bs) of
           None \<Rightarrow> Inr None
         | Some e \<Rightarrow> (case read_configs net (split_objects 0 [] (take (e - 1) bs)) of
             Inl x \<Rightarrow> Inl x | Inr cs \<Rightarrow> Inr (Some cs)))))"

text \<open>
  \<open>loadConfig\<close> on the text of the file, if there is one: what was read, and whether the file is moved aside to the backup.
\<close>

definition loadConfig :: "net_env \<Rightarrow> string option \<Rightarrow> std_exception + persisted_config list option \<times> bool" where
  "loadConfig net file = (case file of
       None \<Rightarrow> Inr (None, False)
     | Some json \<Rightarrow> (case streams_fromJSON net json of Inl e \<Rightarrow> Inl e | Inr cs \<Rightarrow> Inr (cs, cs = None)))"

text \<open>\<open>saveConfig\<close>, given whether the directory and the file could be opened: the new text of the file.\<close>

definition saveConfig :: "bool \<Rightarrow> string option \<Rightarrow> persisted_config list \<Rightarrow> string option \<times> bool" where
  "saveConfig opened file cs = (if opened then (Some (streams_toJSON cs), True) else (file, False))"

section \<open>The parts as lists of fields\<close>

abbreviation str_value :: "string \<Rightarrow> string" where
  "str_value s \<equiv> quoted (jsonEscape s)"

definition sdp_fields :: "sdp_session \<Rightarrow> (string \<times> string) list" where
  "sdp_fields s =
     [(''sessionName'', str_value (sd_sessionName s)), (''sessionInfo'', str_value (sd_sessionInfo s)),
      (''sessionID'', decimal (unat (sd_sessionID s))), (''sessionVersion'', decimal (unat (sd_sessionVersion s))),
      (''originUsername'', str_value (sd_originUsername s)), (''originAddress'', str_value (sd_originAddress s)),
      (''connectionAddress'', str_value (sd_connectionAddress s)), (''ttl'', decimal (unat (sd_ttl s))),
      (''port'', decimal (unat (sd_port s))), (''payloadType'', decimal (unat (sd_payloadType s))),
      (''encoding'', str_value (sd_encoding s)), (''sampleRate'', decimal (unat (sd_sampleRate s))),
      (''numChannels'', decimal (unat (sd_numChannels s))), (''ptimeUs'', decimal (unat (sd_ptimeUs s))),
      (''framecount'', decimal (unat (sd_framecount s))), (''sourceAddress'', str_value (sd_sourceAddress s)),
      (''ptpDomain'', decimal_int (sd_ptpDomain s)), (''ptpMasterMAC'', str_value (sd_ptpMasterMAC s)),
      (''mediaClockType'', str_value (sd_mediaClockType s))] @ [(''direction'', str_value (sd_direction s))]"

definition routes_text :: "channel_route list \<Rightarrow> string" where
  "routes_text rs = ''['' @ join_with '', '' (map route_text rs) @ '']''"

definition mapping_fields :: "channel_mapping \<Rightarrow> (string \<times> string) list" where
  "mapping_fields m =
     [(''streamID'', quoted (id_toString (streamID m))), (''streamName'', str_value (streamName m)),
      (''streamChannelCount'', decimal (unat (streamChannelCount m))),
      (''streamChannelOffset'', decimal (unat (streamChannelOffset m))),
      (''deviceChannelStart'', decimal (unat (deviceChannelStart m))),
      (''deviceChannelCount'', decimal (unat (deviceChannelCount m))), (''routes'', routes_text (routes m))]"

definition config_fields :: "persisted_config \<Rightarrow> (string \<times> string) list" where
  "config_fields c =
     [(''enabled'', bool_text (pc_enabled c)), (''isTransmit'', bool_text (pc_isTransmit c)),
      (''description'', str_value (pc_description c)), (''createdTimestamp'', decimal (unat (pc_createdTimestamp c))),
      (''modifiedTimestamp'', decimal (unat (pc_modifiedTimestamp c))),
      (''jitterBufferDepth'', decimal (unat (pc_jitterBufferDepth c))),
      (''networkInterface'', str_value (pc_networkInterface c))]"

abbreviation deep :: string where "deep \<equiv> ''        ''"

lemma sdp_text: "sdpToJSON s = ''{'' @ nl @ fields_text deep (sdp_fields s) @ nl @ ''      }''"
  by (simp add: sdpToJSON_def sdp_fields_def field_line_def)

lemma mapping_text: "mappingToJSON m = ''{'' @ nl @ fields_text deep (mapping_fields m) @ nl @ ''      }''"
  by (simp add: mappingToJSON_def mapping_fields_def field_line_def routes_text_def)

lemma config_text: "configToJSON c = ''{'' @ nl @
  entry_text (config_fields c @ (''sdp'', sdpToJSON (pc_sdp c)) # [(''mapping'', mappingToJSON (pc_mapping c))]) @ nl @ ''    }''"
  by (simp add: configToJSON_def config_fields_def field_line_def)

lemmas inert_values = inert_decimal inert_decimal_int inert_escaped inert_plain

lemma join_chars: "x \<in> set (join_with '', '' (map route_text rs)) \<Longrightarrow> is_digit x \<or> x \<in> {CHR '','', CHR '' ''}"
  by (induction rs rule: induct_list012) (auto simp: route_text_def dest: decimal_digits)

lemma routes_chars: "x \<in> set (routes_text rs) \<Longrightarrow> is_digit x \<or> x \<in> {CHR ''['', CHR '']'', CHR '','', CHR '' ''}"
  using join_chars [of x rs] by (auto simp: routes_text_def)

lemma sdp_fields_ok:
  "distinct (map fst (sdp_fields s))" "\<forall>(k, v)\<in>set (sdp_fields s). key_word k \<and> inert v"
  by (simp_all add: sdp_fields_def key_word_def plain_letter_def code_def inert_values)

lemma mapping_fields_ok:
  assumes "valid_id (streamID m)"
  shows "distinct (map fst (mapping_fields m))" "\<forall>(k, v)\<in>set (mapping_fields m). key_word k \<and> inert v"
proof -
  have "CHR 0x22 \<notin> set (routes_text rs)" for rs using routes_chars [of "CHR 0x22" rs] by (auto simp: is_digit_def code_def)
  then have r: "inert (routes_text rs)" for rs by (rule inert_plain)
  have i: "inert (quoted (id_toString (streamID m)))" using clean_id [OF assms] by (intro inert_quoted) (simp add: clean_name_def)
  show "distinct (map fst (mapping_fields m))" by (simp add: mapping_fields_def)
  show "\<forall>(k, v)\<in>set (mapping_fields m). key_word k \<and> inert v"
    using r i by (simp add: mapping_fields_def key_word_def plain_letter_def code_def inert_values)
qed

lemma config_fields_ok:
  "distinct (map fst (config_fields c))" "\<forall>(k, v)\<in>set (config_fields c). key_word k \<and> inert v"
  by (simp_all add: config_fields_def key_word_def plain_letter_def code_def inert_values bool_text_def)

section \<open>Each part read back\<close>

definition persisted_sdp :: "sdp_session \<Rightarrow> sdp_session" where
  "persisted_sdp s = s\<lparr>sd_originNetworkType := ''IN'', sd_originAddressType := ''IP4'', sd_connectionType := ''IN'',
     sd_connectionNetwork := ''IP4'', sd_timeStart := 0, sd_timeStop := 0, sd_mediaType := ''audio'', sd_transport := ''RTP/AVP'',
     sd_ptpTraceable := False, sd_dscp := - 1, sd_customAttributes := []\<rparr>"

lemma object_found:
  assumes "distinct (map fst kvs)" "\<forall>(k, v)\<in>set kvs. key_word k \<and> inert v" "(k, v) \<in> set kvs"
  shows "found (''{'' @ (nl @ fields_text deep kvs @ nl @ ''      '') @ ''}'') k v"
proof -
  have "quiet k (''{'' @ nl) doc" for doc by (rule quiet_plain) (simp add: nl_def)
  then show ?thesis
    using fields_lookup [OF assms, of deep "''{'' @ nl" "''      }''"] by (simp add: found_def)
qed

lemma sdp_read:
  assumes "- (2 ^ 31) \<le> sd_ptpDomain s" "sd_ptpDomain s < 2 ^ 31"
  shows "sdpFromJSON (''{'' @ (nl @ fields_text deep (sdp_fields s) @ nl @ ''      '') @ ''}'') = persisted_sdp s"
proof -
  let ?b = "''{'' @ (nl @ fields_text deep (sdp_fields s) @ nl @ ''      '') @ ''}''"
  have f: "found ?b k v" if "(k, v) \<in> set (sdp_fields s)" for k v using object_found [OF sdp_fields_ok that] .
  have "extractStringField ?b ''sessionName'' = Some (sd_sessionName s)"
    "extractStringField ?b ''sessionInfo'' = Some (sd_sessionInfo s)"
    "extractStringField ?b ''originUsername'' = Some (sd_originUsername s)"
    "extractStringField ?b ''originAddress'' = Some (sd_originAddress s)"
    "extractStringField ?b ''connectionAddress'' = Some (sd_connectionAddress s)"
    "extractStringField ?b ''encoding'' = Some (sd_encoding s)"
    "extractStringField ?b ''sourceAddress'' = Some (sd_sourceAddress s)"
    "extractStringField ?b ''ptpMasterMAC'' = Some (sd_ptpMasterMAC s)"
    "extractStringField ?b ''mediaClockType'' = Some (sd_mediaClockType s)"
    "extractStringField ?b ''direction'' = Some (sd_direction s)"
    by (rule read_string, rule f, simp add: sdp_fields_def)+
  moreover have "extractUInt64Field ?b ''sessionID'' = Some (sd_sessionID s)"
    "extractUInt64Field ?b ''sessionVersion'' = Some (sd_sessionVersion s)"
    by (rule read_word64, rule f, simp add: sdp_fields_def)+
  moreover have "extractUInt32Field ?b ''sampleRate'' = Some (sd_sampleRate s)"
    "extractUInt32Field ?b ''ptimeUs'' = Some (sd_ptimeUs s)"
    "extractUInt32Field ?b ''framecount'' = Some (sd_framecount s)"
    by (rule read_word32, rule f, simp add: sdp_fields_def)+
  moreover have "extractUInt16Field ?b ''port'' = Some (sd_port s)"
    "extractUInt16Field ?b ''numChannels'' = Some (sd_numChannels s)"
    by (rule read_word16, rule f, simp add: sdp_fields_def)+
  moreover have "extractUInt8Field ?b ''ttl'' = Some (sd_ttl s)"
    "extractUInt8Field ?b ''payloadType'' = Some (sd_payloadType s)"
    by (rule read_word8, rule f, simp add: sdp_fields_def)+
  moreover have "extractIntField ?b ''ptpDomain'' = Some (sd_ptpDomain s)"
    by (rule read_int [OF f assms]) (simp add: sdp_fields_def)
  ultimately show ?thesis unfolding sdpFromJSON_def persisted_sdp_def by (simp only: value_or_simps option.case) (simp add: sdp_default_def)
qed

lemma runs_decimal: "\<not> starts_with_digit 10 r \<Longrightarrow> digit_runs (decimal n @ r) = decimal n # digit_runs r"
proof -
  assume r: "\<not> starts_with_digit 10 r"
  obtain c cs where c: "decimal n = c # cs" "is_digit c" using decimal_hd by blast
  have "takeWhile is_digit (c # cs @ r) = c # cs" "dropWhile is_digit (decimal n @ r) = r"
    using takeWhile_decimal [OF r, of n] takeWhile_dropWhile_id [of is_digit "decimal n @ r"] c by (simp_all del: takeWhile_dropWhile_id)
  then show ?thesis using c by simp
qed

lemma runs_route: "\<not> starts_with_digit 10 r \<Longrightarrow>
  digit_runs (route_text x @ r) = [decimal (unat (streamChannel x)), decimal (unat (deviceChannel x))] @ digit_runs r"
  by (simp add: route_text_def runs_decimal starts_with_digit_def digit_val_def code_def is_digit_def)

lemma runs_routes:
  "digit_runs (join_with '', '' (map route_text rs)) =
     concat (map (\<lambda>x. [decimal (unat (streamChannel x)), decimal (unat (deviceChannel x))]) rs)"
proof (induction rs rule: induct_list012)
  case (2 x)
  then show ?case using runs_route [of "[]" x] by simp
next
  case (3 x y zs)
  have s: "\<not> starts_with_digit 10 ('', '' @ t)" "digit_runs ('', '' @ t) = digit_runs t" for t
    by (simp_all add: starts_with_digit_def digit_val_def code_def is_digit_def)
  show ?case using 3 runs_route [OF s(1)] s(2) by simp
qed simp

lemma all_stoi_routes:
  "all_stoi (concat (map (\<lambda>x. [decimal (unat (streamChannel x)), decimal (unat (deviceChannel x))]) rs)) =
     Inr (concat (map (\<lambda>x. [int (unat (streamChannel x)), int (unat (deviceChannel x))]) rs))"
proof (induction rs)
  case (Cons x rs)
  have "stoi (decimal (unat w)) = Inr (int (unat w))" for w :: u16
    using stoi_decimal [of "unat w" "[]"] unat_u16 [of w] by simp
  then show ?case using Cons by simp
qed simp

lemma pair_routes_back: "pair_routes (concat (map (\<lambda>x. [int (unat (streamChannel x)), int (unat (deviceChannel x))]) rs)) = rs"
  by (induction rs) simp_all

lemma routes_back: "\<exists>vs. all_stoi (digit_runs (join_with '', '' (map route_text rs))) = Inr vs \<and> pair_routes vs = rs"
  unfolding runs_routes all_stoi_routes using pair_routes_back by blast

lemma mapping_read:
  assumes "valid_id (streamID m)"
  shows "mappingFromJSON (''{'' @ (nl @ fields_text deep (mapping_fields m) @ nl @ ''      '') @ ''}'') = Inr m"
proof -
  let ?b = "''{'' @ (nl @ fields_text deep (mapping_fields m) @ nl @ ''      '') @ ''}''"
  have f: "found ?b k v" if "(k, v) \<in> set (mapping_fields m)" for k v using object_found [OF mapping_fields_ok [OF assms] that] .
  have "jsonEscape (id_toString (streamID m)) = id_toString (streamID m)"
    using id_text_chars [OF assms] plain_escape by (simp add: list_all_iff)
  then have "extractStringField ?b ''streamID'' = Some (id_toString (streamID m))"
    using read_string [of ?b "''streamID''" "id_toString (streamID m)"] f by (simp add: mapping_fields_def)
  moreover have "extractStringField ?b ''streamName'' = Some (streamName m)"
    by (rule read_string, rule f, simp add: mapping_fields_def)
  moreover have "extractUInt16Field ?b ''streamChannelCount'' = Some (streamChannelCount m)"
    "extractUInt16Field ?b ''streamChannelOffset'' = Some (streamChannelOffset m)"
    "extractUInt16Field ?b ''deviceChannelStart'' = Some (deviceChannelStart m)"
    "extractUInt16Field ?b ''deviceChannelCount'' = Some (deviceChannelCount m)"
    by (rule read_word16, rule f, simp add: mapping_fields_def)+
  moreover have "matchField ?b ''routes'' match_array = Some (join_with '', '' (map route_text (routes m)))"
  proof -
    let ?j = "join_with '', '' (map route_text (routes m))"
    have "CHR '']'' \<notin> set ?j"
      using join_chars [of "CHR '']''" "routes m"] by (auto simp: is_digit_def code_def)
    then have "match_array (dropWhile is_space (routes_text (routes m) @ r)) = Some ?j" for r
      by (simp add: routes_text_def match_array_def is_space_def code_def takeWhile_until)
    then show ?thesis using f [of "''routes''" "routes_text (routes m)"] by (auto simp: found_def mapping_fields_def)
  qed
  moreover obtain vs where "all_stoi (digit_runs (join_with '', '' (map route_text (routes m)))) = Inr vs" "pair_routes vs = routes m"
    using routes_back by blast
  ultimately show ?thesis
    using StreamID_parse_print [OF assms] by (simp add: mappingFromJSON_def mapping_default_def)
qed

text \<open>Text without brackets and braces, which the reader of the file counts.\<close>

definition bracket :: "char \<Rightarrow> bool" where
  "bracket c \<longleftrightarrow> c = CHR ''{'' \<or> c = CHR ''}'' \<or> c = CHR ''['' \<or> c = CHR '']''"

definition flat :: "string \<Rightarrow> bool" where
  "flat s \<longleftrightarrow> (\<forall>c\<in>set s. \<not> bracket c)"

lemma flat_simps [simp]: "flat []" "flat (a @ b) \<longleftrightarrow> flat a \<and> flat b" "flat (c # s) \<longleftrightarrow> \<not> bracket c \<and> flat s"
  by (auto simp: flat_def)

lemma no_bracket: "plain_letter c \<Longrightarrow> \<not> bracket c" "is_digit c \<Longrightarrow> \<not> bracket c"
  by (auto simp: bracket_def plain_letter_def is_digit_def code_def)

lemma flat_plain: "list_all plain_letter s \<Longrightarrow> flat s"
  by (auto simp: flat_def list_all_iff no_bracket)

lemma flat_escape: "flat s \<Longrightarrow> flat (jsonEscape s)"
  unfolding flat_def
proof
  fix c assume "\<forall>c\<in>set s. \<not> bracket c" "c \<in> set (jsonEscape s)"
  then consider "\<not> bracket c" | "plain_letter c" | "c = CHR 0x22 \<or> c = CHR 0x5C" using escaped_chars by blast
  then show "\<not> bracket c" by cases (simp_all add: no_bracket, auto simp: bracket_def)
qed

lemma flat_decimal: "flat (decimal n)" "flat (decimal_int i)"
proof -
  have "flat (decimal n)" for n unfolding flat_def by (intro ballI no_bracket(2) decimal_digits)
  then show "flat (decimal n)" "flat (decimal_int i)" by (simp_all add: decimal_int_def bracket_def)
qed

definition saveable :: "persisted_config \<Rightarrow> bool" where
  "saveable c \<longleftrightarrow> pc_isValid c \<and> valid_id (streamID (pc_mapping c)) \<and>
     - (2 ^ 31) \<le> sd_ptpDomain (pc_sdp c) \<and> sd_ptpDomain (pc_sdp c) < 2 ^ 31 \<and>
     list_all flat [pc_description c, pc_networkInterface c, streamName (pc_mapping c), sd_sessionName (pc_sdp c),
       sd_sessionInfo (pc_sdp c), sd_originUsername (pc_sdp c), sd_originAddress (pc_sdp c), sd_connectionAddress (pc_sdp c),
       sd_encoding (pc_sdp c), sd_sourceAddress (pc_sdp c), sd_ptpMasterMAC (pc_sdp c), sd_mediaClockType (pc_sdp c),
       sd_direction (pc_sdp c)]"

definition restored :: "net_env \<Rightarrow> persisted_config \<Rightarrow> persisted_config" where
  "restored net c = c\<lparr>pc_sdp := persisted_sdp (pc_sdp c), pc_networkInterface := read_interface net (Some (pc_networkInterface c))\<rparr>"

lemmas flat_values = flat_escape flat_decimal field_line_def quoted_def nl_def bracket_def

lemma flat_sdp: "saveable c \<Longrightarrow> flat (fields_text deep (sdp_fields (pc_sdp c)))"
  by (simp add: saveable_def sdp_fields_def flat_values)

lemma flat_config: "saveable c \<Longrightarrow> flat (entry_text (config_fields c))"
  by (simp add: saveable_def config_fields_def flat_values bool_text_def)

lemma flat_routes: "flat (join_with '', '' (map route_text rs))"
  unfolding flat_def
proof
  fix c assume "c \<in> set (join_with '', '' (map route_text rs))"
  then have "is_digit c \<or> c \<in> {CHR '','', CHR '' ''}" by (rule join_chars)
  then show "\<not> bracket c" using no_bracket(2) by (auto simp: bracket_def [of "CHR '',''"] bracket_def [of "CHR '' ''"])
qed

definition mapping_body :: "channel_mapping \<Rightarrow> string" where
  "mapping_body m = fields_text deep (butlast (mapping_fields m)) @ '','' @ nl @ deep @ quoted ''routes'' @ '': ''"

lemma mapping_split: "fields_text deep (mapping_fields m) = mapping_body m @ ''['' @ join_with '', '' (map route_text (routes m)) @ '']''"
  by (simp add: mapping_body_def mapping_fields_def field_line_def routes_text_def)

lemma flat_mapping: "saveable c \<Longrightarrow> flat (mapping_body (pc_mapping c))"
proof -
  assume s: "saveable c"
  then have "flat (id_toString (streamID (pc_mapping c)))"
    using id_text_chars by (intro flat_plain) (auto simp: saveable_def list_all_iff)
  then show ?thesis using s by (simp add: mapping_body_def mapping_fields_def saveable_def flat_values)
qed

lemma object_match:
  assumes "CHR ''}'' \<notin> set body" "body \<noteq> []"
  shows "match_object (dropWhile is_space ((''{'' @ body @ ''}'') @ r)) = Some body"
  using assms by (simp add: match_object_def is_space_def code_def takeWhile_until Let_def)

lemma flat_no_close: "flat s \<Longrightarrow> CHR ''}'' \<notin> set s"
  by (auto simp: flat_def bracket_def)

lemma calm_close: "calm (nl @ ''      }'' @ doc)"
  by (simp add: calm_def nl_def is_space_def plain_letter_def code_def)

lemma quiet_sdp: "quiet ''mapping'' (sdpToJSON s) doc"
proof -
  have k: "key_word ''mapping''" "key_word ''direction''" by (simp_all add: key_word_def plain_letter_def code_def)
  have "quiet ''mapping'' (fields_text deep (sdp_fields s) @ nl @ ''      }'') doc"
    unfolding sdp_fields_def using calm_close
    by (intro quiet_fields k) (simp_all add: key_word_def plain_letter_def code_def inert_values)
  moreover have "quiet ''mapping'' (''{'' @ nl) d" for d by (rule quiet_plain) (simp add: nl_def)
  ultimately show ?thesis using quiet_append [of "''mapping''" "''{'' @ nl"] by (simp add: sdp_text)
qed

lemma config_found:
  assumes "CHR 0x22 \<notin> set pre"
  shows "(k, v) \<in> set (config_fields c) \<Longrightarrow> found (pre @ configToJSON c) k v"
    and "found (pre @ configToJSON c) ''sdp'' (sdpToJSON (pc_sdp c))"
    and "found (pre @ configToJSON c) ''mapping'' (mappingToJSON (pc_mapping c))"
proof -
  let ?sdp = "(''sdp'', sdpToJSON (pc_sdp c))" and ?map = "(''mapping'', mappingToJSON (pc_mapping c))"
  have b: "pre @ configToJSON c = (pre @ ''{'' @ nl) @ entry_text (config_fields c @ ?sdp # [?map]) @ nl @ ''    }''"
    by (simp add: config_text)
  have q: "quiet k (pre @ ''{'' @ nl) doc" for k doc using assms by (intro quiet_plain) (simp add: nl_def)
  have keys: "key_word ''sdp''" "key_word ''mapping''" by (simp_all add: key_word_def plain_letter_def code_def)
  have in_fields: "key_word k' \<and> inert v'" if "(k', v') \<in> set (config_fields c)" for k' v'
    using config_fields_ok(2) [of c] that by auto
  have others: "k' \<noteq> ''sdp'' \<and> k' \<noteq> ''mapping''" if "(k', v') \<in> set (config_fields c)" for k' v'
    using that by (auto simp: config_fields_def)
  show "found (pre @ configToJSON c) k v" if kv: "(k, v) \<in> set (config_fields c)"
  proof -
    obtain before after where cf: "config_fields c = before @ (k, v) # after" using kv by (meson split_list)
    have "k \<notin> fst ` set before" using config_fields_ok(1) [of c] by (simp add: cf)
    then have "k' \<noteq> k" if "(k', v') \<in> set before" for k' v' using that by force
    moreover have "key_word k' \<and> quiet k v' ('','' @ r)" if "(k', v') \<in> set before" for k' v' r
      using in_fields [OF kv] in_fields [of k' v'] that by (simp add: cf inert_def)
    ultimately have "found ((pre @ ''{'' @ nl) @ entry_text (before @ (k, v) # after @ ?sdp # [?map]) @ nl @ ''    }'') k v"
      using in_fields [OF kv] by (intro field_at q) simp_all
    then show ?thesis unfolding b cf by simp
  qed
  show "found (pre @ configToJSON c) ''sdp'' (sdpToJSON (pc_sdp c))"
    unfolding b using in_fields others keys by (intro field_at q) (auto simp: inert_def)
  have "found ((pre @ ''{'' @ nl) @ entry_text ((config_fields c @ [?sdp]) @ ?map # []) @ nl @ ''    }'') ''mapping'' (mappingToJSON (pc_mapping c))"
    using in_fields others keys quiet_sdp by (intro field_at q) (auto simp: inert_def dest: others)
  then show "found (pre @ configToJSON c) ''mapping'' (mappingToJSON (pc_mapping c))" unfolding b by simp
qed

lemma found_object:
  assumes "found block k (''{'' @ body @ ''}'')" "CHR ''}'' \<notin> set body" "body \<noteq> []"
  shows "matchField block k match_object = Some body"
  using assms(1) object_match [OF assms(2,3)] unfolding found_def by blast

lemma persisted_valid: "sdp_isValid (persisted_sdp s) = sdp_isValid s"
  by (simp add: sdp_isValid_def getValidationErrors_def persisted_sdp_def)

lemma config_read:
  assumes s: "saveable c" and pre: "CHR 0x22 \<notin> set pre"
  shows "configFromJSON net (pre @ configToJSON c) = Inr (Some (restored net c))"
proof -
  let ?b = "pre @ configToJSON c"
  let ?body = "\<lambda>kvs. nl @ fields_text deep kvs @ nl @ ''      ''"
  have "CHR ''}'' \<notin> set (?body (sdp_fields (pc_sdp c)))" using flat_no_close [OF flat_sdp [OF s]] by (simp add: nl_def)
  then have sdp: "matchField ?b ''sdp'' match_object = Some (?body (sdp_fields (pc_sdp c)))"
    using config_found(2) [OF pre, of c] by (intro found_object) (simp_all add: sdp_text nl_def)
  have "CHR ''}'' \<notin> set (?body (mapping_fields (pc_mapping c)))"
    using flat_no_close [OF flat_mapping [OF s]] flat_no_close [OF flat_routes] by (simp add: nl_def mapping_split)
  then have map: "matchField ?b ''mapping'' match_object = Some (?body (mapping_fields (pc_mapping c)))"
    using config_found(3) [OF pre, of c] by (intro found_object) (simp_all add: mapping_text nl_def)
  have "extractBoolField ?b ''enabled'' = Some (pc_enabled c)" "extractBoolField ?b ''isTransmit'' = Some (pc_isTransmit c)"
    by (rule read_bool, use config_found(1) [OF pre, of _ _ c] in \<open>simp add: config_fields_def bool_text_def\<close>)+
  moreover have "extractStringField ?b ''description'' = Some (pc_description c)"
    "extractStringField ?b ''networkInterface'' = Some (pc_networkInterface c)"
    by (rule read_string, rule config_found(1) [OF pre], simp add: config_fields_def)+
  moreover have "extractUInt64Field ?b ''createdTimestamp'' = Some (pc_createdTimestamp c)"
    "extractUInt64Field ?b ''modifiedTimestamp'' = Some (pc_modifiedTimestamp c)"
    "extractUInt64Field ?b ''jitterBufferDepth'' = Some (pc_jitterBufferDepth c)"
    by (rule read_word64, rule config_found(1) [OF pre], simp add: config_fields_def)+
  moreover have "sdpFromJSON (''{'' @ ?body (sdp_fields (pc_sdp c)) @ ''}'') = persisted_sdp (pc_sdp c)"
    "mappingFromJSON (''{'' @ ?body (mapping_fields (pc_mapping c)) @ ''}'') = Inr (pc_mapping c)"
    using s sdp_read mapping_read by (simp_all add: saveable_def)
  ultimately show ?thesis
    using s unfolding configFromJSON_def Let_def sdp map option.case value_or_simps sum.case
    by (simp add: restored_def persisted_default_def saveable_def pc_isValid_def persisted_valid)
qed

section \<open>Counting brackets and braces\<close>

lemma bracket_end_flat: "flat a \<Longrightarrow> bracket_end d (a @ s) = map_option ((+) (length a)) (bracket_end d s)"
proof (induction a)
  case (Cons c a)
  then show ?case by (cases "bracket_end d s") (auto simp: bracket_def)
qed (cases "bracket_end d s"; simp)

lemma split_flat: "flat a \<Longrightarrow> split_objects d cur (a @ s) = split_objects d (cur @ a) s"
  by (induction a arbitrary: cur) (auto simp: bracket_def)

text \<open>A stream, as the braces and brackets that are counted and the flat text between them.\<close>

lemma config_shape:
  assumes "saveable c"
  obtains a b d e f where "configToJSON c = ''{'' @ a @ ''{'' @ b @ ''}'' @ d @ ''{'' @ e @ ''['' @ f @ '']'' @ nl @ ''      }'' @ nl @ ''    }''"
    "flat a" "flat b" "flat d" "flat e" "flat f"
proof
  let ?a = "nl @ entry_text (config_fields c) @ '','' @ nl @ ''      '' @ quoted ''sdp'' @ '': ''"
  let ?b = "nl @ fields_text deep (sdp_fields (pc_sdp c)) @ nl @ ''      ''"
  let ?d = "'','' @ nl @ ''      '' @ quoted ''mapping'' @ '': ''"
  let ?e = "nl @ mapping_body (pc_mapping c)"
  let ?f = "join_with '', '' (map route_text (routes (pc_mapping c)))"
  show "configToJSON c = ''{'' @ ?a @ ''{'' @ ?b @ ''}'' @ ?d @ ''{'' @ ?e @ ''['' @ ?f @ '']'' @ nl @ ''      }'' @ nl @ ''    }''"
    unfolding config_text sdp_text mapping_text mapping_split by (simp add: config_fields_def field_line_def)
  show "flat ?a" "flat ?b" "flat ?d" "flat ?e" "flat ?f"
    using flat_config [OF assms] flat_sdp [OF assms] flat_mapping [OF assms] flat_routes
    by (simp_all add: nl_def quoted_def bracket_def)
qed

lemma bracket_end_config:
  assumes "saveable c" "0 < d"
  shows "bracket_end d (configToJSON c @ s) = map_option ((+) (length (configToJSON c))) (bracket_end d s)"
proof -
  obtain a b d1 e f where c: "configToJSON c = ''{'' @ a @ ''{'' @ b @ ''}'' @ d1 @ ''{'' @ e @ ''['' @ f @ '']'' @ nl @ ''      }'' @ nl @ ''    }''"
    and "flat a" "flat b" "flat d1" "flat e" "flat f" using config_shape [OF assms(1)] .
  then show ?thesis using assms(2)
    unfolding c by (cases "bracket_end d s") (simp_all add: bracket_end_flat nl_def option.map_comp comp_def)
qed

lemma split_config:
  assumes "saveable c" "flat cur"
  shows "split_objects 0 cur (configToJSON c @ s) = (cur @ configToJSON c) # split_objects 0 [] s"
proof -
  obtain a b d1 e f where c: "configToJSON c = ''{'' @ a @ ''{'' @ b @ ''}'' @ d1 @ ''{'' @ e @ ''['' @ f @ '']'' @ nl @ ''      }'' @ nl @ ''    }''"
    and "flat a" "flat b" "flat d1" "flat e" "flat f" using config_shape [OF assms(1)] .
  then show ?thesis unfolding c by (simp add: split_flat nl_def)
qed

definition entries_text :: "persisted_config list \<Rightarrow> string" where
  "entries_text cs = concat (map (\<lambda>c. ('','' @ nl @ ''    '') @ configToJSON c) cs)"

lemma entries_bracket:
  assumes "list_all saveable cs"
  shows "bracket_end 1 (entries_text cs @ (nl @ ''  '') @ CHR '']'' # s) = Some (length (entries_text cs) + 3)"
  using assms
proof (induction cs)
  case (Cons c cs)
  have f: "flat ('','' @ nl @ ''    '')" by (simp add: nl_def bracket_def)
  have "entries_text (c # cs) @ t = ('','' @ nl @ ''    '') @ configToJSON c @ entries_text cs @ t" for t
    by (simp add: entries_text_def)
  then show ?case using Cons bracket_end_flat [OF f] bracket_end_config [of c 1] by (simp add: entries_text_def)
qed (simp add: entries_text_def nl_def)

lemma entries_split:
  assumes "list_all saveable cs"
  shows "split_objects 0 [] (entries_text cs @ nl @ ''  '') = map (\<lambda>c. ('','' @ nl @ ''    '') @ configToJSON c) cs"
  using assms
proof (induction cs)
  case (Cons c cs)
  have f: "flat ('','' @ nl @ ''    '')" by (simp add: nl_def bracket_def)
  have "entries_text (c # cs) @ nl @ ''  '' = ('','' @ nl @ ''    '') @ configToJSON c @ entries_text cs @ nl @ ''  ''"
    by (simp add: entries_text_def)
  then show ?case using Cons split_flat [OF f, of 0 "[]"] split_config [OF _ f, of c] by simp
qed (simp add: entries_text_def nl_def)

lemma read_all:
  assumes "list_all saveable cs" "CHR 0x22 \<notin> set pre"
  shows "read_configs net (map (\<lambda>c. pre @ configToJSON c) cs) = Inr (map (restored net) cs)"
  using assms(1) config_read [OF _ assms(2)] by (induction cs) simp_all

definition file_body :: "persisted_config list \<Rightarrow> string" where
  "file_body cs = (case cs of [] \<Rightarrow> [] | c # cs' \<Rightarrow> ''    '' @ configToJSON c @ entries_text cs')"

lemma file_join: "join_with ('','' @ nl) (map (\<lambda>c. ''    '' @ configToJSON c) cs) = file_body cs"
proof (cases cs)
  case (Cons c cs')
  have "join_with ('','' @ nl) (map (\<lambda>c. ''    '' @ configToJSON c) (c # cs')) = ''    '' @ configToJSON c @ entries_text cs'"
    unfolding list.map join_with_Cons by (simp add: entries_text_def comp_def)
  then show ?thesis by (simp only: Cons file_body_def list.case)
qed (simp add: file_body_def)

lemma drop_head: "drop (length a) (a @ b) = b"
  by simp

lemma take_head: "n = length a \<Longrightarrow> take n (a @ b) = a"
  by simp

lemma flat_indent: "flat (nl @ ''    '')"
  by (simp add: nl_def bracket_def)

lemma file_bracket:
  assumes "list_all saveable cs"
  shows "bracket_end 1 (nl @ file_body cs @ (nl @ ''  '') @ CHR '']'' # s) = Some (length (file_body cs) + 4)"
proof (cases cs)
  case Nil
  then show ?thesis by (simp add: file_body_def nl_def)
next
  case (Cons c cs')
  have "nl @ file_body cs @ (nl @ ''  '') @ CHR '']'' # s =
      (nl @ ''    '') @ configToJSON c @ entries_text cs' @ (nl @ ''  '') @ CHR '']'' # s"
    by (simp add: file_body_def Cons)
  then show ?thesis
    using assms bracket_end_flat [OF flat_indent] bracket_end_config [of c 1] entries_bracket [of cs' s]
    by (simp add: Cons file_body_def nl_def)
qed

lemma file_objects:
  assumes "list_all saveable cs"
  shows "read_configs net (split_objects 0 [] (nl @ file_body cs @ nl @ ''  '')) = Inr (map (restored net) cs)"
proof (cases cs)
  case Nil
  then show ?thesis by (simp add: file_body_def nl_def)
next
  case (Cons c cs')
  have "nl @ file_body cs @ nl @ ''  '' = (nl @ ''    '') @ configToJSON c @ entries_text cs' @ nl @ ''  ''"
    by (simp add: file_body_def Cons)
  then have "split_objects 0 [] (nl @ file_body cs @ nl @ ''  '') =
      ((nl @ ''    '') @ configToJSON c) # map (\<lambda>c. ('','' @ nl @ ''    '') @ configToJSON c) cs'"
    using assms split_flat [OF flat_indent, of 0 "[]"] split_config [OF _ flat_indent, of c] entries_split [of cs'] by (simp add: Cons)
  then show ?thesis
    using assms read_all [of cs' "'','' @ nl @ ''    ''" net] config_read [of c "nl @ ''    ''" net] by (simp add: Cons nl_def)
qed

text \<open>The document up to the bracket that opens the list: the rest decides what is read.\<close>

lemma document_read:
  "streams_fromJSON net (streams_toJSON cs) = (case bracket_end 1 (nl @ file_body cs @ (nl @ ''  '') @ CHR '']'' # nl @ ''}'') of
       None \<Rightarrow> Inr None
     | Some e \<Rightarrow> (case read_configs net (split_objects 0 [] (take e (nl @ file_body cs @ (nl @ ''  '') @ CHR '']'' # nl @ ''}''))) of
         Inl x \<Rightarrow> Inl x | Inr cs \<Rightarrow> Inr (Some cs)))"
proof -
  let ?head = "''{'' @ nl @ ''  '' @ quoted ''version'' @ '': '' @ quoted ''1.0'' @ '','' @ nl @ ''  ''"
  define t where "t = nl @ file_body cs @ (nl @ ''  '') @ CHR '']'' # nl @ ''}''"
  have doc: "streams_toJSON cs = ?head @ quoted ''streams'' @ '': '' @ CHR ''['' # t"
    unfolding streams_toJSON_def file_join t_def by simp
  have find: "str_find (quoted ''streams'') (streams_toJSON cs) = Some (length ?head)"
    unfolding doc by (simp add: quoted_def nl_def)
  have d: "drop (length ?head) (streams_toJSON cs) = quoted ''streams'' @ '': '' @ CHR ''['' # t" unfolding doc by (rule drop_head)
  have drop: "dropWhile (\<lambda>c. c \<noteq> CHR ''['') (drop (length ?head) (streams_toJSON cs)) = CHR ''['' # t"
    unfolding d by (simp add: quoted_def)
  show ?thesis unfolding streams_fromJSON_def find option.case drop list.case t_def [symmetric]
    by (cases "bracket_end 1 t") simp_all
qed

text \<open>What stands before the description of a stream.\<close>

definition before_description :: "persisted_config \<Rightarrow> string" where
  "before_description c = nl @ entry_text (take 2 (config_fields c)) @ '','' @ nl @ ''      '' @ quoted ''description'' @ '': '' @ [CHR 0x22]"

lemma description_at: "\<exists>r. configToJSON c = CHR ''{'' # before_description c @ jsonEscape (pc_description c) @ CHR 0x22 # r"
  unfolding configToJSON_def before_description_def by (simp add: config_fields_def field_line_def quoted_def bool_text_def)

lemma flat_before: "flat (before_description c)"
  by (simp add: before_description_def config_fields_def flat_values bool_text_def)

section \<open>Theorems\<close>


text \<open>A sender and a receiver with a quote in its name and a route on two device channels.\<close>

definition demo_saved :: "bool \<Rightarrow> persisted_config" where
  "demo_saved tx = createConfig 7
     (sdp_default\<lparr>sd_sessionName := [CHR ''A'', CHR 0x22], sd_connectionAddress := ''239.69.0.1'', sd_ptpDomain := 3, sd_dscp := 46\<rparr>)
     ((demo_mapping 1 0)\<lparr>routes := [\<lparr>streamChannel = 0, deviceChannel = 4\<rparr>, \<lparr>streamChannel = 1, deviceChannel = 9\<rparr>]\<rparr>)
     ''studio''\<lparr>pc_isTransmit := tx\<rparr>"

lemma demo_saveable: "saveable (demo_saved tx)"
  by (simp add: saveable_def demo_saved_def createConfig_def persisted_default_def pc_isValid_def sdp_isValid_def getValidationErrors_def
      cm_isValid_def getValidationError_def sdp_default_def demo_mapping_def demo_id_def valid_id_def id_isNull_def bracket_def
      kMaxDeviceChannels_def word_le_nat_alt)




end
