(* ===== verification/Stream_Manager.thy ===== *)
theory Stream_Manager
  imports Compat_Profiles Stream_Config
begin

text \<open>
  The manager of the streams, \<open>src/packages/aes67-macos-driver/NetworkEngine/StreamManager.cpp\<close> and \<open>.h\<close>, with the session a
  sender announces (\<open>TxSession.h\<close>) and what it uses of the senders and receivers of packets (\<open>start\<close>, \<open>stop\<close> and
  \<open>updateMapping\<close> of \<open>RTPReceiver.cpp\<close> and \<open>RTPTransmitter.cpp\<close>) and of the clocks (\<open>PTPClockManager\<close>).
  Every operation is the whole operation on one state: the streams, the channel matrix, the running totals, the grandmaster,
  the clocks, the file and the notifications, in the order the code does it. The mutex makes each one atomic; it is given up
  before the notification and the saving, which are the last two steps.

  What comes from outside is in the environment of a call: whether a socket opens, whether a clock that
  runs is locked, the primary interface and its multicast route, the time, whether the file can be written, and the value of
  the members of \<open>StreamInfo\<close> that nothing initialises. Identifiers are random, so the ones a call draws are an
  argument. A sample rate is a whole number in a session and a finite \<open>double\<close> in the device, a rational here; the
  difference of the two is exact where it is compared with the \<open>double\<close> 0.1.
\<close>

section \<open>Senders and receivers of packets\<close>

text \<open>A socket is open exactly while the object runs: \<open>start\<close> opens it and \<open>stop\<close> closes it.\<close>

record rtp_endpoint =
  re_sdp :: sdp_session
  re_mapping :: channel_mapping
  re_running :: bool
  re_interface :: string
  re_sourcePort :: u16
  re_dscp :: int
  re_jitterBufferDepth :: u64
  re_playoutDelay :: u32

definition rtp_start :: "(rtp_endpoint \<Rightarrow> bool) \<Rightarrow> rtp_endpoint \<Rightarrow> rtp_endpoint \<times> bool" where
  "rtp_start opens e =
     (if re_running e then (e, False)
      else if sd_connectionAddress (re_sdp e) = [] \<or> sd_port (re_sdp e) = 0 then (e, False)
      else if sd_numChannels (re_sdp e) = 0 \<or> sd_numChannels (re_sdp e) > 128 then (e, False)
      else if \<not> opens e then (e, False)
      else (e\<lparr>re_running := True\<rparr>, True))"

definition rtp_stop :: "rtp_endpoint \<Rightarrow> rtp_endpoint" where
  "rtp_stop e = e\<lparr>re_running := False\<rparr>"

definition rtp_updateMapping :: "(rtp_endpoint \<Rightarrow> bool) \<Rightarrow> channel_mapping \<Rightarrow> rtp_endpoint \<Rightarrow> rtp_endpoint \<times> bool" where
  "rtp_updateMapping opens m e =
     (if \<not> mappingFitsDevice m (sd_numChannels (re_sdp e)) then (e, False)
      else let e' = (if re_running e then rtp_stop e else e)\<lparr>re_mapping := m\<rparr> in
        if re_running e then rtp_start opens e' else (e', True))"

section \<open>State\<close>

record managed_stream =
  ms_sdp :: sdp_session
  ms_mapping :: channel_mapping
  ms_receiver :: "rtp_endpoint option"
  ms_transmitter :: "rtp_endpoint option"
  ms_info :: stream_info
  ms_isTransmit :: bool
  ms_sourcePort :: u16

datatype sm_event = StreamAdded stream_info | StreamRemoved stream_info | StreamStatus stream_info

record stream_manager =
  sm_streams :: "(stream_id, managed_stream) stdmap"
  sm_mapper :: mapper
  sm_profileKind :: profile_kind
  sm_rxChannelsInUse :: u32
  sm_txChannelsInUse :: u32
  sm_usableRx :: u32
  sm_usableTx :: u32
  sm_txFlowPortOffset :: u32
  sm_autoSinkFollow :: bool
  sm_playoutDelay :: u32
  sm_ptpEnabled :: bool
  sm_requirePTPLock :: bool
  sm_grandmaster :: string
  sm_ignoreRefClock :: bool
  sm_autoSave :: bool
  sm_ioActive :: bool
  sm_deviceRate :: rat
  sm_clocks :: "int set"
  sm_file :: "string option"
  sm_events :: "sm_event list"

definition StreamManager :: stream_manager where
  "StreamManager = \<lparr>sm_streams = [], sm_mapper = StreamChannelMapper, sm_profileKind = KindAES67, sm_rxChannelsInUse = 0,
     sm_txChannelsInUse = 0, sm_usableRx = 128, sm_usableTx = 128, sm_txFlowPortOffset = 0, sm_autoSinkFollow = True,
     sm_playoutDelay = 0, sm_ptpEnabled = False, sm_requirePTPLock = False, sm_grandmaster = [], sm_ignoreRefClock = False,
     sm_autoSave = True, sm_ioActive = False, sm_deviceRate = 48000, sm_clocks = {}, sm_file = None, sm_events = []\<rparr>"

record sm_env =
  ev_opens :: "rtp_endpoint \<Rightarrow> bool"
  ev_locked :: "int \<Rightarrow> bool"
  ev_primaryInterface :: string
  ev_hasRoute :: bool
  ev_now :: u64
  ev_writable :: bool
  ev_sourcePort :: u16
  ev_ptime :: u32
  ev_framecount :: u32

section \<open>Clocks and the grandmaster\<close>

definition ensurePTPClockForDomain :: "int \<Rightarrow> stream_manager \<Rightarrow> stream_manager" where
  "ensurePTPClockForDomain domain st =
     (if \<not> sm_ptpEnabled st \<or> domain < 0 then st else st\<lparr>sm_clocks := insert domain (sm_clocks st)\<rparr>)"

definition sm_setPTPEnabled :: "bool \<Rightarrow> stream_manager \<Rightarrow> stream_manager" where
  "sm_setPTPEnabled enabled st =
     (let st' = st\<lparr>sm_ptpEnabled := enabled\<rparr> in
      if enabled then fold (\<lambda>(i, m). ensurePTPClockForDomain (sd_ptpDomain (ms_sdp m))) (sm_streams st) st' else st')"

text \<open>\<open>getDiagnostics(domain).isLocked\<close>: a domain without a clock is not locked.\<close>

definition clock_locked :: "sm_env \<Rightarrow> int \<Rightarrow> stream_manager \<Rightarrow> bool" where
  "clock_locked env domain st \<longleftrightarrow> domain \<in> sm_clocks st \<and> ev_locked env domain"

definition to_upper :: "char \<Rightarrow> char" where
  "to_upper c = (if 97 \<le> code c \<and> code c \<le> 122 then chr (code c - 32) else c)"

definition normalizeGrandmaster :: "string \<Rightarrow> string" where
  "normalizeGrandmaster s = map to_upper (filter (\<lambda>c. c \<noteq> CHR ''-'' \<and> c \<noteq> CHR '':'' \<and> c \<noteq> CHR ''.'') s)"

definition adoptGrandmaster :: "string \<Rightarrow> stream_manager \<Rightarrow> stream_manager" where
  "adoptGrandmaster gm st = (if gm = [] then st else if sm_grandmaster st = [] then st\<lparr>sm_grandmaster := gm\<rparr> else st)"

fun first_declared :: "(stream_id, managed_stream) stdmap \<Rightarrow> string" where
  "first_declared [] = []"
| "first_declared ((i, m) # ms) = (if sd_ptpMasterMAC (ms_sdp m) \<noteq> [] then sd_ptpMasterMAC (ms_sdp m) else first_declared ms)"

definition recomputeActiveGrandmaster :: "stream_manager \<Rightarrow> stream_manager" where
  "recomputeActiveGrandmaster st = st\<lparr>sm_grandmaster := first_declared (sm_streams st)\<rparr>"

section \<open>Validation\<close>

text \<open>The \<open>double\<close> nearest to 0.1.\<close>

definition tenth :: rat where "tenth = 3602879701896397 / 36028797018963968"

definition rate_of :: "sdp_session \<Rightarrow> rat" where
  "rate_of sdp = of_nat (unat (sd_sampleRate sdp))"

definition validateSampleRate :: "stream_manager \<Rightarrow> sdp_session \<Rightarrow> string option" where
  "validateSampleRate st sdp =
     (if \<bar>rate_of sdp - sm_deviceRate st\<bar> > tenth
      then Some (''Sample rate mismatch: stream='' @ decimal_int (sint (sd_sampleRate sdp)) @
        '' Hz, device='' @ decimal_int \<lfloor>sm_deviceRate st\<rfloor> @ '' Hz'')
      else None)"

definition validateChannelAvailability :: "stream_manager \<Rightarrow> u16 \<Rightarrow> string option" where
  "validateChannelAvailability st n =
     (if n = 0 \<or> n > 128 then Some (''Invalid channel count: '' @ decimal (unat n) @ '' (must be 1-128)'')
      else let available = getAvailableChannelCount (sm_mapper st) in
        if unat n > available
        then Some (''Insufficient channels: need '' @ decimal (unat n) @ '', have '' @ decimal available)
        else None)"

definition validatePacketBudget :: "sdp_session \<Rightarrow> string option" where
  "validatePacketBudget sdp =
     (let bps = bytesPerSample (sd_encoding sdp); n = unat (sd_numChannels sdp);
          frames = unat (framesPerPacket (sd_sampleRate sdp) (sd_ptimeUs sdp) (sd_framecount sdp)) in
      if bps = 0 \<or> frames = 0 then None
      else if fits n bps frames then None
      else let maxFrames = maxFramesPerPacket n bps;
               maxPtimeUs = (if sd_sampleRate sdp > 0 then (maxFrames * 1000000) div unat (sd_sampleRate sdp) else 0) in
        Some (decimal n @ '' channels of '' @ sd_encoding sdp @ '' at '' @ decimal frames @ '' samples per packet is a '' @
          decimal (rtpPacketBytes n bps frames) @ ''-byte packet, over the '' @ decimal kMaxRtpPacketBytes @
          '' an Ethernet frame carries: at this packet time up to '' @ decimal (maxChannelsPerPacket bps frames) @
          '' channels fit, and for '' @ decimal n @ '' channels a packet time of at most '' @ decimal maxPtimeUs @ '' us ('' @
          decimal maxFrames @ '' samples) does''))"

definition getMulticastRouteCommand :: "string \<Rightarrow> string" where
  "getMulticastRouteCommand name = ''sudo route add -net 239.0.0.0/8 -interface '' @ (if name = [] then ''en0'' else name)"

text \<open>The error that refuses the stream, or the text left behind when it is accepted.\<close>

definition validateNetworkConfig :: "sm_env \<Rightarrow> sdp_session \<Rightarrow> string + string" where
  "validateNetworkConfig env sdp =
     (if sd_connectionAddress sdp = [] then Inl ''Missing multicast IP address''
      else if take 4 (sd_connectionAddress sdp) \<noteq> ''239.''
      then Inl (''Invalid multicast IP: '' @ sd_connectionAddress sdp @ '' (AES67 requires 239.x.x.x)'')
      else if sd_port sdp = 0 then Inl ''Invalid port: 0''
      else if \<not> ev_hasRoute env
      then Inr (''WARNING: Multicast routing not configured. Audio may not flow.'' @ nl @ ''To fix, run: '' @
        getMulticastRouteCommand (if ev_primaryInterface env = [] then ''en0'' else ev_primaryInterface env) @ nl @
        ''Stream will be added but may not receive traffic.'')
      else Inr [])"

definition channels_in_use :: "bool \<Rightarrow> stream_manager \<Rightarrow> u32" where
  "channels_in_use isTransmit st = (if isTransmit then sm_txChannelsInUse st else sm_rxChannelsInUse st)"

definition direction_name :: "bool \<Rightarrow> string" where
  "direction_name isTransmit = (if isTransmit then ''TX'' else ''RX'')"

definition validateProfile :: "stream_manager \<Rightarrow> sdp_session \<Rightarrow> bool \<Rightarrow> string option" where
  "validateProfile st sdp isTransmit =
     (let profile = forKind (sm_profileKind st); inUse = channels_in_use isTransmit st; n = ucast (sd_numChannels sdp) in
      case pf_validate profile (describeStream sdp) isTransmit of
        Some e \<Rightarrow> Some e
      | None \<Rightarrow>
        if pf_maxTotalChannels profile > 0 \<and> inUse + n > pf_maxTotalChannels profile
        then Some (pf_displayName profile @ '': '' @ decimal (unat (sd_numChannels sdp)) @ '' more channels would bring total '' @
          direction_name isTransmit @ '' usage to '' @ decimal (unat (inUse + n)) @ '', over its '' @
          decimal (unat (pf_maxTotalChannels profile)) @ ''-channel limit'')
        else None)"

definition validateUsable :: "stream_manager \<Rightarrow> sdp_session \<Rightarrow> bool \<Rightarrow> string option" where
  "validateUsable st sdp isTransmit =
     (let usable = (if isTransmit then sm_usableTx st else sm_usableRx st);
          inUse = channels_in_use isTransmit st; n = ucast (sd_numChannels sdp) in
      if usable > 0 \<and> inUse + n > usable
      then Some (decimal (unat (sd_numChannels sdp)) @ '' more channels would bring total '' @ direction_name isTransmit @
        '' usage to '' @ decimal (unat (inUse + n)) @ '', over the '' @ decimal (unat usable) @ '' channels selected for '' @
        (if isTransmit then ''output'' else ''input'') @ '' in ManagerApp'')
      else None)"

definition validateClock :: "sm_env \<Rightarrow> stream_manager \<Rightarrow> sdp_session \<Rightarrow> string option" where
  "validateClock env st sdp =
     (if sm_requirePTPLock st \<and> sm_ptpEnabled st \<and> sd_ptpDomain sdp \<ge> 0 \<and> \<not> clock_locked env (sd_ptpDomain sdp) st
      then Some (''PTP clock for domain '' @ decimal_int (sd_ptpDomain sdp) @ '' is not locked yet'' @ em_dash @
        ''this installation is set to require lock before carrying audio'')
      else if \<not> sm_ignoreRefClock st \<and> sd_ptpMasterMAC sdp \<noteq> [] \<and> sm_grandmaster st \<noteq> [] \<and>
        normalizeGrandmaster (sm_grandmaster st) \<noteq> normalizeGrandmaster (sd_ptpMasterMAC sdp)
      then Some (''PTP grandmaster '' @ sd_ptpMasterMAC sdp @ '' differs from the one every current stream uses ('' @
        sm_grandmaster st @ '')'' @ em_dash @ ''streams on different grandmasters drift against each other'')
      else None)"

fun first_some :: "'a option list \<Rightarrow> 'a option" where
  "first_some [] = None"
| "first_some (Some e # xs) = Some e"
| "first_some (None # xs) = first_some xs"

text \<open>Whether the stream may be added, and what is left in \<open>errorOut\<close>.\<close>

definition canAddStream :: "sm_env \<Rightarrow> stream_manager \<Rightarrow> sdp_session \<Rightarrow> bool \<Rightarrow> bool \<times> string" where
  "canAddStream env st sdp isTransmit =
     (case first_some [validateSampleRate st sdp, validateChannelAvailability st (sd_numChannels sdp), validatePacketBudget sdp] of
        Some e \<Rightarrow> (False, e)
      | None \<Rightarrow> (case validateNetworkConfig env sdp of
          Inl e \<Rightarrow> (False, e)
        | Inr warning \<Rightarrow>
          (case first_some [validateProfile st sdp isTransmit, validateUsable st sdp isTransmit, validateClock env st sdp] of
            Some e \<Rightarrow> (False, e) | None \<Rightarrow> (True, warning))))"

definition getAddStreamError :: "sm_env \<Rightarrow> stream_manager \<Rightarrow> sdp_session \<Rightarrow> bool \<Rightarrow> string" where
  "getAddStreamError env st sdp isTransmit = snd (canAddStream env st sdp isTransmit)"

section \<open>Saving and telling\<close>

definition stream_config :: "u64 \<Rightarrow> managed_stream \<Rightarrow> persisted_config" where
  "stream_config now m = (createConfig now (ms_sdp m) (ms_mapping m) (si_description (ms_info m)))\<lparr>pc_isTransmit := ms_isTransmit m\<rparr>"

definition saveAllStreams :: "sm_env \<Rightarrow> stream_manager \<Rightarrow> stream_manager \<times> bool" where
  "saveAllStreams env st =
     (let (file, success) = saveConfig (ev_writable env) (sm_file st) (map (stream_config (ev_now env) \<circ> snd) (sm_streams st))
      in (st\<lparr>sm_file := file\<rparr>, success))"

definition autoSaveIfEnabled :: "sm_env \<Rightarrow> stream_manager \<Rightarrow> stream_manager" where
  "autoSaveIfEnabled env st = (if sm_autoSave st then fst (saveAllStreams env st) else st)"

definition sm_notify :: "sm_event \<Rightarrow> stream_manager \<Rightarrow> stream_manager" where
  "sm_notify e st = st\<lparr>sm_events := sm_events st @ [e]\<rparr>"

section \<open>Receiving\<close>

definition resolveEffectiveDscp :: "int \<Rightarrow> int \<Rightarrow> int" where
  "resolveEffectiveDscp perSourceDscp profileDscp = (if perSourceDscp \<ge> 0 then perSourceDscp else profileDscp)"

definition createReceiver :: "stream_manager \<Rightarrow> sdp_session \<Rightarrow> channel_mapping \<Rightarrow> u64 \<Rightarrow> string \<Rightarrow> rtp_endpoint" where
  "createReceiver st sdp m depth interface = \<lparr>re_sdp = sdp, re_mapping = m, re_running = False, re_interface = interface,
     re_sourcePort = 0, re_dscp = - 1, re_jitterBufferDepth = depth, re_playoutDelay = sm_playoutDelay st\<rparr>"

definition createTransmitter :: "stream_manager \<Rightarrow> sdp_session \<Rightarrow> channel_mapping \<Rightarrow> string \<Rightarrow> u16 \<Rightarrow> rtp_endpoint" where
  "createTransmitter st sdp m interface sourcePort = \<lparr>re_sdp = sdp, re_mapping = m, re_running = False, re_interface = interface,
     re_sourcePort = sourcePort, re_dscp = resolveEffectiveDscp (sd_dscp sdp) (pf_recommendedDscp (forKind (sm_profileKind st))),
     re_jitterBufferDepth = 0, re_playoutDelay = 0\<rparr>"

text \<open>Started only while the device runs: the object, and whether it may be kept.\<close>

definition start_if_active :: "sm_env \<Rightarrow> stream_manager \<Rightarrow> rtp_endpoint \<Rightarrow> rtp_endpoint \<times> bool" where
  "start_if_active env st e = (if sm_ioActive st then rtp_start (ev_opens env) e else (e, True))"

definition encoding_of :: "string \<Rightarrow> audio_encoding" where
  "encoding_of s = (if s = ''L16'' then L16 else if s = ''L24'' then L24 else Unknown)"

text \<open>A \<open>StreamInfo\<close> as it is declared: the members without an initialiser have whatever was there.\<close>

definition info_blank :: "sm_env \<Rightarrow> stream_info" where
  "info_blank env = \<lparr>si_id = StreamID_null, si_name = [], si_description = [],
     si_source = \<lparr>na_ip = [], na_port = ev_sourcePort env, na_ttl = 32\<rparr>, si_multicast = \<lparr>na_ip = [], na_port = 0, na_ttl = 32\<rparr>,
     si_encoding = Unknown, si_sampleRate = 0, si_numChannels = 0, si_payloadType = 0, si_ptime = ev_ptime env,
     si_framecount = ev_framecount env, si_jitterBufferDepth = 0, si_ptp = \<lparr>ptp_domain = 0, ptp_masterMAC = [], ptp_enabled = True\<rparr>,
     si_stats = \<lparr>packetsReceived = 0, packetsLost = 0, malformedPackets = 0, outOfOrderPackets = 0, underruns = 0, overruns = 0,
       lastPacketTimeNs = 0, jitterNs = 0, latencyNs = 0, bytesReceived = 0, bytesSent = 0\<rparr>,
     si_isActive = False, si_isConnected = False\<rparr>"

definition session_info :: "sm_env \<Rightarrow> stream_id \<Rightarrow> sdp_session \<Rightarrow> stream_info" where
  "session_info env i sdp = (info_blank env)\<lparr>si_id := i, si_name := sd_sessionName sdp, si_description := sd_sessionInfo sdp,
     si_source := \<lparr>na_ip = sd_sourceAddress sdp, na_port = sd_port sdp, na_ttl = 32\<rparr>,
     si_multicast := \<lparr>na_ip = sd_connectionAddress sdp, na_port = sd_port sdp, na_ttl = sd_ttl sdp\<rparr>,
     si_encoding := encoding_of (sd_encoding sdp), si_sampleRate := sd_sampleRate sdp, si_numChannels := sd_numChannels sdp,
     si_payloadType := sd_payloadType sdp, si_ptime := sd_ptimeUs sdp, si_framecount := sd_framecount sdp,
     si_ptp := \<lparr>ptp_domain = sd_ptpDomain sdp, ptp_masterMAC = [], ptp_enabled = True\<rparr>,
     si_isActive := True, si_isConnected := False\<rparr>"

text \<open>The stream is stored and counted, its grandmaster adopted and its clock started.\<close>

definition count_channels :: "bool \<Rightarrow> u16 \<Rightarrow> stream_manager \<Rightarrow> stream_manager" where
  "count_channels isTransmit n st = (if isTransmit then st\<lparr>sm_txChannelsInUse := sm_txChannelsInUse st + ucast n\<rparr>
     else st\<lparr>sm_rxChannelsInUse := sm_rxChannelsInUse st + ucast n\<rparr>)"

definition store_stream :: "stream_id \<Rightarrow> managed_stream \<Rightarrow> stream_manager \<Rightarrow> stream_manager" where
  "store_stream i m st =
     ensurePTPClockForDomain (sd_ptpDomain (ms_sdp m)) (adoptGrandmaster (sd_ptpMasterMAC (ms_sdp m))
       (count_channels (ms_isTransmit m) (sd_numChannels (ms_sdp m)) (st\<lparr>sm_streams := map_put i m (sm_streams st)\<rparr>)))"

definition complete_mapping :: "stream_id \<Rightarrow> string \<Rightarrow> u16 \<Rightarrow> channel_mapping \<Rightarrow> channel_mapping" where
  "complete_mapping i name n m =
     m\<lparr>streamID := i, streamName := name, streamChannelCount := n, deviceChannelCount := n\<rparr>"

definition addStream :: "sm_env \<Rightarrow> stream_id \<Rightarrow> sdp_session \<Rightarrow> channel_mapping \<Rightarrow> stream_manager \<Rightarrow> stream_manager \<times> stream_id" where
  "addStream env i sdp mapping st =
     (if \<not> fst (canAddStream env st sdp False) then (st, StreamID_null)
      else if map_find (sm_streams st) i \<noteq> None then (st, StreamID_null)
      else let m = complete_mapping i (sd_sessionName sdp) (sd_numChannels sdp) mapping in
        case addMapping m (sm_mapper st) of
          (mp, False) \<Rightarrow> (st\<lparr>sm_mapper := mp\<rparr>, StreamID_null)
        | (mp, True) \<Rightarrow>
          (let (receiver, started) = start_if_active env st (createReceiver st sdp m 0 []) in
           if \<not> started then (st\<lparr>sm_mapper := fst (removeMapping i mp)\<rparr>, StreamID_null)
           else let info = session_info env i sdp;
                    managed = \<lparr>ms_sdp = sdp, ms_mapping = m, ms_receiver = Some receiver, ms_transmitter = None,
                      ms_info = info, ms_isTransmit = False, ms_sourcePort = 0\<rparr>
             in (autoSaveIfEnabled env (sm_notify (StreamAdded info) (store_stream i managed (st\<lparr>sm_mapper := mp\<rparr>))), i)))"

text \<open>The identifier of the mapping that is made here is replaced before it is used.\<close>

definition addStreamDefault :: "sm_env \<Rightarrow> stream_id \<Rightarrow> sdp_session \<Rightarrow> stream_manager \<Rightarrow> stream_manager \<times> stream_id" where
  "addStreamDefault env i sdp st =
     (case createDefaultMapping i (sd_sessionName sdp) (sd_numChannels sdp) (sm_mapper st) of
        None \<Rightarrow> (st, StreamID_null)
      | Some m \<Rightarrow> addStream env i sdp m st)"

definition importSDPFile :: "sm_env \<Rightarrow> stream_id \<Rightarrow> string option \<Rightarrow> stream_manager \<Rightarrow> stream_manager \<times> stream_id" where
  "importSDPFile env i file st = (case file of
       None \<Rightarrow> (st, StreamID_null)
     | Some content \<Rightarrow> (case parseString content of None \<Rightarrow> (st, StreamID_null) | Some sdp \<Rightarrow> addStreamDefault env i sdp st))"

definition importSDPURL ::
  "sm_env \<Rightarrow> stream_id \<Rightarrow> string \<Rightarrow> string + string \<Rightarrow> stream_manager \<Rightarrow> (stream_manager \<times> stream_id) \<times> string" where
  "importSDPURL env i url fetched st = (case fetched of
       Inl e \<Rightarrow> ((st, StreamID_null), e)
     | Inr content \<Rightarrow> (case parseString content of
         None \<Rightarrow> ((st, StreamID_null), ''what '' @ url @ '' returned is not a session description'')
       | Some sdp \<Rightarrow> (addStreamDefault env i sdp st, [])))"

section \<open>Removing\<close>

definition uncount_channels :: "bool \<Rightarrow> u16 \<Rightarrow> stream_manager \<Rightarrow> stream_manager" where
  "uncount_channels isTransmit n st = (if isTransmit then st\<lparr>sm_txChannelsInUse := sm_txChannelsInUse st - ucast n\<rparr>
     else st\<lparr>sm_rxChannelsInUse := sm_rxChannelsInUse st - ucast n\<rparr>)"

definition removeStream :: "sm_env \<Rightarrow> stream_id \<Rightarrow> stream_manager \<Rightarrow> stream_manager \<times> bool" where
  "removeStream env i st = (case map_find (sm_streams st) i of
       None \<Rightarrow> (st, False)
     | Some m \<Rightarrow>
       (let st1 = uncount_channels (ms_isTransmit m) (sd_numChannels (ms_sdp m)) (st\<lparr>sm_mapper := fst (removeMapping i (sm_mapper st))\<rparr>);
            st2 = recomputeActiveGrandmaster (st1\<lparr>sm_streams := map_erase i (sm_streams st1)\<rparr>)
        in (autoSaveIfEnabled env (sm_notify (StreamRemoved (ms_info m)) st2), True)))"

definition removeAllStreams :: "stream_manager \<Rightarrow> stream_manager" where
  "removeAllStreams st =
     (let removed = map (ms_info \<circ> snd) (sm_streams st);
          st1 = recomputeActiveGrandmaster (st\<lparr>sm_streams := [], sm_mapper := clearAll (sm_mapper st),
            sm_rxChannelsInUse := 0, sm_txChannelsInUse := 0\<rparr>)
      in fold (\<lambda>info. sm_notify (StreamRemoved info)) removed st1)"

section \<open>Sending\<close>

definition announcedTxSession :: "u64 \<Rightarrow> string \<Rightarrow> string \<Rightarrow> u16 \<Rightarrow> u16 \<Rightarrow> u32 \<Rightarrow> int \<Rightarrow> sdp_session" where
  "announcedTxSession now name ip port n rate dscp = sdp_default\<lparr>sd_sessionName := name, sd_connectionAddress := ip, sd_port := port,
     sd_numChannels := n, sd_sampleRate := rate, sd_encoding := ''L24'', sd_payloadType := 97, sd_sessionID := now,
     sd_sessionVersion := 1, sd_dscp := dscp\<rparr>"

definition device_rate_u32 :: "stream_manager \<Rightarrow> u32" where
  "device_rate_u32 st = of_int \<lfloor>sm_deviceRate st\<rfloor>"

definition tx_info :: "sm_env \<Rightarrow> stream_id \<Rightarrow> string \<Rightarrow> string \<Rightarrow> u16 \<Rightarrow> u16 \<Rightarrow> sdp_session \<Rightarrow> stream_info" where
  "tx_info env i name ip port n sdp = (info_blank env)\<lparr>si_id := i, si_name := name,
     si_multicast := \<lparr>na_ip = ip, na_port = port, na_ttl = 32\<rparr>, si_encoding := L24, si_sampleRate := sd_sampleRate sdp,
     si_numChannels := n, si_payloadType := sd_payloadType sdp, si_isActive := True\<rparr>"

definition createTxStream ::
  "sm_env \<Rightarrow> stream_id \<Rightarrow> string \<Rightarrow> string \<Rightarrow> u16 \<Rightarrow> u16 \<Rightarrow> channel_mapping \<Rightarrow> u16 \<Rightarrow> int \<Rightarrow> stream_manager \<Rightarrow>
   stream_manager \<times> stream_id" where
  "createTxStream env i name ip port n mapping sourcePort dscp st =
     (let sdp = announcedTxSession (ev_now env) name ip port n (device_rate_u32 st) dscp in
      if \<not> fst (canAddStream env st sdp True) then (st, StreamID_null)
      else let m = complete_mapping i name n mapping in
        case addMapping m (sm_mapper st) of
          (mp, False) \<Rightarrow> (st\<lparr>sm_mapper := mp\<rparr>, StreamID_null)
        | (mp, True) \<Rightarrow>
          (let (transmitter, started) = start_if_active env st (createTransmitter st sdp m [] sourcePort) in
           if \<not> started then (st\<lparr>sm_mapper := fst (removeMapping i mp)\<rparr>, StreamID_null)
           else let info = tx_info env i name ip port n sdp;
                    managed = \<lparr>ms_sdp = sdp, ms_mapping = m, ms_receiver = None, ms_transmitter = Some transmitter,
                      ms_info = info, ms_isTransmit = True, ms_sourcePort = sourcePort\<rparr>
             in (autoSaveIfEnabled env (sm_notify (StreamAdded info) (store_stream i managed (st\<lparr>sm_mapper := mp\<rparr>))), i)))"

definition advanceLastOctet :: "string \<Rightarrow> nat \<Rightarrow> string option" where
  "advanceLastOctet ip offset = (case cut_last (CHR ''.'') ip of
       None \<Rightarrow> None
     | Some (prefix, lastPart) \<Rightarrow>
         if lastPart = [] \<or> \<not> list_all is_digit lastPart \<or> length lastPart > 3 then None
         else let base = fst (read_digits 10 0 lastPart) in
           if base > 255 then None
           else if base + offset > 255 then None
           else Some (prefix @ ''.'' @ decimal (base + offset)))"

text \<open>What the flows of one group share.\<close>

record flow_plan =
  fp_name :: string
  fp_ip :: string
  fp_port :: u16
  fp_channels :: u16
  fp_mapping :: channel_mapping
  fp_dscp :: int
  fp_dolby :: bool
  fp_unitOffset :: u32
  fp_perFlow :: nat
  fp_count :: nat

definition per_flow :: "stream_manager \<Rightarrow> nat" where
  "per_flow st =
     (let frames = framesPerPacket (device_rate_u32 st) 1000 0; budget = maxChannelsPerPacket (bytesPerSample ''L24'') (unat frames) in
      max 1 (min kMaxChannelsPerFlow (min (unat (pf_maxChannelsPerFlow (forKind (sm_profileKind st)))) budget)))"

definition plan_flows :: "stream_manager \<Rightarrow> string \<Rightarrow> string \<Rightarrow> u16 \<Rightarrow> u16 \<Rightarrow> channel_mapping \<Rightarrow> int \<Rightarrow> flow_plan" where
  "plan_flows st name ip port n mapping dscp =
     (let dolby = pf_fixedMulticastPerFlowSourcePort (forKind (sm_profileKind st)) in
      \<lparr>fp_name = name, fp_ip = ip, fp_port = port, fp_channels = n, fp_mapping = mapping, fp_dscp = dscp, fp_dolby = dolby,
       fp_unitOffset = (if dolby then sm_txFlowPortOffset st else 0), fp_perFlow = per_flow st,
       fp_count = (unat n + per_flow st - 1) div per_flow st\<rparr>)"

text \<open>The address and source port of a flow, or nothing when they run out.\<close>

definition flow_address :: "flow_plan \<Rightarrow> nat \<Rightarrow> (string \<times> u16) option" where
  "flow_address p flow =
     (if fp_dolby p
      then (let candidate = ucast (fp_port p) + 1 + fp_unitOffset p + of_nat flow :: u32 in
        if candidate > 0xFFFF then None else Some (fp_ip p, ucast candidate))
      else map_option (\<lambda>ip. (ip, 0)) (advanceLastOctet (fp_ip p) flow))"

definition flow_channels :: "flow_plan \<Rightarrow> nat \<Rightarrow> u16" where
  "flow_channels p flow = min (fp_channels p - of_nat (flow * fp_perFlow p)) (of_nat (fp_perFlow p))"

definition flow_mapping :: "flow_plan \<Rightarrow> nat \<Rightarrow> channel_mapping" where
  "flow_mapping p flow = (fp_mapping p)\<lparr>
     deviceChannelStart := of_nat (unat (deviceChannelStart (fp_mapping p)) + flow * fp_perFlow p),
     streamChannelCount := flow_channels p flow, deviceChannelCount := flow_channels p flow, routes := []\<rparr>"

definition flow_name :: "flow_plan \<Rightarrow> nat \<Rightarrow> string" where
  "flow_name p flow = (if fp_count p = 1 then fp_name p
     else fp_name p @ '' (flow '' @ decimal (flow + 1) @ ''/'' @ decimal (fp_count p) @ '')'')"

definition roll_back :: "sm_env \<Rightarrow> stream_id list \<Rightarrow> stream_manager \<Rightarrow> stream_manager" where
  "roll_back env created st = fold (\<lambda>i st. fst (removeStream env i st)) created st"

fun create_flows ::
  "sm_env \<Rightarrow> (nat \<Rightarrow> stream_id) \<Rightarrow> flow_plan \<Rightarrow> nat list \<Rightarrow> stream_id list \<Rightarrow> stream_manager \<Rightarrow> stream_manager \<times> stream_id list" where
  "create_flows env ids p [] created st = (st, created)"
| "create_flows env ids p (flow # flows) created st = (case flow_address p flow of
       None \<Rightarrow> (roll_back env created st, [])
     | Some (ip, sourcePort) \<Rightarrow>
       (let (st', i) = createTxStream env (ids flow) (flow_name p flow) ip (fp_port p) (flow_channels p flow) (flow_mapping p flow)
              sourcePort (fp_dscp p) st in
        if id_isNull i then (roll_back env created st', [])
        else create_flows env ids p flows (created @ [i]) st'))"

definition createTxStreamFlows ::
  "sm_env \<Rightarrow> (nat \<Rightarrow> stream_id) \<Rightarrow> string \<Rightarrow> string \<Rightarrow> u16 \<Rightarrow> u16 \<Rightarrow> channel_mapping \<Rightarrow> int \<Rightarrow> stream_manager \<Rightarrow>
   stream_manager \<times> stream_id list" where
  "createTxStreamFlows env ids name ip port n mapping dscp st =
     (if n = 0 then (st, [])
      else let p = plan_flows st name ip port n mapping dscp in create_flows env ids p [0..<fp_count p] [] st)"

definition exportSDP :: "sm_env \<Rightarrow> stream_id \<Rightarrow> stream_manager \<Rightarrow> string option" where
  "exportSDP env i st = (case map_find (sm_streams st) i of
       None \<Rightarrow> None
     | Some m \<Rightarrow> (let content = generate (ev_now env) (ms_sdp m) in if content = [] then None else Some content))"

section \<open>Changing the mapping\<close>

definition sm_updateMapping :: "sm_env \<Rightarrow> stream_id \<Rightarrow> channel_mapping \<Rightarrow> stream_manager \<Rightarrow> stream_manager \<times> bool" where
  "sm_updateMapping env i newMapping st = (case map_find (sm_streams st) i of
       None \<Rightarrow> (st, False)
     | Some ms \<Rightarrow>
       (let old = ms_mapping ms;
            m = newMapping\<lparr>streamID := i, streamName := streamName old, streamChannelCount := sd_numChannels (ms_sdp ms)\<rparr> in
        case updateMapping m (sm_mapper st) of
          (mp, False) \<Rightarrow> (st\<lparr>sm_mapper := mp\<rparr>, False)
        | (mp, True) \<Rightarrow>
          (let (ms', updated) = (case ms_receiver ms of
                 Some e \<Rightarrow> (let (e', ok) = rtp_updateMapping (ev_opens env) m e in (ms\<lparr>ms_receiver := Some e'\<rparr>, ok))
               | None \<Rightarrow> (case ms_transmitter ms of
                   Some e \<Rightarrow> (let (e', ok) = rtp_updateMapping (ev_opens env) m e in (ms\<lparr>ms_transmitter := Some e'\<rparr>, ok))
                 | None \<Rightarrow> (ms, False))) in
           if \<not> updated
           then (st\<lparr>sm_streams := map_put i ms' (sm_streams st), sm_mapper := fst (updateMapping old mp)\<rparr>, False)
           else (autoSaveIfEnabled env (sm_notify (StreamStatus (ms_info ms))
             (st\<lparr>sm_streams := map_put i (ms'\<lparr>ms_mapping := m\<rparr>) (sm_streams st), sm_mapper := mp\<rparr>)), True))))"

section \<open>Following a source\<close>

datatype sink_follow = NotBound | Unchanged | ChannelCountChanged | Follow

definition evaluateSinkFollow :: "sdp_session \<Rightarrow> sdp_session \<Rightarrow> sink_follow" where
  "evaluateSinkFollow stored announced =
     (if sd_sessionName announced = [] \<or> sd_sessionName stored \<noteq> sd_sessionName announced then NotBound
      else if sd_originAddress stored = [] \<or> sd_originAddress announced = [] \<or> sd_originAddress stored \<noteq> sd_originAddress announced
      then NotBound
      else if sd_sourceAddress stored \<noteq> [] \<and> sd_sourceAddress announced \<noteq> [] \<and> sd_sourceAddress stored \<noteq> sd_sourceAddress announced
      then NotBound
      else if \<not> (sd_connectionAddress stored \<noteq> sd_connectionAddress announced \<or> sd_port stored \<noteq> sd_port announced \<or>
        sd_payloadType stored \<noteq> sd_payloadType announced \<or> sd_encoding stored \<noteq> sd_encoding announced \<or>
        sd_sampleRate stored \<noteq> sd_sampleRate announced \<or> sd_ptimeUs stored \<noteq> sd_ptimeUs announced \<or>
        sd_framecount stored \<noteq> sd_framecount announced)
      then Unchanged
      else if sd_numChannels stored \<noteq> sd_numChannels announced then ChannelCountChanged
      else Follow)"

datatype repoint_trigger = Announcement | Controller

record pending =
  pe_id :: stream_id
  pe_start :: u16
  pe_sdp :: sdp_session

definition pending_follows :: "sdp_session \<Rightarrow> stream_manager \<Rightarrow> pending list" where
  "pending_follows announced st =
     map (\<lambda>(i, m). \<lparr>pe_id = i, pe_start = deviceChannelStart (ms_mapping m), pe_sdp = announced\<lparr>sd_sessionName := sd_sessionName (ms_sdp m)\<rparr>\<rparr>)
       (filter (\<lambda>(i, m). \<not> ms_isTransmit m \<and> evaluateSinkFollow (ms_sdp m) announced = Follow) (sm_streams st))"

definition follow_mapping :: "pending \<Rightarrow> channel_mapping" where
  "follow_mapping p = mapping_default\<lparr>streamName := sd_sessionName (pe_sdp p), streamChannelCount := sd_numChannels (pe_sdp p),
     deviceChannelStart := pe_start p, deviceChannelCount := sd_numChannels (pe_sdp p)\<rparr>"

definition follow_one :: "sm_env \<Rightarrow> stream_id \<Rightarrow> pending \<Rightarrow> stream_manager \<Rightarrow> stream_manager \<times> nat" where
  "follow_one env i p st =
     (let (st1, removed) = removeStream env (pe_id p) st in
      if \<not> removed then (st1, 0)
      else let (st2, newId) = addStream env i (pe_sdp p) (follow_mapping p) st1 in (st2, if id_isNull newId then 0 else 1))"

fun follow_all :: "sm_env \<Rightarrow> (nat \<Rightarrow> stream_id) \<Rightarrow> nat \<Rightarrow> pending list \<Rightarrow> stream_manager \<Rightarrow> stream_manager \<times> nat" where
  "follow_all env ids k [] st = (st, 0)"
| "follow_all env ids k (p # ps) st =
     (let (st1, n) = follow_one env (ids k) p st; (st2, n') = follow_all env ids (k + 1) ps st1 in (st2, n + n'))"

definition updateReceiveStreamsFromAnnouncement ::
  "sm_env \<Rightarrow> (nat \<Rightarrow> stream_id) \<Rightarrow> sdp_session \<Rightarrow> repoint_trigger \<Rightarrow> stream_manager \<Rightarrow> stream_manager \<times> nat" where
  "updateReceiveStreamsFromAnnouncement env ids announced trigger st =
     (if trigger = Announcement \<and> \<not> sm_autoSinkFollow st then (st, 0)
      else if sd_sessionName announced = [] then (st, 0)
      else follow_all env ids 0 (pending_follows announced st) st)"

section \<open>The device\<close>

definition restart_all :: "sm_env \<Rightarrow> bool \<Rightarrow> managed_stream \<Rightarrow> managed_stream" where
  "restart_all env active m =
     (let turn = (\<lambda>e. if active then fst (rtp_start (ev_opens env) e) else rtp_stop e) in
      m\<lparr>ms_receiver := map_option turn (ms_receiver m), ms_transmitter := map_option turn (ms_transmitter m)\<rparr>)"

definition setIOActive :: "sm_env \<Rightarrow> bool \<Rightarrow> stream_manager \<Rightarrow> stream_manager" where
  "setIOActive env active st =
     (if sm_ioActive st = active then st
      else st\<lparr>sm_ioActive := active, sm_streams := map (\<lambda>(i, m). (i, restart_all env active m)) (sm_streams st)\<rparr>)"

definition setDeviceSampleRate :: "rat \<Rightarrow> stream_manager \<Rightarrow> stream_manager \<times> bool" where
  "setDeviceSampleRate rate st =
     (if rate < 44100 \<or> rate > 384000 then (st, False)
      else if \<not> list_all (\<lambda>(i, m). \<bar>rate_of (ms_sdp m) - rate\<bar> \<le> tenth) (sm_streams st) then (st, False)
      else (st\<lparr>sm_deviceRate := rate\<rparr>, True))"

definition sm_setUsableChannelCount :: "nat \<Rightarrow> stream_manager \<Rightarrow> stream_manager" where
  "sm_setUsableChannelCount count st = st\<lparr>sm_mapper := setUsableChannelCount count (sm_mapper st), sm_usableRx := of_nat count\<rparr>"

section \<open>Restoring\<close>

definition load_one :: "sm_env \<Rightarrow> persisted_config \<Rightarrow> stream_manager \<Rightarrow> stream_manager \<times> stream_info option" where
  "load_one env c st =
     (if \<not> pc_enabled c \<or> \<not> pc_isValid c \<or> \<not> fst (canAddStream env st (pc_sdp c) False) then (st, None)
      else let i = streamID (pc_mapping c) in
        if map_find (sm_streams st) i \<noteq> None then (st, None)
        else case addMapping (pc_mapping c) (sm_mapper st) of
          (mp, False) \<Rightarrow> (st\<lparr>sm_mapper := mp\<rparr>, None)
        | (mp, True) \<Rightarrow>
          (let (e, started) = start_if_active env st
                 (if pc_isTransmit c then createTransmitter st (pc_sdp c) (pc_mapping c) (pc_networkInterface c) 0
                  else createReceiver st (pc_sdp c) (pc_mapping c) (pc_jitterBufferDepth c) (pc_networkInterface c)) in
           if \<not> started then (st\<lparr>sm_mapper := fst (removeMapping i mp)\<rparr>, None)
           else let info = session_info env i (pc_sdp c);
                    managed = \<lparr>ms_sdp = pc_sdp c, ms_mapping = pc_mapping c, ms_receiver = (if pc_isTransmit c then None else Some e),
                      ms_transmitter = (if pc_isTransmit c then Some e else None), ms_info = info, ms_isTransmit = pc_isTransmit c,
                      ms_sourcePort = 0\<rparr>
             in (store_stream i managed (st\<lparr>sm_mapper := mp\<rparr>), Some info)))"

fun load_all :: "sm_env \<Rightarrow> persisted_config list \<Rightarrow> stream_manager \<Rightarrow> stream_manager \<times> stream_info list" where
  "load_all env [] st = (st, [])"
| "load_all env (c # cs) st =
     (let (st1, info) = load_one env c st; (st2, infos) = load_all env cs st1
      in (st2, (case info of Some x \<Rightarrow> x # infos | None \<Rightarrow> infos)))"

definition loadSavedStreams :: "sm_env \<Rightarrow> persisted_config list option \<Rightarrow> stream_manager \<Rightarrow> stream_manager \<times> bool" where
  "loadSavedStreams env configs st = (case configs of
       None \<Rightarrow> (st, False)
     | Some cs \<Rightarrow> (let (st1, restored) = load_all env cs st
                  in (fold (\<lambda>info. sm_notify (StreamAdded info)) restored st1, restored \<noteq> [])))"

section \<open>Queries\<close>

definition getActiveStreams :: "stream_manager \<Rightarrow> stream_info list" where
  "getActiveStreams st = filter si_isActive (map (ms_info \<circ> snd) (sm_streams st))"

definition getTransmitSessions :: "stream_manager \<Rightarrow> sdp_session list" where
  "getTransmitSessions st = map ms_sdp (filter ms_isTransmit (map snd (sm_streams st)))"

definition getReceiveSessions :: "stream_manager \<Rightarrow> sdp_session list" where
  "getReceiveSessions st = map ms_sdp (filter (Not \<circ> ms_isTransmit) (map snd (sm_streams st)))"

definition getSourcePort :: "stream_id \<Rightarrow> stream_manager \<Rightarrow> u16 option" where
  "getSourcePort i st = (case map_find (sm_streams st) i of
       None \<Rightarrow> None | Some m \<Rightarrow> if \<not> ms_isTransmit m then None else Some (ms_sourcePort m))"

definition getStreamInfo :: "stream_id \<Rightarrow> stream_manager \<Rightarrow> stream_info option" where
  "getStreamInfo i st = map_option ms_info (map_find (sm_streams st) i)"

definition hasStream :: "stream_id \<Rightarrow> stream_manager \<Rightarrow> bool" where
  "hasStream i st \<longleftrightarrow> map_find (sm_streams st) i \<noteq> None"

definition getStreamCount :: "stream_manager \<Rightarrow> nat" where
  "getStreamCount st = length (sm_streams st)"

end
