(* ===== verification/Managed_Streams.thy ===== *)
theory Managed_Streams
  imports Stream_Manager
begin

text \<open>
  What the manager of the streams keeps true: the streams and the channel matrix have the same mappings, the totals are the
  sums over the streams, every stream runs at the rate of the device, the grandmaster in force is one a stream declares, and
  nothing runs while the device is idle. Every operation keeps it, and the properties of the manager follow.
\<close>

section \<open>Sums over a map\<close>

lemma sum_put_fresh:
  fixes f :: "'k::linorder \<times> 'v \<Rightarrow> 'n::comm_monoid_add"
  shows "map_find m k = None \<Longrightarrow> sum_list (map f (map_put k v m)) = f (k, v) + sum_list (map f m)"
  by (induction k v m rule: map_put.induct) (auto simp: add.left_commute split: if_splits)

lemma sum_erase:
  fixes f :: "'k::linorder \<times> 'v \<Rightarrow> 'n::comm_monoid_add"
  assumes "sorted_map m" "map_find m k = Some v"
  shows "sum_list (map f m) = f (k, v) + sum_list (map f (map_erase k m))"
  using assms
proof (induction m)
  case (Cons p m)
  obtain k' v' where p: "p = (k', v')" by force
  show ?case
  proof (cases "k' = k")
    case True
    have "map_erase k m = m" using Cons.prems True by (intro map_erase_absent) (auto simp: p)
    then show ?thesis using Cons.prems True by (simp add: p map_erase_def)
  next
    case False
    then show ?thesis using Cons by (auto simp: p map_erase_def add.left_commute)
  qed
qed simp

lemma sum_put_same:
  fixes f :: "'k::linorder \<times> 'v \<Rightarrow> 'n::comm_monoid_add"
  assumes "sorted_map m" "map_find m k = Some v" "f (k, v') = f (k, v)"
  shows "sum_list (map f (map_put k v' m)) = sum_list (map f m)"
proof -
  have "sum_list (map f (map_put k v' (map_erase k m))) = f (k, v') + sum_list (map f (map_erase k m))"
    by (rule sum_put_fresh) simp
  then show ?thesis using assms sum_erase [OF assms(1,2), of f] by (simp add: map_put_erase)
qed

lemma put_found_again: "sorted_map m \<Longrightarrow> map_find m k = None \<Longrightarrow> map_erase k (map_put k v m) = m"
  by (rule sorted_map_ext) (auto simp: sorted_map_erase sorted_map_put)

lemma set_put: "sorted_map m \<Longrightarrow> (i, x) \<in> set (map_put k v m) \<longleftrightarrow> (if i = k then x = v else (i, x) \<in> set m)"
  using map_find_iff [OF sorted_map_put, of m i x k v] by (auto simp: map_find_iff)

lemma set_erase: "(i, x) \<in> set (map_erase k m) \<longleftrightarrow> i \<noteq> k \<and> (i, x) \<in> set m"
  by (auto simp: map_erase_def)

section \<open>The matrix\<close>

lemma add_accepted:
  assumes "mapper_exact mp" "valid_id (streamID m)" "map_find (mappings mp) (streamID m) = None" "addMapping m mp = (mp', True)"
  shows "mapper_exact mp'" "mappings mp' = map_put (streamID m) m (mappings mp)"
    "fst (removeMapping (streamID m) mp') = mp" "usableChannelCount mp' = usableChannelCount mp"
proof -
  show e: "mapper_exact mp'" using addMapping_exact [OF assms(1,2)] assms(3,4) by (simp add: getMapping_def)
  have p: "mp' = put_mapping m mp" using assms(4) by (auto simp: addMapping_def split: if_splits)
  then show m: "mappings mp' = map_put (streamID m) m (mappings mp)" by simp
  show u: "usableChannelCount mp' = usableChannelCount mp" by (simp add: p put_mapping_def updateDeviceChannelOwners_def)
  have "sorted_map (mappings mp)" using assms(1) by (simp add: mapper_exact_def mapper_inv_def)
  then have "mappings (fst (removeMapping (streamID m) mp')) = mappings mp"
    using assms(3) by (simp add: removeMapping_def m put_found_again)
  moreover have "usableChannelCount (fst (removeMapping (streamID m) mp')) = usableChannelCount mp"
    by (simp add: removeMapping_def m u clearDeviceChannelOwners_def)
  ultimately show "fst (removeMapping (streamID m) mp') = mp" using mapper_ext removeMapping_exact [OF e] assms(1) by blast
qed

lemma add_refused: "addMapping m mp = (mp', False) \<Longrightarrow> mp' = mp"
  by (auto simp: addMapping_def split: if_splits)

lemma remove_known:
  assumes "mapper_exact mp" "map_find (mappings mp) i = Some m"
  shows "mapper_exact (fst (removeMapping i mp))" "mappings (fst (removeMapping i mp)) = map_erase i (mappings mp)"
  using removeMapping_exact [OF assms(1), of i] assms(2) by (simp_all add: removeMapping_def)

lemma update_accepted:
  assumes "mapper_exact mp" "valid_id (streamID m)" "updateMapping m mp = (mp', True)"
  shows "mapper_exact mp'" "mappings mp' = map_put (streamID m) m (mappings mp)" "usableChannelCount mp' = usableChannelCount mp"
proof -
  let ?i = "streamID m" and ?d = "drop_stream (streamID m) mp"
  have v: "validateMapping m" "\<not> isOverlapWithStream m ?i mp" and p: "mp' = put_mapping m (clearDeviceChannelOwners ?i mp)"
    using assms(3) by (auto simp: updateMapping_def split: if_splits)
  have inv: "mapper_inv mp" and s: "sorted_map (mappings mp)" using assms(1) by (auto simp: mapper_exact_def mapper_inv_def)
  have l: "length (owners mp) = kMaxDeviceChannels" using mapper_invD(1) [OF inv] .
  have "mapper_exact (put_mapping m ?d)"
  proof (rule put_mapping_exact [OF drop_stream_exact [OF assms(1)] v(1) assms(2)])
    show "id_isNull (owners ?d ! ch)" if "ch \<in> set (deviceChannels m)" for ch
      using no_overlap [OF v(2,1) that] valid_mapping(2) [OF v(1) that] l by (auto simp: owners_clear)
    show "owners ?d ! ch \<noteq> ?i" if "ch < kMaxDeviceChannels" for ch
      using that l valid_mapping(1) [OF v(1)] by (auto simp: owners_clear)
  qed
  then show "mapper_exact mp'" using put_after_clear [OF s] by (simp add: p)
  show "mappings mp' = map_put ?i m (mappings mp)" by (simp add: p)
  show "usableChannelCount mp' = usableChannelCount mp"
    by (simp add: p put_mapping_def updateDeviceChannelOwners_def clearDeviceChannelOwners_def)
qed

lemma update_refused: "updateMapping m mp = (mp', False) \<Longrightarrow> mp' = mp"
  by (auto simp: updateMapping_def split: if_splits)

text \<open>The old mapping can always be put back, and then the matrix is as it was.\<close>

lemma update_back:
  assumes "mapper_exact mp" "map_find (mappings mp) (streamID m) = Some old" "valid_id (streamID m)" "updateMapping m mp = (mp', True)"
  shows "updateMapping old mp' = (mp, True)"
proof -
  note U = update_accepted [OF assms(1,3,4)]
  have inv: "mapper_inv mp" using assms(1) by (simp add: mapper_exact_def)
  note D = mapper_invD [OF inv]
  have old: "streamID old = streamID m" "validateMapping old" using D(4) [OF assms(2)] by auto
  have free: "id_isNull (owners mp' ! ch) \<or> owners mp' ! ch = streamID m" if ch: "ch \<in> set (deviceChannels old)" for ch
  proof (rule ccontr)
    assume n: "\<not> ?thesis"
    have "ch < kMaxDeviceChannels" using valid_mapping(2) [OF old(2) ch] .
    then obtain x where x: "map_find (mappings mp') (owners mp' ! ch) = Some x" "ch \<in> set (deviceChannels x)"
      using U(1) n by (auto simp: mapper_exact_def)
    then have "map_find (mappings mp) (owners mp' ! ch) = Some x" using n by (auto simp: U(2) split: if_splits)
    then show False using D(5) [OF _ x(2)] D(5) [OF assms(2) ch] n by auto
  qed
  then have "\<not> isOverlapWithStream old (streamID old) mp'"
    by (auto simp: isOverlapWithStream_def list_ex_iff old(1))
  then obtain mp2 where mp2: "updateMapping old mp' = (mp2, True)" using old(2) by (auto simp: updateMapping_def)
  have v: "valid_id (streamID old)" using assms(3) old(1) by simp
  note V = update_accepted [OF U(1) v mp2]
  have "sorted_map (mappings mp)" using D(2) .
  then have "mappings mp2 = mappings mp"
    by (intro sorted_map_ext) (auto simp: V(2) U(2) old(1) sorted_map_put assms(2))
  then have "mp2 = mp" using mapper_ext [OF V(1) assms(1)] U(3) V(3) by simp
  then show ?thesis using mp2 by simp
qed

lemma clear_exact: "mapper_exact mp \<Longrightarrow> mapper_exact (clearAll mp)"
  by (rule clearAll_exact) (simp add: mapper_exact_def)

section \<open>The invariant\<close>

definition ms_endpoint :: "managed_stream \<Rightarrow> rtp_endpoint option" where
  "ms_endpoint m = (if ms_isTransmit m then ms_transmitter m else ms_receiver m)"

text \<open>One stream: it is stored under its identifier, it has the object its role needs and no other, and that object carries its session.\<close>

definition stream_ok :: "stream_id \<Rightarrow> managed_stream \<Rightarrow> bool" where
  "stream_ok i m \<longleftrightarrow> valid_id i \<and> \<not> id_isNull i \<and> streamID (ms_mapping m) = i \<and> si_id (ms_info m) = i \<and>
     (\<exists>e. ms_endpoint m = Some e \<and> re_sdp e = ms_sdp m) \<and> (if ms_isTransmit m then ms_receiver m else ms_transmitter m) = None"

definition ms_running :: "managed_stream \<Rightarrow> bool" where
  "ms_running m \<longleftrightarrow> (\<exists>e. ms_endpoint m = Some e \<and> re_running e)"

definition channel_total :: "bool \<Rightarrow> (stream_id, managed_stream) stdmap \<Rightarrow> u32" where
  "channel_total tx ms = sum_list (map (\<lambda>(i, m). if ms_isTransmit m = tx then ucast (sd_numChannels (ms_sdp m)) else 0) ms)"

definition at_rate :: "rat \<Rightarrow> managed_stream \<Rightarrow> bool" where
  "at_rate rate m \<longleftrightarrow> \<bar>rate_of (ms_sdp m) - rate\<bar> \<le> tenth"

definition declared :: "(stream_id, managed_stream) stdmap \<Rightarrow> string set" where
  "declared ms = {sd_ptpMasterMAC (ms_sdp m) | i m. (i, m) \<in> set ms} - {[]}"

definition grandmaster_ok :: "string \<Rightarrow> (stream_id, managed_stream) stdmap \<Rightarrow> bool" where
  "grandmaster_ok gm ms \<longleftrightarrow> (if gm = [] then declared ms = {} else gm \<in> declared ms)"

definition sm_inv :: "stream_manager \<Rightarrow> bool" where
  "sm_inv st \<longleftrightarrow> sorted_map (sm_streams st) \<and> mapper_exact (sm_mapper st) \<and>
     (\<forall>i. map_find (mappings (sm_mapper st)) i = map_option ms_mapping (map_find (sm_streams st) i)) \<and>
     (\<forall>(i, m)\<in>set (sm_streams st). stream_ok i m \<and> at_rate (sm_deviceRate st) m \<and> (ms_running m \<longrightarrow> sm_ioActive st)) \<and>
     (\<forall>tx. channels_in_use tx st = channel_total tx (sm_streams st)) \<and>
     grandmaster_ok (sm_grandmaster st) (sm_streams st)"

declare sm_inv_def [inv_defs]

text \<open>The fields the invariant does not read.\<close>

lemma notify_fields [simp]:
  "sm_streams (sm_notify e st) = sm_streams st" "sm_mapper (sm_notify e st) = sm_mapper st"
  "channels_in_use tx (sm_notify e st) = channels_in_use tx st" "sm_grandmaster (sm_notify e st) = sm_grandmaster st"
  "sm_deviceRate (sm_notify e st) = sm_deviceRate st" "sm_ioActive (sm_notify e st) = sm_ioActive st"
  "sm_clocks (sm_notify e st) = sm_clocks st" "sm_autoSave (sm_notify e st) = sm_autoSave st"
  "sm_file (sm_notify e st) = sm_file st" "sm_rxChannelsInUse (sm_notify e st) = sm_rxChannelsInUse st"
  "sm_txChannelsInUse (sm_notify e st) = sm_txChannelsInUse st"
  by (simp_all add: sm_notify_def channels_in_use_def)

lemma save_eq: "\<exists>f. autoSaveIfEnabled env st = st\<lparr>sm_file := f\<rparr>"
proof (cases "sm_autoSave st")
  case False
  then have "autoSaveIfEnabled env st = st\<lparr>sm_file := sm_file st\<rparr>" by (simp add: autoSaveIfEnabled_def)
  then show ?thesis by blast
qed (auto simp: autoSaveIfEnabled_def saveAllStreams_def split: prod.split)

lemma save_fields [simp]:
  "sm_streams (autoSaveIfEnabled env st) = sm_streams st" "sm_mapper (autoSaveIfEnabled env st) = sm_mapper st"
  "channels_in_use tx (autoSaveIfEnabled env st) = channels_in_use tx st"
  "sm_grandmaster (autoSaveIfEnabled env st) = sm_grandmaster st"
  "sm_deviceRate (autoSaveIfEnabled env st) = sm_deviceRate st" "sm_ioActive (autoSaveIfEnabled env st) = sm_ioActive st"
  "sm_clocks (autoSaveIfEnabled env st) = sm_clocks st" "sm_autoSave (autoSaveIfEnabled env st) = sm_autoSave st"
  "sm_rxChannelsInUse (autoSaveIfEnabled env st) = sm_rxChannelsInUse st"
  "sm_txChannelsInUse (autoSaveIfEnabled env st) = sm_txChannelsInUse st"
  using save_eq [of env st] by (auto simp: channels_in_use_def)

lemma use_frame [simp]:
  "channels_in_use tx (st\<lparr>sm_profileKind := kind\<rparr>) = channels_in_use tx st" "channels_in_use tx (st\<lparr>sm_usableTx := n\<rparr>) = channels_in_use tx st"
  "channels_in_use tx (st\<lparr>sm_usableRx := n\<rparr>) = channels_in_use tx st" "channels_in_use tx (st\<lparr>sm_txFlowPortOffset := n\<rparr>) = channels_in_use tx st"
  "channels_in_use tx (st\<lparr>sm_playoutDelay := n\<rparr>) = channels_in_use tx st" "channels_in_use tx (st\<lparr>sm_requirePTPLock := b\<rparr>) = channels_in_use tx st"
  "channels_in_use tx (st\<lparr>sm_ignoreRefClock := b\<rparr>) = channels_in_use tx st" "channels_in_use tx (st\<lparr>sm_autoSinkFollow := b\<rparr>) = channels_in_use tx st"
  "channels_in_use tx (st\<lparr>sm_autoSave := b\<rparr>) = channels_in_use tx st" "channels_in_use tx (st\<lparr>sm_ptpEnabled := b\<rparr>) = channels_in_use tx st"
  "channels_in_use tx (st\<lparr>sm_mapper := mp\<rparr>) = channels_in_use tx st" "channels_in_use tx (st\<lparr>sm_streams := ms\<rparr>) = channels_in_use tx st"
  "channels_in_use tx (st\<lparr>sm_ioActive := b\<rparr>) = channels_in_use tx st" "channels_in_use tx (st\<lparr>sm_deviceRate := r\<rparr>) = channels_in_use tx st"
  "channels_in_use tx (st\<lparr>sm_grandmaster := gm\<rparr>) = channels_in_use tx st" "channels_in_use tx (st\<lparr>sm_clocks := ds\<rparr>) = channels_in_use tx st"
  by (simp_all add: channels_in_use_def)

lemma sm_inv_cong:
  assumes "sm_streams st' = sm_streams st" "sm_mapper st' = sm_mapper st" "\<And>tx. channels_in_use tx st' = channels_in_use tx st"
    "sm_grandmaster st' = sm_grandmaster st" "sm_deviceRate st' = sm_deviceRate st" "sm_ioActive st' = sm_ioActive st"
  shows "sm_inv st' \<longleftrightarrow> sm_inv st"
  using assms by (simp add: sm_inv_def)

lemma inv_told [simp]: "sm_inv (sm_notify e st) \<longleftrightarrow> sm_inv st" "sm_inv (autoSaveIfEnabled env st) \<longleftrightarrow> sm_inv st"
  by (rule sm_inv_cong; simp)+

lemma inv_clock [simp]: "sm_inv (ensurePTPClockForDomain d st) \<longleftrightarrow> sm_inv st"
  by (rule sm_inv_cong) (simp_all add: ensurePTPClockForDomain_def channels_in_use_def)

lemma inv_mapper_same [simp]: "st\<lparr>sm_mapper := sm_mapper st\<rparr> = st"
  by simp

lemma sm_invD:
  assumes "sm_inv st"
  shows "sorted_map (sm_streams st)" "mapper_exact (sm_mapper st)"
    "\<And>i. map_find (mappings (sm_mapper st)) i = map_option ms_mapping (map_find (sm_streams st) i)"
    "\<And>i m. map_find (sm_streams st) i = Some m \<Longrightarrow> stream_ok i m \<and> at_rate (sm_deviceRate st) m \<and> (ms_running m \<longrightarrow> sm_ioActive st)"
    "\<And>tx. channels_in_use tx st = channel_total tx (sm_streams st)" "grandmaster_ok (sm_grandmaster st) (sm_streams st)"
  using assms by (auto simp: sm_inv_def dest: map_find_in)

lemma sm_invI:
  assumes "sorted_map (sm_streams st)" "mapper_exact (sm_mapper st)"
    "\<And>i. map_find (mappings (sm_mapper st)) i = map_option ms_mapping (map_find (sm_streams st) i)"
    "\<And>i m. map_find (sm_streams st) i = Some m \<Longrightarrow> stream_ok i m \<and> at_rate (sm_deviceRate st) m \<and> (ms_running m \<longrightarrow> sm_ioActive st)"
    "\<And>tx. channels_in_use tx st = channel_total tx (sm_streams st)" "grandmaster_ok (sm_grandmaster st) (sm_streams st)"
  shows "sm_inv st"
  using assms map_find_iff [OF assms(1)] by (auto simp: sm_inv_def)

section \<open>Adding\<close>

abbreviation counted :: "bool \<Rightarrow> managed_stream \<Rightarrow> u32" where
  "counted tx m \<equiv> (if ms_isTransmit m = tx then ucast (sd_numChannels (ms_sdp m)) else 0)"

lemma total_put: "map_find ms i = None \<Longrightarrow> channel_total tx (map_put i m ms) = counted tx m + channel_total tx ms"
  unfolding channel_total_def by (subst sum_put_fresh) simp_all

lemma total_erase: "sorted_map ms \<Longrightarrow> map_find ms i = Some m \<Longrightarrow> channel_total tx ms = counted tx m + channel_total tx (map_erase i ms)"
  unfolding channel_total_def by (subst sum_erase [where k = i and v = m]) simp_all

lemma total_same: "sorted_map ms \<Longrightarrow> map_find ms i = Some m \<Longrightarrow> ms_isTransmit m' = ms_isTransmit m \<Longrightarrow> ms_sdp m' = ms_sdp m \<Longrightarrow>
    channel_total tx (map_put i m' ms) = channel_total tx ms"
  unfolding channel_total_def by (rule sum_put_same) auto

lemma declared_put:
  "sorted_map ms \<Longrightarrow> map_find ms i = None \<Longrightarrow> declared (map_put i m ms) = declared ms \<union> ({sd_ptpMasterMAC (ms_sdp m)} - {[]})"
  by (auto simp: declared_def set_put map_find_None) (force simp: set_put)+

lemma store_inv:
  assumes inv: "sm_inv st" and fresh: "map_find (sm_streams st) i = None"
    and ok: "stream_ok i m" "at_rate (sm_deviceRate st) m" "ms_running m \<longrightarrow> sm_ioActive st"
    and mp: "mapper_exact mp" "mappings mp = map_put i (ms_mapping m) (mappings (sm_mapper st))"
  shows "sm_inv (store_stream i m (st\<lparr>sm_mapper := mp\<rparr>))"
proof -
  note D = sm_invD [OF inv]
  let ?s = "map_put i m (sm_streams st)"
  define st1 where "st1 = count_channels (ms_isTransmit m) (sd_numChannels (ms_sdp m)) (st\<lparr>sm_mapper := mp, sm_streams := ?s\<rparr>)"
  define st2 where "st2 = adoptGrandmaster (sd_ptpMasterMAC (ms_sdp m)) st1"
  have f1: "sm_streams st1 = ?s" "sm_mapper st1 = mp" "sm_grandmaster st1 = sm_grandmaster st" "sm_deviceRate st1 = sm_deviceRate st"
    "sm_ioActive st1 = sm_ioActive st" by (simp_all add: st1_def count_channels_def)
  have c1: "channels_in_use tx st1 = (if ms_isTransmit m = tx then ucast (sd_numChannels (ms_sdp m)) else 0) + channels_in_use tx st" for tx
    by (auto simp: st1_def count_channels_def channels_in_use_def)
  have f2: "sm_streams st2 = ?s" "sm_mapper st2 = mp" "sm_deviceRate st2 = sm_deviceRate st" "sm_ioActive st2 = sm_ioActive st"
    "channels_in_use tx st2 = channels_in_use tx st1"
    "sm_grandmaster st2 = (if sd_ptpMasterMAC (ms_sdp m) \<noteq> [] \<and> sm_grandmaster st = [] then sd_ptpMasterMAC (ms_sdp m) else sm_grandmaster st)" for tx
    by (simp_all add: st2_def adoptGrandmaster_def channels_in_use_def f1)
  have "sm_inv st2"
  proof (rule sm_invI)
    show "sorted_map (sm_streams st2)" using D(1) by (simp add: f2 sorted_map_put)
    show "mapper_exact (sm_mapper st2)" using mp(1) by (simp add: f2)
    show "map_find (mappings (sm_mapper st2)) j = map_option ms_mapping (map_find (sm_streams st2) j)" for j
      using D(3) by (simp add: f2 mp(2))
    show "stream_ok j x \<and> at_rate (sm_deviceRate st2) x \<and> (ms_running x \<longrightarrow> sm_ioActive st2)"
      if "map_find (sm_streams st2) j = Some x" for j x
      using that ok D(4) by (auto simp: f2 split: if_splits)
    show "channels_in_use tx st2 = channel_total tx (sm_streams st2)" for tx
      using D(5) [of tx] total_put [OF fresh] by (simp add: f2 c1)
    show "grandmaster_ok (sm_grandmaster st2) (sm_streams st2)"
      using D(6) declared_put [OF D(1) fresh, of m] by (auto simp: grandmaster_ok_def f2)
  qed
  then show ?thesis by (simp add: store_stream_def st1_def st2_def)
qed

lemma canAdd_facts:
  assumes "fst (canAddStream env st sdp tx)"
  shows "\<bar>rate_of sdp - sm_deviceRate st\<bar> \<le> tenth" "0 < unat (sd_numChannels sdp)" "unat (sd_numChannels sdp) \<le> 128"
    "pf_validate (forKind (sm_profileKind st)) (describeStream sdp) tx = None" "validateClock env st sdp = None"
    "validateUsable st sdp tx = None" "validateProfile st sdp tx = None" "validatePacketBudget sdp = None"
proof -
  have fs: "first_some xs = None \<longleftrightarrow> (\<forall>x\<in>set xs. x = None)" for xs :: "string option list"
    by (induction xs rule: first_some.induct) auto
  have n: "first_some [validateSampleRate st sdp, validateChannelAvailability st (sd_numChannels sdp), validatePacketBudget sdp] = None"
    "first_some [validateProfile st sdp tx, validateUsable st sdp tx, validateClock env st sdp] = None"
    using assms by (auto simp: canAddStream_def split: option.splits sum.splits)
  show "validateClock env st sdp = None" "validateUsable st sdp tx = None" and p: "validateProfile st sdp tx = None"
    using n(2) by (simp_all add: fs)
  show "validatePacketBudget sdp = None" using n(1) by (simp add: fs)
  show "pf_validate (forKind (sm_profileKind st)) (describeStream sdp) tx = None"
    using p by (auto simp: validateProfile_def Let_def split: option.splits)
  have "validateSampleRate st sdp = None" "validateChannelAvailability st (sd_numChannels sdp) = None" using n(1) by (simp_all add: fs)
  then show "\<bar>rate_of sdp - sm_deviceRate st\<bar> \<le> tenth" "0 < unat (sd_numChannels sdp)" "unat (sd_numChannels sdp) \<le> 128"
    by (auto simp: validateSampleRate_def validateChannelAvailability_def Let_def word_less_nat_alt unat_gt_0 split: if_splits)
qed

lemma start_facts:
  assumes "start_if_active env st e = (e', True)" "\<not> re_running e"
  shows "re_sdp e' = re_sdp e" "re_mapping e' = re_mapping e" "re_running e' \<longleftrightarrow> sm_ioActive st"
  using assms by (auto simp: start_if_active_def rtp_start_def split: if_splits)

text \<open>What an addition leaves when it is refused: everything as it was.\<close>

lemma addStream_cases:
  assumes inv: "sm_inv st" and i: "valid_id i" "\<not> id_isNull i" "map_find (sm_streams st) i = None"
  obtains (refused) "addStream env i sdp mapping st = (st, StreamID_null)"
  | (added) mp e where "fst (canAddStream env st sdp False)"
      "addMapping (complete_mapping i (sd_sessionName sdp) (sd_numChannels sdp) mapping) (sm_mapper st) = (mp, True)"
      "start_if_active env st (createReceiver st sdp (complete_mapping i (sd_sessionName sdp) (sd_numChannels sdp) mapping) 0 []) = (e, True)"
      "addStream env i sdp mapping st = (autoSaveIfEnabled env (sm_notify (StreamAdded (session_info env i sdp)) (store_stream i
        \<lparr>ms_sdp = sdp, ms_mapping = complete_mapping i (sd_sessionName sdp) (sd_numChannels sdp) mapping, ms_receiver = Some e,
         ms_transmitter = None, ms_info = session_info env i sdp, ms_isTransmit = False, ms_sourcePort = 0\<rparr>
        (st\<lparr>sm_mapper := mp\<rparr>))), i)"
proof -
  let ?m = "complete_mapping i (sd_sessionName sdp) (sd_numChannels sdp) mapping"
  note D = sm_invD [OF inv]
  have m: "streamID ?m = i" by (simp add: complete_mapping_def)
  obtain mp b where am: "addMapping ?m (sm_mapper st) = (mp, b)" by force
  obtain e s where se: "start_if_active env st (createReceiver st sdp ?m 0 []) = (e, s)" by force
  have "mp = sm_mapper st" if "\<not> b" using am that add_refused by auto
  moreover have "fst (removeMapping i mp) = sm_mapper st" if b
    using add_accepted(3) [OF D(2), of ?m mp] am that i D(3) by (simp add: m)
  ultimately show thesis
    using refused added i(3) am se unfolding addStream_def Let_def
    by (cases "fst (canAddStream env st sdp False)"; cases b; cases s) (simp_all add: case_prod_beta Let_def)
qed

text \<open>The three ways a stream is stored, with a mapping the matrix has accepted and an object that was started when it had to be.\<close>

lemma admitted_inv:
  assumes inv: "sm_inv st" and i: "valid_id i" "\<not> id_isNull i" "map_find (sm_streams st) i = None"
    and x: "streamID (ms_mapping x) = i" "si_id (ms_info x) = i" "ms_endpoint x = Some e" "re_sdp e = ms_sdp x" "re_running e \<longleftrightarrow> sm_ioActive st"
      "(if ms_isTransmit x then ms_receiver x else ms_transmitter x) = None" "\<bar>rate_of (ms_sdp x) - sm_deviceRate st\<bar> \<le> tenth"
    and mp: "addMapping (ms_mapping x) (sm_mapper st) = (mp, True)"
  shows "sm_inv (store_stream i x (st\<lparr>sm_mapper := mp\<rparr>))"
proof (rule store_inv [OF inv i(3)])
  note D = sm_invD [OF inv]
  show "mapper_exact mp" "mappings mp = map_put i (ms_mapping x) (mappings (sm_mapper st))"
    using add_accepted [OF D(2), of "ms_mapping x" mp] mp i D(3) by (simp_all add: x(1))
  show "stream_ok i x" "at_rate (sm_deviceRate st) x" "ms_running x \<longrightarrow> sm_ioActive st"
    using i x by (simp_all add: stream_ok_def at_rate_def ms_running_def)
qed

lemma addStream_inv:
  assumes inv: "sm_inv st" and i: "valid_id i" "\<not> id_isNull i" "map_find (sm_streams st) i = None"
  shows "sm_inv (fst (addStream env i sdp mapping st))"
  using assms
proof (cases rule: addStream_cases [where env = env and sdp = sdp and mapping = mapping])
  case (added mp e)
  show ?thesis
    unfolding added(4) fst_conv inv_told
    by (rule admitted_inv [OF inv i]) (use start_facts [OF added(3)] added(2) canAdd_facts(1) [OF added(1)] in
      \<open>simp_all add: createReceiver_def complete_mapping_def session_info_def ms_endpoint_def\<close>)
qed (use inv in simp)

text \<open>\<open>createTxStream\<close> alike.\<close>

lemma createTx_cases:
  assumes inv: "sm_inv st" and i: "valid_id i" "\<not> id_isNull i" "map_find (sm_streams st) i = None"
  obtains (refused) "createTxStream env i name ip port n mapping sourcePort dscp st = (st, StreamID_null)"
  | (added) sdp m x mp e where "sdp = announcedTxSession (ev_now env) name ip port n (device_rate_u32 st) dscp"
      "m = complete_mapping i name n mapping" "fst (canAddStream env st sdp True)" "addMapping m (sm_mapper st) = (mp, True)"
      "start_if_active env st (createTransmitter st sdp m [] sourcePort) = (e, True)"
      "x = \<lparr>ms_sdp = sdp, ms_mapping = m, ms_receiver = None, ms_transmitter = Some e, ms_info = tx_info env i name ip port n sdp,
         ms_isTransmit = True, ms_sourcePort = sourcePort\<rparr>"
      "createTxStream env i name ip port n mapping sourcePort dscp st =
         (autoSaveIfEnabled env (sm_notify (StreamAdded (ms_info x)) (store_stream i x (st\<lparr>sm_mapper := mp\<rparr>))), i)"
proof -
  let ?sdp = "announcedTxSession (ev_now env) name ip port n (device_rate_u32 st) dscp"
  let ?m = "complete_mapping i name n mapping"
  note D = sm_invD [OF inv]
  have m: "streamID ?m = i" by (simp add: complete_mapping_def)
  obtain mp b where am: "addMapping ?m (sm_mapper st) = (mp, b)" by force
  obtain e s where se: "start_if_active env st (createTransmitter st ?sdp ?m [] sourcePort) = (e, s)" by force
  have "mp = sm_mapper st" if "\<not> b" using am that add_refused by auto
  moreover have "fst (removeMapping i mp) = sm_mapper st" if b
    using add_accepted(3) [OF D(2), of ?m mp] am that i D(3) by (simp add: m)
  ultimately show thesis
    using refused added [OF refl refl] i(3) am se unfolding createTxStream_def Let_def
    by (cases "fst (canAddStream env st ?sdp True)"; cases b; cases s) (simp_all add: case_prod_beta Let_def)
qed

lemma createTx_inv:
  assumes inv: "sm_inv st" and i: "valid_id i" "\<not> id_isNull i" "map_find (sm_streams st) i = None"
  shows "sm_inv (fst (createTxStream env i name ip port n mapping sourcePort dscp st))"
  using assms
proof (cases rule: createTx_cases [where env = env and name = name and ip = ip and port = port and n = n and mapping = mapping
      and sourcePort = sourcePort and dscp = dscp])
  case (added sdp m x mp e)
  show ?thesis
    unfolding added(7) fst_conv inv_told
    by (rule admitted_inv [OF inv i]) (use start_facts [OF added(5)] added(4) canAdd_facts(1) [OF added(3)] in
      \<open>simp_all add: createTransmitter_def complete_mapping_def tx_info_def ms_endpoint_def added(2,6)\<close>)
qed (use inv in simp)

lemma addDefault_inv:
  assumes "sm_inv st" "valid_id i" "\<not> id_isNull i" "map_find (sm_streams st) i = None"
  shows "sm_inv (fst (addStreamDefault env i sdp st))"
  using assms addStream_inv by (auto simp: addStreamDefault_def split: option.split)

section \<open>Removing\<close>

lemma first_declared_ok: "grandmaster_ok (first_declared ms) ms"
proof (induction ms rule: first_declared.induct)
  case (2 i m ms)
  have "declared ((i, m) # ms) = declared ms \<union> ({sd_ptpMasterMAC (ms_sdp m)} - {[]})" by (auto simp: declared_def)
  then show ?case using 2 by (auto simp: grandmaster_ok_def)
qed (simp add: grandmaster_ok_def declared_def)

text \<open>What removing leaves: the streams and the mappings without it, and its channels off the total.\<close>

lemma removeStream_known:
  assumes inv: "sm_inv st" and m: "map_find (sm_streams st) i = Some m"
  shows "sm_streams (fst (removeStream env i st)) = map_erase i (sm_streams st)"
    "sm_mapper (fst (removeStream env i st)) = fst (removeMapping i (sm_mapper st))"
    "channels_in_use tx (fst (removeStream env i st)) = channels_in_use tx st - counted tx m"
    "sm_grandmaster (fst (removeStream env i st)) = first_declared (map_erase i (sm_streams st))"
    "sm_deviceRate (fst (removeStream env i st)) = sm_deviceRate st" "sm_ioActive (fst (removeStream env i st)) = sm_ioActive st"
    "sm_clocks (fst (removeStream env i st)) = sm_clocks st" "snd (removeStream env i st)"
  using m by (auto simp: removeStream_def Let_def recomputeActiveGrandmaster_def uncount_channels_def channels_in_use_def)

lemma removeStream_inv: "sm_inv st \<Longrightarrow> sm_inv (fst (removeStream env i st))"
proof -
  assume inv: "sm_inv st"
  show ?thesis
  proof (cases "map_find (sm_streams st) i")
    case None
    then show ?thesis using inv by (simp add: removeStream_def)
  next
    case (Some m)
    note D = sm_invD [OF inv]
    note R = removeStream_known [OF inv Some, where env = env]
    have k: "map_find (mappings (sm_mapper st)) i = Some (ms_mapping m)" using D(3) Some by simp
    note M = remove_known [OF D(2) k]
    show ?thesis
    proof (rule sm_invI)
      show "sorted_map (sm_streams (fst (removeStream env i st)))" using D(1) by (simp add: R sorted_map_erase)
      show "mapper_exact (sm_mapper (fst (removeStream env i st)))" using M(1) by (simp add: R)
      show "map_find (mappings (sm_mapper (fst (removeStream env i st)))) j =
          map_option ms_mapping (map_find (sm_streams (fst (removeStream env i st))) j)" for j
        using D(3) by (simp add: R M(2))
      show "stream_ok j x \<and> at_rate (sm_deviceRate (fst (removeStream env i st))) x \<and>
          (ms_running x \<longrightarrow> sm_ioActive (fst (removeStream env i st)))"
        if "map_find (sm_streams (fst (removeStream env i st))) j = Some x" for j x
        using that D(4) by (auto simp: R split: if_splits)
      show "channels_in_use tx (fst (removeStream env i st)) = channel_total tx (sm_streams (fst (removeStream env i st)))" for tx
        using D(5) [of tx] total_erase [OF D(1) Some, of tx] by (simp add: R)
      show "grandmaster_ok (sm_grandmaster (fst (removeStream env i st))) (sm_streams (fst (removeStream env i st)))"
        using first_declared_ok by (simp add: R)
    qed
  qed
qed

lemma fold_notify_inv [simp]: "sm_inv (fold (\<lambda>x. sm_notify (f x)) xs st) \<longleftrightarrow> sm_inv st"
  by (induction xs arbitrary: st) simp_all

lemma removeAll_inv: "sm_inv st \<Longrightarrow> sm_inv (removeAllStreams st)"
proof -
  assume "sm_inv st"
  then have "mapper_exact (clearAll (sm_mapper st))" using clear_exact sm_invD(2) by blast
  then have "sm_inv (recomputeActiveGrandmaster (st\<lparr>sm_streams := [], sm_mapper := clearAll (sm_mapper st),
      sm_rxChannelsInUse := 0, sm_txChannelsInUse := 0\<rparr>))"
    by (auto simp: sm_inv_def recomputeActiveGrandmaster_def clearAll_def channels_in_use_def channel_total_def grandmaster_ok_def declared_def)
  then show ?thesis by (simp add: removeAllStreams_def Let_def)
qed

section \<open>Flows, mappings, following, the device and the saved streams\<close>

definition fresh_ids :: "(nat \<Rightarrow> stream_id) \<Rightarrow> nat set \<Rightarrow> stream_manager \<Rightarrow> bool" where
  "fresh_ids ids N st \<longleftrightarrow> inj_on ids N \<and>
     (\<forall>k\<in>N. valid_id (ids k) \<and> \<not> id_isNull (ids k) \<and> map_find (sm_streams st) (ids k) = None)"

lemma fresh_shrink: "fresh_ids ids N st \<Longrightarrow> M \<subseteq> N \<Longrightarrow> (\<And>k. k \<in> M \<Longrightarrow> map_find (sm_streams st') (ids k) = None) \<Longrightarrow> fresh_ids ids M st'"
  by (auto simp: fresh_ids_def inj_on_subset)

lemma store_streams [simp]: "sm_streams (store_stream i m st) = map_put i m (sm_streams st)"
  by (simp add: store_stream_def ensurePTPClockForDomain_def adoptGrandmaster_def count_channels_def)

lemma addStream_streams:
  assumes "sm_inv st" "valid_id i" "\<not> id_isNull i" "map_find (sm_streams st) i = None" "j \<noteq> i"
  shows "map_find (sm_streams (fst (addStream env i sdp mapping st))) j = map_find (sm_streams st) j"
  using assms(1-4) by (cases rule: addStream_cases [where env = env and sdp = sdp and mapping = mapping]) (use assms(5) in simp_all)

lemma createTx_streams:
  assumes "sm_inv st" "valid_id i" "\<not> id_isNull i" "map_find (sm_streams st) i = None" "j \<noteq> i"
  shows "map_find (sm_streams (fst (createTxStream env i name ip port n mapping sourcePort dscp st))) j = map_find (sm_streams st) j"
  using assms(1-4) by (cases rule: createTx_cases [where env = env and name = name and ip = ip and port = port and n = n
    and mapping = mapping and sourcePort = sourcePort and dscp = dscp]) (use assms(5) in simp_all)

lemma roll_back_inv: "sm_inv st \<Longrightarrow> sm_inv (roll_back env created st)"
  unfolding roll_back_def by (induction created arbitrary: st) (simp_all add: removeStream_inv)

lemma flow_step:
  assumes "sm_inv st" "distinct (flow # flows)" "fresh_ids ids (set (flow # flows)) st"
    and c: "createTxStream env (ids flow) name ip port n mapping sp dscp st = (st', i)"
  shows "sm_inv st'" "fresh_ids ids (set flows) st'"
    and "valid_id (ids flow)" "\<not> id_isNull (ids flow)" "map_find (sm_streams st) (ids flow) = None"
proof -
  show f: "valid_id (ids flow)" "\<not> id_isNull (ids flow)" "map_find (sm_streams st) (ids flow) = None"
    using assms(3) by (simp_all add: fresh_ids_def)
  show "sm_inv st'" using createTx_inv [OF assms(1) f] c by (metis fst_conv)
  have "map_find (sm_streams st') (ids k) = None" if "k \<in> set flows" for k
  proof -
    have "ids k \<noteq> ids flow" using assms(2,3) that by (auto simp: fresh_ids_def inj_on_def)
    then have "map_find (sm_streams st') (ids k) = map_find (sm_streams st) (ids k)"
      using createTx_streams [OF assms(1) f] c by (metis fst_conv)
    then show ?thesis using assms(3) that by (simp add: fresh_ids_def)
  qed
  then show "fresh_ids ids (set flows) st'" using fresh_shrink [OF assms(3)] by auto
qed

lemma create_flows_inv:
  "sm_inv st \<Longrightarrow> distinct flows \<Longrightarrow> fresh_ids ids (set flows) st \<Longrightarrow> sm_inv (fst (create_flows env ids p flows created st))"
proof (induction flows arbitrary: created st)
  case (Cons flow flows)
  show ?case
  proof (cases "flow_address p flow")
    case None
    then show ?thesis using Cons.prems(1) by (simp add: roll_back_inv)
  next
    case (Some a)
    obtain ip sp where a: "flow_address p flow = Some (ip, sp)" using Some by (cases a) auto
    obtain st' i where c: "createTxStream env (ids flow) (flow_name p flow) ip (fp_port p) (flow_channels p flow) (flow_mapping p flow)
        sp (fp_dscp p) st = (st', i)" by force
    note S = flow_step [OF Cons.prems c]
    show ?thesis using Cons.IH [OF S(1)] Cons.prems(2) S(1,2) a c by (simp add: roll_back_inv)
  qed
qed simp

lemma flow_count_le: "0 < p \<Longrightarrow> (n + p - 1) div p \<le> (n :: nat)"
proof (cases n)
  case (Suc k)
  assume p: "0 < p"
  then have "(k + p) div p = k div p + 1" by simp
  also have "\<dots> \<le> k + 1" using div_le_dividend [of k p] by linarith
  finally show ?thesis using Suc by simp
qed simp

lemma plan_fresh:
  assumes "fresh_ids ids {..<unat n} st"
  shows "fresh_ids ids (set [0..<fp_count (plan_flows st name ip port n mapping dscp)]) st"
proof -
  let ?c = "fp_count (plan_flows st name ip port n mapping dscp)"
  have "0 < per_flow st" by (simp add: per_flow_def Let_def)
  then have c: "?c \<le> unat n" using flow_count_le by (simp add: plan_flows_def Let_def)
  then have "set [0..<?c] \<subseteq> {..<unat n}" by auto
  then show ?thesis by (rule fresh_shrink [OF assms]) (use assms c in \<open>auto simp: fresh_ids_def\<close>)
qed

lemma flows_inv:
  assumes "sm_inv st" "fresh_ids ids {..<unat n} st"
  shows "sm_inv (fst (createTxStreamFlows env ids name ip port n mapping dscp st))"
  using create_flows_inv [OF assms(1) _ plan_fresh [OF assms(2)]] assms(1) by (simp add: createTxStreamFlows_def Let_def)

text \<open>A stream replaced by one that agrees with it in everything the invariant reads.\<close>

lemma declared_iff: "sorted_map ms \<Longrightarrow> x \<in> declared ms \<longleftrightarrow> x \<noteq> [] \<and> (\<exists>i m. map_find ms i = Some m \<and> x = sd_ptpMasterMAC (ms_sdp m))"
  by (auto simp: declared_def map_find_iff)

lemma declared_same:
  assumes "sorted_map ms" "map_find ms i = Some m" "ms_sdp m' = ms_sdp m"
  shows "declared (map_put i m' ms) = declared ms"
proof -
  have "(\<exists>j y. map_find (map_put i m' ms) j = Some y \<and> x = sd_ptpMasterMAC (ms_sdp y)) \<longleftrightarrow>
      (\<exists>j y. map_find ms j = Some y \<and> x = sd_ptpMasterMAC (ms_sdp y))" (is "?l = ?r") for x
  proof
    assume ?l
    then obtain j y where j: "map_find (map_put i m' ms) j = Some y" "x = sd_ptpMasterMAC (ms_sdp y)" by blast
    show ?r
    proof (cases "j = i")
      case True
      then show ?thesis using j assms(2,3) by (intro exI [of _ i] exI [of _ m]) simp
    next
      case False
      then show ?thesis using j by auto
    qed
  next
    assume ?r
    then obtain j y where j: "map_find ms j = Some y" "x = sd_ptpMasterMAC (ms_sdp y)" by blast
    show ?l
    proof (cases "j = i")
      case True
      then show ?thesis using j assms(2,3) by (intro exI [of _ i] exI [of _ m']) simp
    next
      case False
      then show ?thesis using j by (intro exI [of _ j] exI [of _ y]) simp
    qed
  qed
  then show ?thesis using assms(1) by (auto simp: declared_iff sorted_map_put simp del: map_find_put)
qed

lemma replace_inv:
  assumes inv: "sm_inv st" and m: "map_find (sm_streams st) i = Some m"
    and m': "ms_isTransmit m' = ms_isTransmit m" "ms_sdp m' = ms_sdp m" "stream_ok i m'" "ms_running m' \<longrightarrow> sm_ioActive st"
    and mp: "mapper_exact mp" "mappings mp = map_put i (ms_mapping m') (mappings (sm_mapper st))"
  shows "sm_inv (st\<lparr>sm_streams := map_put i m' (sm_streams st), sm_mapper := mp\<rparr>)"
proof (rule sm_invI)
  note D = sm_invD [OF inv]
  let ?st = "st\<lparr>sm_streams := map_put i m' (sm_streams st), sm_mapper := mp\<rparr>"
  show "sorted_map (sm_streams ?st)" "mapper_exact (sm_mapper ?st)" using D(1) mp by (simp_all add: sorted_map_put)
  show "map_find (mappings (sm_mapper ?st)) j = map_option ms_mapping (map_find (sm_streams ?st) j)" for j
    using D(3) by (simp add: mp(2))
  show "stream_ok j x \<and> at_rate (sm_deviceRate ?st) x \<and> (ms_running x \<longrightarrow> sm_ioActive ?st)"
    if "map_find (sm_streams ?st) j = Some x" for j x
    using that D(4) m D(4) [OF m] m' by (auto simp: at_rate_def split: if_splits)
  have "channels_in_use tx ?st = channels_in_use tx st" for tx by (simp add: channels_in_use_def)
  then show "channels_in_use tx ?st = channel_total tx (sm_streams ?st)" for tx
    using D(5) [of tx] total_same [OF D(1) m m'(1,2)] by simp
  have "declared (map_put i m' (sm_streams st)) = declared (sm_streams st)"
    by (rule declared_same [OF D(1) m]) (simp add: m')
  then show "grandmaster_ok (sm_grandmaster ?st) (sm_streams ?st)" using D(6) by (simp add: grandmaster_ok_def)
qed

lemma start_keeps: "re_sdp (fst (rtp_start opens e)) = re_sdp e" "re_mapping (fst (rtp_start opens e)) = re_mapping e"
  by (simp_all add: rtp_start_def)

lemma rtp_update_facts:
  assumes "rtp_updateMapping opens m e = (e', ok)"
  shows "re_sdp e' = re_sdp e" "re_running e' \<Longrightarrow> re_running e" "ok \<Longrightarrow> re_mapping e' = m"
  using assms start_keeps by (auto simp: rtp_updateMapping_def rtp_stop_def rtp_start_def Let_def split: if_splits)

text \<open>\<open>updateMapping\<close> of the manager: the three ways it ends.\<close>

lemma updateMapping_cases:
  assumes inv: "sm_inv st" and m: "map_find (sm_streams st) i = Some ms"
  obtains (refused) "\<not> snd (updateMapping (new\<lparr>streamID := i, streamName := streamName (ms_mapping ms), streamChannelCount := sd_numChannels (ms_sdp ms)\<rparr>)
      (sm_mapper st))" "sm_updateMapping env i new st = (st, False)"
  | (restored) e e' where "ms_endpoint ms = Some e"
      "rtp_updateMapping (ev_opens env) (new\<lparr>streamID := i, streamName := streamName (ms_mapping ms), streamChannelCount := sd_numChannels (ms_sdp ms)\<rparr>) e = (e', False)"
      "sm_updateMapping env i new st = (st\<lparr>sm_streams := map_put i
         (if ms_isTransmit ms then ms\<lparr>ms_transmitter := Some e'\<rparr> else ms\<lparr>ms_receiver := Some e'\<rparr>) (sm_streams st), sm_mapper := sm_mapper st\<rparr>, False)"
  | (updated) n e e' mp where "ms_endpoint ms = Some e"
      "n = new\<lparr>streamID := i, streamName := streamName (ms_mapping ms), streamChannelCount := sd_numChannels (ms_sdp ms)\<rparr>"
      "rtp_updateMapping (ev_opens env) n e = (e', True)" "updateMapping n (sm_mapper st) = (mp, True)"
      "sm_updateMapping env i new st = (autoSaveIfEnabled env (sm_notify (StreamStatus (ms_info ms)) (st\<lparr>sm_streams := map_put i
         ((if ms_isTransmit ms then ms\<lparr>ms_transmitter := Some e'\<rparr> else ms\<lparr>ms_receiver := Some e'\<rparr>)\<lparr>ms_mapping := n\<rparr>) (sm_streams st),
         sm_mapper := mp\<rparr>)), True)"
proof -
  note D = sm_invD [OF inv]
  let ?n = "new\<lparr>streamID := i, streamName := streamName (ms_mapping ms), streamChannelCount := sd_numChannels (ms_sdp ms)\<rparr>"
  have ok: "stream_ok i ms" using D(4) [OF m] by simp
  obtain e where e: "ms_endpoint ms = Some e" using ok by (auto simp: stream_ok_def)
  obtain mp b where um: "updateMapping ?n (sm_mapper st) = (mp, b)" by force
  obtain e' u where ru: "rtp_updateMapping (ev_opens env) ?n e = (e', u)" by force
  have k: "map_find (mappings (sm_mapper st)) i = Some (ms_mapping ms)" using D(3) m by simp
  show thesis
  proof (cases b)
    case False
    then have "mp = sm_mapper st" using um update_refused by auto
    then show thesis using refused False m um by (simp add: sm_updateMapping_def Let_def)
  next
    case True
    have undone: "fst (updateMapping (ms_mapping ms) mp) = sm_mapper st"
      using update_back [OF D(2), of ?n "ms_mapping ms" mp] k ok um True by (simp add: stream_ok_def)
    have s: "sm_updateMapping env i new st = (if \<not> u then (st\<lparr>sm_streams := map_put i
          (if ms_isTransmit ms then ms\<lparr>ms_transmitter := Some e'\<rparr> else ms\<lparr>ms_receiver := Some e'\<rparr>) (sm_streams st), sm_mapper := sm_mapper st\<rparr>, False)
        else (autoSaveIfEnabled env (sm_notify (StreamStatus (ms_info ms)) (st\<lparr>sm_streams := map_put i
          ((if ms_isTransmit ms then ms\<lparr>ms_transmitter := Some e'\<rparr> else ms\<lparr>ms_receiver := Some e'\<rparr>)\<lparr>ms_mapping := ?n\<rparr>) (sm_streams st),
          sm_mapper := mp\<rparr>)), True))"
      using ok e m um True ru undone by (cases "ms_isTransmit ms") (simp_all add: sm_updateMapping_def Let_def stream_ok_def ms_endpoint_def)
    show thesis
    proof (cases u)
      case True
      then show thesis using updated [OF e refl] ru um \<open>b\<close> s by simp
    next
      case False
      then show thesis using restored [OF e] ru s by simp
    qed
  qed
qed

lemma sm_updateMapping_inv: "sm_inv st \<Longrightarrow> sm_inv (fst (sm_updateMapping env i new st))"
proof -
  assume inv: "sm_inv st"
  note D = sm_invD [OF inv]
  show ?thesis
  proof (cases "map_find (sm_streams st) i")
    case None
    then show ?thesis using inv by (simp add: sm_updateMapping_def)
  next
    case (Some ms)
    note O = D(4) [OF Some]
    have k: "map_find (mappings (sm_mapper st)) i = Some (ms_mapping ms)" using D(3) Some by simp
    have same: "map_put i (ms_mapping ms) (mappings (sm_mapper st)) = mappings (sm_mapper st)"
    proof -
      have "sorted_map (mappings (sm_mapper st))" using D(2) by (simp add: mapper_exact_def mapper_inv_def)
      then show ?thesis by (intro sorted_map_ext) (auto simp: sorted_map_put k)
    qed
    from inv Some show ?thesis
    proof (cases rule: updateMapping_cases [where env = env and new = new])
      case (restored e e')
      note F = rtp_update_facts [OF restored(2)]
      show ?thesis unfolding restored(3) fst_conv
        by (rule replace_inv [OF inv Some]) (use O F restored(1) D(2) same in
          \<open>auto simp: stream_ok_def ms_endpoint_def ms_running_def split: if_splits\<close>)
    next
      case (updated n e e' mp)
      note F = rtp_update_facts [OF updated(3)]
      have "valid_id (streamID n)" using O by (simp add: updated(2) stream_ok_def)
      note U = update_accepted [OF D(2) this updated(4)]
      show ?thesis unfolding updated(5) fst_conv inv_told
        by (rule replace_inv [OF inv Some]) (use O F updated(1,2) U in
          \<open>auto simp: stream_ok_def ms_endpoint_def ms_running_def split: if_splits\<close>)
    qed (use inv in simp)
  qed
qed

lemma follow_one_inv:
  assumes "sm_inv st" "valid_id i" "\<not> id_isNull i" "map_find (sm_streams st) i = None"
  shows "sm_inv (fst (follow_one env i p st))"
    and "j \<noteq> i \<Longrightarrow> map_find (sm_streams st) j = None \<Longrightarrow> map_find (sm_streams (fst (follow_one env i p st))) j = None"
proof -
  obtain st1 r where r: "removeStream env (pe_id p) st = (st1, r)" by force
  have inv1: "sm_inv st1" using removeStream_inv [OF assms(1), of env "pe_id p"] r by simp
  have find1: "map_find (sm_streams st1) k = None" if "map_find (sm_streams st) k = None" for k
  proof (cases "map_find (sm_streams st) (pe_id p)")
    case None
    then show ?thesis using r that by (auto simp: removeStream_def)
  next
    case (Some m)
    then show ?thesis using removeStream_known(1) [OF assms(1) Some, of env] r that by simp
  qed
  obtain st2 n where a: "addStream env i (pe_sdp p) (follow_mapping p) st1 = (st2, n)" by force
  have f: "fst (follow_one env i p st) = (if r then st2 else st1)" by (simp add: follow_one_def r a)
  show "sm_inv (fst (follow_one env i p st))"
    using addStream_inv [OF inv1 assms(2,3) find1 [OF assms(4)], of env "pe_sdp p" "follow_mapping p"] inv1 by (simp add: f a)
  show "map_find (sm_streams (fst (follow_one env i p st))) j = None" if "j \<noteq> i" "map_find (sm_streams st) j = None"
    using addStream_streams [OF inv1 assms(2,3) find1 [OF assms(4)] that(1), of env "pe_sdp p" "follow_mapping p"] find1 [OF that(2)]
    by (simp add: f a)
qed

lemma follow_step:
  assumes "sm_inv st" "fresh_ids ids {k..<k + length (p # ps)} st" and o: "follow_one env (ids k) p st = (st1, n)"
  shows "sm_inv st1" "fresh_ids ids {k + 1..<k + 1 + length ps} st1" and "valid_id (ids k)" "\<not> id_isNull (ids k)"
    and "map_find (sm_streams (fst (removeStream e j st))) (ids k) = None"
proof -
  show f: "valid_id (ids k)" "\<not> id_isNull (ids k)" using assms(2) by (auto simp: fresh_ids_def)
  have n: "map_find (sm_streams st) (ids k) = None" using assms(2) by (auto simp: fresh_ids_def)
  note F = follow_one_inv [OF assms(1) f n, where env = env and p = p]
  show "sm_inv st1" using F(1) o by simp
  show "map_find (sm_streams (fst (removeStream e j st))) (ids k) = None"
    using n removeStream_known(1) [OF assms(1)] by (cases "map_find (sm_streams st) j") (simp_all add: removeStream_def)
  show "fresh_ids ids {k + 1..<k + 1 + length ps} st1"
  proof (rule fresh_shrink [OF assms(2)])
    show "map_find (sm_streams st1) (ids j) = None" if j: "j \<in> {k + 1..<k + 1 + length ps}" for j
    proof -
      have "inj_on ids {k..<k + length (p # ps)}" "map_find (sm_streams st) (ids j) = None"
        using assms(2) j by (auto simp: fresh_ids_def)
      moreover have "ids j \<noteq> ids k" using inj_onD [OF calculation(1), of j k] j by auto
      ultimately show ?thesis using F(2) [of "ids j"] o by simp
    qed
  qed auto
qed

lemma follow_all_inv: "sm_inv st \<Longrightarrow> fresh_ids ids {k..<k + length ps} st \<Longrightarrow> sm_inv (fst (follow_all env ids k ps st))"
proof (induction ps arbitrary: k st)
  case (Cons p ps)
  obtain st1 n where o: "follow_one env (ids k) p st = (st1, n)" by force
  note S = follow_step [OF Cons.prems o]
  show ?case using Cons.IH [OF S(1,2)] by (simp add: o split_def Let_def)
qed simp

lemma pending_length: "length (pending_follows announced st) \<le> length (sm_streams st)"
  by (simp add: pending_follows_def)

lemma pending_fresh:
  assumes "fresh_ids ids {..<length (sm_streams st)} st"
  shows "fresh_ids ids {0..<0 + length (pending_follows announced st)} st"
  using pending_length [of announced st] assms by (intro fresh_shrink [OF assms]) (auto simp: fresh_ids_def)

lemma announcement_inv:
  assumes "sm_inv st" "fresh_ids ids {..<length (sm_streams st)} st"
  shows "sm_inv (fst (updateReceiveStreamsFromAnnouncement env ids announced trigger st))"
  using follow_all_inv [OF assms(1) pending_fresh [OF assms(2)]] assms(1) by (auto simp: updateReceiveStreamsFromAnnouncement_def)

lemma restart_endpoint:
  "ms_endpoint (restart_all env a m) = map_option (\<lambda>e. if a then fst (rtp_start (ev_opens env) e) else rtp_stop e) (ms_endpoint m)"
  by (simp add: restart_all_def Let_def ms_endpoint_def)

lemma restart_facts:
  "ms_isTransmit (restart_all env a m) = ms_isTransmit m" "ms_sdp (restart_all env a m) = ms_sdp m"
  "ms_mapping (restart_all env a m) = ms_mapping m" "ms_info (restart_all env a m) = ms_info m"
  by (simp_all add: restart_all_def Let_def)

lemma restart_ok: "stream_ok i m \<Longrightarrow> stream_ok i (restart_all env a m)" "\<not> ms_running (restart_all env False m)"
proof -
  assume ok: "stream_ok i m"
  then obtain e where e: "ms_endpoint m = Some e" "re_sdp e = ms_sdp m" by (auto simp: stream_ok_def)
  have "(if ms_isTransmit m then ms_receiver (restart_all env a m) else ms_transmitter (restart_all env a m)) = None"
    using ok by (auto simp: stream_ok_def restart_all_def Let_def split: if_splits)
  moreover have "re_sdp (if a then fst (rtp_start (ev_opens env) e) else rtp_stop e) = ms_sdp m"
    using e(2) by (simp add: start_keeps rtp_stop_def)
  ultimately show "stream_ok i (restart_all env a m)"
    using ok by (simp add: stream_ok_def restart_endpoint restart_facts e(1) split: if_splits)
next
  show "\<not> ms_running (restart_all env False m)" by (auto simp: ms_running_def restart_endpoint rtp_stop_def)
qed

lemma declared_image: "declared ms = (\<lambda>p. sd_ptpMasterMAC (ms_sdp (snd p))) ` set ms - {[]}"
  by (force simp: declared_def)

lemma setIO_inv: "sm_inv st \<Longrightarrow> sm_inv (setIOActive env active st)"
proof (cases "sm_ioActive st = active")
  case False
  assume inv: "sm_inv st"
  note D = sm_invD [OF inv]
  let ?f = "restart_all env active"
  let ?s = "map (\<lambda>(i, m). (i, ?f m)) (sm_streams st)"
  have "sm_inv (st\<lparr>sm_ioActive := active, sm_streams := ?s\<rparr>)"
  proof (rule sm_invI)
    let ?st = "st\<lparr>sm_ioActive := active, sm_streams := ?s\<rparr>"
    show "sorted_map (sm_streams ?st)" "mapper_exact (sm_mapper ?st)" using D(1,2) by (simp_all add: sorted_map_map)
    show "map_find (mappings (sm_mapper ?st)) j = map_option ms_mapping (map_find (sm_streams ?st) j)" for j
      using D(3) by (simp add: map_find_map option.map_comp comp_def restart_facts)
    show "stream_ok j x \<and> at_rate (sm_deviceRate ?st) x \<and> (ms_running x \<longrightarrow> sm_ioActive ?st)"
      if "map_find (sm_streams ?st) j = Some x" for j x
      using that D(4) restart_ok by (cases active) (auto simp: map_find_map at_rate_def restart_facts)
    have "channel_total tx ?s = channel_total tx (sm_streams st)" for tx
      unfolding channel_total_def map_map by (intro arg_cong [of _ _ sum_list] map_cong) (auto simp: restart_facts)
    then show "channels_in_use tx ?st = channel_total tx (sm_streams ?st)" for tx
      using D(5) [of tx] by simp
    have "declared ?s = declared (sm_streams st)"
      by (simp add: declared_image image_image split_def restart_facts)
    then show "grandmaster_ok (sm_grandmaster ?st) (sm_streams ?st)" using D(6) by (simp add: grandmaster_ok_def)
  qed
  then show ?thesis using False by (simp add: setIOActive_def)
qed (simp add: setIOActive_def)

lemma setRate_inv: "sm_inv st \<Longrightarrow> sm_inv (fst (setDeviceSampleRate rate st))"
proof -
  assume inv: "sm_inv st"
  note D = sm_invD [OF inv]
  have "sm_inv (st\<lparr>sm_deviceRate := rate\<rparr>)" if r: "list_all (\<lambda>(i, m). \<bar>rate_of (ms_sdp m) - rate\<bar> \<le> tenth) (sm_streams st)"
  proof (rule sm_invI)
    show "stream_ok i m \<and> at_rate (sm_deviceRate (st\<lparr>sm_deviceRate := rate\<rparr>)) m \<and> (ms_running m \<longrightarrow> sm_ioActive (st\<lparr>sm_deviceRate := rate\<rparr>))"
      if "map_find (sm_streams (st\<lparr>sm_deviceRate := rate\<rparr>)) i = Some m" for i m
      using that r D(4) [of i m] map_find_in [of "sm_streams st" i m] by (auto simp: at_rate_def list_all_iff)
    show "channels_in_use tx (st\<lparr>sm_deviceRate := rate\<rparr>) = channel_total tx (sm_streams (st\<lparr>sm_deviceRate := rate\<rparr>))" for tx
      using D(5) [of tx] by simp
  qed (use D in simp_all)
  then show ?thesis using inv by (simp add: setDeviceSampleRate_def)
qed

lemma load_one_cases:
  assumes inv: "sm_inv st" and i: "valid_id (streamID (pc_mapping c))"
  obtains (refused) "load_one env c st = (st, None)"
  | (restored) x mp e where "pc_enabled c" "pc_isValid c" "fst (canAddStream env st (pc_sdp c) False)"
      "map_find (sm_streams st) (streamID (pc_mapping c)) = None" "addMapping (pc_mapping c) (sm_mapper st) = (mp, True)"
      "re_sdp e = pc_sdp c" "re_running e \<longleftrightarrow> sm_ioActive st"
      "x = \<lparr>ms_sdp = pc_sdp c, ms_mapping = pc_mapping c, ms_receiver = (if pc_isTransmit c then None else Some e),
          ms_transmitter = (if pc_isTransmit c then Some e else None), ms_info = session_info env (streamID (pc_mapping c)) (pc_sdp c),
          ms_isTransmit = pc_isTransmit c, ms_sourcePort = 0\<rparr>"
      "load_one env c st = (store_stream (streamID (pc_mapping c)) x (st\<lparr>sm_mapper := mp\<rparr>), Some (ms_info x))"
proof -
  let ?i = "streamID (pc_mapping c)"
  let ?e = "if pc_isTransmit c then createTransmitter st (pc_sdp c) (pc_mapping c) (pc_networkInterface c) 0
    else createReceiver st (pc_sdp c) (pc_mapping c) (pc_jitterBufferDepth c) (pc_networkInterface c)"
  note D = sm_invD [OF inv]
  obtain mp b where am: "addMapping (pc_mapping c) (sm_mapper st) = (mp, b)" by force
  obtain e s where se: "start_if_active env st ?e = (e, s)" by force
  have undone: "mp = sm_mapper st" if "\<not> b" using add_refused am that by auto
  show thesis
  proof (cases "pc_enabled c \<and> pc_isValid c \<and> fst (canAddStream env st (pc_sdp c) False) \<and> map_find (sm_streams st) ?i = None \<and> b")
    case False
    then show thesis using refused am undone by (cases b) (auto simp: load_one_def Let_def)
  next
    case True
    then have t: "pc_enabled c" "pc_isValid c" "fst (canAddStream env st (pc_sdp c) False)" "map_find (sm_streams st) ?i = None"
        "addMapping (pc_mapping c) (sm_mapper st) = (mp, True)" using am by auto
    show thesis
    proof (cases s)
      case False
      have "fst (removeMapping ?i mp) = sm_mapper st" using add_accepted(3) [OF D(2) i _ t(5)] t(4) D(3) by simp
      then show thesis using refused t se False by (simp add: load_one_def Let_def)
    next
      case True
      have "re_sdp e = pc_sdp c" "re_running e \<longleftrightarrow> sm_ioActive st"
        using start_facts [of env st ?e e] se True by (simp_all add: createTransmitter_def createReceiver_def split: if_splits)
      then show thesis using restored [OF t _ _ refl] t se True by (simp add: load_one_def Let_def)
    qed
  qed
qed

lemma load_one_inv:
  assumes inv: "sm_inv st" and i: "valid_id (streamID (pc_mapping c))"
  shows "sm_inv (fst (load_one env c st))"
  using assms
proof (cases rule: load_one_cases [where env = env])
  case (restored x mp e)
  have n: "\<not> id_isNull (streamID (pc_mapping c))"
    using restored(2) valid_mapping(1) by (simp add: pc_isValid_def cm_isValid_def validateMapping_def)
  show ?thesis unfolding restored(9) fst_conv
    by (rule admitted_inv [OF inv i n restored(4), where e = e])
      (use restored(5-7) canAdd_facts(1) [OF restored(3)] in \<open>simp_all add: restored(8) session_info_def ms_endpoint_def\<close>)
qed (use inv in simp)

lemma load_all_inv: "sm_inv st \<Longrightarrow> list_all (valid_id \<circ> streamID \<circ> pc_mapping) cs \<Longrightarrow> sm_inv (fst (load_all env cs st))"
proof (induction cs arbitrary: st)
  case (Cons c cs)
  then show ?case using load_one_inv [of st c env] by (cases "load_one env c st"; cases "load_all env cs (fst (load_one env c st))") force
qed simp

section \<open>Every history of calls\<close>

datatype sm_op =
    AddDefault sdp_session | AddMapped sdp_session channel_mapping | Remove stream_id | RemoveAll
  | CreateTx string string u16 u16 channel_mapping u16 int | CreateFlows string string u16 u16 channel_mapping int
  | UpdateMappingOf stream_id channel_mapping | Announced sdp_session repoint_trigger
  | SetIO bool | SetRate rat | SetProfile profile_kind | SetUsableRx nat | SetUsableTx nat | SetFlowPortOffset u32 | SetPlayoutDelay u32
  | SetPtp bool | SetRequireLock bool | SetIgnoreRefClock bool | SetSinkFollow bool | SetAutoSave bool
  | LoadSaved "persisted_config list option"

fun sm_apply :: "sm_env \<Rightarrow> (nat \<Rightarrow> stream_id) \<Rightarrow> sm_op \<Rightarrow> stream_manager \<Rightarrow> stream_manager" where
  "sm_apply env ids (AddDefault sdp) st = fst (addStreamDefault env (ids 0) sdp st)"
| "sm_apply env ids (AddMapped sdp m) st = fst (addStream env (ids 0) sdp m st)"
| "sm_apply env ids (Remove i) st = fst (removeStream env i st)"
| "sm_apply env ids RemoveAll st = removeAllStreams st"
| "sm_apply env ids (CreateTx name ip port n m sourcePort dscp) st = fst (createTxStream env (ids 0) name ip port n m sourcePort dscp st)"
| "sm_apply env ids (CreateFlows name ip port n m dscp) st = fst (createTxStreamFlows env ids name ip port n m dscp st)"
| "sm_apply env ids (UpdateMappingOf i m) st = fst (sm_updateMapping env i m st)"
| "sm_apply env ids (Announced sdp trigger) st = fst (updateReceiveStreamsFromAnnouncement env ids sdp trigger st)"
| "sm_apply env ids (SetIO active) st = setIOActive env active st"
| "sm_apply env ids (SetRate rate) st = fst (setDeviceSampleRate rate st)"
| "sm_apply env ids (SetProfile kind) st = st\<lparr>sm_profileKind := kind\<rparr>"
| "sm_apply env ids (SetUsableRx n) st = sm_setUsableChannelCount n st"
| "sm_apply env ids (SetUsableTx n) st = st\<lparr>sm_usableTx := of_nat n\<rparr>"
| "sm_apply env ids (SetFlowPortOffset flows) st = st\<lparr>sm_txFlowPortOffset := flows\<rparr>"
| "sm_apply env ids (SetPlayoutDelay samples) st = st\<lparr>sm_playoutDelay := samples\<rparr>"
| "sm_apply env ids (SetPtp b) st = sm_setPTPEnabled b st"
| "sm_apply env ids (SetRequireLock b) st = st\<lparr>sm_requirePTPLock := b\<rparr>"
| "sm_apply env ids (SetIgnoreRefClock b) st = st\<lparr>sm_ignoreRefClock := b\<rparr>"
| "sm_apply env ids (SetSinkFollow b) st = st\<lparr>sm_autoSinkFollow := b\<rparr>"
| "sm_apply env ids (SetAutoSave b) st = st\<lparr>sm_autoSave := b\<rparr>"
| "sm_apply env ids (LoadSaved cs) st = fst (loadSavedStreams env cs st)"

text \<open>How many identifiers a call may draw, and what a saved file may hold: identifiers of sixteen bytes.\<close>

fun sm_draws :: "sm_op \<Rightarrow> stream_manager \<Rightarrow> nat" where
  "sm_draws (AddDefault sdp) st = 1"
| "sm_draws (AddMapped sdp m) st = 1"
| "sm_draws (CreateTx name ip port n m sourcePort dscp) st = 1"
| "sm_draws (CreateFlows name ip port n m dscp) st = unat n"
| "sm_draws (Announced sdp trigger) st = length (sm_streams st)"
| "sm_draws _ st = 0"

fun sm_typed :: "sm_op \<Rightarrow> bool" where
  "sm_typed (LoadSaved (Some cs)) = list_all (valid_id \<circ> streamID \<circ> pc_mapping) cs"
| "sm_typed _ = True"

inductive sm_reachable :: "(sm_op \<Rightarrow> bool) \<Rightarrow> stream_manager \<Rightarrow> stream_manager \<Rightarrow> bool" for allowed st0 where
  start: "sm_reachable allowed st0 st0"
| call: "sm_reachable allowed st0 st \<Longrightarrow> allowed op \<Longrightarrow> fresh_ids ids {..<sm_draws op st} st \<Longrightarrow> sm_typed op \<Longrightarrow>
     sm_reachable allowed st0 (sm_apply env ids op st)"

lemma inv_init: "sm_inv StreamManager"
  using mapper_exact_init
  by (auto simp: sm_inv_def StreamManager_def StreamChannelMapper_def channels_in_use_def channel_total_def grandmaster_ok_def declared_def)

lemma inv_settings:
  assumes "sm_inv st"
  shows "sm_inv (st\<lparr>sm_profileKind := kind\<rparr>)" "sm_inv (st\<lparr>sm_usableTx := n\<rparr>)" "sm_inv (st\<lparr>sm_txFlowPortOffset := n\<rparr>)"
    "sm_inv (st\<lparr>sm_playoutDelay := n\<rparr>)" "sm_inv (st\<lparr>sm_requirePTPLock := b\<rparr>)" "sm_inv (st\<lparr>sm_ignoreRefClock := b\<rparr>)"
    "sm_inv (st\<lparr>sm_autoSinkFollow := b\<rparr>)" "sm_inv (st\<lparr>sm_autoSave := b\<rparr>)" "sm_inv (st\<lparr>sm_ptpEnabled := b\<rparr>)"
  using assms by (simp_all add: sm_inv_def)

lemma inv_ptp: "sm_inv st \<Longrightarrow> sm_inv (sm_setPTPEnabled b st)"
proof -
  have "sm_inv (fold (\<lambda>(i, m). ensurePTPClockForDomain (sd_ptpDomain (ms_sdp m))) xs st) \<longleftrightarrow> sm_inv st" for xs st
    by (induction xs arbitrary: st) (simp_all add: split_def)
  then show "sm_inv st \<Longrightarrow> sm_inv (sm_setPTPEnabled b st)" using inv_settings(9) by (auto simp: sm_setPTPEnabled_def Let_def simp del: fold_simps)
qed

lemma inv_usable: "sm_inv st \<Longrightarrow> sm_inv (sm_setUsableChannelCount n st)"
proof -
  assume inv: "sm_inv st"
  have "mapper_exact (setUsableChannelCount n (sm_mapper st))"
    using sm_invD(2) [OF inv] setUsable_inv [of "sm_mapper st" n] by (simp add: mapper_exact_def setUsableChannelCount_def)
  then show ?thesis using inv by (simp add: sm_inv_def sm_setUsableChannelCount_def setUsableChannelCount_def)
qed

lemma sm_apply_inv:
  assumes inv: "sm_inv st" and ids: "fresh_ids ids {..<sm_draws op st} st" and typed: "sm_typed op"
  shows "sm_inv (sm_apply env ids op st)"
proof -
  have one: "valid_id (ids 0)" "\<not> id_isNull (ids 0)" "map_find (sm_streams st) (ids 0) = None" if "0 < sm_draws op st"
    using ids that by (auto simp: fresh_ids_def)
  show ?thesis
  proof (cases op)
    case (LoadSaved cs)
    show ?thesis
    proof (cases cs)
      case (Some l)
      then have "sm_inv (fst (load_all env l st))" using typed LoadSaved load_all_inv [OF inv] by simp
      then show ?thesis using LoadSaved Some by (simp add: loadSavedStreams_def split_def Let_def)
    qed (use inv LoadSaved in \<open>simp add: loadSavedStreams_def\<close>)
  qed (use inv one ids addStream_inv addDefault_inv createTx_inv removeStream_inv removeAll_inv flows_inv sm_updateMapping_inv announcement_inv
      setIO_inv setRate_inv inv_settings inv_ptp inv_usable in simp_all)
qed

lemma sm_reachable_inv: "sm_reachable allowed st0 st \<Longrightarrow> sm_inv st0 \<Longrightarrow> sm_inv st"
  by (induction rule: sm_reachable.induct) (simp_all add: sm_apply_inv)

section \<open>Properties that every operation keeps\<close>

text \<open>
  The operations change the streams in four ways only: one is admitted, one is removed, one is replaced by itself with another
  mapping or a restarted object, or all are cleared. A property that survives these, and the settings it allows, holds in every state that can
  be reached.
\<close>

definition is_setting :: "sm_op \<Rightarrow> bool" where
  "is_setting op \<longleftrightarrow> (case op of SetIO b \<Rightarrow> True | SetRate r \<Rightarrow> True | SetProfile k \<Rightarrow> True | SetUsableRx n \<Rightarrow> True | SetUsableTx n \<Rightarrow> True
     | SetFlowPortOffset n \<Rightarrow> True | SetPlayoutDelay n \<Rightarrow> True | SetPtp b \<Rightarrow> True | SetRequireLock b \<Rightarrow> True | SetIgnoreRefClock b \<Rightarrow> True
     | SetSinkFollow b \<Rightarrow> True | SetAutoSave b \<Rightarrow> True | _ \<Rightarrow> False)"

locale kept =
  fixes allowed :: "sm_op \<Rightarrow> bool" and P :: "stream_manager \<Rightarrow> bool"
  assumes admit: "sm_inv st \<Longrightarrow> P st \<Longrightarrow> fst (canAddStream env st (ms_sdp x) tx) \<Longrightarrow> map_find (sm_streams st) i = None \<Longrightarrow>
      P (store_stream i x (st\<lparr>sm_mapper := mp\<rparr>))"
    and remove: "sm_inv st \<Longrightarrow> P st \<Longrightarrow> P (fst (removeStream env i st))"
    and replace: "sm_inv st \<Longrightarrow> P st \<Longrightarrow> map_find (sm_streams st) i = Some m \<Longrightarrow> ms_sdp m' = ms_sdp m \<Longrightarrow>
      P (st\<lparr>sm_streams := map_put i m' (sm_streams st), sm_mapper := mp\<rparr>)"
    and clear: "sm_inv st \<Longrightarrow> P st \<Longrightarrow> P (removeAllStreams st)"
    and told: "P (sm_notify e st) \<longleftrightarrow> P st" "P (autoSaveIfEnabled env st) \<longleftrightarrow> P st"
    and setting: "sm_inv st \<Longrightarrow> P st \<Longrightarrow> allowed op \<Longrightarrow> is_setting op \<Longrightarrow> P (sm_apply env ids op st)"
begin

lemma kept_add:
  assumes "sm_inv st" "P st" "valid_id i" "\<not> id_isNull i" "map_find (sm_streams st) i = None"
  shows "P (fst (addStream env i sdp mapping st))"
  using assms(1,3-5)
proof (cases rule: addStream_cases [where env = env and sdp = sdp and mapping = mapping])
  case (added mp e)
  then show ?thesis using admit [OF assms(1,2) _ assms(5)] by (simp add: told)
qed (use assms(2) in simp)

lemma kept_tx:
  assumes "sm_inv st" "P st" "valid_id i" "\<not> id_isNull i" "map_find (sm_streams st) i = None"
  shows "P (fst (createTxStream env i name ip port n mapping sourcePort dscp st))"
  using assms(1,3-5)
proof (cases rule: createTx_cases [where env = env and name = name and ip = ip and port = port and n = n and mapping = mapping
      and sourcePort = sourcePort and dscp = dscp])
  case (added sdp m x mp e)
  have "fst (canAddStream env st (ms_sdp x) True)" using added(3,6) by simp
  then show ?thesis using admit [OF assms(1,2) _ assms(5), of env x True mp] by (simp add: told added(7))
qed (use assms(2) in simp)

lemma kept_rollback: "sm_inv st \<Longrightarrow> P st \<Longrightarrow> P (roll_back env created st)"
  unfolding roll_back_def by (induction created arbitrary: st) (simp_all add: remove removeStream_inv)

lemma kept_flows:
  "sm_inv st \<Longrightarrow> P st \<Longrightarrow> distinct flows \<Longrightarrow> fresh_ids ids (set flows) st \<Longrightarrow> P (fst (create_flows env ids p flows created st))"
proof (induction flows arbitrary: created st)
  case (Cons flow flows)
  show ?case
  proof (cases "flow_address p flow")
    case None
    then show ?thesis using Cons.prems by (simp add: kept_rollback)
  next
    case (Some a)
    obtain ip sp where a: "flow_address p flow = Some (ip, sp)" using Some by (cases a) auto
    obtain st' i where c: "createTxStream env (ids flow) (flow_name p flow) ip (fp_port p) (flow_channels p flow) (flow_mapping p flow)
        sp (fp_dscp p) st = (st', i)" by force
    note S = flow_step [OF Cons.prems(1,3,4) c]
    have "P st'" using kept_tx [OF Cons.prems(1,2) S(3-5)] c by (metis fst_conv)
    then show ?thesis using Cons.IH [OF S(1)] Cons.prems(3) S(1,2) a c by (simp add: kept_rollback)
  qed
qed simp

lemma kept_follow: "sm_inv st \<Longrightarrow> P st \<Longrightarrow> fresh_ids ids {k..<k + length ps} st \<Longrightarrow> P (fst (follow_all env ids k ps st))"
proof (induction ps arbitrary: k st)
  case (Cons p ps)
  obtain st1 n where o: "follow_one env (ids k) p st = (st1, n)" by force
  note S = follow_step [OF Cons.prems(1,3) o]
  obtain st' r where r: "removeStream env (pe_id p) st = (st', r)" by force
  have s': "sm_inv st'" "P st'" using removeStream_inv [OF Cons.prems(1), of env "pe_id p"] remove [OF Cons.prems(1,2), of env "pe_id p"] r by simp_all
  have "P (fst (addStream env (ids k) (pe_sdp p) (follow_mapping p) st'))"
    using kept_add [OF s' S(3,4)] S(5) [of env "pe_id p"] r by simp
  then have "P st1" using o s'(2) r by (auto simp: follow_one_def Let_def split_def split: if_splits)
  then have "P (fst (follow_all env ids (k + 1) ps st1))" using Cons.IH [OF S(1)] S(2) by blast
  then show ?case by (simp add: o split_def Let_def)
qed simp

lemma kept_load: "sm_inv st \<Longrightarrow> P st \<Longrightarrow> list_all (valid_id \<circ> streamID \<circ> pc_mapping) cs \<Longrightarrow> P (fst (load_all env cs st))"
proof (induction cs arbitrary: st)
  case (Cons c cs)
  have i: "valid_id (streamID (pc_mapping c))" using Cons.prems(3) by simp
  have "P (fst (load_one env c st))" using Cons.prems(1) i
  proof (cases rule: load_one_cases [where env = env])
    case (restored x mp e)
    have "ms_sdp x = pc_sdp c" by (simp add: restored(8))
    then show ?thesis using admit [OF Cons.prems(1,2) _ restored(4), of env x False mp] restored(3) by (simp add: restored(9))
  qed (use Cons.prems(2) in simp)
  then show ?case using Cons load_one_inv [OF Cons.prems(1) i, of env] by (simp add: split_def Let_def)
qed simp

lemma kept_told_all: "P (fold (\<lambda>x. sm_notify (f x)) xs st) \<longleftrightarrow> P st"
  by (induction xs arbitrary: st) (simp_all add: told)

lemma kept_update:
  assumes "sm_inv st" "P st"
  shows "P (fst (sm_updateMapping env i new st))"
proof (cases "map_find (sm_streams st) i")
  case None
  then show ?thesis using assms(2) by (simp add: sm_updateMapping_def)
next
  case (Some ms)
  from assms(1) Some show ?thesis
  proof (cases rule: updateMapping_cases [where env = env and new = new])
    case (restored e e')
    show ?thesis unfolding restored(3) fst_conv by (rule replace [OF assms Some]) simp
  next
    case (updated n e e' mp)
    show ?thesis unfolding updated(5) fst_conv told by (rule replace [OF assms Some]) simp
  qed (use assms(2) in simp)
qed

lemma kept_apply:
  assumes inv: "sm_inv st" and p: "P st" and op: "allowed op" and ids: "fresh_ids ids {..<sm_draws op st} st" and typed: "sm_typed op"
  shows "P (sm_apply env ids op st)"
proof (cases "is_setting op")
  case True
  then show ?thesis using setting [OF inv p op] by blast
next
  case False
  have one: "valid_id (ids 0)" "\<not> id_isNull (ids 0)" "map_find (sm_streams st) (ids 0) = None" if "0 < sm_draws op st"
    using ids that by (auto simp: fresh_ids_def)
  show ?thesis
  proof (cases op)
    case (AddDefault sdp)
    then show ?thesis using kept_add [OF inv p] one p by (auto simp: addStreamDefault_def split: option.split)
  next
    case (CreateFlows name ip port n m dscp)
    then show ?thesis using kept_flows [OF inv p _ plan_fresh] p ids by (simp add: createTxStreamFlows_def Let_def)
  next
    case (Announced sdp trigger)
    then show ?thesis using kept_follow [OF inv p pending_fresh] p ids by (auto simp: updateReceiveStreamsFromAnnouncement_def)
  next
    case (LoadSaved cs)
    then show ?thesis using p typed kept_load [OF inv p] by (cases cs) (simp_all add: loadSavedStreams_def split_def Let_def kept_told_all)
  qed (use False inv p one kept_add kept_tx remove clear kept_update in \<open>simp_all add: is_setting_def\<close>)
qed

lemma kept_always: "sm_reachable allowed st0 st \<Longrightarrow> sm_inv st0 \<Longrightarrow> P st0 \<Longrightarrow> P st"
proof (induction rule: sm_reachable.induct)
  case (call st op ids env)
  then show ?case using kept_apply sm_reachable_inv by blast
qed

end

end
