(* ===== verification/Manager_Properties.thy ===== *)
theory Manager_Properties
  imports Managed_Streams
begin

text \<open>
  What follows for the users of the manager: one clock and one rate for all streams, the exclusive use of device channels and
  exact totals, flows created together or not at all, the file that follows the streams, and the cases in which a stream is
  lost or never admitted.
\<close>

section \<open>The settings an operation leaves alone\<close>

definition managed_sessions :: "(stream_id, managed_stream) stdmap \<Rightarrow> sdp_session set" where
  "managed_sessions ms = ms_sdp ` snd ` set ms"

definition clock_settings :: "stream_manager \<Rightarrow> bool \<times> bool \<times> bool" where
  "clock_settings st = (sm_ignoreRefClock st, sm_requirePTPLock st, sm_ptpEnabled st)"

lemma settings_told [simp]:
  "clock_settings (sm_notify e st) = clock_settings st" "clock_settings (autoSaveIfEnabled env st) = clock_settings st"
  using save_eq [of env st] by (auto simp: clock_settings_def sm_notify_def)

lemma settings_store [simp]: "clock_settings (store_stream i x (st\<lparr>sm_mapper := mp\<rparr>)) = clock_settings st"
  by (simp add: clock_settings_def store_stream_def ensurePTPClockForDomain_def adoptGrandmaster_def count_channels_def)

lemma settings_remove [simp]: "clock_settings (fst (removeStream env i st)) = clock_settings st"
  by (auto simp: removeStream_def Let_def split: option.split)
    (simp add: clock_settings_def recomputeActiveGrandmaster_def uncount_channels_def)

lemma fold_told:
  "sm_streams (fold (\<lambda>x. sm_notify (f x)) xs st) = sm_streams st" "sm_grandmaster (fold (\<lambda>x. sm_notify (f x)) xs st) = sm_grandmaster st"
  "sm_clocks (fold (\<lambda>x. sm_notify (f x)) xs st) = sm_clocks st" "clock_settings (fold (\<lambda>x. sm_notify (f x)) xs st) = clock_settings st"
  by (induction xs arbitrary: st) simp_all

lemma removeAll_fields [simp]:
  "clock_settings (removeAllStreams st) = clock_settings st" "sm_streams (removeAllStreams st) = []"
  "sm_grandmaster (removeAllStreams st) = []" "sm_clocks (removeAllStreams st) = sm_clocks st"
  by (simp_all add: removeAllStreams_def Let_def fold_told recomputeActiveGrandmaster_def)
    (simp add: clock_settings_def)

lemma store_fields:
  "sm_grandmaster (store_stream i x (st\<lparr>sm_mapper := mp\<rparr>)) =
     (if sd_ptpMasterMAC (ms_sdp x) \<noteq> [] \<and> sm_grandmaster st = [] then sd_ptpMasterMAC (ms_sdp x) else sm_grandmaster st)"
  "sm_clocks (store_stream i x (st\<lparr>sm_mapper := mp\<rparr>)) =
     (if sm_ptpEnabled st \<and> 0 \<le> sd_ptpDomain (ms_sdp x) then insert (sd_ptpDomain (ms_sdp x)) (sm_clocks st) else sm_clocks st)"
  by (simp_all add: store_stream_def ensurePTPClockForDomain_def adoptGrandmaster_def count_channels_def)

lemma settings_apply:
  assumes "is_setting op"
  shows "declared (sm_streams (sm_apply env ids op st)) = declared (sm_streams st)" "sm_grandmaster (sm_apply env ids op st) = sm_grandmaster st"
    "managed_sessions (sm_streams (sm_apply env ids op st)) = managed_sessions (sm_streams st)"
proof -
  have c: "sm_streams (fold (\<lambda>(i, m). ensurePTPClockForDomain (sd_ptpDomain (ms_sdp m))) xs s) = sm_streams s"
      "sm_grandmaster (fold (\<lambda>(i, m). ensurePTPClockForDomain (sd_ptpDomain (ms_sdp m))) xs s) = sm_grandmaster s" for xs s
    by (induction xs arbitrary: s) (simp_all add: ensurePTPClockForDomain_def split_def)
  have io: "managed_sessions (map (\<lambda>(i, m). (i, restart_all env b m)) ms) = managed_sessions ms" for b ms
    by (simp add: managed_sessions_def image_image split_def restart_facts)
  have d: "declared ms = sd_ptpMasterMAC ` managed_sessions ms - {[]}" for ms by (simp add: declared_image managed_sessions_def image_image)
  show s: "managed_sessions (sm_streams (sm_apply env ids op st)) = managed_sessions (sm_streams st)"
    using assms io by (cases op) (simp_all add: is_setting_def setIOActive_def setDeviceSampleRate_def sm_setUsableChannelCount_def
        sm_setPTPEnabled_def Let_def c)
  show "declared (sm_streams (sm_apply env ids op st)) = declared (sm_streams st)" unfolding d s ..
  show "sm_grandmaster (sm_apply env ids op st) = sm_grandmaster st"
    using assms by (cases op) (simp_all add: is_setting_def setIOActive_def setDeviceSampleRate_def sm_setUsableChannelCount_def
        sm_setPTPEnabled_def Let_def c)
qed

section \<open>One clock\<close>

definition shared_clock :: "stream_manager \<Rightarrow> bool" where
  "shared_clock st \<longleftrightarrow> \<not> sm_ignoreRefClock st \<and>
     (\<forall>g\<in>declared (sm_streams st). normalizeGrandmaster g = normalizeGrandmaster (sm_grandmaster st))"

lemma declared_erase: "declared (map_erase i ms) \<subseteq> declared ms"
  by (auto simp: declared_def set_erase)

lemma ignore_setting: "is_setting op \<Longrightarrow> op \<noteq> SetIgnoreRefClock True \<Longrightarrow> \<not> sm_ignoreRefClock st \<Longrightarrow> \<not> sm_ignoreRefClock (sm_apply env ids op st)"
proof -
  have c: "sm_ignoreRefClock (fold (\<lambda>(i, m). ensurePTPClockForDomain (sd_ptpDomain (ms_sdp m))) xs s) = sm_ignoreRefClock s" for xs s
    by (induction xs arbitrary: s) (auto simp: ensurePTPClockForDomain_def split_def)
  show "is_setting op \<Longrightarrow> op \<noteq> SetIgnoreRefClock True \<Longrightarrow> \<not> sm_ignoreRefClock st \<Longrightarrow> \<not> sm_ignoreRefClock (sm_apply env ids op st)"
    by (cases op) (simp_all add: is_setting_def setIOActive_def setDeviceSampleRate_def sm_setUsableChannelCount_def sm_setPTPEnabled_def Let_def c)
qed

interpretation one_clock: kept "\<lambda>op. op \<noteq> SetIgnoreRefClock True" shared_clock
proof
  fix st :: stream_manager and env :: sm_env and x :: managed_stream and tx i mp
  assume inv: "sm_inv st" and p: "shared_clock st" and can: "fst (canAddStream env st (ms_sdp x) tx)" and f: "map_find (sm_streams st) i = None"
  note D = sm_invD [OF inv]
  have v: "sd_ptpMasterMAC (ms_sdp x) = [] \<or> sm_grandmaster st = [] \<or>
      normalizeGrandmaster (sd_ptpMasterMAC (ms_sdp x)) = normalizeGrandmaster (sm_grandmaster st)"
    using canAdd_facts(5) [OF can] p by (auto simp: validateClock_def shared_clock_def split: if_splits)
  have "sm_ignoreRefClock (store_stream i x (st\<lparr>sm_mapper := mp\<rparr>)) = sm_ignoreRefClock st"
    using settings_store [of i x mp st] by (simp add: clock_settings_def)
  moreover have "normalizeGrandmaster g = normalizeGrandmaster (sm_grandmaster (store_stream i x (st\<lparr>sm_mapper := mp\<rparr>)))"
    if "g \<in> declared (sm_streams (store_stream i x (st\<lparr>sm_mapper := mp\<rparr>)))" for g
  proof -
    have "g \<in> declared (sm_streams st) \<or> g = sd_ptpMasterMAC (ms_sdp x) \<and> g \<noteq> []" using that declared_put [OF D(1) f, of x] by auto
    moreover have "sm_grandmaster st = [] \<Longrightarrow> declared (sm_streams st) = {}" using D(6) by (simp add: grandmaster_ok_def)
    ultimately show ?thesis using p v by (cases "sm_grandmaster st = []") (auto simp: shared_clock_def store_fields(1))
  qed
  ultimately show "shared_clock (store_stream i x (st\<lparr>sm_mapper := mp\<rparr>))" using p by (simp add: shared_clock_def del: store_streams)
next
  fix st env i
  assume inv: "sm_inv st" and p: "shared_clock st"
  have s: "\<not> sm_ignoreRefClock (fst (removeStream env i st))" using settings_remove [of env i st] p by (simp add: clock_settings_def shared_clock_def)
  show "shared_clock (fst (removeStream env i st))"
  proof (cases "map_find (sm_streams st) i")
    case None
    then show ?thesis using p by (simp add: removeStream_def)
  next
    case (Some m)
    note R = removeStream_known [OF inv Some, where env = env]
    let ?gm = "first_declared (map_erase i (sm_streams st))"
    have same: "normalizeGrandmaster g = normalizeGrandmaster g'" if "g \<in> declared (sm_streams st)" "g' \<in> declared (sm_streams st)" for g g'
      using p that by (simp add: shared_clock_def)
    have "normalizeGrandmaster g = normalizeGrandmaster ?gm" if g: "g \<in> declared (map_erase i (sm_streams st))" for g
    proof -
      have "?gm \<in> declared (map_erase i (sm_streams st))"
        using first_declared_ok [of "map_erase i (sm_streams st)"] g by (auto simp: grandmaster_ok_def split: if_splits)
      then show ?thesis using same declared_erase g by blast
    qed
    then show ?thesis using s R(1,4) by (simp add: shared_clock_def)
  qed
next
  fix st :: stream_manager and m m' :: managed_stream and i mp
  assume inv: "sm_inv st" and p: "shared_clock st" and m: "map_find (sm_streams st) i = Some m" "ms_sdp m' = ms_sdp m"
  show "shared_clock (st\<lparr>sm_streams := map_put i m' (sm_streams st), sm_mapper := mp\<rparr>)"
    using p declared_same [OF sm_invD(1) [OF inv] m] by (simp add: shared_clock_def)
next
  fix st assume "shared_clock st"
  then show "shared_clock (removeAllStreams st)"
    using removeAll_fields(1) [of st] by (simp add: shared_clock_def declared_def clock_settings_def)
next
  fix e st show "shared_clock (sm_notify e st) = shared_clock st"
    using settings_told(1) [of e st] by (simp add: shared_clock_def clock_settings_def)
next
  fix env st show "shared_clock (autoSaveIfEnabled env st) = shared_clock st"
    using settings_told(2) [of env st] by (simp add: shared_clock_def clock_settings_def)
next
  fix st op env ids assume "sm_inv st" "shared_clock st" "op \<noteq> SetIgnoreRefClock True" "is_setting op"
  then show "shared_clock (sm_apply env ids op st)" using ignore_setting [of op st] settings_apply [of op] by (simp add: shared_clock_def)
qed

section \<open>A clock that is never started\<close>

definition awaits_lock :: "stream_manager \<Rightarrow> bool" where
  "awaits_lock st \<longleftrightarrow> sm_requirePTPLock st \<and> sm_ptpEnabled st \<and> sm_clocks st = {} \<and>
     (\<forall>s\<in>managed_sessions (sm_streams st). sd_ptpDomain s < 0)"

definition keeps_lock_demand :: "sm_op \<Rightarrow> bool" where
  "keeps_lock_demand op \<longleftrightarrow> op \<noteq> SetPtp False \<and> op \<noteq> SetRequireLock False"

lemma managed_sessions_put: "sorted_map ms \<Longrightarrow> managed_sessions (map_put i x ms) \<subseteq> insert (ms_sdp x) (managed_sessions ms)"
  by (auto simp: managed_sessions_def set_put split: if_splits) force

lemma managed_sessions_erase: "managed_sessions (map_erase i ms) \<subseteq> managed_sessions ms"
  by (auto simp: managed_sessions_def map_erase_def)

lemma lock_setting:
  assumes "awaits_lock st" "keeps_lock_demand op" "is_setting op"
  shows "awaits_lock (sm_apply env ids op st)"
proof -
  have c: "sm_clocks (fold (\<lambda>(i, m). ensurePTPClockForDomain (sd_ptpDomain (ms_sdp m))) xs s) = sm_clocks s \<and>
      clock_settings (fold (\<lambda>(i, m). ensurePTPClockForDomain (sd_ptpDomain (ms_sdp m))) xs s) = clock_settings s"
    if "\<forall>s\<in>managed_sessions xs. sd_ptpDomain s < 0" for xs s
    using that by (induction xs arbitrary: s) (auto simp: ensurePTPClockForDomain_def managed_sessions_def split_def)
  have "sm_clocks (sm_apply env ids op st) = sm_clocks st \<and> sm_requirePTPLock (sm_apply env ids op st) \<and> sm_ptpEnabled (sm_apply env ids op st)"
    using assms c [of "sm_streams st" "st\<lparr>sm_ptpEnabled := True\<rparr>"]
    by (cases op) (auto simp: is_setting_def setIOActive_def setDeviceSampleRate_def sm_setUsableChannelCount_def sm_setPTPEnabled_def
        Let_def awaits_lock_def keeps_lock_demand_def clock_settings_def)
  then show ?thesis using assms(1) settings_apply(3) [OF assms(3), of env ids st] by (simp add: awaits_lock_def)
qed

interpretation no_clock: kept keeps_lock_demand awaits_lock
proof
  fix st :: stream_manager and env :: sm_env and x :: managed_stream and tx i mp
  assume inv: "sm_inv st" and p: "awaits_lock st" and can: "fst (canAddStream env st (ms_sdp x) tx)"
  have "sd_ptpDomain (ms_sdp x) < 0"
    using canAdd_facts(5) [OF can] p by (auto simp: validateClock_def clock_locked_def awaits_lock_def split: if_splits)
  then show "awaits_lock (store_stream i x (st\<lparr>sm_mapper := mp\<rparr>))"
    using p settings_store [of i x mp st] managed_sessions_put [OF sm_invD(1) [OF inv], of i x]
    by (auto simp: awaits_lock_def store_fields clock_settings_def)
next
  fix st env i
  assume inv: "sm_inv st" and p: "awaits_lock st"
  show "awaits_lock (fst (removeStream env i st))"
  proof (cases "map_find (sm_streams st) i")
    case None
    then show ?thesis using p by (simp add: removeStream_def)
  next
    case (Some m)
    show ?thesis using p settings_remove [of env i st] removeStream_known(1,7) [OF inv Some, where env = env] managed_sessions_erase [of i "sm_streams st"]
      by (auto simp: awaits_lock_def clock_settings_def)
  qed
next
  fix st :: stream_manager and m m' :: managed_stream and i mp
  assume inv: "sm_inv st" and p: "awaits_lock st" and m: "map_find (sm_streams st) i = Some m" "ms_sdp m' = ms_sdp m"
  have "ms_sdp m' \<in> managed_sessions (sm_streams st)" using map_find_in [OF m(1)] m(2) unfolding managed_sessions_def by force
  then show "awaits_lock (st\<lparr>sm_streams := map_put i m' (sm_streams st), sm_mapper := mp\<rparr>)"
    using p managed_sessions_put [OF sm_invD(1) [OF inv], of i m'] by (auto simp: awaits_lock_def)
next
  fix st assume "awaits_lock st"
  then show "awaits_lock (removeAllStreams st)" using removeAll_fields(1) [of st] by (simp add: awaits_lock_def clock_settings_def managed_sessions_def)
next
  fix e st show "awaits_lock (sm_notify e st) = awaits_lock st"
    using settings_told(1) [of e st] by (simp add: awaits_lock_def clock_settings_def)
next
  fix env st show "awaits_lock (autoSaveIfEnabled env st) = awaits_lock st"
    using settings_told(2) [of env st] by (simp add: awaits_lock_def clock_settings_def)
next
  fix st op env ids assume "sm_inv st" "awaits_lock st" "keeps_lock_demand op" "is_setting op"
  then show "awaits_lock (sm_apply env ids op st)" using lock_setting by blast
qed

section \<open>Bounds\<close>

text \<open>Every stream owns a device channel, so there are at most 128 of them, and the totals do not wrap.\<close>

lemma own_channels:
  assumes "sm_inv st" "map_find (sm_streams st) i = Some m"
  shows "set (deviceChannels (ms_mapping m)) \<noteq> {}" "set (deviceChannels (ms_mapping m)) \<subseteq> {..<kMaxDeviceChannels}"
    "map_find (sm_streams st) j = Some m' \<Longrightarrow> i \<noteq> j \<Longrightarrow> set (deviceChannels (ms_mapping m)) \<inter> set (deviceChannels (ms_mapping m')) = {}"
proof -
  note D = sm_invD [OF assms(1)]
  have inv: "mapper_inv (sm_mapper st)" using D(2) by (simp add: mapper_exact_def)
  have k: "map_find (mappings (sm_mapper st)) i = Some (ms_mapping m)" using D(3) assms(2) by simp
  note v = mapper_invD(4) [OF inv k] and o = mapper_invD(5) [OF inv]
  show "set (deviceChannels (ms_mapping m)) \<noteq> {}" "set (deviceChannels (ms_mapping m)) \<subseteq> {..<kMaxDeviceChannels}"
    using valid_mapping(2,4) [of "ms_mapping m"] v by auto
  show "set (deviceChannels (ms_mapping m)) \<inter> set (deviceChannels (ms_mapping m')) = {}"
    if "map_find (sm_streams st) j = Some m'" "i \<noteq> j"
  proof -
    have k': "map_find (mappings (sm_mapper st)) j = Some (ms_mapping m')" using D(3) that(1) by simp
    show ?thesis using o [OF k] o [OF k'] that(2) by blast
  qed
qed

lemma stream_bound:
  assumes "sm_inv st"
  shows "length (sm_streams st) \<le> 128"
proof -
  let ?I = "fst ` set (sm_streams st)" and ?C = "\<lambda>i. set (deviceChannels (ms_mapping (the (map_find (sm_streams st) i))))"
  note D = sm_invD [OF assms]
  have find: "\<exists>m. map_find (sm_streams st) i = Some m" if "i \<in> ?I" for i
    using that map_find_None [of "sm_streams st" i] by (cases "map_find (sm_streams st) i") auto
  have "distinct (map fst (sm_streams st))" using D(1) by (simp add: sorted_map_def strict_sorted_iff)
  then have "length (sm_streams st) = card ?I" using distinct_card [of "map fst (sm_streams st)"] by simp
  also have "\<dots> \<le> (\<Sum>i\<in>?I. card (?C i))"
  proof -
    have "1 \<le> card (?C i)" if i: "i \<in> ?I" for i
    proof -
      obtain m where "map_find (sm_streams st) i = Some m" using find [OF i] by blast
      then show ?thesis using own_channels(1) [OF assms] by (simp add: Suc_le_eq card_gt_0_iff)
    qed
    then show ?thesis using sum_mono [of ?I "\<lambda>_. 1" "\<lambda>i. card (?C i)"] by simp
  qed
  also have "\<dots> = card (\<Union>i\<in>?I. ?C i)"
  proof (rule card_UN_disjoint [symmetric])
    show "\<forall>i\<in>?I. \<forall>j\<in>?I. i \<noteq> j \<longrightarrow> ?C i \<inter> ?C j = {}"
    proof (intro ballI impI)
      fix i j assume i: "i \<in> ?I" and j: "j \<in> ?I" and n: "i \<noteq> j"
      obtain a b where "map_find (sm_streams st) i = Some a" "map_find (sm_streams st) j = Some b" using find [OF i] find [OF j] by blast
      then show "?C i \<inter> ?C j = {}" using own_channels(3) [OF assms _ _ n] by simp
    qed
  qed auto
  also have "\<dots> \<le> card {..<kMaxDeviceChannels}"
  proof (rule card_mono)
    have "?C i \<subseteq> {..<kMaxDeviceChannels}" if i: "i \<in> ?I" for i
      using find [OF i] own_channels(2) [OF assms] by (metis option.sel)
    then show "(\<Union>i\<in>?I. ?C i) \<subseteq> {..<kMaxDeviceChannels}" by (rule UN_least)
  qed simp
  finally show ?thesis by (simp add: kMaxDeviceChannels_def)
qed

lemma sum_word_exact:
  fixes f :: "'a \<Rightarrow> u32"
  assumes "length xs * b < 2 ^ 32" "\<And>x. x \<in> set xs \<Longrightarrow> unat (f x) \<le> b"
  shows "unat (sum_list (map f xs)) = (\<Sum>x\<leftarrow>xs. unat (f x)) \<and> (\<Sum>x\<leftarrow>xs. unat (f x)) \<le> length xs * b"
  using assms
proof (induction xs)
  case (Cons x xs)
  then have "unat (sum_list (map f xs)) = (\<Sum>x\<leftarrow>xs. unat (f x))" "(\<Sum>x\<leftarrow>xs. unat (f x)) \<le> length xs * b" "unat (f x) \<le> b"
    by auto
  moreover from this have "unat (f x + sum_list (map f xs)) = unat (f x) + unat (sum_list (map f xs))"
    using Cons.prems(1) by (subst unat_add_lem [symmetric]) simp
  ultimately show ?case by simp
qed simp

definition channel_sum :: "bool \<Rightarrow> stream_manager \<Rightarrow> nat" where
  "channel_sum tx st = sum_list (map (\<lambda>(i, m). if ms_isTransmit m = tx then unat (sd_numChannels (ms_sdp m)) else 0) (sm_streams st))"

lemma totals_exact:
  assumes "sm_inv st"
  shows "unat (channels_in_use tx st) = channel_sum tx st"
proof -
  have b: "unat (n :: u16) \<le> 65535" for n using unsigned_less [where 'a = nat, of n] by simp
  have u: "unat (ucast (n :: u16) :: u32) = unat n" for n
    using b [of n] by (simp add: unsigned_ucast_eq take_bit_nat_eq_self)
  have "unat (sum_list (map (\<lambda>(i, m). counted tx m) (sm_streams st))) = (\<Sum>p\<leftarrow>sm_streams st. unat (case p of (i, m) \<Rightarrow> counted tx m))"
    by (rule sum_word_exact [where b = 65535, THEN conjunct1]) (use stream_bound [OF assms] b in \<open>auto simp: u\<close>)
  also have "\<dots> = channel_sum tx st" unfolding channel_sum_def by (intro arg_cong [of _ _ sum_list] map_cong) (auto simp: u)
  finally show ?thesis using sm_invD(5) [OF assms, of tx] by (simp add: channel_total_def)
qed

section \<open>Two streams\<close>

text \<open>Two receivers of sessions that write the identity of their grandmaster in two ways, while the device is idle.\<close>

definition demo_env :: sm_env where
  "demo_env = \<lparr>ev_opens = (\<lambda>_. True), ev_locked = (\<lambda>_. True), ev_primaryInterface = ''en0'', ev_hasRoute = True, ev_now = 7,
     ev_writable = True, ev_sourcePort = 0, ev_ptime = 0, ev_framecount = 0\<rparr>"

definition demo_session :: "string \<Rightarrow> sdp_session" where
  "demo_session gm = sdp_default\<lparr>sd_sessionName := ''Desk'', sd_connectionAddress := ''239.69.0.1'', sd_ptpMasterMAC := gm\<rparr>"

lemma admitted_stereo:
  assumes s: "sd_sampleRate sdp = 48000" "sd_numChannels sdp = 2" "sd_encoding sdp = ''L24''" "sd_ptimeUs sdp = 1000" "sd_framecount sdp = 0"
      "sd_port sdp = 5004" "sd_connectionAddress sdp = ''239.69.0.1''" "sd_ptpDomain sdp = 0"
    and st: "sm_deviceRate st = 48000" "sm_profileKind st = KindAES67" "2 \<le> getAvailableChannelCount (sm_mapper st)"
      "unat (channels_in_use tx st) \<le> 64" "sm_usableRx st = 128" "sm_usableTx st = 128" "\<not> sm_requirePTPLock st"
    and gm: "sd_ptpMasterMAC sdp = [] \<or> sm_grandmaster st = [] \<or> normalizeGrandmaster (sm_grandmaster st) = normalizeGrandmaster (sd_ptpMasterMAC sdp)"
  shows "fst (canAddStream demo_env st sdp tx)"
proof -
  have u: "\<not> 128 < channels_in_use tx st + 2"
    using st(4) unat_add_lem [of "channels_in_use tx st" 2] by (simp add: word_less_nat_alt)
  have "validateSampleRate st sdp = None" by (simp add: validateSampleRate_def rate_of_def s st(1) tenth_def)
  moreover have "validateChannelAvailability st (sd_numChannels sdp) = None"
    using st(3) by (simp add: validateChannelAvailability_def s)
  moreover have "validatePacketBudget sdp = None"
    by (simp add: validatePacketBudget_def s bytesPerSample_def framesPerPacket_def fits_def rtpPacketBytes_def kRtpHeaderBytes_def kMaxRtpPacketBytes_def
      kEthernetMtuBytes_def kIpv4UdpOverheadBytes_def)
  moreover have "validateNetworkConfig demo_env sdp = Inr []" by (simp add: validateNetworkConfig_def s demo_env_def)
  moreover have "validateProfile st sdp tx = None"
  proof -
    have "pf_validate (forKind KindAES67) (describeStream sdp) tx = None"
      unfolding validate_iff by (simp add: forKind_def profile_defs describeStream_def s)
    then show ?thesis by (simp add: validateProfile_def st(2) forKind_def profile_defs)
  qed
  moreover have "validateUsable st sdp tx = None" using u by (cases tx) (simp_all add: validateUsable_def s st(5,6) Let_def)
  moreover have "validateClock demo_env st sdp = None" using st(7) gm by (auto simp: validateClock_def)
  ultimately show ?thesis by (simp add: canAddStream_def)
qed

definition idle_receiver :: "sm_env \<Rightarrow> stream_id \<Rightarrow> sdp_session \<Rightarrow> channel_mapping \<Rightarrow> stream_manager \<Rightarrow> managed_stream" where
  "idle_receiver env i sdp m st = (let c = complete_mapping i (sd_sessionName sdp) (sd_numChannels sdp) m in
     \<lparr>ms_sdp = sdp, ms_mapping = c, ms_receiver = Some (createReceiver st sdp c 0 []), ms_transmitter = None,
      ms_info = session_info env i sdp, ms_isTransmit = False, ms_sourcePort = 0\<rparr>)"

lemma idle_receiver_fields [simp]:
  "ms_sdp (idle_receiver env i sdp m st) = sdp" "\<not> ms_isTransmit (idle_receiver env i sdp m st)"
  "ms_mapping (idle_receiver env i sdp m st) = complete_mapping i (sd_sessionName sdp) (sd_numChannels sdp) m"
  "ms_receiver (idle_receiver env i sdp m st) = Some (createReceiver st sdp (complete_mapping i (sd_sessionName sdp) (sd_numChannels sdp) m) 0 [])"
  "ms_transmitter (idle_receiver env i sdp m st) = None"
  by (simp_all add: idle_receiver_def Let_def)

lemma add_done:
  assumes "fst (canAddStream env st sdp False)" "map_find (sm_streams st) i = None" "\<not> sm_ioActive st"
    "addMapping (complete_mapping i (sd_sessionName sdp) (sd_numChannels sdp) m) (sm_mapper st) = (mp, True)"
  shows "addStream env i sdp m st = (autoSaveIfEnabled env (sm_notify (StreamAdded (session_info env i sdp))
     (store_stream i (idle_receiver env i sdp m st) (st\<lparr>sm_mapper := mp\<rparr>))), i)"
  using assms by (simp add: addStream_def start_if_active_def idle_receiver_def Let_def)

lemma no_save: "\<not> sm_autoSave st \<Longrightarrow> autoSaveIfEnabled env st = st"
  by (simp add: autoSaveIfEnabled_def)

lemma store_autoSave [simp]: "sm_autoSave (store_stream i x st) = sm_autoSave st"
  by (simp add: store_stream_def ensurePTPClockForDomain_def adoptGrandmaster_def count_channels_def)

definition demo_first :: stream_manager where
  "demo_first = sm_apply demo_env (\<lambda>_. demo_id 1) (AddMapped (demo_session ''001dc1fffe000001'') (demo_mapping 0 4))
     (sm_apply demo_env (\<lambda>_. demo_id 0) (SetAutoSave False) StreamManager)"

definition demo_second :: stream_manager where
  "demo_second = sm_apply demo_env (\<lambda>_. demo_id 2) (AddMapped (demo_session ''00-1D-C1-FF-FE-00-00-01'') (demo_mapping 0 0)) demo_first"

definition demo_matrix :: mapper where
  "demo_matrix = fst (addMapping (complete_mapping (demo_id 1) ''Desk'' 2 (demo_mapping 0 4)) StreamChannelMapper)"

lemma demo_matrix_facts:
  "addMapping (complete_mapping (demo_id 1) ''Desk'' 2 (demo_mapping 0 4)) StreamChannelMapper = (demo_matrix, True)"
  "snd (addMapping (complete_mapping (demo_id 2) ''Desk'' 2 (demo_mapping 0 0)) demo_matrix)"
  "2 \<le> getAvailableChannelCount StreamChannelMapper" "2 \<le> getAvailableChannelCount demo_matrix"
proof -
  have "snd (addMapping (complete_mapping (demo_id 1) ''Desk'' 2 (demo_mapping 0 4)) StreamChannelMapper)" by code_simp
  then show "addMapping (complete_mapping (demo_id 1) ''Desk'' 2 (demo_mapping 0 4)) StreamChannelMapper = (demo_matrix, True)"
    by (simp add: demo_matrix_def prod_eq_iff)
  show "snd (addMapping (complete_mapping (demo_id 2) ''Desk'' 2 (demo_mapping 0 0)) demo_matrix)" by code_simp
  show "2 \<le> getAvailableChannelCount StreamChannelMapper" "2 \<le> getAvailableChannelCount demo_matrix" by code_simp+
qed

lemma demo_first_eq:
  "demo_first = sm_notify (StreamAdded (session_info demo_env (demo_id 1) (demo_session ''001dc1fffe000001''))) (store_stream (demo_id 1)
     (idle_receiver demo_env (demo_id 1) (demo_session ''001dc1fffe000001'') (demo_mapping 0 4) (StreamManager\<lparr>sm_autoSave := False\<rparr>))
     (StreamManager\<lparr>sm_autoSave := False, sm_mapper := demo_matrix\<rparr>))"
proof -
  let ?st = "StreamManager\<lparr>sm_autoSave := False\<rparr>" and ?s = "demo_session ''001dc1fffe000001''"
  have can: "fst (canAddStream demo_env ?st ?s False)"
    using demo_matrix_facts(3) by (intro admitted_stereo) (simp_all add: StreamManager_def channels_in_use_def demo_session_def sdp_default_def)
  have "addMapping (complete_mapping (demo_id 1) (sd_sessionName ?s) (sd_numChannels ?s) (demo_mapping 0 4)) (sm_mapper ?st) = (demo_matrix, True)"
    using demo_matrix_facts(1) by (simp add: demo_session_def sdp_default_def StreamManager_def)
  from add_done [OF can _ _ this] show ?thesis by (simp add: demo_first_def StreamManager_def no_save)
qed

lemma demo_first_facts:
  "sm_streams demo_first = [(demo_id 1, idle_receiver demo_env (demo_id 1) (demo_session ''001dc1fffe000001'') (demo_mapping 0 4)
     (StreamManager\<lparr>sm_autoSave := False\<rparr>))]"
  "sm_mapper demo_first = demo_matrix" "sm_deviceRate demo_first = 48000" "sm_profileKind demo_first = KindAES67"
  "sm_rxChannelsInUse demo_first = 2" "sm_usableRx demo_first = 128" "sm_usableTx demo_first = 128" "\<not> sm_requirePTPLock demo_first"
  "sm_grandmaster demo_first = ''001dc1fffe000001''" "\<not> sm_ioActive demo_first" "\<not> sm_autoSave demo_first"
proof -
  have n: "sm_streams StreamManager = []" by (simp add: StreamManager_def)
  show "sm_streams demo_first = [(demo_id 1, idle_receiver demo_env (demo_id 1) (demo_session ''001dc1fffe000001'') (demo_mapping 0 4)
     (StreamManager\<lparr>sm_autoSave := False\<rparr>))]" unfolding demo_first_eq by (simp add: n)
  show "sm_mapper demo_first = demo_matrix" "sm_deviceRate demo_first = 48000" "sm_profileKind demo_first = KindAES67"
    "sm_rxChannelsInUse demo_first = 2" "sm_usableRx demo_first = 128" "sm_usableTx demo_first = 128" "\<not> sm_requirePTPLock demo_first"
    "sm_grandmaster demo_first = ''001dc1fffe000001''" "\<not> sm_ioActive demo_first" "\<not> sm_autoSave demo_first"
    by (simp_all add: demo_first_eq StreamManager_def sm_notify_def store_stream_def ensurePTPClockForDomain_def adoptGrandmaster_def
      count_channels_def demo_session_def sdp_default_def)
qed

lemma demo_second_facts:
  "map_find (sm_streams demo_second) (demo_id 1) \<noteq> None"
  "map_find (sm_streams demo_second) (demo_id 2) =
     Some (idle_receiver demo_env (demo_id 2) (demo_session ''00-1D-C1-FF-FE-00-00-01'') (demo_mapping 0 0) demo_first)"
  "map_find (sm_streams demo_first) (demo_id 2) = None"
  "j \<noteq> demo_id 1 \<Longrightarrow> j \<noteq> demo_id 2 \<Longrightarrow> map_find (sm_streams demo_second) j = None"
proof -
  let ?s = "demo_session ''00-1D-C1-FF-FE-00-00-01''"
  note F = demo_first_facts
  have n: "demo_id 2 \<noteq> demo_id 1" by (simp add: demo_id_def)
  then show two: "map_find (sm_streams demo_first) (demo_id 2) = None" by (simp add: F(1))
  have "normalizeGrandmaster ''001dc1fffe000001'' = normalizeGrandmaster ''00-1D-C1-FF-FE-00-00-01''" by code_simp
  then have can: "fst (canAddStream demo_env demo_first ?s False)"
    using demo_matrix_facts(4) by (intro admitted_stereo) (simp_all add: F channels_in_use_def demo_session_def sdp_default_def)
  obtain mp where mp: "addMapping (complete_mapping (demo_id 2) ''Desk'' 2 (demo_mapping 0 0)) demo_matrix = (mp, True)"
    using demo_matrix_facts(2) by (auto simp: prod_eq_iff)
  have s: "sd_sessionName ?s = ''Desk''" "sd_numChannels ?s = 2" by (simp_all add: demo_session_def sdp_default_def)
  have m: "addMapping (complete_mapping (demo_id 2) (sd_sessionName ?s) (sd_numChannels ?s) (demo_mapping 0 0)) (sm_mapper demo_first) = (mp, True)"
    using mp by (simp add: s F(2))
  note D = add_done [OF can two F(10) m]
  show "map_find (sm_streams demo_second) (demo_id 1) \<noteq> None"
    "map_find (sm_streams demo_second) (demo_id 2) = Some (idle_receiver demo_env (demo_id 2) ?s (demo_mapping 0 0) demo_first)"
    "j \<noteq> demo_id 1 \<Longrightarrow> j \<noteq> demo_id 2 \<Longrightarrow> map_find (sm_streams demo_second) j = None"
    using n unfolding demo_second_def sm_apply.simps D by (simp_all add: F(1))
qed

lemma demo_fresh: "valid_id (demo_id k)" "k = 1 \<or> k = 2 \<Longrightarrow> \<not> id_isNull (demo_id k)"
  by (auto simp: demo_id_def valid_id_def id_isNull_def)

lemma demo_reachable:
  assumes "allowed (SetAutoSave False)" "\<And>s m. allowed (AddMapped s m)"
  shows "sm_reachable allowed StreamManager demo_first" "sm_reachable allowed StreamManager demo_second"
proof -
  have "sm_reachable allowed StreamManager (sm_apply demo_env (\<lambda>_. demo_id 0) (SetAutoSave False) StreamManager)"
    by (rule sm_reachable.call) (use sm_reachable.start assms(1) in \<open>simp_all add: fresh_ids_def del: sm_apply.simps\<close>)
  then show first: "sm_reachable allowed StreamManager demo_first" unfolding demo_first_def
    by (rule sm_reachable.call) (use assms(2) demo_fresh in \<open>simp_all add: fresh_ids_def inj_on_def StreamManager_def\<close>)
  show "sm_reachable allowed StreamManager demo_second" unfolding demo_second_def
    by (rule sm_reachable.call [OF first]) (use assms(2) demo_fresh demo_second_facts(3) in \<open>simp_all add: fresh_ids_def inj_on_def\<close>)
qed

lemma close_nats: "\<bar>of_nat x - of_nat y :: rat\<bar> < 1 \<Longrightarrow> x = y"
proof -
  assume "\<bar>of_nat x - of_nat y :: rat\<bar> < 1"
  then have "(of_nat x :: rat) < of_nat (y + 1)" "(of_nat y :: rat) < of_nat (x + 1)" by (auto simp: abs_less_iff)
  then show "x = y" unfolding of_nat_less_iff by simp
qed

section \<open>Theorems\<close>

text \<open>
  C2: whatever is called on a new manager, in whatever order and whether or not the sockets open, the file can be written and
  the clocks lock: the matrix holds exactly the mappings of the streams, no device channel belongs to two streams, there are at
  most 128 streams, and the totals the limits are checked against are the exact sums of the channels received and sent.
\<close>

theorem manager_consistent:
  assumes "sm_reachable (\<lambda>_. True) StreamManager st"
  shows "(\<forall>i. getMapping i (sm_mapper st) = map_option ms_mapping (map_find (sm_streams st) i)) \<and>
    (\<forall>i j a b. map_find (sm_streams st) i = Some a \<longrightarrow> map_find (sm_streams st) j = Some b \<longrightarrow> i \<noteq> j \<longrightarrow>
       set (deviceChannels (ms_mapping a)) \<inter> set (deviceChannels (ms_mapping b)) = {}) \<and>
    getStreamCount st \<le> 128 \<and> unat (channels_in_use tx st) = channel_sum tx st"
proof -
  have inv: "sm_inv st" using sm_reachable_inv [OF assms inv_init] .
  show ?thesis
    using sm_invD(3) [OF inv] own_channels(3) [OF inv] stream_bound [OF inv] totals_exact [OF inv]
    by (simp add: getMapping_def getStreamCount_def)
qed

theorem manager_consistent_witness:
  "\<exists>a b. map_find (sm_streams demo_second) (demo_id 1) = Some a \<and> map_find (sm_streams demo_second) (demo_id 2) = Some b \<and>
     set (deviceChannels (ms_mapping a)) \<inter> set (deviceChannels (ms_mapping b)) = {} \<and>
     unat (channels_in_use False demo_second) = channel_sum False demo_second"
proof -
  obtain a b where "map_find (sm_streams demo_second) (demo_id 1) = Some a" "map_find (sm_streams demo_second) (demo_id 2) = Some b"
    using demo_second_facts by blast
  moreover have "demo_id 1 \<noteq> demo_id 2" by (simp add: demo_id_def)
  ultimately show ?thesis using manager_consistent [OF demo_reachable(2), of False] by blast
qed

text \<open>
  C6: all the streams of a manager run at one sample rate, and unless the reference clock was ever set to be ignored every two
  that name a grandmaster name the same one, whatever was added, removed, restored or followed in between.
\<close>

theorem streams_share_clock:
  assumes "sm_reachable (\<lambda>op. op \<noteq> SetIgnoreRefClock True) StreamManager st"
    "map_find (sm_streams st) i = Some a" "map_find (sm_streams st) j = Some b"
  shows "sd_sampleRate (ms_sdp a) = sd_sampleRate (ms_sdp b) \<and>
    (sd_ptpMasterMAC (ms_sdp a) \<noteq> [] \<longrightarrow> sd_ptpMasterMAC (ms_sdp b) \<noteq> [] \<longrightarrow>
       normalizeGrandmaster (sd_ptpMasterMAC (ms_sdp a)) = normalizeGrandmaster (sd_ptpMasterMAC (ms_sdp b)))"
proof
  have inv: "sm_inv st" using sm_reachable_inv [OF assms(1) inv_init] .
  have "\<bar>rate_of (ms_sdp a) - sm_deviceRate st\<bar> \<le> tenth" "\<bar>rate_of (ms_sdp b) - sm_deviceRate st\<bar> \<le> tenth"
    using sm_invD(4) [OF inv assms(2)] sm_invD(4) [OF inv assms(3)] by (simp_all add: at_rate_def)
  then have "\<bar>rate_of (ms_sdp a) - rate_of (ms_sdp b)\<bar> \<le> 2 * tenth" by linarith
  then have "\<bar>rate_of (ms_sdp a) - rate_of (ms_sdp b)\<bar> < 1" by (simp add: tenth_def)
  then have "unat (sd_sampleRate (ms_sdp a)) = unat (sd_sampleRate (ms_sdp b))" unfolding rate_of_def by (rule close_nats)
  then show "sd_sampleRate (ms_sdp a) = sd_sampleRate (ms_sdp b)" by (simp add: word_unat_eq_iff)
  have "shared_clock StreamManager" by (simp add: shared_clock_def StreamManager_def declared_def)
  then have "shared_clock st" using one_clock.kept_always [OF assms(1) inv_init] by blast
  then show "sd_ptpMasterMAC (ms_sdp a) \<noteq> [] \<longrightarrow> sd_ptpMasterMAC (ms_sdp b) \<noteq> [] \<longrightarrow>
      normalizeGrandmaster (sd_ptpMasterMAC (ms_sdp a)) = normalizeGrandmaster (sd_ptpMasterMAC (ms_sdp b))"
    using assms(2,3) declared_iff [OF sm_invD(1) [OF inv]] unfolding shared_clock_def by metis
qed

theorem streams_share_clock_witness:
  "\<exists>a b. map_find (sm_streams demo_second) (demo_id 1) = Some a \<and> map_find (sm_streams demo_second) (demo_id 2) = Some b \<and>
     sd_sampleRate (ms_sdp a) = sd_sampleRate (ms_sdp b)"
proof -
  obtain a b where "map_find (sm_streams demo_second) (demo_id 1) = Some a" "map_find (sm_streams demo_second) (demo_id 2) = Some b"
    using demo_second_facts by blast
  then show ?thesis using streams_share_clock [OF demo_reachable(2)] by blast
qed

text \<open>
  C16: on a new manager that demands a locked clock, no session of a clock domain is ever accepted, however long it runs, whether or
  not the clocks lock and whatever else is called: the clock of a domain is only started for a stream that was accepted.
\<close>

theorem ptp_lock_deadlock:
  assumes "sm_reachable keeps_lock_demand (sm_apply env ids (SetRequireLock True) (sm_apply env ids (SetPtp True) StreamManager)) st"
    "0 \<le> sd_ptpDomain sdp"
  shows "\<not> fst (canAddStream env' st sdp tx) \<and> sm_clocks st = {}"
proof -
  let ?st = "sm_apply env ids (SetRequireLock True) (sm_apply env ids (SetPtp True) StreamManager)"
  have s: "?st = StreamManager\<lparr>sm_ptpEnabled := True, sm_requirePTPLock := True\<rparr>"
    by (simp add: sm_setPTPEnabled_def StreamManager_def)
  have "sm_inv ?st" "awaits_lock ?st" using inv_settings [OF inv_settings(9) [OF inv_init]]
    unfolding s by (simp_all add: awaits_lock_def StreamManager_def managed_sessions_def)
  then have w: "awaits_lock st" using no_clock.kept_always [OF assms(1)] by blast
  then have "validateClock env' st sdp \<noteq> None" using assms(2) by (simp add: validateClock_def clock_locked_def awaits_lock_def)
  then show ?thesis using canAdd_facts(5) w by (auto simp: awaits_lock_def)
qed

theorem ptp_lock_deadlock_witness:
  "\<not> fst (canAddStream demo_env (sm_apply demo_env (\<lambda>_. demo_id 1) (SetIO True)
     (sm_apply demo_env (\<lambda>_. demo_id 1) (SetRequireLock True) (sm_apply demo_env (\<lambda>_. demo_id 1) (SetPtp True) StreamManager))) (demo_session []) False)"
  by (rule ptp_lock_deadlock [THEN conjunct1], rule sm_reachable.call [OF sm_reachable.start])
    (simp_all add: keeps_lock_demand_def fresh_ids_def demo_session_def sdp_default_def)

end
