(* ===== verification/Transmit_Flows.thy ===== *)
theory Transmit_Flows
  imports Manager_Properties
begin

text \<open>
  The flows of one transmission, \<open>createTxStreamFlows\<close> of \<open>StreamManager.cpp\<close>: they are created together or, when one of them
  cannot be, taken back; together they carry every channel once.
\<close>

section \<open>Taking back\<close>

lemma usable_add: "addMapping m mp = (mp', b) \<Longrightarrow> usableChannelCount mp' = usableChannelCount mp"
  by (auto simp: addMapping_def put_mapping_def updateDeviceChannelOwners_def split: if_splits)

lemma usable_remove: "usableChannelCount (fst (removeMapping i mp)) = usableChannelCount mp"
  by (simp add: removeMapping_def clearDeviceChannelOwners_def split: option.split)

lemma removeStream_find:
  assumes "sm_inv st"
  shows "map_find (sm_streams (fst (removeStream env i st))) j = (if j = i then None else map_find (sm_streams st) j)"
    "usableChannelCount (sm_mapper (fst (removeStream env i st))) = usableChannelCount (sm_mapper st)"
proof -
  have "map_find (sm_streams (fst (removeStream env i st))) j = (if j = i then None else map_find (sm_streams st) j) \<and>
      usableChannelCount (sm_mapper (fst (removeStream env i st))) = usableChannelCount (sm_mapper st)"
  proof (cases "map_find (sm_streams st) i")
    case None
    then show ?thesis by (simp add: removeStream_def)
  next
    case (Some m)
    then show ?thesis using removeStream_known(1,2) [OF assms Some] by (simp add: usable_remove)
  qed
  then show "map_find (sm_streams (fst (removeStream env i st))) j = (if j = i then None else map_find (sm_streams st) j)"
    "usableChannelCount (sm_mapper (fst (removeStream env i st))) = usableChannelCount (sm_mapper st)" by auto
qed

lemma roll_back_find:
  "sm_inv st \<Longrightarrow> map_find (sm_streams (roll_back env created st)) j = (if j \<in> set created then None else map_find (sm_streams st) j) \<and>
    usableChannelCount (sm_mapper (roll_back env created st)) = usableChannelCount (sm_mapper st)"
proof (induction created arbitrary: st)
  case (Cons i created)
  have "sm_inv (fst (removeStream env i st))" using removeStream_inv [OF Cons.prems] .
  from Cons.IH [OF this] show ?case using removeStream_find [OF Cons.prems, of env i] by (simp add: roll_back_def)
qed (simp add: roll_back_def)

text \<open>Two managers with the same streams and the same usable channels have the same matrix and the same totals.\<close>

lemma same_manager:
  assumes "sm_inv st" "sm_inv st'" "\<And>j. map_find (sm_streams st') j = map_find (sm_streams st) j"
    "usableChannelCount (sm_mapper st') = usableChannelCount (sm_mapper st)"
  shows "sm_streams st' = sm_streams st" "sm_mapper st' = sm_mapper st" "channels_in_use tx st' = channels_in_use tx st"
proof -
  note D = sm_invD [OF assms(1)] and D' = sm_invD [OF assms(2)]
  show s: "sm_streams st' = sm_streams st" using sorted_map_ext [OF D'(1) D(1)] assms(3) by blast
  have "sorted_map (mappings (sm_mapper st'))" "sorted_map (mappings (sm_mapper st))" using D(2) D'(2) by (simp_all add: mapper_exact_def mapper_inv_def)
  then have "mappings (sm_mapper st') = mappings (sm_mapper st)" by (rule sorted_map_ext) (simp add: D(3) D'(3) s)
  then show "sm_mapper st' = sm_mapper st" using mapper_ext [OF D'(2) D(2)] assms(4) by blast
  show "channels_in_use tx st' = channels_in_use tx st" by (simp add: D(5) D'(5) s)
qed

section \<open>One flow\<close>

lemma sum_store: "map_find (sm_streams st) i = None \<Longrightarrow>
    channel_sum tx (store_stream i x st) = (if ms_isTransmit x = tx then unat (sd_numChannels (ms_sdp x)) else 0) + channel_sum tx st"
  unfolding channel_sum_def store_streams by (subst sum_put_fresh) simp_all

lemma sum_told [simp]: "channel_sum tx (autoSaveIfEnabled env st) = channel_sum tx st" "channel_sum tx (sm_notify e st) = channel_sum tx st"
  by (simp_all add: channel_sum_def)

definition sends :: "stream_manager \<Rightarrow> stream_id \<Rightarrow> u16 \<Rightarrow> bool" where
  "sends st i n \<longleftrightarrow> (\<exists>m. map_find (sm_streams st) i = Some m \<and> ms_isTransmit m \<and> sd_numChannels (ms_sdp m) = n)"

lemma store_mapper [simp]: "sm_mapper (store_stream i x st) = sm_mapper st"
  by (simp add: store_stream_def ensurePTPClockForDomain_def adoptGrandmaster_def count_channels_def)

lemma createTx_result:
  assumes inv: "sm_inv st" and i: "valid_id i" "\<not> id_isNull i" "map_find (sm_streams st) i = None"
    and c: "createTxStream env i name ip port n mapping sourcePort dscp st = (st', r)"
  shows "usableChannelCount (sm_mapper st') = usableChannelCount (sm_mapper st)"
    and "(r = StreamID_null \<and> st' = st) \<or> (r = i \<and> sends st' i n \<and> (\<forall>j. j \<noteq> i \<longrightarrow> map_find (sm_streams st') j = map_find (sm_streams st) j) \<and>
      (\<forall>tx. channel_sum tx st' = channel_sum tx st + (if tx then unat n else 0)))"
proof -
  have "usableChannelCount (sm_mapper st') = usableChannelCount (sm_mapper st) \<and>
    ((r = StreamID_null \<and> st' = st) \<or> (r = i \<and> sends st' i n \<and> (\<forall>j. j \<noteq> i \<longrightarrow> map_find (sm_streams st') j = map_find (sm_streams st) j) \<and>
      (\<forall>tx. channel_sum tx st' = channel_sum tx st + (if tx then unat n else 0))))"
    using inv i
  proof (cases rule: createTx_cases [where env = env and name = name and ip = ip and port = port and n = n and mapping = mapping
      and sourcePort = sourcePort and dscp = dscp])
    case refused
    then show ?thesis using c by simp
  next
    case (added sdp m x mp e)
    have s: "st' = autoSaveIfEnabled env (sm_notify (StreamAdded (ms_info x)) (store_stream i x (st\<lparr>sm_mapper := mp\<rparr>)))" and r: "r = i"
      using c added(7) by auto
    have x: "ms_isTransmit x" "sd_numChannels (ms_sdp x) = n" by (simp_all add: added(1,6) announcedTxSession_def)
    have "channel_sum tx st' = channel_sum tx st + (if tx then unat n else 0)" for tx
      using sum_store [of "st\<lparr>sm_mapper := mp\<rparr>" i tx x] i(3) x by (simp add: s) (simp add: channel_sum_def)
    moreover have "usableChannelCount (sm_mapper st') = usableChannelCount (sm_mapper st)"
      using usable_add [OF added(4)] by (simp add: s)
    moreover have "sends st' i n" using x by (simp add: sends_def s)
    ultimately show ?thesis using r by (simp add: s)
  qed
  then show "usableChannelCount (sm_mapper st') = usableChannelCount (sm_mapper st)"
    "(r = StreamID_null \<and> st' = st) \<or> (r = i \<and> sends st' i n \<and> (\<forall>j. j \<noteq> i \<longrightarrow> map_find (sm_streams st') j = map_find (sm_streams st) j) \<and>
      (\<forall>tx. channel_sum tx st' = channel_sum tx st + (if tx then unat n else 0)))" by auto
qed

section \<open>All flows\<close>

definition restored_to :: "stream_manager \<Rightarrow> stream_manager \<Rightarrow> bool" where
  "restored_to st0 st \<longleftrightarrow> (\<forall>j. map_find (sm_streams st) j = map_find (sm_streams st0) j) \<and>
     usableChannelCount (sm_mapper st) = usableChannelCount (sm_mapper st0)"

text \<open>What the flows created so far have changed since \<open>st0\<close>.\<close>

definition since :: "stream_manager \<Rightarrow> stream_id list \<Rightarrow> stream_manager \<Rightarrow> bool" where
  "since st0 created st \<longleftrightarrow> (\<forall>i\<in>set created. map_find (sm_streams st0) i = None) \<and>
     (\<forall>j. j \<notin> set created \<longrightarrow> map_find (sm_streams st) j = map_find (sm_streams st0) j) \<and>
     usableChannelCount (sm_mapper st) = usableChannelCount (sm_mapper st0)"

lemma since_back: "sm_inv st \<Longrightarrow> since st0 created st \<Longrightarrow> restored_to st0 (roll_back env created st)"
  using roll_back_find [of st env created] by (auto simp: since_def restored_to_def)

definition flows_done :: "(nat \<Rightarrow> stream_id) \<Rightarrow> flow_plan \<Rightarrow> nat list \<Rightarrow> stream_manager \<Rightarrow> stream_manager \<Rightarrow> bool" where
  "flows_done ids p flows st st' \<longleftrightarrow> (\<forall>flow\<in>set flows. sends st' (ids flow) (flow_channels p flow)) \<and>
     (\<forall>j. j \<notin> ids ` set flows \<longrightarrow> map_find (sm_streams st') j = map_find (sm_streams st) j) \<and>
     (\<forall>tx. channel_sum tx st' = channel_sum tx st + (if tx then (\<Sum>flow\<leftarrow>flows. unat (flow_channels p flow)) else 0))"

lemma flows_done_Cons:
  assumes "flows_done ids p flows st1 st'" "sends st1 (ids flow) (flow_channels p flow)" "ids flow \<notin> ids ` set flows"
    "\<And>j. j \<noteq> ids flow \<Longrightarrow> map_find (sm_streams st1) j = map_find (sm_streams st) j"
    "\<And>tx. channel_sum tx st1 = channel_sum tx st + (if tx then unat (flow_channels p flow) else 0)"
  shows "flows_done ids p (flow # flows) st st'"
proof -
  have "sends st' (ids flow) (flow_channels p flow)" using assms(1-3) by (simp add: flows_done_def sends_def)
  then show ?thesis using assms by (auto simp: flows_done_def)
qed

lemma create_flows_result:
  assumes "sm_inv st" "distinct flows" "fresh_ids ids (set flows) st" "since st0 created st"
    "create_flows env ids p flows created st = (st', r)"
  shows "(r = [] \<and> restored_to st0 st') \<or> (r = created @ map ids flows \<and> flows_done ids p flows st st')"
  using assms
proof (induction flows arbitrary: created st)
  case Nil
  then show ?case by (simp add: flows_done_def)
next
  case (Cons flow flows)
  show ?case
  proof (cases "flow_address p flow")
    case None
    then show ?thesis using Cons.prems since_back by auto
  next
    case (Some a)
    obtain ip sp where a: "flow_address p flow = Some (ip, sp)" using Some by (cases a) auto
    obtain st1 i where c: "createTxStream env (ids flow) (flow_name p flow) ip (fp_port p) (flow_channels p flow) (flow_mapping p flow)
        sp (fp_dscp p) st = (st1, i)" by force
    note S = flow_step [OF Cons.prems(1-3) c]
    note R = createTx_result [OF Cons.prems(1) S(3-5) c]
    from R(2) show ?thesis
    proof
      assume "i = StreamID_null \<and> st1 = st"
      then show ?thesis using Cons.prems(1,4,5) a c since_back by auto
    next
      assume made: "i = ids flow \<and> sends st1 (ids flow) (flow_channels p flow) \<and> (\<forall>j. j \<noteq> ids flow \<longrightarrow> map_find (sm_streams st1) j = map_find (sm_streams st) j) \<and>
        (\<forall>tx. channel_sum tx st1 = channel_sum tx st + (if tx then unat (flow_channels p flow) else 0))"
      then have r: "create_flows env ids p flows (created @ [ids flow]) st1 = (st', r)" using Cons.prems(5) a c S(4) by simp
      have "map_find (sm_streams st0) (ids flow) = None" using Cons.prems(4) S(5) by (metis since_def)
      then have "since st0 (created @ [ids flow]) st1" using Cons.prems(4) made R(1) by (simp add: since_def)
      from Cons.IH [OF S(1) _ S(2) this r] have "(r = [] \<and> restored_to st0 st') \<or> (r = (created @ [ids flow]) @ map ids flows \<and> flows_done ids p flows st1 st')"
        using Cons.prems(2) by simp
      moreover have "ids flow \<notin> ids ` set flows" using Cons.prems(2,3) by (auto simp: fresh_ids_def inj_on_def)
      moreover have "flows_done ids p (flow # flows) st st'" if "flows_done ids p flows st1 st'" "ids flow \<notin> ids ` set flows"
        by (rule flows_done_Cons [OF that(1) _ that(2)]) (use made in simp_all)
      ultimately show ?thesis by auto
    qed
  qed
qed

text \<open>The channels of the flows add up.\<close>

lemma chunks: "(\<Sum>k\<leftarrow>[0..<c]. min (n - k * p) p) = min n (c * p :: nat)"
  by (induction c) (auto simp: min_def)

lemma per_flow_bounds: "0 < per_flow st" "per_flow st \<le> 64"
  by (auto simp: per_flow_def Let_def kMaxChannelsPerFlow_def)

lemma plan_channels:
  assumes "p = plan_flows st name ip port n mapping dscp" "flow < fp_count p"
  shows "unat (flow_channels p flow) = min (unat n - flow * per_flow st) (per_flow st)"
proof -
  note B = per_flow_bounds [of st]
  have c: "fp_perFlow p = per_flow st" "fp_channels p = n" "fp_count p = (unat n + per_flow st - 1) div per_flow st"
    by (simp_all add: assms(1) plan_flows_def Let_def)
  have "flow * per_flow st < unat n"
  proof -
    have "flow + 1 \<le> (unat n + per_flow st - 1) div per_flow st" using assms(2) c(3) by simp
    then have "(flow + 1) * per_flow st \<le> unat n + per_flow st - 1" using B(1) by (simp add: less_eq_div_iff_mult_less_eq)
    then show ?thesis using B(1) by simp
  qed
  moreover have "unat n < 65536" using unsigned_less [where 'a = nat, of n] by simp
  ultimately have s: "unat (of_nat (flow * per_flow st) :: u16) = flow * per_flow st" by (simp add: unat_of_nat del: of_nat_mult)
  moreover from this have "unat (n - of_nat (flow * per_flow st)) = unat n - flow * per_flow st"
    using \<open>flow * per_flow st < unat n\<close> by (subst unat_sub) (simp_all add: word_le_nat_alt)
  moreover have "unat (of_nat (per_flow st) :: u16) = per_flow st" using B(2) by (simp add: unat_of_nat)
  ultimately show ?thesis unfolding flow_channels_def c by (simp add: min_def word_le_nat_alt)
qed

lemma plan_total:
  assumes "p = plan_flows st name ip port n mapping dscp"
  shows "(\<Sum>flow\<leftarrow>[0..<fp_count p]. unat (flow_channels p flow)) = unat n"
proof -
  note B = per_flow_bounds [of st]
  have "(\<Sum>flow\<leftarrow>[0..<fp_count p]. unat (flow_channels p flow)) = (\<Sum>k\<leftarrow>[0..<fp_count p]. min (unat n - k * per_flow st) (per_flow st))"
    using plan_channels [OF assms] by (intro arg_cong [of _ _ sum_list] map_cong) auto
  also have "\<dots> = min (unat n) (fp_count p * per_flow st)" by (rule chunks)
  also have "\<dots> = unat n"
  proof -
    have "fp_count p * per_flow st + (unat n + per_flow st - 1) mod per_flow st = unat n + per_flow st - 1"
      by (simp add: assms plan_flows_def Let_def)
    moreover have "(unat n + per_flow st - 1) mod per_flow st < per_flow st" using B(1) by simp
    ultimately show ?thesis by linarith
  qed
  finally show ?thesis .
qed

section \<open>Theorems\<close>

text \<open>
  C12: a transmission that is wider than a flow may be is created whole or not at all. Either the streams, the matrix and the totals
  are what they were, at whichever flow it failed; or there is a sending stream under every identifier that is returned, none with
  more channels than the profile and a packet allow, together with exactly the channels that were asked for, and every other
  stream is as it was.
\<close>

theorem flows_all_or_nothing:
  assumes "sm_reachable (\<lambda>_. True) StreamManager st" "fresh_ids ids {..<unat n} st"
    "createTxStreamFlows env ids name ip port n mapping dscp st = (st', created)"
  shows "if created = [] then sm_streams st' = sm_streams st \<and> sm_mapper st' = sm_mapper st \<and> channels_in_use tx st' = channels_in_use tx st
    else distinct created \<and> list_all (\<lambda>i. \<not> hasStream i st \<and> (\<exists>c. sends st' i c \<and> unat c \<le> per_flow st)) created \<and>
      (\<forall>j. j \<notin> set created \<longrightarrow> map_find (sm_streams st') j = map_find (sm_streams st) j) \<and>
      channel_sum True st' = channel_sum True st + unat n \<and> channel_sum False st' = channel_sum False st"
proof (cases "n = 0")
  case True
  then show ?thesis using assms(3) by (simp add: createTxStreamFlows_def)
next
  case False
  define p where "p = plan_flows st name ip port n mapping dscp"
  have inv: "sm_inv st" using sm_reachable_inv [OF assms(1) inv_init] .
  have fresh: "fresh_ids ids (set [0..<fp_count p]) st" using plan_fresh [OF assms(2)] by (simp add: p_def)
  have c: "create_flows env ids p [0..<fp_count p] [] st = (st', created)" using assms(3) False by (simp add: createTxStreamFlows_def p_def Let_def)
  have "sm_inv st'" using create_flows_inv [OF inv distinct_upt fresh, of env p "[]"] c by simp
  have some: "0 < fp_count p" using plan_total [OF p_def] False by (cases "fp_count p") (auto simp: unat_eq_zero)
  from create_flows_result [OF inv distinct_upt fresh _ c, of st]
  consider "created = []" "restored_to st st'" | "created = map ids [0..<fp_count p]" "flows_done ids p [0..<fp_count p] st st'"
    by (auto simp: since_def)
  then show ?thesis
  proof cases
    case 1
    then show ?thesis using same_manager [OF inv \<open>sm_inv st'\<close>] by (simp add: restored_to_def)
  next
    case 2
    have "distinct created" using fresh by (simp add: 2(1) distinct_map fresh_ids_def)
    moreover have "list_all (\<lambda>i. \<not> hasStream i st \<and> (\<exists>c. sends st' i c \<and> unat c \<le> per_flow st)) created"
      using fresh 2(2) plan_channels [OF p_def] by (auto simp: 2(1) list_all_iff hasStream_def fresh_ids_def flows_done_def)
    ultimately show ?thesis using 2(2) some plan_total [OF p_def] by (simp add: flows_done_def 2(1))
  qed
qed

text \<open>Two channels in one flow, on a new manager.\<close>

lemma demo_flow_matrix:
  "snd (addMapping (complete_mapping (demo_id 1) ''Stage'' 2 (demo_mapping 0 0)) StreamChannelMapper)"
  by code_simp

lemma demo_per_flow: "per_flow StreamManager = 8"
  by (simp add: per_flow_def device_rate_u32_def StreamManager_def framesPerPacket_def maxChannelsPerPacket_def bytesPerSample_def
      kMaxChannelsPerFlow_def kMaxRtpPacketBytes_def kRtpHeaderBytes_def kEthernetMtuBytes_def kIpv4UdpOverheadBytes_def kMaxAudioBytesPerPacket_def
      Let_def forKind_def profile_defs)

definition demo_plan :: flow_plan where
  "demo_plan = plan_flows StreamManager ''Stage'' ''239.69.0.1'' 5004 2 (demo_mapping 0 0) 46"

lemma demo_plan_eq: "demo_plan = \<lparr>fp_name = ''Stage'', fp_ip = ''239.69.0.1'', fp_port = 5004, fp_channels = 2, fp_mapping = demo_mapping 0 0,
    fp_dscp = 46, fp_dolby = False, fp_unitOffset = 0, fp_perFlow = 8, fp_count = 1\<rparr>"
  by (simp add: demo_plan_def plan_flows_def demo_per_flow) (simp add: StreamManager_def forKind_def profile_defs)

lemma demo_flow:
  "flow_mapping demo_plan 0 = demo_mapping 0 0" "flow_channels demo_plan 0 = 2" "flow_name demo_plan 0 = ''Stage''"
  "flow_address demo_plan 0 = Some (''239.69.0.1'', 0)"
proof -
  show "flow_mapping demo_plan 0 = demo_mapping 0 0" "flow_channels demo_plan 0 = 2" "flow_name demo_plan 0 = ''Stage''"
    by (simp_all add: demo_plan_eq flow_mapping_def flow_channels_def flow_name_def demo_mapping_def)
  have "advanceLastOctet ''239.69.0.1'' 0 = Some ''239.69.0.1''" by code_simp
  then show "flow_address demo_plan 0 = Some (''239.69.0.1'', 0)" by (simp add: flow_address_def demo_plan_eq)
qed

lemma tx_done:
  assumes "fst (canAddStream env st (announcedTxSession (ev_now env) name ip port n (device_rate_u32 st) dscp) True)"
    "snd (addMapping (complete_mapping i name n m) (sm_mapper st))" "\<not> sm_ioActive st"
  shows "snd (createTxStream env i name ip port n m sourcePort dscp st) = i"
  using assms by (cases "addMapping (complete_mapping i name n m) (sm_mapper st)") (simp add: createTxStream_def start_if_active_def Let_def)

theorem flows_all_or_nothing_witness:
  "\<exists>st'. createTxStreamFlows demo_env (\<lambda>k. demo_id (k + 1)) ''Stage'' ''239.69.0.1'' 5004 2 (demo_mapping 0 0) 46 StreamManager = (st', [demo_id 1]) \<and>
     channel_sum True st' = 2"
proof -
  let ?ids = "\<lambda>k. demo_id (k + 1)"
  have "fst (canAddStream demo_env StreamManager (announcedTxSession (ev_now demo_env) ''Stage'' ''239.69.0.1'' 5004 2 (device_rate_u32 StreamManager) 46) True)"
    using demo_matrix_facts(3)
    by (intro admitted_stereo) (simp_all add: announcedTxSession_def sdp_default_def StreamManager_def channels_in_use_def device_rate_u32_def)
  then have "snd (createTxStream demo_env (demo_id 1) ''Stage'' ''239.69.0.1'' 5004 2 (demo_mapping 0 0) 0 46 StreamManager) = demo_id 1"
    using tx_done demo_flow_matrix by (simp add: StreamManager_def)
  then have "snd (create_flows demo_env ?ids demo_plan [0] [] StreamManager) = [demo_id 1]"
    using demo_flow demo_fresh(2) [of 1] by (simp add: demo_plan_eq split_def Let_def)
  then have c: "snd (createTxStreamFlows demo_env ?ids ''Stage'' ''239.69.0.1'' 5004 2 (demo_mapping 0 0) 46 StreamManager) = [demo_id 1]"
    by (simp add: createTxStreamFlows_def Let_def demo_plan_eq flip: demo_plan_def)
  have "{..<unat (2 :: u16)} = {0, 1}" by auto
  moreover have "demo_id 1 \<noteq> demo_id 2" by (simp add: demo_id_def)
  moreover have "sm_streams StreamManager = []" by (simp add: StreamManager_def)
  ultimately have "fresh_ids ?ids {..<unat (2 :: u16)} StreamManager"
    using demo_fresh(1) [of 1] demo_fresh(1) [of 2] demo_fresh(2) [of 1] demo_fresh(2) [of 2]
    by (simp add: fresh_ids_def flip: numeral_2_eq_2)
  then show ?thesis
    using flows_all_or_nothing [OF sm_reachable.start, of ?ids 2 demo_env "''Stage''" "''239.69.0.1''" 5004 "demo_mapping 0 0" 46] c
    by (cases "createTxStreamFlows demo_env ?ids ''Stage'' ''239.69.0.1'' 5004 2 (demo_mapping 0 0) 46 StreamManager")
      (simp add: channel_sum_def [of _ StreamManager] StreamManager_def [THEN arg_cong, of sm_streams])
qed

end
