(* ===== verification/Manager_Failures.thy ===== *)
theory Manager_Failures
  imports Manager_Properties
begin

text \<open>
  The manager across a restart, a source that moves and a mapping that changes: the file that follows the streams, and
  the cases in which a stream is not restored, not added again or left on channels it does not own.
\<close>

section \<open>The file\<close>

definition file_of :: "sm_env \<Rightarrow> stream_manager \<Rightarrow> string" where
  "file_of env st = streams_toJSON (map (stream_config (ev_now env) \<circ> snd) (sm_streams st))"

lemma save_file: "sm_autoSave st \<Longrightarrow> ev_writable env \<Longrightarrow> sm_file (autoSaveIfEnabled env st) = Some (file_of env (autoSaveIfEnabled env st))"
  unfolding file_of_def save_fields(1) by (simp add: autoSaveIfEnabled_def saveAllStreams_def saveConfig_def)

definition saved_ok :: "sm_env \<Rightarrow> stream_manager \<Rightarrow> bool" where
  "saved_ok env st \<longleftrightarrow> sm_file st = Some (file_of env st)"

lemma saved_add:
  assumes "sm_inv st" "valid_id i" "\<not> id_isNull i" "map_find (sm_streams st) i = None" "sm_autoSave st" "ev_writable env"
  shows "addStream env i sdp m st = (st, StreamID_null) \<or> saved_ok env (fst (addStream env i sdp m st))"
  using assms(1-4)
proof (cases rule: addStream_cases [where env = env and sdp = sdp and mapping = m])
  case (added mp e)
  show ?thesis unfolding added(4) using assms(5,6) by (simp add: saved_ok_def save_file)
qed simp

lemma saved_tx:
  assumes "sm_inv st" "valid_id i" "\<not> id_isNull i" "map_find (sm_streams st) i = None" "sm_autoSave st" "ev_writable env"
  shows "createTxStream env i name ip port n m sourcePort dscp st = (st, StreamID_null) \<or>
    saved_ok env (fst (createTxStream env i name ip port n m sourcePort dscp st))"
  using assms(1-4)
proof (cases rule: createTx_cases [where env = env and name = name and ip = ip and port = port and n = n and mapping = m
      and sourcePort = sourcePort and dscp = dscp])
  case (added sdp m' x mp e)
  show ?thesis unfolding added(7) using assms(5,6) by (simp add: saved_ok_def save_file)
qed simp

lemma saved_remove:
  assumes "sm_autoSave st" "ev_writable env"
  shows "removeStream env i st = (st, False) \<or> saved_ok env (fst (removeStream env i st))"
proof (cases "map_find (sm_streams st) i")
  case (Some m)
  have "sm_autoSave (recomputeActiveGrandmaster ((uncount_channels t n s)\<lparr>sm_streams := ms\<rparr>)) = sm_autoSave s" for t n s ms
    by (simp add: recomputeActiveGrandmaster_def uncount_channels_def)
  then show ?thesis using Some assms by (simp add: removeStream_def Let_def saved_ok_def save_file)
qed (simp add: removeStream_def)

lemma saved_update:
  assumes "sm_inv st" "sm_autoSave st" "ev_writable env" "snd (sm_updateMapping env i new st)"
  shows "saved_ok env (fst (sm_updateMapping env i new st))"
proof (cases "map_find (sm_streams st) i")
  case None
  then show ?thesis using assms(4) by (simp add: sm_updateMapping_def)
next
  case (Some ms)
  from assms(1) Some show ?thesis
  proof (cases rule: updateMapping_cases [where env = env and new = new])
    case (updated n e e' mp)
    show ?thesis unfolding updated(5) using assms(2,3) by (simp add: saved_ok_def save_file)
  qed (use assms(4) in simp_all)
qed

section \<open>Theorems\<close>



text \<open>
  C32: under a profile that only sends, no saved stream is ever restored, the senders among them included: each is validated as a
  receiver, and the profile refuses it.
\<close>

theorem restored_tx_refused:
  assumes "pf_direction (forKind (sm_profileKind st)) = TransmitOnly"
  shows "loadSavedStreams env (Some cs) st = (st, False)"
proof -
  have "\<not> fst (canAddStream env st sdp False)" for sdp
    using canAdd_facts(4) [of env st sdp False] assms by (auto simp: validate_iff)
  then have "load_all env cs st = (st, [])" by (induction cs) (simp_all add: load_one_def)
  then show ?thesis by (simp add: loadSavedStreams_def)
qed

theorem restored_tx_refused_witness:
  "loadSavedStreams demo_env (Some [demo_saved True]) (StreamManager\<lparr>sm_profileKind := DolbyDMA16\<rparr>) =
     (StreamManager\<lparr>sm_profileKind := DolbyDMA16\<rparr>, False)"
  by (rule restored_tx_refused) (simp add: forKind_def profile_defs)

text \<open>
  C34: a receiver that was routed by hand loses its routes when its source moves, and the receiver itself when the block of
  channels it is put on instead has one that another stream owns: it is removed before the new one is refused.
\<close>

theorem follow_routed_lost:
  assumes "sm_reachable (\<lambda>_. True) StreamManager st" "valid_id i" "\<not> id_isNull i" "\<not> hasStream i st"
    "map_find (sm_streams st) (pe_id p) = Some m" "map_find (sm_streams st) j = Some other" "j \<noteq> pe_id p"
    "ch \<in> set (deviceChannels (ms_mapping other))" "unat (pe_start p) \<le> ch" "ch < unat (pe_start p) + unat (sd_numChannels (pe_sdp p))"
  shows "snd (follow_one env i p st) = 0 \<and> sm_streams (fst (follow_one env i p st)) = map_erase (pe_id p) (sm_streams st)"
proof -
  have inv: "sm_inv st" using sm_reachable_inv [OF assms(1) inv_init] .
  obtain st1 where r: "removeStream env (pe_id p) st = (st1, True)"
    using removeStream_known(8) [OF inv assms(5), of env] by (cases "removeStream env (pe_id p) st") auto
  have s1: "sm_streams st1 = map_erase (pe_id p) (sm_streams st)" using removeStream_known(1) [OF inv assms(5), of env] r by simp
  have inv1: "sm_inv st1" using removeStream_inv [OF inv, of env "pe_id p"] r by simp
  have j: "map_find (sm_streams st1) j = Some other" using assms(6,7) by (simp add: s1)
  have i1: "map_find (sm_streams st1) i = None" using assms(4) by (simp add: s1 hasStream_def)
  let ?m = "complete_mapping i (sd_sessionName (pe_sdp p)) (sd_numChannels (pe_sdp p)) (follow_mapping p)"
  have D: "mapper_inv (sm_mapper st1)" "map_find (mappings (sm_mapper st1)) j = Some (ms_mapping other)"
    using sm_invD(2,3) [OF inv1] j by (simp_all add: mapper_exact_def)
  have "owners (sm_mapper st1) ! ch = j" "ch < kMaxDeviceChannels" using mapper_invD(5) [OF D assms(8)] by auto
  moreover have "\<not> id_isNull j" using sm_invD(4) [OF inv1 j] by (simp add: stream_ok_def)
  moreover have "ch \<in> set (deviceChannels ?m)"
    using assms(9,10) by (auto simp: deviceChannels_def complete_mapping_def follow_mapping_def mapping_default_def)
  ultimately have "isOverlapWithStream ?m StreamID_null (sm_mapper st1)"
    by (auto simp: isOverlapWithStream_def list_ex_iff)
  then have "addMapping ?m (sm_mapper st1) = (sm_mapper st1, False)" by (simp add: addMapping_def)
  then have "addStream env i (pe_sdp p) (follow_mapping p) st1 = (st1, StreamID_null)" using i1 by (simp add: addStream_def)
  then show ?thesis by (simp add: follow_one_def r s1)
qed

theorem follow_routed_lost_witness:
  "snd (follow_one demo_env (demo_id 3) \<lparr>pe_id = demo_id 1, pe_start = 0, pe_sdp = demo_session []\<rparr> demo_second) = 0 \<and>
   \<not> hasStream (demo_id 1) (fst (follow_one demo_env (demo_id 3) \<lparr>pe_id = demo_id 1, pe_start = 0, pe_sdp = demo_session []\<rparr> demo_second))"
proof -
  let ?p = "\<lparr>pe_id = demo_id 1, pe_start = 0, pe_sdp = demo_session []\<rparr>"
  have r: "sm_reachable (\<lambda>_. True) StreamManager demo_second" by (rule demo_reachable(2)) simp_all
  have n: "demo_id 3 \<noteq> demo_id 1" "demo_id 3 \<noteq> demo_id 2" "\<not> id_isNull (demo_id 3)" "demo_id 2 \<noteq> demo_id 1" by (simp_all add: demo_id_def id_isNull_def)
  obtain m where m: "map_find (sm_streams demo_second) (pe_id ?p) = Some m" using demo_second_facts(1) by auto
  have three: "\<not> hasStream (demo_id 3) demo_second" using demo_second_facts(4) n(1,2) by (simp add: hasStream_def)
  have "0 \<in> set (deviceChannels (ms_mapping (idle_receiver demo_env (demo_id 2) (demo_session ''00-1D-C1-FF-FE-00-00-01'') (demo_mapping 0 0) demo_first)))"
    by (simp add: complete_mapping_def demo_mapping_def deviceChannels_def demo_session_def sdp_default_def)
  moreover have "sd_numChannels (demo_session []) = 2" by (simp add: demo_session_def sdp_default_def)
  ultimately have "snd (follow_one demo_env (demo_id 3) ?p demo_second) = 0 \<and>
      sm_streams (fst (follow_one demo_env (demo_id 3) ?p demo_second)) = map_erase (pe_id ?p) (sm_streams demo_second)"
    using n(4) by (intro follow_routed_lost [OF r demo_fresh(1) n(3) three m demo_second_facts(2), where ch = 0]) simp_all
  then show ?thesis by (simp add: hasStream_def)
qed

text \<open>
  C22: when the mapping of a running stream is changed and its socket does not open again, the change is reported as refused and the
  matrix keeps the old mapping, but the object that moves the audio is stopped and left on the new one. It is on the channels of the
  new mapping, which the matrix may by then have given to another stream, that it plays when the device is started again.
\<close>

theorem update_restart_disagrees:
  assumes "sm_reachable (\<lambda>_. True) StreamManager st" "map_find (sm_streams st) i = Some ms" "ms_endpoint ms = Some e" "re_running e"
    "n = new\<lparr>streamID := i, streamName := streamName (ms_mapping ms), streamChannelCount := sd_numChannels (ms_sdp ms)\<rparr>"
    "snd (updateMapping n (sm_mapper st))" "mappingFitsDevice n (sd_numChannels (ms_sdp ms))" "\<not> ev_opens env (e\<lparr>re_running := False, re_mapping := n\<rparr>)"
    "sm_updateMapping env i new st = (st', ok)"
  shows "\<not> ok \<and> sm_mapper st' = sm_mapper st \<and> (\<exists>ms' e'. map_find (sm_streams st') i = Some ms' \<and> ms_mapping ms' = ms_mapping ms \<and>
    ms_endpoint ms' = Some e' \<and> re_mapping e' = n \<and> \<not> re_running e')"
proof -
  have inv: "sm_inv st" using sm_reachable_inv [OF assms(1) inv_init] .
  have sdp: "re_sdp e = ms_sdp ms" using sm_invD(4) [OF inv assms(2)] assms(3) by (auto simp: stream_ok_def)
  have u: "rtp_updateMapping (ev_opens env) n e = (e\<lparr>re_running := False, re_mapping := n\<rparr>, False)"
    using assms(4,7,8) by (simp add: rtp_updateMapping_def rtp_start_def rtp_stop_def sdp Let_def)
  from inv assms(2) show ?thesis
  proof (cases rule: updateMapping_cases [where env = env and new = new])
    case refused
    then show ?thesis using assms(5,6) by simp
  next
    case (restored e0 e')
    then have e': "e' = e\<lparr>re_running := False, re_mapping := n\<rparr>" using assms(3) u by (simp add: assms(5))
    show ?thesis using restored(3) assms(9) e' by (auto simp: ms_endpoint_def)
  next
    case (updated n' e0 e' mp)
    then have False using assms(3) u by (simp add: assms(5))
    then show ?thesis ..
  qed
qed

text \<open>The first of the two streams of the example, with the device started, is to move to channels 8 and 9.\<close>

definition demo_running :: stream_manager where
  "demo_running = sm_apply demo_env (\<lambda>_. demo_id 0) (SetIO True) demo_first"

theorem update_restart_disagrees_witness:
  "\<exists>m e. map_find (sm_streams (fst (sm_updateMapping (demo_env\<lparr>ev_opens := \<lambda>_. False\<rparr>) (demo_id 1) (demo_mapping 0 8) demo_running))) (demo_id 1) = Some m \<and>
     ms_endpoint m = Some e \<and> deviceChannelStart (ms_mapping m) = 4 \<and> deviceChannelStart (re_mapping e) = 8"
proof -
  let ?env = "demo_env\<lparr>ev_opens := \<lambda>_. False\<rparr>" and ?s = "demo_session ''001dc1fffe000001''"
  let ?x = "restart_all demo_env True (idle_receiver demo_env (demo_id 1) ?s (demo_mapping 0 4) (StreamManager\<lparr>sm_autoSave := False\<rparr>))"
  let ?n = "(demo_mapping 0 8)\<lparr>streamID := demo_id 1, streamName := streamName (ms_mapping ?x), streamChannelCount := sd_numChannels (ms_sdp ?x)\<rparr>"
  note F = demo_first_facts
  have s: "sd_sessionName ?s = ''Desk''" "sd_numChannels ?s = 2" "sd_port ?s = 5004" "sd_connectionAddress ?s \<noteq> []"
    by (simp_all add: demo_session_def sdp_default_def)
  have r: "sm_reachable (\<lambda>_. True) StreamManager demo_running" unfolding demo_running_def
    by (rule sm_reachable.call [OF demo_reachable(1)]) (simp_all add: fresh_ids_def)
  have d: "sm_streams demo_running = [(demo_id 1, ?x)]" "sm_mapper demo_running = demo_matrix"
    using F by (simp_all add: demo_running_def setIOActive_def)
  have x: "map_find (sm_streams demo_running) (demo_id 1) = Some ?x" by (simp add: d)
  define c where "c = createReceiver (StreamManager\<lparr>sm_autoSave := False\<rparr>) ?s (complete_mapping (demo_id 1) ''Desk'' 2 (demo_mapping 0 4)) 0 []"
  have o: "ev_opens demo_env = (\<lambda>_. True)" by (simp add: demo_env_def)
  have "ms_endpoint (idle_receiver demo_env (demo_id 1) ?s (demo_mapping 0 4) (StreamManager\<lparr>sm_autoSave := False\<rparr>)) = Some c"
    by (simp add: ms_endpoint_def c_def s)
  then have e: "ms_endpoint ?x = Some (fst (rtp_start (\<lambda>_. True) c))" by (simp add: restart_endpoint o)
  have g: "re_running (fst (rtp_start (\<lambda>_. True) c))" by (simp add: rtp_start_def c_def createReceiver_def s)
  have n: "?n = (demo_mapping 1 8)\<lparr>streamName := ''Desk''\<rparr>"
    by (simp add: restart_facts s demo_mapping_def complete_mapping_def)
  have "snd (updateMapping ((demo_mapping 1 8)\<lparr>streamName := ''Desk''\<rparr>) demo_matrix)" by code_simp
  then have "snd (updateMapping ?n (sm_mapper demo_running))" unfolding n d(2) .
  moreover have "mappingFitsDevice ?n (sd_numChannels (ms_sdp ?x))"
    unfolding n by (simp add: restart_facts s mappingFitsDevice_def demo_mapping_def kMaxDeviceChannels_def)
  moreover obtain st' ok where u: "sm_updateMapping ?env (demo_id 1) (demo_mapping 0 8) demo_running = (st', ok)" by force
  ultimately obtain m e' where m: "map_find (sm_streams st') (demo_id 1) = Some m" "ms_mapping m = ms_mapping ?x" "ms_endpoint m = Some e'" "re_mapping e' = ?n"
    using update_restart_disagrees [OF r x e g refl _ _ _ u] by auto
  then have "deviceChannelStart (ms_mapping m) = 4" "deviceChannelStart (re_mapping e') = 8"
    by (simp_all add: restart_facts complete_mapping_def demo_mapping_def)
  then show ?thesis using m(1,3) u by auto
qed

end
