(* ===== verification/Spec2Isabelle.thy ===== *)
theory Spec2Isabelle
  imports Ring_Buffer_Threads Jitter_Buffer Mapper_Json RTP_Format RTCP_Parser Grandmaster Session_Directory
    Registry_Browser Grid_Requests Registration_Client Transmit_Flows Manager_Failures
begin

text \<open>
  A verification development of the AES67 audio-over-IP system: a core library that receives and
  sends RTP audio (\<open>src/packages/aes67-core\<close>), a PTP grandmaster for Linux (\<open>aes67-linux-ptpd\<close>), the RAVENNA and NMOS
  session layer (\<open>aes67-ravenna\<close>), shared profiles (\<open>aes67-profiles\<close>), and a macOS driver around them
  (\<open>aes67-macos-driver\<close>). Paths below are relative to \<open>src/packages\<close>.

  \<^bold>\<open>The parts and how they work together.\<close> A session description (SDP) names a stream: its multicast group, format and
  clock. Senders publish descriptions over RTSP, found through DNS-SD (RAVENNA), or shout them over SAP; a
  receiver that is connected to one is given device channels by the channel mapper. RTP packets arrive into a jitter
  buffer whose packets come from a lock-free pool, and samples cross to the audio thread through a
  single-producer single-consumer ring. All devices follow one PTP clock; the Linux daemon can be its
  grandmaster, steered by a pulse-per-second reference.

  \<^bold>\<open>Audio path\<close> (\<open>aes67-core\<close>).
  \<^item> \<open>Ring_Buffer\<close>: \<open>Shared/RingBuffer.hpp\<close> as a record of the vector and its two indices; \<open>ring_write\<close> and the
    other operations are the methods. They refine a bounded queue (locale \<open>bounded_fifo\<close>), for any schedule of
    calls. \<open>Ring_Buffer_Threads\<close>: the two threads interleaved at every access the other can see. What is read
    is a prefix of what was written, no cell is copied by both at once, and a call runs to its end.
  \<^item> \<open>Packet_Pool\<close>: \<open>NetworkEngine/RTP/LockFreePacketPool.cpp\<close>. Any number of threads interleave at every
    atomic access, compare-and-swap may fail spuriously. No packet is handed out twice and the free list holds exactly
    the packets nobody holds. The version tag is 64 bits wide: the theorems bound the number of successful swaps
    by \<open>2 ^ 64\<close>, and what happens when the tag wraps is stated apart.
  \<^item> \<open>Jitter_Buffer\<close>: \<open>NetworkEngine/RTP/LockFreeCircularJitterBuffer.cpp\<close>, sequentially and interleaved: a packet
    is delivered at most once, the counters cannot wrap, what is added is what is taken.
  \<^item> \<open>RTP_Format\<close>: \<open>RTPHeader.h\<close> and \<open>PacketBudget.h\<close>: sequence gaps across the 16-bit wrap and the largest
    packet that fits the MTU.
  \<^item> \<open>Peer_Tables\<close>, \<open>RTCP_Parser\<close>: the tables of \<open>PTPPeerTable.h\<close> and \<open>RTCPReceiverTable.h\<close> and the RTCP reader, which
    never reads outside a packet. Both tables are instances of \<open>aged_table\<close>.

  \<^bold>\<open>Descriptions and channels\<close> (\<open>aes67-core\<close>).
  \<^item> \<open>Std_Strings\<close>, \<open>Std_Map\<close>, \<open>Std_Float\<close>: what the code uses of the C++ standard library. A \<open>double\<close> is the rational
    number it stands for, rounded to 53 bits after every operation.
  \<^item> \<open>Stream_Types\<close>: \<open>Shared/Types.h\<close>. \<open>Json_Text\<close>: \<open>JsonEscape.h\<close>, \<open>JsonFields.cpp\<close>. \<open>Json_Fields\<close>: when a field that was written
    as a line of an object is the one a search for its key finds.
  \<^item> \<open>Channel_Mapper\<close>, \<open>Mapper_Json\<close>: \<open>NetworkEngine/StreamChannelMapper.cpp\<close>, a record of the mappings and the owner of
    each of the 128 channels. No channel has two owners and the owner table says exactly who; a saved
    configuration loads back.
  \<^item> \<open>SDP\<close>, \<open>SDP_Roundtrip\<close>, \<open>SDP_Sessions\<close>: \<open>Driver/SDPParser.cpp\<close>. \<open>on_the_wire\<close> says what becomes of a session that is
    written and read; accepted descriptions are valid; the numbers of a media line are exact.
  \<^item> \<open>Tool_Options\<close>: \<open>Shared/ToolOptions.h\<close> and the options of the daemon.

  \<^bold>\<open>Streams of the driver\<close> (\<open>aes67-macos-driver\<close>, \<open>aes67-profiles\<close>).
  \<^item> \<open>Compat_Profiles\<close>: \<open>CompatibilityProfile.cpp\<close>, \<open>DolbyModelCatalog.h\<close>, \<open>ConfigPaths.cpp\<close>: what each profile accepts, and its file.
  \<^item> \<open>Stream_Config\<close>: \<open>StreamConfig.cpp\<close>. The saved streams are read back, as long as no text has a bracket or a brace; with one
    they are lost.
  \<^item> \<open>Stream_Manager\<close>: \<open>StreamManager.cpp\<close>, one function per operation on a record of the streams, the channel matrix, the
    running totals, the grandmaster, the clocks, the file and the notifications. \<open>Managed_Streams\<close>: its invariant, kept by every operation, and
    the locale \<open>kept\<close>: a property that survives admission, removal, replacement and the settings holds in
    every state that calls can lead to (\<open>sm_reachable\<close>). \<open>Manager_Properties\<close>: the matrix and the totals are exact, the streams share a
    rate and a grandmaster, and a demanded lock is never reached. \<open>Transmit_Flows\<close>: flows are created together or not at
    all. \<open>Manager_Failures\<close>: the file follows the streams; what is lost in a restart, a move and a failed change.

  \<^bold>\<open>Clock\<close> (\<open>aes67-linux-ptpd\<close>, \<open>aes67-profiles\<close>).
  \<^item> \<open>PTP_Types\<close>, \<open>PTP_Wire\<close>: identities, intervals, profiles and the bytes of the messages (\<open>PtpWire.cpp\<close>).
  \<^item> \<open>External_Reference\<close>: \<open>ExternalReference.cpp\<close>; the servo of the \<open>t41-ptp\<close> library, whose sources are not in the
    repository, is a record of functions (\<open>servo_api\<close>) given to the operations.
  \<^item> \<open>Grandmaster\<close>: \<open>Grandmaster.cpp\<close>: it announces what its reference is worth, pairs every Sync with its
    Follow_Up, answers every delay request and keeps its intervals.

  \<^bold>\<open>Sessions on the network\<close> (\<open>aes67-ravenna\<close>, \<open>aes67-macos-driver\<close>).
  \<^item> \<open>DNS_SD\<close>: \<open>Ravenna/DnsSd.cpp\<close>. The readers are total: every loop consumes its packet, and the compression
    pointers are followed a bounded number of times, as in the code.
  \<^item> \<open>Ravenna_Sessions\<close>: \<open>RtspMessages.cpp\<close>, \<open>SessionCatalogue.cpp\<close> and \<open>RtspServer::answer\<close>. A session that was added is
    found by a browser and described as it was added, through every layer.
  \<^item> \<open>Receiver_Routing\<close>: \<open>ReceiverRouting.cpp\<close> over the channel mapper. \<open>Registry_Browser\<close>: \<open>RegistryBrowser.cpp\<close>.
  \<^item> \<open>SAP\<close>: \<open>SAPListener.cpp\<close> and \<open>SAPAnnouncer.cpp\<close>. A listener follows an announcer exactly, as long as the
    descriptions have distinct non-zero hashes; the parser is total. \<open>Session_Directory\<close>: \<open>SessionDirectory.cpp\<close> refines a map
    from identities to times (locale \<open>session_store\<close>); what \<open>DiscoveryBridge.cpp\<close> files into it is shown to go stale.

  \<^bold>\<open>Control over HTTP\<close> (\<open>aes67-ravenna\<close>).
  \<^item> \<open>Json_Values\<close>: \<open>Ravenna/Json.cpp\<close>, the parser as mutually recursive functions on the rest of the text. It never nests
    deeper than 64, and what is written is read back. \<open>Nmos_Common\<close>: \<open>ApiReplies.cpp\<close> and \<open>TaiClock.cpp\<close>.
  \<^item> \<open>Connection_Api\<close>: \<open>ConnectionApi.cpp\<close>, every request as one function of the stored resources and of the state of the
    host. \<open>Connection_Requests\<close>: what a request may change, when it is undefined, and that a bulk request is its parts;
    \<open>Receiver_Routing\<close> is its host (locale \<open>activation_host\<close>).
  \<^item> \<open>Channel_Mapping_Api\<close>: \<open>ChannelMappingApi.cpp\<close>, over the same routing. \<open>Grid_Requests\<close>: an action changes the
    grid of device channels in the cells it names; a dry run changes nothing; whatever requests arrive on both
    interfaces, the channel matrix and the active states agree.
  \<^item> \<open>Node_Api\<close>: \<open>NodeApi.cpp\<close> and \<open>NmosRoot.cpp\<close>. Resources refer only to what is registered before them, and a version
    changes exactly with the content.
  \<^item> \<open>Http_Exchange\<close>: \<open>HTTPClient.cpp\<close> and \<open>HttpServer.cpp\<close>. What the client writes reaches the handler and its answer
    comes back, in whatever pieces they arrive. \<open>Registration_Client\<close>: \<open>RegistrationClient.cpp\<close> over these texts; the network and the
    registry behind it are arguments (\<open>web\<close>, \<open>is04_registry\<close>). Registration is complete and failover ends.

  \<^bold>\<open>Interfaces.\<close> \<open>codec\<close> (a printer and its parser), \<open>bounded_fifo\<close>, \<open>std_map\<close>, \<open>exclusive_table\<close> (owners of channels),
  \<open>aged_table\<close>, \<open>paced_loop\<close> (periodic sending), \<open>session_store\<close>, \<open>activation_host\<close> and \<open>kept\<close> are locales, each interpreted on the definitions of the component that provides it; properties use the interpreted facts.

  \<^bold>\<open>Conventions.\<close> An operation that may read or write outside a buffer, follow a null pointer or throw returns an option
  or a sum, so that a theorem that gives it a result also rules these out. Words keep the width of the source where
  they can wrap. Clock values, random identifiers, and the answers of the operating system are arguments.
  Loops end by their measures; there is no fuel. An acquire and release pair of accesses is taken as one order
  of steps; weaker memory orders are not modelled.

  \<^bold>\<open>Not modelled.\<close> Sockets, threads as such, files, logging and the hardware clock (their results are arguments); the
  floating-point filters of the phase-locked loop and of the sample codecs; the Core Audio device and libASPL; the
  Swift applications. The macOS PTP slave and master are built on \<open>t41-ptp\<close>, which is not in the repository. The settings files
  other than the saved streams are flat lists of fields for the reader that is modelled; the error counters, the log and
  the buffer monitor only observe. Of the RTP objects of the macOS driver \<open>start\<close>, \<open>stop\<close> and \<open>updateMapping\<close> are
  modelled, not their threads; the discovery servers of that driver repeat the interfaces of the session layer on
  the system's own DNS-SD library.
\<close>

end
